(* ===== verification/Volume_Prelude.thy ===== *)
theory Volume_Prelude
  imports Main "HOL-Library.AList" "HOL-Library.Multiset"
begin

text \<open>
  Shared vocabulary of the development: Go maps as association lists with distinct keys and the
  contract they satisfy, Go errors as values, and \<open>time.Time\<close>/\<open>time.Duration\<close> with the
  saturating subtraction of the Go standard library.
\<close>

named_theorems gomap_simps \<open>lookup laws of the Go map operations\<close>
named_theorems gomap_wf \<open>preservation of key distinctness by the Go map operations\<close>

section \<open>Names\<close>

type_synonym uid = string
type_synonym node_name = string
type_synonym unique_volume_name = string
type_synonym unique_pod_name = string

section \<open>Go maps\<close>

text \<open>
  A Go \<open>map[K]V\<close> is an association list whose keys are distinct. The order of the list stands for
  the order in which a \<open>range\<close> loop meets the entries. Go leaves that order open; every statement
  below is about an arbitrary list with distinct keys, so it covers each order.
\<close>

type_synonym ('k, 'v) gomap = "('k \<times> 'v) list"

definition mget :: "('k, 'v) gomap \<Rightarrow> 'k \<Rightarrow> 'v option" where
  "mget m k = map_of m k"

definition mput :: "'k \<Rightarrow> 'v \<Rightarrow> ('k, 'v) gomap \<Rightarrow> ('k, 'v) gomap" where
  "mput k v m = AList.update k v m"

definition mdel :: "'k \<Rightarrow> ('k, 'v) gomap \<Rightarrow> ('k, 'v) gomap" where
  "mdel k m = AList.delete k m"

definition mhas :: "('k, 'v) gomap \<Rightarrow> 'k \<Rightarrow> bool" where
  "mhas m k \<longleftrightarrow> mget m k \<noteq> None"

definition mwf :: "('k, 'v) gomap \<Rightarrow> bool" where
  "mwf m \<longleftrightarrow> distinct (map fst m)"

text \<open>
  The contract of a map that the caches rely on: what a lookup returns after a store or a delete,
  and that the representation invariant survives both.
\<close>

locale go_map =
  fixes empty :: "'m"
    and get :: "'m \<Rightarrow> 'k \<Rightarrow> 'v option"
    and put :: "'k \<Rightarrow> 'v \<Rightarrow> 'm \<Rightarrow> 'm"
    and del :: "'k \<Rightarrow> 'm \<Rightarrow> 'm"
    and entries :: "'m \<Rightarrow> ('k \<times> 'v) list"
    and wf :: "'m \<Rightarrow> bool"
  assumes get_empty: "get empty k = None"
    and get_put: "get (put k v m) k' = (if k' = k then Some v else get m k')"
    and get_del: "get (del k m) k' = (if k' = k then None else get m k')"
    and wf_empty: "wf empty"
    and wf_put: "wf m \<Longrightarrow> wf (put k v m)"
    and wf_del: "wf m \<Longrightarrow> wf (del k m)"
    and entries_get: "wf m \<Longrightarrow> (k, v) \<in> set (entries m) \<longleftrightarrow> get m k = Some v"
    and entries_distinct: "wf m \<Longrightarrow> distinct (map fst (entries m))"
begin

lemma get_put_same: "get (put k v m) k = Some v"
  by (simp add: get_put)

lemma get_put_other: "k' \<noteq> k \<Longrightarrow> get (put k v m) k' = get m k'"
  by (simp add: get_put)

lemma get_del_same: "get (del k m) k = None"
  by (simp add: get_del)

lemma get_del_put: "get (del k (put k v m)) k' = get (del k m) k'"
  by (simp add: get_put get_del)

lemma entries_put:
  "wf m \<Longrightarrow> set (entries (put k v m)) = insert (k, v) {e \<in> set (entries m). fst e \<noteq> k}"
  by (auto simp: entries_get wf_put get_put split: if_splits)

lemma entries_del:
  "wf m \<Longrightarrow> set (entries (del k m)) = {e \<in> set (entries m). fst e \<noteq> k}"
  by (auto simp: entries_get wf_del get_del split: if_splits)

lemma entries_empty_iff: "wf m \<Longrightarrow> entries m = [] \<longleftrightarrow> (\<forall>k. get m k = None)"
proof
  assume w: "wf m" and e: "entries m = []"
  show "\<forall>k. get m k = None"
  proof
    fix k
    show "get m k = None"
      using e entries_get [OF w, of k] by (cases "get m k") auto
  qed
next
  assume w: "wf m" and n: "\<forall>k. get m k = None"
  then have "x \<notin> set (entries m)" for x
    using entries_get [OF w] by (cases x) auto
  then show "entries m = []" by (cases "entries m") auto
qed

end

interpretation gm: go_map "[]" mget mput mdel "\<lambda>m. m" mwf
proof unfold_locales
  show "mget [] k = None" for k :: 'a by (simp add: mget_def)
  show "mget (mput k v m) k' = (if k' = k then Some v else mget m k')" for k k' :: 'a and v :: 'b and m
    by (simp add: mget_def mput_def update_conv')
  show "mget (mdel k m) k' = (if k' = k then None else mget m k')" for k k' :: 'a and m :: "('a, 'b) gomap"
    by (simp add: mget_def mdel_def delete_conv')
  show "mwf []" by (simp add: mwf_def)
  show "mwf (mput k v m)" if "mwf m" for k :: 'a and v :: 'b and m
    using that by (simp add: mwf_def mput_def distinct_update)
  show "mwf (mdel k m)" if "mwf m" for k :: 'a and m :: "('a, 'b) gomap"
    using that by (simp add: mwf_def mdel_def distinct_delete)
  show "(k, v) \<in> set m \<longleftrightarrow> mget m k = Some v" if "mwf m" for k :: 'a and v :: 'b and m
    using that by (simp add: mwf_def mget_def)
  show "distinct (map fst m)" if "mwf m" for m :: "('a, 'b) gomap"
    using that by (simp add: mwf_def)
qed

lemmas gomap_lookup [gomap_simps, simp] =
  gm.get_empty gm.get_put_same gm.get_put_other gm.get_del_same
lemmas gomap_keys [gomap_wf, intro, simp] = gm.wf_empty gm.wf_put gm.wf_del

lemma mget_Cons [simp]: "mget ((k, v) # m) k' = (if k' = k then Some v else mget m k')"
  by (simp add: mget_def)

lemma mwf_Cons [simp]: "mwf ((k, v) # m) \<longleftrightarrow> mget m k = None \<and> mwf m"
  by (simp add: mwf_def mget_def map_of_eq_None_iff)

lemma mget_SomeD: "mget m k = Some v \<Longrightarrow> (k, v) \<in> set m"
  by (simp add: mget_def map_of_SomeD)

lemma mget_None_iff: "mget m k = None \<longleftrightarrow> k \<notin> fst ` set m"
  by (simp add: mget_def map_of_eq_None_iff)

lemma mput_keys: "fst ` set (mput k v m) = insert k (fst ` set m)"
  by (auto simp: mput_def dom_update)

lemma mdel_keys: "fst ` set (mdel k m) = fst ` set m - {k}"
  by (auto simp: mdel_def AList.delete_eq)

lemma mdel_notin [simp]: "mget m k = None \<Longrightarrow> mdel k m = m"
  by (simp add: mdel_def mget_None_iff delete_idem)

lemma length_mdel: "mwf m \<Longrightarrow> mget m k = Some v \<Longrightarrow> Suc (length (mdel k m)) = length m"
proof (induction m)
  case Nil
  then show ?case by simp
next
  case (Cons e m)
  then show ?case
    by (cases e) (auto simp: mdel_def mget_None_iff delete_idem split: if_splits)
qed

text \<open>A predicate on all entries of a map.\<close>

definition mall :: "('k \<Rightarrow> 'v \<Rightarrow> bool) \<Rightarrow> ('k, 'v) gomap \<Rightarrow> bool" where
  "mall P m \<longleftrightarrow> (\<forall>k v. mget m k = Some v \<longrightarrow> P k v)"

lemma mall_empty [simp]: "mall P []"
  by (simp add: mall_def)

lemma mall_put [intro!]: "mall P m \<Longrightarrow> P k v \<Longrightarrow> mall P (mput k v m)"
  by (simp add: mall_def gm.get_put)

lemma mall_del [intro!]: "mall P m \<Longrightarrow> mall P (mdel k m)"
  by (simp add: mall_def gm.get_del)

lemma mall_get: "mall P m \<Longrightarrow> mget m k = Some v \<Longrightarrow> P k v"
  by (simp add: mall_def)

lemma mall_Cons: "mwf ((k, v) # m) \<Longrightarrow> mall P ((k, v) # m) \<longleftrightarrow> P k v \<and> mall P m"
  by (auto simp: mall_def)

lemma mhas_put [simp]: "mhas (mput k v m) k' \<longleftrightarrow> k' = k \<or> mhas m k'"
  by (simp add: mhas_def gm.get_put)

lemma mhas_del [simp]: "mhas (mdel k m) k' \<longleftrightarrow> k' \<noteq> k \<and> mhas m k'"
  by (simp add: mhas_def gm.get_del)

lemma mhas_empty [simp]: "\<not> mhas [] k"
  by (simp add: mhas_def)

lemma mput_nonempty [simp]: "mput k v m \<noteq> []"
  by (metis gm.get_empty gm.get_put_same option.distinct(1))

lemma mput_mput [simp]: "mput k v (mput k w m) = mput k v m"
  by (simp add: mput_def AList.update_last)

lemma mempty_iff: "m = [] \<longleftrightarrow> (\<forall>k. \<not> mhas m k)"
proof (cases m)
  case (Cons e es)
  then show ?thesis by (cases e) (auto simp: mhas_def intro: exI [of _ "fst e"])
qed simp

text \<open>Code that builds a map in a loop.\<close>

lemma mget_fold_mput_SomeD:
  "mget (fold (\<lambda>(k, v). mput k v) es acc) k = Some v \<Longrightarrow> (k, v) \<in> set es \<or> mget acc k = Some v"
  by (induction es arbitrary: acc) (force simp: gm.get_put split: if_splits)+

lemma mget_fold_mput_None:
  "mget (fold (\<lambda>(k, v). mput k v) es acc) k = None \<longleftrightarrow> k \<notin> fst ` set es \<and> mget acc k = None"
  by (induction es arbitrary: acc) (auto simp: gm.get_put split: if_splits)

lemma mwf_fold_mput: "mwf acc \<Longrightarrow> mwf (fold (\<lambda>(k, v). mput k v) es acc)"
  by (induction es arbitrary: acc) auto

lemma fold_nested: "fold (\<lambda>x. fold f (g x)) xs = fold f (concat (map g xs))"
  by (induction xs) auto

text \<open>Code that ranges over a map and rewrites every value in place.\<close>

lemma mget_map: "mget (map (\<lambda>(k, v). (k, f k v)) m) k = map_option (f k) (mget m k)"
  by (induction m) auto

lemma mwf_map [simp]: "mwf (map (\<lambda>(k, v). (k, f k v)) m) = mwf m"
  by (induction m) (auto simp: mget_map)

section \<open>Multisets of goroutines\<close>

lemma in_mset_bound: "x \<in># A \<Longrightarrow> \<forall>y. count A y \<le> f y \<Longrightarrow> 0 < (f x :: nat)"
  by (metis count_greater_zero_iff less_le_trans)

lemma pair_subseteq_count:
  "{#x, y#} \<subseteq># A \<Longrightarrow> x = y \<Longrightarrow> 2 \<le> count A x"
  by (auto dest: mset_subset_eq_count [of _ _ x])

lemma pair_subseteq_add_mset:
  assumes "{#x, y#} \<subseteq># add_mset z A"
  shows "{#x, y#} \<subseteq># A \<or> (x = z \<and> y \<in># A) \<or> (y = z \<and> x \<in># A)"
proof (cases "x = z \<or> y = z")
  case True
  then show ?thesis
    using assms by (auto simp: insert_subset_eq_iff add_mset_commute)
next
  case False
  have "count {#x, y#} w \<le> count A w" for w
    using mset_subset_eq_count [OF assms, of w] False by (auto split: if_splits)
  then show ?thesis by (auto intro: mset_subset_eqI)
qed

lemma mset_swap_delete:
  assumes "i < length xs"
  shows "mset (butlast (xs[i := xs ! (length xs - 1)])) = mset xs - {#xs ! i#}"
proof -
  obtain ys z where xs: "xs = ys @ [z]"
    using assms by (cases xs rule: rev_exhaust) auto
  show ?thesis
  proof (cases "i < length ys")
    case True
    then show ?thesis
      by (simp add: xs list_update_append mset_update nth_append add_mset_remove_trivial_If)
  next
    case False
    with assms have "i = length ys" by (simp add: xs)
    then show ?thesis by (simp add: xs list_update_append)
  qed
qed

section \<open>Go errors\<close>

text \<open>
  A value of the Go type \<open>error\<close> is \<open>None\<close> for nil and \<open>Some e\<close> otherwise. The concrete error types
  of the sources that callers distinguish by a type switch are constructors of their own; an error
  made by \<open>fmt.Errorf\<close> keeps a tag for the message and the error it wraps, not the formatted text.
\<close>

type_synonym time = int      \<comment> \<open>nanoseconds since the zero \<open>time.Time\<close>\<close>
type_synonym duration = int  \<comment> \<open>\<open>time.Duration\<close>: nanoseconds, an \<open>int64\<close>\<close>

datatype error =
    Errorf string "error option"
  | AlreadyExistsError string
  | ExponentialBackoffError string "error option" time duration
  | VolumeNotAttachedError unique_volume_name
  | RemountRequiredError unique_volume_name unique_pod_name
  | NotFoundError string
  | ConflictError string
  | DeletedVolumeInUseError string
  | Aggregate "error list"
  | ErrNotExist string
  | ErrExecutableNotFound
  | ExitError int
  | EBUSY

text \<open>\<open>utilerrors.NewAggregate\<close>: nil for no errors.\<close>

definition NewAggregate :: "error list \<Rightarrow> error option" where
  "NewAggregate errs = (if errs = [] then None else Some (Aggregate errs))"

section \<open>Time\<close>

definition int64_min :: int where "int64_min = - (2 ^ 63)"
definition int64_max :: int where "int64_max = 2 ^ 63 - 1"

text \<open>
  \<open>time.Time.Sub\<close> and \<open>time.Since\<close> saturate at the bounds of \<open>time.Duration\<close>. The zero
  \<open>time.Time\<close> (year 1) is 0, so the time elapsed since it is the largest duration in practice.
\<close>

definition time_Sub :: "time \<Rightarrow> time \<Rightarrow> duration" where
  "time_Sub t u = max int64_min (min int64_max (t - u))"

definition time_Since :: "time \<Rightarrow> time \<Rightarrow> duration" where
  "time_Since now t = time_Sub now t"

definition time_IsZero :: "time \<Rightarrow> bool" where
  "time_IsZero t \<longleftrightarrow> t = 0"

definition Millisecond :: duration where "Millisecond = 1000000"
definition Second :: duration where "Second = 1000 * Millisecond"
definition Minute :: duration where "Minute = 60 * Second"

lemmas duration_units = Millisecond_def Second_def Minute_def
lemmas int64_bounds = int64_min_def int64_max_def

lemma time_Since_eq:
  "int64_min \<le> now - t \<Longrightarrow> now - t \<le> int64_max \<Longrightarrow> time_Since now t = now - t"
  by (simp add: time_Since_def time_Sub_def)

lemma time_Since_le_iff:
  "int64_min \<le> d \<Longrightarrow> d < int64_max \<Longrightarrow> time_Since now t \<le> d \<longleftrightarrow> now - t \<le> d"
  by (auto simp: time_Since_def time_Sub_def max_def min_def int64_bounds)

lemma time_Since_range: "int64_min \<le> time_Since now t \<and> time_Since now t \<le> int64_max"
  by (auto simp: time_Since_def time_Sub_def int64_bounds)

end
