(* ===== verification/Exponential_Backoff.thy ===== *)
theory Exponential_Backoff
  imports Volume_Prelude
begin

text \<open>
  \<open>pkg/util/goroutinemap/exponentialbackoff/exponential_backoff.go\<close>: the retry gate shared by
  \<open>NestedPendingOperations\<close> and \<open>GoRoutineMap\<close>. The calls of \<open>time.Now\<close> take the current time as an
  argument.
\<close>

definition initialDurationBeforeRetry :: duration where
  "initialDurationBeforeRetry = 500 * Millisecond"

definition maxDurationBeforeRetry :: duration where
  "maxDurationBeforeRetry = 2 * Minute"

record ExponentialBackoff =
  eb_lastError :: "error option"
  eb_lastErrorTime :: time
  eb_durationBeforeRetry :: duration

text \<open>The zero value of the Go struct.\<close>

definition zero_backoff :: ExponentialBackoff where
  "zero_backoff = \<lparr>eb_lastError = None, eb_lastErrorTime = 0, eb_durationBeforeRetry = 0\<rparr>"

definition NewExponentialBackoffError :: "string \<Rightarrow> ExponentialBackoff \<Rightarrow> error" where
  "NewExponentialBackoffError operationName b =
     ExponentialBackoffError operationName (eb_lastError b) (eb_lastErrorTime b) (eb_durationBeforeRetry b)"

definition SafeToRetry :: "time \<Rightarrow> ExponentialBackoff \<Rightarrow> string \<Rightarrow> error option" where
  "SafeToRetry now b operationName =
     (if time_Since now (eb_lastErrorTime b) \<le> eb_durationBeforeRetry b
      then Some (NewExponentialBackoffError operationName b) else None)"

definition Update :: "time \<Rightarrow> error option \<Rightarrow> ExponentialBackoff \<Rightarrow> ExponentialBackoff" where
  "Update now err b =
     (let d = (if eb_durationBeforeRetry b = 0 then initialDurationBeforeRetry
               else let d2 = 2 * eb_durationBeforeRetry b
                    in if d2 > maxDurationBeforeRetry then maxDurationBeforeRetry else d2)
      in \<lparr>eb_lastError = err, eb_lastErrorTime = now, eb_durationBeforeRetry = d\<rparr>)"

fun IsExponentialBackoff :: "error option \<Rightarrow> bool" where
  "IsExponentialBackoff (Some (ExponentialBackoffError _ _ _ _)) = True"
| "IsExponentialBackoff _ = False"

lemmas backoff_consts = initialDurationBeforeRetry_def maxDurationBeforeRetry_def duration_units

section \<open>Bounds of the waiting time\<close>

text \<open>The values the waiting time ranges over: zero, or between the initial and the maximal wait.\<close>

definition backoff_ok :: "ExponentialBackoff \<Rightarrow> bool" where
  "backoff_ok b \<longleftrightarrow> eb_durationBeforeRetry b = 0 \<or>
     initialDurationBeforeRetry \<le> eb_durationBeforeRetry b \<and>
     eb_durationBeforeRetry b \<le> maxDurationBeforeRetry"

lemma backoff_ok_zero [simp]: "backoff_ok zero_backoff"
  by (simp add: backoff_ok_def zero_backoff_def)

lemma backoff_ok_Update: "backoff_ok b \<Longrightarrow> backoff_ok (Update now err b)"
  by (auto simp: backoff_ok_def Update_def Let_def backoff_consts)

lemma backoff_ok_range:
  "backoff_ok b \<Longrightarrow> 0 \<le> eb_durationBeforeRetry b \<and> eb_durationBeforeRetry b \<le> maxDurationBeforeRetry"
  by (auto simp: backoff_ok_def backoff_consts)

lemma backoff_doubling_no_overflow: "backoff_ok b \<Longrightarrow> 2 * eb_durationBeforeRetry b \<le> int64_max"
  using backoff_ok_range [of b] by (simp add: backoff_consts int64_bounds)

text \<open>Consecutive failures: the list holds the times and errors of each of them, oldest first.\<close>

fun Updates :: "(time \<times> error option) list \<Rightarrow> ExponentialBackoff \<Rightarrow> ExponentialBackoff" where
  "Updates [] b = b"
| "Updates ((now, err) # es) b = Updates es (Update now err b)"

lemma Updates_snoc: "Updates (es @ [(now, err)]) b = Update now err (Updates es b)"
  by (induction es arbitrary: b) auto

lemma pow2_ge_cap: "8 \<le> n \<Longrightarrow> (240 :: int) \<le> 2 ^ n"
  using power_increasing [of 8 n "2 :: int"] by simp

lemma doubling_capped:
  "min maxDurationBeforeRetry (2 * min maxDurationBeforeRetry (initialDurationBeforeRetry * 2 ^ n)) =
   min maxDurationBeforeRetry (initialDurationBeforeRetry * 2 ^ Suc n)"
  by (simp add: min_def backoff_consts)

lemma duration_Updates:
  "eb_durationBeforeRetry (Updates es zero_backoff) =
     (case length es of 0 \<Rightarrow> 0
      | Suc n \<Rightarrow> min maxDurationBeforeRetry (initialDurationBeforeRetry * 2 ^ n))"
proof (induction es rule: rev_induct)
  case Nil
  then show ?case by (simp add: zero_backoff_def)
next
  case (snoc e es)
  obtain now err where e: "e = (now, err)" by (cases e)
  show ?case
  proof (cases "length es")
    case 0
    then show ?thesis by (simp add: e zero_backoff_def Update_def backoff_consts)
  next
    case (Suc n)
    let ?d = "min maxDurationBeforeRetry (initialDurationBeforeRetry * 2 ^ n)"
    have d: "eb_durationBeforeRetry (Updates es zero_backoff) = ?d"
      using snoc Suc by simp
    have "?d \<noteq> 0" by (simp add: min_def backoff_consts)
    then have "eb_durationBeforeRetry (Updates (es @ [e]) zero_backoff) = min maxDurationBeforeRetry (2 * ?d)"
      unfolding e Updates_snoc Update_def Let_def d by (simp add: min_def)
    then show ?thesis
      using Suc doubling_capped [of n] by simp
  qed
qed

lemma SafeToRetry_iff:
  assumes "backoff_ok b"
  shows "SafeToRetry now b op = None \<longleftrightarrow> eb_lastErrorTime b + eb_durationBeforeRetry b < now"
proof -
  have "int64_min \<le> eb_durationBeforeRetry b" "eb_durationBeforeRetry b < int64_max"
    using backoff_ok_range [OF assms] by (auto simp: backoff_consts int64_bounds)
  then show ?thesis by (auto simp: SafeToRetry_def time_Since_le_iff)
qed

lemma SafeToRetry_kind: "SafeToRetry now b op = Some e \<Longrightarrow> IsExponentialBackoff (Some e)"
  by (auto simp: SafeToRetry_def NewExponentialBackoffError_def split: if_splits)


section \<open>Properties\<close>

text \<open>C7: After \<open>n + 1\<close> consecutive failures of an operation the waiting time is
  500 ms doubled \<open>n\<close> times, capped at two minutes; before the first failure it is zero.\<close>

theorem backoff_growth:
  "eb_durationBeforeRetry (Updates es zero_backoff) =
     (if es = [] then 0
      else min maxDurationBeforeRetry (initialDurationBeforeRetry * 2 ^ (length es - 1)))"
  using duration_Updates [of es] by (cases es) (simp_all add: zero_backoff_def)

text \<open>A failed operation is refused until its waiting time has passed and accepted from then on:
  after any non-empty history of failures the gate opens exactly when the last failure lies more than
  the waiting time back, and the doubled waiting time always fits into 64 bits.\<close>

theorem retry_gate:
  assumes "es \<noteq> []"
  shows "(SafeToRetry now (Updates es zero_backoff) op = None \<longleftrightarrow>
      fst (last es) + eb_durationBeforeRetry (Updates es zero_backoff) < now) \<and>
    2 * eb_durationBeforeRetry (Updates es zero_backoff) \<le> int64_max"
proof -
  have ok: "backoff_ok (Updates es b)" if "backoff_ok b" for b es
    using that by (induction es arbitrary: b) (auto simp: backoff_ok_Update)
  have "eb_lastErrorTime (Updates es zero_backoff) = fst (last es)"
    using assms by (cases es rule: rev_cases) (auto simp: Updates_snoc Update_def Let_def split: prod.splits)
  then show ?thesis
    using SafeToRetry_iff [OF ok [OF backoff_ok_zero]] backoff_doubling_no_overflow [OF ok [OF backoff_ok_zero]]
    by simp
qed

theorem retry_gate_witness:
  "[(1000, None :: error option)] \<noteq> [] \<and>
   SafeToRetry 500001001 (Updates [(1000, None)] zero_backoff) ''op'' = None \<and>
   SafeToRetry 500001000 (Updates [(1000, None)] zero_backoff) ''op'' \<noteq> None"
  using retry_gate [of "[(1000, None)]" 500001001 "''op''"]
    retry_gate [of "[(1000, None)]" 500001000 "''op''"]
  by (simp add: Update_def zero_backoff_def backoff_consts)

end
