(* ===== verification/Operation_Table.thy ===== *)
theory Operation_Table
  imports Exponential_Backoff
begin

text \<open>
  The contract of a table of named asynchronous operations, shared by \<open>NestedPendingOperations\<close> and
  \<open>GoRoutineMap\<close>: \<open>run\<close> either refuses or registers an operation and spawns its goroutine,
  \<open>complete\<close> is the deferred completion handler of that goroutine. The interleavings of calls and
  completions are the relation \<open>op_reach\<close>; the goroutines in flight are a multiset of keys.
\<close>

inductive op_reach ::
    "(time \<Rightarrow> 's \<Rightarrow> 'k \<Rightarrow> error option \<times> 's) \<Rightarrow>
     (time \<Rightarrow> 's \<Rightarrow> 'k \<Rightarrow> error option \<Rightarrow> 's option) \<Rightarrow> 's \<Rightarrow> 's \<Rightarrow> 'k multiset \<Rightarrow> bool"
  for run complete s0 where
  init: "op_reach run complete s0 s0 {#}"
| start: "op_reach run complete s0 s fl \<Longrightarrow> run now s k = (None, s') \<Longrightarrow>
    op_reach run complete s0 s' (add_mset k fl)"
| refuse: "op_reach run complete s0 s fl \<Longrightarrow> run now s k = (Some e, s') \<Longrightarrow>
    op_reach run complete s0 s' fl"
| finish: "op_reach run complete s0 s fl \<Longrightarrow> k \<in># fl \<Longrightarrow> complete now s k err = Some s' \<Longrightarrow>
    op_reach run complete s0 s' (fl - {#k#})"

lemma op_reach_run:
  "op_reach run complete s0 s fl \<Longrightarrow> fst (run now s k) = None \<Longrightarrow>
   op_reach run complete s0 (snd (run now s k)) (add_mset k fl)"
  by (rule op_reach.start [where now = now]) (auto simp: prod_eq_iff)

text \<open>
  Executing a schedule: calls (\<open>Inl\<close>) and completions (\<open>Inr\<close>) in the order they take the lock.
\<close>

fun op_exec ::
    "(time \<Rightarrow> 's \<Rightarrow> 'k \<Rightarrow> error option \<times> 's) \<Rightarrow>
     (time \<Rightarrow> 's \<Rightarrow> 'k \<Rightarrow> error option \<Rightarrow> 's option) \<Rightarrow>
     (time \<times> ('k + 'k \<times> error option)) list \<Rightarrow> 's \<times> 'k list \<Rightarrow> ('s \<times> 'k list) option" where
  "op_exec run complete [] (s, fl) = Some (s, fl)"
| "op_exec run complete ((now, Inl k) # es) (s, fl) =
     (case run now s k of (None, s') \<Rightarrow> op_exec run complete es (s', k # fl)
      | (Some e, s') \<Rightarrow> op_exec run complete es (s', fl))"
| "op_exec run complete ((now, Inr (k, err)) # es) (s, fl) =
     (if k \<in> set fl then
        (case complete now s k err of None \<Rightarrow> None
         | Some s' \<Rightarrow> op_exec run complete es (s', remove1 k fl))
      else None)"

lemma op_exec_reach:
  "op_exec run complete es (s, fl) = Some (s', fl') \<Longrightarrow> op_reach run complete s0 s (mset fl) \<Longrightarrow>
   op_reach run complete s0 s' (mset fl')"
proof (induction run complete es "(s, fl)" arbitrary: s fl rule: op_exec.induct)
  case 1
  then show ?case by simp
next
  case (2 run complete now k es s fl)
  then show ?case
    by (auto split: prod.splits option.splits intro: op_reach.start op_reach.refuse)
next
  case (3 run complete now k err es s fl)
  then show ?case
    by (auto split: if_splits option.splits dest: op_reach.finish [where k = k and now = now and err = err])
qed

text \<open>
  \<open>cnt s k\<close> is the number of entries of \<open>k\<close> marked pending. Keys for which \<open>excl\<close> holds are
  executed one at a time.
\<close>

locale op_table =
  fixes run :: "time \<Rightarrow> 's \<Rightarrow> 'k \<Rightarrow> error option \<times> 's"
    and complete :: "time \<Rightarrow> 's \<Rightarrow> 'k \<Rightarrow> error option \<Rightarrow> 's option"
    and cnt :: "'s \<Rightarrow> 'k \<Rightarrow> nat"
    and inv :: "'s \<Rightarrow> bool"
    and excl :: "'k \<Rightarrow> bool"
  assumes run_busy: "inv s \<Longrightarrow> excl k \<Longrightarrow> 0 < cnt s k \<Longrightarrow> fst (run now s k) \<noteq> None"
    and run_refused: "run now s k = (Some e, s') \<Longrightarrow> s' = s"
    and run_inv: "inv s \<Longrightarrow> run now s k = (None, s') \<Longrightarrow> inv s'"
    and run_cnt: "inv s \<Longrightarrow> run now s k = (None, s') \<Longrightarrow>
        cnt s' k' = (if k' = k then Suc (cnt s k) else cnt s k')"
    and complete_total: "inv s \<Longrightarrow> 0 < cnt s k \<Longrightarrow> complete now s k err \<noteq> None"
    and complete_inv: "inv s \<Longrightarrow> 0 < cnt s k \<Longrightarrow> complete now s k err = Some s' \<Longrightarrow> inv s'"
    and complete_frame: "inv s \<Longrightarrow> 0 < cnt s k \<Longrightarrow> complete now s k err = Some s' \<Longrightarrow> k' \<noteq> k \<Longrightarrow>
        cnt s' k' = cnt s k'"
    and complete_cnt: "inv s \<Longrightarrow> 0 < cnt s k \<Longrightarrow> complete now s k err = Some s' \<Longrightarrow>
        cnt s k \<le> Suc (cnt s' k)"
    and complete_excl: "inv s \<Longrightarrow> excl k \<Longrightarrow> 0 < cnt s k \<Longrightarrow> complete now s k err = Some s' \<Longrightarrow>
        cnt s' k = 0"
begin

text \<open>Every goroutine in flight has a pending entry of its key in the table.\<close>

lemma reach_tracked:
  assumes "op_reach run complete s0 s fl" and "inv s0"
  shows "inv s \<and> (\<forall>k. count fl k \<le> cnt s k)"
  using assms
proof (induction rule: op_reach.induct)
  case init
  then show ?case by simp
next
  case (start s fl now k s')
  then show ?case
    using run_inv [of s now k s'] run_cnt [of s now k s'] by auto
next
  case (refuse s fl now k e s')
  then show ?case by (auto dest: run_refused)
next
  case (finish s fl k now err s')
  then have inv: "inv s" and le: "\<forall>k. count fl k \<le> cnt s k" and pos: "0 < cnt s k"
    by (auto intro: in_mset_bound)
  have "count (fl - {#k#}) k' \<le> cnt s' k'" for k'
    using le complete_frame [OF inv pos finish.hyps(3), of k']
      complete_cnt [OF inv pos finish.hyps(3)] by (cases "k' = k") (auto dest: spec [of _ k'] spec [of _ k])
  then show ?case
    using complete_inv [OF inv pos finish.hyps(3)] by blast
qed

lemma complete_never_panics:
  assumes "op_reach run complete s0 s fl" and "inv s0" and "k \<in># fl"
  shows "complete now s k err \<noteq> None"
proof -
  from assms reach_tracked have "inv s" and "0 < cnt s k" by (auto intro: in_mset_bound)
  then show ?thesis by (rule complete_total)
qed

text \<open>An exclusive key has at most one goroutine, and its entry says whether there is one.\<close>

lemma reach_exclusive:
  assumes "op_reach run complete s0 s fl" and "inv s0" and "excl k" and "cnt s0 k = 0"
  shows "count fl k = cnt s k \<and> cnt s k \<le> 1"
  using assms
proof (induction rule: op_reach.induct)
  case init
  then show ?case by simp
next
  case (start s fl now k' s')
  have inv: "inv s" using reach_tracked [OF start.hyps(1)] start.prems by simp
  have "cnt s k = 0" if "k' = k"
    using run_busy [OF inv, of k now] start that by fastforce
  then show ?case using start run_cnt [OF inv start.hyps(2), of k] by auto
next
  case (refuse s fl now k' e s')
  then show ?case by (auto dest: run_refused)
next
  case (finish s fl k' now err s')
  have inv: "inv s" and pos: "0 < cnt s k'"
    using reach_tracked [OF finish.hyps(1)] finish.prems finish.hyps(2)
    by (auto intro: in_mset_bound)
  show ?case
  proof (cases "k' = k")
    case True
    then have "cnt s' k = 0" using complete_excl [OF inv _ _ finish.hyps(3)] finish.prems pos by simp
    then show ?thesis using finish True by simp
  next
    case False
    then show ?thesis using finish complete_frame [OF inv pos finish.hyps(3), of k] by simp
  qed
qed

end

end
