(* ===== verification/Goroutine_Map.thy ===== *)
theory Goroutine_Map
  imports Operation_Table
begin

text \<open>
  \<open>pkg/util/goroutinemap/goroutinemap.go\<close>: named goroutines, one at a time per name, with the same
  backoff as \<open>NestedPendingOperations\<close> but a map instead of a slice. The persistent volume controller
  runs its recycle, delete and provision operations through it. \<open>Wait\<close> and \<open>WaitForCompletion\<close> are
  modelled by the condition under which their loop ends.
\<close>

section \<open>State and operations\<close>

record goroutine_operation =
  gop_operationPending :: bool
  gop_expBackoff :: ExponentialBackoff

record goRoutineMap =
  grm_operations :: "(string, goroutine_operation) gomap"
  grm_exponentialBackOffOnError :: bool

definition zero_goroutine_operation :: goroutine_operation where
  "zero_goroutine_operation = \<lparr>gop_operationPending = False, gop_expBackoff = zero_backoff\<rparr>"

definition NewGoRoutineMap :: "bool \<Rightarrow> goRoutineMap" where
  "NewGoRoutineMap b = \<lparr>grm_operations = [], grm_exponentialBackOffOnError = b\<rparr>"

definition grm_Run :: "time \<Rightarrow> goRoutineMap \<Rightarrow> string \<Rightarrow> error option \<times> goRoutineMap" where
  "grm_Run now grm operationName =
     (let existingOp = (case mget (grm_operations grm) operationName of
            Some op \<Rightarrow> op | None \<Rightarrow> zero_goroutine_operation);
          started = grm\<lparr>grm_operations :=
            mput operationName \<lparr>gop_operationPending = True, gop_expBackoff = gop_expBackoff existingOp\<rparr>
              (grm_operations grm)\<rparr>
      in if mhas (grm_operations grm) operationName then
           (if gop_operationPending existingOp then (Some (AlreadyExistsError operationName), grm)
            else case SafeToRetry now (gop_expBackoff existingOp) operationName of
                Some err \<Rightarrow> (Some err, grm)
              | None \<Rightarrow> (None, started))
         else (None, started))"

definition grm_operationComplete ::
    "time \<Rightarrow> goRoutineMap \<Rightarrow> string \<Rightarrow> error option \<Rightarrow> goRoutineMap" where
  "grm_operationComplete now grm operationName err =
     (if err = None \<or> \<not> grm_exponentialBackOffOnError grm
      then grm\<lparr>grm_operations := mdel operationName (grm_operations grm)\<rparr>
      else let existingOp = (case mget (grm_operations grm) operationName of
                 Some op \<Rightarrow> op | None \<Rightarrow> zero_goroutine_operation)
           in grm\<lparr>grm_operations := mput operationName
                \<lparr>gop_operationPending = False, gop_expBackoff = Update now err (gop_expBackoff existingOp)\<rparr>
                (grm_operations grm)\<rparr>)"

definition grm_IsOperationPending :: "goRoutineMap \<Rightarrow> string \<Rightarrow> bool" where
  "grm_IsOperationPending grm operationName =
     (case mget (grm_operations grm) operationName of
        Some existingOp \<Rightarrow> gop_operationPending existingOp
      | None \<Rightarrow> False)"

fun nothingPending_loop :: "(string, goroutine_operation) gomap \<Rightarrow> bool" where
  "nothingPending_loop [] = True"
| "nothingPending_loop ((_, op) # ops) = (if gop_operationPending op then False else nothingPending_loop ops)"

definition nothingPending :: "goRoutineMap \<Rightarrow> bool" where
  "nothingPending grm = nothingPending_loop (grm_operations grm)"

definition Wait_returns :: "goRoutineMap \<Rightarrow> bool" where
  "Wait_returns grm \<longleftrightarrow> \<not> length (grm_operations grm) > 0"

definition WaitForCompletion_returns :: "goRoutineMap \<Rightarrow> bool" where
  "WaitForCompletion_returns grm \<longleftrightarrow> length (grm_operations grm) = 0 \<or> nothingPending grm"

section \<open>Exclusion per name\<close>

definition grm_complete :: "time \<Rightarrow> goRoutineMap \<Rightarrow> string \<Rightarrow> error option \<Rightarrow> goRoutineMap option" where
  "grm_complete now grm operationName err = Some (grm_operationComplete now grm operationName err)"

definition grm_inv :: "goRoutineMap \<Rightarrow> bool" where
  "grm_inv grm \<longleftrightarrow> mwf (grm_operations grm) \<and>
     (\<forall>op \<in> snd ` set (grm_operations grm). backoff_ok (gop_expBackoff op))"

lemma grm_inv_lookup: "grm_inv grm \<Longrightarrow> mget (grm_operations grm) n = Some op \<Longrightarrow> backoff_ok (gop_expBackoff op)"
  by (auto simp: grm_inv_def dest!: mget_SomeD)

lemma grm_inv_put:
  "grm_inv grm \<Longrightarrow> backoff_ok (gop_expBackoff op) \<Longrightarrow>
   grm_inv (grm\<lparr>grm_operations := mput n op (grm_operations grm)\<rparr>)"
  by (auto simp: grm_inv_def gm.entries_put)

lemma grm_inv_del: "grm_inv grm \<Longrightarrow> grm_inv (grm\<lparr>grm_operations := mdel n (grm_operations grm)\<rparr>)"
  by (auto simp: grm_inv_def gm.entries_del)

lemma grm_Run_started:
  assumes "grm_Run now grm n = (None, grm')"
  obtains b where "grm' = grm\<lparr>grm_operations := mput n \<lparr>gop_operationPending = True, gop_expBackoff = b\<rparr> (grm_operations grm)\<rparr>"
    and "\<not> grm_IsOperationPending grm n"
    and "b = zero_backoff \<or> (\<exists>op. mget (grm_operations grm) n = Some op \<and> b = gop_expBackoff op)"
proof (cases "mget (grm_operations grm) n")
  case None
  with assms that show ?thesis
    by (auto simp: grm_Run_def mhas_def grm_IsOperationPending_def zero_goroutine_operation_def Let_def)
next
  case (Some op)
  with assms that show ?thesis
    by (auto simp: grm_Run_def mhas_def grm_IsOperationPending_def Let_def split: if_splits option.splits)
qed

lemma grm_inv_Run: "grm_inv grm \<Longrightarrow> grm_Run now grm n = (None, grm') \<Longrightarrow> grm_inv grm'"
  by (elim grm_Run_started) (auto intro!: grm_inv_put dest: grm_inv_lookup)

lemma grm_inv_complete: "grm_inv grm \<Longrightarrow> grm_inv (grm_operationComplete now grm n err)"
  by (auto simp: grm_operationComplete_def Let_def zero_goroutine_operation_def split: option.splits
      intro!: grm_inv_put grm_inv_del backoff_ok_Update dest: grm_inv_lookup)

lemma grm_pending_put:
  "grm_IsOperationPending (grm\<lparr>grm_operations := mput n op ops\<rparr>) k =
     (if k = n then gop_operationPending op else grm_IsOperationPending (grm\<lparr>grm_operations := ops\<rparr>) k)"
  by (simp add: grm_IsOperationPending_def gm.get_put)

lemma grm_pending_complete:
  "grm_IsOperationPending (grm_operationComplete now grm n err) k \<longleftrightarrow> k \<noteq> n \<and> grm_IsOperationPending grm k"
  by (simp add: grm_operationComplete_def Let_def grm_IsOperationPending_def gm.get_put gm.get_del)

lemma grm_Run_refused: "grm_Run now grm n = (Some e, grm') \<Longrightarrow> grm' = grm"
  by (auto simp: grm_Run_def Let_def split: if_splits option.splits)

lemma grm_Run_busy: "grm_IsOperationPending grm n \<Longrightarrow> fst (grm_Run now grm n) = Some (AlreadyExistsError n)"
  by (auto simp: grm_Run_def Let_def mhas_def grm_IsOperationPending_def split: option.splits)

interpretation grm: op_table grm_Run grm_complete
  "\<lambda>grm n. of_bool (grm_IsOperationPending grm n)" grm_inv "\<lambda>_. True"
proof unfold_locales
  fix s s' :: goRoutineMap and k k' :: string and now err e
  let ?cnt = "\<lambda>grm n. of_bool (grm_IsOperationPending grm n) :: nat"
  show "fst (grm_Run now s k) \<noteq> None" if "0 < ?cnt s k"
    using that grm_Run_busy by (cases "grm_IsOperationPending s k") auto
  show "s' = s" if "grm_Run now s k = (Some e, s')" using that by (rule grm_Run_refused)
  show "grm_inv s'" if "grm_inv s" "grm_Run now s k = (None, s')" using that by (rule grm_inv_Run)
  show "?cnt s' k' = (if k' = k then Suc (?cnt s k) else ?cnt s k')" if "grm_Run now s k = (None, s')"
    using that by (elim grm_Run_started) (simp add: grm_pending_put)
qed (auto simp: grm_complete_def grm_pending_complete grm_inv_complete)

lemma grm_inv_new [simp]: "grm_inv (NewGoRoutineMap b)"
  by (simp add: grm_inv_def NewGoRoutineMap_def)

lemma grm_pending_new [simp]: "\<not> grm_IsOperationPending (NewGoRoutineMap b) n"
  by (simp add: NewGoRoutineMap_def grm_IsOperationPending_def)

lemma nothingPending_iff:
  assumes "grm_inv grm"
  shows "nothingPending grm \<longleftrightarrow> (\<forall>n. \<not> grm_IsOperationPending grm n)"
proof -
  have "nothingPending_loop ops \<longleftrightarrow> (\<forall>(n, op) \<in> set ops. \<not> gop_operationPending op)" for ops
    by (induction ops) (auto split: if_splits)
  then show ?thesis
    using assms by (fastforce simp: nothingPending_def grm_inv_def gm.entries_get grm_IsOperationPending_def
        split: option.splits prod.splits)
qed

lemma grm_reach_inv:
  assumes "op_reach grm_Run grm_complete (NewGoRoutineMap b) grm fl"
  shows "grm_inv grm" and "n \<in># fl \<longleftrightarrow> grm_IsOperationPending grm n" and "count fl n \<le> 1"
  using grm.reach_tracked [OF assms] grm.reach_exclusive [OF assms, of n]
  by (auto simp: count_greater_zero_iff [symmetric])

text \<open>Without backoff the map holds the goroutines in flight and nothing else.\<close>

lemma grm_reach_no_backoff:
  assumes "op_reach grm_Run grm_complete (NewGoRoutineMap False) grm fl"
  shows "\<not> grm_exponentialBackOffOnError grm \<and> (\<forall>e \<in> set (grm_operations grm). gop_operationPending (snd e))"
  using assms
proof (induction rule: op_reach.induct)
  case init
  then show ?case by (simp add: NewGoRoutineMap_def)
next
  case (start grm fl now n grm')
  have "mwf (grm_operations grm)" using grm_reach_inv(1) [OF start.hyps(1)] by (simp add: grm_inv_def)
  with start show ?case by (elim grm_Run_started) (simp add: gm.entries_put)
next
  case (refuse grm fl now n e grm')
  then show ?case by (auto dest: grm_Run_refused)
next
  case (finish grm fl n now err grm')
  have "mwf (grm_operations grm)" using grm_reach_inv(1) [OF finish.hyps(1)] by (simp add: grm_inv_def)
  with finish show ?case by (auto simp: grm_complete_def grm_operationComplete_def gm.entries_del)
qed

section \<open>Properties\<close>

text \<open>In every interleaving of \<open>Run\<close> calls and completions at most one goroutine per name is in
  flight, \<open>IsOperationPending\<close> tells whether there is one, and a second \<open>Run\<close> of a name in flight
  is refused as already existing and leaves the map unchanged.\<close>

theorem goroutine_names_exclusive:
  assumes "op_reach grm_Run grm_complete (NewGoRoutineMap b) grm fl"
  shows "count fl n \<le> 1 \<and> (n \<in># fl \<longleftrightarrow> grm_IsOperationPending grm n) \<and>
    (n \<in># fl \<longrightarrow> grm_Run now grm n = (Some (AlreadyExistsError n), grm))"
proof -
  have "grm_Run now grm n = (Some (AlreadyExistsError n), grm)" if "grm_IsOperationPending grm n"
    using grm_Run_busy [OF that, of now] grm_Run_refused [of now grm n "AlreadyExistsError n"]
    by (cases "grm_Run now grm n") auto
  then show ?thesis using grm_reach_inv [OF assms] by simp
qed

theorem goroutine_names_exclusive_witness:
  "\<exists>grm. op_reach grm_Run grm_complete (NewGoRoutineMap True) grm {#''n''#} \<and>
     grm_Run 3 grm ''n'' = (Some (AlreadyExistsError ''n''), grm)"
proof -
  let ?grm = "snd (grm_Run 0 (NewGoRoutineMap True) ''n'')"
  have r: "op_reach grm_Run grm_complete (NewGoRoutineMap True) ?grm {#''n''#}"
    by (rule op_reach_run [OF op_reach.init]) (simp add: grm_Run_def NewGoRoutineMap_def mhas_def)
  have "grm_Run 3 ?grm ''n'' = (Some (AlreadyExistsError ''n''), ?grm)"
    using goroutine_names_exclusive [OF r, of "''n''" 3] by simp
  with r show ?thesis by blast
qed

text \<open>\<open>WaitForCompletion\<close> returns exactly when no goroutine is in flight. \<open>Wait\<close> does so when
  backoff is disabled; with backoff it may still block although nothing is running, but once it
  returns nothing is.\<close>

lemma wait_returns_when_idle:
  assumes "op_reach grm_Run grm_complete (NewGoRoutineMap b) grm fl"
  shows "(WaitForCompletion_returns grm \<longleftrightarrow> fl = {#}) \<and> (Wait_returns grm \<longrightarrow> fl = {#}) \<and>
    (\<not> b \<longrightarrow> (Wait_returns grm \<longleftrightarrow> fl = {#}))"
proof -
  note r = grm_reach_inv [OF assms]
  have idle: "(\<forall>n. \<not> grm_IsOperationPending grm n) \<longleftrightarrow> fl = {#}"
    using r(2) by (metis multiset_nonemptyE empty_iff set_mset_empty)
  have none: "Wait_returns grm \<Longrightarrow> fl = {#}"
    unfolding idle [symmetric] by (simp add: Wait_returns_def grm_IsOperationPending_def)
  have "Wait_returns grm" if "\<not> b" "fl = {#}"
  proof -
    have "\<forall>e \<in> set (grm_operations grm). gop_operationPending (snd e)"
      using grm_reach_no_backoff assms that(1) by simp
    moreover have "nothingPending_loop (grm_operations grm)"
      using nothingPending_iff [OF r(1)] idle that(2) by (simp add: nothingPending_def)
    ultimately show ?thesis
      unfolding Wait_returns_def by (cases "grm_operations grm") (auto split: prod.splits)
  qed
  with none show ?thesis
    using nothingPending_iff [OF r(1)] idle by (auto simp: WaitForCompletion_returns_def Wait_returns_def)
qed

text \<open>When a goroutine has succeeded, or backoff is disabled, its name can be used again at once;
  when it has failed with backoff enabled, a new \<open>Run\<close> is accepted exactly when a waiting time
  between 500 ms and two minutes, counted from the failure, has passed.\<close>

lemma goroutine_retry:
  assumes "op_reach grm_Run grm_complete (NewGoRoutineMap b) grm fl" and "n \<in># fl"
    and "grm_complete now grm n err = Some grm'"
  shows "if err = None \<or> \<not> grm_exponentialBackOffOnError grm then \<forall>now'. fst (grm_Run now' grm' n) = None
    else \<exists>d. initialDurationBeforeRetry \<le> d \<and> d \<le> maxDurationBeforeRetry \<and>
      (\<forall>now'. fst (grm_Run now' grm' n) = None \<longleftrightarrow> now + d < now')"
proof -
  note r = grm_reach_inv [OF assms(1)]
  obtain op where op: "mget (grm_operations grm) n = Some op"
    using r(2) [of n] assms(2) by (auto simp: grm_IsOperationPending_def split: option.splits)
  have ok: "backoff_ok (gop_expBackoff op)" by (rule grm_inv_lookup [OF r(1) op])
  show ?thesis
  proof (cases "err = None \<or> \<not> grm_exponentialBackOffOnError grm")
    case True
    then show ?thesis using assms(3)
      by (auto simp: grm_complete_def grm_operationComplete_def grm_Run_def mhas_def Let_def)
  next
    case False
    let ?b = "Update now err (gop_expBackoff op)"
    let ?d = "eb_durationBeforeRetry ?b"
    have "mget (grm_operations grm') n = Some \<lparr>gop_operationPending = False, gop_expBackoff = ?b\<rparr>"
      using assms(3) False op by (auto simp: grm_complete_def grm_operationComplete_def Let_def)
    then have "fst (grm_Run now' grm' n) = None \<longleftrightarrow> SafeToRetry now' ?b n = None" for now'
      by (auto simp: grm_Run_def mhas_def Let_def split: option.splits)
    moreover have "eb_lastErrorTime ?b = now" by (simp add: Update_def Let_def)
    moreover have "initialDurationBeforeRetry \<le> ?d \<and> ?d \<le> maxDurationBeforeRetry"
      using ok by (auto simp: Update_def Let_def backoff_ok_def backoff_consts)
    ultimately show ?thesis
      using False SafeToRetry_iff [OF backoff_ok_Update [OF ok, of now err]] by auto
  qed
qed

end
