(* ===== verification/Go_Strings.thy ===== *)
theory Go_Strings
  imports Volume_Prelude "HOL-Library.Sublist"
begin

text \<open>
  The parts of the Go packages \<open>strconv\<close>, \<open>strings\<close>, \<open>path\<close> and \<open>fmt\<close> that the modelled sources
  use, on byte strings: \<open>strconv.Quote\<close> (the verb \<open>%q\<close>), decimal printing (\<open>%d\<close>),
  \<open>strings.Split\<close> with a one-byte separator, \<open>strings.Fields\<close>, \<open>strings.Contains\<close>.
\<close>

section \<open>strconv.Quote\<close>

text \<open>
  Bytes outside ASCII are escaped as \<open>\x\<close> and two hexadecimal digits, as \<open>strconv.Quote\<close> does for
  bytes that are not valid UTF-8; names of the Kubernetes API are ASCII.
\<close>

definition hex_digit :: "nat \<Rightarrow> char" where
  "hex_digit n = (if n < 10 then char_of (48 + n) else char_of (87 + n))"

definition quote_char :: "char \<Rightarrow> string" where
  "quote_char c =
     (let n = of_char c :: nat in
      if n = 34 \<or> n = 92 then [CHR 0x5C, c]
      else if 32 \<le> n \<and> n < 127 then [c]
      else if n = 7 then [CHR 0x5C, CHR ''a'']
      else if n = 8 then [CHR 0x5C, CHR ''b'']
      else if n = 12 then [CHR 0x5C, CHR ''f'']
      else if n = 10 then [CHR 0x5C, CHR ''n'']
      else if n = 13 then [CHR 0x5C, CHR ''r'']
      else if n = 9 then [CHR 0x5C, CHR ''t'']
      else if n = 11 then [CHR 0x5C, CHR ''v'']
      else [CHR 0x5C, CHR ''x'', hex_digit (n div 16), hex_digit (n mod 16)])"

definition go_quote :: "string \<Rightarrow> string" where
  "go_quote s = CHR 0x22 # concat (map quote_char s) @ [CHR 0x22]"

text \<open>A decoder of one quoted character, used to show that quoting is unambiguous.\<close>

definition hex_value :: "char \<Rightarrow> nat" where
  "hex_value c = (let n = of_char c :: nat in if n < 58 then n - 48 else n - 87)"

fun unquote_char :: "string \<Rightarrow> (char \<times> string) option" where
  "unquote_char [] = None"
| "unquote_char (c # cs) =
     (if c = CHR 0x22 then None
      else if c \<noteq> CHR 0x5C then Some (c, cs)
      else case cs of
        [] \<Rightarrow> None
      | d # ds \<Rightarrow>
          if d = CHR ''a'' then Some (char_of (7 :: nat), ds)
          else if d = CHR ''b'' then Some (char_of (8 :: nat), ds)
          else if d = CHR ''f'' then Some (char_of (12 :: nat), ds)
          else if d = CHR ''n'' then Some (char_of (10 :: nat), ds)
          else if d = CHR ''r'' then Some (char_of (13 :: nat), ds)
          else if d = CHR ''t'' then Some (char_of (9 :: nat), ds)
          else if d = CHR ''v'' then Some (char_of (11 :: nat), ds)
          else if d = CHR ''x'' then
            (case ds of h # l # es \<Rightarrow> Some (char_of (16 * hex_value h + hex_value l), es) | _ \<Rightarrow> None)
          else Some (d, ds))"

lemma hex_value_digit: "n < 16 \<Longrightarrow> hex_value (hex_digit n) = n"
  by (auto simp: hex_value_def hex_digit_def Let_def)

lemma char_eq_nat: "(c = d) = ((of_char c :: nat) = of_char d)"
  by simp

lemma unquote_quote_char: "unquote_char (quote_char c @ r) = Some (c, r)"
proof -
  define n where "n = (of_char c :: nat)"
  have c: "of_char c = n" by (simp add: n_def)
  have n: "n < 256" by (simp add: n_def)
  have hex: "16 * hex_value (hex_digit (n div 16)) + hex_value (hex_digit (n mod 16)) = n"
    using n by (simp add: hex_value_digit)
  show ?thesis
    unfolding quote_char_def Let_def c
    using n by (auto simp: hex char_eq_nat c simp del: of_char_eq_iff)
qed

lemma quote_char_not_dquote: "quote_char c @ r = CHR 0x22 # t \<Longrightarrow> False"
  using unquote_quote_char [of c r] by auto

lemma quote_body_inj:
  "concat (map quote_char s) @ CHR 0x22 # r = concat (map quote_char t) @ CHR 0x22 # r' \<Longrightarrow>
   s = t \<and> r = r'"
proof (induction s arbitrary: t)
  case Nil
  then show ?case
    by (cases t) (auto dest: quote_char_not_dquote [OF sym])
next
  case (Cons c s)
  show ?case
  proof (cases t)
    case Nil
    with Cons.prems show ?thesis by (auto dest: quote_char_not_dquote)
  next
    case (Cons d t')
    let ?x = "concat (map quote_char s) @ CHR 0x22 # r"
    let ?y = "concat (map quote_char t') @ CHR 0x22 # r'"
    from Cons.prems Cons have "quote_char c @ ?x = quote_char d @ ?y" by simp
    then have "Some (c, ?x) = Some (d, ?y)"
      by (metis unquote_quote_char)
    with Cons.IH [of t'] Cons show ?thesis by auto
  qed
qed

lemma go_quote_prefix_inj: "go_quote s @ r = go_quote t @ r' \<longleftrightarrow> s = t \<and> r = r'"
  using quote_body_inj [of s r t r'] by (auto simp: go_quote_def)

lemma go_quote_inj: "go_quote s = go_quote t \<longleftrightarrow> s = t"
  using go_quote_prefix_inj [of s "[]" t "[]"] by simp

section \<open>Separators\<close>

lemma split_at_first_inj:
  "c \<notin> set a \<Longrightarrow> c \<notin> set b \<Longrightarrow> a @ c # x = b @ c # y \<longleftrightarrow> a = b \<and> x = y"
proof (induction a arbitrary: b)
  case Nil
  then show ?case by (cases b) auto
next
  case (Cons d a)
  then show ?case by (cases b) auto
qed

lemma split_at_last_inj:
  assumes "c \<notin> set x" and "c \<notin> set y"
  shows "a @ c # x = b @ c # y \<longleftrightarrow> a = b \<and> x = y"
proof -
  have "a @ c # x = b @ c # y \<longleftrightarrow> rev x @ c # rev a = rev y @ c # rev b"
    by (metis (no_types, lifting) append.assoc append_Cons append_Nil rev.simps(2) rev_append rev_rev_ident)
  with split_at_first_inj [of c "rev x" "rev y" "rev a" "rev b"] assms show ?thesis by auto
qed

text \<open>\<open>strings.Split\<close> with a separator of one byte and \<open>strings.Join\<close>.\<close>

fun strings_Split :: "string \<Rightarrow> char \<Rightarrow> string list" where
  "strings_Split [] c = [[]]"
| "strings_Split (x # xs) c =
     (let r = strings_Split xs c in if x = c then [] # r else (x # hd r) # tl r)"

fun strings_Join :: "string list \<Rightarrow> string \<Rightarrow> string" where
  "strings_Join [] sep = []"
| "strings_Join [s] sep = s"
| "strings_Join (s # t # ss) sep = s @ sep @ strings_Join (t # ss) sep"

lemma strings_Split_nonempty [simp]: "strings_Split s c \<noteq> []"
  by (cases s) (auto simp: Let_def)

lemma strings_Join_Cons: "ss \<noteq> [] \<Longrightarrow> strings_Join (s # ss) sep = s @ sep @ strings_Join ss sep"
  by (cases ss) auto

lemma strings_Join_snoc: "ss \<noteq> [] \<Longrightarrow> strings_Join (ss @ [s]) sep = strings_Join ss sep @ sep @ s"
  by (induction ss sep rule: strings_Join.induct) auto

lemma set_strings_Join: "set (strings_Join ss sep) \<subseteq> \<Union> (set (map set ss)) \<union> set sep"
  by (induction ss sep rule: strings_Join.induct) auto

lemma strings_Join_Split: "strings_Join (strings_Split s c) [c] = s"
proof (induction s)
  case Nil
  then show ?case by simp
next
  case (Cons x s)
  show ?case
  proof (cases "strings_Split s c")
    case Nil
    then show ?thesis by simp
  next
    case (Cons y ys)
    with Cons.IH show ?thesis by (cases ys) (auto simp: Let_def)
  qed
qed

lemma strings_Split_notin: "c \<notin> set s \<Longrightarrow> strings_Split s c = [s]"
  by (induction s) (auto simp: Let_def)

lemma strings_Split_append:
  "c \<notin> set s \<Longrightarrow> strings_Split (s @ c # t) c = s # strings_Split t c"
  by (induction s) (auto simp: Let_def)

lemma strings_Split_append_sep: "strings_Split (s @ c # t) c = strings_Split s c @ strings_Split t c"
  by (induction s) (auto simp: Let_def)

lemma strings_Split_parts: "p \<in> set (strings_Split s c) \<Longrightarrow> c \<notin> set p"
proof (induction s arbitrary: p)
  case Nil
  then show ?case by simp
next
  case (Cons x s)
  then show ?case
    by (cases "strings_Split s c") (auto simp: Let_def split: if_splits)
qed

lemma length_strings_Split: "length (strings_Split s c) = Suc (count_list s c)"
  by (induction s) (auto simp: Let_def)

text \<open>\<open>strings.Contains\<close>, and \<open>strings.Fields\<close> for ASCII space.\<close>

definition strings_Contains :: "string \<Rightarrow> string \<Rightarrow> bool" where
  "strings_Contains s substr = sublist substr s"

definition is_space :: "char \<Rightarrow> bool" where
  "is_space c = (let n = of_char c :: nat in n = 32 \<or> 9 \<le> n \<and> n \<le> 13)"

fun fields_loop :: "string \<Rightarrow> string \<Rightarrow> string list" where
  "fields_loop acc [] = (if acc = [] then [] else [rev acc])"
| "fields_loop acc (c # cs) =
     (if is_space c then (if acc = [] then fields_loop [] cs else rev acc # fields_loop [] cs)
      else fields_loop (c # acc) cs)"

definition strings_Fields :: "string \<Rightarrow> string list" where
  "strings_Fields s = fields_loop [] s"

lemma fields_loop_word: "\<forall>c \<in> set w. \<not> is_space c \<Longrightarrow> fields_loop acc (w @ r) = fields_loop (rev w @ acc) r"
  by (induction w arbitrary: acc) auto

lemma fields_loop_parts: "f \<in> set (fields_loop acc s) \<Longrightarrow> f \<noteq> []"
  by (induction acc s rule: fields_loop.induct) (auto split: if_splits)

section \<open>Decimal numbers\<close>

definition digit_char :: "nat \<Rightarrow> char" where
  "digit_char n = char_of (48 + n)"

fun show_nat :: "nat \<Rightarrow> string" where
  "show_nat n = (if n < 10 then [digit_char n] else show_nat (n div 10) @ [digit_char (n mod 10)])"

lemma show_nat_code [code]:
  "show_nat n = (case n < 10 of True \<Rightarrow> [digit_char n] | False \<Rightarrow> show_nat (n div 10) @ [digit_char (n mod 10)])"
  by simp

declare show_nat.simps [simp del]

definition show_int :: "int \<Rightarrow> string" where
  "show_int i = (if i < 0 then CHR ''-'' # show_nat (nat (- i)) else show_nat (nat i))"

definition is_digit :: "char \<Rightarrow> bool" where
  "is_digit c = (let n = of_char c :: nat in 48 \<le> n \<and> n \<le> 57)"

definition read_nat :: "string \<Rightarrow> nat" where
  "read_nat s = foldl (\<lambda>n c. 10 * n + (of_char c - 48)) 0 s"

lemma of_digit_char: "n < 10 \<Longrightarrow> of_char (digit_char n) = 48 + n"
  by (simp add: digit_char_def)

lemma show_nat_digits: "c \<in> set (show_nat n) \<Longrightarrow> is_digit c"
proof (induction n arbitrary: c rule: show_nat.induct)
  case (1 n)
  have d: "is_digit (digit_char m)" if "m < 10" for m
    using that by (simp add: is_digit_def of_digit_char)
  show ?case
    using 1 d [of n] d [of "n mod 10"] by (subst (asm) (2) show_nat.simps) (auto split: if_splits)
qed

lemma show_nat_nonempty [simp]: "show_nat n \<noteq> []"
  by (subst show_nat.simps) simp

lemma read_show_nat: "read_nat (show_nat n) = n"
proof (induction n rule: show_nat.induct)
  case (1 n)
  then show ?case
    by (subst show_nat.simps) (auto simp: read_nat_def of_digit_char)
qed

lemma show_nat_inj: "show_nat m = show_nat n \<longleftrightarrow> m = n"
  by (metis read_show_nat)

lemma show_nat_no_minus: "show_nat n \<noteq> CHR ''-'' # s"
proof
  assume "show_nat n = CHR ''-'' # s"
  then have "is_digit (CHR ''-'')" using show_nat_digits [of "CHR ''-''" n] by simp
  then show False by (simp add: is_digit_def)
qed

lemma show_int_inj: "show_int i = show_int j \<longleftrightarrow> i = j"
proof -
  have "nat a = nat b \<longleftrightarrow> a = b" if "0 \<le> a" "0 \<le> b" for a b using that by auto
  then show ?thesis
    using show_nat_no_minus show_nat_no_minus [symmetric] by (auto simp: show_int_def show_nat_inj)
qed

lemma show_int_chars: "c \<in> set (show_int i) \<Longrightarrow> c = CHR ''-'' \<or> is_digit c"
  by (auto simp: show_int_def dest: show_nat_digits split: if_splits)

lemma show_int_nonneg: "0 \<le> i \<Longrightarrow> c \<in> set (show_int i) \<Longrightarrow> is_digit c"
  by (auto simp: show_int_def dest: show_nat_digits split: if_splits)

section \<open>path.Join\<close>

text \<open>
  \<open>path.Clean\<close> by components: the stack of cleaned components is built from the left; a component
  \<open>..\<close> removes the one before it, or is dropped at the root, or is kept at the front of a relative path.
\<close>

definition clean_step :: "bool \<Rightarrow> string list \<Rightarrow> string \<Rightarrow> string list" where
  "clean_step rooted out elem =
     (if elem = [] \<or> elem = ''.'' then out
      else if elem = ''..'' then
        (if out \<noteq> [] \<and> last out \<noteq> ''..'' then butlast out
         else if rooted then out else out @ [elem])
      else out @ [elem])"

definition path_Clean :: "string \<Rightarrow> string" where
  "path_Clean p =
     (let rooted = (p \<noteq> [] \<and> hd p = CHR ''/'');
          out = foldl (clean_step rooted) [] (strings_Split p (CHR ''/''));
          cleaned = (if rooted then ''/'' else []) @ strings_Join out ''/''
      in if cleaned = [] then ''.'' else cleaned)"

fun path_Join :: "string list \<Rightarrow> string" where
  "path_Join [] = []"
| "path_Join (e # es) = (if e \<noteq> [] then path_Clean (strings_Join (e # es) ''/'') else path_Join es)"

lemma strings_Join_no_sep_last_inj:
  assumes "c \<notin> set a" and "c \<notin> set b"
  shows "strings_Join (out @ [a]) [c] = strings_Join (out @ [b]) [c] \<longleftrightarrow> a = b"
  by (cases "out = []") (auto simp: strings_Join_snoc)

lemma path_Join_last_inj:
  assumes "dir \<noteq> []" and "CHR ''/'' \<notin> set a" and "CHR ''/'' \<notin> set b"
    and "a \<notin> {[], ''.'', ''..''}" and "b \<notin> {[], ''.'', ''..''}"
  shows "path_Join [dir, a] = path_Join [dir, b] \<longleftrightarrow> a = b"
proof -
  define out where "out = foldl (clean_step (hd dir = CHR ''/'')) [] (strings_Split dir (CHR ''/''))"
  have eq: "path_Join [dir, x] = (if hd dir = CHR ''/'' then ''/'' else []) @ strings_Join (out @ [x]) ''/''"
    if "CHR ''/'' \<notin> set x" "x \<notin> {[], ''.'', ''..''}" for x
  proof -
    have s: "strings_Split (dir @ CHR ''/'' # x) (CHR ''/'') = strings_Split dir (CHR ''/'') @ [x]"
      using that by (simp add: strings_Split_append_sep strings_Split_notin)
    have "strings_Join (out @ [x]) ''/'' \<noteq> []"
      using that by (cases "out = []") (auto simp: strings_Join_snoc)
    then show ?thesis
      using assms(1) that s by (simp add: path_Clean_def out_def Let_def clean_step_def)
  qed
  show ?thesis
    using eq [OF assms(2,4)] eq [OF assms(3,5)] strings_Join_no_sep_last_inj [OF assms(2,3)] by simp
qed

section \<open>strconv.ParseInt\<close>

text \<open>\<open>strconv.ParseInt(s, 10, 64)\<close>: an optional sign, at least one digit, and a value of 64 bits.\<close>

definition strconv_ParseInt :: "string \<Rightarrow> error + int" where
  "strconv_ParseInt s =
     (let neg = (s \<noteq> [] \<and> hd s = CHR ''-'');
          ds = (if s \<noteq> [] \<and> (hd s = CHR ''-'' \<or> hd s = CHR ''+'') then tl s else s)
      in if ds = [] \<or> \<not> list_all is_digit ds then Inl (Errorf ''invalid syntax'' None)
         else let v = (if neg then - int (read_nat ds) else int (read_nat ds))
              in if int64_min \<le> v \<and> v \<le> int64_max then Inr v
                 else Inl (Errorf ''value out of range'' None))"

lemma list_all_digits_show_nat: "list_all is_digit (show_nat n)"
  by (simp add: list_all_iff show_nat_digits)

lemma hd_show_nat: "hd (show_nat n) \<noteq> CHR ''-'' \<and> hd (show_nat n) \<noteq> CHR ''+''"
proof -
  have "is_digit (hd (show_nat n))" by (rule show_nat_digits [of _ n]) simp
  then show ?thesis by (auto simp: is_digit_def)
qed

lemma strconv_ParseInt_show_int:
  "int64_min \<le> i \<Longrightarrow> i \<le> int64_max \<Longrightarrow> strconv_ParseInt (show_int i) = Inr i"
  by (simp add: strconv_ParseInt_def show_int_def hd_show_nat list_all_digits_show_nat read_show_nat)

text \<open>\<open>strconv.ParseUint(s, 10, 64)\<close>: digits only.\<close>

definition strconv_ParseUint :: "string \<Rightarrow> error + nat" where
  "strconv_ParseUint s =
     (if s = [] \<or> \<not> list_all is_digit s then Inl (Errorf ''invalid syntax'' None)
      else if read_nat s < 2 ^ 64 then Inr (read_nat s)
      else Inl (Errorf ''value out of range'' None))"

lemma strconv_ParseUint_show_nat: "n < 2 ^ 64 \<Longrightarrow> strconv_ParseUint (show_nat n) = Inr n"
  by (simp add: strconv_ParseUint_def list_all_digits_show_nat read_show_nat)

lemma strconv_ParseInt_show_nat: "n < 2 ^ 63 \<Longrightarrow> strconv_ParseInt (show_nat n) = Inr (int n)"
proof -
  assume n: "n < 2 ^ 63"
  then have "int n \<le> int64_max" by (simp add: int64_max_def)
  moreover have "int64_min \<le> int n" by (simp add: int64_min_def)
  moreover have "show_int (int n) = show_nat n" by (simp add: show_int_def)
  ultimately show ?thesis using strconv_ParseInt_show_int [of "int n"] by simp
qed

end
