(* ===== verification/Validation.thy ===== *)
theory Validation
  imports Go_Strings
begin

text \<open>
  Checks of names and label values from \<open>pkg/util/validation/validation.go\<close>. Each returns the list of
  what is wrong, as the code does; the messages are shortened.
\<close>

section \<open>Qualified names\<close>

definition qname_char :: "char \<Rightarrow> bool" where
  "qname_char c = (let n = of_char c :: nat in
     65 \<le> n \<and> n \<le> 90 \<or> 97 \<le> n \<and> n \<le> 122 \<or> 48 \<le> n \<and> n \<le> 57)"

definition qname_ext_char :: "char \<Rightarrow> bool" where
  "qname_ext_char c \<longleftrightarrow> qname_char c \<or> c \<in> {CHR ''-'', CHR ''_'', CHR ''.''}"

definition dns_char :: "char \<Rightarrow> bool" where
  "dns_char c = (let n = of_char c :: nat in 97 \<le> n \<and> n \<le> 122 \<or> 48 \<le> n \<and> n \<le> 57)"

text \<open>The three regular expressions, decided on the whole string.\<close>

definition qualifiedNameRegexp :: "string \<Rightarrow> bool" where
  "qualifiedNameRegexp s \<longleftrightarrow> s \<noteq> [] \<and> qname_char (hd s) \<and> qname_char (last s) \<and> list_all qname_ext_char s"

definition dns1123LabelRegexp :: "string \<Rightarrow> bool" where
  "dns1123LabelRegexp s \<longleftrightarrow> s \<noteq> [] \<and> dns_char (hd s) \<and> dns_char (last s) \<and>
     list_all (\<lambda>c. dns_char c \<or> c = CHR ''-'') s"

definition dns1123SubdomainRegexp :: "string \<Rightarrow> bool" where
  "dns1123SubdomainRegexp s \<longleftrightarrow> list_all dns1123LabelRegexp (strings_Split s (CHR ''.''))"

definition IsDNS1123Subdomain :: "string \<Rightarrow> string list" where
  "IsDNS1123Subdomain value =
     (if length value > 253 then [''must be no more than 253 characters''] else []) @
     (if \<not> dns1123SubdomainRegexp value then [''a valid DNS (RFC 1123) subdomain''] else [])"

definition qualifiedName_name :: "string \<Rightarrow> string list" where
  "qualifiedName_name name =
     (if length name = 0 then [''name part must be non-empty'']
      else if length name > 63 then [''name part must be no more than 63 characters''] else []) @
     (if \<not> qualifiedNameRegexp name then [''name part must consist of alphanumeric characters''] else [])"

definition IsQualifiedName :: "string \<Rightarrow> string list" where
  "IsQualifiedName value =
     (case strings_Split value (CHR ''/'') of
        [name] \<Rightarrow> qualifiedName_name name
      | [pre, name] \<Rightarrow>
          (if length pre = 0 then [''prefix part must be non-empty'']
           else map ((@) ''prefix part '') (IsDNS1123Subdomain pre)) @ qualifiedName_name name
      | _ \<Rightarrow> [''a qualified name with an optional DNS subdomain prefix''])"

section \<open>Labels\<close>

definition IsDNS1123Label :: "string \<Rightarrow> string list" where
  "IsDNS1123Label value =
     (if length value > 63 then [''must be no more than 63 characters''] else []) @
     (if \<not> dns1123LabelRegexp value then [''a valid DNS (RFC 1123) label''] else [])"

definition labelValueRegexp :: "string \<Rightarrow> bool" where
  "labelValueRegexp s \<longleftrightarrow> s = [] \<or> qualifiedNameRegexp s"

definition IsValidLabelValue :: "string \<Rightarrow> string list" where
  "IsValidLabelValue value =
     (if length value > 63 then [''must be no more than 63 characters''] else []) @
     (if \<not> labelValueRegexp value then [''a valid label value''] else [])"

lemma IsDNS1123Label_subdomain: "IsDNS1123Label s = [] \<Longrightarrow> IsDNS1123Subdomain s = []"
proof -
  assume v: "IsDNS1123Label s = []"
  have "\<not> dns_char (CHR ''.'')" by (simp add: dns_char_def)
  with v have "CHR ''.'' \<notin> set s"
    by (auto simp: IsDNS1123Label_def dns1123LabelRegexp_def list_all_iff split: if_splits)
  with v show ?thesis
    by (auto simp: IsDNS1123Label_def IsDNS1123Subdomain_def dns1123SubdomainRegexp_def
        strings_Split_notin split: if_splits)
qed

end
