(* ===== verification/Label_Selector.thy ===== *)
theory Label_Selector
  imports Validation "HOL-Library.Char_ord" "HOL-Library.List_Lexorder"
begin

text \<open>
  Label selectors: the API type \<open>LabelSelector\<close> and its conversion in \<open>pkg/apis/meta/v1/helpers.go\<close>,
  requirements and matching of \<open>pkg/labels/selector.go\<close>. The theorem gives the meaning of a converted selector. The
  text form of selectors (lexer and parser of \<open>selector.go\<close>) is not used by the volume subsystem.
\<close>

section \<open>Requirements and selectors\<close>

datatype operator = DoesNotExist | Equals | DoubleEquals | In | NotEquals | NotIn | Exists
  | GreaterThan | LessThan | OtherOperator string

record Requirement =
  req_key :: string
  req_operator :: operator
  req_strValues :: "string list"

definition validateLabelKey :: "string \<Rightarrow> error option" where
  "validateLabelKey k = (if IsQualifiedName k \<noteq> [] then Some (Errorf ''invalid label key'' None) else None)"

definition validateLabelValue :: "string \<Rightarrow> error option" where
  "validateLabelValue v = (if IsValidLabelValue v \<noteq> [] then Some (Errorf ''invalid label value'' None) else None)"

definition check_values :: "operator \<Rightarrow> string list \<Rightarrow> error option" where
  "check_values op vals =
     (case op of
        In \<Rightarrow> if length vals = 0 then Some (Errorf ''values set can't be empty'' None) else None
      | NotIn \<Rightarrow> if length vals = 0 then Some (Errorf ''values set can't be empty'' None) else None
      | Equals \<Rightarrow> if length vals \<noteq> 1 then Some (Errorf ''requires one single value'' None) else None
      | DoubleEquals \<Rightarrow> if length vals \<noteq> 1 then Some (Errorf ''requires one single value'' None) else None
      | NotEquals \<Rightarrow> if length vals \<noteq> 1 then Some (Errorf ''requires one single value'' None) else None
      | Exists \<Rightarrow> if length vals \<noteq> 0 then Some (Errorf ''values set must be empty'' None) else None
      | DoesNotExist \<Rightarrow> if length vals \<noteq> 0 then Some (Errorf ''values set must be empty'' None) else None
      | GreaterThan \<Rightarrow>
          if length vals \<noteq> 1 then Some (Errorf ''exactly one value is required'' None)
          else if list_ex (\<lambda>v. isl (strconv_ParseInt v)) vals
          then Some (Errorf ''the value must be an integer'' None) else None
      | LessThan \<Rightarrow>
          if length vals \<noteq> 1 then Some (Errorf ''exactly one value is required'' None)
          else if list_ex (\<lambda>v. isl (strconv_ParseInt v)) vals
          then Some (Errorf ''the value must be an integer'' None) else None
      | OtherOperator s \<Rightarrow> Some (Errorf ''operator is not recognized'' None))"

fun first_error :: "('a \<Rightarrow> error option) \<Rightarrow> 'a list \<Rightarrow> error option" where
  "first_error f [] = None"
| "first_error f (x # xs) = (case f x of Some err \<Rightarrow> Some err | None \<Rightarrow> first_error f xs)"

definition NewRequirement :: "string \<Rightarrow> operator \<Rightarrow> string list \<Rightarrow> error + Requirement" where
  "NewRequirement key op vals =
     (case validateLabelKey key of
        Some err \<Rightarrow> Inl err
      | None \<Rightarrow>
          (case check_values op vals of
             Some err \<Rightarrow> Inl err
           | None \<Rightarrow>
               (case first_error validateLabelValue vals of
                  Some err \<Rightarrow> Inl err
                | None \<Rightarrow> Inr \<lparr>req_key = key, req_operator = op, req_strValues = sort vals\<rparr>)))"

type_synonym labels = "(string, string) gomap"

definition labels_Get :: "labels \<Rightarrow> string \<Rightarrow> string" where
  "labels_Get ls k = (case mget ls k of None \<Rightarrow> [] | Some v \<Rightarrow> v)"

definition hasValue :: "Requirement \<Rightarrow> string \<Rightarrow> bool" where
  "hasValue r v \<longleftrightarrow> v \<in> set (req_strValues r)"

definition compare_int :: "(int \<Rightarrow> int \<Rightarrow> bool) \<Rightarrow> Requirement \<Rightarrow> labels \<Rightarrow> bool" where
  "compare_int rel r ls =
     (if \<not> mhas ls (req_key r) then False
      else case strconv_ParseInt (labels_Get ls (req_key r)) of
        Inl err \<Rightarrow> False
      | Inr lsValue \<Rightarrow>
          (case req_strValues r of
             [v] \<Rightarrow> (case strconv_ParseInt v of Inl err \<Rightarrow> False | Inr rValue \<Rightarrow> rel lsValue rValue)
           | _ \<Rightarrow> False))"

definition Requirement_Matches :: "Requirement \<Rightarrow> labels \<Rightarrow> bool" where
  "Requirement_Matches r ls =
     (let isIn = (if \<not> mhas ls (req_key r) then False else hasValue r (labels_Get ls (req_key r)));
          isNotIn = (if \<not> mhas ls (req_key r) then True else \<not> hasValue r (labels_Get ls (req_key r)))
      in case req_operator r of
        In \<Rightarrow> isIn | Equals \<Rightarrow> isIn | DoubleEquals \<Rightarrow> isIn
      | NotIn \<Rightarrow> isNotIn | NotEquals \<Rightarrow> isNotIn
      | Exists \<Rightarrow> mhas ls (req_key r)
      | DoesNotExist \<Rightarrow> \<not> mhas ls (req_key r)
      | GreaterThan \<Rightarrow> compare_int (>) r ls
      | LessThan \<Rightarrow> compare_int (<) r ls
      | OtherOperator s \<Rightarrow> False)"

text \<open>
  \<open>sort.Sort(ByKey(sel))\<close> leaves the order of requirements with one key open; the model keeps it.
\<close>

datatype Selector = nothingSelector | internalSelector "Requirement list"

fun Selector_Add :: "Selector \<Rightarrow> Requirement \<Rightarrow> Selector" where
  "Selector_Add nothingSelector r = nothingSelector"
| "Selector_Add (internalSelector lsel) r = internalSelector (sort_key req_key (lsel @ [r]))"

fun Selector_Matches :: "Selector \<Rightarrow> labels \<Rightarrow> bool" where
  "Selector_Matches nothingSelector l = False"
| "Selector_Matches (internalSelector lsel) l = list_all (\<lambda>r. Requirement_Matches r l) lsel"

section \<open>LabelSelectorAsSelector\<close>

datatype labelSelectorOperator = LabelSelectorOpIn | LabelSelectorOpNotIn | LabelSelectorOpExists
  | LabelSelectorOpDoesNotExist | LabelSelectorOpOther string

record LabelSelectorRequirement =
  lsr_Key :: string
  lsr_Operator :: labelSelectorOperator
  lsr_Values :: "string list"

record LabelSelector =
  ls_MatchLabels :: "(string, string) gomap"
  ls_MatchExpressions :: "LabelSelectorRequirement list"

fun add_match_labels :: "(string, string) gomap \<Rightarrow> Selector \<Rightarrow> error + Selector" where
  "add_match_labels [] selector = Inr selector"
| "add_match_labels ((k, v) # rest) selector =
     (case NewRequirement k Equals [v] of
        Inl err \<Rightarrow> Inl err
      | Inr r \<Rightarrow> add_match_labels rest (Selector_Add selector r))"

definition expr_operator :: "labelSelectorOperator \<Rightarrow> error + operator" where
  "expr_operator op =
     (case op of
        LabelSelectorOpIn \<Rightarrow> Inr In
      | LabelSelectorOpNotIn \<Rightarrow> Inr NotIn
      | LabelSelectorOpExists \<Rightarrow> Inr Exists
      | LabelSelectorOpDoesNotExist \<Rightarrow> Inr DoesNotExist
      | LabelSelectorOpOther s \<Rightarrow> Inl (Errorf ''not a valid pod selector operator'' None))"

fun add_match_expressions :: "LabelSelectorRequirement list \<Rightarrow> Selector \<Rightarrow> error + Selector" where
  "add_match_expressions [] selector = Inr selector"
| "add_match_expressions (expr # rest) selector =
     (case expr_operator (lsr_Operator expr) of
        Inl err \<Rightarrow> Inl err
      | Inr op \<Rightarrow>
          (case NewRequirement (lsr_Key expr) op (lsr_Values expr) of
             Inl err \<Rightarrow> Inl err
           | Inr r \<Rightarrow> add_match_expressions rest (Selector_Add selector r)))"

definition LabelSelectorAsSelector :: "LabelSelector option \<Rightarrow> error + Selector" where
  "LabelSelectorAsSelector ps =
     (case ps of
        None \<Rightarrow> Inr nothingSelector
      | Some ps \<Rightarrow>
          if length (ls_MatchLabels ps) + length (ls_MatchExpressions ps) = 0
          then Inr (internalSelector [])
          else case add_match_labels (ls_MatchLabels ps) (internalSelector []) of
            Inl err \<Rightarrow> Inl err
          | Inr selector \<Rightarrow> add_match_expressions (ls_MatchExpressions ps) selector)"

section \<open>Meaning of a selector\<close>

text \<open>What the API documentation says a selector selects.\<close>

definition expr_holds :: "LabelSelectorRequirement \<Rightarrow> labels \<Rightarrow> bool" where
  "expr_holds expr ls =
     (case lsr_Operator expr of
        LabelSelectorOpIn \<Rightarrow> mget ls (lsr_Key expr) \<in> Some ` set (lsr_Values expr)
      | LabelSelectorOpNotIn \<Rightarrow> mget ls (lsr_Key expr) \<notin> Some ` set (lsr_Values expr)
      | LabelSelectorOpExists \<Rightarrow> mget ls (lsr_Key expr) \<noteq> None
      | LabelSelectorOpDoesNotExist \<Rightarrow> mget ls (lsr_Key expr) = None
      | LabelSelectorOpOther s \<Rightarrow> False)"

definition selector_selects :: "LabelSelector \<Rightarrow> labels \<Rightarrow> bool" where
  "selector_selects ps ls \<longleftrightarrow>
     (\<forall>(k, v) \<in> set (ls_MatchLabels ps). mget ls k = Some v) \<and>
     (\<forall>expr \<in> set (ls_MatchExpressions ps). expr_holds expr ls)"

lemma NewRequirement_Inr:
  "NewRequirement key op vals = Inr r \<Longrightarrow>
   r = \<lparr>req_key = key, req_operator = op, req_strValues = sort vals\<rparr>"
  by (auto simp: NewRequirement_def split: option.splits)

lemma Selector_Matches_Add:
  "Selector_Matches (Selector_Add s r) ls \<longleftrightarrow> Selector_Matches s ls \<and> Requirement_Matches r ls"
  by (cases s) (auto simp: list_all_iff)

lemma Requirement_Matches_Equals:
  "NewRequirement k Equals [v] = Inr r \<Longrightarrow> Requirement_Matches r ls \<longleftrightarrow> mget ls k = Some v"
  by (auto dest!: NewRequirement_Inr
      simp: Requirement_Matches_def hasValue_def labels_Get_def mhas_def split: option.split)

lemma Requirement_Matches_expr:
  "expr_operator (lsr_Operator expr) = Inr op \<Longrightarrow>
   NewRequirement (lsr_Key expr) op (lsr_Values expr) = Inr r \<Longrightarrow>
   Requirement_Matches r ls \<longleftrightarrow> expr_holds expr ls"
  by (auto dest!: NewRequirement_Inr
      simp: expr_operator_def expr_holds_def Requirement_Matches_def hasValue_def labels_Get_def mhas_def
      split: option.splits labelSelectorOperator.splits)

lemma add_match_labels_matches:
  "add_match_labels es s = Inr s' \<Longrightarrow>
   Selector_Matches s' ls \<longleftrightarrow> Selector_Matches s ls \<and> (\<forall>(k, v) \<in> set es. mget ls k = Some v)"
  by (induction es s rule: add_match_labels.induct)
    (auto simp: Selector_Matches_Add Requirement_Matches_Equals split: sum.splits)

lemma add_match_expressions_matches:
  "add_match_expressions es s = Inr s' \<Longrightarrow>
   Selector_Matches s' ls \<longleftrightarrow> Selector_Matches s ls \<and> (\<forall>expr \<in> set es. expr_holds expr ls)"
  by (induction es s rule: add_match_expressions.induct)
    (auto simp: Selector_Matches_Add Requirement_Matches_expr split: sum.splits)

lemma LabelSelectorAsSelector_matches:
  "LabelSelectorAsSelector (Some ps) = Inr s \<Longrightarrow> Selector_Matches s ls \<longleftrightarrow> selector_selects ps ls"
  by (auto simp: LabelSelectorAsSelector_def selector_selects_def add_match_labels_matches
      add_match_expressions_matches split: if_splits sum.splits)

text \<open>When the conversion fails: exactly for a requirement that the constructor refuses.\<close>

definition expr_valid :: "LabelSelectorRequirement \<Rightarrow> bool" where
  "expr_valid expr \<longleftrightarrow>
     (case expr_operator (lsr_Operator expr) of
        Inl _ \<Rightarrow> False
      | Inr op \<Rightarrow> \<not> isl (NewRequirement (lsr_Key expr) op (lsr_Values expr)))"

definition selector_valid :: "LabelSelector \<Rightarrow> bool" where
  "selector_valid ps \<longleftrightarrow>
     list_all (\<lambda>(k, v). \<not> isl (NewRequirement k Equals [v])) (ls_MatchLabels ps) \<and>
     list_all expr_valid (ls_MatchExpressions ps)"

lemma add_match_labels_total:
  "isl (add_match_labels es s) \<longleftrightarrow> \<not> list_all (\<lambda>(k, v). \<not> isl (NewRequirement k Equals [v])) es"
  by (induction es s rule: add_match_labels.induct) (auto split: sum.split)

lemma add_match_expressions_total:
  "isl (add_match_expressions es s) \<longleftrightarrow> \<not> list_all expr_valid es"
  by (induction es s rule: add_match_expressions.induct) (auto simp: expr_valid_def split: sum.split)

lemma LabelSelectorAsSelector_total:
  "isl (LabelSelectorAsSelector (Some ps)) \<longleftrightarrow> \<not> selector_valid ps"
  using add_match_labels_total [of "ls_MatchLabels ps" "internalSelector []"]
  by (auto simp: LabelSelectorAsSelector_def selector_valid_def add_match_expressions_total split: sum.splits)


end
