(* ===== verification/API_Types.thy ===== *)
theory API_Types
  imports Label_Selector "HOL-Library.Word"
begin

text \<open>
  The objects of \<open>pkg/api/v1/types.go\<close> that the volume subsystem reads and writes, with the fields it
  uses. A volume source other than NVMe-oF and the claim reference is only inspected by its own plugin;
  it is kept as an opaque text. A nil pointer is \<open>None\<close>; a nil slice is the empty one; a
  \<open>resource.Quantity\<close> of storage is its number of bytes.
\<close>

type_synonym int32 = "32 word"

record NVMEOFVolumeSource =
  nvmeof_Transport :: string
  nvmeof_TrAddr :: string
  nvmeof_TrSvcId :: int32
  nvmeof_Nqn :: string
  nvmeof_FSType :: string
  nvmeof_ReadOnly :: bool

record PersistentVolumeClaimVolumeSource =
  pvcvs_ClaimName :: string
  pvcvs_ReadOnly :: bool

record v1_Volume =
  vol_Name :: string
  vol_NVMEOF :: "NVMEOFVolumeSource option"
  vol_PersistentVolumeClaim :: "PersistentVolumeClaimVolumeSource option"
  vol_EmptyDir :: "string option"  \<comment> \<open>the medium\<close>
  vol_ConfigMap :: bool
  vol_Secret :: bool
  vol_source :: string

record ObjectReference =
  ref_Namespace :: string
  ref_Name :: string
  ref_UID :: uid

datatype accessMode = ReadWriteOnce | ReadOnlyMany | ReadWriteMany

datatype reclaimPolicy = PersistentVolumeReclaimRecycle | PersistentVolumeReclaimDelete
  | PersistentVolumeReclaimRetain | OtherReclaimPolicy string

datatype volumePhase = VolumePending | VolumeAvailable | VolumeBound | VolumeReleased | VolumeFailed

datatype claimPhase = ClaimPending | ClaimBound | ClaimLost

record PersistentVolume =
  pv_Name :: string
  pv_UID :: uid
  pv_ResourceVersion :: string
  pv_Annotations :: "(string, string) gomap"
  pv_Labels :: "(string, string) gomap"
  pv_DeletionTimestamp :: "time option"
  pv_Capacity :: "int option"  \<comment> \<open>the quantity of storage, in bytes\<close>
  pv_AccessModes :: "accessMode list"
  pv_ClaimRef :: "ObjectReference option"
  pv_ReclaimPolicy :: reclaimPolicy
  pv_NVMEOF :: "NVMEOFVolumeSource option"
  pv_source :: string
  pv_Phase :: volumePhase
  pv_Message :: string
  pv_Reason :: string

record PersistentVolumeClaim =
  pvc_Namespace :: string
  pvc_Name :: string
  pvc_UID :: uid
  pvc_ResourceVersion :: string
  pvc_SelfLink :: string
  pvc_APIVersion :: string
  pvc_Annotations :: "(string, string) gomap"
  pvc_AccessModes :: "accessMode list"
  pvc_Storage :: int  \<comment> \<open>the requested quantity of storage, 0 for none\<close>
  pvc_Selector :: "LabelSelector option"
  pvc_VolumeName :: string
  pvc_Phase :: claimPhase
  pvc_StatusAccessModes :: "accessMode list"
  pvc_StatusCapacity :: "int option"

datatype podPhase = PodPending | PodRunning | PodSucceeded | PodFailed | PodUnknown
  | PodPhaseUnset  \<comment> \<open>the empty string, of a pod object without status\<close>

record v1_Pod =
  pod_Name :: string
  pod_Namespace :: string
  pod_UID :: uid
  pod_NodeName :: node_name
  pod_Volumes :: "v1_Volume list"
  pod_FSGroup :: "int option"  \<comment> \<open>of the security context\<close>
  pod_SupplementalGroups :: "int list"  \<comment> \<open>of the security context; none without one\<close>
  pod_Phase :: podPhase

text \<open>An entry of the attached volumes in the status of a node.\<close>

record v1_AttachedVolume =
  av_Name :: unique_volume_name
  av_DevicePath :: string

record v1_Node =
  node_Name :: node_name
  node_Annotations :: "(string, string) gomap"
  node_VolumesAttached :: "v1_AttachedVolume list"
  node_VolumesInUse :: "unique_volume_name list"

end
