(* ===== verification/Volume_Plugins.thy ===== *)
theory Volume_Plugins
  imports API_Types Go_Strings
begin

text \<open>
  \<open>pkg/volume/plugins.go\<close> (volume specs and the plugin manager),
  \<open>pkg/volume/util/volumehelper/volumehelper.go\<close> (unique names) and, from
  \<open>pkg/util/validation/validation.go\<close> and \<open>pkg/util/strings/escape.go\<close>, the name checks and escapes
  they use (the checks themselves are in theory \<open>Validation\<close>). A plugin is a record of its methods; the optional interfaces that the Go code discovers by
  a type assertion are Boolean fields.
\<close>

section \<open>Names on disk\<close>

definition EscapeQualifiedNameForDisk :: "string \<Rightarrow> string" where
  "EscapeQualifiedNameForDisk s = map (\<lambda>c. if c = CHR ''/'' then CHR ''~'' else c) s"

definition UnescapeQualifiedNameForDisk :: "string \<Rightarrow> string" where
  "UnescapeQualifiedNameForDisk s = map (\<lambda>c. if c = CHR ''~'' then CHR ''/'' else c) s"

section \<open>Specs and plugins\<close>

record Spec =
  sp_Volume :: "v1_Volume option"
  sp_PersistentVolume :: "PersistentVolume option"
  sp_ReadOnly :: bool

definition Spec_Name :: "Spec \<Rightarrow> string" where
  "Spec_Name spec =
     (case sp_Volume spec of Some v \<Rightarrow> vol_Name v
      | None \<Rightarrow> (case sp_PersistentVolume spec of Some pv \<Rightarrow> pv_Name pv | None \<Rightarrow> ''''))"

definition NewSpecFromVolume :: "v1_Volume \<Rightarrow> Spec" where
  "NewSpecFromVolume vs = \<lparr>sp_Volume = Some vs, sp_PersistentVolume = None, sp_ReadOnly = False\<rparr>"

definition NewSpecFromPersistentVolume :: "PersistentVolume \<Rightarrow> bool \<Rightarrow> Spec" where
  "NewSpecFromPersistentVolume pv readOnly =
     \<lparr>sp_Volume = None, sp_PersistentVolume = Some pv, sp_ReadOnly = readOnly\<rparr>"

record VolumePlugin =
  pl_GetPluginName :: string
  pl_GetVolumeName :: "Spec \<Rightarrow> error + string"
  pl_CanSupport :: "Spec \<Rightarrow> bool"
  pl_RequiresRemount :: bool
  pl_Persistent :: bool
  pl_Recyclable :: bool
  pl_Deletable :: bool
  pl_Provisionable :: bool
  pl_Attachable :: bool

type_synonym 'a plugins = "(string, 'a VolumePlugin_scheme) gomap"

text \<open>
  \<open>InitPlugins\<close>; \<open>init\<close> is \<open>plugin.Init(host)\<close>, which may update the plugin.
\<close>

fun InitPlugins_loop ::
    "('a VolumePlugin_scheme \<Rightarrow> error option \<times> 'a VolumePlugin_scheme) \<Rightarrow>
     'a VolumePlugin_scheme list \<Rightarrow> error list \<times> 'a plugins \<Rightarrow> error list \<times> 'a plugins" where
  "InitPlugins_loop init [] (allErrs, pm) = (allErrs, pm)"
| "InitPlugins_loop init (plugin # ps) (allErrs, pm) =
     (let name = pl_GetPluginName plugin in
      if length (IsQualifiedName name) \<noteq> 0
      then InitPlugins_loop init ps (allErrs @ [Errorf ''volume plugin has invalid name'' None], pm)
      else if mhas pm name
      then InitPlugins_loop init ps (allErrs @ [Errorf ''volume plugin was registered more than once'' None], pm)
      else case init plugin of
          (Some err, _) \<Rightarrow> InitPlugins_loop init ps (allErrs @ [err], pm)
        | (None, plugin') \<Rightarrow> InitPlugins_loop init ps (allErrs, mput name plugin' pm))"

definition InitPlugins ::
    "('a VolumePlugin_scheme \<Rightarrow> error option \<times> 'a VolumePlugin_scheme) \<Rightarrow>
     'a VolumePlugin_scheme list \<Rightarrow> 'a plugins \<Rightarrow> error option \<times> 'a plugins" where
  "InitPlugins init ps pm = (let (allErrs, pm') = InitPlugins_loop init ps ([], pm) in (NewAggregate allErrs, pm'))"

text \<open>The loop and the selection shared by \<open>FindPluginBySpec\<close> and \<open>FindPluginByName\<close>.\<close>

fun matches_loop :: "('p \<Rightarrow> bool) \<Rightarrow> (string, 'p) gomap \<Rightarrow> string list \<Rightarrow> string list" where
  "matches_loop P [] matches = matches"
| "matches_loop P ((k, v) # pm) matches = matches_loop P pm (if P v then matches @ [k] else matches)"

definition select_match :: "(string, 'p) gomap \<Rightarrow> string list \<Rightarrow> error + 'p" where
  "select_match pm matches =
     (if length matches = 0 then Inl (Errorf ''no volume plugin matched'' None)
      else if length matches > 1 then Inl (Errorf ''multiple volume plugins matched'' None)
      else case mget pm (matches ! 0) of Some p \<Rightarrow> Inr p | None \<Rightarrow> Inl (Errorf ''nil plugin'' None))"

definition FindPluginBySpec :: "'a plugins \<Rightarrow> Spec \<Rightarrow> error + 'a VolumePlugin_scheme" where
  "FindPluginBySpec pm spec = select_match pm (matches_loop (\<lambda>v. pl_CanSupport v spec) pm [])"

definition FindPluginByName :: "'a plugins \<Rightarrow> string \<Rightarrow> error + 'a VolumePlugin_scheme" where
  "FindPluginByName pm name = select_match pm (matches_loop (\<lambda>v. pl_GetPluginName v = name) pm [])"

text \<open>The lookups by capability. \<open>FindPersistentPluginBySpec\<close> replaces the error it gets.\<close>

definition with_capability :: "('p \<Rightarrow> bool) \<Rightarrow> string \<Rightarrow> error + 'p \<Rightarrow> error + 'p" where
  "with_capability ok msg r =
     (case r of Inl err \<Rightarrow> Inl err | Inr p \<Rightarrow> if ok p then Inr p else Inl (Errorf msg None))"

definition FindPersistentPluginBySpec :: "'a plugins \<Rightarrow> Spec \<Rightarrow> error + 'a VolumePlugin_scheme" where
  "FindPersistentPluginBySpec pm spec =
     (case FindPluginBySpec pm spec of
        Inl _ \<Rightarrow> Inl (Errorf ''Could not find volume plugin for spec'' None)
      | Inr p \<Rightarrow> with_capability pl_Persistent ''no persistent volume plugin matched'' (Inr p))"

definition FindPersistentPluginByName :: "'a plugins \<Rightarrow> string \<Rightarrow> error + 'a VolumePlugin_scheme" where
  "FindPersistentPluginByName pm name =
     with_capability pl_Persistent ''no persistent volume plugin matched'' (FindPluginByName pm name)"

definition FindRecyclablePluginBySpec :: "'a plugins \<Rightarrow> Spec \<Rightarrow> error + 'a VolumePlugin_scheme" where
  "FindRecyclablePluginBySpec pm spec =
     with_capability pl_Recyclable ''no recyclable volume plugin matched'' (FindPluginBySpec pm spec)"

definition FindProvisionablePluginByName :: "'a plugins \<Rightarrow> string \<Rightarrow> error + 'a VolumePlugin_scheme" where
  "FindProvisionablePluginByName pm name =
     with_capability pl_Provisionable ''no provisionable volume plugin matched'' (FindPluginByName pm name)"

definition FindDeletablePluginBySpec :: "'a plugins \<Rightarrow> Spec \<Rightarrow> error + 'a VolumePlugin_scheme" where
  "FindDeletablePluginBySpec pm spec =
     with_capability pl_Deletable ''no deletable volume plugin matched'' (FindPluginBySpec pm spec)"

definition FindDeletablePluginByName :: "'a plugins \<Rightarrow> string \<Rightarrow> error + 'a VolumePlugin_scheme" where
  "FindDeletablePluginByName pm name =
     with_capability pl_Deletable ''no deletable volume plugin matched'' (FindPluginByName pm name)"

definition FindCreatablePluginBySpec :: "'a plugins \<Rightarrow> Spec \<Rightarrow> error + 'a VolumePlugin_scheme" where
  "FindCreatablePluginBySpec pm spec =
     with_capability pl_Provisionable ''no creatable volume plugin matched'' (FindPluginBySpec pm spec)"

text \<open>A plugin without an attacher is \<open>Inr None\<close>, the pair \<open>(nil, nil)\<close> of the source.\<close>

definition attachable_of :: "error + 'a VolumePlugin_scheme \<Rightarrow> error + 'a VolumePlugin_scheme option" where
  "attachable_of r = (case r of Inl err \<Rightarrow> Inl err | Inr p \<Rightarrow> Inr (if pl_Attachable p then Some p else None))"

definition FindAttachablePluginBySpec :: "'a plugins \<Rightarrow> Spec \<Rightarrow> error + 'a VolumePlugin_scheme option" where
  "FindAttachablePluginBySpec pm spec = attachable_of (FindPluginBySpec pm spec)"

definition FindAttachablePluginByName :: "'a plugins \<Rightarrow> string \<Rightarrow> error + 'a VolumePlugin_scheme option" where
  "FindAttachablePluginByName pm name = attachable_of (FindPluginByName pm name)"

section \<open>Unique names\<close>

definition GetUniqueVolumeName :: "string \<Rightarrow> string \<Rightarrow> unique_volume_name" where
  "GetUniqueVolumeName pluginName volumeName = pluginName @ ''/'' @ volumeName"

definition GetUniqueVolumeNameForNonAttachableVolume ::
    "unique_pod_name \<Rightarrow> 'a VolumePlugin_scheme \<Rightarrow> Spec \<Rightarrow> unique_volume_name" where
  "GetUniqueVolumeNameForNonAttachableVolume podName volumePlugin volumeSpec =
     pl_GetPluginName volumePlugin @ ''/'' @ podName @ ''-'' @ Spec_Name volumeSpec"

definition GetUniqueVolumeNameFromSpec ::
    "'a VolumePlugin_scheme option \<Rightarrow> Spec \<Rightarrow> error + unique_volume_name" where
  "GetUniqueVolumeNameFromSpec volumePlugin volumeSpec =
     (case volumePlugin of
        None \<Rightarrow> Inl (Errorf ''volumePlugin should not be nil'' None)
      | Some p \<Rightarrow>
          (case pl_GetVolumeName p volumeSpec of
             Inl err \<Rightarrow> Inl (Errorf ''failed to GetVolumeName from volumePlugin for volumeSpec'' (Some err))
           | Inr volumeName \<Rightarrow>
               if volumeName = '''' then Inl (Errorf ''failed to GetVolumeName from volumePlugin for volumeSpec'' None)
               else Inr (GetUniqueVolumeName (pl_GetPluginName p) volumeName)))"

section \<open>Lemmas\<close>

lemma matches_loop_filter: "matches_loop P pm acc = acc @ map fst (filter (\<lambda>(k, v). P v) pm)"
  by (induction P pm acc rule: matches_loop.induct) auto

text \<open>The selection finds a plugin exactly when one entry, and one only, matches.\<close>

lemma distinct_singleton: "distinct xs \<Longrightarrow> set xs = {x} \<Longrightarrow> xs = [x]"
  by (cases xs; cases "tl xs") auto

lemma select_match_singleton:
  "select_match pm (map fst ms) = Inr p \<longleftrightarrow> (\<exists>k v. ms = [(k, v)] \<and> mget pm k = Some p)"
  by (cases ms; cases "tl ms") (auto simp: select_match_def split: option.splits)

lemma select_match_Inr:
  assumes "mwf pm"
  shows "select_match pm (matches_loop P pm []) = Inr p \<longleftrightarrow>
    (\<exists>k. mget pm k = Some p \<and> P p \<and> (\<forall>k' v. mget pm k' = Some v \<longrightarrow> P v \<longrightarrow> k' = k))"
proof -
  let ?ms = "filter (\<lambda>(k, v). P v) pm"
  have dist: "distinct ?ms" using assms by (simp add: mwf_def distinct_map)
  have mem: "(k', v') \<in> set ?ms \<longleftrightarrow> mget pm k' = Some v' \<and> P v'" for k' v'
    using gm.entries_get [OF assms, of k' v'] by simp
  have "(\<exists>v. ?ms = [(k, v)] \<and> mget pm k = Some p) \<longleftrightarrow>
      mget pm k = Some p \<and> P p \<and> (\<forall>k' v. mget pm k' = Some v \<longrightarrow> P v \<longrightarrow> k' = k)" for k
  proof
    assume "\<exists>v. ?ms = [(k, v)] \<and> mget pm k = Some p"
    then obtain v where ms: "?ms = [(k, v)]" and p: "mget pm k = Some p" by blast
    have "mget pm k' = Some v' \<and> P v' \<longleftrightarrow> k' = k \<and> v' = v" for k' v'
      using mem [of k' v'] unfolding ms by simp
    with p show "mget pm k = Some p \<and> P p \<and> (\<forall>k' v. mget pm k' = Some v \<longrightarrow> P v \<longrightarrow> k' = k)"
      by (metis option.inject)
  next
    assume k: "mget pm k = Some p \<and> P p \<and> (\<forall>k' v. mget pm k' = Some v \<longrightarrow> P v \<longrightarrow> k' = k)"
    have "set ?ms = {(k, p)}"
    proof (rule set_eqI)
      show "e \<in> set ?ms \<longleftrightarrow> e \<in> {(k, p)}" for e
        using mem k by (cases e) (metis insertCI insertE option.inject prod.inject singletonD)
    qed
    with distinct_singleton [OF dist] k show "\<exists>v. ?ms = [(k, v)] \<and> mget pm k = Some p" by blast
  qed
  then show ?thesis
    unfolding matches_loop_filter append_Nil select_match_singleton by blast
qed

text \<open>Every plugin is stored under the name it reports.\<close>

definition keyed :: "'a plugins \<Rightarrow> bool" where
  "keyed pm \<longleftrightarrow> mwf pm \<and> (\<forall>k p. mget pm k = Some p \<longrightarrow> pl_GetPluginName p = k \<and> IsQualifiedName k = [])"

lemma keyed_Nil [simp]: "keyed []"
  by (simp add: keyed_def)

lemma keyed_mput:
  "keyed pm \<Longrightarrow> pl_GetPluginName p = k \<Longrightarrow> IsQualifiedName k = [] \<Longrightarrow> keyed (mput k p pm)"
  by (auto simp: keyed_def gm.get_put)

lemma FindPluginByName_keyed:
  assumes "keyed pm"
  shows "FindPluginByName pm name = Inr p \<longleftrightarrow> mget pm name = Some p"
proof -
  have wf: "mwf pm" using assms by (simp add: keyed_def)
  show ?thesis
    unfolding FindPluginByName_def select_match_Inr [OF wf] using assms by (auto simp: keyed_def)
qed

text \<open>One iteration of the loop either rejects the plugin or stores it under its name.\<close>

definition plugin_accepted ::
    "('a VolumePlugin_scheme \<Rightarrow> error option \<times> 'a VolumePlugin_scheme) \<Rightarrow> 'a plugins \<Rightarrow>
     'a VolumePlugin_scheme \<Rightarrow> bool" where
  "plugin_accepted init pm p \<longleftrightarrow>
     IsQualifiedName (pl_GetPluginName p) = [] \<and> \<not> mhas pm (pl_GetPluginName p) \<and> fst (init p) = None"

lemma InitPlugins_loop_accepted:
  "plugin_accepted init pm p \<Longrightarrow>
   InitPlugins_loop init (p # ps) (errs, pm) =
     InitPlugins_loop init ps (errs, mput (pl_GetPluginName p) (snd (init p)) pm)"
  by (cases "init p") (simp add: plugin_accepted_def)

lemma InitPlugins_loop_rejected:
  assumes "\<not> plugin_accepted init pm p"
  shows "\<exists>e. InitPlugins_loop init (p # ps) (errs, pm) = InitPlugins_loop init ps (errs @ [e], pm)"
proof -
  consider (name) "IsQualifiedName (pl_GetPluginName p) \<noteq> []"
    | (dup) "IsQualifiedName (pl_GetPluginName p) = []" "mhas pm (pl_GetPluginName p)"
    | (fail) e q where "IsQualifiedName (pl_GetPluginName p) = []" "\<not> mhas pm (pl_GetPluginName p)" "init p = (Some e, q)"
    using assms by (cases "init p") (auto simp: plugin_accepted_def)
  then show ?thesis by cases auto
qed

lemma InitPlugins_loop_keyed:
  assumes init: "\<forall>p. pl_GetPluginName (snd (init p)) = pl_GetPluginName p"
  shows "InitPlugins_loop init ps (errs, pm) = (errs', pm') \<Longrightarrow> keyed pm \<Longrightarrow>
    keyed pm' \<and> (\<forall>k p. mget pm k = Some p \<longrightarrow> mget pm' k = Some p)"
proof (induction ps arbitrary: errs pm)
  case Nil
  then show ?case by simp
next
  case (Cons p ps)
  show ?case
  proof (cases "plugin_accepted init pm p")
    case True
    let ?pm = "mput (pl_GetPluginName p) (snd (init p)) pm"
    have "keyed ?pm"
      using True Cons.prems(2) init by (auto intro: keyed_mput simp: plugin_accepted_def)
    moreover have "InitPlugins_loop init ps (errs, ?pm) = (errs', pm')"
      using Cons.prems(1) unfolding InitPlugins_loop_accepted [OF True] .
    ultimately have "keyed pm' \<and> (\<forall>k q. mget ?pm k = Some q \<longrightarrow> mget pm' k = Some q)"
      using Cons.IH by blast
    moreover have "mget ?pm k = mget pm k" if "mget pm k \<noteq> None" for k
      using that True by (cases "k = pl_GetPluginName p") (auto simp: plugin_accepted_def mhas_def)
    ultimately show ?thesis by (metis option.distinct(1))
  next
    case False
    with Cons show ?thesis by (metis InitPlugins_loop_rejected)
  qed
qed

text \<open>The loop reports no error exactly when every plugin is acceptable in its turn.\<close>

definition all_accepted ::
    "('a VolumePlugin_scheme \<Rightarrow> error option \<times> 'a VolumePlugin_scheme) \<Rightarrow> 'a plugins \<Rightarrow>
     'a VolumePlugin_scheme list \<Rightarrow> bool" where
  "all_accepted init pm ps \<longleftrightarrow>
     distinct (map pl_GetPluginName ps) \<and> (\<forall>p \<in> set ps. plugin_accepted init pm p)"

lemma all_accepted_Cons:
  "all_accepted init pm (p # ps) \<longleftrightarrow>
     plugin_accepted init pm p \<and> all_accepted init (mput (pl_GetPluginName p) q pm) ps"
proof -
  have "plugin_accepted init (mput (pl_GetPluginName p) q pm) p' \<longleftrightarrow>
      plugin_accepted init pm p' \<and> pl_GetPluginName p' \<noteq> pl_GetPluginName p" for p'
    by (auto simp: plugin_accepted_def mhas_def gm.get_put)
  then show ?thesis by (auto simp: all_accepted_def image_iff)
qed

lemma InitPlugins_loop_errs:
  "InitPlugins_loop init ps (errs, pm) = (errs', pm') \<Longrightarrow>
   \<exists>more. errs' = errs @ more \<and> (more = [] \<longleftrightarrow> all_accepted init pm ps)"
proof (induction ps arbitrary: errs pm)
  case Nil
  then show ?case by (simp add: all_accepted_def)
next
  case (Cons p ps)
  show ?case
  proof (cases "plugin_accepted init pm p")
    case True
    with Cons.prems Cons.IH show ?thesis
      unfolding InitPlugins_loop_accepted [OF True] all_accepted_Cons [of _ _ _ _ "snd (init p)"] by blast
  next
    case False
    then have no: "\<not> all_accepted init pm (p # ps)" by (simp add: all_accepted_def)
    obtain e where "InitPlugins_loop init ps (errs @ [e], pm) = (errs', pm')"
      using InitPlugins_loop_rejected [OF False] Cons.prems by metis
    from Cons.IH [OF this] obtain more where "errs' = (errs @ [e]) @ more" by blast
    with no show ?thesis by (intro exI [of _ "e # more"]) simp
  qed
qed

lemma InitPlugins_loop_stored:
  assumes init: "\<forall>p. pl_GetPluginName (snd (init p)) = pl_GetPluginName p"
  shows "InitPlugins_loop init ps (errs, pm) = (errs', pm') \<Longrightarrow> keyed pm \<Longrightarrow> all_accepted init pm ps \<Longrightarrow>
    p \<in> set ps \<Longrightarrow> mget pm' (pl_GetPluginName p) = Some (snd (init p))"
proof (induction ps arbitrary: errs pm)
  case Nil
  then show ?case by simp
next
  case (Cons q ps)
  let ?pm = "mput (pl_GetPluginName q) (snd (init q)) pm"
  have acc: "plugin_accepted init pm q" and rest: "all_accepted init ?pm ps"
    using Cons.prems(3) all_accepted_Cons by blast+
  have loop: "InitPlugins_loop init ps (errs, ?pm) = (errs', pm')"
    using Cons.prems(1) unfolding InitPlugins_loop_accepted [OF acc] .
  have keyed: "keyed ?pm"
    using acc Cons.prems(2) init by (auto intro: keyed_mput simp: plugin_accepted_def)
  show ?case
  proof (cases "p \<in> set ps")
    case True
    then show ?thesis using Cons.IH [OF loop keyed rest] by simp
  next
    case False
    then have "p = q" using Cons.prems(4) by simp
    then show ?thesis using InitPlugins_loop_keyed [OF init loop keyed] by simp
  qed
qed

section \<open>Properties\<close>

text \<open>\<open>InitPlugins\<close> on a new manager returns nil exactly when all plugins have qualified and
  pairwise different names and every \<open>Init\<close> succeeds, and then \<open>FindPluginByName\<close> finds each of them
  under its name; whatever happens, a plugin that is found under a name reports that name, and the
  name is a qualified one. (\<open>Init\<close> does not change the name of a plugin.)\<close>

theorem registered_plugins_found:
  assumes "\<forall>p. pl_GetPluginName (snd (init p)) = pl_GetPluginName p"
    and "InitPlugins init ps [] = (err, pm)"
  shows "(err = None \<longleftrightarrow> distinct (map pl_GetPluginName ps) \<and>
        (\<forall>p \<in> set ps. IsQualifiedName (pl_GetPluginName p) = [] \<and> fst (init p) = None)) \<and>
    (err = None \<longrightarrow> (\<forall>p \<in> set ps. FindPluginByName pm (pl_GetPluginName p) = Inr (snd (init p)))) \<and>
    (\<forall>n p. FindPluginByName pm n = Inr p \<longrightarrow> pl_GetPluginName p = n \<and> IsQualifiedName n = [])"
proof -
  obtain errs where loop: "InitPlugins_loop init ps ([], []) = (errs, pm)" and err: "err = NewAggregate errs"
    using assms(2) by (auto simp: InitPlugins_def Let_def split: prod.splits)
  have none: "err = None \<longleftrightarrow> all_accepted init [] ps"
    using InitPlugins_loop_errs [OF loop] by (simp add: err NewAggregate_def)
  have keyed: "keyed pm" using InitPlugins_loop_keyed [OF assms(1) loop] by simp
  have "all_accepted init [] ps \<longleftrightarrow> distinct (map pl_GetPluginName ps) \<and>
      (\<forall>p \<in> set ps. IsQualifiedName (pl_GetPluginName p) = [] \<and> fst (init p) = None)"
    by (simp add: all_accepted_def plugin_accepted_def mhas_def)
  moreover have "FindPluginByName pm (pl_GetPluginName p) = Inr (snd (init p))"
    if "all_accepted init [] ps" "p \<in> set ps" for p
    using InitPlugins_loop_stored [OF assms(1) loop _ that] FindPluginByName_keyed [OF keyed] by simp
  moreover have "\<forall>n p. FindPluginByName pm n = Inr p \<longrightarrow> pl_GetPluginName p = n \<and> IsQualifiedName n = []"
    using keyed unfolding FindPluginByName_keyed [OF keyed] keyed_def by blast
  ultimately show ?thesis using none by blast
qed

definition sample_plugin :: "string \<Rightarrow> VolumePlugin" where
  "sample_plugin n = \<lparr>pl_GetPluginName = n, pl_GetVolumeName = (\<lambda>spec. Inr (Spec_Name spec)),
     pl_CanSupport = (\<lambda>spec. sp_Volume spec \<noteq> None), pl_RequiresRemount = False, pl_Persistent = True,
     pl_Recyclable = False, pl_Deletable = False, pl_Provisionable = False, pl_Attachable = True\<rparr>"

definition sample_spec :: Spec where
  "sample_spec = NewSpecFromVolume \<lparr>vol_Name = ''v'', vol_NVMEOF = None, vol_PersistentVolumeClaim = None,
     vol_EmptyDir = None, vol_ConfigMap = False, vol_Secret = False, vol_source = ''''\<rparr>"

theorem registered_plugins_found_witness:
  "(\<forall>p :: VolumePlugin. pl_GetPluginName (snd (None :: error option, p)) = pl_GetPluginName p) \<and>
   fst (InitPlugins (\<lambda>p. (None, p)) [sample_plugin ''kubernetes.io/nvmeof''] []) = None \<and>
   FindPluginByName (snd (InitPlugins (\<lambda>p. (None, p)) [sample_plugin ''kubernetes.io/nvmeof''] []))
     ''kubernetes.io/nvmeof'' = Inr (sample_plugin ''kubernetes.io/nvmeof'')"
proof -
  let ?r = "InitPlugins (\<lambda>p. (None, p)) [sample_plugin ''kubernetes.io/nvmeof''] []"
  have q: "IsQualifiedName ''kubernetes.io/nvmeof'' = []" by code_simp
  have n: "pl_GetPluginName (sample_plugin ''kubernetes.io/nvmeof'') = ''kubernetes.io/nvmeof''"
    by (simp add: sample_plugin_def)
  have "?r = (fst ?r, snd ?r)" by simp
  from registered_plugins_found [OF _ this] q n show ?thesis by simp
qed

text \<open>\<open>FindPluginBySpec\<close> returns a plugin exactly when it is the only registered one that supports
  the spec, so the answer does not depend on the order in which the map is traversed.\<close>

lemma FindPluginBySpec_unique:
  assumes "mwf pm"
  shows "FindPluginBySpec pm spec = Inr p \<longleftrightarrow>
    (\<exists>n. mget pm n = Some p \<and> pl_CanSupport p spec \<and>
       (\<forall>n' q. mget pm n' = Some q \<longrightarrow> pl_CanSupport q spec \<longrightarrow> n' = n))"
  unfolding FindPluginBySpec_def by (rule select_match_Inr [OF assms])

text \<open>Two attachable volumes of plugins whose names have the same number of slashes, as the bundled
  \<open>kubernetes.io/...\<close> plugins have, get the same unique name only if plugin and volume name agree.\<close>

lemma unique_volume_name_inj:
  assumes "count_list p (CHR ''/'') = count_list q (CHR ''/'')"
  shows "GetUniqueVolumeName p v = GetUniqueVolumeName q w \<longleftrightarrow> p = q \<and> v = w"
proof
  assume "GetUniqueVolumeName p v = GetUniqueVolumeName q w"
  then have "strings_Split p (CHR ''/'') @ strings_Split v (CHR ''/'') =
      strings_Split q (CHR ''/'') @ strings_Split w (CHR ''/'')"
    by (simp add: GetUniqueVolumeName_def strings_Split_append_sep [symmetric])
  then have "strings_Split p (CHR ''/'') = strings_Split q (CHR ''/'')"
      "strings_Split v (CHR ''/'') = strings_Split w (CHR ''/'')"
    using assms by (simp_all add: length_strings_Split)
  then show "p = q \<and> v = w" by (metis strings_Join_Split)
qed simp

end
