(* ===== verification/Operation_Types.thy ===== *)
theory Operation_Types
  imports Volume_Plugins
begin

text \<open>
  The data that \<open>pkg/volume/util/operationexecutor/operation_executor.go\<close> exchanges with the caches of
  the attach/detach controller and of the kubelet. A mounter object is identified by what it was
  created from (plugin, spec and pod); \<open>volume.MountedVolume\<close> keeps that.
\<close>

record VolumeToAttach =
  vtoa_VolumeName :: unique_volume_name
  vtoa_VolumeSpec :: Spec
  vtoa_NodeName :: node_name
  vtoa_ScheduledPods :: "v1_Pod list"

record VolumeToMount =
  vtm_VolumeName :: unique_volume_name
  vtm_PodName :: unique_pod_name
  vtm_VolumeSpec :: Spec
  vtm_OuterVolumeSpecName :: string
  vtm_Pod :: v1_Pod
  vtm_PluginIsAttachable :: bool
  vtm_VolumeGidValue :: string
  vtm_DevicePath :: string
  vtm_ReportedInUse :: bool

record AttachedVolume =
  atv_VolumeName :: unique_volume_name
  atv_VolumeSpec :: Spec
  atv_NodeName :: node_name
  atv_PluginIsAttachable :: bool
  atv_DevicePath :: string

record Mounter =
  mnt_pluginName :: string
  mnt_spec :: Spec
  mnt_podUID :: uid

record MountedVolume =
  mtv_PodName :: unique_pod_name
  mtv_VolumeName :: unique_volume_name
  mtv_InnerVolumeSpecName :: string
  mtv_OuterVolumeSpecName :: string
  mtv_PluginName :: string
  mtv_PodUID :: uid
  mtv_Mounter :: Mounter
  mtv_VolumeGidValue :: string

end
