(* ===== verification/Operation_Generator.thy ===== *)
theory Operation_Generator
  imports Operation_Types
begin

text \<open>
  \<open>pkg/volume/util/operationexecutor/operation_generator.go\<close>: the functions that the goroutines of the
  operation executor run. Generating a function looks up the plugin and its attacher, detacher, mounter
  or unmounter; the function itself then talks to the outside world (storage backend, mounts, API
  server: a value of type \<open>'w\<close>) and records the result in an actual state of the world (a value of
  type \<open>'s\<close>) through one of two interfaces. A generated closure is a value of \<open>opfunc\<close> that holds the
  captured variables; \<open>run_func\<close> is its body.
\<close>

section \<open>Interfaces\<close>

record 's ActualStateOfWorldAttacherUpdater =
  au_MarkVolumeAsAttached ::
    "unique_volume_name \<Rightarrow> Spec \<Rightarrow> node_name \<Rightarrow> string \<Rightarrow> 's \<Rightarrow> error option \<times> 's"
  au_MarkVolumeAsDetached :: "unique_volume_name \<Rightarrow> node_name \<Rightarrow> 's \<Rightarrow> 's"
  au_RemoveVolumeFromReportAsAttached :: "unique_volume_name \<Rightarrow> node_name \<Rightarrow> 's \<Rightarrow> error option \<times> 's"
  au_AddVolumeToReportAsAttached :: "unique_volume_name \<Rightarrow> node_name \<Rightarrow> 's \<Rightarrow> 's"

record 's ActualStateOfWorldMounterUpdater =
  mu_MarkVolumeAsMounted ::
    "unique_pod_name \<Rightarrow> uid \<Rightarrow> unique_volume_name \<Rightarrow> Mounter \<Rightarrow> string \<Rightarrow> string \<Rightarrow> 's \<Rightarrow> error option \<times> 's"
  mu_MarkVolumeAsUnmounted :: "unique_pod_name \<Rightarrow> unique_volume_name \<Rightarrow> 's \<Rightarrow> error option \<times> 's"
  mu_MarkDeviceAsMounted :: "unique_volume_name \<Rightarrow> 's \<Rightarrow> error option \<times> 's"
  mu_MarkDeviceAsUnmounted :: "unique_volume_name \<Rightarrow> 's \<Rightarrow> error option \<times> 's"

text \<open>
  The methods of the plugins (first argument: the plugin's name), of \<open>mount.Interface\<close>, of the API
  client and of the event recorder. The constructors \<open>NewAttacher\<close> and so on only tell whether they
  fail; an object they return is identified by the plugin and the arguments.
\<close>

type_synonym spec_ptr = "nat \<times> Spec"  \<comment> \<open>a \<open>*volume.Spec\<close>: its position in the list it came from\<close>

record 'w outside =
  os_NewAttacher :: "string \<Rightarrow> error option"
  os_NewDetacher :: "string \<Rightarrow> error option"
  os_NewMounter :: "string \<Rightarrow> Spec \<Rightarrow> v1_Pod \<Rightarrow> error option"
  os_NewUnmounter :: "string \<Rightarrow> string \<Rightarrow> uid \<Rightarrow> error option"
  os_Attach :: "string \<Rightarrow> Spec \<Rightarrow> node_name \<Rightarrow> 'w \<Rightarrow> (error + string) \<times> 'w"
  os_Detach :: "string \<Rightarrow> string \<Rightarrow> node_name \<Rightarrow> 'w \<Rightarrow> error option \<times> 'w"
  os_VolumesAreAttached :: "string \<Rightarrow> spec_ptr list \<Rightarrow> node_name \<Rightarrow> 'w \<Rightarrow> error + (spec_ptr, bool) gomap"
  os_WaitForAttach :: "string \<Rightarrow> Spec \<Rightarrow> string \<Rightarrow> duration \<Rightarrow> 'w \<Rightarrow> (error + string) \<times> 'w"
  os_GetDeviceMountPath :: "string \<Rightarrow> Spec \<Rightarrow> error + string"
  os_MountDevice :: "string \<Rightarrow> Spec \<Rightarrow> string \<Rightarrow> string \<Rightarrow> 'w \<Rightarrow> error option \<times> 'w"
  os_GetDeviceMountRefs :: "string \<Rightarrow> string \<Rightarrow> 'w \<Rightarrow> error + string list"
  os_UnmountDevice :: "string \<Rightarrow> string \<Rightarrow> 'w \<Rightarrow> error option \<times> 'w"
  os_CanMount :: "Mounter \<Rightarrow> 'w \<Rightarrow> error option"
  os_SetUp :: "Mounter \<Rightarrow> int option \<Rightarrow> 'w \<Rightarrow> error option \<times> 'w"
  os_TearDown :: "string \<Rightarrow> string \<Rightarrow> uid \<Rightarrow> 'w \<Rightarrow> error option \<times> 'w"
  os_PathIsDevice :: "string \<Rightarrow> 'w \<Rightarrow> bool \<times> error option"
  os_DeviceOpened :: "string \<Rightarrow> 'w \<Rightarrow> bool \<times> error option"
  os_GetNode :: "node_name \<Rightarrow> 'w \<Rightarrow> error + v1_Node option"
  os_Eventf :: "v1_Pod \<Rightarrow> error \<Rightarrow> 'w \<Rightarrow> 'w"

record operationGenerator =
  og_volumePluginMgr :: "(string, VolumePlugin) gomap"
  og_checkNodeCapabilitiesBeforeMount :: bool

datatype opfunc =
    AttachFunc VolumePlugin VolumeToAttach
  | DetachFunc VolumePlugin string AttachedVolume bool
  | VolumesAreAttachedFunc "(string, spec_ptr list) gomap" "(spec_ptr, unique_volume_name) gomap" node_name
  | MountFunc VolumePlugin "VolumePlugin option" VolumeToMount duration "int option"
  | UnmountFunc VolumePlugin MountedVolume
  | UnmountDeviceFunc VolumePlugin AttachedVolume
  | VerifyControllerAttachedFunc VolumeToMount node_name

section \<open>Generating the functions\<close>

text \<open>
  \<open>None\<close> is the nil dereference of \<open>volumePlugin.GetPluginName()\<close>: a failed lookup is only logged.
\<close>

fun volumes_per_plugin ::
    "operationGenerator \<Rightarrow> nat \<Rightarrow> AttachedVolume list \<Rightarrow>
     (string, spec_ptr list) gomap \<times> (spec_ptr, unique_volume_name) gomap \<Rightarrow>
     ((string, spec_ptr list) gomap \<times> (spec_ptr, unique_volume_name) gomap) option" where
  "volumes_per_plugin og i [] acc = Some acc"
| "volumes_per_plugin og i (volumeAttached # rest) (volumesPerPlugin, volumeSpecMap) =
     (case FindPluginBySpec (og_volumePluginMgr og) (atv_VolumeSpec volumeAttached) of
        Inl err \<Rightarrow> None
      | Inr volumePlugin \<Rightarrow>
          let name = pl_GetPluginName volumePlugin;
              ptr = (i, atv_VolumeSpec volumeAttached);
              volumeSpecList = (case mget volumesPerPlugin name of Some l \<Rightarrow> l | None \<Rightarrow> []) @ [ptr]
          in volumes_per_plugin og (Suc i) rest
               (mput name volumeSpecList volumesPerPlugin, mput ptr (atv_VolumeName volumeAttached) volumeSpecMap))"

definition GenerateVolumesAreAttachedFunc ::
    "operationGenerator \<Rightarrow> AttachedVolume list \<Rightarrow> node_name \<Rightarrow> opfunc option" where
  "GenerateVolumesAreAttachedFunc og attachedVolumes nodeName =
     map_option (\<lambda>(volumesPerPlugin, volumeSpecMap). VolumesAreAttachedFunc volumesPerPlugin volumeSpecMap nodeName)
       (volumes_per_plugin og 0 attachedVolumes ([], []))"

definition GenerateAttachVolumeFunc ::
    "'w outside \<Rightarrow> operationGenerator \<Rightarrow> VolumeToAttach \<Rightarrow> error + opfunc" where
  "GenerateAttachVolumeFunc os og volumeToAttach =
     (case FindAttachablePluginBySpec (og_volumePluginMgr og) (vtoa_VolumeSpec volumeToAttach) of
        Inl err \<Rightarrow> Inl (Errorf ''AttachVolume.FindAttachablePluginBySpec failed'' (Some err))
      | Inr None \<Rightarrow> Inl (Errorf ''AttachVolume.FindAttachablePluginBySpec failed'' None)
      | Inr (Some plugin) \<Rightarrow>
          (case os_NewAttacher os (pl_GetPluginName plugin) of
             Some err \<Rightarrow> Inl (Errorf ''AttachVolume.NewAttacher failed'' (Some err))
           | None \<Rightarrow> Inr (AttachFunc plugin volumeToAttach)))"

definition GenerateDetachVolumeFunc ::
    "'w outside \<Rightarrow> operationGenerator \<Rightarrow> AttachedVolume \<Rightarrow> bool \<Rightarrow> error + opfunc" where
  "GenerateDetachVolumeFunc os og volumeToDetach verifySafeToDetach =
     (case FindAttachablePluginBySpec (og_volumePluginMgr og) (atv_VolumeSpec volumeToDetach) of
        Inl err \<Rightarrow> Inl (Errorf ''DetachVolume.FindAttachablePluginBySpec failed'' (Some err))
      | Inr None \<Rightarrow> Inl (Errorf ''DetachVolume.FindAttachablePluginBySpec failed'' None)
      | Inr (Some plugin) \<Rightarrow>
          (case pl_GetVolumeName plugin (atv_VolumeSpec volumeToDetach) of
             Inl err \<Rightarrow> Inl (Errorf ''DetachVolume.GetVolumeName failed'' (Some err))
           | Inr volumeName \<Rightarrow>
               (case os_NewDetacher os (pl_GetPluginName plugin) of
                  Some err \<Rightarrow> Inl (Errorf ''DetachVolume.NewDetacher failed'' (Some err))
                | None \<Rightarrow> Inr (DetachFunc plugin volumeName volumeToDetach verifySafeToDetach))))"

definition GenerateMountVolumeFunc ::
    "'w outside \<Rightarrow> operationGenerator \<Rightarrow> duration \<Rightarrow> VolumeToMount \<Rightarrow> error + opfunc" where
  "GenerateMountVolumeFunc os og waitForAttachTimeout volumeToMount =
     (case FindPluginBySpec (og_volumePluginMgr og) (vtm_VolumeSpec volumeToMount) of
        Inl err \<Rightarrow> Inl (Errorf ''MountVolume.FindPluginBySpec failed'' (Some err))
      | Inr volumePlugin \<Rightarrow>
          (case os_NewMounter os (pl_GetPluginName volumePlugin) (vtm_VolumeSpec volumeToMount) (vtm_Pod volumeToMount) of
             Some err \<Rightarrow> Inl (Errorf ''MountVolume.NewMounter failed'' (Some err))
           | None \<Rightarrow>
               let volumeAttacher =
                     (case FindAttachablePluginBySpec (og_volumePluginMgr og) (vtm_VolumeSpec volumeToMount) of
                        Inr (Some plugin) \<Rightarrow>
                          (case os_NewAttacher os (pl_GetPluginName plugin) of None \<Rightarrow> Some plugin | Some _ \<Rightarrow> None)
                      | _ \<Rightarrow> None)
               in Inr (MountFunc volumePlugin volumeAttacher volumeToMount waitForAttachTimeout
                         (pod_FSGroup (vtm_Pod volumeToMount)))))"

definition GenerateUnmountVolumeFunc ::
    "'w outside \<Rightarrow> operationGenerator \<Rightarrow> MountedVolume \<Rightarrow> error + opfunc" where
  "GenerateUnmountVolumeFunc os og volumeToUnmount =
     (case FindPluginByName (og_volumePluginMgr og) (mtv_PluginName volumeToUnmount) of
        Inl err \<Rightarrow> Inl (Errorf ''UnmountVolume.FindPluginByName failed'' (Some err))
      | Inr volumePlugin \<Rightarrow>
          (case os_NewUnmounter os (pl_GetPluginName volumePlugin)
                  (mtv_InnerVolumeSpecName volumeToUnmount) (mtv_PodUID volumeToUnmount) of
             Some err \<Rightarrow> Inl (Errorf ''UnmountVolume.NewUnmounter failed'' (Some err))
           | None \<Rightarrow> Inr (UnmountFunc volumePlugin volumeToUnmount)))"

definition GenerateUnmountDeviceFunc ::
    "'w outside \<Rightarrow> operationGenerator \<Rightarrow> AttachedVolume \<Rightarrow> error + opfunc" where
  "GenerateUnmountDeviceFunc os og deviceToDetach =
     (case FindAttachablePluginBySpec (og_volumePluginMgr og) (atv_VolumeSpec deviceToDetach) of
        Inl err \<Rightarrow> Inl (Errorf ''UnmountDevice.FindAttachablePluginBySpec failed'' (Some err))
      | Inr None \<Rightarrow> Inl (Errorf ''UnmountDevice.FindAttachablePluginBySpec failed'' None)
      | Inr (Some plugin) \<Rightarrow>
          (case os_NewDetacher os (pl_GetPluginName plugin) of
             Some err \<Rightarrow> Inl (Errorf ''UnmountDevice.NewDetacher failed'' (Some err))
           | None \<Rightarrow>
               (case os_NewAttacher os (pl_GetPluginName plugin) of
                  Some err \<Rightarrow> Inl (Errorf ''UnmountDevice.NewAttacher failed'' (Some err))
                | None \<Rightarrow> Inr (UnmountDeviceFunc plugin deviceToDetach))))"

definition GenerateVerifyControllerAttachedVolumeFunc :: "VolumeToMount \<Rightarrow> node_name \<Rightarrow> error + opfunc" where
  "GenerateVerifyControllerAttachedVolumeFunc volumeToMount nodeName =
     Inr (VerifyControllerAttachedFunc volumeToMount nodeName)"

section \<open>The bodies of the functions\<close>

definition verifyVolumeIsSafeToDetach :: "'w outside \<Rightarrow> AttachedVolume \<Rightarrow> 'w \<Rightarrow> error option" where
  "verifyVolumeIsSafeToDetach os volumeToDetach w =
     (case os_GetNode os (atv_NodeName volumeToDetach) w of
        Inl (NotFoundError _) \<Rightarrow> None
      | Inl fetchErr \<Rightarrow> Some (Errorf ''DetachVolume failed fetching node from API server'' (Some fetchErr))
      | Inr None \<Rightarrow> Some (Errorf ''DetachVolume: node object retrieved from API server is nil'' None)
      | Inr (Some node) \<Rightarrow>
          if atv_VolumeName volumeToDetach \<in> set (node_VolumesInUse node)
          then Some (Errorf ''DetachVolume: volume is still in use by node, according to Node status'' None)
          else None)"

definition attachFunc ::
    "'w outside \<Rightarrow> 's ActualStateOfWorldAttacherUpdater \<Rightarrow> VolumePlugin \<Rightarrow> VolumeToAttach \<Rightarrow> 's \<times> 'w \<Rightarrow>
     error option \<times> 's \<times> 'w" where
  "attachFunc os au plugin volumeToAttach sw =
     (let (s, w) = sw in
      case os_Attach os (pl_GetPluginName plugin) (vtoa_VolumeSpec volumeToAttach) (vtoa_NodeName volumeToAttach) w of
        (Inl attachErr, w') \<Rightarrow>
          let err = Errorf ''Failed to attach volume'' (Some attachErr)
          in (Some err, s, fold (\<lambda>pod. os_Eventf os pod err) (vtoa_ScheduledPods volumeToAttach) w')
      | (Inr devicePath, w') \<Rightarrow>
          (case au_MarkVolumeAsAttached au '''' (vtoa_VolumeSpec volumeToAttach) (vtoa_NodeName volumeToAttach) devicePath s of
             (Some err, s') \<Rightarrow> (Some (Errorf ''AttachVolume.MarkVolumeAsAttached failed'' (Some err)), s', w')
           | (None, s') \<Rightarrow> (None, s', w')))"

definition detachFunc ::
    "'w outside \<Rightarrow> 's ActualStateOfWorldAttacherUpdater \<Rightarrow> VolumePlugin \<Rightarrow> string \<Rightarrow> AttachedVolume \<Rightarrow> bool \<Rightarrow>
     's \<times> 'w \<Rightarrow> error option \<times> 's \<times> 'w" where
  "detachFunc os au plugin volumeName volumeToDetach verifySafeToDetach sw =
     (let (s, w) = sw;
          err = (if verifySafeToDetach then verifyVolumeIsSafeToDetach os volumeToDetach w else None);
          (err, w) = (if err = None
            then os_Detach os (pl_GetPluginName plugin) volumeName (atv_NodeName volumeToDetach) w else (err, w))
      in case err of
           Some e \<Rightarrow>
             (Some (Errorf ''DetachVolume.Detach failed'' (Some e)),
              au_AddVolumeToReportAsAttached au (atv_VolumeName volumeToDetach) (atv_NodeName volumeToDetach) s, w)
         | None \<Rightarrow>
             (None, au_MarkVolumeAsDetached au (atv_VolumeName volumeToDetach) (atv_NodeName volumeToDetach) s, w))"

text \<open>The zero value of a lookup in \<open>volumeSpecMap\<close> is the empty name.\<close>

definition volumesAreAttachedFunc ::
    "'w outside \<Rightarrow> operationGenerator \<Rightarrow> 's ActualStateOfWorldAttacherUpdater \<Rightarrow>
     (string, spec_ptr list) gomap \<Rightarrow> (spec_ptr, unique_volume_name) gomap \<Rightarrow> node_name \<Rightarrow> 's \<times> 'w \<Rightarrow>
     error option \<times> 's \<times> 'w" where
  "volumesAreAttachedFunc os og au volumesPerPlugin volumeSpecMap nodeName sw =
     (let (s, w) = sw in
      (None,
       fold (\<lambda>(pluginName, volumesSpecs) s.
          case FindAttachablePluginByName (og_volumePluginMgr og) pluginName of
            Inl _ \<Rightarrow> s
          | Inr None \<Rightarrow> s
          | Inr (Some plugin) \<Rightarrow>
              (case os_NewAttacher os (pl_GetPluginName plugin) of
                 Some _ \<Rightarrow> s
               | None \<Rightarrow>
                   (case os_VolumesAreAttached os (pl_GetPluginName plugin) volumesSpecs nodeName w of
                      Inl _ \<Rightarrow> s
                    | Inr attached \<Rightarrow>
                        fold (\<lambda>(spec, check) s. if \<not> check
                            then au_MarkVolumeAsDetached au
                                   (case mget volumeSpecMap spec of Some v \<Rightarrow> v | None \<Rightarrow> '''') nodeName s
                            else s) attached s)))
         volumesPerPlugin s, w))"

text \<open>\<open>hasMountRefs\<close> of \<open>operation_executor.go\<close>.\<close>

definition hasMountRefs :: "string \<Rightarrow> string list \<Rightarrow> bool" where
  "hasMountRefs mountPath mountRefs =
     (fold (\<lambda>ref count. if \<not> strings_Contains ref mountPath then count + 1 else count) mountRefs 0 > (0 :: nat))"

text \<open>The part of the mount function for attachable volumes: wait, mount the device, record it.\<close>

definition mountDevice_part ::
    "'w outside \<Rightarrow> 's ActualStateOfWorldMounterUpdater \<Rightarrow> VolumePlugin \<Rightarrow> VolumeToMount \<Rightarrow> duration \<Rightarrow> 's \<times> 'w \<Rightarrow>
     error option \<times> 's \<times> 'w" where
  "mountDevice_part os mu attacher volumeToMount waitForAttachTimeout sw =
     (let (s, w) = sw; name = pl_GetPluginName attacher; spec = vtm_VolumeSpec volumeToMount in
      case os_WaitForAttach os name spec (vtm_DevicePath volumeToMount) waitForAttachTimeout w of
        (Inl err, w) \<Rightarrow> (Some (Errorf ''MountVolume.WaitForAttach failed'' (Some err)), s, w)
      | (Inr devicePath, w) \<Rightarrow>
          (case os_GetDeviceMountPath os name spec of
             Inl err \<Rightarrow> (Some (Errorf ''MountVolume.GetDeviceMountPath failed'' (Some err)), s, w)
           | Inr deviceMountPath \<Rightarrow>
               (case os_MountDevice os name spec devicePath deviceMountPath w of
                  (Some err, w) \<Rightarrow>
                    let err = Errorf ''MountVolume.MountDevice failed'' (Some err)
                    in (Some err, s, os_Eventf os (vtm_Pod volumeToMount) err w)
                | (None, w) \<Rightarrow>
                    (case mu_MarkDeviceAsMounted mu (vtm_VolumeName volumeToMount) s of
                       (Some err, s) \<Rightarrow> (Some (Errorf ''MountVolume.MarkDeviceAsMounted failed'' (Some err)), s, w)
                     | (None, s) \<Rightarrow> (None, s, w)))))"

definition mountFunc ::
    "'w outside \<Rightarrow> operationGenerator \<Rightarrow> 's ActualStateOfWorldMounterUpdater \<Rightarrow> VolumePlugin \<Rightarrow>
     VolumePlugin option \<Rightarrow> VolumeToMount \<Rightarrow> duration \<Rightarrow> int option \<Rightarrow> 's \<times> 'w \<Rightarrow> error option \<times> 's \<times> 'w" where
  "mountFunc os og mu volumePlugin volumeAttacher volumeToMount waitForAttachTimeout fsGroup sw =
     (case (case volumeAttacher of
              Some attacher \<Rightarrow> mountDevice_part os mu attacher volumeToMount waitForAttachTimeout sw
            | None \<Rightarrow> (None, sw)) of
        (Some err, sw) \<Rightarrow> (Some err, sw)
      | (None, s, w) \<Rightarrow>
          let volumeMounter = \<lparr>mnt_pluginName = pl_GetPluginName volumePlugin, mnt_spec = vtm_VolumeSpec volumeToMount,
                mnt_podUID = pod_UID (vtm_Pod volumeToMount)\<rparr>;
              canMountErr = (if og_checkNodeCapabilitiesBeforeMount og then os_CanMount os volumeMounter w else None)
          in case canMountErr of
               Some err \<Rightarrow>
                 let err = Errorf ''Unable to mount volume'' (Some err)
                 in (Some err, s, os_Eventf os (vtm_Pod volumeToMount) err w)
             | None \<Rightarrow>
                 (case os_SetUp os volumeMounter fsGroup w of
                    (Some err, w) \<Rightarrow>
                      let err = Errorf ''MountVolume.SetUp failed'' (Some err)
                      in (Some err, s, os_Eventf os (vtm_Pod volumeToMount) err w)
                  | (None, w) \<Rightarrow>
                      (case mu_MarkVolumeAsMounted mu (vtm_PodName volumeToMount) (pod_UID (vtm_Pod volumeToMount))
                              (vtm_VolumeName volumeToMount) volumeMounter (vtm_OuterVolumeSpecName volumeToMount)
                              (vtm_VolumeGidValue volumeToMount) s of
                         (Some err, s) \<Rightarrow> (Some (Errorf ''MountVolume.MarkVolumeAsMounted failed'' (Some err)), s, w)
                       | (None, s) \<Rightarrow> (None, s, w))))"

definition unmountFunc ::
    "'w outside \<Rightarrow> 's ActualStateOfWorldMounterUpdater \<Rightarrow> VolumePlugin \<Rightarrow> MountedVolume \<Rightarrow> 's \<times> 'w \<Rightarrow>
     error option \<times> 's \<times> 'w" where
  "unmountFunc os mu volumePlugin volumeToUnmount sw =
     (let (s, w) = sw in
      case os_TearDown os (pl_GetPluginName volumePlugin) (mtv_InnerVolumeSpecName volumeToUnmount)
             (mtv_PodUID volumeToUnmount) w of
        (Some err, w) \<Rightarrow> (Some (Errorf ''UnmountVolume.TearDown failed'' (Some err)), s, w)
      | (None, w) \<Rightarrow>
          (None, snd (mu_MarkVolumeAsUnmounted mu (mtv_PodName volumeToUnmount) (mtv_VolumeName volumeToUnmount) s), w))"

definition unmountDeviceFunc ::
    "'w outside \<Rightarrow> 's ActualStateOfWorldMounterUpdater \<Rightarrow> VolumePlugin \<Rightarrow> AttachedVolume \<Rightarrow> 's \<times> 'w \<Rightarrow>
     error option \<times> 's \<times> 'w" where
  "unmountDeviceFunc os mu plugin deviceToDetach sw =
     (let (s, w) = sw; name = pl_GetPluginName plugin in
      case os_GetDeviceMountPath os name (atv_VolumeSpec deviceToDetach) of
        Inl err \<Rightarrow> (Some (Errorf ''GetDeviceMountPath failed'' (Some err)), s, w)
      | Inr deviceMountPath \<Rightarrow>
          (case os_GetDeviceMountRefs os name deviceMountPath w of
             Inl err \<Rightarrow> (Some (Errorf ''GetDeviceMountRefs check failed'' (Some err)), s, w)
           | Inr refs \<Rightarrow>
               if hasMountRefs deviceMountPath refs
               then (Some (Errorf ''GetDeviceMountRefs check failed''
                       (Some (Errorf ''The device mount path is still mounted by other references'' None))), s, w)
               else
                 (case os_UnmountDevice os name deviceMountPath w of
                    (Some err, w) \<Rightarrow> (Some (Errorf ''UnmountDevice failed'' (Some err)), s, w)
                  | (None, w) \<Rightarrow>
                      let (isDevicePath, devicePathErr) = os_PathIsDevice os (atv_DevicePath deviceToDetach) w;
                          (deviceOpened, deviceOpenedErr) =
                            (if \<not> isDevicePath \<and> devicePathErr = None then (False, None)
                             else os_DeviceOpened os (atv_DevicePath deviceToDetach) w)
                      in (case deviceOpenedErr of
                            Some err \<Rightarrow> (Some (Errorf ''UnmountDevice.DeviceOpened failed'' (Some err)), s, w)
                          | None \<Rightarrow>
                              if deviceOpened
                              then (Some (Errorf ''UnmountDevice failed: the device is in use'' None), s, w)
                              else (case mu_MarkDeviceAsUnmounted mu (atv_VolumeName deviceToDetach) s of
                                      (Some err, s) \<Rightarrow> (Some (Errorf ''MarkDeviceAsUnmounted failed'' (Some err)), s, w)
                                    | (None, s) \<Rightarrow> (None, s, w))))))"

definition verifyControllerAttachedVolumeFunc ::
    "'w outside \<Rightarrow> 's ActualStateOfWorldAttacherUpdater \<Rightarrow> VolumeToMount \<Rightarrow> node_name \<Rightarrow> 's \<times> 'w \<Rightarrow>
     error option \<times> 's \<times> 'w" where
  "verifyControllerAttachedVolumeFunc os au volumeToMount nodeName sw =
     (let (s, w) = sw;
          mark = (\<lambda>v dev. case au_MarkVolumeAsAttached au v (vtm_VolumeSpec volumeToMount) nodeName dev s of
             (Some err, s) \<Rightarrow> (Some (Errorf ''VerifyControllerAttachedVolume.MarkVolumeAsAttached failed'' (Some err)), s, w)
           | (None, s) \<Rightarrow> (None, s, w))
      in if \<not> vtm_PluginIsAttachable volumeToMount then mark (vtm_VolumeName volumeToMount) ''''
         else if \<not> vtm_ReportedInUse volumeToMount
         then (Some (Errorf ''Volume has not yet been added to the list of VolumesInUse'' None), s, w)
         else case os_GetNode os nodeName w of
             Inl fetchErr \<Rightarrow> (Some (Errorf ''VerifyControllerAttachedVolume failed fetching node'' (Some fetchErr)), s, w)
           | Inr None \<Rightarrow> (Some (Errorf ''VerifyControllerAttachedVolume failed: node object is nil'' None), s, w)
           | Inr (Some node) \<Rightarrow>
               (case find (\<lambda>attachedVolume. av_Name attachedVolume = vtm_VolumeName volumeToMount) (node_VolumesAttached node) of
                  Some attachedVolume \<Rightarrow> mark '''' (av_DevicePath attachedVolume)
                | None \<Rightarrow> (Some (Errorf ''Volume is not yet attached according to node status'' None), s, w)))"

definition run_func ::
    "'w outside \<Rightarrow> operationGenerator \<Rightarrow> 's ActualStateOfWorldAttacherUpdater \<Rightarrow>
     's ActualStateOfWorldMounterUpdater \<Rightarrow> opfunc \<Rightarrow> 's \<times> 'w \<Rightarrow> error option \<times> 's \<times> 'w" where
  "run_func os og au mu f sw =
     (case f of
        AttachFunc plugin volumeToAttach \<Rightarrow> attachFunc os au plugin volumeToAttach sw
      | DetachFunc plugin volumeName volumeToDetach verify \<Rightarrow> detachFunc os au plugin volumeName volumeToDetach verify sw
      | VolumesAreAttachedFunc perPlugin specMap nodeName \<Rightarrow> volumesAreAttachedFunc os og au perPlugin specMap nodeName sw
      | MountFunc plugin attacher volumeToMount timeout fsGroup \<Rightarrow>
          mountFunc os og mu plugin attacher volumeToMount timeout fsGroup sw
      | UnmountFunc plugin volumeToUnmount \<Rightarrow> unmountFunc os mu plugin volumeToUnmount sw
      | UnmountDeviceFunc plugin deviceToDetach \<Rightarrow> unmountDeviceFunc os mu plugin deviceToDetach sw
      | VerifyControllerAttachedFunc volumeToMount nodeName \<Rightarrow>
          verifyControllerAttachedVolumeFunc os au volumeToMount nodeName sw)"

lemma find_SomeD: "find P xs = Some x \<Longrightarrow> P x \<and> x \<in> set xs"
  by (auto simp: find_Some_iff)

lemma detachFunc_state:
  "detachFunc os au plugin vn vol verify (s, w) = (err, s', w') \<Longrightarrow>
   s' = (if err = None then au_MarkVolumeAsDetached au (atv_VolumeName vol) (atv_NodeName vol) s
         else au_AddVolumeToReportAsAttached au (atv_VolumeName vol) (atv_NodeName vol) s)"
  by (auto simp: detachFunc_def Let_def split: prod.splits option.splits if_splits)

section \<open>The contract of the actual state of the world\<close>

text \<open>
  What the functions rely on when they record an attach or detach: only entries of the named volume
  change. \<open>att s v n\<close>: the cache has volume \<open>v\<close> attached to node \<open>n\<close>; \<open>vname s v spec\<close>: the name
  under which it stores a volume (\<open>MarkVolumeAsAttached\<close> may compute it from the spec).
\<close>

locale attacher_updater =
  fixes au :: "'s ActualStateOfWorldAttacherUpdater"
    and inv :: "'s \<Rightarrow> bool"
    and att :: "'s \<Rightarrow> unique_volume_name \<Rightarrow> node_name \<Rightarrow> bool"
    and vname :: "'s \<Rightarrow> unique_volume_name \<Rightarrow> Spec \<Rightarrow> unique_volume_name option"
  assumes attach_ok: "inv s \<Longrightarrow> au_MarkVolumeAsAttached au v spec n dev s = (None, s') \<Longrightarrow>
        inv s' \<and> (\<exists>u. vname s v spec = Some u \<and> att s' u n \<and>
          (\<forall>u' n'. u' \<noteq> u \<longrightarrow> att s' u' n' = att s u' n') \<and> (\<forall>u' n'. att s u' n' \<longrightarrow> att s' u' n'))"
    and attach_err: "au_MarkVolumeAsAttached au v spec n dev s = (Some e, s') \<Longrightarrow> s' = s"
    and detach_inv: "inv s \<Longrightarrow> inv (au_MarkVolumeAsDetached au v n s)"
    and detach_frame: "inv s \<Longrightarrow> u \<noteq> v \<Longrightarrow> att (au_MarkVolumeAsDetached au v n s) u n' = att s u n'"
    and detach_mono: "inv s \<Longrightarrow> att (au_MarkVolumeAsDetached au v n s) u n' \<Longrightarrow> att s u n'"
    and report_inv: "inv s \<Longrightarrow> inv (au_AddVolumeToReportAsAttached au v n s)"
    and report_frame: "inv s \<Longrightarrow> att (au_AddVolumeToReportAsAttached au v n s) = att s"
begin

text \<open>A successful attach records the volume on its node; a failed one leaves the cache as it was.\<close>

lemma attachFunc_ok:
  assumes "inv s" and "attachFunc os au plugin vta (s, w) = (None, s', w')"
  shows "inv s' \<and> (\<exists>u. vname s '''' (vtoa_VolumeSpec vta) = Some u \<and> att s' u (vtoa_NodeName vta) \<and>
    (\<forall>u' n'. u' \<noteq> u \<longrightarrow> att s' u' n' = att s u' n') \<and> (\<forall>u' n'. att s u' n' \<longrightarrow> att s' u' n'))"
  using assms attach_ok [OF assms(1)]
  by (auto simp: attachFunc_def Let_def split: prod.splits sum.splits option.splits)

lemma attachFunc_err:
  assumes "attachFunc os au plugin vta (s, w) = (Some e, s', w')"
  shows "s' = s"
  using assms attach_err by (auto simp: attachFunc_def Let_def split: prod.splits sum.splits option.splits)

lemma detachFunc_frame:
  assumes "inv s" and "detachFunc os au plugin vn vol verify (s, w) = (err, s', w')"
  shows "inv s' \<and> (\<forall>u n. u \<noteq> atv_VolumeName vol \<longrightarrow> att s' u n = att s u n) \<and> (\<forall>u n. att s' u n \<longrightarrow> att s u n)"
  using detachFunc_state [OF assms(2)] detach_inv [OF assms(1)] detach_frame [OF assms(1)] detach_mono [OF assms(1)]
    report_inv [OF assms(1)] report_frame [OF assms(1)]
  by (cases err) simp_all

text \<open>Verification on the node only confirms what the API server says.\<close>

lemma verifyFunc_ok:
  assumes "inv s" and "verifyControllerAttachedVolumeFunc os au vtm n (s, w) = (None, s', w')"
  shows "inv s' \<and> w' = w \<and>
    (vtm_PluginIsAttachable vtm \<longrightarrow> vtm_ReportedInUse vtm \<and>
      (\<exists>node. os_GetNode os n w = Inr (Some node) \<and> vtm_VolumeName vtm \<in> av_Name ` set (node_VolumesAttached node)))"
  using assms attach_ok [OF assms(1)]
  by (auto simp: verifyControllerAttachedVolumeFunc_def Let_def
      split: if_splits sum.splits option.splits prod.splits dest!: find_SomeD intro: rev_image_eqI)

lemma verifyFunc_err:
  assumes "verifyControllerAttachedVolumeFunc os au vtm n (s, w) = (Some e, s', w')"
  shows "s' = s \<and> w' = w"
  using assms attach_err by (auto simp: verifyControllerAttachedVolumeFunc_def Let_def
      split: if_splits sum.splits option.splits prod.splits)

end

text \<open>
  The cache of the attach/detach controller promises more: detaching removes exactly the pair, and the
  reports follow.
\<close>

locale reporting_updater = attacher_updater +
  fixes rep :: "'s \<Rightarrow> unique_volume_name \<Rightarrow> node_name \<Rightarrow> bool"
  assumes detach_att: "inv s \<Longrightarrow> att (au_MarkVolumeAsDetached au v n s) u n' \<longleftrightarrow> (u, n') \<noteq> (v, n) \<and> att s u n'"
    and detach_rep: "inv s \<Longrightarrow> rep (au_MarkVolumeAsDetached au v n s) u n' \<longleftrightarrow> (u, n') \<noteq> (v, n) \<and> rep s u n'"
    and report_rep: "inv s \<Longrightarrow> rep (au_AddVolumeToReportAsAttached au v n s) u n' \<longleftrightarrow>
        rep s u n' \<or> (u, n') = (v, n) \<and> att s v n"
begin

lemma detachFunc_outcome:
  assumes "inv s" and "detachFunc os au plugin vn vol verify (s, w) = (err, s', w')"
  shows "(err = None \<longrightarrow> (\<forall>u n. att s' u n \<longleftrightarrow> (u, n) \<noteq> (atv_VolumeName vol, atv_NodeName vol) \<and> att s u n) \<and>
      (\<forall>u n. rep s' u n \<longleftrightarrow> (u, n) \<noteq> (atv_VolumeName vol, atv_NodeName vol) \<and> rep s u n)) \<and>
    (err \<noteq> None \<longrightarrow> att s' = att s \<and> (\<forall>u n. rep s' u n \<longleftrightarrow> rep s u n \<or>
      (u, n) = (atv_VolumeName vol, atv_NodeName vol) \<and> att s u n))"
  using detachFunc_state [OF assms(2)] detach_att [OF assms(1)] detach_rep [OF assms(1)] report_rep [OF assms(1)]
    report_frame [OF assms(1)]
  by (cases err) auto

end

lemma detachFunc_in_use:
  assumes "detachFunc os au plugin vn vol True (s, w) = (err, s', w')"
    and "os_GetNode os (atv_NodeName vol) w = Inr (Some node)"
    and "atv_VolumeName vol \<in> set (node_VolumesInUse node)"
  shows "err \<noteq> None \<and> w' = w"
  using assms by (auto simp: detachFunc_def verifyVolumeIsSafeToDetach_def Let_def split: prod.splits option.splits)

lemma volumes_per_plugin_panics:
  "volumes_per_plugin og i vs acc = None \<longleftrightarrow>
     (\<exists>v \<in> set vs. \<exists>e. FindPluginBySpec (og_volumePluginMgr og) (atv_VolumeSpec v) = Inl e)"
proof (induction vs arbitrary: i acc)
  case (Cons v vs)
  then show ?case by (cases acc) (auto simp: Let_def split: sum.split)
qed simp

lemma hasMountRefs_iff: "hasMountRefs p refs \<longleftrightarrow> (\<exists>r \<in> set refs. \<not> strings_Contains r p)"
proof -
  have "fold (\<lambda>ref count. if \<not> strings_Contains ref p then count + 1 else count) refs k =
      k + length (filter (\<lambda>r. \<not> strings_Contains r p) refs)" for k :: nat
    by (induction refs arbitrary: k) auto
  then show ?thesis by (auto simp: hasMountRefs_def filter_empty_conv)
qed

section \<open>The contract of a cache of mounts\<close>

text \<open>
  What the mount functions rely on: recording a mount needs the volume to be there, and each call changes
  only the pair, or the device, that it is about.
\<close>

locale mounter_updater =
  fixes mu :: "'s ActualStateOfWorldMounterUpdater"
    and inv :: "'s \<Rightarrow> bool"
    and exists :: "'s \<Rightarrow> unique_volume_name \<Rightarrow> bool"
    and mounted :: "'s \<Rightarrow> unique_pod_name \<Rightarrow> unique_volume_name \<Rightarrow> bool"
    and device :: "'s \<Rightarrow> unique_volume_name \<Rightarrow> bool"
  assumes mark_mounted: "inv s \<Longrightarrow> mu_MarkVolumeAsMounted mu p u v m outer gid s = (err, s') \<Longrightarrow>
        inv s' \<and> exists s' = exists s \<and> device s' = device s \<and> (err = None \<longleftrightarrow> exists s v) \<and>
        (\<forall>q x. mounted s' q x \<longleftrightarrow> mounted s q x \<or> err = None \<and> (q, x) = (p, v))"
    and mark_unmounted: "inv s \<Longrightarrow> mu_MarkVolumeAsUnmounted mu p v s = (err, s') \<Longrightarrow>
        inv s' \<and> exists s' = exists s \<and> device s' = device s \<and> (\<forall>q x. mounted s' q x \<longleftrightarrow> mounted s q x \<and> (q, x) \<noteq> (p, v))"
    and mark_device: "inv s \<Longrightarrow> mu_MarkDeviceAsMounted mu v s = (err, s') \<Longrightarrow>
        inv s' \<and> exists s' = exists s \<and> mounted s' = mounted s \<and> (err = None \<longleftrightarrow> exists s v) \<and>
        (\<forall>x. device s' x \<longleftrightarrow> device s x \<or> err = None \<and> x = v)"
    and unmark_device: "inv s \<Longrightarrow> mu_MarkDeviceAsUnmounted mu v s = (err, s') \<Longrightarrow>
        inv s' \<and> exists s' = exists s \<and> mounted s' = mounted s \<and> (err = None \<longleftrightarrow> exists s v) \<and>
        (\<forall>x. device s' x \<longleftrightarrow> device s x \<and> x \<noteq> v)"
begin

lemma mountDevice_part_state:
  assumes "inv s" and "mountDevice_part os mu attacher vtm timeout (s, w) = (err, s', w')"
  shows "inv s' \<and> exists s' = exists s \<and> mounted s' = mounted s \<and>
    (\<forall>x. device s' x \<longleftrightarrow> device s x \<or> err = None \<and> x = vtm_VolumeName vtm)"
proof -
  show ?thesis
    using assms(2) mark_device [OF assms(1), of "vtm_VolumeName vtm"] assms(1)
    by (auto simp: mountDevice_part_def Let_def split: prod.splits sum.splits option.splits)
qed

text \<open>A mount that ends without error is recorded, with its device if the volume is attachable; one that
  fails leaves the pods as they were.\<close>

lemma mountFunc_state:
  assumes "inv s" and "mountFunc os og mu plugin attacher vtm timeout fsGroup (s, w) = (err, s', w')"
  shows "inv s' \<and> exists s' = exists s \<and>
    (\<forall>q x. mounted s' q x \<longleftrightarrow> mounted s q x \<or> err = None \<and> (q, x) = (vtm_PodName vtm, vtm_VolumeName vtm)) \<and>
    (\<forall>x. device s x \<longrightarrow> device s' x) \<and> (\<forall>x. device s' x \<longrightarrow> device s x \<or> x = vtm_VolumeName vtm) \<and>
    (err = None \<and> attacher \<noteq> None \<longrightarrow> device s' (vtm_VolumeName vtm))"
proof -
  obtain e1 s1 w1 where p: "(case attacher of Some a \<Rightarrow> mountDevice_part os mu a vtm timeout (s, w) | None \<Rightarrow> (None, s, w)) = (e1, s1, w1)"
    by (metis prod_cases3)
  have 1: "inv s1 \<and> exists s1 = exists s \<and> mounted s1 = mounted s \<and>
      (\<forall>x. device s1 x \<longleftrightarrow> device s x \<or> attacher \<noteq> None \<and> e1 = None \<and> x = vtm_VolumeName vtm)"
  proof (cases attacher)
    case None
    then show ?thesis using p assms(1) by auto
  next
    case (Some a)
    then show ?thesis using p mountDevice_part_state [OF assms(1), of os a vtm timeout w e1 s1 w1] by simp
  qed
  show ?thesis
  proof (cases e1)
    case (Some e)
    then have "err = Some e \<and> s' = s1" using assms(2) p by (simp add: mountFunc_def)
    then show ?thesis using 1 by auto
  next
    case None
    define m where "m = \<lparr>mnt_pluginName = pl_GetPluginName plugin, mnt_spec = vtm_VolumeSpec vtm, mnt_podUID = pod_UID (vtm_Pod vtm)\<rparr>"
    have "err \<noteq> None \<and> s' = s1 \<or> (\<exists>e2. mu_MarkVolumeAsMounted mu (vtm_PodName vtm) (pod_UID (vtm_Pod vtm)) (vtm_VolumeName vtm)
        m (vtm_OuterVolumeSpecName vtm) (vtm_VolumeGidValue vtm) s1 = (e2, s') \<and> (err = None \<longleftrightarrow> e2 = None))"
      using assms(2) p None
      by (auto simp: mountFunc_def m_def Let_def split: option.splits prod.splits)
    then show ?thesis
      using 1 None mark_mounted [of s1] by (auto simp: fun_eq_iff)
  qed
qed

lemma unmountFunc_state:
  assumes "inv s" and "unmountFunc os mu plugin mv (s, w) = (err, s', w')"
  shows "inv s' \<and> exists s' = exists s \<and> device s' = device s \<and>
    (\<forall>q x. mounted s' q x \<longleftrightarrow> mounted s q x \<and> (err \<noteq> None \<or> (q, x) \<noteq> (mtv_PodName mv, mtv_VolumeName mv)))"
  using assms mark_unmounted [OF assms(1) prod.collapse [symmetric], of "mtv_PodName mv" "mtv_VolumeName mv"]
  by (auto simp: unmountFunc_def Let_def split: prod.splits option.splits)

text \<open>A device is recorded as unmounted only after it was unmounted with no mount reference outside its own path.\<close>

lemma unmountDeviceFunc_state:
  assumes "inv s" and "unmountDeviceFunc os mu plugin dev (s, w) = (err, s', w')"
  shows "inv s' \<and> exists s' = exists s \<and> mounted s' = mounted s \<and>
    (\<forall>x. device s' x \<longleftrightarrow> device s x \<and> (device s' = device s \<or> x \<noteq> atv_VolumeName dev)) \<and>
    (err = None \<longrightarrow> \<not> device s' (atv_VolumeName dev) \<and>
       (\<exists>path refs w1. os_GetDeviceMountPath os (pl_GetPluginName plugin) (atv_VolumeSpec dev) = Inr path \<and>
          os_GetDeviceMountRefs os (pl_GetPluginName plugin) path w = Inr refs \<and> (\<forall>r \<in> set refs. strings_Contains r path) \<and>
          os_UnmountDevice os (pl_GetPluginName plugin) path w = (None, w1)))"
proof -
  have "err \<noteq> None \<and> s' = s \<or>
      (\<exists>e. mu_MarkDeviceAsUnmounted mu (atv_VolumeName dev) s = (e, s') \<and> (err = None \<longleftrightarrow> e = None)) \<and>
       (\<exists>path refs w1. os_GetDeviceMountPath os (pl_GetPluginName plugin) (atv_VolumeSpec dev) = Inr path \<and>
          os_GetDeviceMountRefs os (pl_GetPluginName plugin) path w = Inr refs \<and> \<not> hasMountRefs path refs \<and>
          os_UnmountDevice os (pl_GetPluginName plugin) path w = (None, w1))"
    using assms(2)
    by (auto simp: unmountDeviceFunc_def Let_def split: sum.splits if_splits prod.splits option.splits)
  then show ?thesis
    using unmark_device [OF assms(1), of "atv_VolumeName dev"] assms(1) by (auto simp: hasMountRefs_iff fun_eq_iff)
qed

end

end
