(* ===== verification/Nested_Pending_Operations.thy ===== *)
theory Nested_Pending_Operations
  imports Operation_Table Go_Strings
begin

text \<open>
  \<open>pkg/volume/util/nestedpendingoperations/nestedpendingoperations.go\<close>: the slice of operations
  that keeps a volume from being worked on twice. \<open>Run\<close> is executed under the lock, and so is the
  deferred \<open>operationComplete\<close> of each goroutine; both are atomic steps here. An index error of the
  Go runtime (\<open>deleteOperation\<close> with index -1) is the result \<open>None\<close> of \<open>operationComplete\<close>.
\<close>

section \<open>State and operations\<close>

record operation =
  op_volumeName :: unique_volume_name
  op_podName :: unique_pod_name
  op_operationPending :: bool
  op_expBackoff :: ExponentialBackoff

record nestedPendingOperations =
  npo_operations :: "operation list"
  npo_exponentialBackOffOnError :: bool

definition NewNestedPendingOperations :: "bool \<Rightarrow> nestedPendingOperations" where
  "NewNestedPendingOperations b = \<lparr>npo_operations = [], npo_exponentialBackOffOnError = b\<rparr>"

definition emptyUniquePodName :: unique_pod_name where "emptyUniquePodName = ''''"
definition emptyUniqueVolumeName :: unique_volume_name where "emptyUniqueVolumeName = ''''"

definition getOperationName :: "unique_volume_name \<Rightarrow> unique_pod_name \<Rightarrow> string" where
  "getOperationName v p =
     (let podNameStr = (if p \<noteq> emptyUniquePodName then '' ('' @ go_quote p @ '')'' else '''')
      in go_quote v @ podNameStr)"

definition NewAlreadyExistsError :: "string \<Rightarrow> error" where
  "NewAlreadyExistsError operationName = AlreadyExistsError operationName"

fun IsAlreadyExists :: "error option \<Rightarrow> bool" where
  "IsAlreadyExists (Some (AlreadyExistsError _)) = True"
| "IsAlreadyExists _ = False"

text \<open>The loop of \<open>isOperationExists\<close> from index \<open>i\<close>; \<open>None\<close> stands for \<open>(false, -1)\<close>.\<close>

fun isOperationExists_loop ::
    "nat \<Rightarrow> operation list \<Rightarrow> unique_volume_name \<Rightarrow> unique_pod_name \<Rightarrow> nat option" where
  "isOperationExists_loop i [] v p = None"
| "isOperationExists_loop i (previousOp # ops) v p =
     (if op_volumeName previousOp \<noteq> v then isOperationExists_loop (Suc i) ops v p
      else if op_podName previousOp \<noteq> emptyUniquePodName \<and> p \<noteq> emptyUniquePodName \<and>
              op_podName previousOp \<noteq> p
      then isOperationExists_loop (Suc i) ops v p
      else Some i)"

definition isOperationExists ::
    "nestedPendingOperations \<Rightarrow> unique_volume_name \<Rightarrow> unique_pod_name \<Rightarrow> nat option" where
  "isOperationExists grm v p =
     (if v = emptyUniqueVolumeName then None
      else isOperationExists_loop 0 (npo_operations grm) v p)"

text \<open>
  \<open>Run\<close> returns nil exactly when the goroutine has been spawned; the goroutine itself is the
  \<open>start\<close> step of \<open>op_reach\<close>.
\<close>

definition Run ::
    "time \<Rightarrow> nestedPendingOperations \<Rightarrow> unique_volume_name \<times> unique_pod_name \<Rightarrow>
     error option \<times> nestedPendingOperations" where
  "Run now grm vp =
     (let (v, p) = vp in
      case isOperationExists grm v p of
        Some i \<Rightarrow>
          (let previousOp = npo_operations grm ! i in
           if op_operationPending previousOp
           then (Some (NewAlreadyExistsError (getOperationName v p)), grm)
           else case SafeToRetry now (op_expBackoff previousOp) (getOperationName v p) of
             Some err \<Rightarrow> (Some err, grm)
           | None \<Rightarrow>
               (None, grm\<lparr>npo_operations :=
                  (npo_operations grm)[i := previousOp\<lparr>op_operationPending := True,
                     op_volumeName := v, op_podName := p\<rparr>]\<rparr>))
      | None \<Rightarrow>
          (None, grm\<lparr>npo_operations := npo_operations grm @
             [\<lparr>op_volumeName = v, op_podName = p, op_operationPending = True,
               op_expBackoff = zero_backoff\<rparr>]\<rparr>))"

definition IsOperationPending ::
    "nestedPendingOperations \<Rightarrow> unique_volume_name \<Rightarrow> unique_pod_name \<Rightarrow> bool" where
  "IsOperationPending grm v p =
     (case isOperationExists grm v p of
        Some i \<Rightarrow> op_operationPending (npo_operations grm ! i)
      | None \<Rightarrow> False)"

text \<open>\<open>getOperation\<close> and the search loop of \<open>deleteOperation\<close> look for an exact match.\<close>

fun getOperation_loop ::
    "nat \<Rightarrow> operation list \<Rightarrow> unique_volume_name \<Rightarrow> unique_pod_name \<Rightarrow> nat option" where
  "getOperation_loop i [] v p = None"
| "getOperation_loop i (op # ops) v p =
     (if op_volumeName op = v \<and> op_podName op = p then Some i
      else getOperation_loop (Suc i) ops v p)"

definition getOperation ::
    "nestedPendingOperations \<Rightarrow> unique_volume_name \<Rightarrow> unique_pod_name \<Rightarrow> nat option" where
  "getOperation grm v p = getOperation_loop 0 (npo_operations grm) v p"

definition deleteOperation ::
    "nestedPendingOperations \<Rightarrow> unique_volume_name \<Rightarrow> unique_pod_name \<Rightarrow>
     nestedPendingOperations option" where
  "deleteOperation grm v p =
     (let ops = npo_operations grm in
      case getOperation_loop 0 ops v p of
        None \<Rightarrow> None
      | Some opIndex \<Rightarrow>
          Some (grm\<lparr>npo_operations := butlast (ops[opIndex := ops ! (length ops - 1)])\<rparr>))"

definition operationComplete ::
    "time \<Rightarrow> nestedPendingOperations \<Rightarrow> unique_volume_name \<times> unique_pod_name \<Rightarrow>
     error option \<Rightarrow> nestedPendingOperations option" where
  "operationComplete now grm vp err =
     (let (v, p) = vp in
      if err = None \<or> \<not> npo_exponentialBackOffOnError grm then deleteOperation grm v p
      else case getOperation grm v p of
        None \<Rightarrow> Some grm
      | Some i \<Rightarrow>
          Some (grm\<lparr>npo_operations := (npo_operations grm)[i := (npo_operations grm ! i)
                 \<lparr>op_expBackoff := Update now err (op_expBackoff (npo_operations grm ! i)),
                  op_operationPending := False\<rparr>]\<rparr>))"

section \<open>The two search loops\<close>

definition op_key :: "operation \<Rightarrow> unique_volume_name \<times> unique_pod_name" where
  "op_key op = (op_volumeName op, op_podName op)"

definition pods_conflict :: "unique_pod_name \<Rightarrow> unique_pod_name \<Rightarrow> bool" where
  "pods_conflict p q \<longleftrightarrow> p = emptyUniquePodName \<or> q = emptyUniquePodName \<or> p = q"

lemma getOperation_loop_SomeD:
  "getOperation_loop i ops v p = Some j \<Longrightarrow>
   i \<le> j \<and> j - i < length ops \<and> op_key (ops ! (j - i)) = (v, p)"
proof (induction i ops v p rule: getOperation_loop.induct)
  case (2 i op ops v p)
  then show ?case by (fastforce simp: nth_Cons' op_key_def split: if_splits)
qed simp

lemma getOperation_loop_None_iff: "getOperation_loop i ops v p = None \<longleftrightarrow> (v, p) \<notin> op_key ` set ops"
  by (induction i ops v p rule: getOperation_loop.induct) (auto simp: op_key_def)

lemma isOperationExists_loop_SomeD:
  "isOperationExists_loop i ops v p = Some j \<Longrightarrow>
   i \<le> j \<and> j - i < length ops \<and> op_volumeName (ops ! (j - i)) = v \<and>
   pods_conflict (op_podName (ops ! (j - i))) p"
proof (induction i ops v p rule: isOperationExists_loop.induct)
  case (2 i op ops v p)
  show ?case
  proof (cases "op_volumeName op = v \<and> pods_conflict (op_podName op) p")
    case True
    with 2 show ?thesis by (auto simp: pods_conflict_def split: if_splits)
  next
    case False
    with 2 have "Suc i \<le> j" "j - Suc i < length ops" "op_volumeName (ops ! (j - Suc i)) = v"
      "pods_conflict (op_podName (ops ! (j - Suc i))) p"
      by (auto simp: pods_conflict_def split: if_splits)
    then show ?thesis by (auto simp: nth_Cons')
  qed
qed simp

lemma isOperationExists_loop_None_iff:
  "isOperationExists_loop i ops v p = None \<longleftrightarrow>
   (\<forall>op \<in> set ops. op_volumeName op = v \<longrightarrow> \<not> pods_conflict (op_podName op) p)"
  by (induction i ops v p rule: isOperationExists_loop.induct) (auto simp: pods_conflict_def)


lemma isOperationExists_SomeD:
  "isOperationExists grm v p = Some i \<Longrightarrow>
   v \<noteq> emptyUniqueVolumeName \<and> i < length (npo_operations grm) \<and>
   op_volumeName (npo_operations grm ! i) = v \<and> pods_conflict (op_podName (npo_operations grm ! i)) p"
  by (auto simp: isOperationExists_def dest: isOperationExists_loop_SomeD split: if_splits)

lemma getOperation_SomeD:
  "getOperation grm v p = Some i \<Longrightarrow>
   i < length (npo_operations grm) \<and> op_key (npo_operations grm ! i) = (v, p)"
  by (auto simp: getOperation_def dest: getOperation_loop_SomeD)

section \<open>What a call does to the pending entries\<close>

definition pending_ops :: "nestedPendingOperations \<Rightarrow> (unique_volume_name \<times> unique_pod_name) multiset" where
  "pending_ops grm = image_mset op_key (filter_mset op_operationPending (mset (npo_operations grm)))"

definition pending_count ::
    "nestedPendingOperations \<Rightarrow> unique_volume_name \<times> unique_pod_name \<Rightarrow> nat" where
  "pending_count grm vp = count (pending_ops grm) vp"

lemma in_pending_ops:
  "vp \<in># pending_ops grm \<longleftrightarrow>
   (\<exists>op \<in> set (npo_operations grm). op_operationPending op \<and> op_key op = vp)"
  by (auto simp: pending_ops_def)

lemma Run_refused: "Run now grm vp = (Some e, grm') \<Longrightarrow> grm' = grm"
  by (auto simp: Run_def Let_def split: prod.splits option.splits if_splits)

lemma Run_pending_ops:
  assumes "Run now grm vp = (None, grm')"
  shows "pending_ops grm' = add_mset vp (pending_ops grm)"
proof -
  obtain v p where vp: "vp = (v, p)" by (cases vp)
  show ?thesis
  proof (cases "isOperationExists grm v p")
    case None
    with assms vp have "npo_operations grm' = npo_operations grm @
        [\<lparr>op_volumeName = v, op_podName = p, op_operationPending = True, op_expBackoff = zero_backoff\<rparr>]"
      by (auto simp: Run_def)
    then show ?thesis by (simp add: pending_ops_def op_key_def vp)
  next
    case (Some i)
    let ?op = "npo_operations grm ! i"
    from Some isOperationExists_SomeD have i: "i < length (npo_operations grm)" by blast
    from assms vp Some have np: "\<not> op_operationPending ?op"
      and ops: "npo_operations grm' = (npo_operations grm)
        [i := ?op\<lparr>op_operationPending := True, op_volumeName := v, op_podName := p\<rparr>]"
      by (auto simp: Run_def Let_def split: if_splits option.splits)
    from i np show ?thesis
      by (simp add: pending_ops_def ops mset_update op_key_def vp)
  qed
qed

lemma operationComplete_cases:
  assumes "operationComplete now grm vp err = Some grm'" and "vp \<in># pending_ops grm"
  obtains i op where "i < length (npo_operations grm)" and "npo_operations grm ! i = op"
    and "op_key op = vp"
    and "mset (npo_operations grm') = mset (npo_operations grm) - {#op#} \<or>
         npo_operations grm' = (npo_operations grm)[i := op\<lparr>op_expBackoff := Update now err (op_expBackoff op),
             op_operationPending := False\<rparr>]"
    and "npo_exponentialBackOffOnError grm' = npo_exponentialBackOffOnError grm"
    and "(err = None \<or> \<not> npo_exponentialBackOffOnError grm) \<Longrightarrow>
         mset (npo_operations grm') = mset (npo_operations grm) - {#op#}"
proof -
  obtain v p where vp: "vp = (v, p)" by (cases vp)
  from assms(2) have "(v, p) \<in> op_key ` set (npo_operations grm)"
    by (force simp: in_pending_ops vp)
  then obtain i where i: "getOperation_loop 0 (npo_operations grm) v p = Some i"
    using getOperation_loop_None_iff [of 0 "npo_operations grm" v p]
    by (cases "getOperation_loop 0 (npo_operations grm) v p") auto
  from getOperation_loop_SomeD [OF i] have len: "i < length (npo_operations grm)"
    and key: "op_key (npo_operations grm ! i) = vp" by (auto simp: vp)
  show thesis
    by (rule that [OF len refl key])
      (use assms(1) i mset_swap_delete [OF len] in
        \<open>auto simp: operationComplete_def vp deleteOperation_def getOperation_def Let_def split: if_splits\<close>)
qed

lemma operationComplete_total: "vp \<in># pending_ops grm \<Longrightarrow> operationComplete now grm vp err \<noteq> None"
  by (cases vp)
    (auto simp: operationComplete_def deleteOperation_def in_pending_ops Let_def
      getOperation_loop_None_iff image_iff split: option.splits)

lemma operationComplete_pending_ops:
  assumes "operationComplete now grm vp err = Some grm'" and "vp \<in># pending_ops grm"
  shows "pending_ops grm' = pending_ops grm \<or> pending_ops grm' = pending_ops grm - {#vp#}"
proof -
  from operationComplete_cases [OF assms] obtain i op where i: "i < length (npo_operations grm)"
    and op: "npo_operations grm ! i = op" and key: "op_key op = vp"
    and upd: "mset (npo_operations grm') = mset (npo_operations grm) - {#op#} \<or>
         npo_operations grm' = (npo_operations grm)[i := op\<lparr>op_expBackoff := Update now err (op_expBackoff op),
             op_operationPending := False\<rparr>]" by metis
  from i op have mem: "op \<in># mset (npo_operations grm)" by auto
  show ?thesis
    using upd
  proof
    assume "mset (npo_operations grm') = mset (npo_operations grm) - {#op#}"
    then show ?thesis
      using mem key by (auto simp: pending_ops_def image_mset_Diff filter_diff_mset)
  next
    assume "npo_operations grm' = (npo_operations grm)[i := op\<lparr>op_expBackoff := Update now err (op_expBackoff op),
             op_operationPending := False\<rparr>]"
    then show ?thesis
      using i op key mem by (auto simp: pending_ops_def mset_update image_mset_Diff filter_diff_mset)
  qed
qed

interpretation npo: op_table Run operationComplete pending_count "\<lambda>_. True" "\<lambda>_. False"
proof unfold_locales
  fix s s' :: nestedPendingOperations and k k' :: "unique_volume_name \<times> unique_pod_name"
    and now :: time and e :: error and err
  show "Run now s k = (Some e, s') \<Longrightarrow> s' = s" by (rule Run_refused)
  show "Run now s k = (None, s') \<Longrightarrow>
      pending_count s' k' = (if k' = k then Suc (pending_count s k) else pending_count s k')"
    by (simp add: pending_count_def Run_pending_ops)
  show "0 < pending_count s k \<Longrightarrow> operationComplete now s k err \<noteq> None"
    by (rule operationComplete_total) (simp add: pending_count_def)
  show "0 < pending_count s k \<Longrightarrow> operationComplete now s k err = Some s' \<Longrightarrow> k' \<noteq> k \<Longrightarrow>
      pending_count s' k' = pending_count s k'"
    using operationComplete_pending_ops [of now s k err s'] by (auto simp: pending_count_def)
  show "0 < pending_count s k \<Longrightarrow> operationComplete now s k err = Some s' \<Longrightarrow>
      pending_count s k \<le> Suc (pending_count s' k)"
    using operationComplete_pending_ops [of now s k err s'] by (auto simp: pending_count_def)
qed auto


section \<open>Operations on whole volumes\<close>

text \<open>
  The attach/detach controller passes the empty pod name only. Then the table holds at most one entry
  per volume, and operations on one volume exclude each other. The empty volume name, used to verify
  attachments, is exempt from exclusion by design.
\<close>

definition Run_volume ::
    "time \<Rightarrow> nestedPendingOperations \<Rightarrow> unique_volume_name \<Rightarrow> error option \<times> nestedPendingOperations" where
  "Run_volume now grm v = Run now grm (v, emptyUniquePodName)"

definition complete_volume ::
    "time \<Rightarrow> nestedPendingOperations \<Rightarrow> unique_volume_name \<Rightarrow> error option \<Rightarrow>
     nestedPendingOperations option" where
  "complete_volume now grm v err = operationComplete now grm (v, emptyUniquePodName) err"

definition one_entry_per_volume :: "operation multiset \<Rightarrow> bool" where
  "one_entry_per_volume A \<longleftrightarrow>
     (\<forall>op \<in># A. op_podName op = emptyUniquePodName) \<and>
     (\<forall>v. v \<noteq> emptyUniqueVolumeName \<longrightarrow> count (image_mset op_volumeName A) v \<le> 1)"

definition volume_level :: "nestedPendingOperations \<Rightarrow> bool" where
  "volume_level grm \<longleftrightarrow> one_entry_per_volume (mset (npo_operations grm))"

lemma one_entry_remove:
  assumes "one_entry_per_volume A"
  shows "one_entry_per_volume (A - {#op#})"
proof -
  have "count (image_mset op_volumeName (A - {#op#})) v \<le> count (image_mset op_volumeName A) v" for v
    by (intro mset_subset_eq_count image_mset_subseteq_mono diff_subset_eq_self)
  then show ?thesis
    using assms unfolding one_entry_per_volume_def by (meson in_diffD le_trans)
qed

lemma one_entry_replace:
  assumes "one_entry_per_volume A" and "op \<in># A"
    and "op_volumeName op' = op_volumeName op" and "op_podName op' = emptyUniquePodName"
  shows "one_entry_per_volume (add_mset op' (A - {#op#}))"
proof -
  from assms(2) obtain B where "A = add_mset op B" by (meson multi_member_split)
  with assms show ?thesis by (auto simp: one_entry_per_volume_def)
qed

lemma volume_level_unique:
  assumes "volume_level grm" and "v \<noteq> emptyUniqueVolumeName"
    and "op \<in># mset (npo_operations grm)" and "op_volumeName op = v"
  shows "count (image_mset op_volumeName (mset (npo_operations grm) - {#op#})) v = 0"
proof -
  from assms(3) obtain A where A: "mset (npo_operations grm) = add_mset op A"
    by (meson multi_member_split)
  with assms show ?thesis by (auto simp: volume_level_def one_entry_per_volume_def)
qed

lemma volume_level_only:
  assumes "volume_level grm" and "v \<noteq> emptyUniqueVolumeName"
    and "op \<in># mset (npo_operations grm)" and "op_volumeName op = v"
    and "op' \<in># mset (npo_operations grm)" and "op_volumeName op' = v"
  shows "op' = op"
proof (rule ccontr)
  assume "op' \<noteq> op"
  with assms(5) have "op' \<in># mset (npo_operations grm) - {#op#}"
    by (metis in_diff_count count_single count_greater_zero_iff not_gr_zero)
  with volume_level_unique [OF assms(1-4)] assms(6) show False
    by (metis count_eq_zero_iff image_eqI set_image_mset)
qed

lemma volume_level_Run:
  assumes "volume_level grm" and "Run_volume now grm v = (None, grm')"
  shows "volume_level grm'"
proof (cases "isOperationExists grm v emptyUniquePodName")
  case None
  from None have free: "v \<noteq> emptyUniqueVolumeName \<Longrightarrow> \<forall>op \<in> set (npo_operations grm). op_volumeName op \<noteq> v"
    by (auto simp: isOperationExists_def isOperationExists_loop_None_iff pods_conflict_def)
  from None assms(2) have "npo_operations grm' = npo_operations grm @
      [\<lparr>op_volumeName = v, op_podName = emptyUniquePodName, op_operationPending = True, op_expBackoff = zero_backoff\<rparr>]"
    by (auto simp: Run_volume_def Run_def)
  moreover from free have "v \<noteq> emptyUniqueVolumeName \<Longrightarrow>
      count (image_mset op_volumeName (mset (npo_operations grm))) v = 0"
    by (auto simp: count_eq_zero_iff)
  ultimately show ?thesis using assms(1) by (auto simp: volume_level_def one_entry_per_volume_def)
next
  case (Some i)
  let ?op = "npo_operations grm ! i"
  from isOperationExists_SomeD [OF Some] have i: "i < length (npo_operations grm)"
    and v: "op_volumeName ?op = v" by auto
  from i have mem: "?op \<in># mset (npo_operations grm)" by simp
  from Some assms(2) have "npo_operations grm' = (npo_operations grm)
      [i := ?op\<lparr>op_operationPending := True, op_volumeName := v, op_podName := emptyUniquePodName\<rparr>]"
    by (auto simp: Run_volume_def Run_def Let_def split: if_splits option.splits)
  then show ?thesis
    using assms(1) i v mem by (simp add: volume_level_def mset_update one_entry_replace)
qed

lemma volume_level_complete:
  assumes "volume_level grm" and "complete_volume now grm v err = Some grm'"
    and "(v, emptyUniquePodName) \<in># pending_ops grm"
  shows "volume_level grm'"
    and "v \<noteq> emptyUniqueVolumeName \<Longrightarrow> (v, emptyUniquePodName) \<notin># pending_ops grm'"
proof -
  from operationComplete_cases [OF assms(2) [unfolded complete_volume_def] assms(3)]
  obtain i op where i: "i < length (npo_operations grm)"
    and op: "npo_operations grm ! i = op" and key: "op_key op = (v, emptyUniquePodName)"
    and upd: "mset (npo_operations grm') = mset (npo_operations grm) - {#op#} \<or>
         npo_operations grm' = (npo_operations grm)[i := op\<lparr>op_expBackoff := Update now err (op_expBackoff op),
             op_operationPending := False\<rparr>]" by metis
  from i op have mem: "op \<in># mset (npo_operations grm)" by auto
  let ?op' = "op\<lparr>op_expBackoff := Update now err (op_expBackoff op), op_operationPending := False\<rparr>"
  from upd i op have upd': "mset (npo_operations grm') = mset (npo_operations grm) - {#op#} \<or>
      mset (npo_operations grm') = add_mset ?op' (mset (npo_operations grm) - {#op#})"
    by (auto simp: mset_update)
  moreover have "op_podName op = emptyUniquePodName" using key by (simp add: op_key_def)
  ultimately show "volume_level grm'"
    unfolding volume_level_def
    using one_entry_remove [OF assms(1) [unfolded volume_level_def], of op]
      one_entry_replace [OF assms(1) [unfolded volume_level_def] mem, of ?op'] by auto
  assume v: "v \<noteq> emptyUniqueVolumeName"
  have rest: "v \<notin> op_volumeName ` set_mset (mset (npo_operations grm) - {#op#})"
    using volume_level_unique [OF assms(1) v mem] key by (auto simp: op_key_def count_eq_zero_iff)
  have "\<not> op_operationPending o' \<or> op_key o' \<noteq> (v, emptyUniquePodName)"
    if "o' \<in># mset (npo_operations grm')" for o'
    using upd' rest that by (auto simp: op_key_def simp del: set_mset_mset)
  then show "(v, emptyUniquePodName) \<notin># pending_ops grm'"
    by (auto simp: in_pending_ops)
qed

interpretation npo_volume: op_table Run_volume complete_volume
  "\<lambda>grm v. pending_count grm (v, emptyUniquePodName)" volume_level "\<lambda>v. v \<noteq> emptyUniqueVolumeName"
proof unfold_locales
  fix s s' :: nestedPendingOperations and k k' :: unique_volume_name
    and now :: time and e :: error and err
  show "Run_volume now s k = (Some e, s') \<Longrightarrow> s' = s"
    by (simp add: Run_volume_def Run_refused)
  show "volume_level s \<Longrightarrow> Run_volume now s k = (None, s') \<Longrightarrow> volume_level s'"
    by (rule volume_level_Run)
  show "Run_volume now s k = (None, s') \<Longrightarrow> pending_count s' (k', emptyUniquePodName) =
      (if k' = k then Suc (pending_count s (k, emptyUniquePodName)) else pending_count s (k', emptyUniquePodName))"
    by (simp add: Run_volume_def pending_count_def Run_pending_ops)
  show "fst (Run_volume now s k) \<noteq> None"
    if inv: "volume_level s" and k: "k \<noteq> emptyUniqueVolumeName"
      and pos: "0 < pending_count s (k, emptyUniquePodName)"
  proof -
    from pos obtain op where op: "op \<in># mset (npo_operations s)" "op_operationPending op"
        "op_volumeName op = k" "op_podName op = emptyUniquePodName"
      by (auto simp: pending_count_def in_pending_ops op_key_def)
    then obtain i where i: "isOperationExists s k emptyUniquePodName = Some i"
      using k by (cases "isOperationExists s k emptyUniquePodName")
        (auto simp: isOperationExists_def isOperationExists_loop_None_iff pods_conflict_def)
    from isOperationExists_SomeD [OF this]
    have "npo_operations s ! i \<in># mset (npo_operations s)" "op_volumeName (npo_operations s ! i) = k"
      by auto
    with volume_level_only [OF inv k] op have "npo_operations s ! i = op" by metis
    with op i show ?thesis by (simp add: Run_volume_def Run_def)
  qed
  show "0 < pending_count s (k, emptyUniquePodName) \<Longrightarrow> complete_volume now s k err \<noteq> None"
    by (simp add: complete_volume_def pending_count_def operationComplete_total)
  show "volume_level s \<Longrightarrow> 0 < pending_count s (k, emptyUniquePodName) \<Longrightarrow>
      complete_volume now s k err = Some s' \<Longrightarrow> volume_level s'"
    by (rule volume_level_complete) (auto simp: pending_count_def)
  show "0 < pending_count s (k, emptyUniquePodName) \<Longrightarrow> complete_volume now s k err = Some s' \<Longrightarrow>
      k' \<noteq> k \<Longrightarrow> pending_count s' (k', emptyUniquePodName) = pending_count s (k', emptyUniquePodName)"
    by (rule npo.complete_frame) (auto simp: complete_volume_def)
  show "0 < pending_count s (k, emptyUniquePodName) \<Longrightarrow> complete_volume now s k err = Some s' \<Longrightarrow>
      pending_count s (k, emptyUniquePodName) \<le> Suc (pending_count s' (k, emptyUniquePodName))"
    by (rule npo.complete_cnt) (auto simp: complete_volume_def)
  show "volume_level s \<Longrightarrow> k \<noteq> emptyUniqueVolumeName \<Longrightarrow> 0 < pending_count s (k, emptyUniquePodName) \<Longrightarrow>
      complete_volume now s k err = Some s' \<Longrightarrow> pending_count s' (k, emptyUniquePodName) = 0"
    using volume_level_complete(2) [of s now k err s'] by (simp add: pending_count_def count_eq_zero_iff)
qed


section \<open>Operations without backoff\<close>

text \<open>
  With \<open>exponentialBackOffOnError\<close> off, no entry outlives its goroutine, so the table is exactly the
  multiset of operations in flight.
\<close>

definition conflict_free :: "(unique_volume_name \<times> unique_pod_name) multiset \<Rightarrow> bool" where
  "conflict_free fl \<longleftrightarrow>
     (\<forall>v p q. v \<noteq> emptyUniqueVolumeName \<longrightarrow> {#(v, p), (v, q)#} \<subseteq># fl \<longrightarrow> \<not> pods_conflict p q)"

lemma conflict_free_add:
  assumes "conflict_free fl"
    and "v \<noteq> emptyUniqueVolumeName \<Longrightarrow> \<forall>q. (v, q) \<in># fl \<longrightarrow> \<not> pods_conflict q p"
  shows "conflict_free (add_mset (v, p) fl)"
  unfolding conflict_free_def
proof (intro allI impI)
  fix w a b
  assume w: "w \<noteq> emptyUniqueVolumeName" and sub: "{#(w, a), (w, b)#} \<subseteq># add_mset (v, p) fl"
  from pair_subseteq_add_mset [OF sub] assms w show "\<not> pods_conflict a b"
    by (auto simp: conflict_free_def pods_conflict_def)
qed

lemma conflict_free_sub: "conflict_free fl \<Longrightarrow> conflict_free (fl - A)"
  unfolding conflict_free_def by (meson diff_subset_eq_self subset_mset.order_trans)

lemma no_backoff_inv:
  assumes "op_reach Run operationComplete (NewNestedPendingOperations False) grm fl"
  shows "\<not> npo_exponentialBackOffOnError grm \<and> (\<forall>op \<in> set (npo_operations grm). op_operationPending op) \<and>
    image_mset op_key (mset (npo_operations grm)) = fl \<and> conflict_free fl"
  using assms
proof (induction rule: op_reach.induct)
  case init
  then show ?case by (simp add: NewNestedPendingOperations_def conflict_free_def)
next
  case (start grm fl now k grm')
  obtain v p where k: "k = (v, p)" by (cases k)
  show ?case
  proof (cases "isOperationExists grm v p")
    case None
    from start None k have ops: "grm' = grm\<lparr>npo_operations := npo_operations grm @
        [\<lparr>op_volumeName = v, op_podName = p, op_operationPending = True, op_expBackoff = zero_backoff\<rparr>]\<rparr>"
      by (auto simp: Run_def)
    from None have "v \<noteq> emptyUniqueVolumeName \<Longrightarrow>
        \<forall>op \<in> set (npo_operations grm). op_volumeName op = v \<longrightarrow> \<not> pods_conflict (op_podName op) p"
      by (auto simp: isOperationExists_def isOperationExists_loop_None_iff)
    then have "v \<noteq> emptyUniqueVolumeName \<Longrightarrow> \<forall>q. (v, q) \<in># fl \<longrightarrow> \<not> pods_conflict q p"
      using start.IH by (auto simp: op_key_def)
    from conflict_free_add [OF _ this] start.IH show ?thesis
      by (auto simp: ops k op_key_def)
  next
    case (Some i)
    with isOperationExists_SomeD start.IH have "op_operationPending (npo_operations grm ! i)"
      by (metis nth_mem)
    with start.hyps Some k show ?thesis by (auto simp: Run_def Let_def)
  qed
next
  case (refuse grm fl now k e grm')
  then show ?case by (auto dest: Run_refused)
next
  case (finish grm fl k now err grm')
  then have all: "filter_mset op_operationPending (mset (npo_operations grm)) = mset (npo_operations grm)"
    by (auto simp: filter_mset_eq_conv)
  then have "k \<in># pending_ops grm" using finish by (simp add: pending_ops_def)
  from operationComplete_cases [OF finish.hyps(3) this] finish.IH obtain op where
    "op \<in># mset (npo_operations grm)" and "op_key op = k"
    and ops: "mset (npo_operations grm') = mset (npo_operations grm) - {#op#}"
    and "\<not> npo_exponentialBackOffOnError grm'"
    by (metis nth_mem_mset)
  moreover from ops have "set (npo_operations grm') \<subseteq> set (npo_operations grm)"
    by (metis in_diffD set_mset_mset subsetI)
  ultimately show ?case
    using finish.IH conflict_free_sub by (auto simp: image_mset_Diff)
qed

section \<open>Entries in volume-level tables\<close>

lemma IsOperationPending_volume:
  assumes "volume_level grm" and "v \<noteq> emptyUniqueVolumeName"
  shows "IsOperationPending grm v emptyUniquePodName \<longleftrightarrow> 0 < pending_count grm (v, emptyUniquePodName)"
proof (cases "isOperationExists grm v emptyUniquePodName")
  case None
  then have "\<forall>op \<in> set (npo_operations grm). op_volumeName op \<noteq> v"
    using assms(2) by (auto simp: isOperationExists_def isOperationExists_loop_None_iff pods_conflict_def)
  then show ?thesis using None
    by (auto simp: IsOperationPending_def pending_count_def in_pending_ops op_key_def)
next
  case (Some i)
  from isOperationExists_SomeD [OF Some]
  have i: "npo_operations grm ! i \<in># mset (npo_operations grm)" "op_volumeName (npo_operations grm ! i) = v"
    by auto
  have "op_podName (npo_operations grm ! i) = emptyUniquePodName"
    using assms(1) i by (auto simp: volume_level_def one_entry_per_volume_def)
  then have key: "op_key (npo_operations grm ! i) = (v, emptyUniquePodName)"
    using i by (simp add: op_key_def)
  have only: "op = npo_operations grm ! i" if "op \<in> set (npo_operations grm)" "op_key op = (v, emptyUniquePodName)" for op
    using volume_level_only [OF assms i, of op] that by (simp add: op_key_def)
  show ?thesis
    unfolding IsOperationPending_def Some pending_count_def count_greater_zero_iff in_pending_ops option.case
    using key only i(1) by (metis set_mset_mset)
qed

lemma volume_level_new [simp]: "volume_level (NewNestedPendingOperations b)"
  by (simp add: volume_level_def one_entry_per_volume_def NewNestedPendingOperations_def)

lemma pending_count_new [simp]: "pending_count (NewNestedPendingOperations b) k = 0"
  by (simp add: pending_count_def pending_ops_def NewNestedPendingOperations_def)

lemma Run_volume_free:
  assumes "\<forall>op \<in> set (npo_operations grm). op_volumeName op \<noteq> v"
  shows "fst (Run_volume now grm v) = None"
proof -
  have "isOperationExists grm v emptyUniquePodName = None"
    using assms by (simp add: isOperationExists_def isOperationExists_loop_None_iff)
  then show ?thesis by (simp add: Run_volume_def Run_def)
qed

lemma Run_volume_gate:
  assumes "volume_level grm" and "v \<noteq> emptyUniqueVolumeName"
    and "op \<in> set (npo_operations grm)" and "op_volumeName op = v" and "\<not> op_operationPending op"
    and "backoff_ok (op_expBackoff op)"
  shows "fst (Run_volume now grm v) = None \<longleftrightarrow>
    eb_lastErrorTime (op_expBackoff op) + eb_durationBeforeRetry (op_expBackoff op) < now"
proof -
  obtain i where i: "isOperationExists grm v emptyUniquePodName = Some i"
    using assms(2-4) by (cases "isOperationExists grm v emptyUniquePodName")
      (auto simp: isOperationExists_def isOperationExists_loop_None_iff pods_conflict_def)
  from isOperationExists_SomeD [OF i] have "npo_operations grm ! i = op"
    using volume_level_only [OF assms(1,2), of op "npo_operations grm ! i"] assms(3,4) by simp
  then show ?thesis
    using i assms(5) SafeToRetry_iff [OF assms(6), of now "getOperationName v emptyUniquePodName"]
    by (cases "SafeToRetry now (op_expBackoff op) (getOperationName v emptyUniquePodName)")
      (auto simp: Run_volume_def Run_def)
qed

lemma Run_backoffs:
  "Run now grm vp = (e, grm') \<Longrightarrow>
   set (map op_expBackoff (npo_operations grm')) \<subseteq> insert zero_backoff (set (map op_expBackoff (npo_operations grm)))
   \<and> npo_exponentialBackOffOnError grm' = npo_exponentialBackOffOnError grm"
  by (auto simp: Run_def Let_def split: prod.splits option.splits if_splits
      dest!: set_update_subset_insert [THEN subsetD] isOperationExists_SomeD)

lemma operationComplete_backoffs:
  assumes "operationComplete now grm vp err = Some grm'" and "vp \<in># pending_ops grm"
    and "\<forall>op \<in> set (npo_operations grm). backoff_ok (op_expBackoff op)"
  shows "(\<forall>op \<in> set (npo_operations grm'). backoff_ok (op_expBackoff op)) \<and>
    npo_exponentialBackOffOnError grm' = npo_exponentialBackOffOnError grm"
proof -
  from operationComplete_cases [OF assms(1,2)] obtain i op where i: "i < length (npo_operations grm)"
    and op: "npo_operations grm ! i = op"
    and upd: "mset (npo_operations grm') = mset (npo_operations grm) - {#op#} \<or>
         npo_operations grm' = (npo_operations grm)[i := op\<lparr>op_expBackoff := Update now err (op_expBackoff op),
             op_operationPending := False\<rparr>]"
    and flag: "npo_exponentialBackOffOnError grm' = npo_exponentialBackOffOnError grm" by metis
  have "backoff_ok (Update now err (op_expBackoff op))"
    using assms(3) i op by (auto intro: backoff_ok_Update)
  moreover have "mset (npo_operations grm') = mset (npo_operations grm) - {#op#} \<Longrightarrow>
      set (npo_operations grm') \<subseteq> set (npo_operations grm)"
    by (metis in_diffD set_mset_mset subsetI)
  ultimately show ?thesis
    using upd assms(3) flag by (auto dest!: set_update_subset_insert [THEN subsetD])
qed

lemma reach_volume_pending:
  assumes "op_reach Run_volume complete_volume (NewNestedPendingOperations b) grm fl" and "v \<in># fl"
  shows "volume_level grm" and "(v, emptyUniquePodName) \<in># pending_ops grm"
proof -
  have t: "volume_level grm \<and> (\<forall>v. count fl v \<le> pending_count grm (v, emptyUniquePodName))"
    using npo_volume.reach_tracked [OF assms(1)] by simp
  then show "volume_level grm" by simp
  have "0 < pending_count grm (v, emptyUniquePodName)"
    using in_mset_bound [OF assms(2), of "\<lambda>v. pending_count grm (v, emptyUniquePodName)"] t by simp
  then show "(v, emptyUniquePodName) \<in># pending_ops grm" by (simp add: pending_count_def)
qed

lemma reach_backoff_ok:
  assumes "op_reach Run_volume complete_volume (NewNestedPendingOperations b) grm fl"
  shows "(\<forall>op \<in> set (npo_operations grm). backoff_ok (op_expBackoff op)) \<and>
    npo_exponentialBackOffOnError grm = b"
  using assms
proof (induction rule: op_reach.induct)
  case init
  then show ?case by (simp add: NewNestedPendingOperations_def)
next
  case (start grm fl now v grm')
  then show ?case
    using Run_backoffs [of now grm "(v, emptyUniquePodName)" None grm'] by (auto simp: Run_volume_def)
next
  case (refuse grm fl now v e grm')
  then show ?case by (auto simp: Run_volume_def dest: Run_refused)
next
  case (finish grm fl v now err grm')
  from operationComplete_backoffs [OF finish.hyps(3) [unfolded complete_volume_def]
      reach_volume_pending(2) [OF finish.hyps(1,2)]] finish.IH
  show ?case by simp
qed

section \<open>Properties\<close>

text \<open>The completion handler of a goroutine never indexes the operation slice out of range: in
  every interleaving of calls and completions, with or without backoff, the handler of an operation in
  flight finds its entry.\<close>

theorem completion_never_panics:
  assumes "op_reach Run operationComplete (NewNestedPendingOperations b) grm fl" and "vp \<in># fl"
  shows "operationComplete now grm vp err \<noteq> None"
  by (rule npo.complete_never_panics [OF assms(1) _ assms(2)]) simp

theorem completion_never_panics_witness:
  "op_reach Run operationComplete (NewNestedPendingOperations True)
     (snd (Run 0 (NewNestedPendingOperations True) (''v'', ''p''))) {#(''v'', ''p'')#} \<and>
   operationComplete 5 (snd (Run 0 (NewNestedPendingOperations True) (''v'', ''p''))) (''v'', ''p'') None \<noteq> None"
proof -
  have r: "op_reach Run operationComplete (NewNestedPendingOperations True)
     (snd (Run 0 (NewNestedPendingOperations True) (''v'', ''p''))) {#(''v'', ''p'')#}"
    by (rule op_reach_run [OF op_reach.init])
      (simp add: Run_def NewNestedPendingOperations_def isOperationExists_def)
  show ?thesis using r completion_never_panics [OF r, of "(''v'', ''p'')" 5 None] by simp
qed

text \<open>C1: Operations on whole volumes exclude each other: when every call passes the empty pod name,
  as the attach/detach controller does, at most one goroutine per volume is in flight, and
  \<open>IsOperationPending\<close> tells whether there is one.\<close>

theorem volume_operations_exclusive:
  assumes "op_reach Run_volume complete_volume (NewNestedPendingOperations b) grm fl"
    and "v \<noteq> emptyUniqueVolumeName"
  shows "count fl v \<le> 1 \<and> (v \<in># fl \<longleftrightarrow> IsOperationPending grm v emptyUniquePodName)"
proof -
  have "volume_level grm" using npo_volume.reach_tracked [OF assms(1)] by simp
  moreover have "count fl v = pending_count grm (v, emptyUniquePodName)" "count fl v \<le> 1"
    using npo_volume.reach_exclusive [OF assms(1) _ assms(2)] by simp_all
  ultimately show ?thesis
    by (simp add: IsOperationPending_volume assms(2) count_greater_zero_iff [symmetric])
qed

theorem volume_operations_exclusive_witness:
  "''v'' \<noteq> emptyUniqueVolumeName \<and> count {#''v''#} ''v'' \<le> 1 \<and>
   IsOperationPending (snd (Run_volume 0 (NewNestedPendingOperations True) ''v'')) ''v'' emptyUniquePodName"
proof -
  have r: "op_reach Run_volume complete_volume (NewNestedPendingOperations True)
     (snd (Run_volume 0 (NewNestedPendingOperations True) ''v'')) {#''v''#}"
    by (rule op_reach_run [OF op_reach.init])
      (simp add: Run_volume_def Run_def NewNestedPendingOperations_def isOperationExists_def)
  have v: "''v'' \<noteq> emptyUniqueVolumeName" by (simp add: emptyUniqueVolumeName_def)
  show ?thesis using v volume_operations_exclusive [OF r v] by simp
qed

text \<open>Without exponential backoff the documented nesting holds: two operations in flight on the
  same volume have different, non-empty pod names.\<close>

theorem nesting_without_backoff:
  assumes "op_reach Run operationComplete (NewNestedPendingOperations False) grm fl"
    and "v \<noteq> emptyUniqueVolumeName" and "{#(v, p), (v, q)#} \<subseteq># fl"
  shows "p \<noteq> emptyUniquePodName \<and> q \<noteq> emptyUniquePodName \<and> p \<noteq> q"
  using no_backoff_inv [OF assms(1)] assms(2,3) by (auto simp: conflict_free_def pods_conflict_def)

theorem nesting_without_backoff_witness:
  "op_reach Run operationComplete (NewNestedPendingOperations False)
     (snd (Run 0 (snd (Run 0 (NewNestedPendingOperations False) (''v'', ''p''))) (''v'', ''q'')))
     {#(''v'', ''q''), (''v'', ''p'')#} \<and> ''p'' \<noteq> emptyUniquePodName"
proof -
  have r: "op_reach Run operationComplete (NewNestedPendingOperations False)
     (snd (Run 0 (snd (Run 0 (NewNestedPendingOperations False) (''v'', ''p''))) (''v'', ''q'')))
     {#(''v'', ''q''), (''v'', ''p'')#}"
    by (rule op_reach_run [OF op_reach_run [OF op_reach.init]])
      (simp_all add: Run_def NewNestedPendingOperations_def isOperationExists_def
        emptyUniqueVolumeName_def emptyUniquePodName_def)
  show ?thesis
    using r nesting_without_backoff [OF r, of "''v''" "''q''" "''p''"]
    by (simp add: emptyUniqueVolumeName_def)
qed

definition overlap_schedule :: "(time \<times> ((unique_volume_name \<times> unique_pod_name) +
    (unique_volume_name \<times> unique_pod_name) \<times> error option)) list" where
  "overlap_schedule =
     [(1, Inl (''v'', ''p'')), (1, Inl (''v'', ''q'')),
      (1, Inr ((''v'', ''p''), Some (Errorf ''mount'' None))),
      (1000000000, Inl (''v'', ''''))]"

definition stuck_schedule :: "(time \<times> ((unique_volume_name \<times> unique_pod_name) +
    (unique_volume_name \<times> unique_pod_name) \<times> error option)) list" where
  "stuck_schedule =
     [(1, Inl (''x'', '''')), (1, Inl (''v'', ''p'')), (1, Inl (''v'', ''q'')),
      (1, Inr ((''v'', ''p''), Some (Errorf ''mount'' None))),
      (1, Inr ((''v'', ''q''), Some (Errorf ''mount'' None))),
      (1000000000, Inl (''v'', '''')),
      (1000000000, Inr ((''v'', ''''), Some (Errorf ''unmount device'' None))),
      (9000000000, Inl (''v'', ''q'')),
      (9000000000, Inr ((''x'', ''''), None)),
      (9000000000, Inr ((''v'', ''q''), None))]"

text \<open>With exponential backoff the documented nesting fails: a call for the whole volume is
  accepted while an operation of one of its pods is in flight, because the search stops at the entry
  of another pod whose backoff has expired.\<close>

theorem overlap_with_backoff:
  "\<exists>grm fl. op_reach Run operationComplete (NewNestedPendingOperations True) grm fl \<and>
     {#(''v'', ''''), (''v'', ''q'')#} \<subseteq># fl"
proof -
  have "map_option snd (op_exec Run operationComplete overlap_schedule (NewNestedPendingOperations True, [])) =
      Some [(''v'', ''''), (''v'', ''q'')]"
    by code_simp
  then obtain grm where "op_exec Run operationComplete overlap_schedule (NewNestedPendingOperations True, []) =
      Some (grm, [(''v'', ''''), (''v'', ''q'')])" by auto
  from op_exec_reach [OF this] op_reach.init show ?thesis by force
qed


text \<open>The name under which an operation is reported determines its volume and its pod.\<close>

lemma getOperationName_inj:
  "getOperationName v p = getOperationName w q \<longleftrightarrow> v = w \<and> p = q"
proof -
  have eq: "getOperationName v p = go_quote v @ (if p = '''' then '''' else '' ('' @ go_quote p @ '')'')" for v p
    by (simp add: getOperationName_def emptyUniquePodName_def)
  show ?thesis
    unfolding eq go_quote_prefix_inj by (auto simp: go_quote_inj)
qed

text \<open>Once an operation on a volume has succeeded, the next one is accepted at once; once it has
  failed with backoff enabled, the next one is accepted exactly when a waiting time between 500 ms and
  two minutes, counted from the failure, has passed.\<close>

theorem volume_retry:
  assumes "op_reach Run_volume complete_volume (NewNestedPendingOperations True) grm fl"
    and "v \<in># fl" and "v \<noteq> emptyUniqueVolumeName"
    and "complete_volume now grm v err = Some grm'"
  shows "if err = None then fst (Run_volume now' grm' v) = None
    else \<exists>d. initialDurationBeforeRetry \<le> d \<and> d \<le> maxDurationBeforeRetry \<and>
      (\<forall>now'. fst (Run_volume now' grm' v) = None \<longleftrightarrow> now + d < now')"
proof -
  note vl = reach_volume_pending [OF assms(1,2)]
  from operationComplete_cases [OF assms(4) [unfolded complete_volume_def] vl(2)]
  obtain i op where i: "i < length (npo_operations grm)" and op: "npo_operations grm ! i = op"
    and key: "op_key op = (v, emptyUniquePodName)"
    and del: "err = None \<Longrightarrow> mset (npo_operations grm') = mset (npo_operations grm) - {#op#}" by metis
  have mem: "op \<in># mset (npo_operations grm)" and v: "op_volumeName op = v"
    using i op key by (auto simp: op_key_def)
  show ?thesis
  proof (cases "err = None")
    case True
    have "\<forall>op \<in> set (npo_operations grm'). op_volumeName op \<noteq> v"
      using volume_level_unique [OF vl(1) assms(3) mem v] del [OF True]
      by (metis count_eq_zero_iff image_eqI set_image_mset set_mset_mset)
    then show ?thesis by (simp add: True Run_volume_free)
  next
    case False
    let ?op' = "op\<lparr>op_expBackoff := Update now err (op_expBackoff op), op_operationPending := False\<rparr>"
    let ?d = "eb_durationBeforeRetry (Update now err (op_expBackoff op))"
    have ok: "backoff_ok (op_expBackoff op)" and flag: "npo_exponentialBackOffOnError grm"
      using reach_backoff_ok [OF assms(1)] mem by auto
    obtain j where j: "getOperation grm v emptyUniquePodName = Some j"
      and grm': "npo_operations grm' = (npo_operations grm)[j := (npo_operations grm ! j)
         \<lparr>op_expBackoff := Update now err (op_expBackoff (npo_operations grm ! j)), op_operationPending := False\<rparr>]"
      using assms(4) False flag mem key
      by (auto simp: complete_volume_def operationComplete_def getOperation_def getOperation_loop_None_iff
          split: option.splits intro: rev_image_eqI)
    from getOperation_SomeD [OF j] have jl: "j < length (npo_operations grm)"
      and "npo_operations grm ! j = op"
      using volume_level_only [OF vl(1) assms(3) mem v, of "npo_operations grm ! j"] by (auto simp: op_key_def)
    then have mem': "?op' \<in> set (npo_operations grm')"
      using grm' by (metis set_update_memI)
    have vl': "volume_level grm'" by (rule volume_level_complete(1) [OF vl(1) assms(4) vl(2)])
    have ok': "backoff_ok (Update now err (op_expBackoff op))" by (rule backoff_ok_Update [OF ok])
    have d: "initialDurationBeforeRetry \<le> ?d \<and> ?d \<le> maxDurationBeforeRetry"
      using ok by (auto simp: Update_def Let_def backoff_ok_def backoff_consts)
    have "eb_lastErrorTime (Update now err (op_expBackoff op)) = now" by (simp add: Update_def Let_def)
    then have "\<forall>now'. fst (Run_volume now' grm' v) = None \<longleftrightarrow> now + ?d < now'"
      using Run_volume_gate [OF vl' assms(3) mem'] v ok' by simp
    with d False show ?thesis by auto
  qed
qed

theorem volume_retry_witness:
  "\<exists>grm grm'. op_reach Run_volume complete_volume (NewNestedPendingOperations True) grm {#''v''#} \<and>
     complete_volume 7 grm ''v'' None = Some grm' \<and> fst (Run_volume 7 grm' ''v'') = None"
proof -
  let ?grm = "snd (Run_volume 0 (NewNestedPendingOperations True) ''v'')"
  have r: "op_reach Run_volume complete_volume (NewNestedPendingOperations True) ?grm {#''v''#}"
    by (rule op_reach_run [OF op_reach.init])
      (simp add: Run_volume_def Run_def NewNestedPendingOperations_def isOperationExists_def)
  have "complete_volume 7 ?grm ''v'' None \<noteq> None" by code_simp
  then obtain grm' where c: "complete_volume 7 ?grm ''v'' None = Some grm'" by blast
  have "fst (Run_volume 7 grm' ''v'') = None"
    using volume_retry [OF r _ _ c, of 7] by (simp add: emptyUniqueVolumeName_def)
  with r c show ?thesis by blast
qed

end
