(* ===== verification/Operation_Executor.thy ===== *)
theory Operation_Executor
  imports Operation_Generator Nested_Pending_Operations
begin

text \<open>
  \<open>pkg/volume/util/operationexecutor/operation_executor.go\<close>: each method generates a function and
  hands it to \<open>NestedPendingOperations\<close> under a volume name and, where pods may work in parallel, a
  pod name. The goroutines that were spawned and have not finished are part of the state; a goroutine
  that finishes runs its function and then the completion handler.
\<close>

type_synonym op_id = "unique_volume_name \<times> unique_pod_name"

record operationExecutor =
  oe_pendingOperations :: nestedPendingOperations
  oe_goroutines :: "(op_id \<times> opfunc) list"

definition NewOperationExecutor :: operationExecutor where
  "NewOperationExecutor = \<lparr>oe_pendingOperations = NewNestedPendingOperations True, oe_goroutines = []\<rparr>"

definition oe_IsOperationPending :: "operationExecutor \<Rightarrow> unique_volume_name \<Rightarrow> unique_pod_name \<Rightarrow> bool" where
  "oe_IsOperationPending oe volumeName podName = IsOperationPending (oe_pendingOperations oe) volumeName podName"

text \<open>\<open>oe.pendingOperations.Run(volumeName, podName, f)\<close>.\<close>

definition oe_Run :: "time \<Rightarrow> op_id \<Rightarrow> opfunc \<Rightarrow> operationExecutor \<Rightarrow> error option \<times> operationExecutor" where
  "oe_Run now k f oe =
     (case Run now (oe_pendingOperations oe) k of
        (Some err, grm) \<Rightarrow> (Some err, oe\<lparr>oe_pendingOperations := grm\<rparr>)
      | (None, grm) \<Rightarrow> (None, oe\<lparr>oe_pendingOperations := grm, oe_goroutines := (k, f) # oe_goroutines oe\<rparr>))"

definition oe_start :: "time \<Rightarrow> op_id \<Rightarrow> error + opfunc \<Rightarrow> operationExecutor \<Rightarrow> error option \<times> operationExecutor" where
  "oe_start now k gen oe = (case gen of Inl err \<Rightarrow> (Some err, oe) | Inr f \<Rightarrow> oe_Run now k f oe)"

definition AttachVolume ::
    "'w outside \<Rightarrow> operationGenerator \<Rightarrow> time \<Rightarrow> VolumeToAttach \<Rightarrow> operationExecutor \<Rightarrow>
     error option \<times> operationExecutor" where
  "AttachVolume os og now volumeToAttach oe =
     oe_start now (vtoa_VolumeName volumeToAttach, '''') (GenerateAttachVolumeFunc os og volumeToAttach) oe"

definition DetachVolume ::
    "'w outside \<Rightarrow> operationGenerator \<Rightarrow> time \<Rightarrow> AttachedVolume \<Rightarrow> bool \<Rightarrow> operationExecutor \<Rightarrow>
     error option \<times> operationExecutor" where
  "DetachVolume os og now volumeToDetach verifySafeToDetach oe =
     oe_start now (atv_VolumeName volumeToDetach, '''') (GenerateDetachVolumeFunc os og volumeToDetach verifySafeToDetach) oe"

text \<open>\<open>None\<close> is the panic of \<open>GenerateVolumesAreAttachedFunc\<close>.\<close>

definition VerifyVolumesAreAttached ::
    "operationGenerator \<Rightarrow> time \<Rightarrow> AttachedVolume list \<Rightarrow> node_name \<Rightarrow> operationExecutor \<Rightarrow>
     (error option \<times> operationExecutor) option" where
  "VerifyVolumesAreAttached og now attachedVolumes nodeName oe =
     map_option (\<lambda>f. oe_Run now ('''', '''') f oe) (GenerateVolumesAreAttachedFunc og attachedVolumes nodeName)"

definition MountVolume ::
    "'w outside \<Rightarrow> operationGenerator \<Rightarrow> time \<Rightarrow> duration \<Rightarrow> VolumeToMount \<Rightarrow> operationExecutor \<Rightarrow>
     error option \<times> operationExecutor" where
  "MountVolume os og now waitForAttachTimeout volumeToMount oe =
     (let podName = (if \<not> vtm_PluginIsAttachable volumeToMount then pod_UID (vtm_Pod volumeToMount) else '''')
      in oe_start now (vtm_VolumeName volumeToMount, podName)
           (GenerateMountVolumeFunc os og waitForAttachTimeout volumeToMount) oe)"

definition UnmountVolume ::
    "'w outside \<Rightarrow> operationGenerator \<Rightarrow> time \<Rightarrow> MountedVolume \<Rightarrow> operationExecutor \<Rightarrow>
     error option \<times> operationExecutor" where
  "UnmountVolume os og now volumeToUnmount oe =
     oe_start now (mtv_VolumeName volumeToUnmount, mtv_PodUID volumeToUnmount)
       (GenerateUnmountVolumeFunc os og volumeToUnmount) oe"

definition UnmountDevice ::
    "'w outside \<Rightarrow> operationGenerator \<Rightarrow> time \<Rightarrow> AttachedVolume \<Rightarrow> operationExecutor \<Rightarrow>
     error option \<times> operationExecutor" where
  "UnmountDevice os og now deviceToDetach oe =
     oe_start now (atv_VolumeName deviceToDetach, '''') (GenerateUnmountDeviceFunc os og deviceToDetach) oe"

definition VerifyControllerAttachedVolume ::
    "time \<Rightarrow> VolumeToMount \<Rightarrow> node_name \<Rightarrow> operationExecutor \<Rightarrow> error option \<times> operationExecutor" where
  "VerifyControllerAttachedVolume now volumeToMount nodeName oe =
     oe_start now (vtm_VolumeName volumeToMount, '''')
       (GenerateVerifyControllerAttachedVolumeFunc volumeToMount nodeName) oe"

text \<open>
  A goroutine finishes: its function runs, then \<open>operationComplete\<close> is called with its result.
  \<open>None\<close> if there is no such goroutine, or if the completion handler panics.
\<close>

definition finish ::
    "'w outside \<Rightarrow> operationGenerator \<Rightarrow> 's ActualStateOfWorldAttacherUpdater \<Rightarrow> 's ActualStateOfWorldMounterUpdater \<Rightarrow>
     time \<Rightarrow> op_id \<times> opfunc \<Rightarrow> operationExecutor \<Rightarrow> 's \<times> 'w \<Rightarrow> (error option \<times> operationExecutor \<times> 's \<times> 'w) option" where
  "finish os og au mu now g oe sw =
     (if g \<in> set (oe_goroutines oe) then
        let (err, sw') = run_func os og au mu (snd g) sw
        in map_option (\<lambda>grm. (err, oe\<lparr>oe_pendingOperations := grm, oe_goroutines := remove1 g (oe_goroutines oe)\<rparr>, sw'))
             (operationComplete now (oe_pendingOperations oe) (fst g) err)
      else None)"

text \<open>The same for the goroutine that was started last, without comparing functions.\<close>

definition finish_last ::
    "'w outside \<Rightarrow> operationGenerator \<Rightarrow> 's ActualStateOfWorldAttacherUpdater \<Rightarrow> 's ActualStateOfWorldMounterUpdater \<Rightarrow>
     time \<Rightarrow> operationExecutor \<Rightarrow> 's \<times> 'w \<Rightarrow> (error option \<times> operationExecutor \<times> 's \<times> 'w) option" where
  "finish_last os og au mu now oe sw =
     (case oe_goroutines oe of
        [] \<Rightarrow> None
      | g # gs \<Rightarrow>
          let (err, sw') = run_func os og au mu (snd g) sw
          in map_option (\<lambda>grm. (err, oe\<lparr>oe_pendingOperations := grm, oe_goroutines := gs\<rparr>, sw'))
               (operationComplete now (oe_pendingOperations oe) (fst g) err))"

lemma finish_last_finish:
  "finish_last os og au mu now oe sw = Some r \<Longrightarrow> finish os og au mu now (hd (oe_goroutines oe)) oe sw = Some r"
  by (auto simp: finish_last_def finish_def Let_def split: list.splits)

section \<open>The table of pending operations\<close>

text \<open>The keys of the goroutines in flight, as the operation table sees them.\<close>

definition in_flight :: "operationExecutor \<Rightarrow> op_id multiset" where
  "in_flight oe = mset (map fst (oe_goroutines oe))"

text \<open>The operation table of the executor is in a state it can reach with exactly these goroutines.\<close>

definition oe_inv :: "operationExecutor \<Rightarrow> bool" where
  "oe_inv oe \<longleftrightarrow> op_reach Run operationComplete (NewNestedPendingOperations True) (oe_pendingOperations oe) (in_flight oe)"

lemma oe_inv_new: "oe_inv NewOperationExecutor"
  by (simp add: oe_inv_def NewOperationExecutor_def in_flight_def op_reach.init)

lemma oe_inv_Run: "oe_inv oe \<Longrightarrow> oe_inv (snd (oe_Run now k f oe))"
  by (auto simp: oe_inv_def oe_Run_def in_flight_def split: prod.splits option.splits
      intro: op_reach.start op_reach.refuse)

lemma oe_inv_start: "oe_inv oe \<Longrightarrow> oe_inv (snd (oe_start now k gen oe))"
  by (auto simp: oe_start_def oe_inv_Run split: sum.split)

lemma oe_inv_finish:
  assumes "oe_inv oe" and "finish os og au mu now g oe sw = Some (err, oe', sw')"
  shows "oe_inv oe'"
proof -
  have g: "g \<in> set (oe_goroutines oe)"
    and c: "operationComplete now (oe_pendingOperations oe) (fst g) err = Some (oe_pendingOperations oe')"
    and oe': "oe_goroutines oe' = remove1 g (oe_goroutines oe)"
    using assms(2) by (auto simp: finish_def Let_def split: if_splits prod.splits)
  have "in_flight oe' = in_flight oe - {#fst g#}"
    using g by (simp add: in_flight_def oe' image_mset_Diff mset_remove1 del: mset_map)
      (simp add: image_mset_Diff)
  moreover have "fst g \<in># in_flight oe" using g by (auto simp: in_flight_def)
  ultimately show ?thesis using assms(1) c by (auto simp: oe_inv_def intro: op_reach.finish)
qed

text \<open>A goroutine can always finish: the completion handler does not panic.\<close>

lemma finish_total:
  assumes "oe_inv oe" and "g \<in> set (oe_goroutines oe)"
  shows "finish os og au mu now g oe sw \<noteq> None"
proof -
  have "fst g \<in># in_flight oe" using assms(2) by (auto simp: in_flight_def)
  then have "operationComplete now (oe_pendingOperations oe) (fst g) err \<noteq> None" for err
    using npo.complete_never_panics [OF assms(1) [unfolded oe_inv_def]] by simp
  then show ?thesis using assms(2) by (simp add: finish_def split_def Let_def del: not_None_eq)
qed

section \<open>Operations on whole volumes\<close>

text \<open>The executor of the attach/detach controller: all operations have the empty pod name.\<close>

definition oe_volume_inv :: "operationExecutor \<Rightarrow> bool" where
  "oe_volume_inv oe \<longleftrightarrow>
     op_reach Run_volume complete_volume (NewNestedPendingOperations True) (oe_pendingOperations oe)
       (image_mset fst (in_flight oe)) \<and> (\<forall>g \<in> set (oe_goroutines oe). snd (fst g) = emptyUniquePodName)"

lemma oe_volume_inv_new: "oe_volume_inv NewOperationExecutor"
  by (simp add: oe_volume_inv_def NewOperationExecutor_def in_flight_def op_reach.init)

lemma oe_volume_inv_Run:
  assumes "oe_volume_inv oe"
  shows "oe_volume_inv (snd (oe_Run now (v, emptyUniquePodName) f oe))"
proof (cases "Run now (oe_pendingOperations oe) (v, emptyUniquePodName)")
  case (Pair r grm)
  then have run: "Run_volume now (oe_pendingOperations oe) v = (r, grm)" by (simp add: Run_volume_def)
  show ?thesis
    using assms Pair op_reach.start [where now = now and k = v] op_reach.refuse [where now = now and k = v] run
    by (cases r) (auto simp: oe_volume_inv_def oe_Run_def in_flight_def)
qed

lemma oe_volume_inv_start:
  "oe_volume_inv oe \<Longrightarrow> oe_volume_inv (snd (oe_start now (v, emptyUniquePodName) gen oe))"
  by (auto simp: oe_start_def oe_volume_inv_Run split: sum.split)

lemma finish_facts:
  assumes "finish os og au mu now g oe sw = Some (err, oe', sw')"
  shows "g \<in> set (oe_goroutines oe)"
    and "operationComplete now (oe_pendingOperations oe) (fst g) err = Some (oe_pendingOperations oe')"
    and "oe_goroutines oe' = remove1 g (oe_goroutines oe)"
    and "run_func os og au mu (snd g) sw = (err, sw')"
  using assms by (auto simp: finish_def Let_def split: if_splits prod.splits)

lemma oe_volume_inv_finish:
  assumes "oe_volume_inv oe" and "finish os og au mu now g oe sw = Some (err, oe', sw')"
  shows "oe_volume_inv oe'"
proof -
  note f = finish_facts [OF assms(2)]
  have pod: "snd (fst g) = emptyUniquePodName" using assms(1) f(1) by (auto simp: oe_volume_inv_def)
  have "image_mset fst (in_flight oe') = image_mset fst (in_flight oe) - {#fst (fst g)#}"
    using f(1) by (simp add: in_flight_def f(3) image_mset_Diff)
  moreover have "fst (fst g) \<in># image_mset fst (in_flight oe)" using f(1) by (auto simp: in_flight_def)
  moreover have "complete_volume now (oe_pendingOperations oe) (fst (fst g)) err = Some (oe_pendingOperations oe')"
    using f(2) pod by (simp add: complete_volume_def) (metis prod.collapse)
  ultimately have "op_reach Run_volume complete_volume (NewNestedPendingOperations True) (oe_pendingOperations oe')
      (image_mset fst (in_flight oe'))"
    using op_reach.finish assms(1) by (metis oe_volume_inv_def)
  then show ?thesis
    using assms(1) notin_set_remove1 [of _ "oe_goroutines oe"] by (auto simp: oe_volume_inv_def f(3))
qed

lemma count_mset_map: "count (mset (map f xs)) v = length (filter (\<lambda>x. f x = v) xs)"
  by (induction xs) auto

lemma oe_volume_exclusive:
  assumes "oe_volume_inv oe" and "v \<noteq> emptyUniqueVolumeName"
  shows "length (filter (\<lambda>g. fst (fst g) = v) (oe_goroutines oe)) \<le> 1"
proof -
  have "count (image_mset fst (in_flight oe)) v \<le> 1"
    using npo_volume.reach_exclusive [OF assms(1) [unfolded oe_volume_inv_def, THEN conjunct1] _ assms(2)] by simp
  moreover have "image_mset fst (in_flight oe) = mset (map (\<lambda>g. fst (fst g)) (oe_goroutines oe))"
    by (simp add: in_flight_def image_mset.compositionality comp_def)
  ultimately show ?thesis by (simp only: count_mset_map)
qed

end
