(* ===== verification/AD_Actual_State.thy ===== *)
theory AD_Actual_State
  imports Operation_Types
begin

text \<open>
  \<open>pkg/controller/volume/attachdetach/cache/actual_state_of_world.go\<close>: which volumes the attach/detach
  controller believes to be attached to which nodes, and which of them it reports in the node status.
  The Go code writes through maps that it shares with the stored structs; the model stores the updated
  struct back. Each operation runs under the lock of the cache and is one function here.
\<close>

section \<open>State\<close>

record nodeAttachedTo =
  nat_nodeName :: node_name
  nat_mountedByNode :: bool
  nat_mountedByNodeSetCount :: "64 word"
  nat_detachRequestedTime :: time

record attachedVolume =
  avol_volumeName :: unique_volume_name
  avol_spec :: Spec
  avol_nodesAttachedTo :: "(node_name, nodeAttachedTo) gomap"
  avol_devicePath :: string

record nodeToUpdateStatusFor =
  nus_nodeName :: node_name
  nus_statusUpdateNeeded :: bool
  nus_volumesToReportAsAttached :: "(unique_volume_name, unique_volume_name) gomap"

record actualStateOfWorld =
  asw_attachedVolumes :: "(unique_volume_name, attachedVolume) gomap"
  asw_nodesToUpdateStatusFor :: "(node_name, nodeToUpdateStatusFor) gomap"
  asw_volumePluginMgr :: "(string, VolumePlugin) gomap"

text \<open>\<open>AttachedVolume\<close> of this cache embeds the struct of the operation executor.\<close>

record AD_AttachedVolume = AttachedVolume +
  atv_MountedByNode :: bool
  atv_DetachRequestedTime :: time

section \<open>Operations\<close>

definition NewActualStateOfWorld :: "(string, VolumePlugin) gomap \<Rightarrow> actualStateOfWorld" where
  "NewActualStateOfWorld volumePluginMgr =
     \<lparr>asw_attachedVolumes = [], asw_nodesToUpdateStatusFor = [], asw_volumePluginMgr = volumePluginMgr\<rparr>"

definition getNodeAndVolume ::
    "actualStateOfWorld \<Rightarrow> unique_volume_name \<Rightarrow> node_name \<Rightarrow> error + attachedVolume \<times> nodeAttachedTo" where
  "getNodeAndVolume asw volumeName nodeName =
     (case mget (asw_attachedVolumes asw) volumeName of
        Some volumeObj \<Rightarrow>
          (case mget (avol_nodesAttachedTo volumeObj) nodeName of
             Some nodeObj \<Rightarrow> Inr (volumeObj, nodeObj)
           | None \<Rightarrow> Inl (Errorf ''volume is no longer attached to the node'' None))
      | None \<Rightarrow> Inl (Errorf ''volume is no longer attached to the node'' None))"

text \<open>\<open>volumeObj.nodesAttachedTo[nodeName] = nodeObj\<close> for a volume object read from the cache.\<close>

definition store_node ::
    "unique_volume_name \<Rightarrow> attachedVolume \<Rightarrow> node_name \<Rightarrow> nodeAttachedTo \<Rightarrow> actualStateOfWorld \<Rightarrow> actualStateOfWorld" where
  "store_node volumeName volumeObj nodeName nodeObj asw =
     asw\<lparr>asw_attachedVolumes := mput volumeName
       (volumeObj\<lparr>avol_nodesAttachedTo := mput nodeName nodeObj (avol_nodesAttachedTo volumeObj)\<rparr>)
       (asw_attachedVolumes asw)\<rparr>"

definition removeVolumeFromReportAsAttached ::
    "unique_volume_name \<Rightarrow> node_name \<Rightarrow> actualStateOfWorld \<Rightarrow> error option \<times> actualStateOfWorld" where
  "removeVolumeFromReportAsAttached volumeName nodeName asw =
     (case mget (asw_nodesToUpdateStatusFor asw) nodeName of
        Some nodeToUpdate \<Rightarrow>
          if mhas (nus_volumesToReportAsAttached nodeToUpdate) volumeName then
            (None, asw\<lparr>asw_nodesToUpdateStatusFor := mput nodeName
               (nodeToUpdate\<lparr>nus_statusUpdateNeeded := True,
                  nus_volumesToReportAsAttached := mdel volumeName (nus_volumesToReportAsAttached nodeToUpdate)\<rparr>)
               (asw_nodesToUpdateStatusFor asw)\<rparr>)
          else (Some (Errorf ''volume or node does not exist in volumesToReportAsAttached list'' None), asw)
      | None \<Rightarrow> (Some (Errorf ''volume or node does not exist in volumesToReportAsAttached list'' None), asw))"

definition addVolumeToReportAsAttached ::
    "unique_volume_name \<Rightarrow> node_name \<Rightarrow> actualStateOfWorld \<Rightarrow> actualStateOfWorld" where
  "addVolumeToReportAsAttached volumeName nodeName asw =
     (case getNodeAndVolume asw volumeName nodeName of
        Inl _ \<Rightarrow> asw
      | Inr _ \<Rightarrow>
          let fresh = \<lparr>nus_nodeName = nodeName, nus_statusUpdateNeeded = True, nus_volumesToReportAsAttached = []\<rparr>;
              (nodeToUpdate, asw) =
                (case mget (asw_nodesToUpdateStatusFor asw) nodeName of
                   Some nodeToUpdate \<Rightarrow> (nodeToUpdate, asw)
                 | None \<Rightarrow> (fresh, asw\<lparr>asw_nodesToUpdateStatusFor :=
                               mput nodeName fresh (asw_nodesToUpdateStatusFor asw)\<rparr>))
          in if mhas (nus_volumesToReportAsAttached nodeToUpdate) volumeName then asw
             else asw\<lparr>asw_nodesToUpdateStatusFor := mput nodeName
                    (nodeToUpdate\<lparr>nus_statusUpdateNeeded := True,
                       nus_volumesToReportAsAttached :=
                         mput volumeName volumeName (nus_volumesToReportAsAttached nodeToUpdate)\<rparr>)
                    (asw_nodesToUpdateStatusFor asw)\<rparr>)"

definition RemoveVolumeFromReportAsAttached ::
    "unique_volume_name \<Rightarrow> node_name \<Rightarrow> actualStateOfWorld \<Rightarrow> error option \<times> actualStateOfWorld" where
  "RemoveVolumeFromReportAsAttached volumeName nodeName asw =
     removeVolumeFromReportAsAttached volumeName nodeName asw"

definition AddVolumeToReportAsAttached ::
    "unique_volume_name \<Rightarrow> node_name \<Rightarrow> actualStateOfWorld \<Rightarrow> actualStateOfWorld" where
  "AddVolumeToReportAsAttached volumeName nodeName asw = addVolumeToReportAsAttached volumeName nodeName asw"

text \<open>The unique name of an attachable volume, as both caches of the controller compute it.\<close>

definition attachable_volume_name :: "(string, VolumePlugin) gomap \<Rightarrow> Spec \<Rightarrow> error + unique_volume_name" where
  "attachable_volume_name volumePluginMgr volumeSpec =
     (case FindAttachablePluginBySpec volumePluginMgr volumeSpec of
        Inl err \<Rightarrow> Inl (Errorf ''failed to get AttachablePlugin from volumeSpec for volume'' (Some err))
      | Inr None \<Rightarrow> Inl (Errorf ''failed to get AttachablePlugin from volumeSpec for volume'' None)
      | Inr (Some plugin) \<Rightarrow>
          (case GetUniqueVolumeNameFromSpec (Some plugin) volumeSpec of
             Inl err \<Rightarrow> Inl (Errorf ''failed to GetUniqueVolumeNameFromSpec for volumeSpec'' (Some err))
           | Inr volumeName \<Rightarrow> Inr volumeName))"

definition AddVolumeNode ::
    "Spec \<Rightarrow> node_name \<Rightarrow> string \<Rightarrow> actualStateOfWorld \<Rightarrow> (error + unique_volume_name) \<times> actualStateOfWorld" where
  "AddVolumeNode volumeSpec nodeName devicePath asw =
     (case attachable_volume_name (asw_volumePluginMgr asw) volumeSpec of
        Inl err \<Rightarrow> (Inl err, asw)
      | Inr volumeName \<Rightarrow>
          let volumeObj =
                (case mget (asw_attachedVolumes asw) volumeName of
                   None \<Rightarrow> \<lparr>avol_volumeName = volumeName, avol_spec = volumeSpec, avol_nodesAttachedTo = [],
                             avol_devicePath = devicePath\<rparr>
                 | Some volumeObj \<Rightarrow> volumeObj\<lparr>avol_devicePath := devicePath, avol_spec := volumeSpec\<rparr>);
              asw = asw\<lparr>asw_attachedVolumes := mput volumeName volumeObj (asw_attachedVolumes asw)\<rparr>;
              asw =
                (if mhas (avol_nodesAttachedTo volumeObj) nodeName then asw
                 else store_node volumeName volumeObj nodeName
                   \<lparr>nat_nodeName = nodeName, nat_mountedByNode = True, nat_mountedByNodeSetCount = 0,
                    nat_detachRequestedTime = 0\<rparr> asw)
          in (Inr volumeName, addVolumeToReportAsAttached volumeName nodeName asw))"

definition SetVolumeMountedByNode ::
    "unique_volume_name \<Rightarrow> node_name \<Rightarrow> bool \<Rightarrow> actualStateOfWorld \<Rightarrow> error option \<times> actualStateOfWorld" where
  "SetVolumeMountedByNode volumeName nodeName mounted asw =
     (case getNodeAndVolume asw volumeName nodeName of
        Inl err \<Rightarrow> (Some (Errorf ''Failed to SetVolumeMountedByNode with error'' (Some err)), asw)
      | Inr (volumeObj, nodeObj) \<Rightarrow>
          if \<not> mounted \<and> nat_mountedByNodeSetCount nodeObj = 0 then (None, asw)
          else let nodeObj = (if mounted
                     then nodeObj\<lparr>nat_mountedByNodeSetCount := nat_mountedByNodeSetCount nodeObj + 1\<rparr>
                     else nodeObj)
               in (None, store_node volumeName volumeObj nodeName (nodeObj\<lparr>nat_mountedByNode := mounted\<rparr>) asw))"

definition ResetDetachRequestTime ::
    "unique_volume_name \<Rightarrow> node_name \<Rightarrow> actualStateOfWorld \<Rightarrow> actualStateOfWorld" where
  "ResetDetachRequestTime volumeName nodeName asw =
     (case getNodeAndVolume asw volumeName nodeName of
        Inl err \<Rightarrow> asw
      | Inr (volumeObj, nodeObj) \<Rightarrow>
          store_node volumeName volumeObj nodeName (nodeObj\<lparr>nat_detachRequestedTime := 0\<rparr>) asw)"

text \<open>\<open>now\<close> is the value of \<open>time.Now\<close> and \<open>now'\<close> the one \<open>time.Since\<close> reads after it.\<close>

definition SetDetachRequestTime ::
    "time \<Rightarrow> time \<Rightarrow> unique_volume_name \<Rightarrow> node_name \<Rightarrow> actualStateOfWorld \<Rightarrow>
     (error + duration) \<times> actualStateOfWorld" where
  "SetDetachRequestTime now now' volumeName nodeName asw =
     (case getNodeAndVolume asw volumeName nodeName of
        Inl err \<Rightarrow> (Inl (Errorf ''Failed to set detach request time with error'' (Some err)), asw)
      | Inr (volumeObj, nodeObj) \<Rightarrow>
          if time_IsZero (nat_detachRequestedTime nodeObj)
          then let nodeObj = nodeObj\<lparr>nat_detachRequestedTime := now\<rparr>
               in (Inr (time_Since now' (nat_detachRequestedTime nodeObj)),
                   store_node volumeName volumeObj nodeName nodeObj asw)
          else (Inr (time_Since now' (nat_detachRequestedTime nodeObj)), asw))"

definition updateNodeStatusUpdateNeeded :: "node_name \<Rightarrow> bool \<Rightarrow> actualStateOfWorld \<Rightarrow> actualStateOfWorld" where
  "updateNodeStatusUpdateNeeded nodeName needed asw =
     (case mget (asw_nodesToUpdateStatusFor asw) nodeName of
        None \<Rightarrow> asw
      | Some nodeToUpdate \<Rightarrow>
          asw\<lparr>asw_nodesToUpdateStatusFor := mput nodeName (nodeToUpdate\<lparr>nus_statusUpdateNeeded := needed\<rparr>)
             (asw_nodesToUpdateStatusFor asw)\<rparr>)"

definition SetNodeStatusUpdateNeeded :: "node_name \<Rightarrow> actualStateOfWorld \<Rightarrow> actualStateOfWorld" where
  "SetNodeStatusUpdateNeeded nodeName asw = updateNodeStatusUpdateNeeded nodeName True asw"

definition DeleteVolumeNode :: "unique_volume_name \<Rightarrow> node_name \<Rightarrow> actualStateOfWorld \<Rightarrow> actualStateOfWorld" where
  "DeleteVolumeNode volumeName nodeName asw =
     (case mget (asw_attachedVolumes asw) volumeName of
        None \<Rightarrow> asw
      | Some volumeObj \<Rightarrow>
          let volumeObj = (if mhas (avol_nodesAttachedTo volumeObj) nodeName
                 then volumeObj\<lparr>avol_nodesAttachedTo := mdel nodeName (avol_nodesAttachedTo volumeObj)\<rparr>
                 else volumeObj);
              asw = asw\<lparr>asw_attachedVolumes :=
                 (if length (avol_nodesAttachedTo volumeObj) = 0 then mdel volumeName (asw_attachedVolumes asw)
                  else mput volumeName volumeObj (asw_attachedVolumes asw))\<rparr>
          in snd (removeVolumeFromReportAsAttached volumeName nodeName asw))"

definition MarkVolumeAsAttached ::
    "unique_volume_name \<Rightarrow> Spec \<Rightarrow> node_name \<Rightarrow> string \<Rightarrow> actualStateOfWorld \<Rightarrow> error option \<times> actualStateOfWorld" where
  "MarkVolumeAsAttached _ volumeSpec nodeName devicePath asw =
     (case AddVolumeNode volumeSpec nodeName devicePath asw of
        (Inl err, asw') \<Rightarrow> (Some err, asw') | (Inr _, asw') \<Rightarrow> (None, asw'))"

definition MarkVolumeAsDetached :: "unique_volume_name \<Rightarrow> node_name \<Rightarrow> actualStateOfWorld \<Rightarrow> actualStateOfWorld" where
  "MarkVolumeAsDetached volumeName nodeName asw = DeleteVolumeNode volumeName nodeName asw"

definition VolumeNodeExists :: "actualStateOfWorld \<Rightarrow> unique_volume_name \<Rightarrow> node_name \<Rightarrow> bool" where
  "VolumeNodeExists asw volumeName nodeName =
     (case mget (asw_attachedVolumes asw) volumeName of
        Some volumeObj \<Rightarrow> mhas (avol_nodesAttachedTo volumeObj) nodeName
      | None \<Rightarrow> False)"

definition getAttachedVolume :: "attachedVolume \<Rightarrow> nodeAttachedTo \<Rightarrow> AD_AttachedVolume" where
  "getAttachedVolume volumeObj nodeObj =
     \<lparr>atv_VolumeName = avol_volumeName volumeObj, atv_VolumeSpec = avol_spec volumeObj,
      atv_NodeName = nat_nodeName nodeObj, atv_PluginIsAttachable = True,
      atv_DevicePath = avol_devicePath volumeObj, atv_MountedByNode = nat_mountedByNode nodeObj,
      atv_DetachRequestedTime = nat_detachRequestedTime nodeObj\<rparr>"

definition GetAttachedVolumes :: "actualStateOfWorld \<Rightarrow> AD_AttachedVolume list" where
  "GetAttachedVolumes asw =
     concat (map (\<lambda>(_, volumeObj). map (\<lambda>(_, nodeObj). getAttachedVolume volumeObj nodeObj)
       (avol_nodesAttachedTo volumeObj)) (asw_attachedVolumes asw))"

definition GetAttachedVolumesForNode :: "actualStateOfWorld \<Rightarrow> node_name \<Rightarrow> AD_AttachedVolume list" where
  "GetAttachedVolumesForNode asw nodeName =
     concat (map (\<lambda>(_, volumeObj). map (\<lambda>(_, nodeObj). getAttachedVolume volumeObj nodeObj)
       (filter (\<lambda>(actualNodeName, _). actualNodeName = nodeName) (avol_nodesAttachedTo volumeObj)))
       (asw_attachedVolumes asw))"

definition GetAttachedVolumesPerNode :: "actualStateOfWorld \<Rightarrow> (node_name, AttachedVolume list) gomap" where
  "GetAttachedVolumesPerNode asw =
     fold (\<lambda>(_, volumeObj) acc.
        fold (\<lambda>(nodeName, nodeObj) acc.
          let volumes = (case mget acc nodeName of Some vs \<Rightarrow> vs | None \<Rightarrow> [])
          in mput nodeName (volumes @ [AttachedVolume.truncate (getAttachedVolume volumeObj nodeObj)]) acc)
        (avol_nodesAttachedTo volumeObj) acc)
     (asw_attachedVolumes asw) []"

definition report_of :: "actualStateOfWorld \<Rightarrow> nodeToUpdateStatusFor \<Rightarrow> v1_AttachedVolume list" where
  "report_of asw nodeToUpdateObj =
     map (\<lambda>(_, volume). \<lparr>av_Name = volume,
        av_DevicePath = (case mget (asw_attachedVolumes asw) volume of
           Some volumeObj \<Rightarrow> avol_devicePath volumeObj | None \<Rightarrow> '''')\<rparr>)
     (nus_volumesToReportAsAttached nodeToUpdateObj)"

definition GetVolumesToReportAttached ::
    "actualStateOfWorld \<Rightarrow> (node_name, v1_AttachedVolume list) gomap \<times> actualStateOfWorld" where
  "GetVolumesToReportAttached asw =
     fold (\<lambda>(nodeName, nodeToUpdateObj) (volumesToReportAttached, asw).
        (if nus_statusUpdateNeeded nodeToUpdateObj
         then mput (nus_nodeName nodeToUpdateObj) (report_of asw nodeToUpdateObj) volumesToReportAttached
         else volumesToReportAttached,
         updateNodeStatusUpdateNeeded nodeName False asw))
     (asw_nodesToUpdateStatusFor asw) ([], asw)"

definition GetNodesToUpdateStatusFor :: "actualStateOfWorld \<Rightarrow> (node_name, nodeToUpdateStatusFor) gomap" where
  "GetNodesToUpdateStatusFor asw = asw_nodesToUpdateStatusFor asw"

section \<open>Invariant\<close>

text \<open>Is the volume reported as attached to the node?\<close>

definition reported :: "actualStateOfWorld \<Rightarrow> unique_volume_name \<Rightarrow> node_name \<Rightarrow> bool" where
  "reported asw volumeName nodeName =
     (case mget (asw_nodesToUpdateStatusFor asw) nodeName of
        Some o' \<Rightarrow> mhas (nus_volumesToReportAsAttached o') volumeName | None \<Rightarrow> False)"

definition vol_ok :: "unique_volume_name \<Rightarrow> attachedVolume \<Rightarrow> bool" where
  "vol_ok v volumeObj \<longleftrightarrow> avol_volumeName volumeObj = v \<and> mwf (avol_nodesAttachedTo volumeObj) \<and>
     avol_nodesAttachedTo volumeObj \<noteq> [] \<and>
     mall (\<lambda>n nodeObj. nat_nodeName nodeObj = n) (avol_nodesAttachedTo volumeObj)"

definition nus_ok :: "node_name \<Rightarrow> nodeToUpdateStatusFor \<Rightarrow> bool" where
  "nus_ok n o' \<longleftrightarrow> nus_nodeName o' = n \<and> mwf (nus_volumesToReportAsAttached o') \<and>
     mall (\<lambda>v w. w = v) (nus_volumesToReportAsAttached o')"

definition asw_shape :: "actualStateOfWorld \<Rightarrow> bool" where
  "asw_shape asw \<longleftrightarrow> mwf (asw_attachedVolumes asw) \<and> mall vol_ok (asw_attachedVolumes asw) \<and>
     mwf (asw_nodesToUpdateStatusFor asw) \<and> mall nus_ok (asw_nodesToUpdateStatusFor asw)"

definition asw_inv :: "actualStateOfWorld \<Rightarrow> bool" where
  "asw_inv asw \<longleftrightarrow> asw_shape asw \<and> (\<forall>v n. reported asw v n \<longrightarrow> VolumeNodeExists asw v n)"

text \<open>The cache seen from outside: what is attached and what is reported.\<close>

definition attached :: "actualStateOfWorld \<Rightarrow> (unique_volume_name \<times> node_name) set" where
  "attached asw = {(v, n). VolumeNodeExists asw v n}"

definition reported_set :: "actualStateOfWorld \<Rightarrow> (unique_volume_name \<times> node_name) set" where
  "reported_set asw = {(v, n). reported asw v n}"

lemma getNodeAndVolume_Inr:
  "getNodeAndVolume asw v n = Inr (volumeObj, nodeObj) \<longleftrightarrow>
     mget (asw_attachedVolumes asw) v = Some volumeObj \<and> mget (avol_nodesAttachedTo volumeObj) n = Some nodeObj"
  by (auto simp: getNodeAndVolume_def split: option.splits)

lemma getNodeAndVolume_exists:
  "VolumeNodeExists asw v n \<longleftrightarrow> (\<exists>volumeObj nodeObj. getNodeAndVolume asw v n = Inr (volumeObj, nodeObj))"
  unfolding getNodeAndVolume_Inr by (auto simp: VolumeNodeExists_def mhas_def split: option.splits)

lemma getNodeAndVolume_missing: "getNodeAndVolume asw v n = Inl e \<Longrightarrow> \<not> VolumeNodeExists asw v n"
  by (simp add: getNodeAndVolume_exists)

text \<open>Updates of the two maps that keep the other one.\<close>

lemma store_node_exists:
  "mget (asw_attachedVolumes asw) v = Some volumeObj \<Longrightarrow>
   VolumeNodeExists (store_node v volumeObj n nodeObj asw) v' n' \<longleftrightarrow>
     (v', n') = (v, n) \<or> VolumeNodeExists asw v' n'"
  by (auto simp: store_node_def VolumeNodeExists_def gm.get_put)

lemma store_node_reported [simp]: "reported (store_node v volumeObj n nodeObj asw) = reported asw"
  by (simp add: store_node_def reported_def fun_eq_iff)

lemma store_node_mgr [simp]:
  "asw_volumePluginMgr (store_node v volumeObj n nodeObj asw) = asw_volumePluginMgr asw"
  "asw_nodesToUpdateStatusFor (store_node v volumeObj n nodeObj asw) = asw_nodesToUpdateStatusFor asw"
  by (simp_all add: store_node_def)

lemma store_node_shape:
  assumes "asw_shape asw" and "avol_volumeName volumeObj = v" and "mwf (avol_nodesAttachedTo volumeObj)"
    and "mall (\<lambda>n nodeObj. nat_nodeName nodeObj = n) (avol_nodesAttachedTo volumeObj)"
    and "nat_nodeName nodeObj = n"
  shows "asw_shape (store_node v volumeObj n nodeObj asw)"
  using assms by (auto simp: asw_shape_def store_node_def vol_ok_def)

lemma vol_ok_get: "asw_shape asw \<Longrightarrow> mget (asw_attachedVolumes asw) v = Some volumeObj \<Longrightarrow> vol_ok v volumeObj"
  by (auto simp: asw_shape_def dest: mall_get)

lemma nus_ok_get: "asw_shape asw \<Longrightarrow> mget (asw_nodesToUpdateStatusFor asw) n = Some o' \<Longrightarrow> nus_ok n o'"
  by (auto simp: asw_shape_def dest: mall_get)

text \<open>An update of the entry of an attached volume that keeps the node name.\<close>

lemma store_node_inv:
  assumes "asw_inv asw" and "getNodeAndVolume asw v n = Inr (volumeObj, nodeObj)"
    and "nat_nodeName nodeObj' = nat_nodeName nodeObj"
  shows "asw_inv (store_node v volumeObj n nodeObj' asw)"
    and "VolumeNodeExists (store_node v volumeObj n nodeObj' asw) = VolumeNodeExists asw"
proof -
  have sh: "asw_shape asw" using assms(1) by (simp add: asw_inv_def)
  have get: "mget (asw_attachedVolumes asw) v = Some volumeObj" "mget (avol_nodesAttachedTo volumeObj) n = Some nodeObj"
    using assms(2) by (simp_all add: getNodeAndVolume_Inr)
  have "VolumeNodeExists asw v n" using assms(2) by (auto simp: getNodeAndVolume_exists)
  then show ex: "VolumeNodeExists (store_node v volumeObj n nodeObj' asw) = VolumeNodeExists asw"
    by (auto simp: store_node_exists [OF get(1)] fun_eq_iff)
  have "asw_shape (store_node v volumeObj n nodeObj' asw)"
    using vol_ok_get [OF sh get(1)] get(2) assms(3)
    by (intro store_node_shape [OF sh]) (auto simp: vol_ok_def dest: mall_get)
  then show "asw_inv (store_node v volumeObj n nodeObj' asw)"
    using assms(1) ex by (simp add: asw_inv_def)
qed

lemma remove_report:
  "VolumeNodeExists (snd (removeVolumeFromReportAsAttached v n asw)) = VolumeNodeExists asw"
  "reported (snd (removeVolumeFromReportAsAttached v n asw)) v' n' \<longleftrightarrow> (v', n') \<noteq> (v, n) \<and> reported asw v' n'"
  "fst (removeVolumeFromReportAsAttached v n asw) = None \<longleftrightarrow> reported asw v n"
  "asw_shape asw \<Longrightarrow> asw_shape (snd (removeVolumeFromReportAsAttached v n asw))"
  by (auto simp: removeVolumeFromReportAsAttached_def reported_def VolumeNodeExists_def gm.get_put fun_eq_iff
      asw_shape_def nus_ok_def split: option.splits dest: mall_get)

lemma add_report:
  "VolumeNodeExists (addVolumeToReportAsAttached v n asw) = VolumeNodeExists asw"
  "reported (addVolumeToReportAsAttached v n asw) v' n' \<longleftrightarrow>
     reported asw v' n' \<or> (v', n') = (v, n) \<and> VolumeNodeExists asw v n"
  "asw_shape asw \<Longrightarrow> asw_shape (addVolumeToReportAsAttached v n asw)"
proof -
  show "VolumeNodeExists (addVolumeToReportAsAttached v n asw) = VolumeNodeExists asw"
    by (auto simp: addVolumeToReportAsAttached_def VolumeNodeExists_def Let_def fun_eq_iff
        split: option.splits sum.splits)
  show "reported (addVolumeToReportAsAttached v n asw) v' n' \<longleftrightarrow>
     reported asw v' n' \<or> (v', n') = (v, n) \<and> VolumeNodeExists asw v n"
    by (auto simp: addVolumeToReportAsAttached_def reported_def Let_def gm.get_put getNodeAndVolume_exists
        split: option.splits sum.splits)
  show "asw_shape (addVolumeToReportAsAttached v n asw)" if "asw_shape asw"
    using that by (auto simp: addVolumeToReportAsAttached_def asw_shape_def Let_def nus_ok_def
        split: option.splits sum.splits dest: mall_get)
qed

lemma update_needed:
  "VolumeNodeExists (updateNodeStatusUpdateNeeded n b asw) = VolumeNodeExists asw"
  "reported (updateNodeStatusUpdateNeeded n b asw) = reported asw"
  "asw_shape asw \<Longrightarrow> asw_shape (updateNodeStatusUpdateNeeded n b asw)"
  by (auto simp: updateNodeStatusUpdateNeeded_def reported_def VolumeNodeExists_def gm.get_put fun_eq_iff
      asw_shape_def nus_ok_def split: option.splits dest: mall_get)

lemmas report_facts = remove_report add_report update_needed

section \<open>Sequences of calls\<close>

text \<open>The calls that change the cache, in the order in which they take its lock.\<close>

datatype asw_call =
    AddVolumeNode_call Spec node_name string
  | SetVolumeMountedByNode_call unique_volume_name node_name bool
  | ResetDetachRequestTime_call unique_volume_name node_name
  | SetDetachRequestTime_call time time unique_volume_name node_name
  | RemoveVolumeFromReportAsAttached_call unique_volume_name node_name
  | AddVolumeToReportAsAttached_call unique_volume_name node_name
  | SetNodeStatusUpdateNeeded_call node_name
  | DeleteVolumeNode_call unique_volume_name node_name
  | GetVolumesToReportAttached_call

fun asw_step :: "asw_call \<Rightarrow> actualStateOfWorld \<Rightarrow> actualStateOfWorld" where
  "asw_step (AddVolumeNode_call spec n dev) asw = snd (AddVolumeNode spec n dev asw)"
| "asw_step (SetVolumeMountedByNode_call v n b) asw = snd (SetVolumeMountedByNode v n b asw)"
| "asw_step (ResetDetachRequestTime_call v n) asw = ResetDetachRequestTime v n asw"
| "asw_step (SetDetachRequestTime_call now now' v n) asw = snd (SetDetachRequestTime now now' v n asw)"
| "asw_step (RemoveVolumeFromReportAsAttached_call v n) asw = snd (RemoveVolumeFromReportAsAttached v n asw)"
| "asw_step (AddVolumeToReportAsAttached_call v n) asw = AddVolumeToReportAsAttached v n asw"
| "asw_step (SetNodeStatusUpdateNeeded_call n) asw = SetNodeStatusUpdateNeeded n asw"
| "asw_step (DeleteVolumeNode_call v n) asw = DeleteVolumeNode v n asw"
| "asw_step GetVolumesToReportAttached_call asw = snd (GetVolumesToReportAttached asw)"

text \<open>What the calls mean for the sets of attached and of reported pairs.\<close>

fun asw_spec ::
    "(string, VolumePlugin) gomap \<Rightarrow> asw_call \<Rightarrow>
     (unique_volume_name \<times> node_name) set \<times> (unique_volume_name \<times> node_name) set \<Rightarrow>
     (unique_volume_name \<times> node_name) set \<times> (unique_volume_name \<times> node_name) set" where
  "asw_spec mgr (AddVolumeNode_call spec n _) (A, R) =
     (case attachable_volume_name mgr spec of Inl _ \<Rightarrow> (A, R) | Inr v \<Rightarrow> (insert (v, n) A, insert (v, n) R))"
| "asw_spec mgr (DeleteVolumeNode_call v n) (A, R) = (A - {(v, n)}, R - {(v, n)})"
| "asw_spec mgr (RemoveVolumeFromReportAsAttached_call v n) (A, R) = (A, R - {(v, n)})"
| "asw_spec mgr (AddVolumeToReportAsAttached_call v n) (A, R) = (A, R \<union> ({(v, n)} \<inter> A))"
| "asw_spec mgr _ (A, R) = (A, R)"

lemma AddVolumeNode_Inl:
  "attachable_volume_name (asw_volumePluginMgr asw) spec = Inl e \<Longrightarrow> AddVolumeNode spec n dev asw = (Inl e, asw)"
  by (simp add: AddVolumeNode_def)

lemma AddVolumeNode_Inr:
  assumes "asw_inv asw" and "attachable_volume_name (asw_volumePluginMgr asw) spec = Inr v"
  shows "fst (AddVolumeNode spec n dev asw) = Inr v"
    and "asw_inv (snd (AddVolumeNode spec n dev asw))"
    and "VolumeNodeExists (snd (AddVolumeNode spec n dev asw)) v' n' \<longleftrightarrow> (v', n') = (v, n) \<or> VolumeNodeExists asw v' n'"
    and "reported (snd (AddVolumeNode spec n dev asw)) v' n' \<longleftrightarrow> (v', n') = (v, n) \<or> reported asw v' n'"
proof -
  have sh: "asw_shape asw" using assms(1) by (simp add: asw_inv_def)
  define volumeObj where "volumeObj = (case mget (asw_attachedVolumes asw) v of
      None \<Rightarrow> \<lparr>avol_volumeName = v, avol_spec = spec, avol_nodesAttachedTo = [], avol_devicePath = dev\<rparr>
    | Some volumeObj \<Rightarrow> volumeObj\<lparr>avol_devicePath := dev, avol_spec := spec\<rparr>)"
  define asw1 where "asw1 = asw\<lparr>asw_attachedVolumes := mput v volumeObj (asw_attachedVolumes asw)\<rparr>"
  define asw2 where "asw2 = (if mhas (avol_nodesAttachedTo volumeObj) n then asw1
     else store_node v volumeObj n \<lparr>nat_nodeName = n, nat_mountedByNode = True, nat_mountedByNodeSetCount = 0,
        nat_detachRequestedTime = 0\<rparr> asw1)"
  have add: "AddVolumeNode spec n dev asw = (Inr v, addVolumeToReportAsAttached v n asw2)"
    unfolding AddVolumeNode_def assms(2) sum.case Let_def volumeObj_def [symmetric]
      asw1_def [symmetric] asw2_def [symmetric] ..
  have vo: "avol_volumeName volumeObj = v" "mwf (avol_nodesAttachedTo volumeObj)"
      "mall (\<lambda>n nodeObj. nat_nodeName nodeObj = n) (avol_nodesAttachedTo volumeObj)"
    using vol_ok_get [OF sh, of v] by (auto simp: volumeObj_def vol_ok_def split: option.splits)
  have ex1: "VolumeNodeExists asw1 v' n' \<longleftrightarrow> VolumeNodeExists asw v' n'" for v' n'
    by (auto simp: asw1_def volumeObj_def VolumeNodeExists_def gm.get_put split: option.splits)
  have ex2: "VolumeNodeExists asw2 v' n' \<longleftrightarrow> (v', n') = (v, n) \<or> VolumeNodeExists asw v' n'" for v' n'
  proof -
    have g1: "mget (asw_attachedVolumes asw1) v = Some volumeObj" by (simp add: asw1_def)
    then have "VolumeNodeExists asw v n" if "mhas (avol_nodesAttachedTo volumeObj) n"
      using ex1 [of v n] that by (simp add: VolumeNodeExists_def)
    then show ?thesis by (auto simp: asw2_def ex1 store_node_exists [OF g1])
  qed
  have rep: "reported asw2 = reported asw"
    by (simp add: asw2_def asw1_def reported_def fun_eq_iff store_node_def)
  have "store_node v volumeObj n nodeObj asw1 = store_node v volumeObj n nodeObj asw" for nodeObj
    by (simp add: asw1_def store_node_def)
  then have sh2: "asw_shape asw2"
  proof (cases "mhas (avol_nodesAttachedTo volumeObj) n")
    case True
    then have "avol_nodesAttachedTo volumeObj \<noteq> []" by auto
    with True sh vo show ?thesis by (auto simp: asw2_def asw1_def asw_shape_def vol_ok_def)
  next
    case False
    with \<open>\<And>nodeObj. store_node v volumeObj n nodeObj asw1 = store_node v volumeObj n nodeObj asw\<close>
    show ?thesis by (simp add: asw2_def store_node_shape [OF sh vo])
  qed
  show "fst (AddVolumeNode spec n dev asw) = Inr v" by (simp add: add)
  show "VolumeNodeExists (snd (AddVolumeNode spec n dev asw)) v' n' \<longleftrightarrow> (v', n') = (v, n) \<or> VolumeNodeExists asw v' n'"
    by (simp add: add add_report ex2)
  show "reported (snd (AddVolumeNode spec n dev asw)) v' n' \<longleftrightarrow> (v', n') = (v, n) \<or> reported asw v' n'"
    by (auto simp: add add_report ex2 rep)
  show "asw_inv (snd (AddVolumeNode spec n dev asw))"
    using assms(1) add_report(3) [OF sh2] by (auto simp: add add_report ex2 rep asw_inv_def)
qed

lemma DeleteVolumeNode_absent:
  assumes "asw_inv asw" and "mget (asw_attachedVolumes asw) v = None"
  shows "\<not> VolumeNodeExists asw v n" and "\<not> reported asw v n"
proof -
  show "\<not> VolumeNodeExists asw v n" using assms(2) by (simp add: VolumeNodeExists_def)
  then show "\<not> reported asw v n" using assms(1) by (auto simp: asw_inv_def)
qed

lemma DeleteVolumeNode_facts:
  assumes "asw_inv asw"
  shows "asw_inv (DeleteVolumeNode v n asw)"
    and "VolumeNodeExists (DeleteVolumeNode v n asw) v' n' \<longleftrightarrow> (v', n') \<noteq> (v, n) \<and> VolumeNodeExists asw v' n'"
    and "reported (DeleteVolumeNode v n asw) v' n' \<longleftrightarrow> (v', n') \<noteq> (v, n) \<and> reported asw v' n'"
proof -
  have sh: "asw_shape asw" using assms by (simp add: asw_inv_def)
  have "asw_inv (DeleteVolumeNode v n asw) \<and>
    (\<forall>v' n'. VolumeNodeExists (DeleteVolumeNode v n asw) v' n' \<longleftrightarrow> (v', n') \<noteq> (v, n) \<and> VolumeNodeExists asw v' n') \<and>
    (\<forall>v' n'. reported (DeleteVolumeNode v n asw) v' n' \<longleftrightarrow> (v', n') \<noteq> (v, n) \<and> reported asw v' n')"
  proof (cases "mget (asw_attachedVolumes asw) v")
    case None
    with DeleteVolumeNode_absent [OF assms None] assms show ?thesis
      by (auto simp: DeleteVolumeNode_def)
  next
    case (Some volumeObj)
    define volumeObj' where "volumeObj' = (if mhas (avol_nodesAttachedTo volumeObj) n
       then volumeObj\<lparr>avol_nodesAttachedTo := mdel n (avol_nodesAttachedTo volumeObj)\<rparr> else volumeObj)"
    define asw1 where "asw1 = asw\<lparr>asw_attachedVolumes :=
       (if length (avol_nodesAttachedTo volumeObj') = 0 then mdel v (asw_attachedVolumes asw)
        else mput v volumeObj' (asw_attachedVolumes asw))\<rparr>"
    have del: "DeleteVolumeNode v n asw = snd (removeVolumeFromReportAsAttached v n asw1)"
      unfolding DeleteVolumeNode_def Some option.case Let_def volumeObj'_def [symmetric] asw1_def [symmetric] ..
    have has: "mhas (avol_nodesAttachedTo volumeObj') n' \<longleftrightarrow> n' \<noteq> n \<and> mhas (avol_nodesAttachedTo volumeObj) n'" for n'
      by (auto simp: volumeObj'_def)
    have empty: "avol_nodesAttachedTo volumeObj' = [] \<longleftrightarrow> (\<forall>n'. \<not> mhas (avol_nodesAttachedTo volumeObj') n')"
      by (rule mempty_iff)
    have ex: "VolumeNodeExists asw1 v' n' \<longleftrightarrow> (v', n') \<noteq> (v, n) \<and> VolumeNodeExists asw v' n'" for v' n'
      using Some empty has by (auto simp: asw1_def VolumeNodeExists_def gm.get_put gm.get_del)
    have rep: "reported asw1 = reported asw" by (simp add: asw1_def reported_def fun_eq_iff)
    have ok: "avol_volumeName volumeObj' = v" "mwf (avol_nodesAttachedTo volumeObj')"
        "mall (\<lambda>n nodeObj. nat_nodeName nodeObj = n) (avol_nodesAttachedTo volumeObj')"
      using vol_ok_get [OF sh Some] by (auto simp: vol_ok_def volumeObj'_def)
    have sh1: "asw_shape asw1"
      using sh ok by (auto simp: asw1_def asw_shape_def vol_ok_def)
    show ?thesis
      using assms remove_report(4) [OF sh1] by (auto simp: del remove_report ex rep asw_inv_def)
  qed
  then show "asw_inv (DeleteVolumeNode v n asw)"
    and "VolumeNodeExists (DeleteVolumeNode v n asw) v' n' \<longleftrightarrow> (v', n') \<noteq> (v, n) \<and> VolumeNodeExists asw v' n'"
    and "reported (DeleteVolumeNode v n asw) v' n' \<longleftrightarrow> (v', n') \<noteq> (v, n) \<and> reported asw v' n'" by auto
qed

lemma mark_inv:
  assumes "asw_inv asw"
  shows "asw_inv (snd (SetVolumeMountedByNode v n b asw))"
    and "asw_inv (ResetDetachRequestTime v n asw)"
    and "asw_inv (snd (SetDetachRequestTime now now' v n asw))"
  using store_node_inv(1) [OF assms]
  by (auto simp: SetVolumeMountedByNode_def ResetDetachRequestTime_def SetDetachRequestTime_def assms Let_def
      split: sum.splits)

lemma mark_exists:
  assumes "asw_inv asw"
  shows "VolumeNodeExists (snd (SetVolumeMountedByNode v n b asw)) = VolumeNodeExists asw"
    and "VolumeNodeExists (ResetDetachRequestTime v n asw) = VolumeNodeExists asw"
    and "VolumeNodeExists (snd (SetDetachRequestTime now now' v n asw)) = VolumeNodeExists asw"
  using store_node_inv(2) [OF assms]
  by (auto simp: SetVolumeMountedByNode_def ResetDetachRequestTime_def SetDetachRequestTime_def Let_def
      split: sum.splits)

lemma mark_reported [simp]:
  "reported (snd (SetVolumeMountedByNode v n b asw)) = reported asw"
  "reported (ResetDetachRequestTime v n asw) = reported asw"
  "reported (snd (SetDetachRequestTime now now' v n asw)) = reported asw"
  by (auto simp: SetVolumeMountedByNode_def ResetDetachRequestTime_def SetDetachRequestTime_def Let_def
      split: sum.splits)

subsection \<open>Collecting the reports\<close>

lemma report_of_flag [simp]: "report_of (updateNodeStatusUpdateNeeded n b asw) o' = report_of asw o'"
  by (auto simp: report_of_def updateNodeStatusUpdateNeeded_def split: option.splits)

definition report_step ::
    "node_name \<times> nodeToUpdateStatusFor \<Rightarrow> (node_name, v1_AttachedVolume list) gomap \<times> actualStateOfWorld \<Rightarrow>
     (node_name, v1_AttachedVolume list) gomap \<times> actualStateOfWorld" where
  "report_step = (\<lambda>(nodeName, nodeToUpdateObj) (volumesToReportAttached, asw).
     (if nus_statusUpdateNeeded nodeToUpdateObj
      then mput (nus_nodeName nodeToUpdateObj) (report_of asw nodeToUpdateObj) volumesToReportAttached
      else volumesToReportAttached,
      updateNodeStatusUpdateNeeded nodeName False asw))"

lemma GetVolumesToReportAttached_fold:
  "GetVolumesToReportAttached asw = fold report_step (asw_nodesToUpdateStatusFor asw) ([], asw)"
  by (simp add: GetVolumesToReportAttached_def report_step_def)

lemma report_fold_state:
  "snd (fold report_step es (acc, asw)) = fold (\<lambda>(n, _). updateNodeStatusUpdateNeeded n False) es asw"
  by (induction es arbitrary: acc asw) (auto simp: report_step_def split: prod.splits)

lemma report_fold_map:
  "mwf es \<Longrightarrow> mall nus_ok es \<Longrightarrow>
   mget (fst (fold report_step es (acc, asw))) n =
     (case mget es n of
        Some o' \<Rightarrow> if nus_statusUpdateNeeded o' then Some (report_of asw o') else mget acc n
      | None \<Rightarrow> mget acc n)"
proof (induction es arbitrary: acc asw)
  case Nil
  then show ?case by simp
next
  case (Cons e es)
  obtain k o' where e: "e = (k, o')" by (cases e)
  have ok: "nus_nodeName o' = k" "mall nus_ok es" "mwf es" "mget es k = None"
    using Cons.prems mall_Cons [of k o' es nus_ok] nus_ok_def [of k o'] unfolding e by simp_all
  let ?acc = "if nus_statusUpdateNeeded o' then mput k (report_of asw o') acc else acc"
  have "fold report_step (e # es) (acc, asw) = fold report_step es (?acc, updateNodeStatusUpdateNeeded k False asw)"
    by (simp add: e report_step_def ok(1))
  then show ?case
    using Cons.IH [OF ok(3,2), of ?acc "updateNodeStatusUpdateNeeded k False asw"] ok(4)
    by (cases "n = k"; cases "mget es n") (simp_all add: e)
qed

lemma flags_fold:
  "VolumeNodeExists (fold (\<lambda>(n, _). updateNodeStatusUpdateNeeded n False) es asw) = VolumeNodeExists asw"
  "reported (fold (\<lambda>(n, _). updateNodeStatusUpdateNeeded n False) es asw) = reported asw"
  "asw_shape asw \<Longrightarrow> asw_shape (fold (\<lambda>(n, _). updateNodeStatusUpdateNeeded n False) es asw)"
  by (induction es arbitrary: asw) (auto simp: update_needed)

lemma flags_fold_get:
  "mget (asw_nodesToUpdateStatusFor (fold (\<lambda>(n, _). updateNodeStatusUpdateNeeded n False) es asw)) n =
     map_option (\<lambda>o'. if n \<in> fst ` set es then o'\<lparr>nus_statusUpdateNeeded := False\<rparr> else o')
       (mget (asw_nodesToUpdateStatusFor asw) n)"
proof (induction es arbitrary: asw)
  case Nil
  then show ?case by (simp add: option.map_ident)
next
  case (Cons e es)
  obtain k o' where e: "e = (k, o')" by (cases e)
  have "mget (asw_nodesToUpdateStatusFor (updateNodeStatusUpdateNeeded k False asw)) n =
      map_option (\<lambda>o'. if n = k then o'\<lparr>nus_statusUpdateNeeded := False\<rparr> else o')
        (mget (asw_nodesToUpdateStatusFor asw) n)"
    by (cases "mget (asw_nodesToUpdateStatusFor asw) n"; cases "mget (asw_nodesToUpdateStatusFor asw) k")
      (auto simp: updateNodeStatusUpdateNeeded_def gm.get_put)
  then show ?case
    using Cons.IH [of "updateNodeStatusUpdateNeeded k False asw"]
    by (cases "mget (asw_nodesToUpdateStatusFor asw) n") (auto simp: e)
qed

lemma GetVolumesToReportAttached_facts:
  assumes "asw_inv asw"
  shows "asw_inv (snd (GetVolumesToReportAttached asw))"
    and "VolumeNodeExists (snd (GetVolumesToReportAttached asw)) = VolumeNodeExists asw"
    and "reported (snd (GetVolumesToReportAttached asw)) = reported asw"
    and "mget (asw_nodesToUpdateStatusFor (snd (GetVolumesToReportAttached asw))) n =
      map_option (\<lambda>o'. o'\<lparr>nus_statusUpdateNeeded := False\<rparr>) (mget (asw_nodesToUpdateStatusFor asw) n)"
proof -
  show "VolumeNodeExists (snd (GetVolumesToReportAttached asw)) = VolumeNodeExists asw"
    and "reported (snd (GetVolumesToReportAttached asw)) = reported asw"
    and "asw_inv (snd (GetVolumesToReportAttached asw))"
    using assms by (simp_all add: GetVolumesToReportAttached_fold report_fold_state flags_fold asw_inv_def)
  show "mget (asw_nodesToUpdateStatusFor (snd (GetVolumesToReportAttached asw))) n =
      map_option (\<lambda>o'. o'\<lparr>nus_statusUpdateNeeded := False\<rparr>) (mget (asw_nodesToUpdateStatusFor asw) n)"
    by (cases "mget (asw_nodesToUpdateStatusFor asw) n")
      (auto simp: GetVolumesToReportAttached_fold report_fold_state flags_fold_get dest: mget_SomeD
        intro: rev_image_eqI)
qed

lemma report_inv:
  assumes "asw_inv asw"
  shows "asw_inv (snd (removeVolumeFromReportAsAttached v n asw))"
    and "asw_inv (addVolumeToReportAsAttached v n asw)"
    and "asw_inv (updateNodeStatusUpdateNeeded n b asw)"
  using assms by (auto simp: asw_inv_def report_facts)

lemma asw_step_inv: "asw_inv asw \<Longrightarrow> asw_inv (asw_step c asw)"
proof (cases c)
  case (AddVolumeNode_call spec n dev)
  assume "asw_inv asw"
  then show ?thesis
    using AddVolumeNode_Inr(2) AddVolumeNode_Inl
    by (cases "attachable_volume_name (asw_volumePluginMgr asw) spec") (auto simp: AddVolumeNode_call)
qed (auto simp: mark_inv DeleteVolumeNode_facts GetVolumesToReportAttached_facts report_inv
    RemoveVolumeFromReportAsAttached_def AddVolumeToReportAsAttached_def SetNodeStatusUpdateNeeded_def)

lemma flags_fold_mgr:
  "asw_volumePluginMgr (fold (\<lambda>(n, _). updateNodeStatusUpdateNeeded n False) es asw) = asw_volumePluginMgr asw"
  by (induction es arbitrary: asw) (auto simp: updateNodeStatusUpdateNeeded_def split: option.splits)

lemma report_mgr [simp]:
  "asw_volumePluginMgr (snd (removeVolumeFromReportAsAttached v n asw)) = asw_volumePluginMgr asw"
  "asw_volumePluginMgr (addVolumeToReportAsAttached v n asw) = asw_volumePluginMgr asw"
  "asw_volumePluginMgr (updateNodeStatusUpdateNeeded n b asw) = asw_volumePluginMgr asw"
  by (auto simp: removeVolumeFromReportAsAttached_def addVolumeToReportAsAttached_def
      updateNodeStatusUpdateNeeded_def Let_def split: option.splits sum.splits)

lemma asw_step_mgr [simp]: "asw_volumePluginMgr (asw_step c asw) = asw_volumePluginMgr asw"
  by (cases c) (auto simp: AddVolumeNode_def SetVolumeMountedByNode_def ResetDetachRequestTime_def
      SetDetachRequestTime_def DeleteVolumeNode_def RemoveVolumeFromReportAsAttached_def
      AddVolumeToReportAsAttached_def SetNodeStatusUpdateNeeded_def GetVolumesToReportAttached_fold
      report_fold_state flags_fold_mgr Let_def split: sum.splits option.splits)

lemma asw_step_spec:
  assumes "asw_inv asw"
  shows "(attached (asw_step c asw), reported_set (asw_step c asw)) =
    asw_spec (asw_volumePluginMgr asw) c (attached asw, reported_set asw)"
proof (cases c)
  case (AddVolumeNode_call spec n dev)
  then show ?thesis
    using AddVolumeNode_Inr(3,4) [OF assms] AddVolumeNode_Inl
    by (cases "attachable_volume_name (asw_volumePluginMgr asw) spec") (auto simp: attached_def reported_set_def)
qed (auto simp: attached_def reported_set_def mark_exists [OF assms] DeleteVolumeNode_facts [OF assms]
    GetVolumesToReportAttached_facts [OF assms] report_facts
    RemoveVolumeFromReportAsAttached_def AddVolumeToReportAsAttached_def SetNodeStatusUpdateNeeded_def)

lemma asw_inv_new [simp]: "asw_inv (NewActualStateOfWorld mgr)"
  by (simp add: asw_inv_def asw_shape_def NewActualStateOfWorld_def reported_def)

lemma asw_run:
  "asw_inv asw \<Longrightarrow> asw_inv (fold asw_step cs asw) \<and>
   (attached (fold asw_step cs asw), reported_set (fold asw_step cs asw)) =
     fold (asw_spec (asw_volumePluginMgr asw)) cs (attached asw, reported_set asw)"
proof (induction cs arbitrary: asw)
  case Nil
  then show ?case by simp
next
  case (Cons c cs)
  then show ?case using Cons.IH [OF asw_step_inv [OF Cons.prems]] asw_step_spec [OF Cons.prems, of c] by simp
qed

section \<open>The mounted flag\<close>

definition node_entry :: "actualStateOfWorld \<Rightarrow> unique_volume_name \<Rightarrow> node_name \<Rightarrow> nodeAttachedTo option" where
  "node_entry asw v n = (case getNodeAndVolume asw v n of Inl _ \<Rightarrow> None | Inr (_, nodeObj) \<Rightarrow> Some nodeObj)"

definition seen_mounted :: "nodeAttachedTo option \<Rightarrow> bool" where
  "seen_mounted e = (case e of None \<Rightarrow> False
     | Some nodeObj \<Rightarrow> nat_mountedByNodeSetCount nodeObj \<noteq> 0 \<or> \<not> nat_mountedByNode nodeObj)"

lemma node_entry_def2:
  "node_entry asw v n = (case mget (asw_attachedVolumes asw) v of None \<Rightarrow> None
     | Some volumeObj \<Rightarrow> mget (avol_nodesAttachedTo volumeObj) n)"
  by (auto simp: node_entry_def getNodeAndVolume_def split: option.splits)

lemma node_entry_store:
  "mget (asw_attachedVolumes asw) v = Some volumeObj \<Longrightarrow>
   node_entry (store_node v volumeObj n nodeObj asw) v' n' =
     (if (v', n') = (v, n) then Some nodeObj else node_entry asw v' n')"
  by (auto simp: node_entry_def2 store_node_def gm.get_put)

lemma node_entry_cong: "asw_attachedVolumes asw = asw_attachedVolumes asw' \<Longrightarrow> node_entry asw = node_entry asw'"
  by (simp add: node_entry_def2 fun_eq_iff)

lemma report_volumes [simp]:
  "asw_attachedVolumes (snd (removeVolumeFromReportAsAttached v n asw)) = asw_attachedVolumes asw"
  "asw_attachedVolumes (addVolumeToReportAsAttached v n asw) = asw_attachedVolumes asw"
  "asw_attachedVolumes (updateNodeStatusUpdateNeeded n b asw) = asw_attachedVolumes asw"
  by (auto simp: removeVolumeFromReportAsAttached_def addVolumeToReportAsAttached_def
      updateNodeStatusUpdateNeeded_def Let_def split: option.splits sum.splits)

lemma flags_fold_volumes [simp]:
  "asw_attachedVolumes (fold (\<lambda>(n, _). updateNodeStatusUpdateNeeded n False) es asw) = asw_attachedVolumes asw"
  by (induction es arbitrary: asw) auto

lemma report_entry:
  "node_entry (snd (removeVolumeFromReportAsAttached v n asw)) = node_entry asw"
  "node_entry (addVolumeToReportAsAttached v n asw) = node_entry asw"
  "node_entry (updateNodeStatusUpdateNeeded n b asw) = node_entry asw"
  "node_entry (fold (\<lambda>(n, _). updateNodeStatusUpdateNeeded n False) es asw) = node_entry asw"
  by (rule node_entry_cong; simp)+

text \<open>Only a call that sets the flag to true makes an entry one that has been seen mounted.\<close>

lemma node_entry_found:
  assumes "getNodeAndVolume asw v n = Inr (volumeObj, nodeObj)"
  shows "node_entry asw v n = Some nodeObj"
    and "node_entry (store_node v volumeObj n nodeObj' asw) v' n' =
      (if (v', n') = (v, n) then Some nodeObj' else node_entry asw v' n')"
proof -
  show "node_entry asw v n = Some nodeObj" using assms by (simp add: node_entry_def)
  show "node_entry (store_node v volumeObj n nodeObj' asw) v' n' =
      (if (v', n') = (v, n) then Some nodeObj' else node_entry asw v' n')"
    using assms by (intro node_entry_store) (simp add: getNodeAndVolume_Inr)
qed

lemma seen_mounted_SetVolumeMountedByNode:
  "seen_mounted (node_entry (snd (SetVolumeMountedByNode v n b asw)) v' n') \<Longrightarrow>
   seen_mounted (node_entry asw v' n') \<or> b \<and> (v', n') = (v, n)"
  by (cases "getNodeAndVolume asw v n")
    (auto simp: SetVolumeMountedByNode_def node_entry_found Let_def seen_mounted_def split: if_splits)

lemma seen_mounted_times:
  "seen_mounted (node_entry (ResetDetachRequestTime v n asw) v' n') = seen_mounted (node_entry asw v' n')"
  "seen_mounted (node_entry (snd (SetDetachRequestTime now now' v n asw)) v' n') = seen_mounted (node_entry asw v' n')"
proof -
  have e: "seen_mounted (Some (nodeObj\<lparr>nat_detachRequestedTime := t\<rparr>)) = seen_mounted (Some nodeObj)" for nodeObj t
    by (simp add: seen_mounted_def)
  show "seen_mounted (node_entry (ResetDetachRequestTime v n asw) v' n') = seen_mounted (node_entry asw v' n')"
    by (auto simp: ResetDetachRequestTime_def node_entry_found e split: sum.split)
  show "seen_mounted (node_entry (snd (SetDetachRequestTime now now' v n asw)) v' n') = seen_mounted (node_entry asw v' n')"
    by (auto simp: SetDetachRequestTime_def node_entry_found e Let_def split: sum.split)
qed

lemma seen_mounted_AddVolumeNode:
  "seen_mounted (node_entry (snd (AddVolumeNode spec n dev asw)) v' n') \<Longrightarrow> seen_mounted (node_entry asw v' n')"
  by (auto simp: AddVolumeNode_def Let_def seen_mounted_def node_entry_def2 store_node_def gm.get_put
      split: sum.splits option.splits if_splits)

lemma seen_mounted_DeleteVolumeNode:
  "seen_mounted (node_entry (DeleteVolumeNode v n asw) v' n') \<Longrightarrow> seen_mounted (node_entry asw v' n')"
  by (auto simp: DeleteVolumeNode_def Let_def seen_mounted_def node_entry_def2 gm.get_put gm.get_del
      split: option.splits if_splits)

lemma seen_mounted_step:
  "seen_mounted (node_entry (asw_step c asw) v n) \<Longrightarrow>
   seen_mounted (node_entry asw v n) \<or> c = SetVolumeMountedByNode_call v n True"
proof (cases c)
  case (SetVolumeMountedByNode_call v' n' b)
  then show "seen_mounted (node_entry (asw_step c asw) v n) \<Longrightarrow> ?thesis"
    using seen_mounted_SetVolumeMountedByNode by fastforce
qed (auto dest: seen_mounted_AddVolumeNode seen_mounted_DeleteVolumeNode simp: seen_mounted_times
    RemoveVolumeFromReportAsAttached_def AddVolumeToReportAsAttached_def SetNodeStatusUpdateNeeded_def
    GetVolumesToReportAttached_fold report_fold_state report_entry)

lemma seen_mounted_run:
  "seen_mounted (node_entry (fold asw_step cs asw) v n) \<Longrightarrow>
   seen_mounted (node_entry asw v n) \<or> SetVolumeMountedByNode_call v n True \<in> set cs"
  by (induction cs rule: rev_induct) (auto dest: seen_mounted_step)

section \<open>Listing the attached volumes\<close>

definition atv_key :: "'a AttachedVolume_scheme \<Rightarrow> unique_volume_name \<times> node_name" where
  "atv_key a = (atv_VolumeName a, atv_NodeName a)"

lemma atv_key_volume:
  "vol_ok v volumeObj \<Longrightarrow>
   map (\<lambda>(_, nodeObj). atv_key (getAttachedVolume volumeObj nodeObj)) (avol_nodesAttachedTo volumeObj) =
     map (\<lambda>n. (v, n)) (map fst (avol_nodesAttachedTo volumeObj))"
  by (auto simp: vol_ok_def atv_key_def getAttachedVolume_def mall_def mwf_def mget_def)

lemma atv_keys:
  assumes "mall vol_ok es" and "mwf es"
  shows "map atv_key (concat (map (\<lambda>(_, volumeObj). map (\<lambda>(_, nodeObj). getAttachedVolume volumeObj nodeObj)
      (avol_nodesAttachedTo volumeObj)) es)) =
    concat (map (\<lambda>(v, volumeObj). map (Pair v) (map fst (avol_nodesAttachedTo volumeObj))) es)"
  using assms
proof (induction es)
  case Nil
  then show ?case by simp
next
  case (Cons e es)
  obtain v volumeObj where e: "e = (v, volumeObj)" by (cases e)
  have "vol_ok v volumeObj" "mall vol_ok es" "mwf es"
    using Cons.prems mall_Cons [of v volumeObj es vol_ok] unfolding e by simp_all
  with Cons.IH atv_key_volume show ?case by (simp add: e comp_def split_def)
qed

lemma concat_pairs_distinct:
  "distinct (map fst es) \<Longrightarrow> \<forall>e \<in> set es. distinct (g (snd e)) \<Longrightarrow>
   distinct (concat (map (\<lambda>(v, x). map (Pair v) (g x)) es))"
proof (induction es)
  case (Cons e es)
  then show ?case by (cases e) (force simp: distinct_map inj_on_def)
qed simp

lemma GetAttachedVolumes_keys:
  assumes "asw_inv asw"
  shows "distinct (map atv_key (GetAttachedVolumes asw))" and "set (map atv_key (GetAttachedVolumes asw)) = attached asw"
proof -
  have w: "mwf (asw_attachedVolumes asw)" and ok: "mall vol_ok (asw_attachedVolumes asw)"
    using assms by (simp_all add: asw_inv_def asw_shape_def)
  have keys: "map atv_key (GetAttachedVolumes asw) =
      concat (map (\<lambda>(v, volumeObj). map (Pair v) (map fst (avol_nodesAttachedTo volumeObj))) (asw_attachedVolumes asw))"
    unfolding GetAttachedVolumes_def by (rule atv_keys [OF ok w])
  have "distinct (map fst (avol_nodesAttachedTo volumeObj))" if "(v, volumeObj) \<in> set (asw_attachedVolumes asw)" for v volumeObj
    using that ok gm.entries_get [OF w] by (auto simp: mall_def vol_ok_def mwf_def)
  then show "distinct (map atv_key (GetAttachedVolumes asw))"
    unfolding keys using w by (intro concat_pairs_distinct) (auto simp: mwf_def)
  show "set (map atv_key (GetAttachedVolumes asw)) = attached asw"
  proof (rule set_eqI, clarify)
    fix v n
    have "(v, n) \<in> set (map atv_key (GetAttachedVolumes asw)) \<longleftrightarrow>
        (\<exists>volumeObj. (v, volumeObj) \<in> set (asw_attachedVolumes asw) \<and> n \<in> fst ` set (avol_nodesAttachedTo volumeObj))"
      unfolding keys by force
    also have "\<dots> \<longleftrightarrow> (v, n) \<in> attached asw"
      unfolding gm.entries_get [OF w] attached_def VolumeNodeExists_def mhas_def mget_None_iff
      by (auto split: option.splits)
    finally show "(v, n) \<in> set (map atv_key (GetAttachedVolumes asw)) \<longleftrightarrow> (v, n) \<in> attached asw" .
  qed
qed

section \<open>Properties\<close>

text \<open>C30: The cache implements two sets of (volume, node) pairs, the attached and the reported ones: after
  any sequence of calls on a new cache, both are what the calls do to plain sets (attaching inserts
  into both, detaching removes from both, a report is only added for an attached pair), every reported
  pair is attached, and the internal maps are consistent.\<close>

theorem asw_refines_sets:
  "asw_inv (fold asw_step cs (NewActualStateOfWorld mgr)) \<and>
   (attached (fold asw_step cs (NewActualStateOfWorld mgr)), reported_set (fold asw_step cs (NewActualStateOfWorld mgr))) =
     fold (asw_spec mgr) cs ({}, {}) \<and>
   reported_set (fold asw_step cs (NewActualStateOfWorld mgr)) \<subseteq> attached (fold asw_step cs (NewActualStateOfWorld mgr))"
proof -
  let ?asw = "fold asw_step cs (NewActualStateOfWorld mgr)"
  have "attached (NewActualStateOfWorld mgr) = {}" "reported_set (NewActualStateOfWorld mgr) = {}"
      "asw_volumePluginMgr (NewActualStateOfWorld mgr) = mgr"
    by (simp_all add: attached_def reported_set_def VolumeNodeExists_def reported_def NewActualStateOfWorld_def)
  with asw_run [OF asw_inv_new, of cs mgr]
  have r: "asw_inv ?asw \<and> (attached ?asw, reported_set ?asw) = fold (asw_spec mgr) cs ({}, {})" by simp
  then have "reported_set ?asw \<subseteq> attached ?asw" by (auto simp: asw_inv_def reported_set_def attached_def)
  with r show ?thesis by blast
qed

text \<open>After any sequence of calls, \<open>GetAttachedVolumes\<close> lists every attached pair exactly once, so
  a detach pass of the reconciler considers each volume once per node it is attached to.\<close>

lemma GetAttachedVolumes_exact:
  "distinct (map atv_key (GetAttachedVolumes (fold asw_step cs (NewActualStateOfWorld mgr)))) \<and>
   set (map atv_key (GetAttachedVolumes (fold asw_step cs (NewActualStateOfWorld mgr)))) =
     attached (fold asw_step cs (NewActualStateOfWorld mgr))"
proof -
  have inv: "asw_inv (fold asw_step cs (NewActualStateOfWorld mgr))"
    using asw_run [OF asw_inv_new, of cs mgr] by blast
  show ?thesis
    by (rule conjI; rule GetAttachedVolumes_keys [OF inv])
qed

text \<open>A newly attached volume counts as mounted until its node has confirmed it: the cache shows a
  volume as not mounted only if the node was reported to have it mounted at some time before.\<close>

theorem unmounted_only_after_mounted:
  assumes "getNodeAndVolume (fold asw_step cs (NewActualStateOfWorld mgr)) v n = Inr (volumeObj, nodeObj)"
    and "\<not> nat_mountedByNode nodeObj"
  shows "SetVolumeMountedByNode_call v n True \<in> set cs"
proof -
  have "node_entry (fold asw_step cs (NewActualStateOfWorld mgr)) v n = Some nodeObj"
    using assms(1) by (simp add: node_entry_def)
  then have "seen_mounted (node_entry (fold asw_step cs (NewActualStateOfWorld mgr)) v n)"
    using assms(2) by (simp add: seen_mounted_def)
  moreover have "\<not> seen_mounted (node_entry (NewActualStateOfWorld mgr) v n)"
    by (simp add: node_entry_def2 seen_mounted_def NewActualStateOfWorld_def)
  ultimately show ?thesis using seen_mounted_run by blast
qed

definition sample_calls :: "asw_call list" where
  "sample_calls = [AddVolumeNode_call sample_spec ''n'' ''dev'', SetVolumeMountedByNode_call ''p/v'' ''n'' True,
     SetVolumeMountedByNode_call ''p/v'' ''n'' False]"

theorem unmounted_only_after_mounted_witness:
  "\<exists>volumeObj nodeObj.
     getNodeAndVolume (fold asw_step sample_calls (NewActualStateOfWorld [(''p'', sample_plugin ''p'')])) ''p/v'' ''n''
       = Inr (volumeObj, nodeObj) \<and> \<not> nat_mountedByNode nodeObj \<and>
     SetVolumeMountedByNode_call ''p/v'' ''n'' True \<in> set sample_calls"
proof -
  let ?asw = "fold asw_step sample_calls (NewActualStateOfWorld [(''p'', sample_plugin ''p'')])"
  have "map_option nat_mountedByNode (node_entry ?asw ''p/v'' ''n'') = Some False" by code_simp
  then obtain volumeObj nodeObj where e: "getNodeAndVolume ?asw ''p/v'' ''n'' = Inr (volumeObj, nodeObj)"
    and m: "\<not> nat_mountedByNode nodeObj" by (auto simp: node_entry_def split: sum.splits)
  from e m unmounted_only_after_mounted [OF e m] show ?thesis by blast
qed

end
