(* ===== verification/AD_Desired_State.thy ===== *)
theory AD_Desired_State
  imports AD_Actual_State
begin

text \<open>
  \<open>pkg/controller/volume/attachdetach/cache/desired_state_of_world.go\<close>: the nodes the controller
  manages and, per node, the volumes that should be attached because a pod scheduled there uses them;
  and \<open>populator/desired_state_of_world_populator.go\<close>, which drops pods that are gone.
\<close>

section \<open>State and operations\<close>

record dsw_pod =
  dpod_podName :: unique_pod_name
  dpod_podObj :: v1_Pod

record volumeToAttach =
  vta_volumeName :: unique_volume_name
  vta_spec :: Spec
  vta_scheduledPods :: "(unique_pod_name, dsw_pod) gomap"

record nodeManaged =
  nm_nodeName :: node_name
  nm_volumesToAttach :: "(unique_volume_name, volumeToAttach) gomap"

record desiredStateOfWorld =
  dsw_nodesManaged :: "(node_name, nodeManaged) gomap"
  dsw_volumePluginMgr :: "(string, VolumePlugin) gomap"



record PodToAdd =
  pta_Pod :: v1_Pod
  pta_VolumeName :: unique_volume_name
  pta_NodeName :: node_name

definition NewDesiredStateOfWorld :: "(string, VolumePlugin) gomap \<Rightarrow> desiredStateOfWorld" where
  "NewDesiredStateOfWorld volumePluginMgr = \<lparr>dsw_nodesManaged = [], dsw_volumePluginMgr = volumePluginMgr\<rparr>"

definition AddNode :: "node_name \<Rightarrow> desiredStateOfWorld \<Rightarrow> desiredStateOfWorld" where
  "AddNode nodeName dsw =
     (if mhas (dsw_nodesManaged dsw) nodeName then dsw
      else dsw\<lparr>dsw_nodesManaged := mput nodeName \<lparr>nm_nodeName = nodeName, nm_volumesToAttach = []\<rparr>
             (dsw_nodesManaged dsw)\<rparr>)"

text \<open>\<open>dsw.nodesManaged[nodeName].volumesToAttach[volumeName] = volumeObj\<close>.\<close>

definition store_volume ::
    "node_name \<Rightarrow> nodeManaged \<Rightarrow> unique_volume_name \<Rightarrow> volumeToAttach \<Rightarrow> desiredStateOfWorld \<Rightarrow> desiredStateOfWorld" where
  "store_volume nodeName nodeObj volumeName volumeObj dsw =
     dsw\<lparr>dsw_nodesManaged := mput nodeName
        (nodeObj\<lparr>nm_volumesToAttach := mput volumeName volumeObj (nm_volumesToAttach nodeObj)\<rparr>)
        (dsw_nodesManaged dsw)\<rparr>"

definition AddPod ::
    "unique_pod_name \<Rightarrow> v1_Pod \<Rightarrow> Spec \<Rightarrow> node_name \<Rightarrow> desiredStateOfWorld \<Rightarrow>
     (error + unique_volume_name) \<times> desiredStateOfWorld" where
  "AddPod podName podToAdd volumeSpec nodeName dsw =
     (case mget (dsw_nodesManaged dsw) nodeName of
        None \<Rightarrow> (Inl (Errorf ''no node with the name exists in the list of managed nodes'' None), dsw)
      | Some nodeObj \<Rightarrow>
          (case attachable_volume_name (dsw_volumePluginMgr dsw) volumeSpec of
             Inl err \<Rightarrow> (Inl err, dsw)
           | Inr volumeName \<Rightarrow>
               let volumeObj =
                     (case mget (nm_volumesToAttach nodeObj) volumeName of
                        Some volumeObj \<Rightarrow> volumeObj
                      | None \<Rightarrow> \<lparr>vta_volumeName = volumeName, vta_spec = volumeSpec, vta_scheduledPods = []\<rparr>);
                   volumeObj =
                     (if mhas (vta_scheduledPods volumeObj) podName then volumeObj
                      else volumeObj\<lparr>vta_scheduledPods :=
                             mput podName \<lparr>dpod_podName = podName, dpod_podObj = podToAdd\<rparr> (vta_scheduledPods volumeObj)\<rparr>)
               in (Inr volumeName, store_volume nodeName nodeObj volumeName volumeObj dsw)))"

definition DeleteNode :: "node_name \<Rightarrow> desiredStateOfWorld \<Rightarrow> error option \<times> desiredStateOfWorld" where
  "DeleteNode nodeName dsw =
     (case mget (dsw_nodesManaged dsw) nodeName of
        None \<Rightarrow> (None, dsw)
      | Some nodeObj \<Rightarrow>
          if length (nm_volumesToAttach nodeObj) > 0
          then (Some (Errorf ''failed to delete node from list of nodes managed by attach/detach controller'' None), dsw)
          else (None, dsw\<lparr>dsw_nodesManaged := mdel nodeName (dsw_nodesManaged dsw)\<rparr>))"

definition DeletePod ::
    "unique_pod_name \<Rightarrow> unique_volume_name \<Rightarrow> node_name \<Rightarrow> desiredStateOfWorld \<Rightarrow> desiredStateOfWorld" where
  "DeletePod podName volumeName nodeName dsw =
     (case mget (dsw_nodesManaged dsw) nodeName of
        None \<Rightarrow> dsw
      | Some nodeObj \<Rightarrow>
          (case mget (nm_volumesToAttach nodeObj) volumeName of
             None \<Rightarrow> dsw
           | Some volumeObj \<Rightarrow>
               if \<not> mhas (vta_scheduledPods volumeObj) podName then dsw
               else let volumeObj = volumeObj\<lparr>vta_scheduledPods := mdel podName (vta_scheduledPods volumeObj)\<rparr>
                    in if length (vta_scheduledPods volumeObj) = 0
                       then dsw\<lparr>dsw_nodesManaged := mput nodeName
                              (nodeObj\<lparr>nm_volumesToAttach := mdel volumeName (nm_volumesToAttach nodeObj)\<rparr>)
                              (dsw_nodesManaged dsw)\<rparr>
                       else store_volume nodeName nodeObj volumeName volumeObj dsw))"

definition NodeExists :: "desiredStateOfWorld \<Rightarrow> node_name \<Rightarrow> bool" where
  "NodeExists dsw nodeName = mhas (dsw_nodesManaged dsw) nodeName"

definition VolumeExists :: "desiredStateOfWorld \<Rightarrow> unique_volume_name \<Rightarrow> node_name \<Rightarrow> bool" where
  "VolumeExists dsw volumeName nodeName =
     (case mget (dsw_nodesManaged dsw) nodeName of
        Some nodeObj \<Rightarrow> mhas (nm_volumesToAttach nodeObj) volumeName
      | None \<Rightarrow> False)"

definition getPodsFromMap :: "(unique_pod_name, dsw_pod) gomap \<Rightarrow> v1_Pod list" where
  "getPodsFromMap podMap = map (\<lambda>(_, pod). dpod_podObj pod) podMap"

definition GetVolumesToAttach :: "desiredStateOfWorld \<Rightarrow> VolumeToAttach list" where
  "GetVolumesToAttach dsw =
     concat (map (\<lambda>(nodeName, nodeObj). map (\<lambda>(volumeName, volumeObj).
        \<lparr>vtoa_VolumeName = volumeName, vtoa_VolumeSpec = vta_spec volumeObj, vtoa_NodeName = nodeName,
         vtoa_ScheduledPods = getPodsFromMap (vta_scheduledPods volumeObj)\<rparr>)
       (nm_volumesToAttach nodeObj)) (dsw_nodesManaged dsw))"

definition GetPodToAdd :: "desiredStateOfWorld \<Rightarrow> (unique_pod_name, PodToAdd) gomap" where
  "GetPodToAdd dsw =
     fold (\<lambda>(nodeName, nodeObj). fold (\<lambda>(volumeName, volumeObj). fold (\<lambda>(podUID, pod).
        mput podUID \<lparr>pta_Pod = dpod_podObj pod, pta_VolumeName = volumeName, pta_NodeName = nodeName\<rparr>)
       (vta_scheduledPods volumeObj)) (nm_volumesToAttach nodeObj)) (dsw_nodesManaged dsw) []"

section \<open>Populator\<close>

text \<open>
  \<open>kcache.MetaNamespaceKeyFunc\<close> of a pod, and the pod informer's store as a function from keys to an
  error, absence, or a pod. The branches for a nil object and a failed cast cannot occur for it.
\<close>

definition MetaNamespaceKeyFunc :: "v1_Pod \<Rightarrow> string" where
  "MetaNamespaceKeyFunc pod =
     (if length (pod_Namespace pod) > 0 then pod_Namespace pod @ ''/'' @ pod_Name pod else pod_Name pod)"

definition findAndRemoveDeletedPods ::
    "(string \<Rightarrow> error + v1_Pod option) \<Rightarrow> desiredStateOfWorld \<Rightarrow> desiredStateOfWorld" where
  "findAndRemoveDeletedPods getByKey dsw =
     fold (\<lambda>(dswPodUID, dswPodToAdd) dsw.
        case getByKey (MetaNamespaceKeyFunc (pta_Pod dswPodToAdd)) of
          Inl err \<Rightarrow> dsw
        | Inr (Some informerPod) \<Rightarrow>
            if pod_UID informerPod = dswPodUID then dsw
            else DeletePod dswPodUID (pta_VolumeName dswPodToAdd) (pta_NodeName dswPodToAdd) dsw
        | Inr None \<Rightarrow> DeletePod dswPodUID (pta_VolumeName dswPodToAdd) (pta_NodeName dswPodToAdd) dsw)
     (GetPodToAdd dsw) dsw"

section \<open>Invariant and abstraction\<close>

definition vta_ok :: "unique_volume_name \<Rightarrow> volumeToAttach \<Rightarrow> bool" where
  "vta_ok v volumeObj \<longleftrightarrow> vta_volumeName volumeObj = v \<and> mwf (vta_scheduledPods volumeObj) \<and>
     vta_scheduledPods volumeObj \<noteq> [] \<and> mall (\<lambda>p pod. dpod_podName pod = p) (vta_scheduledPods volumeObj)"

definition nm_ok :: "node_name \<Rightarrow> nodeManaged \<Rightarrow> bool" where
  "nm_ok n nodeObj \<longleftrightarrow> nm_nodeName nodeObj = n \<and> mwf (nm_volumesToAttach nodeObj) \<and>
     mall vta_ok (nm_volumesToAttach nodeObj)"

definition dsw_inv :: "desiredStateOfWorld \<Rightarrow> bool" where
  "dsw_inv dsw \<longleftrightarrow> mwf (dsw_nodesManaged dsw) \<and> mall nm_ok (dsw_nodesManaged dsw)"

definition scheduled_pod ::
    "desiredStateOfWorld \<Rightarrow> unique_pod_name \<Rightarrow> unique_volume_name \<Rightarrow> node_name \<Rightarrow> dsw_pod option" where
  "scheduled_pod dsw p v n =
     Option.bind (mget (dsw_nodesManaged dsw) n) (\<lambda>nodeObj.
       Option.bind (mget (nm_volumesToAttach nodeObj) v) (\<lambda>volumeObj. mget (vta_scheduledPods volumeObj) p))"

definition scheduled :: "desiredStateOfWorld \<Rightarrow> (unique_pod_name \<times> unique_volume_name \<times> node_name) set" where
  "scheduled dsw = {(p, v, n). scheduled_pod dsw p v n \<noteq> None}"

definition managed :: "desiredStateOfWorld \<Rightarrow> node_name set" where
  "managed dsw = {n. NodeExists dsw n}"

lemma nm_ok_get: "dsw_inv dsw \<Longrightarrow> mget (dsw_nodesManaged dsw) n = Some nodeObj \<Longrightarrow> nm_ok n nodeObj"
  by (auto simp: dsw_inv_def dest: mall_get)

lemma vta_ok_get: "nm_ok n nodeObj \<Longrightarrow> mget (nm_volumesToAttach nodeObj) v = Some volumeObj \<Longrightarrow> vta_ok v volumeObj"
  by (auto simp: nm_ok_def dest: mall_get)

lemma VolumeExists_scheduled:
  assumes "dsw_inv dsw"
  shows "VolumeExists dsw v n \<longleftrightarrow> (\<exists>p. (p, v, n) \<in> scheduled dsw)"
proof (cases "mget (dsw_nodesManaged dsw) n")
  case None
  then show ?thesis by (simp add: VolumeExists_def scheduled_def scheduled_pod_def)
next
  case (Some nodeObj)
  note nm = nm_ok_get [OF assms Some]
  have "(\<exists>p. mget (vta_scheduledPods volumeObj) p \<noteq> None)" if "mget (nm_volumesToAttach nodeObj) v = Some volumeObj" for volumeObj
    using vta_ok_get [OF nm that] mempty_iff [of "vta_scheduledPods volumeObj"] by (auto simp: vta_ok_def mhas_def)
  then show ?thesis
    using Some by (cases "mget (nm_volumesToAttach nodeObj) v")
      (auto simp: VolumeExists_def scheduled_def scheduled_pod_def mhas_def)
qed

lemma store_volume_pod:
  "mget (dsw_nodesManaged dsw) n = Some nodeObj \<Longrightarrow>
   scheduled_pod (store_volume n nodeObj v volumeObj dsw) p' v' n' =
     (if (v', n') = (v, n) then mget (vta_scheduledPods volumeObj) p' else scheduled_pod dsw p' v' n')"
  by (auto simp: scheduled_pod_def store_volume_def gm.get_put)

lemma store_volume_managed:
  "mget (dsw_nodesManaged dsw) n = Some nodeObj \<Longrightarrow>
   NodeExists (store_volume n nodeObj v volumeObj dsw) n' = NodeExists dsw n'"
  by (auto simp: NodeExists_def store_volume_def mhas_def gm.get_put)

lemma store_volume_inv:
  "dsw_inv dsw \<Longrightarrow> mget (dsw_nodesManaged dsw) n = Some nodeObj \<Longrightarrow> vta_ok v volumeObj \<Longrightarrow>
   dsw_inv (store_volume n nodeObj v volumeObj dsw)"
  using nm_ok_get [of dsw n nodeObj] by (auto simp: dsw_inv_def store_volume_def nm_ok_def)

lemma store_volume_mgr [simp]: "dsw_volumePluginMgr (store_volume n nodeObj v volumeObj dsw) = dsw_volumePluginMgr dsw"
  by (simp add: store_volume_def)

lemma AddPod_ok:
  assumes "dsw_inv dsw" and "NodeExists dsw n" and "attachable_volume_name (dsw_volumePluginMgr dsw) spec = Inr v"
  shows "fst (AddPod p pod spec n dsw) = Inr v" and "dsw_inv (snd (AddPod p pod spec n dsw))"
    and "managed (snd (AddPod p pod spec n dsw)) = managed dsw"
    and "scheduled_pod (snd (AddPod p pod spec n dsw)) p' v' n' =
      (if (p', v', n') = (p, v, n) \<and> scheduled_pod dsw p v n = None
       then Some \<lparr>dpod_podName = p, dpod_podObj = pod\<rparr> else scheduled_pod dsw p' v' n')"
proof -
  obtain nodeObj where n: "mget (dsw_nodesManaged dsw) n = Some nodeObj"
    using assms(2) by (auto simp: NodeExists_def mhas_def)
  note nm = nm_ok_get [OF assms(1) n]
  define vo where "vo = (case mget (nm_volumesToAttach nodeObj) v of Some volumeObj \<Rightarrow> volumeObj
      | None \<Rightarrow> \<lparr>vta_volumeName = v, vta_spec = spec, vta_scheduledPods = []\<rparr>)"
  define vo' where "vo' = (if mhas (vta_scheduledPods vo) p then vo
      else vo\<lparr>vta_scheduledPods := mput p \<lparr>dpod_podName = p, dpod_podObj = pod\<rparr> (vta_scheduledPods vo)\<rparr>)"
  have add: "AddPod p pod spec n dsw = (Inr v, store_volume n nodeObj v vo' dsw)"
    unfolding AddPod_def n assms(3) option.case sum.case Let_def vo_def [symmetric] vo'_def [symmetric] ..
  have vo: "vta_volumeName vo = v" "mwf (vta_scheduledPods vo)"
      "mall (\<lambda>p pod. dpod_podName pod = p) (vta_scheduledPods vo)"
    using vta_ok_get [OF nm, of v] by (auto simp: vo_def vta_ok_def split: option.splits)
  have "vta_ok v vo'" using vo by (auto simp: vo'_def vta_ok_def)
  then show "dsw_inv (snd (AddPod p pod spec n dsw))"
    by (simp add: add store_volume_inv [OF assms(1) n])
  show "fst (AddPod p pod spec n dsw) = Inr v" by (simp add: add)
  show "managed (snd (AddPod p pod spec n dsw)) = managed dsw"
    by (simp add: add managed_def store_volume_managed [OF n])
  have get: "mget (vta_scheduledPods vo) q = scheduled_pod dsw q v n" for q
    using n by (auto simp: vo_def scheduled_pod_def split: option.splits)
  show "scheduled_pod (snd (AddPod p pod spec n dsw)) p' v' n' =
      (if (p', v', n') = (p, v, n) \<and> scheduled_pod dsw p v n = None
       then Some \<lparr>dpod_podName = p, dpod_podObj = pod\<rparr> else scheduled_pod dsw p' v' n')"
    using get by (auto simp: add store_volume_pod [OF n] vo'_def mhas_def gm.get_put)
qed

lemma AddPod_refused:
  "\<not> NodeExists dsw n \<or> attachable_volume_name (dsw_volumePluginMgr dsw) spec = Inl e \<Longrightarrow>
   \<exists>e. AddPod p pod spec n dsw = (Inl e, dsw)"
  by (auto simp: AddPod_def NodeExists_def mhas_def split: option.splits)

lemma DeletePod_absent:
  "scheduled_pod dsw p v n = None \<Longrightarrow> DeletePod p v n dsw = dsw"
  by (auto simp: DeletePod_def scheduled_pod_def mhas_def split: option.splits)

lemma DeletePod_facts:
  assumes "dsw_inv dsw"
  shows "dsw_inv (DeletePod p v n dsw)" and "managed (DeletePod p v n dsw) = managed dsw"
    and "scheduled_pod (DeletePod p v n dsw) p' v' n' =
      (if (p', v', n') = (p, v, n) then None else scheduled_pod dsw p' v' n')"
proof -
  have "dsw_inv (DeletePod p v n dsw) \<and> managed (DeletePod p v n dsw) = managed dsw \<and>
    (\<forall>p' v' n'. scheduled_pod (DeletePod p v n dsw) p' v' n' =
      (if (p', v', n') = (p, v, n) then None else scheduled_pod dsw p' v' n'))"
  proof (cases "scheduled_pod dsw p v n")
    case None
    with assms show ?thesis by (auto simp: DeletePod_absent)
  next
    case (Some pod)
    then obtain nodeObj volumeObj where n: "mget (dsw_nodesManaged dsw) n = Some nodeObj"
      and v: "mget (nm_volumesToAttach nodeObj) v = Some volumeObj"
      and p: "mget (vta_scheduledPods volumeObj) p = Some pod"
      by (auto simp: scheduled_pod_def bind_eq_Some_conv)
    note nm = nm_ok_get [OF assms n] and vt = vta_ok_get [OF nm_ok_get [OF assms n] v]
    let ?vo = "volumeObj\<lparr>vta_scheduledPods := mdel p (vta_scheduledPods volumeObj)\<rparr>"
    let ?no = "nodeObj\<lparr>nm_volumesToAttach := mdel v (nm_volumesToAttach nodeObj)\<rparr>"
    have get: "mget (vta_scheduledPods volumeObj) q = scheduled_pod dsw q v n" for q
      using n v by (simp add: scheduled_pod_def)
    show ?thesis
    proof (cases "mdel p (vta_scheduledPods volumeObj) = []")
      case True
      then have del: "DeletePod p v n dsw = dsw\<lparr>dsw_nodesManaged := mput n ?no (dsw_nodesManaged dsw)\<rparr>"
        by (simp add: DeletePod_def n v p mhas_def)
      have only: "scheduled_pod dsw q v n = None" if "q \<noteq> p" for q
        using True get [of q] gm.get_del [of p "vta_scheduledPods volumeObj" q] that by simp
      have "dsw_inv (DeletePod p v n dsw)" using assms nm by (auto simp: del dsw_inv_def nm_ok_def)
      moreover have "managed (DeletePod p v n dsw) = managed dsw"
        using n by (auto simp: del managed_def NodeExists_def mhas_def gm.get_put split: if_splits)
      moreover have "scheduled_pod (DeletePod p v n dsw) p' v' n' =
          (if (p', v', n') = (p, v, n) then None else scheduled_pod dsw p' v' n')" for p' v' n'
        using only n by (auto simp: del scheduled_pod_def gm.get_put gm.get_del)
      ultimately show ?thesis by blast
    next
      case False
      then have del: "DeletePod p v n dsw = store_volume n nodeObj v ?vo dsw"
        by (simp add: DeletePod_def n v p mhas_def)
      have "vta_ok v ?vo" using vt False by (auto simp: vta_ok_def)
      then show ?thesis
        using assms get by (auto simp: del store_volume_inv [OF assms n] managed_def store_volume_managed [OF n]
            store_volume_pod [OF n] gm.get_del)
    qed
  qed
  then show "dsw_inv (DeletePod p v n dsw)" and "managed (DeletePod p v n dsw) = managed dsw"
    and "scheduled_pod (DeletePod p v n dsw) p' v' n' =
      (if (p', v', n') = (p, v, n) then None else scheduled_pod dsw p' v' n')" by blast+
qed

lemma DeleteNode_facts:
  assumes "dsw_inv dsw"
  shows "dsw_inv (snd (DeleteNode n dsw))"
    and "scheduled (snd (DeleteNode n dsw)) = scheduled dsw"
    and "managed (snd (DeleteNode n dsw)) = (if \<exists>p v. (p, v, n) \<in> scheduled dsw then managed dsw else managed dsw - {n})"
    and "fst (DeleteNode n dsw) \<noteq> None \<longleftrightarrow> (\<exists>p v. (p, v, n) \<in> scheduled dsw)"
proof -
  have used: "(\<exists>p v. (p, v, n) \<in> scheduled dsw) \<longleftrightarrow>
      (\<exists>nodeObj. mget (dsw_nodesManaged dsw) n = Some nodeObj \<and> nm_volumesToAttach nodeObj \<noteq> [])"
  proof -
    have "(\<exists>p v. (p, v, n) \<in> scheduled dsw) \<longleftrightarrow> (\<exists>v. VolumeExists dsw v n)"
      using VolumeExists_scheduled [OF assms] by blast
    also have "\<dots> \<longleftrightarrow> (\<exists>nodeObj. mget (dsw_nodesManaged dsw) n = Some nodeObj \<and> nm_volumesToAttach nodeObj \<noteq> [])"
      by (cases "mget (dsw_nodesManaged dsw) n") (auto simp: VolumeExists_def mempty_iff)
    finally show ?thesis .
  qed
  show "dsw_inv (snd (DeleteNode n dsw))"
    using assms by (auto simp: DeleteNode_def dsw_inv_def split: option.splits)
  show "fst (DeleteNode n dsw) \<noteq> None \<longleftrightarrow> (\<exists>p v. (p, v, n) \<in> scheduled dsw)"
    unfolding used by (cases "mget (dsw_nodesManaged dsw) n") (auto simp: DeleteNode_def)
  show "managed (snd (DeleteNode n dsw)) = (if \<exists>p v. (p, v, n) \<in> scheduled dsw then managed dsw else managed dsw - {n})"
    unfolding used by (cases "mget (dsw_nodesManaged dsw) n") (auto simp: DeleteNode_def managed_def NodeExists_def mhas_def gm.get_del)
  show "scheduled (snd (DeleteNode n dsw)) = scheduled dsw"
    by (cases "mget (dsw_nodesManaged dsw) n")
      (auto simp: DeleteNode_def scheduled_def scheduled_pod_def gm.get_del)
qed

lemma AddNode_facts:
  assumes "dsw_inv dsw"
  shows "dsw_inv (AddNode n dsw)" and "managed (AddNode n dsw) = insert n (managed dsw)"
    and "scheduled (AddNode n dsw) = scheduled dsw"
  using assms
  by (auto simp: AddNode_def dsw_inv_def nm_ok_def managed_def NodeExists_def scheduled_def scheduled_pod_def
      mhas_def gm.get_put bind_eq_Some_conv split: if_splits)

section \<open>Sequences of calls\<close>

datatype dsw_call =
    AddNode_call node_name
  | AddPod_call unique_pod_name v1_Pod Spec node_name
  | DeleteNode_call node_name
  | DeletePod_call unique_pod_name unique_volume_name node_name

fun dsw_step :: "dsw_call \<Rightarrow> desiredStateOfWorld \<Rightarrow> desiredStateOfWorld" where
  "dsw_step (AddNode_call n) dsw = AddNode n dsw"
| "dsw_step (AddPod_call p pod spec n) dsw = snd (AddPod p pod spec n dsw)"
| "dsw_step (DeleteNode_call n) dsw = snd (DeleteNode n dsw)"
| "dsw_step (DeletePod_call p v n) dsw = DeletePod p v n dsw"

text \<open>The same on a set of nodes and a set of (pod, volume, node) triples.\<close>

fun dsw_spec ::
    "(string, VolumePlugin) gomap \<Rightarrow> dsw_call \<Rightarrow>
     node_name set \<times> (unique_pod_name \<times> unique_volume_name \<times> node_name) set \<Rightarrow>
     node_name set \<times> (unique_pod_name \<times> unique_volume_name \<times> node_name) set" where
  "dsw_spec mgr (AddNode_call n) (N, S) = (insert n N, S)"
| "dsw_spec mgr (AddPod_call p _ spec n) (N, S) =
     (case attachable_volume_name mgr spec of
        Inl _ \<Rightarrow> (N, S) | Inr v \<Rightarrow> (N, if n \<in> N then insert (p, v, n) S else S))"
| "dsw_spec mgr (DeleteNode_call n) (N, S) = (if \<exists>p v. (p, v, n) \<in> S then N else N - {n}, S)"
| "dsw_spec mgr (DeletePod_call p v n) (N, S) = (N, S - {(p, v, n)})"

lemma dsw_step_mgr [simp]: "dsw_volumePluginMgr (dsw_step c dsw) = dsw_volumePluginMgr dsw"
  by (cases c) (auto simp: AddNode_def AddPod_def DeleteNode_def DeletePod_def Let_def split: option.splits sum.splits)

lemma dsw_step_inv:
  assumes "dsw_inv dsw"
  shows "dsw_inv (dsw_step c dsw)"
proof (cases c)
  case (AddPod_call p pod spec n)
  then show ?thesis
    using AddPod_ok(2) [OF assms, of n spec] AddPod_refused [of dsw n spec] assms
    by (cases "attachable_volume_name (dsw_volumePluginMgr dsw) spec"; cases "NodeExists dsw n")
      (metis dsw_step.simps(2) snd_conv)+
qed (auto simp: AddNode_facts DeleteNode_facts DeletePod_facts assms)

lemma AddPod_spec:
  assumes "dsw_inv dsw"
  shows "(managed (snd (AddPod p pod spec n dsw)), scheduled (snd (AddPod p pod spec n dsw))) =
    dsw_spec (dsw_volumePluginMgr dsw) (AddPod_call p pod spec n) (managed dsw, scheduled dsw)"
proof (cases "attachable_volume_name (dsw_volumePluginMgr dsw) spec")
  case (Inl e)
  then show ?thesis using AddPod_refused [of dsw n spec e p pod] by auto
next
  case (Inr v)
  show ?thesis
  proof (cases "NodeExists dsw n")
    case True
    show ?thesis
      using AddPod_ok(3,4) [OF assms True Inr] True Inr
      by (auto simp: managed_def scheduled_def split: if_splits)
  next
    case False
    then show ?thesis using AddPod_refused [of dsw n spec _ p pod] Inr by (auto simp: managed_def)
  qed
qed

lemma dsw_step_spec:
  assumes "dsw_inv dsw"
  shows "(managed (dsw_step c dsw), scheduled (dsw_step c dsw)) =
    dsw_spec (dsw_volumePluginMgr dsw) c (managed dsw, scheduled dsw)"
proof (cases c)
  case (AddPod_call p pod spec n)
  then show ?thesis using AddPod_spec [OF assms] by simp
next
  case (DeletePod_call p v n)
  then show ?thesis using DeletePod_facts [OF assms] by (auto simp: scheduled_def)
qed (simp_all add: AddNode_facts [OF assms] DeleteNode_facts [OF assms])

lemma dsw_run:
  "dsw_inv dsw \<Longrightarrow> dsw_inv (fold dsw_step cs dsw) \<and>
   (managed (fold dsw_step cs dsw), scheduled (fold dsw_step cs dsw)) =
     fold (dsw_spec (dsw_volumePluginMgr dsw)) cs (managed dsw, scheduled dsw)"
proof (induction cs arbitrary: dsw)
  case (Cons c cs)
  then show ?case using Cons.IH [OF dsw_step_inv [OF Cons.prems]] dsw_step_spec [OF Cons.prems, of c] by simp
qed simp

lemma dsw_inv_new [simp]: "dsw_inv (NewDesiredStateOfWorld mgr)"
  by (simp add: dsw_inv_def NewDesiredStateOfWorld_def)

definition vtoa_key :: "VolumeToAttach \<Rightarrow> unique_volume_name \<times> node_name" where
  "vtoa_key a = (vtoa_VolumeName a, vtoa_NodeName a)"

lemma GetVolumesToAttach_keys:
  assumes "dsw_inv dsw"
  shows "distinct (map vtoa_key (GetVolumesToAttach dsw))"
    and "set (map vtoa_key (GetVolumesToAttach dsw)) = {(v, n). VolumeExists dsw v n}"
proof -
  have w: "mwf (dsw_nodesManaged dsw)" and ok: "mall nm_ok (dsw_nodesManaged dsw)"
    using assms by (simp_all add: dsw_inv_def)
  have keys: "map vtoa_key (GetVolumesToAttach dsw) = map prod.swap
      (concat (map (\<lambda>(n, nodeObj). map (Pair n) (map fst (nm_volumesToAttach nodeObj))) (dsw_nodesManaged dsw)))"
    by (simp add: GetVolumesToAttach_def map_concat comp_def split_def vtoa_key_def)
  have "distinct (map fst (nm_volumesToAttach nodeObj))" if "(n, nodeObj) \<in> set (dsw_nodesManaged dsw)" for n nodeObj
    using that ok gm.entries_get [OF w] by (auto simp: mall_def nm_ok_def mwf_def)
  then have "distinct (concat (map (\<lambda>(n, nodeObj). map (Pair n) (map fst (nm_volumesToAttach nodeObj))) (dsw_nodesManaged dsw)))"
    using w by (intro concat_pairs_distinct) (auto simp: mwf_def)
  then show "distinct (map vtoa_key (GetVolumesToAttach dsw))"
    unfolding keys by (simp add: distinct_map inj_on_def)
  show "set (map vtoa_key (GetVolumesToAttach dsw)) = {(v, n). VolumeExists dsw v n}"
  proof (rule set_eqI, clarify)
    fix v n
    have "(v, n) \<in> set (map vtoa_key (GetVolumesToAttach dsw)) \<longleftrightarrow>
        (\<exists>nodeObj. (n, nodeObj) \<in> set (dsw_nodesManaged dsw) \<and> v \<in> fst ` set (nm_volumesToAttach nodeObj))"
      unfolding keys by force
    also have "\<dots> \<longleftrightarrow> VolumeExists dsw v n"
      unfolding gm.entries_get [OF w] VolumeExists_def mhas_def mget_None_iff by (auto split: option.splits)
    finally show "(v, n) \<in> set (map vtoa_key (GetVolumesToAttach dsw)) \<longleftrightarrow> (v, n) \<in> {(v, n). VolumeExists dsw v n}"
      by simp
  qed
qed

section \<open>The populator\<close>

definition pods_flat :: "desiredStateOfWorld \<Rightarrow> (unique_pod_name \<times> PodToAdd) list" where
  "pods_flat dsw = concat (map (\<lambda>(nodeName, nodeObj). concat (map (\<lambda>(volumeName, volumeObj).
      map (\<lambda>(podUID, pod). (podUID, \<lparr>pta_Pod = dpod_podObj pod, pta_VolumeName = volumeName, pta_NodeName = nodeName\<rparr>))
        (vta_scheduledPods volumeObj)) (nm_volumesToAttach nodeObj))) (dsw_nodesManaged dsw))"

lemma GetPodToAdd_flat: "GetPodToAdd dsw = fold (\<lambda>(k, v). mput k v) (pods_flat dsw) []"
proof -
  have inner: "fold (\<lambda>(podUID, pod). mput podUID (f pod)) ps = fold (\<lambda>(k, v). mput k v) (map (\<lambda>(podUID, pod). (podUID, f pod)) ps)"
    for f :: "dsw_pod \<Rightarrow> PodToAdd" and ps
    by (induction ps) auto
  show ?thesis
    unfolding GetPodToAdd_def pods_flat_def inner by (simp add: split_def fold_nested)
qed

lemma pods_flat_iff:
  assumes "dsw_inv dsw"
  shows "(p, e) \<in> set (pods_flat dsw) \<longleftrightarrow>
    (\<exists>pod. scheduled_pod dsw p (pta_VolumeName e) (pta_NodeName e) = Some pod \<and> pta_Pod e = dpod_podObj pod)"
proof -
  have w: "mwf (dsw_nodesManaged dsw)" using assms by (simp add: dsw_inv_def)
  have "(p, e) \<in> set (pods_flat dsw) \<longleftrightarrow> (\<exists>nodeObj volumeObj pod.
      (pta_NodeName e, nodeObj) \<in> set (dsw_nodesManaged dsw) \<and>
      (pta_VolumeName e, volumeObj) \<in> set (nm_volumesToAttach nodeObj) \<and>
      (p, pod) \<in> set (vta_scheduledPods volumeObj) \<and> pta_Pod e = dpod_podObj pod)"
    by (cases e) (force simp: pods_flat_def)
  also have "\<dots> \<longleftrightarrow> (\<exists>nodeObj volumeObj pod. mget (dsw_nodesManaged dsw) (pta_NodeName e) = Some nodeObj \<and>
      mget (nm_volumesToAttach nodeObj) (pta_VolumeName e) = Some volumeObj \<and>
      mget (vta_scheduledPods volumeObj) p = Some pod \<and> pta_Pod e = dpod_podObj pod)"
  proof -
    have "(n, nodeObj) \<in> set (dsw_nodesManaged dsw) \<and> (v, volumeObj) \<in> set (nm_volumesToAttach nodeObj) \<and>
        (p, pod) \<in> set (vta_scheduledPods volumeObj) \<longleftrightarrow>
        mget (dsw_nodesManaged dsw) n = Some nodeObj \<and> mget (nm_volumesToAttach nodeObj) v = Some volumeObj \<and>
        mget (vta_scheduledPods volumeObj) p = Some pod" for n nodeObj v volumeObj pod
    proof (cases "mget (dsw_nodesManaged dsw) n = Some nodeObj")
      case True
      note nm = nm_ok_get [OF assms True]
      have wv: "mwf (nm_volumesToAttach nodeObj)" using nm by (simp add: nm_ok_def)
      have "mwf (vta_scheduledPods volumeObj)" if "mget (nm_volumesToAttach nodeObj) v = Some volumeObj"
        using vta_ok_get [OF nm that] by (simp add: vta_ok_def)
      with True gm.entries_get [OF w] gm.entries_get [OF wv] show ?thesis by (auto simp: gm.entries_get)
    qed (simp add: gm.entries_get [OF w])
    then show ?thesis by (simp only: conj_assoc [symmetric])
  qed
  also have "\<dots> \<longleftrightarrow> (\<exists>pod. scheduled_pod dsw p (pta_VolumeName e) (pta_NodeName e) = Some pod \<and> pta_Pod e = dpod_podObj pod)"
    by (auto simp: scheduled_pod_def bind_eq_Some_conv)
  finally show ?thesis .
qed

text \<open>The pod of an entry has disappeared from the informer, or another pod has taken its name.\<close>

definition pod_gone :: "(string \<Rightarrow> error + v1_Pod option) \<Rightarrow> unique_pod_name \<Rightarrow> v1_Pod \<Rightarrow> bool" where
  "pod_gone getByKey p pod =
     (case getByKey (MetaNamespaceKeyFunc pod) of
        Inl _ \<Rightarrow> False | Inr None \<Rightarrow> True | Inr (Some q) \<Rightarrow> pod_UID q \<noteq> p)"

lemma remove_step:
  "(case getByKey (MetaNamespaceKeyFunc (pta_Pod e)) of
      Inl err \<Rightarrow> dsw
    | Inr (Some informerPod) \<Rightarrow>
        if pod_UID informerPod = p then dsw else DeletePod p (pta_VolumeName e) (pta_NodeName e) dsw
    | Inr None \<Rightarrow> DeletePod p (pta_VolumeName e) (pta_NodeName e) dsw) =
   (if pod_gone getByKey p (pta_Pod e) then DeletePod p (pta_VolumeName e) (pta_NodeName e) dsw else dsw)"
  by (auto simp: pod_gone_def split: sum.split option.split)

lemma remove_loop:
  assumes "dsw_inv dsw"
  shows "dsw_inv (fold (\<lambda>(p, e) dsw. if P p (pta_Pod e) then DeletePod p (pta_VolumeName e) (pta_NodeName e) dsw else dsw) es dsw) \<and>
    scheduled (fold (\<lambda>(p, e) dsw. if P p (pta_Pod e) then DeletePod p (pta_VolumeName e) (pta_NodeName e) dsw else dsw) es dsw) =
      scheduled dsw - {(p, pta_VolumeName e, pta_NodeName e) | p e. (p, e) \<in> set es \<and> P p (pta_Pod e)}"
  using assms
proof (induction es arbitrary: dsw)
  case (Cons x es)
  obtain p e where x: "x = (p, e)" by (cases x)
  have "dsw_inv (DeletePod p (pta_VolumeName e) (pta_NodeName e) dsw)"
      "scheduled (DeletePod p (pta_VolumeName e) (pta_NodeName e) dsw) = scheduled dsw - {(p, pta_VolumeName e, pta_NodeName e)}"
    using DeletePod_facts [OF Cons.prems] by (auto simp: scheduled_def)
  with Cons.IH Cons.prems show ?case by (auto simp: x)
qed simp

section \<open>Properties\<close>

text \<open>The cache implements a set of managed nodes and a set of (pod, volume, node) triples: after any
  sequence of calls on a new cache both are what the calls do to plain sets; a volume should be attached
  to a node exactly when some pod there needs it, and \<open>GetVolumesToAttach\<close> lists each such pair exactly
  once. A node that still has volumes to attach is not deleted.\<close>

theorem dsw_refines_triples:
  "(managed (fold dsw_step cs (NewDesiredStateOfWorld mgr)), scheduled (fold dsw_step cs (NewDesiredStateOfWorld mgr))) =
     fold (dsw_spec mgr) cs ({}, {}) \<and>
   distinct (map vtoa_key (GetVolumesToAttach (fold dsw_step cs (NewDesiredStateOfWorld mgr)))) \<and>
   set (map vtoa_key (GetVolumesToAttach (fold dsw_step cs (NewDesiredStateOfWorld mgr)))) =
     {(v, n). \<exists>p. (p, v, n) \<in> scheduled (fold dsw_step cs (NewDesiredStateOfWorld mgr))}"
proof -
  let ?dsw = "fold dsw_step cs (NewDesiredStateOfWorld mgr)"
  have "managed (NewDesiredStateOfWorld mgr) = {}" "scheduled (NewDesiredStateOfWorld mgr) = {}"
      "dsw_volumePluginMgr (NewDesiredStateOfWorld mgr) = mgr"
    by (simp_all add: managed_def scheduled_def NodeExists_def scheduled_pod_def NewDesiredStateOfWorld_def)
  with dsw_run [OF dsw_inv_new, of cs mgr]
  have r: "dsw_inv ?dsw" "(managed ?dsw, scheduled ?dsw) = fold (dsw_spec mgr) cs ({}, {})" by simp_all
  from GetVolumesToAttach_keys [OF r(1)] VolumeExists_scheduled [OF r(1)] r(2) show ?thesis by simp
qed

text \<open>One pass of the populator removes nothing of a pod that the informer still has under its UID
  (or cannot look up), and for every pod of the desired state it looks at exactly one of the volumes
  the pod uses; if that pod is gone, exactly this volume is released.\<close>

theorem populator_removes_gone_pods:
  assumes "dsw_inv dsw"
  shows "scheduled (findAndRemoveDeletedPods getByKey dsw) =
      scheduled dsw - {(p, pta_VolumeName e, pta_NodeName e) | p e.
        mget (GetPodToAdd dsw) p = Some e \<and> pod_gone getByKey p (pta_Pod e)} \<and>
    (\<forall>p v n. (p, v, n) \<in> scheduled dsw \<longrightarrow> (\<exists>e. mget (GetPodToAdd dsw) p = Some e)) \<and>
    (\<forall>p e. mget (GetPodToAdd dsw) p = Some e \<longrightarrow>
       map_option dpod_podObj (scheduled_pod dsw p (pta_VolumeName e) (pta_NodeName e)) = Some (pta_Pod e))"
proof -
  have wf: "mwf (GetPodToAdd dsw)" by (simp add: GetPodToAdd_flat mwf_fold_mput)
  have a: "scheduled (findAndRemoveDeletedPods getByKey dsw) =
      scheduled dsw - {(p, pta_VolumeName e, pta_NodeName e) | p e.
        mget (GetPodToAdd dsw) p = Some e \<and> pod_gone getByKey p (pta_Pod e)}"
    unfolding findAndRemoveDeletedPods_def remove_step gm.entries_get [OF wf, symmetric]
    by (rule remove_loop [OF assms, THEN conjunct2])
  have b: "\<exists>e. mget (GetPodToAdd dsw) p = Some e" if sch: "(p, v, n) \<in> scheduled dsw" for p v n
  proof -
    from sch obtain pod where "scheduled_pod dsw p v n = Some pod" by (auto simp: scheduled_def)
    then have "(p, \<lparr>pta_Pod = dpod_podObj pod, pta_VolumeName = v, pta_NodeName = n\<rparr>) \<in> set (pods_flat dsw)"
      by (simp add: pods_flat_iff [OF assms])
    then have "p \<in> fst ` set (pods_flat dsw)" by force
    then have "mget (GetPodToAdd dsw) p \<noteq> None" by (simp add: GetPodToAdd_flat mget_fold_mput_None)
    then show ?thesis by auto
  qed
  have c: "map_option dpod_podObj (scheduled_pod dsw p (pta_VolumeName e) (pta_NodeName e)) = Some (pta_Pod e)"
    if "mget (GetPodToAdd dsw) p = Some e" for p e
    using mget_fold_mput_SomeD [of "pods_flat dsw" "[]" p e] that pods_flat_iff [OF assms, of p e]
    by (auto simp: GetPodToAdd_flat)
  show ?thesis by (intro conjI allI impI) (rule a, erule b, erule c)
qed

definition sample_pod :: v1_Pod where
  "sample_pod = \<lparr>pod_Name = ''web'', pod_Namespace = ''default'', pod_UID = ''u'', pod_NodeName = ''n'',
     pod_Volumes = [], pod_FSGroup = None, pod_SupplementalGroups = [], pod_Phase = PodRunning\<rparr>"

definition sample_dsw :: desiredStateOfWorld where
  "sample_dsw = fold dsw_step [AddNode_call ''n'', AddPod_call ''u'' sample_pod sample_spec ''n'']
     (NewDesiredStateOfWorld [(''p'', sample_plugin ''p'')])"

theorem populator_removes_gone_pods_witness:
  "dsw_inv sample_dsw \<and> (''u'', ''p/v'', ''n'') \<in> scheduled sample_dsw \<and>
   (''u'', ''p/v'', ''n'') \<notin> scheduled (findAndRemoveDeletedPods (\<lambda>_. Inr None) sample_dsw)"
proof -
  have inv: "dsw_inv sample_dsw" unfolding sample_dsw_def using dsw_run [OF dsw_inv_new] by blast
  have "map_option (\<lambda>e. (pta_VolumeName e, pta_NodeName e)) (mget (GetPodToAdd sample_dsw) ''u'') = Some (''p/v'', ''n'')"
    by code_simp
  then obtain e where e: "mget (GetPodToAdd sample_dsw) ''u'' = Some e" "pta_VolumeName e = ''p/v''" "pta_NodeName e = ''n''"
    by auto
  have gone: "pod_gone (\<lambda>_. Inr None) ''u'' (pta_Pod e)" by (simp add: pod_gone_def)
  note t = populator_removes_gone_pods [OF inv, of "\<lambda>_. Inr None"]
  have "map_option dpod_podObj (scheduled_pod sample_dsw ''u'' (pta_VolumeName e) (pta_NodeName e)) = Some (pta_Pod e)"
    using t [THEN conjunct2, THEN conjunct2, rule_format, OF e(1)] .
  then have "(''u'', ''p/v'', ''n'') \<in> scheduled sample_dsw" by (auto simp: scheduled_def e)
  moreover have "(''u'', pta_VolumeName e, pta_NodeName e) \<notin> scheduled (findAndRemoveDeletedPods (\<lambda>_. Inr None) sample_dsw)"
    unfolding t [THEN conjunct1] using e(1) gone by blast
  ultimately show ?thesis using inv by (simp add: e)
qed

end
