(* ===== verification/Node_Status_Updater.thy ===== *)
theory Node_Status_Updater
  imports AD_Actual_State
begin

text \<open>
  \<open>pkg/controller/volume/attachdetach/statusupdater/node_status_updater.go\<close>: writes the volumes to be
  reported as attached into the status of the node objects. The node informer, the preparation of the
  patch (deep copy, JSON encoding, strategic merge patch) and the API server are parameters.
\<close>



text \<open>
  \<open>nu_GetByKey\<close> is nothing when the informer does not have the node or fails; \<open>nu_CreatePatch\<close> gets the
  node from the informer and its copy with the new list; \<open>nu_PatchStatus\<close> acts on the API server.
\<close>

record ('w, 'patch) nodeStatusUpdater =
  nu_GetByKey :: "node_name \<Rightarrow> v1_Node option"
  nu_CreatePatch :: "v1_Node \<Rightarrow> v1_Node \<Rightarrow> error + 'patch"
  nu_PatchStatus :: "node_name \<Rightarrow> 'patch \<Rightarrow> 'w \<Rightarrow> error option \<times> 'w"

fun UpdateNodeStatuses_loop ::
    "('w, 'patch) nodeStatusUpdater \<Rightarrow> (node_name, v1_AttachedVolume list) gomap \<Rightarrow>
     actualStateOfWorld \<times> 'w \<Rightarrow> error option \<times> actualStateOfWorld \<times> 'w" where
  "UpdateNodeStatuses_loop nsu [] (asw, w) = (None, asw, w)"
| "UpdateNodeStatuses_loop nsu ((nodeName, attachedVolumes) # rest) (asw, w) =
     (case nu_GetByKey nsu nodeName of
        None \<Rightarrow> UpdateNodeStatuses_loop nsu rest (SetNodeStatusUpdateNeeded nodeName asw, w)
      | Some node \<Rightarrow>
          (case nu_CreatePatch nsu node (node\<lparr>node_VolumesAttached := attachedVolumes\<rparr>) of
             Inl err \<Rightarrow> (Some (Errorf ''failed to prepare the patch for node'' (Some err)), asw, w)
           | Inr patchBytes \<Rightarrow>
               (case nu_PatchStatus nsu nodeName patchBytes w of
                  (Some err, w') \<Rightarrow>
                    (Some (Errorf ''failed to kubeClient.Core().Nodes().Patch for node'' (Some err)),
                     SetNodeStatusUpdateNeeded nodeName asw, w')
                | (None, w') \<Rightarrow> UpdateNodeStatuses_loop nsu rest (asw, w'))))"

definition UpdateNodeStatuses ::
    "('w, 'patch) nodeStatusUpdater \<Rightarrow> actualStateOfWorld \<times> 'w \<Rightarrow> error option \<times> actualStateOfWorld \<times> 'w" where
  "UpdateNodeStatuses nsu s =
     (let (asw, w) = s; (nodesToUpdate, asw) = GetVolumesToReportAttached asw
      in UpdateNodeStatuses_loop nsu nodesToUpdate (asw, w))"

section \<open>Lemmas\<close>

definition update_needed :: "actualStateOfWorld \<Rightarrow> node_name \<Rightarrow> bool" where
  "update_needed asw n = (case mget (asw_nodesToUpdateStatusFor asw) n of
     None \<Rightarrow> False | Some o' \<Rightarrow> nus_statusUpdateNeeded o')"

definition report_for :: "actualStateOfWorld \<Rightarrow> node_name \<Rightarrow> v1_AttachedVolume list option" where
  "report_for asw n = map_option (report_of asw) (mget (asw_nodesToUpdateStatusFor asw) n)"

lemma report_for_names:
  assumes "asw_inv asw" and "report_for asw n = Some r"
  shows "distinct (map av_Name r)" and "set (map av_Name r) = {v. reported asw v n}"
proof -
  obtain o' where o': "mget (asw_nodesToUpdateStatusFor asw) n = Some o'" and r: "r = report_of asw o'"
    using assms(2) by (auto simp: report_for_def)
  have ok: "nus_ok n o'" using assms(1) o' by (auto simp: asw_inv_def dest: nus_ok_get)
  then have w: "mwf (nus_volumesToReportAsAttached o')" by (simp add: nus_ok_def)
  have names: "map av_Name r = map fst (nus_volumesToReportAsAttached o')"
    using ok gm.entries_get [OF w] by (auto simp: r report_of_def nus_ok_def mall_def)
  show "distinct (map av_Name r)" unfolding names using w by (simp add: mwf_def)
  show "set (map av_Name r) = {v. reported asw v n}"
    unfolding names by (auto simp: reported_def o' mhas_def mget_None_iff)
qed

lemma update_needed_Set:
  "update_needed (SetNodeStatusUpdateNeeded n asw) n' \<longleftrightarrow>
     update_needed asw n' \<or> n' = n \<and> mhas (asw_nodesToUpdateStatusFor asw) n"
  by (auto simp: SetNodeStatusUpdateNeeded_def updateNodeStatusUpdateNeeded_def update_needed_def mhas_def
      gm.get_put split: option.splits)

lemma Set_keeps:
  "mhas (asw_nodesToUpdateStatusFor (SetNodeStatusUpdateNeeded n asw)) n' = mhas (asw_nodesToUpdateStatusFor asw) n'"
  "reported (SetNodeStatusUpdateNeeded n asw) = reported asw"
  "VolumeNodeExists (SetNodeStatusUpdateNeeded n asw) = VolumeNodeExists asw"
  by (auto simp: SetNodeStatusUpdateNeeded_def updateNodeStatusUpdateNeeded_def mhas_def
      gm.get_put AD_Actual_State.update_needed [unfolded updateNodeStatusUpdateNeeded_def] split: option.splits)

lemma GetVolumesToReportAttached_get:
  assumes "asw_inv asw"
  shows "mget (fst (GetVolumesToReportAttached asw)) n =
      (if update_needed asw n then report_for asw n else None)"
    and "\<not> update_needed (snd (GetVolumesToReportAttached asw)) n"
    and "mwf (fst (GetVolumesToReportAttached asw))"
proof -
  have ok: "mwf (asw_nodesToUpdateStatusFor asw)" "mall nus_ok (asw_nodesToUpdateStatusFor asw)"
    using assms by (simp_all add: asw_inv_def asw_shape_def)
  show "mget (fst (GetVolumesToReportAttached asw)) n = (if update_needed asw n then report_for asw n else None)"
    unfolding GetVolumesToReportAttached_fold report_fold_map [OF ok] report_for_def update_needed_def
    by (auto split: option.splits)
  show "\<not> update_needed (snd (GetVolumesToReportAttached asw)) n"
    using GetVolumesToReportAttached_facts(4) [OF assms, of n]
    by (cases "mget (asw_nodesToUpdateStatusFor asw) n") (simp_all add: update_needed_def)
  have "mwf (fst (fold report_step es (acc, asw)))" if "mwf acc" for es acc asw
    using that by (induction es arbitrary: acc asw) (auto simp: report_step_def split: prod.splits)
  then show "mwf (fst (GetVolumesToReportAttached asw))" by (simp add: GetVolumesToReportAttached_fold)
qed

text \<open>
  The documented effect of patching the status of a node: on success the new list is what the API
  server has for that node, and the other nodes are left alone.
\<close>

definition patch_law ::
    "('w, 'patch) nodeStatusUpdater \<Rightarrow> ('w \<Rightarrow> node_name \<Rightarrow> v1_AttachedVolume list option) \<Rightarrow> bool" where
  "patch_law nsu status \<longleftrightarrow>
     (\<forall>n node vols patch w w'.
        nu_GetByKey nsu n = Some node \<longrightarrow> nu_CreatePatch nsu node (node\<lparr>node_VolumesAttached := vols\<rparr>) = Inr patch \<longrightarrow>
        nu_PatchStatus nsu n patch w = (None, w') \<longrightarrow> status w' = (status w)(n := Some vols))"

lemma patch_lawD:
  "patch_law nsu status \<Longrightarrow> nu_GetByKey nsu n = Some node \<Longrightarrow>
   nu_CreatePatch nsu node (node\<lparr>node_VolumesAttached := vols\<rparr>) = Inr patch \<Longrightarrow>
   nu_PatchStatus nsu n patch w = (None, w') \<Longrightarrow> status w' = (status w)(n := Some vols)"
  by (auto simp: patch_law_def)

lemma UpdateNodeStatuses_loop_ok:
  assumes "patch_law nsu status"
  shows "UpdateNodeStatuses_loop nsu es (asw, w) = (None, asw', w') \<Longrightarrow> mwf es \<Longrightarrow>
    (\<forall>n. status w' n = (case mget es n of
        Some vols \<Rightarrow> if nu_GetByKey nsu n = None then status w n else Some vols | None \<Rightarrow> status w n)) \<and>
    (\<forall>n. update_needed asw' n \<longleftrightarrow> update_needed asw n \<or>
        mget es n \<noteq> None \<and> nu_GetByKey nsu n = None \<and> mhas (asw_nodesToUpdateStatusFor asw) n) \<and>
    reported asw' = reported asw \<and> VolumeNodeExists asw' = VolumeNodeExists asw"
proof (induction es arbitrary: asw w)
  case Nil
  then show ?case by simp
next
  case (Cons e es)
  obtain k vols where e: "e = (k, vols)" by (cases e)
  have wf: "mwf es" and fresh: "mget es k = None" using Cons.prems(2) by (simp_all add: e)
  show ?case
  proof (cases "nu_GetByKey nsu k")
    case None
    then have "UpdateNodeStatuses_loop nsu es (SetNodeStatusUpdateNeeded k asw, w) = (None, asw', w')"
      using Cons.prems(1) by (simp add: e)
    from Cons.IH [OF this wf] None fresh show ?thesis
      by (auto simp: e update_needed_Set Set_keeps)
  next
    case (Some node)
    then obtain patch w1 where p: "nu_CreatePatch nsu node (node\<lparr>node_VolumesAttached := vols\<rparr>) = Inr patch"
      "nu_PatchStatus nsu k patch w = (None, w1)" "UpdateNodeStatuses_loop nsu es (asw, w1) = (None, asw', w')"
      using Cons.prems(1) by (auto simp: e split: sum.splits prod.splits option.splits)
    from Cons.IH [OF p(3) wf] patch_lawD [OF assms Some p(1,2)] Some fresh show ?thesis
      by (auto simp: e split: option.split)
  qed
qed

section \<open>Properties\<close>

text \<open>When \<open>UpdateNodeStatuses\<close> returns nil, the API server has for every node with a pending status
  update that the informer knows exactly the volumes to be reported, each once; nodes without a pending
  update keep their status; and a pending update remains exactly for the nodes the informer does not
  know. (\<open>patch_law\<close>: a successful patch of a node's status sets it to the new list.)\<close>

theorem status_reports_delivered:
  assumes "asw_inv asw" and "patch_law nsu status"
    and "UpdateNodeStatuses nsu (asw, w) = (None, asw', w')"
  shows "(\<forall>n. update_needed asw n \<and> nu_GetByKey nsu n \<noteq> None \<longrightarrow>
        (\<exists>r. status w' n = Some r \<and> distinct (map av_Name r) \<and> set (map av_Name r) = {v. reported asw' v n})) \<and>
    (\<forall>n. \<not> update_needed asw n \<longrightarrow> status w' n = status w n) \<and>
    (\<forall>n. update_needed asw' n \<longleftrightarrow> update_needed asw n \<and> nu_GetByKey nsu n = None) \<and>
    reported asw' = reported asw"
proof -
  let ?es = "fst (GetVolumesToReportAttached asw)" and ?asw = "snd (GetVolumesToReportAttached asw)"
  have loop: "UpdateNodeStatuses_loop nsu ?es (?asw, w) = (None, asw', w')"
    using assms(3) by (simp add: UpdateNodeStatuses_def split_def Let_def)
  note get = GetVolumesToReportAttached_get [OF assms(1)] and facts = GetVolumesToReportAttached_facts [OF assms(1)]
  note ok = UpdateNodeStatuses_loop_ok [OF assms(2) loop get(3)]
  have rep: "reported asw' = reported asw" using ok facts(3) by simp
  have has: "update_needed asw n \<Longrightarrow> mhas (asw_nodesToUpdateStatusFor ?asw) n \<and> report_for asw n \<noteq> None" for n
    using facts(4) [of n] by (auto simp: update_needed_def mhas_def report_for_def split: option.splits)
  have "\<exists>r. status w' n = Some r \<and> distinct (map av_Name r) \<and> set (map av_Name r) = {v. reported asw' v n}"
    if needed: "update_needed asw n" and known: "nu_GetByKey nsu n \<noteq> None" for n
  proof -
    obtain r where r: "report_for asw n = Some r" using has [OF needed] by auto
    then have "status w' n = Some r" using ok get(1) [of n] needed known by auto
    then show ?thesis using report_for_names [OF assms(1) r] rep by simp
  qed
  moreover have "status w' n = status w n" if "\<not> update_needed asw n" for n
    using ok get(1) [of n] that by simp
  moreover have "update_needed asw' n \<longleftrightarrow> update_needed asw n \<and> nu_GetByKey nsu n = None" for n
    using ok get(1,2) [of n] has [of n] by auto
  ultimately show ?thesis using rep by blast
qed

text \<open>An API server for examples: a list of refused node names and the stored lists.\<close>

definition sample_updater :: "node_name list \<Rightarrow> ((node_name \<Rightarrow> v1_AttachedVolume list option), v1_AttachedVolume list) nodeStatusUpdater" where
  "sample_updater refused =
     \<lparr>nu_GetByKey = (\<lambda>n. Some \<lparr>node_Name = n, node_Annotations = [], node_VolumesAttached = [], node_VolumesInUse = []\<rparr>),
      nu_CreatePatch = (\<lambda>_ node. Inr (node_VolumesAttached node)),
      nu_PatchStatus = (\<lambda>n patch w. if n \<in> set refused then (Some (Errorf ''refused'' None), w) else (None, w(n \<mapsto> patch)))\<rparr>"

definition two_nodes :: actualStateOfWorld where
  "two_nodes = fold asw_step [AddVolumeNode_call sample_spec ''a'' ''dev'', AddVolumeNode_call sample_spec ''b'' ''dev'']
     (NewActualStateOfWorld [(''p'', sample_plugin ''p'')])"

lemma two_nodes_inv: "asw_inv two_nodes"
  unfolding two_nodes_def using asw_run [OF asw_inv_new] by blast

lemma sample_updater_law: "patch_law (sample_updater refused) (\<lambda>w. w)"
  by (auto simp: patch_law_def sample_updater_def split: if_splits)

theorem status_reports_delivered_witness:
  "\<exists>asw' w'. UpdateNodeStatuses (sample_updater []) (two_nodes, \<lambda>_. None) = (None, asw', w') \<and>
     update_needed two_nodes ''a'' \<and> (\<exists>r. w' ''a'' = Some r \<and> set (map av_Name r) = {v. reported asw' v ''a''})"
proof -
  have "fst (UpdateNodeStatuses (sample_updater []) (two_nodes, \<lambda>_. None)) = None" by code_simp
  then obtain asw' w' where u: "UpdateNodeStatuses (sample_updater []) (two_nodes, \<lambda>_. None) = (None, asw', w')"
    by (cases "UpdateNodeStatuses (sample_updater []) (two_nodes, \<lambda>_. None)") auto
  have n: "update_needed two_nodes ''a''" by code_simp
  have "\<exists>r. w' ''a'' = Some r \<and> set (map av_Name r) = {v. reported asw' v ''a''}"
    using status_reports_delivered [OF two_nodes_inv sample_updater_law u] n by (auto simp: sample_updater_def)
  with u n show ?thesis by blast
qed

text \<open>A refused patch makes the loop return at once, although the pending flags of all nodes were
  reset before: with the patch of node \<open>a\<close> refused, node \<open>b\<close> is neither patched nor left pending, and
  the next call, with the API server back, reports \<open>a\<close> and nothing for \<open>b\<close>.\<close>

theorem refused_patch_loses_reports:
  "case UpdateNodeStatuses (sample_updater [''a'']) (two_nodes, \<lambda>_. None) of
     (err, asw1, w1) \<Rightarrow>
       err \<noteq> None \<and> reported asw1 ''p/v'' ''b'' \<and> \<not> update_needed asw1 ''b'' \<and> w1 ''b'' = None \<and>
       (case UpdateNodeStatuses (sample_updater []) (asw1, w1) of
          (err2, asw2, w2) \<Rightarrow> err2 = None \<and> w2 ''a'' \<noteq> None \<and> reported asw2 ''p/v'' ''b'' \<and> w2 ''b'' = None)"
  by code_simp

end
