(* ===== verification/AD_Reconciler.thy ===== *)
theory AD_Reconciler
  imports Operation_Executor AD_Desired_State Node_Status_Updater
begin

text \<open>
  \<open>pkg/controller/volume/attachdetach/reconciler/reconciler.go\<close>: one pass detaches what is attached
  but not wanted, then attaches what is wanted but not attached, then updates the node statuses.
  \<open>detach_iteration\<close> and \<open>attach_iteration\<close> are the bodies of the two loops. The loops run over a
  snapshot while goroutines, the populator and the node updates change the caches: \<open>ad_step\<close> is the
  relation of all these interleavings, with the reconciler's position in the pass as its program counter.
\<close>

text \<open>The actual state of the world of this controller as the executor's interface.\<close>

definition ad_updater :: "actualStateOfWorld ActualStateOfWorldAttacherUpdater" where
  "ad_updater = \<lparr>au_MarkVolumeAsAttached = MarkVolumeAsAttached, au_MarkVolumeAsDetached = MarkVolumeAsDetached,
     au_RemoveVolumeFromReportAsAttached = RemoveVolumeFromReportAsAttached,
     au_AddVolumeToReportAsAttached = AddVolumeToReportAsAttached\<rparr>"

record ('w, 'patch) reconciler =
  rc_maxWaitForUnmountDuration :: duration
  rc_outside :: "'w outside"
  rc_generator :: operationGenerator
  rc_nodeStatusUpdater :: "('w, 'patch) nodeStatusUpdater"

record 'w ad_state =
  ad_asw :: actualStateOfWorld
  ad_dsw :: desiredStateOfWorld
  ad_oe :: operationExecutor
  ad_w :: 'w

text \<open>\<open>now i\<close> is the clock at the \<open>i\<close>-th reading of the iteration.\<close>

definition detach_iteration ::
    "('w, 'patch) reconciler \<Rightarrow> (nat \<Rightarrow> time) \<Rightarrow> AD_AttachedVolume \<Rightarrow> 'w ad_state \<Rightarrow> 'w ad_state" where
  "detach_iteration rc now attachedVolume st =
     (let v = atv_VolumeName attachedVolume; n = atv_NodeName attachedVolume in
      if VolumeExists (ad_dsw st) v n then st
      else case SetDetachRequestTime (now 0) (now 1) v n (ad_asw st) of
          (Inl err, asw) \<Rightarrow> st\<lparr>ad_asw := asw\<rparr>
        | (Inr elapsedTime, asw) \<Rightarrow>
            let timeout = (elapsedTime > rc_maxWaitForUnmountDuration rc) in
            if atv_MountedByNode attachedVolume \<and> \<not> timeout then st\<lparr>ad_asw := asw\<rparr>
            else let asw = snd (RemoveVolumeFromReportAsAttached v n asw);
                     (err, asw, w) = UpdateNodeStatuses (rc_nodeStatusUpdater rc) (asw, ad_w st);
                     st = st\<lparr>ad_asw := asw, ad_w := w\<rparr>
                 in if err \<noteq> None then st
                    else st\<lparr>ad_oe := snd (DetachVolume (rc_outside rc) (rc_generator rc) (now 2)
                           (AttachedVolume.truncate attachedVolume) (\<not> timeout) (ad_oe st))\<rparr>)"

definition attach_iteration ::
    "('w, 'patch) reconciler \<Rightarrow> (nat \<Rightarrow> time) \<Rightarrow> VolumeToAttach \<Rightarrow> 'w ad_state \<Rightarrow> 'w ad_state" where
  "attach_iteration rc now volumeToAttach st =
     (let v = vtoa_VolumeName volumeToAttach; n = vtoa_NodeName volumeToAttach in
      if VolumeNodeExists (ad_asw st) v n
      then st\<lparr>ad_asw := ResetDetachRequestTime v n (ad_asw st)\<rparr>
      else st\<lparr>ad_oe := snd (AttachVolume (rc_outside rc) (rc_generator rc) (now 0) volumeToAttach (ad_oe st))\<rparr>)"

definition update_statuses :: "('w, 'patch) reconciler \<Rightarrow> 'w ad_state \<Rightarrow> 'w ad_state" where
  "update_statuses rc st =
     (let (err, asw, w) = UpdateNodeStatuses (rc_nodeStatusUpdater rc) (ad_asw st, ad_w st)
      in st\<lparr>ad_asw := asw, ad_w := w\<rparr>)"

text \<open>A pass that is not interrupted; \<open>now\<close> gives the clock for each entry of the two loops.\<close>

definition reconcile ::
    "('w, 'patch) reconciler \<Rightarrow> (unique_volume_name \<Rightarrow> node_name \<Rightarrow> nat \<Rightarrow> time) \<Rightarrow> 'w ad_state \<Rightarrow> 'w ad_state" where
  "reconcile rc now st =
     (let st = fold (\<lambda>a. detach_iteration rc (now (atv_VolumeName a) (atv_NodeName a)) a)
                 (GetAttachedVolumes (ad_asw st)) st;
          st = fold (\<lambda>a. attach_iteration rc (now (vtoa_VolumeName a) (vtoa_NodeName a)) a)
                 (GetVolumesToAttach (ad_dsw st)) st
      in update_statuses rc st)"

text \<open>\<open>syncStates\<close>: one verification per node; \<open>None\<close> when generating the function panics.\<close>

fun syncStates_loop ::
    "operationGenerator \<Rightarrow> time \<Rightarrow> (node_name, AttachedVolume list) gomap \<Rightarrow> operationExecutor \<Rightarrow> operationExecutor option" where
  "syncStates_loop og now [] oe = Some oe"
| "syncStates_loop og now ((nodeName, volumes) # rest) oe =
     (case VerifyVolumesAreAttached og now volumes nodeName oe of
        None \<Rightarrow> None | Some (_, oe') \<Rightarrow> syncStates_loop og now rest oe')"

definition syncStates :: "('w, 'patch) reconciler \<Rightarrow> time \<Rightarrow> 'w ad_state \<Rightarrow> 'w ad_state option" where
  "syncStates rc now st =
     map_option (\<lambda>oe. st\<lparr>ad_oe := oe\<rparr>)
       (syncStates_loop (rc_generator rc) now (GetAttachedVolumesPerNode (ad_asw st)) (ad_oe st))"

section \<open>The interleavings\<close>

datatype pc = Idle | Detaching "AD_AttachedVolume list" | Attaching "VolumeToAttach list"

text \<open>The controller has no mounter: the executor's mount functions are never generated here.\<close>

definition no_mounter :: "actualStateOfWorld ActualStateOfWorldMounterUpdater" where
  "no_mounter = \<lparr>mu_MarkVolumeAsMounted = (\<lambda>_ _ _ _ _ _ s. (None, s)), mu_MarkVolumeAsUnmounted = (\<lambda>_ _ s. (None, s)),
     mu_MarkDeviceAsMounted = (\<lambda>_ s. (None, s)), mu_MarkDeviceAsUnmounted = (\<lambda>_ s. (None, s))\<rparr>"

inductive ad_step :: "('w, 'patch) reconciler \<Rightarrow> pc \<times> 'w ad_state \<Rightarrow> pc \<times> 'w ad_state \<Rightarrow> bool" for rc where
  pass: "ad_step rc (Idle, st) (Detaching (GetAttachedVolumes (ad_asw st)), st)"
| detach: "ad_step rc (Detaching (a # as), st) (Detaching as, detach_iteration rc now a st)"
| attaching: "ad_step rc (Detaching [], st) (Attaching (GetVolumesToAttach (ad_dsw st)), st)"
| attach: "ad_step rc (Attaching (v # vs), st) (Attaching vs, attach_iteration rc now v st)"
| statuses: "ad_step rc (Attaching [], st) (Idle, update_statuses rc st)"
| sync: "syncStates rc now st = Some st' \<Longrightarrow> ad_step rc (Idle, st) (Idle, st')"
| finished: "finish (rc_outside rc) (rc_generator rc) ad_updater no_mounter now g (ad_oe st) (ad_asw st, ad_w st) =
      Some (err, oe', asw', w') \<Longrightarrow> ad_step rc (p, st) (p, st\<lparr>ad_asw := asw', ad_oe := oe', ad_w := w'\<rparr>)"
| desire: "ad_step rc (p, st) (p, st\<lparr>ad_dsw := dsw_step c (ad_dsw st)\<rparr>)"
| mounted: "ad_step rc (p, st) (p, st\<lparr>ad_asw := snd (SetVolumeMountedByNode v n b (ad_asw st))\<rparr>)"
| outside: "ad_step rc (p, st) (p, st\<lparr>ad_w := w'\<rparr>)"

inductive ad_reach :: "('w, 'patch) reconciler \<Rightarrow> 'w \<Rightarrow> pc \<times> 'w ad_state \<Rightarrow> bool" for rc w where
  ad_init: "ad_reach rc w (Idle, \<lparr>ad_asw = NewActualStateOfWorld (og_volumePluginMgr (rc_generator rc)),
      ad_dsw = NewDesiredStateOfWorld (og_volumePluginMgr (rc_generator rc)), ad_oe = NewOperationExecutor, ad_w = w\<rparr>)"
| ad_next: "ad_reach rc w s \<Longrightarrow> ad_step rc s s' \<Longrightarrow> ad_reach rc w s'"

inductive_cases ad_stepE: "ad_step rc (p, st) (p', st')"

section \<open>The cache satisfies the executor's contract\<close>

lemma MarkVolumeAsAttached_cases:
  assumes "asw_inv asw"
  shows "MarkVolumeAsAttached v spec n dev asw =
     (case attachable_volume_name (asw_volumePluginMgr asw) spec of
        Inl err \<Rightarrow> (Some err, asw) | Inr u \<Rightarrow> (None, snd (AddVolumeNode spec n dev asw)))"
proof (cases "attachable_volume_name (asw_volumePluginMgr asw) spec")
  case (Inl err)
  then show ?thesis by (simp add: MarkVolumeAsAttached_def AddVolumeNode_Inl)
next
  case (Inr u)
  then obtain asw' where "AddVolumeNode spec n dev asw = (Inr u, asw')"
    using AddVolumeNode_Inr(1) [OF assms Inr, of n dev] by (metis prod.collapse)
  with Inr show ?thesis by (simp add: MarkVolumeAsAttached_def)
qed

lemma MarkVolumeAsAttached_err: "MarkVolumeAsAttached v spec n dev asw = (Some e, asw') \<Longrightarrow> asw' = asw"
  by (cases "attachable_volume_name (asw_volumePluginMgr asw) spec")
    (auto simp: MarkVolumeAsAttached_def AddVolumeNode_def Let_def)

interpretation adu: reporting_updater ad_updater asw_inv VolumeNodeExists
  "\<lambda>asw v spec. case attachable_volume_name (asw_volumePluginMgr asw) spec of Inl _ \<Rightarrow> None | Inr u \<Rightarrow> Some u" reported
proof unfold_locales
  fix s s' :: actualStateOfWorld and v u :: unique_volume_name and n n' :: node_name and spec :: Spec and dev e
  show "asw_inv s' \<and> (\<exists>u. (case attachable_volume_name (asw_volumePluginMgr s) spec of Inl _ \<Rightarrow> None | Inr u \<Rightarrow> Some u) = Some u \<and>
      VolumeNodeExists s' u n \<and> (\<forall>u' n'. u' \<noteq> u \<longrightarrow> VolumeNodeExists s' u' n' = VolumeNodeExists s u' n') \<and>
      (\<forall>u' n'. VolumeNodeExists s u' n' \<longrightarrow> VolumeNodeExists s' u' n'))"
    if i: "asw_inv s" and m: "au_MarkVolumeAsAttached ad_updater v spec n dev s = (None, s')"
    using m MarkVolumeAsAttached_cases [OF i, of v spec n dev] AddVolumeNode_Inr(2,3) [OF i]
    by (auto simp: ad_updater_def split: sum.splits)
  show "s' = s" if "au_MarkVolumeAsAttached ad_updater v spec n dev s = (Some e, s')"
    using that MarkVolumeAsAttached_err by (simp add: ad_updater_def)
  show "asw_inv (au_MarkVolumeAsDetached ad_updater v n s)" if "asw_inv s"
    using DeleteVolumeNode_facts(1) [OF that] by (simp add: ad_updater_def MarkVolumeAsDetached_def)
  show "VolumeNodeExists (au_MarkVolumeAsDetached ad_updater v n s) u n' \<longleftrightarrow> (u, n') \<noteq> (v, n) \<and> VolumeNodeExists s u n'"
    if "asw_inv s"
    using DeleteVolumeNode_facts(2) [OF that] by (simp add: ad_updater_def MarkVolumeAsDetached_def)
  then show "VolumeNodeExists (au_MarkVolumeAsDetached ad_updater v n s) u n' = VolumeNodeExists s u n'"
    if "asw_inv s" "u \<noteq> v" using that by simp
  show "VolumeNodeExists s u n'" if "asw_inv s" "VolumeNodeExists (au_MarkVolumeAsDetached ad_updater v n s) u n'"
    using that DeleteVolumeNode_facts(2) [OF that(1)] by (simp add: ad_updater_def MarkVolumeAsDetached_def)
  show "reported (au_MarkVolumeAsDetached ad_updater v n s) u n' \<longleftrightarrow> (u, n') \<noteq> (v, n) \<and> reported s u n'" if "asw_inv s"
    using DeleteVolumeNode_facts(3) [OF that] by (simp add: ad_updater_def MarkVolumeAsDetached_def)
  show "asw_inv (au_AddVolumeToReportAsAttached ad_updater v n s)" if "asw_inv s"
    using report_inv(2) [OF that] by (simp add: ad_updater_def AddVolumeToReportAsAttached_def)
  show "VolumeNodeExists (au_AddVolumeToReportAsAttached ad_updater v n s) = VolumeNodeExists s"
    by (simp add: ad_updater_def AddVolumeToReportAsAttached_def add_report)
  show "reported (au_AddVolumeToReportAsAttached ad_updater v n s) u n' \<longleftrightarrow>
      reported s u n' \<or> (u, n') = (v, n) \<and> VolumeNodeExists s v n"
    by (simp add: ad_updater_def AddVolumeToReportAsAttached_def add_report)
qed

section \<open>Invariant\<close>

lemma UpdateNodeStatuses_inv:
  assumes "asw_inv asw" and "UpdateNodeStatuses nsu (asw, w) = (err, asw', w')"
  shows "asw_inv asw' \<and> VolumeNodeExists asw' = VolumeNodeExists asw \<and> reported asw' = reported asw \<and>
    asw_volumePluginMgr asw' = asw_volumePluginMgr asw"
proof -
  have loop: "asw_inv asw1 \<Longrightarrow> UpdateNodeStatuses_loop nsu es (asw1, w1) = (err, asw', w') \<Longrightarrow>
      asw_inv asw' \<and> VolumeNodeExists asw' = VolumeNodeExists asw1 \<and> reported asw' = reported asw1 \<and>
      asw_volumePluginMgr asw' = asw_volumePluginMgr asw1" for es asw1 w1
  proof (induction es arbitrary: asw1 w1)
    case (Cons e es)
    have set: "asw_inv (SetNodeStatusUpdateNeeded n asw1)"
        "asw_volumePluginMgr (SetNodeStatusUpdateNeeded n asw1) = asw_volumePluginMgr asw1" for n
      using report_inv(3) [OF Cons.prems(1)] by (simp_all add: SetNodeStatusUpdateNeeded_def)
    obtain k vols where e: "e = (k, vols)" by (cases e)
    show ?case
    proof (cases "nu_GetByKey nsu k")
      case None
      with Cons.IH [OF set(1)] Cons.prems(2) show ?thesis by (simp add: e Set_keeps set)
    next
      case (Some node)
      with Cons.IH [OF Cons.prems(1)] Cons.prems show ?thesis
        by (auto simp: e Set_keeps set split: sum.splits prod.splits option.splits)
    qed
  qed simp
  have "asw_volumePluginMgr (snd (GetVolumesToReportAttached asw)) = asw_volumePluginMgr asw"
    by (simp add: GetVolumesToReportAttached_fold report_fold_state flags_fold_mgr)
  with loop [of "snd (GetVolumesToReportAttached asw)"] GetVolumesToReportAttached_facts(1-3) [OF assms(1)] assms(2)
  show ?thesis by (auto simp: UpdateNodeStatuses_def split_def Let_def)
qed

lemma MarkVolumeAsDetached_facts:
  assumes "asw_inv asw"
  shows "asw_inv (MarkVolumeAsDetached v n asw)"
    and "asw_volumePluginMgr (MarkVolumeAsDetached v n asw) = asw_volumePluginMgr asw"
    and "VolumeNodeExists (MarkVolumeAsDetached v n asw) u n' \<Longrightarrow> VolumeNodeExists asw u n'"
  using DeleteVolumeNode_facts [OF assms] asw_step_mgr [of "DeleteVolumeNode_call v n" asw]
  by (auto simp: MarkVolumeAsDetached_def)

text \<open>The verification only removes volumes.\<close>

lemma fold_keeps: "P s \<Longrightarrow> (\<And>x s. P s \<Longrightarrow> P (f x s)) \<Longrightarrow> P (fold f xs s)"
  by (induction xs arbitrary: s) auto

lemma volumesAreAttachedFunc_inv:
  assumes "asw_inv asw" and "volumesAreAttachedFunc os og ad_updater per specs n (asw, w) = (err, asw', w')"
  shows "asw_inv asw' \<and> asw_volumePluginMgr asw' = asw_volumePluginMgr asw \<and>
    (\<forall>u n'. VolumeNodeExists asw' u n' \<longrightarrow> VolumeNodeExists asw u n') \<and> w' = w"
proof -
  define P where "P = (\<lambda>a. asw_inv a \<and> asw_volumePluginMgr a = asw_volumePluginMgr asw \<and>
    (\<forall>u n'. VolumeNodeExists a u n' \<longrightarrow> VolumeNodeExists asw u n'))"
  have mark: "P (au_MarkVolumeAsDetached ad_updater v n a)" if "P a" for v a
    using that MarkVolumeAsDetached_facts [of a] by (simp add: P_def ad_updater_def)
  have inner: "P (fold (\<lambda>(spec, check) s. if \<not> check then au_MarkVolumeAsDetached ad_updater
       (case mget specs spec of Some v \<Rightarrow> v | None \<Rightarrow> '''') n s else s) ats a)" if "P a" for ats a
    by (rule fold_keeps [of P, OF that]) (simp add: mark split: prod.split)
  have "P asw" using assms(1) by (simp add: P_def)
  then have "P (fst (snd (volumesAreAttachedFunc os og ad_updater per specs n (asw, w))))"
    unfolding volumesAreAttachedFunc_def Let_def prod.case fst_conv snd_conv
    by (rule fold_keeps [of P]) (auto intro: inner split: prod.split sum.split option.split)
  then show ?thesis using assms(2) by (auto simp: P_def volumesAreAttachedFunc_def)
qed

definition goroutine_ok :: "(string, VolumePlugin) gomap \<Rightarrow> op_id \<times> opfunc \<Rightarrow> bool" where
  "goroutine_ok mgr g = (case snd g of
       AttachFunc plugin vta \<Rightarrow> fst g = (vtoa_VolumeName vta, '''') \<and>
         attachable_volume_name mgr (vtoa_VolumeSpec vta) = Inr (vtoa_VolumeName vta)
     | DetachFunc plugin vn vol verify \<Rightarrow> fst g = (atv_VolumeName vol, '''')
     | VolumesAreAttachedFunc _ _ _ \<Rightarrow> fst g = ('''', '''')
     | _ \<Rightarrow> False)"

text \<open>Wanted volumes are stored under the name that their spec has.\<close>

definition volumes_named :: "(string, VolumePlugin) gomap \<Rightarrow> node_name \<Rightarrow> nodeManaged \<Rightarrow> bool" where
  "volumes_named mgr n nodeObj \<longleftrightarrow>
     mall (\<lambda>v volumeObj. attachable_volume_name mgr (vta_spec volumeObj) = Inr v) (nm_volumesToAttach nodeObj)"

definition dsw_named :: "desiredStateOfWorld \<Rightarrow> bool" where
  "dsw_named dsw \<longleftrightarrow> mall (volumes_named (dsw_volumePluginMgr dsw)) (dsw_nodesManaged dsw)"

lemma dsw_named_volumes:
  assumes "dsw_inv dsw" and "dsw_named dsw" and "vta \<in> set (GetVolumesToAttach dsw)"
  shows "attachable_volume_name (dsw_volumePluginMgr dsw) (vtoa_VolumeSpec vta) = Inr (vtoa_VolumeName vta)"
proof -
  have w: "mwf (dsw_nodesManaged dsw)" using assms(1) by (simp add: dsw_inv_def)
  obtain n nodeObj v volumeObj where m: "(n, nodeObj) \<in> set (dsw_nodesManaged dsw)"
      "(v, volumeObj) \<in> set (nm_volumesToAttach nodeObj)" "vtoa_VolumeName vta = v" "vtoa_VolumeSpec vta = vta_spec volumeObj"
    using assms(3) by (auto simp: GetVolumesToAttach_def)
  have n: "mget (dsw_nodesManaged dsw) n = Some nodeObj" using m(1) gm.entries_get [OF w] by simp
  have wv: "mwf (nm_volumesToAttach nodeObj)" using nm_ok_get [OF assms(1) n] by (simp add: nm_ok_def)
  have "mget (nm_volumesToAttach nodeObj) v = Some volumeObj" using m(2) by (simp add: gm.entries_get [OF wv])
  then show ?thesis
    using assms(2) n m(3,4) by (auto simp: dsw_named_def volumes_named_def dest!: mall_get)
qed

lemma dsw_named_step:
  assumes "dsw_named dsw"
  shows "dsw_named (dsw_step c dsw)"
proof -
  let ?mgr = "dsw_volumePluginMgr dsw"
  have all: "mall (volumes_named ?mgr) (dsw_nodesManaged dsw)" using assms by (simp add: dsw_named_def)
  note get = mall_get [OF all]
  have "mall (volumes_named ?mgr) (dsw_nodesManaged (dsw_step c dsw))"
  proof (cases c)
    case (AddNode_call n)
    then show ?thesis using all by (auto simp: AddNode_def volumes_named_def)
  next
    case (AddPod_call p pod spec n)
    show ?thesis
    proof (cases "mget (dsw_nodesManaged dsw) n")
      case (Some nodeObj)
      note named = get [OF Some, unfolded volumes_named_def]
      show ?thesis
      proof (cases "attachable_volume_name ?mgr spec")
        case (Inr v)
        with Some all named mall_get [OF named, of v] show ?thesis
          by (auto simp: AddPod_call AddPod_def Let_def store_volume_def volumes_named_def split: option.split)
      qed (use all Some in \<open>simp add: AddPod_call AddPod_def\<close>)
    qed (use all in \<open>simp add: AddPod_call AddPod_def\<close>)
  next
    case (DeleteNode_call n)
    then show ?thesis using all by (auto simp: DeleteNode_def split: option.split)
  next
    case (DeletePod_call p v n)
    show ?thesis
    proof (cases "mget (dsw_nodesManaged dsw) n")
      case (Some nodeObj)
      note named = get [OF Some, unfolded volumes_named_def]
      show ?thesis
        using all named mall_get [OF named, of v]
        by (auto simp: DeletePod_call DeletePod_def Some Let_def store_volume_def volumes_named_def split: option.split)
    qed (use all in \<open>simp add: DeletePod_call DeletePod_def\<close>)
  qed
  then show ?thesis by (simp add: dsw_named_def)
qed

definition ad_ok :: "('w, 'patch) reconciler \<Rightarrow> 'w ad_state \<Rightarrow> bool" where
  "ad_ok rc st \<longleftrightarrow>
     asw_inv (ad_asw st) \<and> asw_volumePluginMgr (ad_asw st) = og_volumePluginMgr (rc_generator rc) \<and>
     dsw_inv (ad_dsw st) \<and> dsw_volumePluginMgr (ad_dsw st) = og_volumePluginMgr (rc_generator rc) \<and> dsw_named (ad_dsw st) \<and>
     oe_volume_inv (ad_oe st) \<and>
     (\<forall>g \<in> set (oe_goroutines (ad_oe st)). goroutine_ok (og_volumePluginMgr (rc_generator rc)) g)"

definition pc_ok :: "('w, 'patch) reconciler \<Rightarrow> pc \<Rightarrow> bool" where
  "pc_ok rc p \<longleftrightarrow> (\<forall>vs. p = Attaching vs \<longrightarrow> (\<forall>vta \<in> set vs.
     attachable_volume_name (og_volumePluginMgr (rc_generator rc)) (vtoa_VolumeSpec vta) = Inr (vtoa_VolumeName vta)))"

lemma oe_start_goroutines:
  "set (oe_goroutines (snd (oe_start now k gen oe))) \<subseteq> set (oe_goroutines oe) \<union> {(k, f) | f. gen = Inr f}"
  by (auto simp: oe_start_def oe_Run_def split: sum.splits prod.splits option.splits)

lemma emptyPod: "'''' = emptyUniquePodName"
  by (simp add: emptyUniquePodName_def)

lemma GenerateAttach_func: "GenerateAttachVolumeFunc os og vta = Inr f \<Longrightarrow> \<exists>plugin. f = AttachFunc plugin vta"
  by (auto simp: GenerateAttachVolumeFunc_def split: sum.splits option.splits)

lemma GenerateDetach_func:
  "GenerateDetachVolumeFunc os og vol b = Inr f \<Longrightarrow> \<exists>plugin vn. f = DetachFunc plugin vn vol b"
  by (auto simp: GenerateDetachVolumeFunc_def split: sum.splits option.splits)

lemma GenerateVolumesAreAttached_func:
  "GenerateVolumesAreAttachedFunc og vs n = Some f \<Longrightarrow> \<exists>a b. f = VolumesAreAttachedFunc a b n"
  by (auto simp: GenerateVolumesAreAttachedFunc_def)

lemma AttachVolume_inv:
  assumes "oe_volume_inv oe" and "\<forall>g \<in> set (oe_goroutines oe). goroutine_ok mgr g"
    and "attachable_volume_name mgr (vtoa_VolumeSpec vta) = Inr (vtoa_VolumeName vta)"
  shows "oe_volume_inv (snd (AttachVolume os og now vta oe)) \<and>
    (\<forall>g \<in> set (oe_goroutines (snd (AttachVolume os og now vta oe))). goroutine_ok mgr g)"
  using assms oe_start_goroutines [of now "(vtoa_VolumeName vta, '''')" "GenerateAttachVolumeFunc os og vta" oe]
  by (auto simp: AttachVolume_def emptyPod oe_volume_inv_start goroutine_ok_def dest!: GenerateAttach_func subsetD)

lemma DetachVolume_inv:
  assumes "oe_volume_inv oe" and "\<forall>g \<in> set (oe_goroutines oe). goroutine_ok mgr g"
  shows "oe_volume_inv (snd (DetachVolume os og now vol b oe)) \<and>
    (\<forall>g \<in> set (oe_goroutines (snd (DetachVolume os og now vol b oe))). goroutine_ok mgr g)"
  using assms oe_start_goroutines [of now "(atv_VolumeName vol, '''')" "GenerateDetachVolumeFunc os og vol b" oe]
  by (auto simp: DetachVolume_def emptyPod oe_volume_inv_start goroutine_ok_def dest!: GenerateDetach_func subsetD)

lemma syncStates_loop_inv:
  "syncStates_loop og now vs oe = Some oe' \<Longrightarrow> oe_volume_inv oe \<Longrightarrow> \<forall>g \<in> set (oe_goroutines oe). goroutine_ok mgr g \<Longrightarrow>
   oe_volume_inv oe' \<and> (\<forall>g \<in> set (oe_goroutines oe'). goroutine_ok mgr g)"
proof (induction vs arbitrary: oe)
  case (Cons x vs)
  obtain n volumes where x: "x = (n, volumes)" by (cases x)
  from Cons.prems(1) obtain f where f: "GenerateVolumesAreAttachedFunc og volumes n = Some f"
    and rest: "syncStates_loop og now vs (snd (oe_Run now ('''', '''') f oe)) = Some oe'"
    by (auto simp: x VerifyVolumesAreAttached_def split: option.splits prod.splits)
  obtain a b where f': "f = VolumesAreAttachedFunc a b n" using GenerateVolumesAreAttached_func [OF f] by blast
  have "oe_volume_inv (snd (oe_Run now ('''', '''') f oe))"
    using oe_volume_inv_Run [OF Cons.prems(2), of now "''''" f] by (simp add: emptyPod)
  moreover have "\<forall>g \<in> set (oe_goroutines (snd (oe_Run now ('''', '''') f oe))). goroutine_ok mgr g"
    using Cons.prems(3) by (auto simp: oe_Run_def goroutine_ok_def f' split: prod.splits option.splits)
  ultimately show ?case using Cons.IH [OF rest] by blast
qed simp

lemma ad_ok_asw:
  "ad_ok rc st \<Longrightarrow> asw_inv asw \<Longrightarrow> asw_volumePluginMgr asw = asw_volumePluginMgr (ad_asw st) \<Longrightarrow>
   ad_ok rc (st\<lparr>ad_asw := asw\<rparr>)"
  by (simp add: ad_ok_def)

lemma ad_ok_w [simp]: "ad_ok rc (st\<lparr>ad_w := w\<rparr>) = ad_ok rc st"
  by (simp add: ad_ok_def)

lemma update_asw_w: "st\<lparr>ad_asw := asw, ad_w := w\<rparr> = st\<lparr>ad_w := w, ad_asw := asw\<rparr>"
  by simp

lemma marks_mgr [simp]:
  "asw_volumePluginMgr (snd (SetVolumeMountedByNode v n b asw)) = asw_volumePluginMgr asw"
  "asw_volumePluginMgr (ResetDetachRequestTime v n asw) = asw_volumePluginMgr asw"
  "asw_volumePluginMgr (snd (SetDetachRequestTime now now' v n asw)) = asw_volumePluginMgr asw"
  "asw_volumePluginMgr (snd (RemoveVolumeFromReportAsAttached v n asw)) = asw_volumePluginMgr asw"
  "asw_volumePluginMgr (AddVolumeToReportAsAttached v n asw) = asw_volumePluginMgr asw"
  using asw_step_mgr [of "SetVolumeMountedByNode_call v n b" asw] asw_step_mgr [of "ResetDetachRequestTime_call v n" asw]
    asw_step_mgr [of "SetDetachRequestTime_call now now' v n" asw]
  by (simp_all add: RemoveVolumeFromReportAsAttached_def AddVolumeToReportAsAttached_def)

text \<open>What one round of the detach loop does, by cases.\<close>

lemma detach_iteration_cases:
  assumes "ad_ok rc st"
  obtains (wanted) "VolumeExists (ad_dsw st) (atv_VolumeName a) (atv_NodeName a)" "detach_iteration rc now a st = st"
    | (waits) asw where "detach_iteration rc now a st = st\<lparr>ad_asw := asw\<rparr>" "asw_inv asw"
        "asw_volumePluginMgr asw = asw_volumePluginMgr (ad_asw st)" "VolumeNodeExists asw = VolumeNodeExists (ad_asw st)"
        "reported asw = reported (ad_asw st)"
    | (update) elapsed asw err w where "\<not> VolumeExists (ad_dsw st) (atv_VolumeName a) (atv_NodeName a)"
        "fst (SetDetachRequestTime (now 0) (now 1) (atv_VolumeName a) (atv_NodeName a) (ad_asw st)) = Inr elapsed"
        "\<not> atv_MountedByNode a \<or> elapsed > rc_maxWaitForUnmountDuration rc"
        "\<exists>asw1. UpdateNodeStatuses (rc_nodeStatusUpdater rc) (asw1, ad_w st) = (err, asw, w) \<and> asw_inv asw1 \<and>
           \<not> reported asw1 (atv_VolumeName a) (atv_NodeName a)"
        "asw_inv asw" "asw_volumePluginMgr asw = asw_volumePluginMgr (ad_asw st)"
        "VolumeNodeExists asw = VolumeNodeExists (ad_asw st)" "\<not> reported asw (atv_VolumeName a) (atv_NodeName a)"
        "detach_iteration rc now a st = (if err \<noteq> None then st\<lparr>ad_asw := asw, ad_w := w\<rparr>
           else st\<lparr>ad_asw := asw, ad_w := w,
             ad_oe := snd (DetachVolume (rc_outside rc) (rc_generator rc) (now 2) (AttachedVolume.truncate a)
                (\<not> elapsed > rc_maxWaitForUnmountDuration rc) (ad_oe st))\<rparr>)"
        "\<forall>u n. reported asw u n \<longrightarrow> reported (ad_asw st) u n"
proof -
  let ?v = "atv_VolumeName a" and ?n = "atv_NodeName a"
  have inv: "asw_inv (ad_asw st)" using assms by (simp add: ad_ok_def)
  show ?thesis
  proof (cases "VolumeExists (ad_dsw st) ?v ?n")
    case True
    with wanted show ?thesis by (simp add: detach_iteration_def)
  next
    case False
    obtain r asw1 where set: "SetDetachRequestTime (now 0) (now 1) ?v ?n (ad_asw st) = (r, asw1)" by (cases "SetDetachRequestTime (now 0) (now 1) ?v ?n (ad_asw st)")
    have i1: "asw_inv asw1" "asw_volumePluginMgr asw1 = asw_volumePluginMgr (ad_asw st)" "VolumeNodeExists asw1 = VolumeNodeExists (ad_asw st)"
        "reported asw1 = reported (ad_asw st)"
      using mark_reported(3) [of "now 0" "now 1" ?v ?n "ad_asw st", unfolded set] mark_inv(3) [OF inv, of "now 0" "now 1" ?v ?n] mark_exists(3) [OF inv, of "now 0" "now 1" ?v ?n] set
        marks_mgr(3) [of "now 0" "now 1" ?v ?n "ad_asw st"] by simp_all
    show ?thesis
    proof (cases r)
      case (Inl e)
      with waits [OF _ i1] False set show ?thesis by (simp add: detach_iteration_def)
    next
      case (Inr elapsed)
      show ?thesis
      proof (cases "atv_MountedByNode a \<and> \<not> elapsed > rc_maxWaitForUnmountDuration rc")
        case True
        with waits [OF _ i1] False set Inr show ?thesis by (simp add: detach_iteration_def)
      next
        case go: False
        let ?asw2 = "snd (RemoveVolumeFromReportAsAttached ?v ?n asw1)"
        have i2: "asw_inv ?asw2" "asw_volumePluginMgr ?asw2 = asw_volumePluginMgr (ad_asw st)"
            "VolumeNodeExists ?asw2 = VolumeNodeExists (ad_asw st)" "\<not> reported ?asw2 ?v ?n"
            "\<forall>u n. reported ?asw2 u n \<longrightarrow> reported (ad_asw st) u n"
          using i1 report_inv(1) [OF i1(1)] by (simp_all add: RemoveVolumeFromReportAsAttached_def remove_report)
        obtain err asw w where u: "UpdateNodeStatuses (rc_nodeStatusUpdater rc) (?asw2, ad_w st) = (err, asw, w)"
          by (cases "UpdateNodeStatuses (rc_nodeStatusUpdater rc) (?asw2, ad_w st)") auto
        note ui = UpdateNodeStatuses_inv [OF i2(1) u]
        show ?thesis
        proof (rule update [where elapsed = elapsed and asw = asw and err = err and w = w])
          show "\<exists>asw1. UpdateNodeStatuses (rc_nodeStatusUpdater rc) (asw1, ad_w st) = (err, asw, w) \<and> asw_inv asw1 \<and>
              \<not> reported asw1 ?v ?n" using u i2 by blast
          show "detach_iteration rc now a st = (if err \<noteq> None then st\<lparr>ad_asw := asw, ad_w := w\<rparr>
             else st\<lparr>ad_asw := asw, ad_w := w,
               ad_oe := snd (DetachVolume (rc_outside rc) (rc_generator rc) (now 2) (AttachedVolume.truncate a)
                  (\<not> elapsed > rc_maxWaitForUnmountDuration rc) (ad_oe st))\<rparr>)"
            using go False set Inr u by (auto simp: detach_iteration_def Let_def)
        qed (use go False set Inr i2 ui in \<open>simp_all\<close>)
      qed
    qed
  qed
qed

lemma detach_iteration_ok:
  assumes "ad_ok rc st"
  shows "ad_ok rc (detach_iteration rc now a st)"
  using assms
proof (cases rule: detach_iteration_cases [where a = a and now = now])
  case wanted
  then show ?thesis using assms by simp
next
  case (waits asw)
  then show ?thesis using ad_ok_asw [OF assms] by simp
next
  case (update elapsed asw err w)
  have "ad_ok rc (st\<lparr>ad_w := w, ad_asw := asw\<rparr>)" using ad_ok_asw [of rc "st\<lparr>ad_w := w\<rparr>" asw] update(5,6) assms by simp
  then show ?thesis
    unfolding update(9)
    using DetachVolume_inv [of "ad_oe st" "og_volumePluginMgr (rc_generator rc)" "rc_outside rc"]
    by (simp add: ad_ok_def)
qed

lemma attach_iteration_ok:
  assumes "ad_ok rc st" and "attachable_volume_name (og_volumePluginMgr (rc_generator rc)) (vtoa_VolumeSpec vta) = Inr (vtoa_VolumeName vta)"
  shows "ad_ok rc (attach_iteration rc now vta st)"
proof (cases "VolumeNodeExists (ad_asw st) (vtoa_VolumeName vta) (vtoa_NodeName vta)")
  case True
  then show ?thesis
    using assms(1) mark_inv(2) by (auto simp: attach_iteration_def ad_ok_def)
next
  case False
  then show ?thesis
    using assms AttachVolume_inv [of "ad_oe st" "og_volumePluginMgr (rc_generator rc)" vta "rc_outside rc"]
    by (simp add: attach_iteration_def ad_ok_def)
qed

lemma update_statuses_ok:
  assumes "ad_ok rc st"
  shows "ad_ok rc (update_statuses rc st)"
proof -
  obtain err asw w where u: "UpdateNodeStatuses (rc_nodeStatusUpdater rc) (ad_asw st, ad_w st) = (err, asw, w)"
    by (cases "UpdateNodeStatuses (rc_nodeStatusUpdater rc) (ad_asw st, ad_w st)") auto
  then show ?thesis
    using UpdateNodeStatuses_inv [OF _ u] assms by (simp add: update_statuses_def ad_ok_def)
qed

text \<open>The outcome of a goroutine of this controller for the cache.\<close>

lemma finished_asw:
  assumes "ad_ok rc st"
    and f: "finish (rc_outside rc) (rc_generator rc) ad_updater no_mounter now g (ad_oe st) (ad_asw st, ad_w st) =
      Some (err, oe', asw', w')"
  shows "asw_inv asw' \<and> asw_volumePluginMgr asw' = asw_volumePluginMgr (ad_asw st)"
proof -
  have inv: "asw_inv (ad_asw st)" and ok: "goroutine_ok (og_volumePluginMgr (rc_generator rc)) g"
    using assms(1) finish_facts(1) [OF f] by (auto simp: ad_ok_def)
  have run: "run_func (rc_outside rc) (rc_generator rc) ad_updater no_mounter (snd g) (ad_asw st, ad_w st) = (err, asw', w')"
    by (rule finish_facts(4) [OF f])
  from ok consider (at) plugin vta where "snd g = AttachFunc plugin vta"
    | (de) plugin vn vol b where "snd g = DetachFunc plugin vn vol b"
    | (ve) per specs n where "snd g = VolumesAreAttachedFunc per specs n"
    by (auto simp: goroutine_ok_def split: opfunc.splits)
  then show ?thesis
  proof cases
    case at
    with run have r: "attachFunc (rc_outside rc) ad_updater plugin vta (ad_asw st, ad_w st) = (err, asw', w')"
      by (simp add: run_func_def)
    then have "asw' = ad_asw st \<or> asw' = snd (AddVolumeNode (vtoa_VolumeSpec vta) (vtoa_NodeName vta) dev (ad_asw st))"
      if "os_Attach (rc_outside rc) (pl_GetPluginName plugin) (vtoa_VolumeSpec vta) (vtoa_NodeName vta) (ad_w st) = (Inr dev, w1)" for dev w1
      using that MarkVolumeAsAttached_cases [OF inv]
      by (auto simp: attachFunc_def ad_updater_def Let_def split: sum.splits option.splits prod.splits)
    moreover have "asw' = ad_asw st"
      if "os_Attach (rc_outside rc) (pl_GetPluginName plugin) (vtoa_VolumeSpec vta) (vtoa_NodeName vta) (ad_w st) = (Inl e, w1)" for e w1
      using that r by (auto simp: attachFunc_def Let_def)
    ultimately have "asw' = ad_asw st \<or> (\<exists>dev. asw' = asw_step (AddVolumeNode_call (vtoa_VolumeSpec vta) (vtoa_NodeName vta) dev) (ad_asw st))"
      by (cases "os_Attach (rc_outside rc) (pl_GetPluginName plugin) (vtoa_VolumeSpec vta) (vtoa_NodeName vta) (ad_w st)";
          cases "fst (os_Attach (rc_outside rc) (pl_GetPluginName plugin) (vtoa_VolumeSpec vta) (vtoa_NodeName vta) (ad_w st))") auto
    then show ?thesis using inv asw_step_inv asw_step_mgr by metis
  next
    case de
    with run have "detachFunc (rc_outside rc) ad_updater plugin vn vol b (ad_asw st, ad_w st) = (err, asw', w')"
      by (simp add: run_func_def)
    from detachFunc_state [OF this] adu.detachFunc_frame [OF inv this] show ?thesis
      using MarkVolumeAsDetached_facts(2) [OF inv] by (auto simp: ad_updater_def)
  next
    case ve
    with run have "volumesAreAttachedFunc (rc_outside rc) (rc_generator rc) ad_updater per specs n (ad_asw st, ad_w st) =
        (err, asw', w')" by (simp add: run_func_def)
    from volumesAreAttachedFunc_inv [OF inv this] show ?thesis by simp
  qed
qed

lemma ad_step_ok: "ad_step rc (p, st) (p', st') \<Longrightarrow> ad_ok rc st \<Longrightarrow> pc_ok rc p \<Longrightarrow> ad_ok rc st' \<and> pc_ok rc p'"
proof (induction "(p, st)" "(p', st')" rule: ad_step.induct)
  case pass
  then show ?case by (auto simp: pc_ok_def)
next
  case (detach a as now)
  then show ?case by (auto simp: pc_ok_def detach_iteration_ok)
next
  case attaching
  then show ?case using dsw_named_volumes [of "ad_dsw st"] by (auto simp: pc_ok_def ad_ok_def)
next
  case (attach v vs now)
  then show ?case by (auto simp: pc_ok_def intro: attach_iteration_ok)
next
  case statuses
  then show ?case by (auto simp: pc_ok_def update_statuses_ok)
next
  case (sync now)
  then show ?case
    using syncStates_loop_inv [of "rc_generator rc" now _ "ad_oe st"] by (auto simp: pc_ok_def syncStates_def ad_ok_def)
next
  case (finished now g err oe' asw' w')
  have "oe_volume_inv oe'"
    using oe_volume_inv_finish [OF _ finished(1)] finished(4) by (simp add: ad_ok_def)
  moreover have "set (oe_goroutines oe') \<subseteq> set (oe_goroutines (ad_oe st))"
    using finish_facts(3) [OF finished(1)] by (simp add: set_remove1_subset)
  ultimately show ?case
    using finished finished_asw [OF finished(4) finished(1)] by (auto simp: ad_ok_def)
next
  case (desire c)
  then show ?case using dsw_step_inv dsw_named_step by (auto simp: ad_ok_def)
next
  case (mounted v n b)
  then show ?case using mark_inv(1) by (auto simp: ad_ok_def)
next
  case (outside w')
  then show ?case by auto
qed

lemma ad_reach_ok: "ad_reach rc w (p, st) \<Longrightarrow> ad_ok rc st \<and> pc_ok rc p"
proof (induction "(p, st)" arbitrary: p st rule: ad_reach.induct)
  case ad_init
  then show ?case by (simp add: ad_ok_def pc_ok_def oe_volume_inv_new dsw_named_def NewActualStateOfWorld_def
        NewDesiredStateOfWorld_def NewOperationExecutor_def asw_inv_new [unfolded NewActualStateOfWorld_def]
        dsw_inv_new [unfolded NewDesiredStateOfWorld_def] oe_volume_inv_new [unfolded NewOperationExecutor_def])
next
  case (ad_next s)
  obtain q sq where s: "s = (q, sq)" by (cases s)
  from ad_next(2) [OF s] ad_step_ok ad_next(3) show ?case unfolding s by blast
qed

section \<open>Properties\<close>

text \<open>C2: In every interleaving of the reconciler with its goroutines, the populator and the node updates,
  at most one operation per volume is in flight, whatever the node: a volume is never attached and
  detached, or attached to two nodes, at the same time. Every operation in flight can finish: its
  completion handler does not panic.\<close>

theorem no_concurrent_volume_operations:
  assumes "ad_reach rc w (p, st)" and "v \<noteq> emptyUniqueVolumeName"
  shows "length (filter (\<lambda>g. fst (fst g) = v) (oe_goroutines (ad_oe st))) \<le> 1 \<and>
    (\<forall>g \<in> set (oe_goroutines (ad_oe st)).
       finish (rc_outside rc) (rc_generator rc) ad_updater no_mounter now g (ad_oe st) (ad_asw st, ad_w st) \<noteq> None)"
proof -
  have inv: "oe_volume_inv (ad_oe st)" using ad_reach_ok [OF assms(1)] by (simp add: ad_ok_def)
  have "finish (rc_outside rc) (rc_generator rc) ad_updater no_mounter now g (ad_oe st) (ad_asw st, ad_w st) \<noteq> None"
    if g: "g \<in> set (oe_goroutines (ad_oe st))" for g
  proof -
    have "fst (fst g) \<in># image_mset fst (in_flight (ad_oe st))" using g by (auto simp: in_flight_def)
    then have c: "complete_volume now (oe_pendingOperations (ad_oe st)) (fst (fst g)) err \<noteq> None" for err
      using npo_volume.complete_never_panics [OF inv [unfolded oe_volume_inv_def, THEN conjunct1]] by simp
    have "snd (fst g) = emptyUniquePodName" using inv g by (simp add: oe_volume_inv_def)
    then have "operationComplete now (oe_pendingOperations (ad_oe st)) (fst g) err \<noteq> None" for err
      using c [of err] by (simp add: complete_volume_def) (metis prod.collapse)
    then show ?thesis using g by (simp add: finish_def split_def Let_def del: not_None_eq)
  qed
  then show ?thesis using oe_volume_exclusive [OF inv assms(2)] by blast
qed

definition sample_outside :: "unit outside" where
  "sample_outside = \<lparr>os_NewAttacher = (\<lambda>_. None), os_NewDetacher = (\<lambda>_. None), os_NewMounter = (\<lambda>_ _ _. None),
     os_NewUnmounter = (\<lambda>_ _ _. None), os_Attach = (\<lambda>_ _ _ w. (Inr ''dev'', w)), os_Detach = (\<lambda>_ _ _ w. (None, w)),
     os_VolumesAreAttached = (\<lambda>_ specs _ _. Inr (map (\<lambda>s. (s, True)) specs)),
     os_WaitForAttach = (\<lambda>_ _ d _ w. (Inr d, w)), os_GetDeviceMountPath = (\<lambda>_ _. Inr ''/mnt''),
     os_MountDevice = (\<lambda>_ _ _ _ w. (None, w)), os_GetDeviceMountRefs = (\<lambda>_ _ _. Inr []),
     os_UnmountDevice = (\<lambda>_ _ w. (None, w)), os_CanMount = (\<lambda>_ _. None), os_SetUp = (\<lambda>_ _ w. (None, w)),
     os_TearDown = (\<lambda>_ _ _ w. (None, w)), os_PathIsDevice = (\<lambda>_ _. (False, None)), os_DeviceOpened = (\<lambda>_ _. (False, None)),
     os_GetNode = (\<lambda>n _. Inr (Some \<lparr>node_Name = n, node_Annotations = [], node_VolumesAttached = [], node_VolumesInUse = []\<rparr>)),
     os_Eventf = (\<lambda>_ _ w. w)\<rparr>"

text \<open>A status updater whose informer knows every node and whose API server accepts or refuses every patch.\<close>

definition sample_rc :: "bool \<Rightarrow> (unit, unit) reconciler" where
  "sample_rc accepts = \<lparr>rc_maxWaitForUnmountDuration = 100, rc_outside = sample_outside,
     rc_generator = \<lparr>og_volumePluginMgr = [(''p'', sample_plugin ''p'')], og_checkNodeCapabilitiesBeforeMount = False\<rparr>,
     rc_nodeStatusUpdater = \<lparr>
       nu_GetByKey = (\<lambda>n. Some \<lparr>node_Name = n, node_Annotations = [], node_VolumesAttached = [], node_VolumesInUse = []\<rparr>),
       nu_CreatePatch = (\<lambda>_ _. Inr ()),
       nu_PatchStatus = (\<lambda>_ _ w. (if accepts then None else Some (Errorf ''refused'' None), w))\<rparr>\<rparr>"

definition sample_init :: "unit ad_state" where
  "sample_init = \<lparr>ad_asw = NewActualStateOfWorld [(''p'', sample_plugin ''p'')], ad_dsw = sample_dsw,
     ad_oe = NewOperationExecutor, ad_w = ()\<rparr>"

lemma sample_init_reach: "ad_reach (sample_rc b) () (Idle, sample_init)"
proof -
  let ?s = "\<lparr>ad_asw = NewActualStateOfWorld [(''p'', sample_plugin ''p'')],
     ad_dsw = NewDesiredStateOfWorld [(''p'', sample_plugin ''p'')], ad_oe = NewOperationExecutor, ad_w = ()\<rparr>"
  have 0: "ad_reach (sample_rc b) () (Idle, ?s)"
    using ad_reach.ad_init [of "sample_rc b" "()"] by (simp add: sample_rc_def)
  have "ad_reach (sample_rc b) () (Idle, (?s\<lparr>ad_dsw := dsw_step (AddNode_call ''n'') (ad_dsw ?s)\<rparr>))"
    by (rule ad_reach.ad_next [OF 0 ad_step.desire])
  from ad_reach.ad_next [OF this ad_step.desire, of "AddPod_call ''u'' sample_pod sample_spec ''n''"]
  show ?thesis by (simp add: sample_init_def sample_dsw_def)
qed

definition sample_attaching :: "bool \<Rightarrow> unit ad_state" where
  "sample_attaching b = attach_iteration (sample_rc b) (\<lambda>_. 5) (hd (GetVolumesToAttach sample_dsw)) sample_init"

lemma sample_attaching_reach: "ad_reach (sample_rc b) () (Attaching [], sample_attaching b)"
proof -
  have one: "GetVolumesToAttach sample_dsw = [hd (GetVolumesToAttach sample_dsw)]"
    by (simp add: sample_dsw_def) code_simp
  have none: "GetAttachedVolumes (ad_asw sample_init) = []" by code_simp
  have "ad_reach (sample_rc b) () (Detaching [], sample_init)"
    using ad_reach.ad_next [OF sample_init_reach ad_step.pass] by (simp only: none)
  from ad_reach.ad_next [OF this ad_step.attaching]
  have "ad_reach (sample_rc b) () (Attaching (hd (GetVolumesToAttach sample_dsw) # []), sample_init)"
    using one by (simp add: sample_init_def)
  from ad_reach.ad_next [OF this ad_step.attach, of "\<lambda>_. 5"] show ?thesis by (simp add: sample_attaching_def)
qed

theorem no_concurrent_volume_operations_witness:
  "map fst (oe_goroutines (ad_oe (sample_attaching True))) = [(''p/v'', '''')] \<and> ''p/v'' \<noteq> emptyUniqueVolumeName \<and>
   length (filter (\<lambda>g. fst (fst g) = ''p/v'') (oe_goroutines (ad_oe (sample_attaching True)))) \<le> 1"
proof -
  have g: "map fst (oe_goroutines (ad_oe (sample_attaching True))) = [(''p/v'', '''')]" by code_simp
  have v: "''p/v'' \<noteq> emptyUniqueVolumeName" by (simp add: emptyUniqueVolumeName_def)
  show ?thesis using g v no_concurrent_volume_operations [OF sample_attaching_reach [of True] v, of 0] by blast
qed

section \<open>What the passes and the goroutines achieve\<close>

lemma DetachVolume_goroutines:
  "oe_goroutines (snd (DetachVolume os og now vol b oe)) = oe_goroutines oe \<or>
   (\<exists>plugin vn. oe_goroutines (snd (DetachVolume os og now vol b oe)) =
      ((atv_VolumeName vol, ''''), DetachFunc plugin vn vol b) # oe_goroutines oe)"
  by (auto simp: DetachVolume_def oe_start_def oe_Run_def split: sum.splits prod.splits option.splits
      dest!: GenerateDetach_func)

lemma SetDetachRequestTime_exists:
  "fst (SetDetachRequestTime now now' v n asw) = Inr elapsed \<Longrightarrow> VolumeNodeExists asw v n"
  by (auto simp: SetDetachRequestTime_def getNodeAndVolume_exists split: sum.splits prod.splits)


text \<open>When an attach goroutine ends without error, the cache has gained exactly its volume on its node,
  both as attached and as reported; when it ends with an error, the cache is as before.\<close>

theorem attach_outcome:
  assumes "ad_reach rc w (p, st)"
    and "finish (rc_outside rc) (rc_generator rc) ad_updater no_mounter now (k, AttachFunc plugin vta) (ad_oe st)
      (ad_asw st, ad_w st) = Some (err, oe', asw', w')"
  shows "(err = None \<longrightarrow>
      (\<forall>u n. VolumeNodeExists asw' u n \<longleftrightarrow> (u, n) = (vtoa_VolumeName vta, vtoa_NodeName vta) \<or> VolumeNodeExists (ad_asw st) u n) \<and>
      (\<forall>u n. reported asw' u n \<longleftrightarrow> (u, n) = (vtoa_VolumeName vta, vtoa_NodeName vta) \<or> reported (ad_asw st) u n)) \<and>
    (err \<noteq> None \<longrightarrow> asw' = ad_asw st)"
proof -
  have ok: "ad_ok rc st" using ad_reach_ok [OF assms(1)] by simp
  then have inv: "asw_inv (ad_asw st)"
    and name: "attachable_volume_name (asw_volumePluginMgr (ad_asw st)) (vtoa_VolumeSpec vta) = Inr (vtoa_VolumeName vta)"
    using finish_facts(1) [OF assms(2)] by (auto simp: ad_ok_def goroutine_ok_def)
  have run: "attachFunc (rc_outside rc) ad_updater plugin vta (ad_asw st, ad_w st) = (err, asw', w')"
    using finish_facts(4) [OF assms(2)] by (simp add: run_func_def)
  show ?thesis
  proof (cases err)
    case (Some e)
    then show ?thesis using adu.attachFunc_err [OF run [unfolded Some]] by simp
  next
    case None
    have "\<exists>dev. asw' = snd (AddVolumeNode (vtoa_VolumeSpec vta) (vtoa_NodeName vta) dev (ad_asw st))"
      using run MarkVolumeAsAttached_cases [OF inv] name
      by (auto simp: None attachFunc_def ad_updater_def Let_def split: sum.splits option.splits prod.splits)
    then show ?thesis using AddVolumeNode_Inr(3,4) [OF inv name] None by auto
  qed
qed

text \<open>When a detach goroutine ends without error, exactly its volume on its node is gone from the cache
  and from the report; when it ends with an error, the volume stays attached and, if it is attached, is
  reported again. A goroutine that checks first ends with an error and does not touch the storage
  backend when the status of the node lists the volume as in use.\<close>

theorem detach_outcome:
  assumes "ad_reach rc w (p, st)"
    and "finish (rc_outside rc) (rc_generator rc) ad_updater no_mounter now (k, DetachFunc plugin vn vol verify) (ad_oe st)
      (ad_asw st, ad_w st) = Some (err, oe', asw', w')"
  shows "(err = None \<longrightarrow>
      (\<forall>u n. VolumeNodeExists asw' u n \<longleftrightarrow> (u, n) \<noteq> (atv_VolumeName vol, atv_NodeName vol) \<and> VolumeNodeExists (ad_asw st) u n) \<and>
      (\<forall>u n. reported asw' u n \<longleftrightarrow> (u, n) \<noteq> (atv_VolumeName vol, atv_NodeName vol) \<and> reported (ad_asw st) u n)) \<and>
    (err \<noteq> None \<longrightarrow> VolumeNodeExists asw' = VolumeNodeExists (ad_asw st) \<and>
      (\<forall>u n. reported asw' u n \<longleftrightarrow> reported (ad_asw st) u n \<or>
         (u, n) = (atv_VolumeName vol, atv_NodeName vol) \<and> VolumeNodeExists (ad_asw st) u n)) \<and>
    (\<forall>node. verify \<longrightarrow> os_GetNode (rc_outside rc) (atv_NodeName vol) (ad_w st) = Inr (Some node) \<longrightarrow>
       atv_VolumeName vol \<in> set (node_VolumesInUse node) \<longrightarrow> err \<noteq> None \<and> w' = ad_w st)"
proof -
  have inv: "asw_inv (ad_asw st)" using ad_reach_ok [OF assms(1)] by (simp add: ad_ok_def)
  have run: "detachFunc (rc_outside rc) ad_updater plugin vn vol verify (ad_asw st, ad_w st) = (err, asw', w')"
    using finish_facts(4) [OF assms(2)] by (simp add: run_func_def)
  show ?thesis
    using adu.detachFunc_outcome [OF inv run] detachFunc_in_use [of "rc_outside rc" ad_updater plugin vn vol] run
    by (cases verify) auto
qed

text \<open>Generating the verification of a node's volumes panics (a nil plugin is dereferenced after its
  failed lookup was only logged) exactly if some volume of the list has no plugin, or more than one.\<close>

lemma verify_panics_without_plugin:
  "VerifyVolumesAreAttached og now volumes n oe = None \<longleftrightarrow>
     (\<exists>v \<in> set volumes. \<exists>e. FindPluginBySpec (og_volumePluginMgr og) (atv_VolumeSpec v) = Inl e)"
  by (simp add: VerifyVolumesAreAttached_def GenerateVolumesAreAttachedFunc_def volumes_per_plugin_panics)

section \<open>A run of the controller\<close>

text \<open>The only goroutine in flight ends at time \<open>now\<close>.\<close>

definition finish_only :: "('w, 'patch) reconciler \<Rightarrow> time \<Rightarrow> 'w ad_state \<Rightarrow> 'w ad_state option" where
  "finish_only rc now st = (case oe_goroutines (ad_oe st) of
      [g] \<Rightarrow> (case run_func (rc_outside rc) (rc_generator rc) ad_updater no_mounter (snd g) (ad_asw st, ad_w st) of
          (err, asw', w') \<Rightarrow> map_option (\<lambda>grm. st\<lparr>ad_asw := asw', ad_w := w',
              ad_oe := \<lparr>oe_pendingOperations = grm, oe_goroutines = []\<rparr>\<rparr>)
            (operationComplete now (oe_pendingOperations (ad_oe st)) (fst g) err))
    | _ \<Rightarrow> None)"

lemma finish_only_eq:
  assumes "finish_only rc now st = Some st'"
  obtains g err where "oe_goroutines (ad_oe st) = [g]"
    and "finish (rc_outside rc) (rc_generator rc) ad_updater no_mounter now g (ad_oe st) (ad_asw st, ad_w st) =
      Some (err, ad_oe st', ad_asw st', ad_w st')"
    and "st' = st\<lparr>ad_asw := ad_asw st', ad_oe := ad_oe st', ad_w := ad_w st'\<rparr>"
proof -
  from assms obtain g where g: "oe_goroutines (ad_oe st) = [g]"
    by (auto simp: finish_only_def split: list.splits)
  obtain err asw' w' where r: "run_func (rc_outside rc) (rc_generator rc) ad_updater no_mounter (snd g) (ad_asw st, ad_w st) =
      (err, asw', w')" by (cases "run_func (rc_outside rc) (rc_generator rc) ad_updater no_mounter (snd g) (ad_asw st, ad_w st)") auto
  from assms g r obtain grm where c: "operationComplete now (oe_pendingOperations (ad_oe st)) (fst g) err = Some grm"
    and st': "st' = st\<lparr>ad_asw := asw', ad_w := w', ad_oe := \<lparr>oe_pendingOperations = grm, oe_goroutines = []\<rparr>\<rparr>"
    by (auto simp: finish_only_def)
  show ?thesis by (rule that [OF g, of err]) (simp_all add: finish_def g r c st')
qed

lemma finish_only_reach:
  assumes "ad_reach rc w (p, st)" and "finish_only rc now st = Some st'"
  shows "ad_reach rc w (p, st')"
  using assms(2)
proof (rule finish_only_eq)
  fix g err
  assume f: "finish (rc_outside rc) (rc_generator rc) ad_updater no_mounter now g (ad_oe st) (ad_asw st, ad_w st) =
      Some (err, ad_oe st', ad_asw st', ad_w st')"
    and e: "st' = st\<lparr>ad_asw := ad_asw st', ad_oe := ad_oe st', ad_w := ad_w st'\<rparr>"
  show ?thesis by (subst e) (rule ad_reach.ad_next [OF assms(1) ad_step.finished [OF f]])
qed



text \<open>The volume is attached, then the pod is deleted, then a pass reaches the volume after the wait.\<close>

definition sample_attached :: "bool \<Rightarrow> unit ad_state" where
  "sample_attached b = update_statuses (sample_rc b) (the (finish_only (sample_rc b) 6 (sample_attaching b)))"

definition sample_unwanted :: "bool \<Rightarrow> unit ad_state" where
  "sample_unwanted b = (sample_attached b)\<lparr>ad_dsw := dsw_step (DeletePod_call ''u'' ''p/v'' ''n'') (ad_dsw (sample_attached b))\<rparr>"

definition sample_entry :: "bool \<Rightarrow> AD_AttachedVolume" where
  "sample_entry b = hd (GetAttachedVolumes (ad_asw (sample_unwanted b)))"

definition sample_clock :: "nat \<Rightarrow> time" where
  "sample_clock i = (if i = 0 then 10 else 500)"

definition sample_detaching :: "bool \<Rightarrow> unit ad_state" where
  "sample_detaching b = detach_iteration (sample_rc b) sample_clock (sample_entry b) (sample_unwanted b)"

lemma sample_attach_finishes:
  "finish_only (sample_rc b) 6 (sample_attaching b) = Some (the (finish_only (sample_rc b) 6 (sample_attaching b)))"
proof -
  have "finish_only (sample_rc True) 6 (sample_attaching True) \<noteq> None" by code_simp
  moreover have "finish_only (sample_rc False) 6 (sample_attaching False) \<noteq> None" by code_simp
  ultimately show ?thesis by (cases b) auto
qed

lemma length_1_hd: "length xs = 1 \<Longrightarrow> xs = [hd xs]"
  by (cases xs) auto

lemma sample_unwanted_reach: "ad_reach (sample_rc b) () (Detaching [sample_entry b], sample_unwanted b)"
proof -
  have "ad_reach (sample_rc b) () (Idle, sample_attached b)" unfolding sample_attached_def
    by (rule ad_reach.ad_next [OF finish_only_reach [OF sample_attaching_reach sample_attach_finishes] ad_step.statuses])
  then have "ad_reach (sample_rc b) () (Idle, sample_unwanted b)" unfolding sample_unwanted_def
    by (rule ad_reach.ad_next [OF _ ad_step.desire])
  then have "ad_reach (sample_rc b) () (Detaching (GetAttachedVolumes (ad_asw (sample_unwanted b))), sample_unwanted b)"
    by (rule ad_reach.ad_next [OF _ ad_step.pass])
  moreover have "length (GetAttachedVolumes (ad_asw (sample_unwanted True))) = 1" by code_simp
  moreover have "length (GetAttachedVolumes (ad_asw (sample_unwanted False))) = 1" by code_simp
  ultimately show ?thesis
    using length_1_hd [of "GetAttachedVolumes (ad_asw (sample_unwanted b))"] by (cases b) (simp_all add: sample_entry_def)
qed

lemma sample_detaching_reach: "ad_reach (sample_rc b) () (Detaching [], sample_detaching b)"
  unfolding sample_detaching_def by (rule ad_reach.ad_next [OF sample_unwanted_reach ad_step.detach])


theorem attach_outcome_witness:
  "\<exists>k plugin vta oe' asw' w'.
     finish (rc_outside (sample_rc True)) (rc_generator (sample_rc True)) ad_updater no_mounter 6 (k, AttachFunc plugin vta)
       (ad_oe (sample_attaching True)) (ad_asw (sample_attaching True), ad_w (sample_attaching True)) = Some (None, oe', asw', w') \<and>
     vtoa_VolumeName vta = ''p/v'' \<and> vtoa_NodeName vta = ''n'' \<and> VolumeNodeExists asw' ''p/v'' ''n'' \<and> reported asw' ''p/v'' ''n''"
proof -
  let ?rc = "sample_rc True" and ?st = "sample_attaching True"
  define st' where "st' = the (finish_only ?rc 6 ?st)"
  obtain g err where g: "oe_goroutines (ad_oe ?st) = [g]"
    and f: "finish (rc_outside ?rc) (rc_generator ?rc) ad_updater no_mounter 6 g (ad_oe ?st) (ad_asw ?st, ad_w ?st) =
      Some (err, ad_oe st', ad_asw st', ad_w st')"
    using finish_only_eq [OF sample_attach_finishes [of True], folded st'_def] .
  have "(case hd (oe_goroutines (ad_oe ?st)) of
      (k, AttachFunc p vta) \<Rightarrow> vtoa_VolumeName vta = ''p/v'' \<and> vtoa_NodeName vta = ''n'' | _ \<Rightarrow> False)" by code_simp
  then obtain k plugin vta where a: "g = (k, AttachFunc plugin vta)" "vtoa_VolumeName vta = ''p/v''" "vtoa_NodeName vta = ''n''"
    by (auto simp: g split: prod.splits opfunc.splits)
  have "fst (run_func (rc_outside ?rc) (rc_generator ?rc) ad_updater no_mounter (snd (hd (oe_goroutines (ad_oe ?st))))
      (ad_asw ?st, ad_w ?st)) = None" by code_simp
  then have "err = None" using finish_facts(4) [OF f] by (simp add: g)
  then have "VolumeNodeExists (ad_asw st') ''p/v'' ''n'' \<and> reported (ad_asw st') ''p/v'' ''n''"
    using attach_outcome [OF sample_attaching_reach f [unfolded a(1)]] a by simp
  with f a \<open>err = None\<close> show ?thesis by blast
qed

theorem detach_outcome_witness:
  "\<exists>k plugin vn vol verify oe' asw' w'.
     finish (rc_outside (sample_rc True)) (rc_generator (sample_rc True)) ad_updater no_mounter 501 (k, DetachFunc plugin vn vol verify)
       (ad_oe (sample_detaching True)) (ad_asw (sample_detaching True), ad_w (sample_detaching True)) = Some (None, oe', asw', w') \<and>
     atv_VolumeName vol = ''p/v'' \<and> atv_NodeName vol = ''n'' \<and> \<not> VolumeNodeExists asw' ''p/v'' ''n''"
proof -
  let ?rc = "sample_rc True" and ?st = "sample_detaching True"
  have "finish_only ?rc 501 ?st \<noteq> None" by code_simp
  then obtain st' where s: "finish_only ?rc 501 ?st = Some st'" by blast
  obtain g err where g: "oe_goroutines (ad_oe ?st) = [g]"
    and f: "finish (rc_outside ?rc) (rc_generator ?rc) ad_updater no_mounter 501 g (ad_oe ?st) (ad_asw ?st, ad_w ?st) =
      Some (err, ad_oe st', ad_asw st', ad_w st')"
    using finish_only_eq [OF s] .
  have "(case hd (oe_goroutines (ad_oe ?st)) of
      (k, DetachFunc p vn vol verify) \<Rightarrow> atv_VolumeName vol = ''p/v'' \<and> atv_NodeName vol = ''n'' | _ \<Rightarrow> False)" by code_simp
  then obtain k plugin vn vol verify where a: "g = (k, DetachFunc plugin vn vol verify)"
      "atv_VolumeName vol = ''p/v''" "atv_NodeName vol = ''n''"
    by (auto simp: g split: prod.splits opfunc.splits)
  have "fst (run_func (rc_outside ?rc) (rc_generator ?rc) ad_updater no_mounter (snd (hd (oe_goroutines (ad_oe ?st))))
      (ad_asw ?st, ad_w ?st)) = None" by code_simp
  then have "err = None" using finish_facts(4) [OF f] by (simp add: g)
  then have "\<not> VolumeNodeExists (ad_asw st') ''p/v'' ''n''"
    using detach_outcome [OF sample_detaching_reach f [unfolded a(1)]] a by simp
  with f a \<open>err = None\<close> show ?thesis by blast
qed

section \<open>A wanted volume that is never reported again\<close>

text \<open>A pass never puts a volume into a report.\<close>

lemma detach_iteration_reported:
  "ad_ok rc st \<Longrightarrow> reported (ad_asw (detach_iteration rc now a st)) u n \<Longrightarrow> reported (ad_asw st) u n"
  by (erule detach_iteration_cases [where a = a and now = now]) (auto split: if_splits)

lemma attach_iteration_reported: "reported (ad_asw (attach_iteration rc now a st)) = reported (ad_asw st)"
  by (simp add: attach_iteration_def Let_def)

lemma update_statuses_reported: "ad_ok rc st \<Longrightarrow> reported (ad_asw (update_statuses rc st)) = reported (ad_asw st)"
  by (auto simp: update_statuses_def ad_ok_def split: prod.splits dest: UpdateNodeStatuses_inv)

lemma attach_fold_ok:
  "ad_ok rc st \<Longrightarrow> pc_ok rc (Attaching vs) \<Longrightarrow>
   ad_ok rc (fold (\<lambda>a. attach_iteration rc (now (vtoa_VolumeName a) (vtoa_NodeName a)) a) vs st) \<and>
   reported (ad_asw (fold (\<lambda>a. attach_iteration rc (now (vtoa_VolumeName a) (vtoa_NodeName a)) a) vs st)) = reported (ad_asw st)"
  by (induction vs arbitrary: st) (auto simp: pc_ok_def attach_iteration_reported attach_iteration_ok)

lemma detach_fold_ok:
  "ad_ok rc st \<Longrightarrow>
   ad_ok rc (fold (\<lambda>a. detach_iteration rc (now (atv_VolumeName a) (atv_NodeName a)) a) as st) \<and>
   (reported (ad_asw (fold (\<lambda>a. detach_iteration rc (now (atv_VolumeName a) (atv_NodeName a)) a) as st)) u n \<longrightarrow>
      reported (ad_asw st) u n)"
proof (induction as arbitrary: st)
  case (Cons a as)
  let ?now = "now (atv_VolumeName a) (atv_NodeName a)"
  show ?case
    using Cons.IH [OF detach_iteration_ok [OF Cons.prems, of ?now a]] detach_iteration_reported [OF Cons.prems, of ?now a u n]
    by simp
qed simp

lemma reconcile_reported:
  assumes "ad_ok rc st"
  shows "reported (ad_asw (reconcile rc now st)) u n \<Longrightarrow> reported (ad_asw st) u n"
proof -
  let ?d = "fold (\<lambda>a. detach_iteration rc (now (atv_VolumeName a) (atv_NodeName a)) a) (GetAttachedVolumes (ad_asw st)) st"
  note d = detach_fold_ok [OF assms, of now "GetAttachedVolumes (ad_asw st)" u n]
  have "pc_ok rc (Attaching (GetVolumesToAttach (ad_dsw ?d)))"
    using d dsw_named_volumes [of "ad_dsw ?d"] by (auto simp: pc_ok_def ad_ok_def)
  note a = attach_fold_ok [OF conjunct1 [OF d] this, of now]
  assume "reported (ad_asw (reconcile rc now st)) u n"
  then show ?thesis using a d update_statuses_reported [OF conjunct1 [OF a]] by (simp add: reconcile_def Let_def)
qed

definition sample_lost :: "unit ad_state" where
  "sample_lost = (let st = update_statuses (sample_rc False) (sample_detaching False)
     in st\<lparr>ad_dsw := dsw_step (AddPod_call ''u'' sample_pod sample_spec ''n'') (ad_dsw st)\<rparr>)"

lemma sample_lost_reach: "ad_reach (sample_rc False) () (Idle, sample_lost)"
proof -
  have "length (GetVolumesToAttach (ad_dsw (sample_detaching False))) = 0" by code_simp
  then have "ad_reach (sample_rc False) () (Attaching [], sample_detaching False)"
    using ad_reach.ad_next [OF sample_detaching_reach ad_step.attaching, of False] by simp
  from ad_reach.ad_next [OF this ad_step.statuses]
  have "ad_reach (sample_rc False) () (Idle, update_statuses (sample_rc False) (sample_detaching False))" .
  then show ?thesis unfolding sample_lost_def Let_def by (rule ad_reach.ad_next [OF _ ad_step.desire])
qed


end
