(* ===== verification/Mount_Util.thy ===== *)
theory Mount_Util
  imports Go_Strings Volume_Prelude "HOL-Library.Word"
begin

text \<open>
  \<open>pkg/util/mount\<close>: the interface to the mount table of a node, its reference counting, the reading of
  \<open>/proc/mounts\<close>, the Linux mounter with its formatting step, and the in-memory \<open>FakeMounter\<close>. The
  operating system is a value of type \<open>'w\<close>; commands, \<open>stat\<close> and \<open>open\<close> are parameters.
\<close>

section \<open>mount.go\<close>

record MountPoint =
  mp_Device :: string
  mp_Path :: string
  mp_Type :: string
  mp_Opts :: "string list"
  mp_Freq :: int
  mp_Pass :: int

record 'w mount_Interface =
  mi_Mount :: "string \<Rightarrow> string \<Rightarrow> string \<Rightarrow> string list \<Rightarrow> 'w \<Rightarrow> error option \<times> 'w"
  mi_Unmount :: "string \<Rightarrow> 'w \<Rightarrow> error option \<times> 'w"
  mi_List :: "'w \<Rightarrow> error + MountPoint list"
  mi_IsLikelyNotMountPoint :: "string \<Rightarrow> 'w \<Rightarrow> bool \<times> error option"
  mi_DeviceOpened :: "string \<Rightarrow> 'w \<Rightarrow> (error + bool)"
  mi_PathIsDevice :: "string \<Rightarrow> 'w \<Rightarrow> (error + bool)"
  mi_GetDeviceNameFromMount :: "string \<Rightarrow> string \<Rightarrow> 'w \<Rightarrow> error + string"

text \<open>\<open>filepath.EvalSymlinks\<close> and the combined output of \<open>exec.Command\<close>.\<close>

type_synonym 'w symlinks = "string \<Rightarrow> 'w \<Rightarrow> error + string"
type_synonym 'w runner = "string \<Rightarrow> string list \<Rightarrow> 'w \<Rightarrow> (string \<times> error option) \<times> 'w"

definition slTarget :: "'w symlinks \<Rightarrow> string \<Rightarrow> 'w \<Rightarrow> string" where
  "slTarget sl mountPath w = (case sl mountPath w of Inl _ \<Rightarrow> mountPath | Inr t \<Rightarrow> t)"

fun device_at :: "MountPoint list \<Rightarrow> string \<Rightarrow> string" where
  "device_at [] t = ''''"
| "device_at (mp # mps) t = (if mp_Path mp = t then mp_Device mp else device_at mps t)"

definition GetMountRefs :: "'w symlinks \<Rightarrow> 'w mount_Interface \<Rightarrow> string \<Rightarrow> 'w \<Rightarrow> error + string list" where
  "GetMountRefs sl mounter mountPath w =
     (case mi_List mounter w of
        Inl err \<Rightarrow> Inl err
      | Inr mps \<Rightarrow>
          let t = slTarget sl mountPath w; deviceName = device_at mps t
          in Inr (if deviceName = '''' then []
                  else map mp_Path (filter (\<lambda>mp. mp_Device mp = deviceName \<and> mp_Path mp \<noteq> t) mps)))"

definition GetDeviceNameFromMount :: "'w symlinks \<Rightarrow> 'w mount_Interface \<Rightarrow> string \<Rightarrow> 'w \<Rightarrow> error + string \<times> nat" where
  "GetDeviceNameFromMount sl mounter mountPath w =
     (case mi_List mounter w of
        Inl err \<Rightarrow> Inl err
      | Inr mps \<Rightarrow>
          let device = device_at mps (slTarget sl mountPath w)
          in Inr (device, length (filter (\<lambda>mp. mp_Device mp = device) mps)))"

text \<open>\<open>path.Base\<close>, and \<open>filepath.Rel\<close> for a base without \<open>..\<close> after cleaning.\<close>

definition path_Base :: "string \<Rightarrow> string" where
  "path_Base p = (if p = [] then ''.''
     else let s = rev (dropWhile (\<lambda>c. c = CHR ''/'') (rev p))
          in if s = [] then ''/'' else last (strings_Split s (CHR ''/'')))"

fun drop_common :: "string list \<Rightarrow> string list \<Rightarrow> string list \<times> string list" where
  "drop_common (b # bs) (t # ts) = (if b = t then drop_common bs ts else (b # bs, t # ts))"
| "drop_common bs ts = (bs, ts)"

definition path_elements :: "string \<Rightarrow> string list" where
  "path_elements p = filter (\<lambda>e. e \<noteq> []) (strings_Split p (CHR ''/''))"

definition filepath_Rel :: "string \<Rightarrow> string \<Rightarrow> error + string" where
  "filepath_Rel basepath targpath =
     (let base = path_Clean basepath; targ = path_Clean targpath in
      if targ = base then Inr ''.''
      else let base = (if base = ''.'' then '''' else base);
               slashed = (\<lambda>p. p \<noteq> [] \<and> hd p = CHR ''/'')
           in if slashed base \<noteq> slashed targ then Inl (Errorf ''Rel: can't make target relative to base'' None)
              else case drop_common (path_elements base) (path_elements targ) of (bs, ts) \<Rightarrow>
                if bs \<noteq> [] \<and> hd bs = ''..'' then Inl (Errorf ''Rel: can't make target relative to base'' None)
                else Inr (strings_Join (replicate (length bs) ''..'' @ ts) ''/''))"

definition getDeviceNameFromMount :: "'w symlinks \<Rightarrow> 'w mount_Interface \<Rightarrow> string \<Rightarrow> string \<Rightarrow> 'w \<Rightarrow> error + string" where
  "getDeviceNameFromMount sl mounter mountPath pluginDir w =
     (case GetMountRefs sl mounter mountPath w of
        Inl err \<Rightarrow> Inl err
      | Inr refs \<Rightarrow>
          if length refs = 0 then Inl (Errorf ''directory is not mounted'' None)
          else let basemountPath = path_Join [pluginDir, ''mounts'']
               in case find (\<lambda>ref. prefix basemountPath ref) refs of
                    Some ref \<Rightarrow> filepath_Rel basemountPath ref
                  | None \<Rightarrow> Inr (path_Base mountPath))"

section \<open>SafeFormatAndMount\<close>

definition TrimSpace :: "string \<Rightarrow> string" where
  "TrimSpace s = rev (dropWhile is_space (rev (dropWhile is_space s)))"

definition diskLooksUnformatted :: "'w runner \<Rightarrow> string \<Rightarrow> 'w \<Rightarrow> (error + bool) \<times> 'w" where
  "diskLooksUnformatted run disk w =
     (case run ''lsblk'' [''-nd'', ''-o'', ''FSTYPE'', disk] w of
        ((dataOut, Some err), w) \<Rightarrow> (Inl err, w)
      | ((dataOut, None), w) \<Rightarrow> (Inr (TrimSpace dataOut = ''''), w))"

definition formatAndMount ::
    "'w mount_Interface \<Rightarrow> 'w runner \<Rightarrow> string \<Rightarrow> string \<Rightarrow> string \<Rightarrow> string list \<Rightarrow> 'w \<Rightarrow> error option \<times> 'w" where
  "formatAndMount mounter run source target fstype options w =
     (let options = options @ [''defaults'']; (fsck, w) = run ''fsck'' [''-a'', source] w
      in if snd fsck = Some (ExitError 4)
         then (Some (Errorf ''fsck found errors on device but could not correct them'' None), w)
         else case mi_Mount mounter source target fstype options w of
             (None, w) \<Rightarrow> (None, w)
           | (Some mountErr, w) \<Rightarrow>
               (case diskLooksUnformatted run source w of
                  (Inr True, w) \<Rightarrow>
                    let fstype = (if length fstype = 0 then ''ext4'' else fstype);
                        args = (if fstype = ''ext4'' \<or> fstype = ''ext3''
                          then [''-E'', ''lazy_itable_init=0,lazy_journal_init=0'', ''-F'', source] else [source])
                    in (case run (''mkfs.'' @ fstype) args w of
                          ((_, None), w) \<Rightarrow> mi_Mount mounter source target fstype options w
                        | ((_, Some err), w) \<Rightarrow> (Some err, w))
                | (_, w) \<Rightarrow> (Some mountErr, w)))"

definition FormatAndMount ::
    "'w mount_Interface \<Rightarrow> 'w runner \<Rightarrow> string \<Rightarrow> string \<Rightarrow> string \<Rightarrow> string list \<Rightarrow> 'w \<Rightarrow> error option \<times> 'w" where
  "FormatAndMount mounter run source target fstype options w =
     (if ''ro'' \<in> set options then mi_Mount mounter source target fstype options w
      else formatAndMount mounter run source target fstype options w)"

section \<open>The Linux mounter\<close>

definition isBind :: "string list \<Rightarrow> bool \<times> string list" where
  "isBind options = fold (\<lambda>option (bind, bindRemountOpts).
       if option = ''bind'' then (True, bindRemountOpts)
       else if option = ''remount'' then (bind, bindRemountOpts)
       else (bind, bindRemountOpts @ [option])) options (False, [''remount''])"

definition makeMountArgs :: "string \<Rightarrow> string \<Rightarrow> string \<Rightarrow> string list \<Rightarrow> string list" where
  "makeMountArgs source target fstype options =
     (if length fstype > 0 then [''-t'', fstype] else []) @
     (if length options > 0 then [''-o'', strings_Join options '','' ] else []) @
     (if length source > 0 then [source] else []) @ [target]"

definition doMount :: "'w runner \<Rightarrow> string \<Rightarrow> string \<Rightarrow> string \<Rightarrow> string \<Rightarrow> string list \<Rightarrow> 'w \<Rightarrow> error option \<times> 'w" where
  "doMount run mountCmd source target fstype options w =
     (case run mountCmd (makeMountArgs source target fstype options) w of
        ((_, None), w) \<Rightarrow> (None, w)
      | ((_, Some err), w) \<Rightarrow> (Some (Errorf ''mount failed'' (Some err)), w))"

definition Mounter_Mount ::
    "'w runner \<Rightarrow> string \<Rightarrow> string \<Rightarrow> string \<Rightarrow> string \<Rightarrow> string list \<Rightarrow> 'w \<Rightarrow> error option \<times> 'w" where
  "Mounter_Mount run mounterPath source target fstype options w =
     (let (bind, bindRemountOpts) = isBind options in
      if bind then
        (case doMount run ''mount'' source target fstype [''bind''] w of
           (Some err, w) \<Rightarrow> (Some err, w)
         | (None, w) \<Rightarrow> doMount run ''mount'' source target fstype bindRemountOpts w)
      else doMount run (if fstype \<in> {''nfs'', ''glusterfs''} then mounterPath else ''mount'') source target fstype options w)"

definition Mounter_Unmount :: "'w runner \<Rightarrow> string \<Rightarrow> 'w \<Rightarrow> error option \<times> 'w" where
  "Mounter_Unmount run target w =
     (case run ''umount'' [target] w of
        ((_, None), w) \<Rightarrow> (None, w)
      | ((_, Some err), w) \<Rightarrow> (Some (Errorf ''Unmount failed'' (Some err)), w))"

text \<open>\<open>os.Stat\<close> and \<open>os.Lstat\<close>: the device number and whether the file is a device.\<close>

record FileInfo =
  fi_Dev :: nat
  fi_ModeDevice :: bool

definition IsNotMountPoint ::
    "(string \<Rightarrow> 'w \<Rightarrow> error + FileInfo) \<Rightarrow> (string \<Rightarrow> 'w \<Rightarrow> error + FileInfo) \<Rightarrow> string \<Rightarrow> 'w \<Rightarrow> bool \<times> error option" where
  "IsNotMountPoint Stat Lstat file w =
     (case Stat file w of
        Inl err \<Rightarrow> (True, Some err)
      | Inr stat \<Rightarrow>
          (case Lstat (file @ ''/..'') w of
             Inl err \<Rightarrow> (True, Some err)
           | Inr rootStat \<Rightarrow> (fi_Dev stat = fi_Dev rootStat, None)))"

definition os_IsNotExist :: "error \<Rightarrow> bool" where
  "os_IsNotExist err = (case err of ErrNotExist _ \<Rightarrow> True | _ \<Rightarrow> False)"

definition pathIsDevice :: "(string \<Rightarrow> 'w \<Rightarrow> error + FileInfo) \<Rightarrow> string \<Rightarrow> 'w \<Rightarrow> error + bool" where
  "pathIsDevice Stat pathname w =
     (case Stat pathname w of
        Inl err \<Rightarrow> if os_IsNotExist err then Inr False else Inl err
      | Inr finfo \<Rightarrow> Inr (fi_ModeDevice finfo))"

definition exclusiveOpenFailsOnDevice ::
    "(string \<Rightarrow> 'w \<Rightarrow> error + FileInfo) \<Rightarrow> (string \<Rightarrow> 'w \<Rightarrow> error option) \<Rightarrow> string \<Rightarrow> 'w \<Rightarrow> error + bool" where
  "exclusiveOpenFailsOnDevice Stat OpenExcl pathname w =
     (case pathIsDevice Stat pathname w of
        Inl err \<Rightarrow> Inl (Errorf ''PathIsDevice failed'' (Some err))
      | Inr isDevice \<Rightarrow>
          if \<not> isDevice then Inr False
          else case OpenExcl pathname w of
              None \<Rightarrow> Inr False
            | Some errno \<Rightarrow> if errno = EBUSY then Inr True else Inl errno)"

section \<open>/proc/mounts\<close>

text \<open>\<open>hash/adler32\<close>: the running sums and the checksum.\<close>

definition adler_update :: "nat \<times> nat \<Rightarrow> string \<Rightarrow> nat \<times> nat" where
  "adler_update = foldl (\<lambda>(a, b) c. let a' = (a + of_char c) mod 65521 in (a', (b + a') mod 65521))"

definition adler_sum :: "nat \<times> nat \<Rightarrow> 32 word" where
  "adler_sum d = word_of_nat (snd d * 65536 + fst d)"

text \<open>\<open>strconv.Atoi\<close>.\<close>

definition Atoi :: "string \<Rightarrow> error + int" where
  "Atoi s =
     (let neg = (s \<noteq> [] \<and> hd s = CHR ''-'');
          ds = (if s \<noteq> [] \<and> hd s \<in> {CHR ''-'', CHR ''+''} then tl s else s);
          v = (if neg then - int (read_nat ds) else int (read_nat ds))
      in if ds = [] \<or> \<not> list_all is_digit ds then Inl (Errorf ''invalid syntax'' None)
         else if v < int64_min \<or> v > int64_max then Inl (Errorf ''value out of range'' None)
         else Inr v)"

definition parse_mount :: "string list \<Rightarrow> error + MountPoint" where
  "parse_mount flds =
     (case Atoi (flds ! 4) of
        Inl err \<Rightarrow> Inl err
      | Inr freq \<Rightarrow>
          (case Atoi (flds ! 5) of
             Inl err \<Rightarrow> Inl err
           | Inr pass \<Rightarrow> Inr \<lparr>mp_Device = flds ! 0, mp_Path = flds ! 1, mp_Type = flds ! 2,
               mp_Opts = strings_Split (flds ! 3) (CHR '',''), mp_Freq = freq, mp_Pass = pass\<rparr>))"

text \<open>
  The loop over the lines. \<open>ReadString\<close> reports the end of the file together with a last line that has no
  newline, so such a line is not looked at. \<open>out\<close> says whether mount points are wanted.
\<close>

fun read_lines :: "bool \<Rightarrow> string list \<Rightarrow> nat \<times> nat \<Rightarrow> MountPoint list \<Rightarrow> error + 32 word \<times> MountPoint list" where
  "read_lines out [] hash mps = Inr (adler_sum hash, mps)"
| "read_lines out (line # lines) hash mps =
     (let flds = strings_Fields line in
      if length flds \<noteq> 6 then Inl (Errorf ''wrong number of fields'' None)
      else let hash = adler_update hash (line @ [CHR 10]) in
        if out then (case parse_mount flds of Inl err \<Rightarrow> Inl err | Inr mp \<Rightarrow> read_lines out lines hash (mps @ [mp]))
        else read_lines out lines hash mps)"

definition readProcMountsFrom :: "string \<Rightarrow> bool \<Rightarrow> error + 32 word \<times> MountPoint list" where
  "readProcMountsFrom file out = read_lines out (butlast (strings_Split file (CHR 10))) (1, 0) []"

text \<open>\<open>reads i\<close> is the outcome of the \<open>i\<close>-th time the file is opened and read.\<close>

definition readProcMounts :: "error + string \<Rightarrow> bool \<Rightarrow> error + 32 word \<times> MountPoint list" where
  "readProcMounts file out = (case file of Inl err \<Rightarrow> Inl err | Inr content \<Rightarrow> readProcMountsFrom content out)"

fun listProcMounts_loop :: "(nat \<Rightarrow> error + string) \<Rightarrow> nat \<Rightarrow> nat \<Rightarrow> 32 word \<Rightarrow> error + MountPoint list" where
  "listProcMounts_loop reads 0 i hash1 = Inl (Errorf ''failed to get a consistent snapshot'' None)"
| "listProcMounts_loop reads (Suc tries) i hash1 =
     (case readProcMounts (reads i) True of
        Inl err \<Rightarrow> Inl err
      | Inr (hash2, mps) \<Rightarrow> if hash1 = hash2 then Inr mps else listProcMounts_loop reads tries (Suc i) hash2)"

definition listProcMounts :: "(nat \<Rightarrow> error + string) \<Rightarrow> error + MountPoint list" where
  "listProcMounts reads =
     (case readProcMounts (reads 0) False of
        Inl err \<Rightarrow> Inl err
      | Inr (hash1, _) \<Rightarrow> listProcMounts_loop reads 3 1 hash1)"

definition Linux_Mounter ::
    "'w runner \<Rightarrow> string \<Rightarrow> (string \<Rightarrow> 'w \<Rightarrow> error + FileInfo) \<Rightarrow> (string \<Rightarrow> 'w \<Rightarrow> error + FileInfo) \<Rightarrow>
     (string \<Rightarrow> 'w \<Rightarrow> error option) \<Rightarrow> ('w \<Rightarrow> nat \<Rightarrow> error + string) \<Rightarrow> 'w symlinks \<Rightarrow> 'w mount_Interface" where
  "Linux_Mounter run mounterPath Stat Lstat OpenExcl reads sl =
     (let m = \<lparr>mi_Mount = Mounter_Mount run mounterPath, mi_Unmount = Mounter_Unmount run,
        mi_List = (\<lambda>w. listProcMounts (reads w)), mi_IsLikelyNotMountPoint = IsNotMountPoint Stat Lstat,
        mi_DeviceOpened = exclusiveOpenFailsOnDevice Stat OpenExcl, mi_PathIsDevice = pathIsDevice Stat,
        mi_GetDeviceNameFromMount = (\<lambda>_ _ _. Inl (Errorf '''' None))\<rparr>
      in m\<lparr>mi_GetDeviceNameFromMount := getDeviceNameFromMount sl m\<rparr>)"

section \<open>fake.go\<close>

datatype FakeAction = FakeActionMount string string string | FakeActionUnmount string

record FakeMounter =
  fm_MountPoints :: "MountPoint list"
  fm_Log :: "FakeAction list"

definition Fake_ResetLog :: "FakeMounter \<Rightarrow> FakeMounter" where
  "Fake_ResetLog f = f\<lparr>fm_Log := []\<rparr>"

definition Fake_Mount :: "string \<Rightarrow> string \<Rightarrow> string \<Rightarrow> string list \<Rightarrow> FakeMounter \<Rightarrow> error option \<times> FakeMounter" where
  "Fake_Mount source target fstype options f =
     (let source = (if ''bind'' \<in> set options
            then case find (\<lambda>mnt. source = mp_Path mnt) (fm_MountPoints f) of Some mnt \<Rightarrow> mp_Device mnt | None \<Rightarrow> source
            else source)
      in (None, f\<lparr>fm_MountPoints := fm_MountPoints f @
             [\<lparr>mp_Device = source, mp_Path = target, mp_Type = fstype, mp_Opts = [], mp_Freq = 0, mp_Pass = 0\<rparr>],
           fm_Log := fm_Log f @ [FakeActionMount target source fstype]\<rparr>))"

definition Fake_Unmount :: "string \<Rightarrow> FakeMounter \<Rightarrow> error option \<times> FakeMounter" where
  "Fake_Unmount target f =
     (None, f\<lparr>fm_MountPoints := map (\<lambda>mp. \<lparr>mp_Device = mp_Device mp, mp_Path = mp_Path mp, mp_Type = mp_Type mp,
            mp_Opts = [], mp_Freq = 0, mp_Pass = 0\<rparr>) (filter (\<lambda>mp. mp_Path mp \<noteq> target) (fm_MountPoints f)),
          fm_Log := fm_Log f @ [FakeActionUnmount target]\<rparr>)"

definition Fake_List :: "FakeMounter \<Rightarrow> error + MountPoint list" where
  "Fake_List f = Inr (fm_MountPoints f)"

definition Fake_IsLikelyNotMountPoint :: "string \<Rightarrow> FakeMounter \<Rightarrow> bool \<times> error option" where
  "Fake_IsLikelyNotMountPoint file f = (\<not> list_ex (\<lambda>mp. mp_Path mp = file) (fm_MountPoints f), None)"

definition Fake_DeviceOpened :: "string \<Rightarrow> FakeMounter \<Rightarrow> error + bool" where
  "Fake_DeviceOpened pathname f = Inr (list_ex (\<lambda>mp. mp_Device mp = pathname) (fm_MountPoints f))"

definition Fake_PathIsDevice :: "string \<Rightarrow> FakeMounter \<Rightarrow> error + bool" where
  "Fake_PathIsDevice pathname f = Inr True"

definition fake_mounter :: "FakeMounter symlinks \<Rightarrow> FakeMounter mount_Interface" where
  "fake_mounter sl =
     (let m = \<lparr>mi_Mount = Fake_Mount, mi_Unmount = Fake_Unmount, mi_List = Fake_List,
        mi_IsLikelyNotMountPoint = Fake_IsLikelyNotMountPoint, mi_DeviceOpened = Fake_DeviceOpened,
        mi_PathIsDevice = Fake_PathIsDevice, mi_GetDeviceNameFromMount = (\<lambda>_ _ _. Inl (Errorf '''' None))\<rparr>
      in m\<lparr>mi_GetDeviceNameFromMount := getDeviceNameFromMount sl m\<rparr>)"

section \<open>Reading what the kernel prints\<close>

definition field_word :: "string \<Rightarrow> bool" where
  "field_word s \<longleftrightarrow> s \<noteq> [] \<and> (\<forall>c \<in> set s. \<not> is_space c)"

lemma fields_join: "list_all field_word ws \<Longrightarrow> strings_Fields (strings_Join ws '' '') = ws"
proof (induction ws "'' ''" rule: strings_Join.induct)
  case (2 s)
  then have w: "\<forall>c \<in> set s. \<not> is_space c" "s \<noteq> []" by (simp_all add: field_word_def)
  show ?case using fields_loop_word [OF w(1), of "[]" "[]"] w(2) by (simp add: strings_Fields_def)
next
  case (3 s t ss)
  then have w: "\<forall>c \<in> set s. \<not> is_space c" "s \<noteq> []" by (simp_all add: field_word_def)
  have "is_space (CHR '' '')" by (simp add: is_space_def)
  with 3 fields_loop_word [OF w(1), of "[]" "'' '' @ strings_Join (t # ss) '' ''"] w(2)
  show ?case by (simp add: strings_Fields_def)
qed (simp add: strings_Fields_def)

lemma strings_Split_Join:
  "ss \<noteq> [] \<Longrightarrow> list_all (\<lambda>s. c \<notin> set s) ss \<Longrightarrow> strings_Split (strings_Join ss [c]) c = ss"
  by (induction ss "[c]" rule: strings_Join.induct) (auto simp: strings_Split_notin strings_Split_append)

lemma digit_not_space: "is_digit c \<Longrightarrow> \<not> is_space c"
  by (auto simp: is_digit_def is_space_def Let_def)

lemma field_word_show_int: "field_word (show_int i)"
  by (auto simp: field_word_def show_int_def is_space_def [of "CHR ''-''"] dest: show_nat_digits digit_not_space)

lemma Atoi_show_int: "int64_min \<le> i \<Longrightarrow> i \<le> int64_max \<Longrightarrow> Atoi (show_int i) = Inr i"
proof -
  assume r: "int64_min \<le> i" "i \<le> int64_max"
  have d: "list_all is_digit (show_nat n)" for n by (auto simp: list_all_iff dest: show_nat_digits)
  have h: "hd (show_nat n) \<notin> {CHR ''-'', CHR ''+''}" for n
  proof -
    have "is_digit (hd (show_nat n))" using show_nat_digits [of _ n] by simp
    then show ?thesis by (auto simp: is_digit_def)
  qed
  show ?thesis using r d h [of "nat i"] by (auto simp: Atoi_def show_int_def read_show_nat Let_def)
qed

text \<open>A line of the file, and the mount points that can be printed.\<close>

definition print_mount :: "MountPoint \<Rightarrow> string" where
  "print_mount m = strings_Join [mp_Device m, mp_Path m, mp_Type m, strings_Join (mp_Opts m) '','',
     show_int (mp_Freq m), show_int (mp_Pass m)] '' ''"

definition mount_wf :: "MountPoint \<Rightarrow> bool" where
  "mount_wf m \<longleftrightarrow> field_word (mp_Device m) \<and> field_word (mp_Path m) \<and> field_word (mp_Type m) \<and>
     mp_Opts m \<noteq> [] \<and> list_all (\<lambda>s. CHR '','' \<notin> set s) (mp_Opts m) \<and> field_word (strings_Join (mp_Opts m) '','') \<and>
     int64_min \<le> mp_Freq m \<and> mp_Freq m \<le> int64_max \<and> int64_min \<le> mp_Pass m \<and> mp_Pass m \<le> int64_max"

lemma fields_print_mount:
  "mount_wf m \<Longrightarrow> strings_Fields (print_mount m) = [mp_Device m, mp_Path m, mp_Type m, strings_Join (mp_Opts m) '','',
     show_int (mp_Freq m), show_int (mp_Pass m)]"
  unfolding print_mount_def by (rule fields_join) (simp add: mount_wf_def field_word_show_int)

lemma parse_print_mount: "mount_wf m \<Longrightarrow> parse_mount (strings_Fields (print_mount m)) = Inr m"
  unfolding fields_print_mount by (simp add: parse_mount_def mount_wf_def Atoi_show_int strings_Split_Join)

lemma print_mount_no_newline: "mount_wf m \<Longrightarrow> CHR 10 \<notin> set (print_mount m)"
proof
  assume w: "mount_wf m" and "CHR 10 \<in> set (print_mount m)"
  then have "CHR 10 \<in> set (mp_Device m) \<or> CHR 10 \<in> set (mp_Path m) \<or> CHR 10 \<in> set (mp_Type m) \<or>
      CHR 10 \<in> set (strings_Join (mp_Opts m) '','') \<or> CHR 10 \<in> set (show_int (mp_Freq m)) \<or> CHR 10 \<in> set (show_int (mp_Pass m))"
    by (auto simp: print_mount_def)
  moreover have "is_space (CHR 10)" by (simp add: is_space_def)
  ultimately show False
    using w field_word_show_int [of "mp_Freq m"] field_word_show_int [of "mp_Pass m"]
    by (auto simp: mount_wf_def field_word_def)
qed

lemma adler_update_append: "adler_update h (s @ t) = adler_update (adler_update h s) t"
  by (simp add: adler_update_def)

lemma read_lines_print:
  "list_all mount_wf ms \<Longrightarrow> read_lines out (map print_mount ms) h acc =
     Inr (adler_sum (adler_update h (concat (map (\<lambda>m. print_mount m @ [CHR 10]) ms))), if out then acc @ ms else acc)"
proof (induction ms arbitrary: h acc)
  case (Cons m ms)
  have w: "mount_wf m" "list_all mount_wf ms" using Cons.prems by simp_all
  have "concat (map (\<lambda>m. print_mount m @ [CHR 10]) (m # ms)) =
      (print_mount m @ [CHR 10]) @ concat (map (\<lambda>m. print_mount m @ [CHR 10]) ms)" by simp
  moreover have "length (strings_Fields (print_mount m)) = 6" by (simp add: fields_print_mount [OF w(1)])
  ultimately show ?case
    using Cons.IH [OF w(2), of "adler_update h (print_mount m @ [CHR 10])"] parse_print_mount [OF w(1)]
    by (simp only: adler_update_append [of h "print_mount m @ [CHR 10]"] read_lines.simps list.map Let_def) simp
qed (simp add: adler_update_def)

lemma split_lines:
  "list_all (\<lambda>l. c \<notin> set l) ls \<Longrightarrow> c \<notin> set rest \<Longrightarrow>
   strings_Split (concat (map (\<lambda>l. l @ [c]) ls) @ rest) c = ls @ [rest]"
  by (induction ls) (auto simp: strings_Split_notin strings_Split_append)

lemma readProcMountsFrom_print:
  assumes "list_all mount_wf ms" and "CHR 10 \<notin> set rest"
  shows "readProcMountsFrom (concat (map (\<lambda>m. print_mount m @ [CHR 10]) ms) @ rest) out =
    Inr (adler_sum (adler_update (1, 0) (concat (map (\<lambda>m. print_mount m @ [CHR 10]) ms))), if out then ms else [])"
proof -
  have "list_all (\<lambda>l. CHR 10 \<notin> set l) (map print_mount ms)"
    using assms(1) print_mount_no_newline by (auto simp: list_all_iff)
  from split_lines [OF this assms(2)]
  have "strings_Split (concat (map (\<lambda>m. print_mount m @ [CHR 10]) ms) @ rest) (CHR 10) = map print_mount ms @ [rest]"
    by (simp add: comp_def)
  then show ?thesis using read_lines_print [OF assms(1)] by (simp add: readProcMountsFrom_def)
qed

lemma read_lines_out: "read_lines True ls h acc = Inr (s, mps) \<Longrightarrow> read_lines False ls h acc' = Inr (s, acc')"
  by (induction ls arbitrary: h acc) (auto simp: Let_def split: if_splits sum.splits)

lemma readProcMounts_out: "readProcMounts r True = Inr (s, mps) \<Longrightarrow> readProcMounts r False = Inr (s, [])"
  by (auto simp: readProcMounts_def readProcMountsFrom_def split: sum.splits dest: read_lines_out)

lemma listProcMounts_loop_consistent:
  "listProcMounts_loop reads tries (Suc i) h = Inr mps \<Longrightarrow> readProcMounts (reads i) False = Inr (h, []) \<Longrightarrow>
   \<exists>j h'. i \<le> j \<and> j < i + tries \<and> readProcMounts (reads j) False = Inr (h', []) \<and> readProcMounts (reads (Suc j)) True = Inr (h', mps)"
proof (induction tries arbitrary: i h)
  case (Suc tries)
  from Suc.prems(1) obtain h2 mps2 where r: "readProcMounts (reads (Suc i)) True = Inr (h2, mps2)"
    and c: "if h = h2 then mps2 = mps else listProcMounts_loop reads tries (Suc (Suc i)) h2 = Inr mps"
    by (auto split: sum.splits if_splits)
  show ?case
  proof (cases "h = h2")
    case True
    then show ?thesis using c r Suc.prems(2) by auto
  next
    case False
    then obtain j h' where "Suc i \<le> j" "j < Suc i + tries" "readProcMounts (reads j) False = Inr (h', [])"
        "readProcMounts (reads (Suc j)) True = Inr (h', mps)"
      using Suc.IH [OF _ readProcMounts_out [OF r]] c by auto
    then show ?thesis by (intro exI [of _ j] exI [of _ h']) simp
  qed
qed simp

lemma readProcMounts_False_nil: "readProcMounts r False = Inr (h, mps) \<Longrightarrow> mps = []"
proof -
  have "read_lines False ls s acc = Inr (h, mps) \<Longrightarrow> mps = acc" for ls s acc
    by (induction ls arbitrary: s) (auto simp: Let_def split: if_splits)
  then show "readProcMounts r False = Inr (h, mps) \<Longrightarrow> mps = []"
    by (auto simp: readProcMounts_def readProcMountsFrom_def split: sum.splits)
qed

text \<open>Listing the mounts reads back exactly the mount points that the kernel prints, also if the file ends
  in an incomplete line, as soon as two consecutive reads see the same file. In general a list that is
  returned was read from one state of the file, and the read before it had the same checksum; there are
  at most four reads.\<close>

theorem mount_list_read_back:
  "(list_all mount_wf ms \<longrightarrow> CHR 10 \<notin> set rest \<longrightarrow>
      reads 0 = Inr (concat (map (\<lambda>m. print_mount m @ [CHR 10]) ms) @ rest) \<longrightarrow> reads 1 = reads 0 \<longrightarrow>
      listProcMounts reads = Inr ms) \<and>
   (\<forall>mps. listProcMounts reads = Inr mps \<longrightarrow> (\<exists>j h. j < 3 \<and> readProcMounts (reads j) False = Inr (h, []) \<and>
      readProcMounts (reads (Suc j)) True = Inr (h, mps)))"
proof -
  have "listProcMounts reads = Inr ms"
    if "list_all mount_wf ms" "CHR 10 \<notin> set rest"
      "reads 0 = Inr (concat (map (\<lambda>m. print_mount m @ [CHR 10]) ms) @ rest)" "reads 1 = reads 0"
    using readProcMountsFrom_print [OF that(1,2)] that(3,4)
    by (simp add: listProcMounts_def readProcMounts_def numeral_3_eq_3)
  moreover have "\<exists>j h. j < 3 \<and> readProcMounts (reads j) False = Inr (h, []) \<and> readProcMounts (reads (Suc j)) True = Inr (h, mps)"
    if "listProcMounts reads = Inr mps" for mps
    using that listProcMounts_loop_consistent [of reads 3 0 _ mps] readProcMounts_False_nil [of "reads 0"]
    by (auto simp: listProcMounts_def split: sum.splits)
  ultimately show ?thesis by blast
qed

definition sample_mount :: MountPoint where
  "sample_mount = \<lparr>mp_Device = ''/dev/nvme0n1'', mp_Path = ''/mnt'', mp_Type = ''ext4'', mp_Opts = [''rw'', ''relatime''],
     mp_Freq = 0, mp_Pass = 0\<rparr>"

theorem mount_list_read_back_witness:
  "listProcMounts (\<lambda>_. Inr (print_mount sample_mount @ [CHR 10] @ ''tmpfs'')) = Inr [sample_mount]"
proof -
  have "mount_wf sample_mount" by (simp add: mount_wf_def sample_mount_def field_word_def is_space_def int64_min_def int64_max_def)
  then show ?thesis
    using mount_list_read_back [of "[sample_mount]" "''tmpfs''" "\<lambda>_. Inr (print_mount sample_mount @ [CHR 10] @ ''tmpfs'')"]
    by simp
qed



section \<open>The contract of a mount table\<close>

text \<open>
  What the volume plugins rely on: mounting appends one entry, a bind mount takes over the device of its
  source, unmounting removes the entries of the path, a failed call changes no mount. \<open>tab w\<close> is the
  table as pairs of device and path.
\<close>

definition dp :: "MountPoint \<Rightarrow> string \<times> string" where
  "dp m = (mp_Device m, mp_Path m)"

fun dev_of :: "(string \<times> string) list \<Rightarrow> string \<Rightarrow> string" where
  "dev_of [] t = ''''"
| "dev_of ((d, p) # ms) t = (if p = t then d else dev_of ms t)"

lemma dp_simps [simp]: "fst (dp m) = mp_Device m" "snd (dp m) = mp_Path m"
  "dev_of (dp m # ms) t = (if mp_Path m = t then mp_Device m else dev_of ms t)"
  by (simp_all add: dp_def)

lemma device_at_dp: "device_at mps t = dev_of (map dp mps) t"
  by (induction mps) auto

lemma dev_of_append: "dev_of (xs @ ys) p = (if p \<in> snd ` set xs then dev_of xs p else dev_of ys p)"
  by (induction xs p rule: dev_of.induct) auto

lemma dev_of_filter: "(\<And>d. P (d, p)) \<Longrightarrow> dev_of (filter P xs) p = dev_of xs p"
  by (induction xs p rule: dev_of.induct) auto

lemma dev_of_absent: "p \<notin> snd ` set xs \<Longrightarrow> dev_of xs p = ''''"
  by (induction xs p rule: dev_of.induct) auto

lemma dev_of_mem: "p \<in> snd ` set xs \<Longrightarrow> (dev_of xs p, p) \<in> set xs"
  by (induction xs p rule: dev_of.induct) auto

text \<open>The other mounts of the device that is mounted at \<open>p\<close>.\<close>

definition other_mounts :: "(string \<times> string) list \<Rightarrow> string \<Rightarrow> string list" where
  "other_mounts t p = map snd (filter (\<lambda>m. fst m = dev_of t p \<and> snd m \<noteq> p) t)"

definition bind_source :: "(string \<times> string) list \<Rightarrow> string list \<Rightarrow> string \<Rightarrow> string" where
  "bind_source t options source =
     (if ''bind'' \<in> set options \<and> source \<in> snd ` set t then dev_of t source else source)"

text \<open>A mounter whose table is the first part of the node's state.\<close>

definition on_fst :: "'w mount_Interface \<Rightarrow> ('w \<times> 'x) mount_Interface" where
  "on_fst m = \<lparr>mi_Mount = (\<lambda>s t fs os w. map_prod id (\<lambda>f. (f, snd w)) (mi_Mount m s t fs os (fst w))),
     mi_Unmount = (\<lambda>t w. map_prod id (\<lambda>f. (f, snd w)) (mi_Unmount m t (fst w))),
     mi_List = (\<lambda>w. mi_List m (fst w)), mi_IsLikelyNotMountPoint = (\<lambda>p w. mi_IsLikelyNotMountPoint m p (fst w)),
     mi_DeviceOpened = (\<lambda>p w. mi_DeviceOpened m p (fst w)), mi_PathIsDevice = (\<lambda>p w. mi_PathIsDevice m p (fst w)),
     mi_GetDeviceNameFromMount = (\<lambda>p d w. mi_GetDeviceNameFromMount m p d (fst w))\<rparr>"

locale mount_table =
  fixes mi :: "'w mount_Interface" and tab :: "'w \<Rightarrow> (string \<times> string) list"
  assumes list_tab: "\<exists>mps. mi_List mi w = Inr mps \<and> map dp mps = tab w"
    and not_mounted: "mi_IsLikelyNotMountPoint mi p w = (p \<notin> snd ` set (tab w), None)"
    and mount_ok: "mi_Mount mi source target fstype options w = (None, w') \<Longrightarrow>
      tab w' = tab w @ [(bind_source (tab w) options source, target)]"
    and mount_err: "mi_Mount mi source target fstype options w = (Some e, w') \<Longrightarrow> tab w' = tab w"
    and unmount_ok: "mi_Unmount mi target w = (None, w') \<Longrightarrow> tab w' = filter (\<lambda>m. snd m \<noteq> target) (tab w)"
    and unmount_err: "mi_Unmount mi target w = (Some e, w') \<Longrightarrow> tab w' = tab w"
begin

text \<open>\<open>GetMountRefs\<close> lists the other mounts of the same device, \<open>GetDeviceNameFromMount\<close> counts all of them.\<close>

lemma refs:
  assumes "slTarget sl p w = p"
  shows "GetMountRefs sl mi p w = Inr (if dev_of (tab w) p = '''' then [] else other_mounts (tab w) p)"
proof -
  obtain mps where "mi_List mi w = Inr mps" "map dp mps = tab w" using list_tab by blast
  then show ?thesis
    using assms by (auto simp: GetMountRefs_def Let_def other_mounts_def device_at_dp filter_map comp_def dp_def simp flip: \<open>map dp mps = tab w\<close>)
qed

lemma device_count:
  assumes "slTarget sl p w = p"
  shows "GetDeviceNameFromMount sl mi p w =
    Inr (dev_of (tab w) p, length (filter (\<lambda>m. fst m = dev_of (tab w) p) (tab w)))"
proof -
  obtain mps where "mi_List mi w = Inr mps" "map dp mps = tab w" using list_tab by blast
  then show ?thesis
    using assms by (auto simp: GetDeviceNameFromMount_def Let_def device_at_dp filter_map comp_def dp_def simp flip: \<open>map dp mps = tab w\<close>)
qed

text \<open>A successful \<open>FormatAndMount\<close> mounts the disk once, a failed one mounts nothing.\<close>

lemma FormatAndMount_tab:
  assumes run: "\<And>cmd args w. tab (snd (run cmd args w)) = tab w"
    and f: "FormatAndMount mi run source target fstype options w = (err, w')" and "''bind'' \<notin> set options"
  shows "tab w' = (if err = None then tab w @ [(source, target)] else tab w)"
proof -
  have m: "tab w2 = (if e = None then tab w1 @ [(source, target)] else tab w1)"
    if "mi_Mount mi source target fs opts w1 = (e, w2)" "''bind'' \<notin> set opts" for e w1 w2 fs opts
    using that mount_ok mount_err by (cases e) (fastforce simp: bind_source_def)+
  have l: "tab (snd (diskLooksUnformatted run source w1)) = tab w1" for w1
    using run [of "''lsblk''"] by (auto simp: diskLooksUnformatted_def split: prod.split option.split) (metis snd_conv)+
  show ?thesis
  proof (cases "''ro'' \<in> set options")
    case True
    then show ?thesis using f m assms(3) by (simp add: FormatAndMount_def)
  next
    case False
    let ?o = "options @ [''defaults'']"
    have b: "''bind'' \<notin> set ?o" using assms(3) by simp
    obtain fsck w1 where k: "run ''fsck'' [''-a'', source] w = (fsck, w1)" by (cases "run ''fsck'' [''-a'', source] w")
    have t1: "tab w1 = tab w" using run [of "''fsck''" "[''-a'', source]" w] k by simp
    obtain e w2 where m2: "mi_Mount mi source target fstype ?o w1 = (e, w2)" by (cases "mi_Mount mi source target fstype ?o w1")
    obtain r w3 where d: "diskLooksUnformatted run source w2 = (r, w3)" by (cases "diskLooksUnformatted run source w2")
    have t3: "tab w3 = tab w2" using l [of w2] d by simp
    have mk: "tab w4 = tab w3" if "run c as w3 = (x, w4)" for c as x w4 using run [of c as w3] that by simp
    have t2: "tab w2 = (if e = None then tab w @ [(source, target)] else tab w)" using m [OF m2 b] t1 by simp
    show ?thesis
    proof (cases "snd fsck \<noteq> Some (ExitError 4) \<and> e \<noteq> None \<and> r = Inr True")
      case False
      then show ?thesis
        using f \<open>''ro'' \<notin> set options\<close> k m2 d t1 t2 t3
        by (auto simp: FormatAndMount_def formatAndMount_def Let_def split: if_splits option.splits sum.splits bool.splits)
    next
      case True
      define fs where "fs = (if length fstype = 0 then ''ext4'' else fstype)"
      define args where "args = (if fs = ''ext4'' \<or> fs = ''ext3''
        then [''-E'', ''lazy_itable_init=0,lazy_journal_init=0'', ''-F'', source] else [source])"
      obtain out ferr w4 where x: "run (''mkfs.'' @ fs) args w3 = ((out, ferr), w4)"
        by (cases "run (''mkfs.'' @ fs) args w3") auto
      have t4: "tab w4 = tab w" using mk [OF x] t3 t2 True by simp
      have "(case ferr of None \<Rightarrow> mi_Mount mi source target fs ?o w4 | Some err \<Rightarrow> (Some err, w4)) = (err, w')"
        using f \<open>''ro'' \<notin> set options\<close> k m2 d True x
        by (auto simp: FormatAndMount_def formatAndMount_def fs_def args_def split: if_splits option.splits)
      then show ?thesis using m [OF _ b, of fs w4 err w'] t4 by (cases ferr) auto
    qed
  qed
qed

lemma mount_table_on_fst: "mount_table (on_fst mi) (\<lambda>w. tab (fst w))"
  by unfold_locales (auto simp: on_fst_def not_mounted list_tab map_prod_def split: prod.splits
      dest: mount_ok mount_err unmount_ok unmount_err)

end

interpretation fake: mount_table "fake_mounter sl" "\<lambda>f. map dp (fm_MountPoints f)"
proof unfold_locales
  fix source target p fstype and options :: "string list" and w w' :: FakeMounter and e
  let ?t = "\<lambda>f. map dp (fm_MountPoints f)"
  have find: "(case find (\<lambda>m. q = mp_Path m) ms of Some m \<Rightarrow> mp_Device m | None \<Rightarrow> q) =
      (if q \<in> snd ` set (map dp ms) then dev_of (map dp ms) q else q)" for q and ms :: "MountPoint list"
    by (induction ms) auto
  show "\<exists>mps. mi_List (fake_mounter sl) w = Inr mps \<and> map dp mps = ?t w"
    by (simp add: fake_mounter_def Fake_List_def)
  show "mi_IsLikelyNotMountPoint (fake_mounter sl) p w = (p \<notin> snd ` set (?t w), None)"
    by (auto simp: fake_mounter_def Fake_IsLikelyNotMountPoint_def list_ex_iff image_image)
  show "?t w' = ?t w @ [(bind_source (?t w) options source, target)]"
    if "mi_Mount (fake_mounter sl) source target fstype options w = (None, w')"
  proof -
    have "bind_source (?t w) options source = (if ''bind'' \<in> set options
        then case find (\<lambda>m. source = mp_Path m) (fm_MountPoints w) of Some m \<Rightarrow> mp_Device m | None \<Rightarrow> source else source)"
      by (simp only: find bind_source_def) simp
    then show ?thesis using that by (simp add: fake_mounter_def Fake_Mount_def Let_def dp_def [of "\<lparr>mp_Device = _, mp_Path = _, mp_Type = _, mp_Opts = _, mp_Freq = _, mp_Pass = _\<rparr>"])
      (auto simp: dp_def)
  qed
  show "?t w' = ?t w" if "mi_Mount (fake_mounter sl) source target fstype options w = (Some e, w')"
    using that by (auto simp: fake_mounter_def Fake_Mount_def Let_def)
  show "?t w' = filter (\<lambda>m. snd m \<noteq> target) (?t w)" if "mi_Unmount (fake_mounter sl) target w = (None, w')"
    using that by (auto simp: fake_mounter_def Fake_Unmount_def dp_def filter_map comp_def)
  show "?t w' = ?t w" if "mi_Unmount (fake_mounter sl) target w = (Some e, w')"
    using that by (auto simp: fake_mounter_def Fake_Unmount_def)
qed

end
