(* ===== verification/NVMEOF.thy ===== *)
theory NVMEOF
  imports Volume_Plugins Mount_Util
begin

text \<open>
  \<open>pkg/volume/nvmeof\<close>: the volume plugin for NVMe over Fabrics that this fork of Kubernetes adds. A disk
  is connected through \<open>/dev/nvme-fabrics\<close>, mounted once at a global path, and bind-mounted from there
  for every pod. The node is a value of type \<open>'w\<close>; its mounter, commands and system calls are a record
  of functions.
\<close>

record 'w nvmeof_host =
  nh_GetPluginDir :: "string \<Rightarrow> string"
  nh_GetPodVolumeDir :: "uid \<Rightarrow> string \<Rightarrow> string \<Rightarrow> string"
  nh_mounter :: "'w mount_Interface"
  nh_exec :: "'w runner"
  nh_EvalSymlinks :: "'w symlinks"
  nh_Open :: "string \<Rightarrow> 'w \<Rightarrow> (error + nat) \<times> 'w"
  nh_Write :: "nat \<Rightarrow> string \<Rightarrow> 'w \<Rightarrow> (error + nat) \<times> 'w"
  nh_Read :: "nat \<Rightarrow> nat \<Rightarrow> 'w \<Rightarrow> (error + string) \<times> 'w"
  nh_Close :: "nat \<Rightarrow> 'w \<Rightarrow> error option \<times> 'w"
  nh_MkdirAll :: "string \<Rightarrow> 'w \<Rightarrow> error option \<times> 'w"
  nh_Remove :: "string \<Rightarrow> 'w \<Rightarrow> error option \<times> 'w"
  nh_SetVolumeOwnership :: "string \<Rightarrow> int option \<Rightarrow> 'w \<Rightarrow> 'w"

record nvmeofDisk =
  nd_volName :: string
  nd_podUID :: uid
  nd_transport :: string
  nd_nqn :: string
  nd_traddr :: string
  nd_trsvcid :: int32

record nvmeofDiskMounter = nvmeofDisk +
  nm_readOnly :: bool
  nm_fsType :: string

text \<open>The disk manager interface of \<open>disk_manager.go\<close>.\<close>

record 'w diskManager =
  dm_MakeGlobalPDName :: "nvmeofDisk \<Rightarrow> string"
  dm_AttachDisk :: "nvmeofDiskMounter \<Rightarrow> 'w \<Rightarrow> error option \<times> 'w"
  dm_DetachDisk :: "nvmeofDisk \<Rightarrow> string \<Rightarrow> 'w \<Rightarrow> error option \<times> 'w"

section \<open>nvmeof.go\<close>

definition nvmeofPluginName :: string where
  "nvmeofPluginName = ''kubernetes.io/nvmeof''"

definition getVolumeSource :: "Spec \<Rightarrow> error + NVMEOFVolumeSource \<times> bool" where
  "getVolumeSource spec =
     (case (case sp_Volume spec of Some v \<Rightarrow> vol_NVMEOF v | None \<Rightarrow> None) of
        Some src \<Rightarrow> Inr (src, nvmeof_ReadOnly src)
      | None \<Rightarrow>
          (case (case sp_PersistentVolume spec of Some pv \<Rightarrow> pv_NVMEOF pv | None \<Rightarrow> None) of
             Some src \<Rightarrow> Inr (src, sp_ReadOnly spec)
           | None \<Rightarrow> Inl (Errorf ''Spec does not reference an NVMEOF volume type'' None)))"

definition nvmeof_name :: "string \<Rightarrow> string \<Rightarrow> string \<Rightarrow> int32 \<Rightarrow> string" where
  "nvmeof_name transport nqn traddr trsvcid =
     transport @ '':'' @ nqn @ '':'' @ traddr @ '':'' @ show_int (sint trsvcid)"

definition nvmeof_GetVolumeName :: "Spec \<Rightarrow> error + string" where
  "nvmeof_GetVolumeName spec =
     (case getVolumeSource spec of
        Inl err \<Rightarrow> Inl err
      | Inr (src, _) \<Rightarrow> Inr (nvmeof_name (nvmeof_Transport src) (nvmeof_Nqn src) (nvmeof_TrAddr src) (nvmeof_TrSvcId src)))"

definition nvmeof_CanSupport :: "Spec \<Rightarrow> bool" where
  "nvmeof_CanSupport spec =
     (\<not> ((case sp_Volume spec of Some v \<Rightarrow> vol_NVMEOF v = None | None \<Rightarrow> False) \<or>
         (case sp_PersistentVolume spec of Some pv \<Rightarrow> pv_NVMEOF pv = None | None \<Rightarrow> False)))"

definition nvmeof_GetAccessModes :: "accessMode list" where
  "nvmeof_GetAccessModes = [ReadWriteOnce, ReadOnlyMany]"

definition nvmeofPlugin :: VolumePlugin where
  "nvmeofPlugin = \<lparr>pl_GetPluginName = nvmeofPluginName, pl_GetVolumeName = nvmeof_GetVolumeName,
     pl_CanSupport = nvmeof_CanSupport, pl_RequiresRemount = False, pl_Persistent = True,
     pl_Recyclable = False, pl_Deletable = False, pl_Provisionable = False, pl_Attachable = False\<rparr>"

definition newMounterInternal :: "Spec \<Rightarrow> uid \<Rightarrow> error + nvmeofDiskMounter" where
  "newMounterInternal spec podUID =
     (case getVolumeSource spec of
        Inl err \<Rightarrow> Inl err
      | Inr (src, readOnly) \<Rightarrow>
          Inr \<lparr>nd_volName = Spec_Name spec, nd_podUID = podUID, nd_transport = nvmeof_Transport src,
               nd_nqn = nvmeof_Nqn src, nd_traddr = nvmeof_TrAddr src, nd_trsvcid = nvmeof_TrSvcId src,
               nm_readOnly = readOnly, nm_fsType = nvmeof_FSType src\<rparr>)"

definition newUnmounterInternal :: "string \<Rightarrow> uid \<Rightarrow> nvmeofDisk" where
  "newUnmounterInternal volName podUID =
     \<lparr>nd_volName = volName, nd_podUID = podUID, nd_transport = '''', nd_nqn = '''', nd_traddr = '''', nd_trsvcid = 0\<rparr>"

definition ConstructVolumeSpec :: "'w nvmeof_host \<Rightarrow> string \<Rightarrow> string \<Rightarrow> 'w \<Rightarrow> error + Spec" where
  "ConstructVolumeSpec h volumeName mountPath w =
     (case mi_GetDeviceNameFromMount (nh_mounter h) mountPath (nh_GetPluginDir h nvmeofPluginName) w of
        Inl err \<Rightarrow> Inl err
      | Inr sourceName \<Rightarrow>
          Inr (NewSpecFromVolume \<lparr>vol_Name = volumeName,
            vol_NVMEOF = Some \<lparr>nvmeof_Transport = '''', nvmeof_TrAddr = '''', nvmeof_TrSvcId = 0,
              nvmeof_Nqn = volumeName, nvmeof_FSType = '''', nvmeof_ReadOnly = False\<rparr>,
            vol_PersistentVolumeClaim = None, vol_EmptyDir = None, vol_ConfigMap = False, vol_Secret = False,
            vol_source = ''''\<rparr>))"

definition nvmeof_GetPath :: "'w nvmeof_host \<Rightarrow> 'a nvmeofDisk_scheme \<Rightarrow> string" where
  "nvmeof_GetPath h d =
     nh_GetPodVolumeDir h (nd_podUID d) (EscapeQualifiedNameForDisk nvmeofPluginName) (nd_volName d)"

record Attributes =
  attr_ReadOnly :: bool
  attr_Managed :: bool
  attr_SupportsSELinux :: bool

definition nvmeof_GetAttributes :: "nvmeofDiskMounter \<Rightarrow> Attributes" where
  "nvmeof_GetAttributes b = \<lparr>attr_ReadOnly = nm_readOnly b, attr_Managed = (\<not> nm_readOnly b), attr_SupportsSELinux = True\<rparr>"

section \<open>nvmeof_util.go\<close>

definition makePDNameInternal :: "'w nvmeof_host \<Rightarrow> string \<Rightarrow> int32 \<Rightarrow> string \<Rightarrow> string \<Rightarrow> string" where
  "makePDNameInternal h traddr trsvcid transport nqn =
     path_Join [nh_GetPluginDir h nvmeofPluginName,
       traddr @ ''-'' @ show_int (sint trsvcid) @ ''-'' @ transport @ ''-'' @ nqn]"

definition MakeGlobalPDName :: "'w nvmeof_host \<Rightarrow> nvmeofDisk \<Rightarrow> string" where
  "MakeGlobalPDName h d = makePDNameInternal h (nd_traddr d) (nd_trsvcid d) (nd_transport d) (nd_nqn d)"

definition drives_of_line :: "string \<Rightarrow> string list" where
  "drives_of_line ln =
     (if strings_Contains ln '' Linux   '' then
        let flds = strings_Fields ln in
        if length flds > 3 \<and> flds ! 2 = ''Linux'' then
          let drv = strings_Split (flds ! 0) (CHR ''/'') in if length drv \<ge> 3 then [drv ! 2] else []
        else []
      else [])"

definition getNvmeofDrives :: "'w nvmeof_host \<Rightarrow> 'w \<Rightarrow> (error + string list) \<times> 'w" where
  "getNvmeofDrives h w =
     (case nh_exec h ''nvme'' [''list''] w of
        ((_, Some err), w) \<Rightarrow> (Inl err, w)
      | ((out, None), w) \<Rightarrow> (Inr (concat (map drives_of_line (strings_Split out (CHR 10)))), w))"

definition fabrics_request :: "nvmeofDiskMounter \<Rightarrow> string" where
  "fabrics_request b = ''traddr='' @ nd_traddr b @ '',transport='' @ nd_transport b @ '',trsvcid='' @
     show_int (sint (nd_trsvcid b)) @ '',nqn='' @ nd_nqn b"

definition mountNVMeoF :: "'w nvmeof_host \<Rightarrow> nvmeofDiskMounter \<Rightarrow> 'w \<Rightarrow> error option \<times> 'w" where
  "mountNVMeoF h b w =
     (case nh_Open h ''/dev/nvme-fabrics'' w of
        (Inl err, w) \<Rightarrow> (Some err, w)
      | (Inr fd, w) \<Rightarrow>
          (case nh_Write h fd (fabrics_request b) w of
             (Inl err, w) \<Rightarrow> (Some err, w)
           | (Inr n, w) \<Rightarrow>
               if n \<noteq> length (fabrics_request b) then (Some (Errorf ''syscall.Write size mismatch'' None), w)
               else (case nh_Read h fd 128 w of
                       (Inl err, w) \<Rightarrow> (Some err, w)
                     | (Inr _, w) \<Rightarrow> nh_Close h fd w)))"

definition connectNVMeoF :: "'w nvmeof_host \<Rightarrow> nvmeofDiskMounter \<Rightarrow> 'w \<Rightarrow> (error + string) \<times> 'w" where
  "connectNVMeoF h b w =
     (case getNvmeofDrives h w of
        (Inl err, w) \<Rightarrow> (Inl err, w)
      | (Inr oldDrvs, w) \<Rightarrow>
          (case mountNVMeoF h b w of
             (Some err, w) \<Rightarrow> (Inl err, w)
           | (None, w) \<Rightarrow>
               (case getNvmeofDrives h w of
                  (Inl err, w) \<Rightarrow> (Inl err, w)
                | (Inr newDrvs, w) \<Rightarrow>
                    (case find (\<lambda>drv. drv \<notin> set oldDrvs) newDrvs of
                       Some drv \<Rightarrow> (Inr drv, w)
                     | None \<Rightarrow> (Inl (Errorf ''Unable to locat NVMe-oF mounted drive'' None), w)))))"

definition disconnectNVMeoF :: "'w nvmeof_host \<Rightarrow> string \<Rightarrow> 'w \<Rightarrow> error option \<times> 'w" where
  "disconnectNVMeoF h path w =
     (let tokens = strings_Split path (CHR ''/'') in
      if length tokens = 3
      then (case nh_exec h ''nvme'' [''disconnect'', ''-d'', tokens ! 2] w of ((_, err), w) \<Rightarrow> (err, w))
      else (Some (Errorf ''NVMEOF: disconnectNVMeoF unable to extract drive'' None), w))"

definition AttachDisk :: "'w nvmeof_host \<Rightarrow> nvmeofDiskMounter \<Rightarrow> 'w \<Rightarrow> error option \<times> 'w" where
  "AttachDisk h b w =
     (case connectNVMeoF h b w of
        (Inl err, w) \<Rightarrow> (Some err, w)
      | (Inr drv, w) \<Rightarrow>
          let globalPDPath = MakeGlobalPDName h (nvmeofDisk.truncate b);
              (notMnt, err) = mi_IsLikelyNotMountPoint (nh_mounter h) globalPDPath w
          in if \<not> notMnt then (None, w)
             else (case nh_MkdirAll h globalPDPath w of
                     (Some err, w) \<Rightarrow> (Some err, w)
                   | (None, w) \<Rightarrow>
                       FormatAndMount (nh_mounter h) (nh_exec h) (''/dev/'' @ drv) globalPDPath (nm_fsType b) [] w))"

definition DetachDisk :: "'w nvmeof_host \<Rightarrow> nvmeofDisk \<Rightarrow> string \<Rightarrow> 'w \<Rightarrow> error option \<times> 'w" where
  "DetachDisk h c mntPath w =
     (case GetDeviceNameFromMount (nh_EvalSymlinks h) (nh_mounter h) mntPath w of
        Inl err \<Rightarrow> (Some err, w)
      | Inr (device, cnt) \<Rightarrow>
          (case mi_Unmount (nh_mounter h) mntPath w of
             (Some err, w) \<Rightarrow> (Some err, w)
           | (None, w) \<Rightarrow>
               if cnt \<le> 1
               then (case disconnectNVMeoF h device w of
                       (Some err, w) \<Rightarrow> (Some (Errorf ''nvmeof: failed to disconnect device'' (Some err)), w)
                     | (None, w) \<Rightarrow> (None, w))
               else (None, w)))"

definition NVMEOFUtil :: "'w nvmeof_host \<Rightarrow> 'w diskManager" where
  "NVMEOFUtil h = \<lparr>dm_MakeGlobalPDName = MakeGlobalPDName h, dm_AttachDisk = AttachDisk h, dm_DetachDisk = DetachDisk h\<rparr>"

section \<open>disk_manager.go\<close>

definition diskSetUp ::
    "'w nvmeof_host \<Rightarrow> 'w diskManager \<Rightarrow> nvmeofDiskMounter \<Rightarrow> string \<Rightarrow> int option \<Rightarrow> 'w \<Rightarrow> error option \<times> 'w" where
  "diskSetUp h manager b volPath fsGroup w =
     (let globalPDPath = dm_MakeGlobalPDName manager (nvmeofDisk.truncate b);
          (notMnt, err) = mi_IsLikelyNotMountPoint (nh_mounter h) volPath w
      in if (case err of Some e \<Rightarrow> \<not> os_IsNotExist e | None \<Rightarrow> False) then (err, w)
         else if \<not> notMnt then (None, w)
         else case dm_AttachDisk manager b w of
             (Some err, w) \<Rightarrow> (Some err, w)
           | (None, w) \<Rightarrow>
               (case nh_MkdirAll h volPath w of
                  (Some err, w) \<Rightarrow> (Some err, w)
                | (None, w) \<Rightarrow>
                    let options = ''bind'' # (if nm_readOnly b then [''ro''] else [])
                    in (case mi_Mount (nh_mounter h) globalPDPath volPath '''' options w of
                          (Some err, w) \<Rightarrow> (Some err, w)
                        | (None, w) \<Rightarrow>
                            (None, if \<not> nm_readOnly b then nh_SetVolumeOwnership h (nvmeof_GetPath h b) fsGroup w else w))))"

text \<open>After the second check of the mount point the code returns \<open>err\<close>, which is nil there, for any error of the check.\<close>

definition diskTearDown ::
    "'w nvmeof_host \<Rightarrow> 'w diskManager \<Rightarrow> nvmeofDisk \<Rightarrow> string \<Rightarrow> 'w \<Rightarrow> error option \<times> 'w" where
  "diskTearDown h manager c volPath w =
     (case mi_IsLikelyNotMountPoint (nh_mounter h) volPath w of
        (_, Some err) \<Rightarrow> (Some err, w)
      | (notMnt, None) \<Rightarrow>
          if notMnt then nh_Remove h volPath w
          else case GetMountRefs (nh_EvalSymlinks h) (nh_mounter h) volPath w of
              Inl err \<Rightarrow> (Some err, w)
            | Inr refs \<Rightarrow>
                (case mi_Unmount (nh_mounter h) volPath w of
                   (Some err, w) \<Rightarrow> (Some err, w)
                 | (None, w) \<Rightarrow>
                     (case (if length refs = 1 then dm_DetachDisk manager c (refs ! 0) w else (None, w)) of
                        (Some err, w) \<Rightarrow> (Some err, w)
                      | (None, w) \<Rightarrow>
                          (case mi_IsLikelyNotMountPoint (nh_mounter h) volPath w of
                             (_, Some mntErr) \<Rightarrow> (None, w)
                           | (notMnt, None) \<Rightarrow> if notMnt then nh_Remove h volPath w else (None, w)))))"

definition SetUpAt :: "'w nvmeof_host \<Rightarrow> nvmeofDiskMounter \<Rightarrow> string \<Rightarrow> int option \<Rightarrow> 'w \<Rightarrow> error option \<times> 'w" where
  "SetUpAt h b dir fsGroup w = diskSetUp h (NVMEOFUtil h) b dir fsGroup w"

definition SetUp :: "'w nvmeof_host \<Rightarrow> nvmeofDiskMounter \<Rightarrow> int option \<Rightarrow> 'w \<Rightarrow> error option \<times> 'w" where
  "SetUp h b fsGroup w = SetUpAt h b (nvmeof_GetPath h b) fsGroup w"

definition TearDownAt :: "'w nvmeof_host \<Rightarrow> nvmeofDisk \<Rightarrow> string \<Rightarrow> 'w \<Rightarrow> error option \<times> 'w" where
  "TearDownAt h c dir w = diskTearDown h (NVMEOFUtil h) c dir w"

definition TearDown :: "'w nvmeof_host \<Rightarrow> nvmeofDisk \<Rightarrow> 'w \<Rightarrow> error option \<times> 'w" where
  "TearDown h c w = TearDownAt h c (nvmeof_GetPath h c) w"

section \<open>The mount table under the plugin\<close>

text \<open>
  The node as the plugin relies on it: its mounter is a mount table, nothing else than the mounter changes
  the table, and the paths used are not symbolic links.
\<close>

text \<open>The device that connecting the disk makes appear.\<close>

definition new_device :: "'w nvmeof_host \<Rightarrow> nvmeofDiskMounter \<Rightarrow> 'w \<Rightarrow> string" where
  "new_device h b w = (case fst (connectNVMeoF h b w) of Inr drv \<Rightarrow> ''/dev/'' @ drv | Inl _ \<Rightarrow> '''')"

locale nvmeof_node = mount_table "nh_mounter h" tab for h :: "'w nvmeof_host" and tab +
  assumes exec_tab: "tab (snd (nh_exec h cmd args w)) = tab w"
    and open_tab: "tab (snd (nh_Open h p w)) = tab w"
    and write_tab: "tab (snd (nh_Write h fd s w)) = tab w"
    and read_tab: "tab (snd (nh_Read h fd n w)) = tab w"
    and close_tab: "tab (snd (nh_Close h fd w)) = tab w"
    and mkdir_tab: "tab (snd (nh_MkdirAll h p w)) = tab w"
    and remove_tab: "tab (snd (nh_Remove h p w)) = tab w"
    and owner_tab: "tab (nh_SetVolumeOwnership h p g w) = tab w"
    and no_links: "slTarget (nh_EvalSymlinks h) p w = p"
begin

lemma drives_tab: "getNvmeofDrives h w = (r, w') \<Longrightarrow> tab w' = tab w"
  using exec_tab [of "''nvme''" "[''list'']" w]
  by (auto simp: getNvmeofDrives_def split: prod.splits option.splits)

lemma fabrics_tab: "mountNVMeoF h b w = (err, w') \<Longrightarrow> tab w' = tab w"
proof -
  assume m: "mountNVMeoF h b w = (err, w')"
  have o: "nh_Open h p w1 = (r, w2) \<Longrightarrow> tab w2 = tab w1" for p w1 w2 r using open_tab [of p w1] by simp
  have wr: "nh_Write h fd s w1 = (r, w2) \<Longrightarrow> tab w2 = tab w1" for fd s w1 w2 r using write_tab [of fd s w1] by simp
  have rd: "nh_Read h fd n w1 = (r, w2) \<Longrightarrow> tab w2 = tab w1" for fd n w1 w2 r using read_tab [of fd n w1] by simp
  have cl: "nh_Close h fd w1 = (r, w2) \<Longrightarrow> tab w2 = tab w1" for fd w1 w2 r using close_tab [of fd w1] by simp
  show ?thesis using m
    by (auto simp: mountNVMeoF_def split: prod.splits sum.splits if_splits dest!: o wr rd cl)
qed

lemma connect_tab: "connectNVMeoF h b w = (r, w') \<Longrightarrow> tab w' = tab w"
  by (auto simp: connectNVMeoF_def split: prod.splits sum.splits option.splits dest!: drives_tab fabrics_tab)

lemma disconnect_tab: "disconnectNVMeoF h p w = (err, w') \<Longrightarrow> tab w' = tab w"
  using exec_tab by (auto simp: disconnectNVMeoF_def Let_def split: if_splits prod.splits) (metis snd_conv)

lemma AttachDisk_tab:
  assumes "AttachDisk h b w = (err, w')"
  shows "tab w' = (if err = None \<and> MakeGlobalPDName h (nvmeofDisk.truncate b) \<notin> snd ` set (tab w)
    then tab w @ [(new_device h b w, MakeGlobalPDName h (nvmeofDisk.truncate b))] else tab w)"
proof -
  let ?pd = "MakeGlobalPDName h (nvmeofDisk.truncate b)"
  obtain r w1 where c: "connectNVMeoF h b w = (r, w1)" by (cases "connectNVMeoF h b w")
  note t1 = connect_tab [OF c]
  show ?thesis
  proof (cases "\<exists>drv. r = Inr drv \<and> ?pd \<notin> snd ` set (tab w)")
    case False
    then show ?thesis using assms c t1 by (cases r) (auto simp: AttachDisk_def not_mounted)
  next
    case True
    then obtain drv where r: "r = Inr drv" and n: "?pd \<notin> snd ` set (tab w)" by blast
    obtain e w2 where m: "nh_MkdirAll h ?pd w1 = (e, w2)" by (cases "nh_MkdirAll h ?pd w1")
    have t2: "tab w2 = tab w" using mkdir_tab [of ?pd w1] m t1 by simp
    have "(case e of Some err \<Rightarrow> (Some err, w2)
        | None \<Rightarrow> FormatAndMount (nh_mounter h) (nh_exec h) (''/dev/'' @ drv) ?pd (nm_fsType b) [] w2) = (err, w')"
      using assms c r n t1 m by (simp add: AttachDisk_def not_mounted)
    then show ?thesis
      using FormatAndMount_tab [of "nh_exec h", OF exec_tab] t2 n c r by (cases e) (fastforce simp: new_device_def)+
  qed
qed

lemma DetachDisk_tab:
  assumes "DetachDisk h c p w = (err, w')"
  shows "if err = None then tab w' = filter (\<lambda>m. snd m \<noteq> p) (tab w)
    else tab w' = tab w \<or> tab w' = filter (\<lambda>m. snd m \<noteq> p) (tab w)"
proof -
  obtain e w1 where u: "mi_Unmount (nh_mounter h) p w = (e, w1)" by (cases "mi_Unmount (nh_mounter h) p w")
  show ?thesis
  proof (cases e)
    case (Some x)
    then show ?thesis using assms u unmount_err by (auto simp: DetachDisk_def device_count no_links)
  next
    case None
    have "tab w1 = filter (\<lambda>m. snd m \<noteq> p) (tab w)" using unmount_ok u None by simp
    then show ?thesis
      using assms u None disconnect_tab
      by (auto simp: DetachDisk_def device_count no_links split: if_splits prod.splits option.splits)
  qed
qed

end

text \<open>The contract of a disk manager: it mounts the disk at its global path, at most once.\<close>

locale disk_manager = nvmeof_node h tab for h :: "'w nvmeof_host" and tab +
  fixes dm :: "'w diskManager" and disk_of :: "nvmeofDiskMounter \<Rightarrow> 'w \<Rightarrow> string"
  assumes attach_tab: "dm_AttachDisk dm b w = (err, w') \<Longrightarrow>
      tab w' = (if err = None \<and> dm_MakeGlobalPDName dm (nvmeofDisk.truncate b) \<notin> snd ` set (tab w)
        then tab w @ [(disk_of b w, dm_MakeGlobalPDName dm (nvmeofDisk.truncate b))] else tab w)"
    and detach_tab: "dm_DetachDisk dm c p w = (err, w') \<Longrightarrow>
      if err = None then tab w' = filter (\<lambda>m. snd m \<noteq> p) (tab w)
      else tab w' = tab w \<or> tab w' = filter (\<lambda>m. snd m \<noteq> p) (tab w)"
begin

text \<open>A pod's directory that is mounted already is left alone.\<close>

lemma diskSetUp_mounted: "volPath \<in> snd ` set (tab w) \<Longrightarrow> diskSetUp h dm b volPath fsGroup w = (None, w)"
  by (simp add: diskSetUp_def not_mounted)

lemma diskSetUp_ok:
  assumes s: "diskSetUp h dm b volPath fsGroup w = (None, w')" and n: "volPath \<notin> snd ` set (tab w)"
  defines "pd \<equiv> dm_MakeGlobalPDName dm (nvmeofDisk.truncate b)"
  shows "tab w' = (if pd \<in> snd ` set (tab w) then tab w @ [(dev_of (tab w) pd, volPath)]
    else tab w @ [(disk_of b w, pd), (disk_of b w, volPath)])"
proof -
  obtain w1 where a: "dm_AttachDisk dm b w = (None, w1)"
    using s n by (cases "dm_AttachDisk dm b w"; cases "fst (dm_AttachDisk dm b w)") (auto simp: diskSetUp_def not_mounted)
  obtain w2 where m: "nh_MkdirAll h volPath w1 = (None, w2)"
    using s n a by (cases "nh_MkdirAll h volPath w1"; cases "fst (nh_MkdirAll h volPath w1)") (auto simp: diskSetUp_def not_mounted)
  let ?o = "''bind'' # (if nm_readOnly b then [''ro''] else [])"
  obtain w3 where b: "mi_Mount (nh_mounter h) pd volPath '''' ?o w2 = (None, w3)"
    and w': "w' = (if \<not> nm_readOnly b then nh_SetVolumeOwnership h (nvmeof_GetPath h b) fsGroup w3 else w3)"
    using s n a m by (auto simp: diskSetUp_def not_mounted pd_def Let_def split: prod.splits option.splits)
  have t2: "tab w2 = tab w1" using mkdir_tab [of volPath w1] m by simp
  have t1: "tab w1 = (if pd \<notin> snd ` set (tab w) then tab w @ [(disk_of b w, pd)] else tab w)"
    using attach_tab [OF a] unfolding pd_def by simp
  have "tab w' = tab w1 @ [(bind_source (tab w1) ?o pd, volPath)]"
    using mount_ok [OF b] t2 by (simp add: w' owner_tab)
  moreover have "bind_source (tab w1) ?o pd = (if pd \<in> snd ` set (tab w) then dev_of (tab w) pd else disk_of b w)"
    unfolding bind_source_def t1 by (auto simp: dev_of_append)
  ultimately show ?thesis using t1 by auto
qed

text \<open>Tearing down unmounts the pod's directory, and the global mount exactly if it is the only other one.\<close>

lemma diskTearDown_ok:
  assumes s: "diskTearDown h dm c volPath w = (None, w')" and d: "dev_of (tab w) volPath \<noteq> ''''"
  defines "others \<equiv> other_mounts (tab w) volPath"
  shows "tab w' = filter (\<lambda>m. snd m \<noteq> volPath \<and> (length others = 1 \<longrightarrow> snd m \<noteq> hd others)) (tab w)"
proof -
  have mem: "volPath \<in> snd ` set (tab w)" using d dev_of_absent by blast
  have refs: "GetMountRefs (nh_EvalSymlinks h) (nh_mounter h) volPath w = Inr others"
    using refs [OF no_links] d by (simp add: others_def)
  obtain w1 where u: "mi_Unmount (nh_mounter h) volPath w = (None, w1)"
    using s mem refs by (cases "mi_Unmount (nh_mounter h) volPath w"; cases "fst (mi_Unmount (nh_mounter h) volPath w)")
      (auto simp: diskTearDown_def not_mounted)
  have t1: "tab w1 = filter (\<lambda>m. snd m \<noteq> volPath) (tab w)" by (rule unmount_ok [OF u])
  obtain w2 where dd: "(if length others = 1 then dm_DetachDisk dm c (others ! 0) w1 else (None, w1)) = (None, w2)"
    and r: "w' = (if volPath \<notin> snd ` set (tab w2) then snd (nh_Remove h volPath w2) else w2)"
    using s mem refs u by (auto simp: diskTearDown_def not_mounted split: prod.splits option.splits if_splits)
  have "tab w' = tab w2" using r remove_tab by simp
  moreover have "tab w2 = (if length others = 1 then filter (\<lambda>m. snd m \<noteq> others ! 0) (tab w1) else tab w1)"
    using dd detach_tab [of c "others ! 0" w1 None w2] by (auto split: if_splits)
  moreover have "length others = 1 \<Longrightarrow> hd others = others ! 0" by (cases others) simp_all
  ultimately show ?thesis using t1 by (auto simp: conj_commute intro: filter_cong)
qed

end

sublocale nvmeof_node < util: disk_manager h tab "NVMEOFUtil h" "new_device h"
proof unfold_locales
  fix b c p w err w'
  show "tab w' = (if err = None \<and> dm_MakeGlobalPDName (NVMEOFUtil h) (nvmeofDisk.truncate b) \<notin> snd ` set (tab w)
      then tab w @ [(new_device h b w, dm_MakeGlobalPDName (NVMEOFUtil h) (nvmeofDisk.truncate b))] else tab w)"
    if "dm_AttachDisk (NVMEOFUtil h) b w = (err, w')"
    using AttachDisk_tab [of b w err w'] that unfolding NVMEOFUtil_def diskManager.simps by blast
  show "if err = None then tab w' = filter (\<lambda>m. snd m \<noteq> p) (tab w)
      else tab w' = tab w \<or> tab w' = filter (\<lambda>m. snd m \<noteq> p) (tab w)"
    if "dm_DetachDisk (NVMEOFUtil h) c p w = (err, w')"
    using that DetachDisk_tab [of c p w err w'] by (simp add: NVMEOFUtil_def)
qed

section \<open>A node with the in-memory mounter\<close>

text \<open>
  The mount table is a \<open>FakeMounter\<close>, everything else of the node is arbitrary: \<open>h\<close> gives the commands and
  system calls on the rest of its state.
\<close>

definition on_snd :: "('x \<Rightarrow> 'r \<times> 'x) \<Rightarrow> 'm \<times> 'x \<Rightarrow> 'r \<times> 'm \<times> 'x" where
  "on_snd f w = (case f (snd w) of (r, x) \<Rightarrow> (r, fst w, x))"

definition fake_host :: "'x nvmeof_host \<Rightarrow> (FakeMounter \<times> 'x) nvmeof_host" where
  "fake_host h = \<lparr>nh_GetPluginDir = nh_GetPluginDir h, nh_GetPodVolumeDir = nh_GetPodVolumeDir h,
     nh_mounter = on_fst (fake_mounter (\<lambda>p _. Inr p)), nh_exec = (\<lambda>cmd args. on_snd (nh_exec h cmd args)),
     nh_EvalSymlinks = (\<lambda>p _. Inr p), nh_Open = (\<lambda>p. on_snd (nh_Open h p)), nh_Write = (\<lambda>fd s. on_snd (nh_Write h fd s)),
     nh_Read = (\<lambda>fd n. on_snd (nh_Read h fd n)), nh_Close = (\<lambda>fd. on_snd (nh_Close h fd)),
     nh_MkdirAll = (\<lambda>p. on_snd (nh_MkdirAll h p)), nh_Remove = (\<lambda>p. on_snd (nh_Remove h p)),
     nh_SetVolumeOwnership = (\<lambda>p g w. (fst w, nh_SetVolumeOwnership h p g (snd w)))\<rparr>"

definition fake_tab :: "FakeMounter \<times> 'x \<Rightarrow> (string \<times> string) list" where
  "fake_tab w = map dp (fm_MountPoints (fst w))"

lemma on_snd_tab [simp]: "fake_tab (snd (on_snd f w)) = fake_tab w"
  by (simp add: on_snd_def fake_tab_def split: prod.split)

interpretation fh: nvmeof_node "fake_host h" fake_tab
proof -
  have "mount_table (nh_mounter (fake_host h)) (fake_tab :: FakeMounter \<times> 'a \<Rightarrow> _)"
    using fake.mount_table_on_fst [of "\<lambda>p _. Inr p"] by (simp add: fake_host_def fake_tab_def [abs_def])
  then show "nvmeof_node (fake_host h) fake_tab"
    by (rule nvmeof_node.intro, intro nvmeof_node_axioms.intro) (simp_all add: fake_host_def slTarget_def, simp add: fake_tab_def)
qed

section \<open>Properties of the plugin\<close>

lemma find_outsideD: "find (\<lambda>x. x \<notin> A) xs = Some y \<Longrightarrow> y \<in> set xs \<and> y \<notin> A"
  by (auto simp: find_Some_iff)

text \<open>A drive that \<open>connectNVMeoF\<close> returns is listed by \<open>nvme list\<close> after the connect request and was not
  listed before it: a drive that was there already is never taken for the new disk.\<close>

lemma connect_returns_new_drive:
  assumes "connectNVMeoF h b w = (Inr drv, w')"
  shows "\<exists>old new w1 w2 w3. getNvmeofDrives h w = (Inr old, w1) \<and> mountNVMeoF h b w1 = (None, w2) \<and>
    getNvmeofDrives h w2 = (Inr new, w') \<and> drv \<in> set new - set old"
  using assms
  by (auto simp: connectNVMeoF_def split: prod.splits sum.splits option.splits dest: find_outsideD)

lemma NVMEOFUtil_simps [simp]:
  "dm_MakeGlobalPDName (NVMEOFUtil h) = MakeGlobalPDName h" "dm_AttachDisk (NVMEOFUtil h) = AttachDisk h"
  "dm_DetachDisk (NVMEOFUtil h) = DetachDisk h"
  by (simp_all add: NVMEOFUtil_def)

text \<open>Setting up a volume for a pod whose directory is mounted already does nothing. Otherwise, if it
  succeeds, the directory is mounted with the device of the global path of the disk; the global path is
  mounted with the newly connected device if it was not mounted, and no other mount changes.\<close>

theorem nvmeof_setup:
  fixes h :: "'x nvmeof_host"
  assumes "SetUp (fake_host h) b fsGroup w = (err, w')"
  defines "vol \<equiv> nvmeof_GetPath (fake_host h) b" and "pd \<equiv> MakeGlobalPDName (fake_host h) (nvmeofDisk.truncate b)"
  shows "(vol \<in> snd ` set (fake_tab w) \<longrightarrow> err = None \<and> w' = w) \<and>
    (vol \<notin> snd ` set (fake_tab w) \<longrightarrow> err = None \<longrightarrow>
       fake_tab w' = (if pd \<in> snd ` set (fake_tab w) then fake_tab w @ [(dev_of (fake_tab w) pd, vol)]
         else fake_tab w @ [(new_device (fake_host h) b w, pd), (new_device (fake_host h) b w, vol)]))"
proof -
  have s: "diskSetUp (fake_host h) (NVMEOFUtil (fake_host h)) b vol fsGroup w = (err, w')"
    using assms(1) by (simp add: SetUp_def SetUpAt_def vol_def)
  show ?thesis
    using s fh.util.diskSetUp_mounted [where h = h and b = b and w = w and fsGroup = fsGroup and volPath = vol]
      fh.util.diskSetUp_ok [where h = h and b = b and w = w and w' = w' and fsGroup = fsGroup and volPath = vol]
    unfolding pd_def NVMEOFUtil_simps by simp
qed

text \<open>Tearing down a mounted volume of a pod, if it succeeds, unmounts the pod's directory, and also the
  mount that remains if exactly one other mount has the same device. No other mount changes. While two or
  more other mounts have the device, no command is run: the disk is not disconnected.\<close>

theorem nvmeof_teardown:
  fixes h :: "'x nvmeof_host"
  assumes "TearDown (fake_host h) c w = (err, w')" and "dev_of (fake_tab w) (nvmeof_GetPath (fake_host h) c) \<noteq> ''''"
  defines "vol \<equiv> nvmeof_GetPath (fake_host h) c"
  shows "(err = None \<longrightarrow> fake_tab w' = filter (\<lambda>m. snd m \<noteq> vol \<and>
        (\<forall>q. other_mounts (fake_tab w) vol = [q] \<longrightarrow> snd m \<noteq> q)) (fake_tab w)) \<and>
    (length (other_mounts (fake_tab w) vol) > 1 \<longrightarrow> TearDown (fake_host (h\<lparr>nh_exec := exec'\<rparr>)) c w = (err, w'))"
proof -
  let ?o = "other_mounts (fake_tab w) vol"
  have td: "diskTearDown (fake_host h) (NVMEOFUtil (fake_host h)) c vol w = (err, w')"
    using assms(1) by (simp add: TearDown_def TearDownAt_def vol_def)
  have "(\<forall>q. ?o = [q] \<longrightarrow> x \<noteq> q) = (length ?o = 1 \<longrightarrow> x \<noteq> hd ?o)" for x
    by (cases ?o rule: list.exhaust; cases "tl ?o") auto
  then have 1: "err = None \<longrightarrow> fake_tab w' = filter (\<lambda>m. snd m \<noteq> vol \<and> (\<forall>q. ?o = [q] \<longrightarrow> snd m \<noteq> q)) (fake_tab w)"
    using fh.util.diskTearDown_ok [where h = h and c = c and volPath = vol and w = w and w' = w'] td assms(2)
    by (simp add: vol_def)
  have refs: "GetMountRefs (nh_EvalSymlinks (fake_host h)) (nh_mounter (fake_host h)) vol w = Inr ?o"
    using fh.refs [OF fh.no_links, where h = h and p = vol and w = w] assms(2) by (simp add: vol_def)
  have "diskTearDown (fake_host (h\<lparr>nh_exec := exec'\<rparr>)) (NVMEOFUtil (fake_host (h\<lparr>nh_exec := exec'\<rparr>))) c vol w = (err, w')"
    if "length ?o > 1"
  proof -
    have same: "nh_mounter (fake_host (h\<lparr>nh_exec := exec'\<rparr>)) = nh_mounter (fake_host h)"
        "nh_EvalSymlinks (fake_host (h\<lparr>nh_exec := exec'\<rparr>)) = nh_EvalSymlinks (fake_host h)"
        "nh_Remove (fake_host (h\<lparr>nh_exec := exec'\<rparr>)) = nh_Remove (fake_host h)" by (simp_all add: fake_host_def)
    have n: "(length ?o = 1) = False" using that by simp
    show ?thesis using td unfolding diskTearDown_def same refs sum.case n if_False .
  qed
  then show ?thesis using 1 by (simp add: TearDown_def TearDownAt_def vol_def nvmeof_GetPath_def fake_host_def)
qed

text \<open>The mount table after a set-up, and what is left of it when the mounts that a tear-down removes are gone.\<close>

lemma shared_mount_undone:
  assumes "pd \<in> snd ` set t" and "vol \<notin> snd ` set t" and "other_mounts t pd \<noteq> []"
  shows "dev_of (t @ [(dev_of t pd, vol)]) vol = dev_of t pd \<and>
    length (other_mounts (t @ [(dev_of t pd, vol)]) vol) \<noteq> 1 \<and>
    filter (\<lambda>m. snd m \<noteq> vol) (t @ [(dev_of t pd, vol)]) = t"
proof -
  let ?t = "t @ [(dev_of t pd, vol)]"
  have dev: "dev_of ?t vol = dev_of t pd" using assms(2) by (simp add: dev_of_append)
  have "set (pd # other_mounts t pd) \<subseteq> set (other_mounts ?t vol)"
  proof
    fix q assume "q \<in> set (pd # other_mounts t pd)"
    then have q: "(dev_of t pd, q) \<in> set t" using dev_of_mem [OF assms(1)] by (auto simp: other_mounts_def)
    then have "q \<noteq> vol" using assms(2) by (metis image_eqI snd_conv)
    then show "q \<in> set (other_mounts ?t vol)" unfolding other_mounts_def dev using q by force
  qed
  moreover have "pd \<notin> set (other_mounts t pd)" by (auto simp: other_mounts_def)
  ultimately have "length (other_mounts ?t vol) \<noteq> 1"
    using assms(3) by (cases "other_mounts ?t vol"; cases "other_mounts t pd"; auto)
  moreover have "filter (\<lambda>m. snd m \<noteq> vol) t = t" using assms(2) by (force intro: filter_True)
  ultimately show ?thesis using dev by simp
qed

lemma new_mount_undone:
  assumes "pd \<notin> snd ` set t" and "vol \<notin> snd ` set t" and "pd \<noteq> vol" and "nd \<notin> fst ` set t"
  shows "dev_of (t @ [(nd, pd), (nd, vol)]) vol = nd \<and> other_mounts (t @ [(nd, pd), (nd, vol)]) vol = [pd] \<and>
    filter (\<lambda>m. snd m \<noteq> vol \<and> snd m \<noteq> pd) (t @ [(nd, pd), (nd, vol)]) = t"
proof -
  have dev: "dev_of (t @ [(nd, pd), (nd, vol)]) vol = nd" using assms(2,3) by (simp add: dev_of_append)
  have "filter (\<lambda>m. fst m = nd \<and> snd m \<noteq> vol) t = []" using assms(4) by (auto simp: filter_empty_conv)
  moreover have "filter (\<lambda>m. snd m \<noteq> vol \<and> snd m \<noteq> pd) t = t" using assms(1,2) by (force intro: filter_True)
  ultimately show ?thesis unfolding other_mounts_def dev using assms(3) by simp
qed


section \<open>Names\<close>

lemma digits_no_sep: "c \<in> {CHR '':'', CHR ''/''} \<Longrightarrow> c \<notin> set (show_int i)"
proof
  assume "c \<in> {CHR '':'', CHR ''/''}" "c \<in> set (show_int i)"
  then show False using show_int_chars [of c i] by (auto simp: is_digit_def)
qed

lemma nvmeof_name_inj:
  assumes "CHR '':'' \<notin> set tr" "CHR '':'' \<notin> set tr'" "CHR '':'' \<notin> set ad" "CHR '':'' \<notin> set ad'"
  shows "nvmeof_name tr nqn ad svc = nvmeof_name tr' nqn' ad' svc' \<longleftrightarrow> tr = tr' \<and> nqn = nqn' \<and> ad = ad' \<and> svc = svc'"
proof -
  have s: "CHR '':'' \<notin> set (show_int i)" for i using digits_no_sep by simp
  have split: "tr @ '':'' @ nqn @ '':'' @ ad @ '':'' @ x = (tr @ CHR '':'' # nqn @ CHR '':'' # ad) @ CHR '':'' # x" for tr nqn ad and x :: string
    by simp
  have split2: "tr @ CHR '':'' # nqn @ CHR '':'' # ad = (tr @ CHR '':'' # nqn) @ CHR '':'' # ad" for tr nqn and ad :: string by simp
  show ?thesis
    unfolding nvmeof_name_def split split_at_last_inj [OF s s] split2 split_at_last_inj [OF assms(3,4)]
      split_at_first_inj [OF assms(1,2)] by (auto simp: show_int_inj intro: signed_word_eqI)
qed

definition no_colon :: "NVMEOFVolumeSource \<Rightarrow> bool" where
  "no_colon src \<longleftrightarrow> CHR '':'' \<notin> set (nvmeof_Transport src) \<and> CHR '':'' \<notin> set (nvmeof_TrAddr src)"

definition same_target :: "NVMEOFVolumeSource \<Rightarrow> NVMEOFVolumeSource \<Rightarrow> bool" where
  "same_target s s' \<longleftrightarrow> nvmeof_Transport s = nvmeof_Transport s' \<and> nvmeof_Nqn s = nvmeof_Nqn s' \<and>
     nvmeof_TrAddr s = nvmeof_TrAddr s' \<and> nvmeof_TrSvcId s = nvmeof_TrSvcId s'"

text \<open>Two NVMe-oF specs whose transports and addresses have no colon get the same volume name exactly if they
  name the same transport, subsystem, address and port.\<close>

lemma nvmeof_volume_name_unique:
  assumes "getVolumeSource spec = Inr (src, ro)" and "getVolumeSource spec' = Inr (src', ro')"
    and "no_colon src" and "no_colon src'"
  shows "nvmeof_GetVolumeName spec = nvmeof_GetVolumeName spec' \<longleftrightarrow> same_target src src'"
  using assms by (auto simp: nvmeof_GetVolumeName_def nvmeof_name_inj no_colon_def same_target_def)

text \<open>C36: With an address that has a colon, as IPv6 addresses do, the volume names of two different targets
  can be equal, and the spec that \<open>ConstructVolumeSpec\<close> rebuilds from a mount has a volume name that differs
  from that of every spec with a non-empty transport.\<close>

theorem nvmeof_names_lose_identity:
  "(\<exists>src src'. \<not> same_target src src' \<and>
      nvmeof_name (nvmeof_Transport src) (nvmeof_Nqn src) (nvmeof_TrAddr src) (nvmeof_TrSvcId src) =
      nvmeof_name (nvmeof_Transport src') (nvmeof_Nqn src') (nvmeof_TrAddr src') (nvmeof_TrSvcId src')) \<and>
   (\<forall>spec src ro spec'. getVolumeSource spec = Inr (src, ro) \<longrightarrow> nvmeof_Transport src \<noteq> '''' \<longrightarrow>
      CHR '':'' \<notin> set (nvmeof_Transport src) \<longrightarrow> ConstructVolumeSpec h v mountPath w = Inr spec' \<longrightarrow>
      nvmeof_GetVolumeName spec' \<noteq> nvmeof_GetVolumeName spec)"
proof -
  let ?s = "\<lambda>nqn addr. \<lparr>nvmeof_Transport = ''rdma'', nvmeof_TrAddr = addr, nvmeof_TrSvcId = 4420, nvmeof_Nqn = nqn,
     nvmeof_FSType = '''', nvmeof_ReadOnly = False\<rparr>"
  have "\<not> same_target (?s ''a'' ''b:c'') (?s ''a:b'' ''c'') \<and>
      nvmeof_name ''rdma'' ''a'' ''b:c'' 4420 = nvmeof_name ''rdma'' ''a:b'' ''c'' 4420"
    by (simp add: same_target_def nvmeof_name_def)
  then have "\<exists>src src'. \<not> same_target src src' \<and>
      nvmeof_name (nvmeof_Transport src) (nvmeof_Nqn src) (nvmeof_TrAddr src) (nvmeof_TrSvcId src) =
      nvmeof_name (nvmeof_Transport src') (nvmeof_Nqn src') (nvmeof_TrAddr src') (nvmeof_TrSvcId src')"
    by (intro exI [of _ "?s ''a'' ''b:c''"] exI [of _ "?s ''a:b'' ''c''"]) simp
  moreover have "nvmeof_GetVolumeName spec' \<noteq> nvmeof_GetVolumeName spec"
    if "getVolumeSource spec = Inr (src, ro)" "nvmeof_Transport src \<noteq> ''''" "CHR '':'' \<notin> set (nvmeof_Transport src)"
      "ConstructVolumeSpec h v mountPath w = Inr spec'" for spec src ro spec'
    using that split_at_first_inj [of "CHR '':''" "[]" "nvmeof_Transport src"]
    by (auto simp: ConstructVolumeSpec_def nvmeof_GetVolumeName_def getVolumeSource_def NewSpecFromVolume_def nvmeof_name_def
        split: sum.splits)
  ultimately show ?thesis by blast
qed

section \<open>Validation and defaults of the API\<close>

text \<open>The names of the offending fields stand for the errors.\<close>

definition validateNVMEOFVolumeSource :: "NVMEOFVolumeSource \<Rightarrow> string list" where
  "validateNVMEOFVolumeSource src =
     (if length (nvmeof_Transport src) = 0 then [''transport''] else []) @
     (if length (nvmeof_TrAddr src) = 0 then [''traddr''] else []) @
     (if sint (nvmeof_TrSvcId src) < 0 then [''trsvcid''] else []) @
     (if length (nvmeof_Nqn src) = 0 then [''nqn''] else [])"

definition SetDefaults_NVMEOFVolumeSource :: "NVMEOFVolumeSource \<Rightarrow> NVMEOFVolumeSource" where
  "SetDefaults_NVMEOFVolumeSource obj = (if nvmeof_FSType obj = '''' then obj\<lparr>nvmeof_FSType := ''ext4''\<rparr> else obj)"

lemma validated_iff:
  "validateNVMEOFVolumeSource src = [] \<longleftrightarrow>
     nvmeof_Transport src \<noteq> [] \<and> nvmeof_TrAddr src \<noteq> [] \<and> 0 \<le> sint (nvmeof_TrSvcId src) \<and> nvmeof_Nqn src \<noteq> []"
  by (auto simp: validateNVMEOFVolumeSource_def)

definition path_safe :: "NVMEOFVolumeSource \<Rightarrow> bool" where
  "path_safe src \<longleftrightarrow> {CHR ''-'', CHR ''/''} \<inter> set (nvmeof_TrAddr src @ nvmeof_Transport src) = {} \<and> CHR ''/'' \<notin> set (nvmeof_Nqn src)"

definition disk_of_source :: "NVMEOFVolumeSource \<Rightarrow> nvmeofDisk" where
  "disk_of_source src = \<lparr>nd_volName = '''', nd_podUID = '''', nd_transport = nvmeof_Transport src, nd_nqn = nvmeof_Nqn src,
     nd_traddr = nvmeof_TrAddr src, nd_trsvcid = nvmeof_TrSvcId src\<rparr>"

lemma newMounter_disk:
  "newMounterInternal spec uid = Inr b \<Longrightarrow> getVolumeSource spec = Inr (src, ro) \<Longrightarrow>
   MakeGlobalPDName h (nvmeofDisk.truncate b) = MakeGlobalPDName h (disk_of_source src)"
  by (auto simp: newMounterInternal_def MakeGlobalPDName_def disk_of_source_def nvmeofDisk.defs)

lemma show_nonneg_no_dash: "0 \<le> i \<Longrightarrow> CHR ''-'' \<notin> set (show_int i)"
  using show_int_nonneg [of i "CHR ''-''"] by (auto simp: is_digit_def)

lemma pd_element_inj:
  assumes "0 \<le> sint svc" "0 \<le> sint svc'" "CHR ''-'' \<notin> set (ad @ tr)" "CHR ''-'' \<notin> set (ad' @ tr')"
  shows "ad @ ''-'' @ show_int (sint svc) @ ''-'' @ tr @ ''-'' @ nqn = ad' @ ''-'' @ show_int (sint svc') @ ''-'' @ tr' @ ''-'' @ nqn' \<longleftrightarrow>
    ad = ad' \<and> svc = svc' \<and> tr = tr' \<and> nqn = nqn'"
  using split_at_first_inj [of "CHR ''-''" ad ad'] split_at_first_inj [of "CHR ''-''" "show_int (sint svc)" "show_int (sint svc')"]
    split_at_first_inj [of "CHR ''-''" tr tr'] assms show_nonneg_no_dash
  by (auto simp: show_int_inj intro: signed_word_eqI)

text \<open>Two sources that pass the validation of the API, whose addresses and transports have no dash and none of
  whose names has a slash, are mounted at the same global path exactly if they name the same target: two
  disks never share a mount point, and two pods with one disk share one.\<close>

theorem global_path_unique:
  assumes "validateNVMEOFVolumeSource src = []" and "validateNVMEOFVolumeSource src' = []"
    and "path_safe src" and "path_safe src'" and "nh_GetPluginDir h nvmeofPluginName \<noteq> ''''"
    and "newMounterInternal spec uid = Inr b" and "getVolumeSource spec = Inr (src, ro)"
    and "newMounterInternal spec' uid' = Inr b'" and "getVolumeSource spec' = Inr (src', ro')"
  shows "MakeGlobalPDName h (nvmeofDisk.truncate b) = MakeGlobalPDName h (nvmeofDisk.truncate b') \<longleftrightarrow> same_target src src'"
proof -
  let ?e = "\<lambda>s. nvmeof_TrAddr s @ ''-'' @ show_int (sint (nvmeof_TrSvcId s)) @ ''-'' @ nvmeof_Transport s @ ''-'' @ nvmeof_Nqn s"
  have e: "CHR ''/'' \<notin> set (?e s) \<and> ?e s \<notin> {[], ''.'', ''..''}"
    if "validateNVMEOFVolumeSource s = []" "path_safe s" for s
  proof -
    have "CHR ''-'' \<in> set (?e s)" by simp
    moreover have "x \<notin> {[], ''.'', ''..''}" if "CHR ''-'' \<in> set x" for x using that by auto
    ultimately have "?e s \<notin> {[], ''.'', ''..''}" by blast
    moreover have "CHR ''/'' \<notin> set (show_int (sint (nvmeof_TrSvcId s)))" using digits_no_sep by simp
    ultimately show ?thesis using that(2) by (auto simp: path_safe_def)
  qed
  have "path_Join [nh_GetPluginDir h nvmeofPluginName, ?e src] = path_Join [nh_GetPluginDir h nvmeofPluginName, ?e src'] \<longleftrightarrow>
      ?e src = ?e src'"
    using e [OF assms(1,3)] e [OF assms(2,4)] assms(5) by (intro path_Join_last_inj) blast+
  moreover have "?e src = ?e src' \<longleftrightarrow> same_target src src'"
    using pd_element_inj [of "nvmeof_TrSvcId src" "nvmeof_TrSvcId src'" "nvmeof_TrAddr src" "nvmeof_Transport src"]
      assms(1-4) by (auto simp: validated_iff path_safe_def same_target_def)
  ultimately show ?thesis
    unfolding newMounter_disk [OF assms(6,7)] newMounter_disk [OF assms(8,9)]
    by (simp add: MakeGlobalPDName_def makePDNameInternal_def disk_of_source_def)
qed

section \<open>A sample node\<close>

text \<open>A node whose state is the number of connected drives.\<close>

definition sample_host :: "nat nvmeof_host" where
  "sample_host = \<lparr>nh_GetPluginDir = (\<lambda>p. ''/plugins/'' @ p), nh_GetPodVolumeDir = (\<lambda>u p v. ''/pods/'' @ u @ ''/'' @ p @ ''/'' @ v),
     nh_mounter = \<lparr>mi_Mount = (\<lambda>_ _ _ _ x. (None, x)), mi_Unmount = (\<lambda>_ x. (None, x)), mi_List = (\<lambda>_. Inr []),
       mi_IsLikelyNotMountPoint = (\<lambda>_ _. (True, None)), mi_DeviceOpened = (\<lambda>_ _. Inr False), mi_PathIsDevice = (\<lambda>_ _. Inr True),
       mi_GetDeviceNameFromMount = (\<lambda>_ _ _. Inr '''')\<rparr>,
     nh_exec = (\<lambda>cmd args n. if args = [''list'']
       then ((concat (map (\<lambda>i. ''/dev/nvme'' @ show_nat i @ '' 0 Linux   1'' @ [CHR 10]) [0..<n]), None), n)
       else if cmd = ''nvme'' then (('''', None), n - 1) else (('''', None), n)),
     nh_EvalSymlinks = (\<lambda>p _. Inr p), nh_Open = (\<lambda>_ n. (Inr 3, n)), nh_Write = (\<lambda>_ s n. (Inr (length s), Suc n)),
     nh_Read = (\<lambda>_ _ n. (Inr '''', n)), nh_Close = (\<lambda>_ n. (None, n)), nh_MkdirAll = (\<lambda>_ n. (None, n)),
     nh_Remove = (\<lambda>_ n. (None, n)), nh_SetVolumeOwnership = (\<lambda>_ _ n. n)\<rparr>"

definition sample_disk :: nvmeofDiskMounter where
  "sample_disk = \<lparr>nd_volName = ''v'', nd_podUID = ''u'', nd_transport = ''rdma'', nd_nqn = ''nqn.a:b'', nd_traddr = ''10.0.0.1'',
     nd_trsvcid = 5, nm_readOnly = False, nm_fsType = ''ext4''\<rparr>"

definition sample_node :: "FakeMounter \<times> nat" where
  "sample_node = (\<lparr>fm_MountPoints = [], fm_Log = []\<rparr>, 0)"

definition sample_up :: "error option \<times> FakeMounter \<times> nat" where
  "sample_up = SetUp (fake_host sample_host) sample_disk None sample_node"

definition sample_down :: "error option \<times> FakeMounter \<times> nat" where
  "sample_down = TearDown (fake_host sample_host) (nvmeofDisk.truncate sample_disk) (snd sample_up)"

lemma sample_up_run: "SetUp (fake_host sample_host) sample_disk None sample_node = (None, snd sample_up)"
proof -
  have "fst sample_up = None" by code_simp
  then show ?thesis unfolding sample_up_def [symmetric] by (metis prod.collapse)
qed

lemma sample_down_run:
  "TearDown (fake_host sample_host) (nvmeofDisk.truncate sample_disk) (snd sample_up) = (None, snd sample_down)"
proof -
  have "fst sample_down = None" by code_simp
  then show ?thesis unfolding sample_down_def [symmetric] by (metis prod.collapse)
qed

lemma sample_fresh: "fake_tab sample_node = []"
  by (simp add: sample_node_def fake_tab_def)

theorem nvmeof_setup_witness:
  "fst sample_up = None \<and> fake_tab (snd sample_up) =
     [(new_device (fake_host sample_host) sample_disk sample_node,
       MakeGlobalPDName (fake_host sample_host) (nvmeofDisk.truncate sample_disk)),
      (new_device (fake_host sample_host) sample_disk sample_node, nvmeof_GetPath (fake_host sample_host) sample_disk)]"
proof -
  have "fst sample_up = None" using sample_up_run by (simp add: sample_up_def) (metis fst_conv)
  then show ?thesis using nvmeof_setup [OF sample_up_run] by (simp add: sample_fresh)
qed

lemma sample_up_tab: "fake_tab (snd sample_up) = [(''/dev/nvme0'', ''/plugins/kubernetes.io/nvmeof/10.0.0.1-5-rdma-nqn.a:b''),
    (''/dev/nvme0'', ''/pods/u/kubernetes.io~nvmeof/v'')]"
  by code_simp

lemma sample_paths:
  "nvmeof_GetPath (fake_host sample_host) (nvmeofDisk.truncate sample_disk) = ''/pods/u/kubernetes.io~nvmeof/v''"
  "nvmeof_GetPath (fake_host sample_host) sample_disk = ''/pods/u/kubernetes.io~nvmeof/v''"
  "MakeGlobalPDName (fake_host sample_host) (nvmeofDisk.truncate sample_disk) =
     ''/plugins/kubernetes.io/nvmeof/10.0.0.1-5-rdma-nqn.a:b''"
  "new_device (fake_host sample_host) sample_disk sample_node = ''/dev/nvme0''"
  by code_simp+

theorem nvmeof_teardown_witness:
  "dev_of (fake_tab (snd sample_up)) ''/pods/u/kubernetes.io~nvmeof/v'' = ''/dev/nvme0'' \<and> fake_tab (snd sample_down) = []"
proof -
  have d: "dev_of (fake_tab (snd sample_up)) ''/pods/u/kubernetes.io~nvmeof/v'' = ''/dev/nvme0''" by (simp add: sample_up_tab)
  moreover have "other_mounts (fake_tab (snd sample_up)) ''/pods/u/kubernetes.io~nvmeof/v'' =
      [''/plugins/kubernetes.io/nvmeof/10.0.0.1-5-rdma-nqn.a:b'']" by (simp add: sample_up_tab other_mounts_def)
  ultimately show ?thesis
    using nvmeof_teardown [OF sample_down_run] by (simp add: sample_paths) (simp add: sample_up_tab)
qed


definition sample_source :: "string \<Rightarrow> NVMEOFVolumeSource" where
  "sample_source nqn = \<lparr>nvmeof_Transport = ''rdma'', nvmeof_TrAddr = ''10.0.0.1'', nvmeof_TrSvcId = 5, nvmeof_Nqn = nqn,
     nvmeof_FSType = ''ext4'', nvmeof_ReadOnly = False\<rparr>"

definition nvmeof_spec :: "string \<Rightarrow> Spec" where
  "nvmeof_spec nqn = NewSpecFromVolume \<lparr>vol_Name = ''v'', vol_NVMEOF = Some (sample_source nqn), vol_PersistentVolumeClaim = None,
     vol_EmptyDir = None, vol_ConfigMap = False, vol_Secret = False, vol_source = ''''\<rparr>"

lemma nvmeof_spec_source: "getVolumeSource (nvmeof_spec nqn) = Inr (sample_source nqn, False)"
  by (simp add: getVolumeSource_def nvmeof_spec_def NewSpecFromVolume_def sample_source_def)

theorem global_path_unique_witness:
  "\<exists>b b'. newMounterInternal (nvmeof_spec ''nqn.a'') ''u'' = Inr b \<and> newMounterInternal (nvmeof_spec ''nqn.b'') ''u'' = Inr b' \<and>
     MakeGlobalPDName sample_host (nvmeofDisk.truncate b) \<noteq> MakeGlobalPDName sample_host (nvmeofDisk.truncate b')"
proof -
  have v: "validateNVMEOFVolumeSource (sample_source q) = []" "path_safe (sample_source q)" if "q = ''nqn.a'' \<or> q = ''nqn.b''" for q
    using that by (auto simp: validateNVMEOFVolumeSource_def path_safe_def sample_source_def)
  have d: "nh_GetPluginDir sample_host nvmeofPluginName \<noteq> ''''" by (simp add: sample_host_def)
  obtain b b' where b: "newMounterInternal (nvmeof_spec ''nqn.a'') ''u'' = Inr b" "newMounterInternal (nvmeof_spec ''nqn.b'') ''u'' = Inr b'"
    by (auto simp: newMounterInternal_def nvmeof_spec_source)
  have "\<not> same_target (sample_source ''nqn.a'') (sample_source ''nqn.b'')" by (simp add: same_target_def sample_source_def)
  then show ?thesis
    using global_path_unique [OF v(1) v(1) v(2) v(2) d b(1) nvmeof_spec_source b(2) nvmeof_spec_source] b by blast
qed

theorem nvmeof_names_lose_identity_witness:
  "\<exists>spec'. ConstructVolumeSpec sample_host ''v'' ''/mnt'' 0 = Inr spec' \<and>
     nvmeof_GetVolumeName spec' \<noteq> nvmeof_GetVolumeName (nvmeof_spec ''nqn.a:b'')"
proof -
  obtain spec' where s: "ConstructVolumeSpec sample_host ''v'' ''/mnt'' 0 = Inr spec'"
    by (simp add: ConstructVolumeSpec_def sample_host_def)
  have "nvmeof_Transport (sample_source ''nqn.a:b'') \<noteq> ''''" "CHR '':'' \<notin> set (nvmeof_Transport (sample_source ''nqn.a:b''))"
    by (simp_all add: sample_source_def)
  then show ?thesis
    using s nvmeof_names_lose_identity [of sample_host "''v''" "''/mnt''" 0] nvmeof_spec_source [of "''nqn.a:b''"] by blast
qed

end
