(* ===== verification/Kubelet_Actual_State.thy ===== *)
theory Kubelet_Actual_State
  imports Operation_Generator
begin

text \<open>
  \<open>pkg/kubelet/volumemanager/cache/actual_state_of_world.go\<close>: the volumes that the kubelet believes to be
  attached to its node, whether their device is mounted, and the pods they are mounted for. Every method
  holds the lock of the cache, so each is one function. The names get the prefix \<open>ka\<close>.
\<close>

record mountedPod =
  kmp_podName :: unique_pod_name
  kmp_podUID :: uid
  kmp_mounter :: Mounter
  kmp_outerVolumeSpecName :: string
  kmp_remountRequired :: bool
  kmp_volumeGidValue :: string

record ka_attachedVolume =
  kav_volumeName :: unique_volume_name
  kav_mountedPods :: "(unique_pod_name, mountedPod) gomap"
  kav_spec :: Spec
  kav_pluginName :: string
  kav_pluginIsAttachable :: bool
  kav_globallyMounted :: bool
  kav_devicePath :: string

record ka_actualStateOfWorld =
  ka_nodeName :: node_name
  ka_attachedVolumes :: "(unique_volume_name, ka_attachedVolume) gomap"
  ka_volumePluginMgr :: "(string, VolumePlugin) gomap"

record KA_AttachedVolume = AttachedVolume +
  atv_GloballyMounted :: bool

definition ka_NewActualStateOfWorld :: "node_name \<Rightarrow> (string, VolumePlugin) gomap \<Rightarrow> ka_actualStateOfWorld" where
  "ka_NewActualStateOfWorld nodeName volumePluginMgr =
     \<lparr>ka_nodeName = nodeName, ka_attachedVolumes = [], ka_volumePluginMgr = volumePluginMgr\<rparr>"

definition IsVolumeNotAttachedError :: "error option \<Rightarrow> bool" where
  "IsVolumeNotAttachedError err = (case err of Some (VolumeNotAttachedError _) \<Rightarrow> True | _ \<Rightarrow> False)"

definition IsRemountRequiredError :: "error option \<Rightarrow> bool" where
  "IsRemountRequiredError err = (case err of Some (RemountRequiredError _ _) \<Rightarrow> True | _ \<Rightarrow> False)"

section \<open>Operations\<close>

text \<open>\<open>asw.attachedVolumes[volumeName] = volumeObj\<close>.\<close>

definition ka_store :: "unique_volume_name \<Rightarrow> ka_attachedVolume \<Rightarrow> ka_actualStateOfWorld \<Rightarrow> ka_actualStateOfWorld" where
  "ka_store volumeName volumeObj asw = asw\<lparr>ka_attachedVolumes := mput volumeName volumeObj (ka_attachedVolumes asw)\<rparr>"

text \<open>The name under which a volume is stored: the given one, or the unique name of the spec.\<close>

definition ka_volume_name ::
    "(string, VolumePlugin) gomap \<Rightarrow> unique_volume_name \<Rightarrow> Spec \<Rightarrow> error + VolumePlugin \<times> unique_volume_name" where
  "ka_volume_name mgr volumeName volumeSpec =
     (case FindPluginBySpec mgr volumeSpec of
        Inl err \<Rightarrow> Inl (Errorf ''failed to get Plugin from volumeSpec for volume'' (Some err))
      | Inr volumePlugin \<Rightarrow>
          if length volumeName = 0 then
            (case GetUniqueVolumeNameFromSpec (Some volumePlugin) volumeSpec of
               Inl err \<Rightarrow> Inl (Errorf ''failed to GetUniqueVolumeNameFromSpec for volumeSpec'' (Some err))
             | Inr volumeName \<Rightarrow> Inr (volumePlugin, volumeName))
          else Inr (volumePlugin, volumeName))"

definition ka_addVolume ::
    "unique_volume_name \<Rightarrow> Spec \<Rightarrow> string \<Rightarrow> ka_actualStateOfWorld \<Rightarrow> error option \<times> ka_actualStateOfWorld" where
  "ka_addVolume volumeName volumeSpec devicePath asw =
     (case ka_volume_name (ka_volumePluginMgr asw) volumeName volumeSpec of
        Inl err \<Rightarrow> (Some err, asw)
      | Inr (volumePlugin, volumeName) \<Rightarrow>
          let volumeObj =
                (case mget (ka_attachedVolumes asw) volumeName of
                   None \<Rightarrow> \<lparr>kav_volumeName = volumeName, kav_mountedPods = [], kav_spec = volumeSpec,
                     kav_pluginName = pl_GetPluginName volumePlugin, kav_pluginIsAttachable = pl_Attachable volumePlugin,
                     kav_globallyMounted = False, kav_devicePath = devicePath\<rparr>
                 | Some volumeObj \<Rightarrow> volumeObj\<lparr>kav_devicePath := devicePath\<rparr>)
          in (None, ka_store volumeName volumeObj asw))"

definition ka_AddPodToVolume ::
    "unique_pod_name \<Rightarrow> uid \<Rightarrow> unique_volume_name \<Rightarrow> Mounter \<Rightarrow> string \<Rightarrow> string \<Rightarrow> ka_actualStateOfWorld \<Rightarrow>
     error option \<times> ka_actualStateOfWorld" where
  "ka_AddPodToVolume podName podUID volumeName mounter outerVolumeSpecName volumeGidValue asw =
     (case mget (ka_attachedVolumes asw) volumeName of
        None \<Rightarrow> (Some (Errorf ''no volume with the name exists in the list of attached volumes'' None), asw)
      | Some volumeObj \<Rightarrow>
          let podObj =
                (case mget (kav_mountedPods volumeObj) podName of
                   Some podObj \<Rightarrow> podObj
                 | None \<Rightarrow> \<lparr>kmp_podName = podName, kmp_podUID = podUID, kmp_mounter = mounter,
                     kmp_outerVolumeSpecName = outerVolumeSpecName, kmp_remountRequired = False,
                     kmp_volumeGidValue = volumeGidValue\<rparr>);
              podObj = podObj\<lparr>kmp_remountRequired := False\<rparr>
          in (None, ka_store volumeName (volumeObj\<lparr>kav_mountedPods := mput podName podObj (kav_mountedPods volumeObj)\<rparr>) asw))"

text \<open>The loop visits every volume; of the pods only the one with the given name is touched.\<close>

definition remount_volume :: "(string, VolumePlugin) gomap \<Rightarrow> unique_pod_name \<Rightarrow> ka_attachedVolume \<Rightarrow> ka_attachedVolume" where
  "remount_volume mgr podName volumeObj =
     (case mget (kav_mountedPods volumeObj) podName of
        None \<Rightarrow> volumeObj
      | Some podObj \<Rightarrow>
          (case FindPluginBySpec mgr (kav_spec volumeObj) of
             Inl err \<Rightarrow> volumeObj
           | Inr volumePlugin \<Rightarrow>
               if pl_RequiresRemount volumePlugin
               then volumeObj\<lparr>kav_mountedPods := mput podName (podObj\<lparr>kmp_remountRequired := True\<rparr>) (kav_mountedPods volumeObj)\<rparr>
               else volumeObj))"

definition ka_MarkRemountRequired :: "unique_pod_name \<Rightarrow> ka_actualStateOfWorld \<Rightarrow> ka_actualStateOfWorld" where
  "ka_MarkRemountRequired podName asw =
     asw\<lparr>ka_attachedVolumes :=
       map (\<lambda>(volumeName, volumeObj). (volumeName, remount_volume (ka_volumePluginMgr asw) podName volumeObj)) (ka_attachedVolumes asw)\<rparr>"

definition ka_SetVolumeGloballyMounted ::
    "unique_volume_name \<Rightarrow> bool \<Rightarrow> ka_actualStateOfWorld \<Rightarrow> error option \<times> ka_actualStateOfWorld" where
  "ka_SetVolumeGloballyMounted volumeName globallyMounted asw =
     (case mget (ka_attachedVolumes asw) volumeName of
        None \<Rightarrow> (Some (Errorf ''no volume with the name exists in the list of attached volumes'' None), asw)
      | Some volumeObj \<Rightarrow> (None, ka_store volumeName (volumeObj\<lparr>kav_globallyMounted := globallyMounted\<rparr>) asw))"

definition ka_DeletePodFromVolume ::
    "unique_pod_name \<Rightarrow> unique_volume_name \<Rightarrow> ka_actualStateOfWorld \<Rightarrow> error option \<times> ka_actualStateOfWorld" where
  "ka_DeletePodFromVolume podName volumeName asw =
     (case mget (ka_attachedVolumes asw) volumeName of
        None \<Rightarrow> (Some (Errorf ''no volume with the name exists in the list of attached volumes'' None), asw)
      | Some volumeObj \<Rightarrow>
          (None, if mhas (kav_mountedPods volumeObj) podName
             then ka_store volumeName (volumeObj\<lparr>kav_mountedPods := mdel podName (kav_mountedPods volumeObj)\<rparr>) asw
             else asw))"

definition ka_DeleteVolume :: "unique_volume_name \<Rightarrow> ka_actualStateOfWorld \<Rightarrow> error option \<times> ka_actualStateOfWorld" where
  "ka_DeleteVolume volumeName asw =
     (case mget (ka_attachedVolumes asw) volumeName of
        None \<Rightarrow> (None, asw)
      | Some volumeObj \<Rightarrow>
          if length (kav_mountedPods volumeObj) \<noteq> 0
          then (Some (Errorf ''failed to DeleteVolume, it still has mountedPods'' None), asw)
          else (None, asw\<lparr>ka_attachedVolumes := mdel volumeName (ka_attachedVolumes asw)\<rparr>))"

definition ka_PodExistsInVolume ::
    "ka_actualStateOfWorld \<Rightarrow> unique_pod_name \<Rightarrow> unique_volume_name \<Rightarrow> bool \<times> string \<times> error option" where
  "ka_PodExistsInVolume asw podName volumeName =
     (case mget (ka_attachedVolumes asw) volumeName of
        None \<Rightarrow> (False, '''', Some (VolumeNotAttachedError volumeName))
      | Some volumeObj \<Rightarrow>
          (case mget (kav_mountedPods volumeObj) podName of
             Some podObj \<Rightarrow>
               if kmp_remountRequired podObj
               then (True, kav_devicePath volumeObj, Some (RemountRequiredError (kav_volumeName volumeObj) (kmp_podName podObj)))
               else (True, kav_devicePath volumeObj, None)
           | None \<Rightarrow> (False, kav_devicePath volumeObj, None)))"

definition ka_VolumeExists :: "ka_actualStateOfWorld \<Rightarrow> unique_volume_name \<Rightarrow> bool" where
  "ka_VolumeExists asw volumeName = mhas (ka_attachedVolumes asw) volumeName"

definition getMountedVolume :: "mountedPod \<Rightarrow> ka_attachedVolume \<Rightarrow> MountedVolume" where
  "getMountedVolume mountedPod attachedVolume =
     \<lparr>mtv_PodName = kmp_podName mountedPod, mtv_VolumeName = kav_volumeName attachedVolume,
      mtv_InnerVolumeSpecName = Spec_Name (kav_spec attachedVolume), mtv_OuterVolumeSpecName = kmp_outerVolumeSpecName mountedPod,
      mtv_PluginName = kav_pluginName attachedVolume, mtv_PodUID = kmp_podUID mountedPod,
      mtv_Mounter = kmp_mounter mountedPod, mtv_VolumeGidValue = kmp_volumeGidValue mountedPod\<rparr>"

definition ka_GetMountedVolumes :: "ka_actualStateOfWorld \<Rightarrow> MountedVolume list" where
  "ka_GetMountedVolumes asw =
     concat (map (\<lambda>(_, volumeObj). map (\<lambda>(_, podObj). getMountedVolume podObj volumeObj) (kav_mountedPods volumeObj))
       (ka_attachedVolumes asw))"

definition ka_GetMountedVolumesForPod :: "ka_actualStateOfWorld \<Rightarrow> unique_pod_name \<Rightarrow> MountedVolume list" where
  "ka_GetMountedVolumesForPod asw podName =
     concat (map (\<lambda>(_, volumeObj). map (\<lambda>(_, podObj). getMountedVolume podObj volumeObj)
         (filter (\<lambda>(mountedPodName, _). mountedPodName = podName) (kav_mountedPods volumeObj)))
       (ka_attachedVolumes asw))"

definition newAttachedVolume :: "ka_actualStateOfWorld \<Rightarrow> ka_attachedVolume \<Rightarrow> KA_AttachedVolume" where
  "newAttachedVolume asw attachedVolume =
     \<lparr>atv_VolumeName = kav_volumeName attachedVolume, atv_VolumeSpec = kav_spec attachedVolume, atv_NodeName = ka_nodeName asw,
      atv_PluginIsAttachable = kav_pluginIsAttachable attachedVolume, atv_DevicePath = kav_devicePath attachedVolume,
      atv_GloballyMounted = kav_globallyMounted attachedVolume\<rparr>"

definition ka_GetGloballyMountedVolumes :: "ka_actualStateOfWorld \<Rightarrow> KA_AttachedVolume list" where
  "ka_GetGloballyMountedVolumes asw =
     map (newAttachedVolume asw) (filter kav_globallyMounted (map snd (ka_attachedVolumes asw)))"

definition ka_GetUnmountedVolumes :: "ka_actualStateOfWorld \<Rightarrow> KA_AttachedVolume list" where
  "ka_GetUnmountedVolumes asw =
     map (newAttachedVolume asw) (filter (\<lambda>volumeObj. length (kav_mountedPods volumeObj) = 0) (map snd (ka_attachedVolumes asw)))"

definition ka_GetPods :: "ka_actualStateOfWorld \<Rightarrow> (unique_pod_name, bool) gomap" where
  "ka_GetPods asw =
     fold (\<lambda>(_, volumeObj). fold (\<lambda>(podName, _) podList.
         if mget podList podName = Some True then podList else mput podName True podList) (kav_mountedPods volumeObj))
       (ka_attachedVolumes asw) []"

text \<open>The cache as the two interfaces of the operation executor.\<close>

definition ka_attacher :: "ka_actualStateOfWorld ActualStateOfWorldAttacherUpdater" where
  "ka_attacher = \<lparr>au_MarkVolumeAsAttached = (\<lambda>volumeName volumeSpec _ devicePath. ka_addVolume volumeName volumeSpec devicePath),
     au_MarkVolumeAsDetached = (\<lambda>volumeName _ asw. snd (ka_DeleteVolume volumeName asw)),
     au_RemoveVolumeFromReportAsAttached = (\<lambda>_ _ asw. (None, asw)), au_AddVolumeToReportAsAttached = (\<lambda>_ _ asw. asw)\<rparr>"

definition ka_mounter :: "ka_actualStateOfWorld ActualStateOfWorldMounterUpdater" where
  "ka_mounter = \<lparr>mu_MarkVolumeAsMounted = ka_AddPodToVolume, mu_MarkVolumeAsUnmounted = ka_DeletePodFromVolume,
     mu_MarkDeviceAsMounted = (\<lambda>volumeName. ka_SetVolumeGloballyMounted volumeName True),
     mu_MarkDeviceAsUnmounted = (\<lambda>volumeName. ka_SetVolumeGloballyMounted volumeName False)\<rparr>"

section \<open>Abstract state: attached volumes, mounted pods, mounted devices\<close>

definition ka_vol_ok :: "unique_volume_name \<Rightarrow> ka_attachedVolume \<Rightarrow> bool" where
  "ka_vol_ok v volumeObj \<longleftrightarrow> kav_volumeName volumeObj = v \<and> mwf (kav_mountedPods volumeObj) \<and>
     mall (\<lambda>p podObj. kmp_podName podObj = p) (kav_mountedPods volumeObj)"

definition ka_inv :: "ka_actualStateOfWorld \<Rightarrow> bool" where
  "ka_inv asw \<longleftrightarrow> mwf (ka_attachedVolumes asw) \<and> mall ka_vol_ok (ka_attachedVolumes asw)"

definition ka_mounted :: "ka_actualStateOfWorld \<Rightarrow> unique_pod_name \<Rightarrow> unique_volume_name \<Rightarrow> bool" where
  "ka_mounted asw p v \<longleftrightarrow> (\<exists>volumeObj. mget (ka_attachedVolumes asw) v = Some volumeObj \<and> mhas (kav_mountedPods volumeObj) p)"

definition ka_device :: "ka_actualStateOfWorld \<Rightarrow> unique_volume_name \<Rightarrow> bool" where
  "ka_device asw v \<longleftrightarrow> (\<exists>volumeObj. mget (ka_attachedVolumes asw) v = Some volumeObj \<and> kav_globallyMounted volumeObj)"

record mount_spec =
  ms_attached :: "unique_volume_name set"
  ms_mounted :: "(unique_pod_name \<times> unique_volume_name) set"
  ms_device :: "unique_volume_name set"

definition ka_abs :: "ka_actualStateOfWorld \<Rightarrow> mount_spec" where
  "ka_abs asw = \<lparr>ms_attached = {v. ka_VolumeExists asw v}, ms_mounted = {(p, v). ka_mounted asw p v}, ms_device = {v. ka_device asw v}\<rparr>"

datatype ka_call =
    AddVolume_call unique_volume_name Spec string
  | AddPodToVolume_call unique_pod_name uid unique_volume_name Mounter string string
  | MarkRemountRequired_call unique_pod_name
  | SetVolumeGloballyMounted_call unique_volume_name bool
  | DeletePodFromVolume_call unique_pod_name unique_volume_name
  | DeleteVolume_call unique_volume_name

fun ka_step :: "ka_call \<Rightarrow> ka_actualStateOfWorld \<Rightarrow> ka_actualStateOfWorld" where
  "ka_step (AddVolume_call v spec dev) asw = snd (ka_addVolume v spec dev asw)"
| "ka_step (AddPodToVolume_call p u v m outer gid) asw = snd (ka_AddPodToVolume p u v m outer gid asw)"
| "ka_step (MarkRemountRequired_call p) asw = ka_MarkRemountRequired p asw"
| "ka_step (SetVolumeGloballyMounted_call v b) asw = snd (ka_SetVolumeGloballyMounted v b asw)"
| "ka_step (DeletePodFromVolume_call p v) asw = snd (ka_DeletePodFromVolume p v asw)"
| "ka_step (DeleteVolume_call v) asw = snd (ka_DeleteVolume v asw)"

fun ka_spec :: "(string, VolumePlugin) gomap \<Rightarrow> ka_call \<Rightarrow> mount_spec \<Rightarrow> mount_spec" where
  "ka_spec mgr (AddVolume_call v spec dev) s = (case ka_volume_name mgr v spec of
      Inl _ \<Rightarrow> s | Inr (_, u) \<Rightarrow> s\<lparr>ms_attached := insert u (ms_attached s)\<rparr>)"
| "ka_spec mgr (AddPodToVolume_call p u v m outer gid) s =
     (if v \<in> ms_attached s then s\<lparr>ms_mounted := insert (p, v) (ms_mounted s)\<rparr> else s)"
| "ka_spec mgr (MarkRemountRequired_call p) s = s"
| "ka_spec mgr (SetVolumeGloballyMounted_call v b) s =
     (if v \<in> ms_attached s then s\<lparr>ms_device := (if b then insert v (ms_device s) else ms_device s - {v})\<rparr> else s)"
| "ka_spec mgr (DeletePodFromVolume_call p v) s = s\<lparr>ms_mounted := ms_mounted s - {(p, v)}\<rparr>"
| "ka_spec mgr (DeleteVolume_call v) s =
     (if \<exists>p. (p, v) \<in> ms_mounted s then s
      else s\<lparr>ms_attached := ms_attached s - {v}, ms_device := ms_device s - {v}\<rparr>)"

lemma ka_vol_ok_get: "ka_inv asw \<Longrightarrow> mget (ka_attachedVolumes asw) v = Some o' \<Longrightarrow> ka_vol_ok v o'"
  by (auto simp: ka_inv_def dest: mall_get)

text \<open>Every operation but the removal of a volume stores one volume object.\<close>

lemma ka_store_facts:
  assumes "ka_inv asw" and "ka_vol_ok v volumeObj"
  shows "ka_inv (ka_store v volumeObj asw)"
    and "ka_VolumeExists (ka_store v volumeObj asw) u \<longleftrightarrow> u = v \<or> ka_VolumeExists asw u"
    and "ka_mounted (ka_store v volumeObj asw) p u \<longleftrightarrow> (if u = v then mhas (kav_mountedPods volumeObj) p else ka_mounted asw p u)"
    and "ka_device (ka_store v volumeObj asw) u \<longleftrightarrow> (if u = v then kav_globallyMounted volumeObj else ka_device asw u)"
  using assms by (auto simp: ka_store_def ka_inv_def ka_VolumeExists_def ka_mounted_def ka_device_def gm.get_put)

lemmas ka_obs = ka_VolumeExists_def ka_mounted_def ka_device_def

lemma ka_observe:
  "mget (ka_attachedVolumes asw) v = Some o' \<Longrightarrow>
     ka_VolumeExists asw v \<and> (\<forall>p. ka_mounted asw p v \<longleftrightarrow> mhas (kav_mountedPods o') p) \<and> (ka_device asw v \<longleftrightarrow> kav_globallyMounted o')"
  "mget (ka_attachedVolumes asw) v = None \<Longrightarrow>
     \<not> ka_VolumeExists asw v \<and> (\<forall>p. \<not> ka_mounted asw p v) \<and> \<not> ka_device asw v"
  by (auto simp: ka_obs mhas_def)

lemma ka_abs_eq_iff:
  "ka_abs asw = s \<longleftrightarrow> (\<forall>v. ka_VolumeExists asw v \<longleftrightarrow> v \<in> ms_attached s) \<and>
     (\<forall>p v. ka_mounted asw p v \<longleftrightarrow> (p, v) \<in> ms_mounted s) \<and> (\<forall>v. ka_device asw v \<longleftrightarrow> v \<in> ms_device s)"
  by (cases s) (auto simp: ka_abs_def)

lemma ka_abs_simps [simp]:
  "v \<in> ms_attached (ka_abs asw) \<longleftrightarrow> ka_VolumeExists asw v" "(p, v) \<in> ms_mounted (ka_abs asw) \<longleftrightarrow> ka_mounted asw p v"
  "v \<in> ms_device (ka_abs asw) \<longleftrightarrow> ka_device asw v"
  by (simp_all add: ka_abs_def)

lemma ka_addVolume_facts:
  assumes "ka_inv asw" and "ka_volume_name (ka_volumePluginMgr asw) v spec = Inr (plugin, u)"
  shows "\<exists>asw'. ka_addVolume v spec dev asw = (None, asw') \<and> ka_inv asw' \<and>
    (\<forall>x. ka_VolumeExists asw' x \<longleftrightarrow> x = u \<or> ka_VolumeExists asw x) \<and> ka_mounted asw' = ka_mounted asw \<and> ka_device asw' = ka_device asw"
proof (cases "mget (ka_attachedVolumes asw) u")
  case None
  then show ?thesis
    using assms ka_observe(2) [OF None] by (auto simp: ka_addVolume_def ka_store_facts ka_vol_ok_def fun_eq_iff)
next
  case (Some o')
  have "ka_vol_ok u (o'\<lparr>kav_devicePath := dev\<rparr>)" using ka_vol_ok_get [OF assms(1) Some] by (simp add: ka_vol_ok_def)
  then show ?thesis
    using assms Some ka_observe(1) [OF Some] by (auto simp: ka_addVolume_def ka_store_facts fun_eq_iff)
qed

lemma ka_update_facts:
  assumes "ka_inv asw" and "mget (ka_attachedVolumes asw) v = Some o'"
  shows "ka_vol_ok v (o'\<lparr>kav_globallyMounted := b\<rparr>)"
    and "kmp_podName podObj = p \<Longrightarrow> ka_vol_ok v (o'\<lparr>kav_mountedPods := mput p podObj (kav_mountedPods o')\<rparr>)"
    and "ka_vol_ok v (o'\<lparr>kav_mountedPods := mdel p (kav_mountedPods o')\<rparr>)"
  using ka_vol_ok_get [OF assms] by (auto simp: ka_vol_ok_def)

lemma remount_volume_facts:
  assumes "ka_vol_ok v o'"
  shows "ka_vol_ok v (remount_volume mgr p o') \<and> mhas (kav_mountedPods (remount_volume mgr p o')) = mhas (kav_mountedPods o') \<and>
    kav_globallyMounted (remount_volume mgr p o') = kav_globallyMounted o'"
  using assms
  by (auto simp: remount_volume_def ka_vol_ok_def fun_eq_iff mhas_def gm.get_put split: option.split sum.split dest: mall_get)

lemma ka_MarkRemount_facts:
  assumes "ka_inv asw"
  shows "ka_inv (ka_MarkRemountRequired p asw) \<and> ka_abs (ka_MarkRemountRequired p asw) = ka_abs asw"
proof -
  let ?m = "ka_attachedVolumes asw"
  have get: "mget (ka_attachedVolumes (ka_MarkRemountRequired p asw)) v =
      map_option (remount_volume (ka_volumePluginMgr asw) p) (mget ?m v)" for v
    by (simp add: ka_MarkRemountRequired_def mget_map)
  have ok: "ka_vol_ok v o'" if "mget ?m v = Some o'" for v o' by (rule ka_vol_ok_get [OF assms that])
  have "ka_inv (ka_MarkRemountRequired p asw)"
    using assms ok remount_volume_facts by (auto simp: ka_inv_def mall_def get) (simp add: ka_MarkRemountRequired_def)
  moreover have "ka_abs (ka_MarkRemountRequired p asw) = ka_abs asw"
  proof -
    note r = remount_volume_facts [OF ok, of _ _ "ka_volumePluginMgr asw" p]
    have "ka_VolumeExists (ka_MarkRemountRequired p asw) v = ka_VolumeExists asw v" for v
      by (simp add: ka_VolumeExists_def mhas_def get)
    moreover have "ka_mounted (ka_MarkRemountRequired p asw) q v = ka_mounted asw q v" for q v
      using r by (auto simp: ka_mounted_def get)
    moreover have "ka_device (ka_MarkRemountRequired p asw) v = ka_device asw v" for v
      using r by (auto simp: ka_device_def get)
    ultimately show ?thesis by (simp add: ka_abs_eq_iff)
  qed
  ultimately show ?thesis ..
qed

lemma ka_step_refines:
  assumes "ka_inv asw"
  shows "ka_inv (ka_step c asw) \<and> ka_abs (ka_step c asw) = ka_spec (ka_volumePluginMgr asw) c (ka_abs asw)"
proof (cases c)
  case (AddVolume_call v spec dev)
  then show ?thesis
    using assms ka_addVolume_facts [OF assms]
    by (cases "ka_volume_name (ka_volumePluginMgr asw) v spec") (fastforce simp: ka_addVolume_def ka_abs_eq_iff)+
next
  case (AddPodToVolume_call p u v m outer gid)
  show ?thesis
  proof (cases "mget (ka_attachedVolumes asw) v")
    case None
    then show ?thesis using assms ka_observe(2) [OF None] by (simp add: AddPodToVolume_call ka_AddPodToVolume_def)
  next
    case (Some o')
    have "kmp_podName x = p" if "mget (kav_mountedPods o') p = Some x" for x
      using ka_vol_ok_get [OF assms Some] that by (auto simp: ka_vol_ok_def dest: mall_get)
    moreover define podObj where "podObj = (case mget (kav_mountedPods o') p of Some x \<Rightarrow> x
      | None \<Rightarrow> \<lparr>kmp_podName = p, kmp_podUID = u, kmp_mounter = m, kmp_outerVolumeSpecName = outer,
           kmp_remountRequired = False, kmp_volumeGidValue = gid\<rparr>)\<lparr>kmp_remountRequired := False\<rparr>"
    ultimately have "kmp_podName podObj = p" by (simp split: option.split)
    then have "ka_vol_ok v (o'\<lparr>kav_mountedPods := mput p podObj (kav_mountedPods o')\<rparr>)"
      by (intro ka_update_facts(2) [OF assms Some])
    moreover have eq: "ka_AddPodToVolume p u v m outer gid asw =
        (None, ka_store v (o'\<lparr>kav_mountedPods := mput p podObj (kav_mountedPods o')\<rparr>) asw)"
      by (simp add: ka_AddPodToVolume_def Some podObj_def)
    ultimately show ?thesis
      using assms ka_observe(1) [OF Some] by (auto simp: AddPodToVolume_call eq ka_store_facts ka_abs_eq_iff)

  qed
next
  case (MarkRemountRequired_call p)
  then show ?thesis using ka_MarkRemount_facts [OF assms] by simp
next
  case (SetVolumeGloballyMounted_call v b)
  show ?thesis
  proof (cases "mget (ka_attachedVolumes asw) v")
    case None
    then show ?thesis using assms ka_observe(2) [OF None] by (simp add: SetVolumeGloballyMounted_call ka_SetVolumeGloballyMounted_def)
  next
    case (Some o')
    then show ?thesis
      using assms ka_observe(1) [OF Some] ka_update_facts(1) [OF assms Some]
      by (auto simp: SetVolumeGloballyMounted_call ka_SetVolumeGloballyMounted_def ka_store_facts ka_abs_eq_iff)
  qed
next
  case (DeletePodFromVolume_call p v)
  show ?thesis
  proof (cases "mget (ka_attachedVolumes asw) v")
    case None
    then show ?thesis
      using assms ka_observe(2) [OF None] by (auto simp: DeletePodFromVolume_call ka_DeletePodFromVolume_def ka_abs_eq_iff)
  next
    case (Some o')
    then show ?thesis
      using assms ka_observe(1) [OF Some] ka_update_facts(3) [OF assms Some]
      by (auto simp: DeletePodFromVolume_call ka_DeletePodFromVolume_def ka_store_facts ka_abs_eq_iff)
  qed
next
  case (DeleteVolume_call v)
  show ?thesis
  proof (cases "mget (ka_attachedVolumes asw) v")
    case None
    then show ?thesis
      using assms ka_observe(2) [OF None] by (auto simp: DeleteVolume_call ka_DeleteVolume_def ka_abs_eq_iff)
  next
    case (Some o')
    have "kav_mountedPods o' = [] \<longleftrightarrow> (\<forall>p. \<not> ka_mounted asw p v)" using ka_observe(1) [OF Some] by (simp add: mempty_iff)
    then show ?thesis
      using assms Some
      by (auto simp: DeleteVolume_call ka_DeleteVolume_def ka_abs_eq_iff ka_inv_def ka_obs gm.get_del)
  qed
qed

section \<open>The cache satisfies the contracts of the operation executor\<close>

lemma ka_step_sets:
  assumes "ka_inv asw"
  shows "ka_inv (ka_step c asw)"
    and "ka_VolumeExists (ka_step c asw) v \<longleftrightarrow> v \<in> ms_attached (ka_spec (ka_volumePluginMgr asw) c (ka_abs asw))"
    and "ka_mounted (ka_step c asw) p v \<longleftrightarrow> (p, v) \<in> ms_mounted (ka_spec (ka_volumePluginMgr asw) c (ka_abs asw))"
    and "ka_device (ka_step c asw) v \<longleftrightarrow> v \<in> ms_device (ka_spec (ka_volumePluginMgr asw) c (ka_abs asw))"
  using ka_step_refines [OF assms, of c] by (auto simp: ka_abs_eq_iff)

lemma ka_mounted_exists: "ka_mounted asw p v \<Longrightarrow> ka_VolumeExists asw v"
  by (auto simp: ka_obs mhas_def)

lemma ka_device_exists: "ka_device asw v \<Longrightarrow> ka_VolumeExists asw v"
  by (auto simp: ka_obs mhas_def)

lemma ka_errors:
  "fst (ka_AddPodToVolume p u v m outer gid asw) = None \<longleftrightarrow> ka_VolumeExists asw v"
  "fst (ka_SetVolumeGloballyMounted v b asw) = None \<longleftrightarrow> ka_VolumeExists asw v"
  "fst (ka_DeleteVolume v asw) = None \<longleftrightarrow> (\<forall>p. \<not> ka_mounted asw p v)"
  by (auto simp: ka_AddPodToVolume_def ka_SetVolumeGloballyMounted_def ka_DeleteVolume_def ka_obs mhas_def mempty_iff Let_def
      split: option.splits)

interpretation kmu: mounter_updater ka_mounter ka_inv ka_VolumeExists ka_mounted ka_device
proof unfold_locales
  fix s s' :: ka_actualStateOfWorld and p u v m outer gid err
  note step = ka_step_sets [where asw = s] and ex = ka_mounted_exists [of s] ka_device_exists [of s]
  show "ka_inv s' \<and> ka_VolumeExists s' = ka_VolumeExists s \<and> ka_device s' = ka_device s \<and> (err = None \<longleftrightarrow> ka_VolumeExists s v) \<and>
      (\<forall>q x. ka_mounted s' q x \<longleftrightarrow> ka_mounted s q x \<or> err = None \<and> (q, x) = (p, v))"
    if "ka_inv s" "mu_MarkVolumeAsMounted ka_mounter p u v m outer gid s = (err, s')"
    using step [OF that(1), of "AddPodToVolume_call p u v m outer gid"] that(2) ka_errors(1) [of p u v m outer gid s]
    by (auto simp: ka_mounter_def fun_eq_iff split: if_splits)
  show "ka_inv s' \<and> ka_VolumeExists s' = ka_VolumeExists s \<and> ka_device s' = ka_device s \<and>
      (\<forall>q x. ka_mounted s' q x \<longleftrightarrow> ka_mounted s q x \<and> (q, x) \<noteq> (p, v))"
    if "ka_inv s" "mu_MarkVolumeAsUnmounted ka_mounter p v s = (err, s')"
    using step [OF that(1), of "DeletePodFromVolume_call p v"] that(2) by (auto simp: ka_mounter_def fun_eq_iff)
  show "ka_inv s' \<and> ka_VolumeExists s' = ka_VolumeExists s \<and> ka_mounted s' = ka_mounted s \<and> (err = None \<longleftrightarrow> ka_VolumeExists s v) \<and>
      (\<forall>x. ka_device s' x \<longleftrightarrow> ka_device s x \<or> err = None \<and> x = v)"
    if "ka_inv s" "mu_MarkDeviceAsMounted ka_mounter v s = (err, s')"
    using step [OF that(1), of "SetVolumeGloballyMounted_call v True"] that(2) ka_errors(2) [of v True s]
    by (auto simp: ka_mounter_def fun_eq_iff split: if_splits)
  show "ka_inv s' \<and> ka_VolumeExists s' = ka_VolumeExists s \<and> ka_mounted s' = ka_mounted s \<and> (err = None \<longleftrightarrow> ka_VolumeExists s v) \<and>
      (\<forall>x. ka_device s' x \<longleftrightarrow> ka_device s x \<and> x \<noteq> v)"
    if "ka_inv s" "mu_MarkDeviceAsUnmounted ka_mounter v s = (err, s')"
    using step [OF that(1), of "SetVolumeGloballyMounted_call v False"] that(2) ka_errors(2) [of v False s] ex
    by (auto simp: ka_mounter_def fun_eq_iff split: if_splits)
qed

interpretation kau: attacher_updater ka_attacher ka_inv "\<lambda>asw v n. ka_VolumeExists asw v"
  "\<lambda>asw v spec. case ka_volume_name (ka_volumePluginMgr asw) v spec of Inl _ \<Rightarrow> None | Inr (_, u) \<Rightarrow> Some u"
proof unfold_locales
  fix s s' :: ka_actualStateOfWorld and v u :: unique_volume_name and n n' :: node_name and spec :: Spec and dev e
  note step = ka_step_sets [where asw = s]
  show "ka_inv s' \<and> (\<exists>u. (case ka_volume_name (ka_volumePluginMgr s) v spec of Inl _ \<Rightarrow> None | Inr (_, u) \<Rightarrow> Some u) = Some u \<and>
      ka_VolumeExists s' u \<and> (\<forall>u' n'. u' \<noteq> u \<longrightarrow> ka_VolumeExists s' u' = ka_VolumeExists s u') \<and>
      (\<forall>u' n'. ka_VolumeExists s u' \<longrightarrow> ka_VolumeExists s' u'))"
    if i: "ka_inv s" and m: "au_MarkVolumeAsAttached ka_attacher v spec n dev s = (None, s')"
    using m ka_addVolume_facts [OF i, of v spec _ _ dev]
    by (cases "ka_volume_name (ka_volumePluginMgr s) v spec") (fastforce simp: ka_attacher_def ka_addVolume_def)+
  show "s' = s" if "au_MarkVolumeAsAttached ka_attacher v spec n dev s = (Some e, s')"
    using that by (auto simp: ka_attacher_def ka_addVolume_def Let_def split: sum.splits)
  show "ka_inv (au_MarkVolumeAsDetached ka_attacher v n s)" if "ka_inv s"
    using step(1) [OF that, of "DeleteVolume_call v"] by (simp add: ka_attacher_def)
  show "ka_VolumeExists (au_MarkVolumeAsDetached ka_attacher v n s) u = ka_VolumeExists s u" if "ka_inv s" "u \<noteq> v"
    using step(2) [OF that(1), of "DeleteVolume_call v"] that by (simp add: ka_attacher_def)
  show "ka_VolumeExists s u" if "ka_inv s" "ka_VolumeExists (au_MarkVolumeAsDetached ka_attacher v n s) u"
    using step(2) [OF that(1), of "DeleteVolume_call v"] that by (auto simp: ka_attacher_def split: if_splits)
qed (simp_all add: ka_attacher_def)

section \<open>Properties\<close>

lemma ka_step_mgr [simp]: "ka_volumePluginMgr (ka_step c asw) = ka_volumePluginMgr asw"
  by (cases c) (auto simp: ka_addVolume_def ka_AddPodToVolume_def ka_MarkRemountRequired_def ka_SetVolumeGloballyMounted_def
      ka_DeletePodFromVolume_def ka_DeleteVolume_def ka_store_def Let_def split: sum.split option.split)

lemma ka_run:
  "ka_inv asw \<Longrightarrow> ka_inv (fold ka_step cs asw) \<and>
     ka_abs (fold ka_step cs asw) = fold (ka_spec (ka_volumePluginMgr asw)) cs (ka_abs asw)"
  by (induction cs arbitrary: asw) (simp_all add: ka_step_refines)

lemma ka_inv_new: "ka_inv (ka_NewActualStateOfWorld n mgr)"
  by (simp add: ka_NewActualStateOfWorld_def ka_inv_def)

lemma ka_abs_new: "ka_abs (ka_NewActualStateOfWorld n mgr) = \<lparr>ms_attached = {}, ms_mounted = {}, ms_device = {}\<rparr>"
  by (simp add: ka_abs_eq_iff) (simp add: ka_obs ka_NewActualStateOfWorld_def)

definition mtv_key :: "MountedVolume \<Rightarrow> unique_pod_name \<times> unique_volume_name" where
  "mtv_key m = (mtv_PodName m, mtv_VolumeName m)"

lemma ka_GetMountedVolumes_keys:
  assumes "ka_inv asw"
  shows "mtv_key ` set (ka_GetMountedVolumes asw) = {(p, v). ka_mounted asw p v}"
proof -
  have w: "mwf (ka_attachedVolumes asw)" using assms by (simp add: ka_inv_def)
  have name: "kav_volumeName o' = v \<and> (\<forall>p x. (p, x) \<in> set (kav_mountedPods o') \<longleftrightarrow> mget (kav_mountedPods o') p = Some x) \<and>
      (\<forall>p x. mget (kav_mountedPods o') p = Some x \<longrightarrow> kmp_podName x = p)" if "mget (ka_attachedVolumes asw) v = Some o'" for v o'
    using ka_vol_ok_get [OF assms that] by (auto simp: ka_vol_ok_def gm.entries_get dest: mall_get)
  have "(p, v) \<in> mtv_key ` set (ka_GetMountedVolumes asw) \<longleftrightarrow> ka_mounted asw p v" for p v
  proof
    assume "(p, v) \<in> mtv_key ` set (ka_GetMountedVolumes asw)"
    then obtain u o' q x where "mget (ka_attachedVolumes asw) u = Some o'" "(q, x) \<in> set (kav_mountedPods o')"
        "p = kmp_podName x" "v = kav_volumeName o'"
      using w by (auto simp: ka_GetMountedVolumes_def gm.entries_get mtv_key_def getMountedVolume_def)
    then show "ka_mounted asw p v" using name by (auto simp: ka_mounted_def mhas_def)
  next
    assume "ka_mounted asw p v"
    then obtain o' x where o: "mget (ka_attachedVolumes asw) v = Some o'" "mget (kav_mountedPods o') p = Some x"
      by (auto simp: ka_mounted_def mhas_def)
    then have "getMountedVolume x o' \<in> set (ka_GetMountedVolumes asw)"
      using w name [OF o(1)] by (force simp: ka_GetMountedVolumes_def gm.entries_get)
    moreover have "mtv_key (getMountedVolume x o') = (p, v)" using name [OF o(1)] o(2) by (simp add: mtv_key_def getMountedVolume_def)
    ultimately show "(p, v) \<in> mtv_key ` set (ka_GetMountedVolumes asw)" by (metis image_eqI)
  qed
  then show ?thesis by auto
qed

lemma ka_GetUnmountedVolumes_names:
  assumes "ka_inv asw"
  shows "(\<exists>a \<in> set (ka_GetUnmountedVolumes asw). atv_VolumeName a = v \<and> atv_GloballyMounted a = g) \<longleftrightarrow>
    ka_VolumeExists asw v \<and> (\<forall>p. \<not> ka_mounted asw p v) \<and> ka_device asw v = g"
proof -
  have w: "mwf (ka_attachedVolumes asw)" using assms by (simp add: ka_inv_def)
  have name: "kav_volumeName o' = u" if "mget (ka_attachedVolumes asw) u = Some o'" for u o'
    using ka_vol_ok_get [OF assms that] by (simp add: ka_vol_ok_def)
  have "(\<exists>a \<in> set (ka_GetUnmountedVolumes asw). atv_VolumeName a = v \<and> atv_GloballyMounted a = g) \<longleftrightarrow>
      (\<exists>u o'. mget (ka_attachedVolumes asw) u = Some o' \<and> kav_mountedPods o' = [] \<and> kav_volumeName o' = v \<and> kav_globallyMounted o' = g)"
    by (simp add: ka_GetUnmountedVolumes_def newAttachedVolume_def gm.entries_get [OF w, symmetric] Bex_def)
  also have "\<dots> \<longleftrightarrow> (\<exists>o'. mget (ka_attachedVolumes asw) v = Some o' \<and> kav_mountedPods o' = [] \<and> kav_globallyMounted o' = g)"
    using name by blast
  also have "\<dots> \<longleftrightarrow> ka_VolumeExists asw v \<and> (\<forall>p. \<not> ka_mounted asw p v) \<and> ka_device asw v = g"
    by (auto simp: ka_obs mhas_def mempty_iff)
  finally show ?thesis .
qed

text \<open>C20: After any sequence of calls the cache of the kubelet implements plain sets of attached volumes, of
  pairs of a pod and a volume mounted for it, and of volumes with a mounted device; pods and devices are
  only recorded for attached volumes. \<open>GetMountedVolumes\<close> lists exactly the mounted pairs, and
  \<open>GetUnmountedVolumes\<close> exactly the attached volumes without pods, each with the state of its device.\<close>

theorem kubelet_asw_refines_sets:
  "let asw = fold ka_step cs (ka_NewActualStateOfWorld n mgr);
       s = fold (ka_spec mgr) cs \<lparr>ms_attached = {}, ms_mounted = {}, ms_device = {}\<rparr>
   in ka_abs asw = s \<and> snd ` ms_mounted s \<union> ms_device s \<subseteq> ms_attached s \<and>
      mtv_key ` set (ka_GetMountedVolumes asw) = ms_mounted s \<and>
      (\<lambda>a. (atv_VolumeName a, atv_GloballyMounted a)) ` set (ka_GetUnmountedVolumes asw) =
        (\<lambda>v. (v, v \<in> ms_device s)) ` (ms_attached s - snd ` ms_mounted s)"
proof -
  let ?asw = "fold ka_step cs (ka_NewActualStateOfWorld n mgr)"
  have mgr: "ka_volumePluginMgr (ka_NewActualStateOfWorld n mgr) = mgr" by (simp add: ka_NewActualStateOfWorld_def)
  have r: "ka_inv ?asw" "ka_abs ?asw = fold (ka_spec mgr) cs \<lparr>ms_attached = {}, ms_mounted = {}, ms_device = {}\<rparr>"
    using ka_run [OF ka_inv_new, of cs n mgr] by (simp_all add: mgr ka_abs_new)
  have "snd ` ms_mounted (ka_abs ?asw) \<union> ms_device (ka_abs ?asw) \<subseteq> ms_attached (ka_abs ?asw)"
    using ka_mounted_exists ka_device_exists by (auto simp: ka_abs_def)
  moreover have "mtv_key ` set (ka_GetMountedVolumes ?asw) = ms_mounted (ka_abs ?asw)"
    using ka_GetMountedVolumes_keys [OF r(1)] by (simp add: ka_abs_def)
  moreover have un: "(v, g) \<in> (\<lambda>a. (atv_VolumeName a, atv_GloballyMounted a)) ` set (ka_GetUnmountedVolumes ?asw) \<longleftrightarrow>
      (v, g) \<in> (\<lambda>v. (v, v \<in> ms_device (ka_abs ?asw))) ` (ms_attached (ka_abs ?asw) - snd ` ms_mounted (ka_abs ?asw))" for v g
  proof -
    let ?s = "ka_abs ?asw"
    have "(v, g) \<in> (\<lambda>a. (atv_VolumeName a, atv_GloballyMounted a)) ` set (ka_GetUnmountedVolumes ?asw) \<longleftrightarrow>
        (\<exists>a \<in> set (ka_GetUnmountedVolumes ?asw). atv_VolumeName a = v \<and> atv_GloballyMounted a = g)"
      by blast
    also have "\<dots> \<longleftrightarrow> v \<in> ms_attached ?s \<and> (\<forall>p. (p, v) \<notin> ms_mounted ?s) \<and> (v \<in> ms_device ?s) = g"
      by (simp only: ka_GetUnmountedVolumes_names [OF r(1)] ka_abs_simps)
    also have "\<dots> \<longleftrightarrow> (v, g) \<in> (\<lambda>v. (v, v \<in> ms_device ?s)) ` (ms_attached ?s - snd ` ms_mounted ?s)"
      by (simp only: image_iff Bex_def Diff_iff prod.inject) (metis snd_conv surj_pair)
    finally show ?thesis .
  qed
  then have "(\<lambda>a. (atv_VolumeName a, atv_GloballyMounted a)) ` set (ka_GetUnmountedVolumes ?asw) =
      (\<lambda>v. (v, v \<in> ms_device (ka_abs ?asw))) ` (ms_attached (ka_abs ?asw) - snd ` ms_mounted (ka_abs ?asw))"
    by (intro set_eqI) (simp only: split_paired_all)
  ultimately show ?thesis unfolding r(2) [symmetric] Let_def by (intro conjI refl)
qed

end
