(* ===== verification/Kubelet_Desired_State.thy ===== *)
theory Kubelet_Desired_State
  imports Operation_Generator
begin

text \<open>
  \<open>pkg/kubelet/volumemanager/cache/desired_state_of_world.go\<close>: the volumes that should be attached to
  the node of the kubelet and mounted, with the pods that want them. Every method holds the lock of the
  cache, so each is one function. The names get the prefix \<open>kd\<close>.
\<close>

record kd_podToMount =
  kdp_podName :: unique_pod_name
  kdp_pod :: v1_Pod
  kdp_spec :: Spec
  kdp_outerVolumeSpecName :: string

record kd_volumeToMount =
  kdv_volumeName :: unique_volume_name
  kdv_podsToMount :: "(unique_pod_name, kd_podToMount) gomap"
  kdv_pluginIsAttachable :: bool
  kdv_volumeGidValue :: string
  kdv_reportedInUse :: bool

record kd_desiredStateOfWorld =
  kd_volumesToMount :: "(unique_volume_name, kd_volumeToMount) gomap"
  kd_volumePluginMgr :: "(string, VolumePlugin) gomap"

definition kd_NewDesiredStateOfWorld :: "(string, VolumePlugin) gomap \<Rightarrow> kd_desiredStateOfWorld" where
  "kd_NewDesiredStateOfWorld volumePluginMgr = \<lparr>kd_volumesToMount = [], kd_volumePluginMgr = volumePluginMgr\<rparr>"

section \<open>Operations\<close>

text \<open>\<open>newAttacher\<close> is the error of the \<open>NewAttacher\<close> of the plugin with the given name.\<close>

definition isAttachableVolume :: "(string \<Rightarrow> error option) \<Rightarrow> (string, VolumePlugin) gomap \<Rightarrow> Spec \<Rightarrow> bool" where
  "isAttachableVolume newAttacher mgr volumeSpec =
     (case FindAttachablePluginBySpec mgr volumeSpec of
        Inr (Some attachableVolumePlugin) \<Rightarrow> newAttacher (pl_GetPluginName attachableVolumePlugin) = None
      | _ \<Rightarrow> False)"

text \<open>The first half of \<open>AddPodToVolume\<close>: whether the volume is attachable, and its unique name.\<close>

definition kd_volume_name ::
    "(string \<Rightarrow> error option) \<Rightarrow> (string, VolumePlugin) gomap \<Rightarrow> unique_pod_name \<Rightarrow> Spec \<Rightarrow> error + bool \<times> unique_volume_name" where
  "kd_volume_name newAttacher mgr podName volumeSpec =
     (case FindPluginBySpec mgr volumeSpec of
        Inl err \<Rightarrow> Inl (Errorf ''failed to get Plugin from volumeSpec for volume'' (Some err))
      | Inr volumePlugin \<Rightarrow>
          let attachable = isAttachableVolume newAttacher mgr volumeSpec in
          if attachable then
            (case GetUniqueVolumeNameFromSpec (Some volumePlugin) volumeSpec of
               Inl err \<Rightarrow> Inl (Errorf ''failed to GetUniqueVolumeNameFromSpec for volumeSpec'' (Some err))
             | Inr volumeName \<Rightarrow> Inr (attachable, volumeName))
          else Inr (attachable, GetUniqueVolumeNameForNonAttachableVolume podName volumePlugin volumeSpec))"

definition kd_AddPodToVolume ::
    "(string \<Rightarrow> error option) \<Rightarrow> unique_pod_name \<Rightarrow> v1_Pod \<Rightarrow> Spec \<Rightarrow> string \<Rightarrow> string \<Rightarrow> kd_desiredStateOfWorld \<Rightarrow>
     (error + unique_volume_name) \<times> kd_desiredStateOfWorld" where
  "kd_AddPodToVolume newAttacher podName pod volumeSpec outerVolumeSpecName volumeGidValue dsw =
     (case kd_volume_name newAttacher (kd_volumePluginMgr dsw) podName volumeSpec of
        Inl err \<Rightarrow> (Inl err, dsw)
      | Inr (attachable, volumeName) \<Rightarrow>
          let volumeObj =
                (case mget (kd_volumesToMount dsw) volumeName of
                   Some volumeObj \<Rightarrow> volumeObj
                 | None \<Rightarrow> \<lparr>kdv_volumeName = volumeName, kdv_podsToMount = [], kdv_pluginIsAttachable = attachable,
                     kdv_volumeGidValue = volumeGidValue, kdv_reportedInUse = False\<rparr>);
              podObj = \<lparr>kdp_podName = podName, kdp_pod = pod, kdp_spec = volumeSpec,
                kdp_outerVolumeSpecName = outerVolumeSpecName\<rparr>
          in (Inr volumeName, dsw\<lparr>kd_volumesToMount :=
               mput volumeName (volumeObj\<lparr>kdv_podsToMount := mput podName podObj (kdv_podsToMount volumeObj)\<rparr>)
                 (kd_volumesToMount dsw)\<rparr>))"

definition kd_MarkVolumesReportedInUse :: "unique_volume_name list \<Rightarrow> kd_desiredStateOfWorld \<Rightarrow> kd_desiredStateOfWorld" where
  "kd_MarkVolumesReportedInUse reportedVolumes dsw =
     (let reportedVolumesMap = fold (\<lambda>reportedVolume. mput reportedVolume True) reportedVolumes []
      in dsw\<lparr>kd_volumesToMount :=
           map (\<lambda>(volumeName, volumeObj). (volumeName, volumeObj\<lparr>kdv_reportedInUse := mhas reportedVolumesMap volumeName\<rparr>))
             (kd_volumesToMount dsw)\<rparr>)"

definition kd_DeletePodFromVolume ::
    "unique_pod_name \<Rightarrow> unique_volume_name \<Rightarrow> kd_desiredStateOfWorld \<Rightarrow> kd_desiredStateOfWorld" where
  "kd_DeletePodFromVolume podName volumeName dsw =
     (case mget (kd_volumesToMount dsw) volumeName of
        None \<Rightarrow> dsw
      | Some volumeObj \<Rightarrow>
          if \<not> mhas (kdv_podsToMount volumeObj) podName then dsw
          else let podsToMount = mdel podName (kdv_podsToMount volumeObj)
               in dsw\<lparr>kd_volumesToMount :=
                    (if length podsToMount = 0 then mdel volumeName (kd_volumesToMount dsw)
                     else mput volumeName (volumeObj\<lparr>kdv_podsToMount := podsToMount\<rparr>) (kd_volumesToMount dsw))\<rparr>)"

definition kd_VolumeExists :: "kd_desiredStateOfWorld \<Rightarrow> unique_volume_name \<Rightarrow> bool" where
  "kd_VolumeExists dsw volumeName = mhas (kd_volumesToMount dsw) volumeName"

definition kd_PodExistsInVolume :: "kd_desiredStateOfWorld \<Rightarrow> unique_pod_name \<Rightarrow> unique_volume_name \<Rightarrow> bool" where
  "kd_PodExistsInVolume dsw podName volumeName =
     (case mget (kd_volumesToMount dsw) volumeName of
        None \<Rightarrow> False | Some volumeObj \<Rightarrow> mhas (kdv_podsToMount volumeObj) podName)"

definition kd_GetPods :: "kd_desiredStateOfWorld \<Rightarrow> (unique_pod_name, bool) gomap" where
  "kd_GetPods dsw =
     fold (\<lambda>(_, volumeObj). fold (\<lambda>(podName, _) podList.
         if mget podList podName = Some True then podList else mput podName True podList) (kdv_podsToMount volumeObj))
       (kd_volumesToMount dsw) []"

definition kd_GetVolumesToMount :: "kd_desiredStateOfWorld \<Rightarrow> VolumeToMount list" where
  "kd_GetVolumesToMount dsw =
     concat (map (\<lambda>(volumeName, volumeObj). map (\<lambda>(podName, podObj).
         \<lparr>vtm_VolumeName = volumeName, vtm_PodName = podName, vtm_VolumeSpec = kdp_spec podObj,
          vtm_OuterVolumeSpecName = kdp_outerVolumeSpecName podObj, vtm_Pod = kdp_pod podObj,
          vtm_PluginIsAttachable = kdv_pluginIsAttachable volumeObj, vtm_VolumeGidValue = kdv_volumeGidValue volumeObj,
          vtm_DevicePath = '''', vtm_ReportedInUse = kdv_reportedInUse volumeObj\<rparr>) (kdv_podsToMount volumeObj))
       (kd_volumesToMount dsw))"

section \<open>Abstract state: who wants which volume\<close>

definition kd_vol_ok :: "unique_volume_name \<Rightarrow> kd_volumeToMount \<Rightarrow> bool" where
  "kd_vol_ok v volumeObj \<longleftrightarrow> kdv_volumeName volumeObj = v \<and> mwf (kdv_podsToMount volumeObj) \<and> kdv_podsToMount volumeObj \<noteq> [] \<and>
     mall (\<lambda>p podObj. kdp_podName podObj = p) (kdv_podsToMount volumeObj)"

definition kd_inv :: "kd_desiredStateOfWorld \<Rightarrow> bool" where
  "kd_inv dsw \<longleftrightarrow> mwf (kd_volumesToMount dsw) \<and> mall kd_vol_ok (kd_volumesToMount dsw)"

definition kd_reported :: "kd_desiredStateOfWorld \<Rightarrow> unique_volume_name \<Rightarrow> bool" where
  "kd_reported dsw v \<longleftrightarrow> (\<exists>volumeObj. mget (kd_volumesToMount dsw) v = Some volumeObj \<and> kdv_reportedInUse volumeObj)"

record desire_spec =
  des_wanted :: "(unique_pod_name \<times> unique_volume_name) set"
  des_reported :: "unique_volume_name set"

definition kd_abs :: "kd_desiredStateOfWorld \<Rightarrow> desire_spec" where
  "kd_abs dsw = \<lparr>des_wanted = {(p, v). kd_PodExistsInVolume dsw p v}, des_reported = {v. kd_reported dsw v}\<rparr>"

datatype kd_call =
    kd_AddPod_call unique_pod_name v1_Pod Spec string string
  | kd_MarkReported_call "unique_volume_name list"
  | kd_DeletePod_call unique_pod_name unique_volume_name

fun kd_step :: "(string \<Rightarrow> error option) \<Rightarrow> kd_call \<Rightarrow> kd_desiredStateOfWorld \<Rightarrow> kd_desiredStateOfWorld" where
  "kd_step na (kd_AddPod_call p pod spec outer gid) dsw = snd (kd_AddPodToVolume na p pod spec outer gid dsw)"
| "kd_step na (kd_MarkReported_call vs) dsw = kd_MarkVolumesReportedInUse vs dsw"
| "kd_step na (kd_DeletePod_call p v) dsw = kd_DeletePodFromVolume p v dsw"

fun kd_spec :: "(string \<Rightarrow> error option) \<Rightarrow> (string, VolumePlugin) gomap \<Rightarrow> kd_call \<Rightarrow> desire_spec \<Rightarrow> desire_spec" where
  "kd_spec na mgr (kd_AddPod_call p pod spec outer gid) s = (case kd_volume_name na mgr p spec of
      Inl _ \<Rightarrow> s | Inr (_, v) \<Rightarrow> s\<lparr>des_wanted := insert (p, v) (des_wanted s)\<rparr>)"
| "kd_spec na mgr (kd_MarkReported_call vs) s = s\<lparr>des_reported := set vs \<inter> snd ` des_wanted s\<rparr>"
| "kd_spec na mgr (kd_DeletePod_call p v) s =
     (let wanted = des_wanted s - {(p, v)} in \<lparr>des_wanted = wanted, des_reported = des_reported s \<inter> snd ` wanted\<rparr>)"

lemmas kd_obs = kd_VolumeExists_def kd_PodExistsInVolume_def kd_reported_def

lemma kd_vol_ok_get: "kd_inv dsw \<Longrightarrow> mget (kd_volumesToMount dsw) v = Some o' \<Longrightarrow> kd_vol_ok v o'"
  by (auto simp: kd_inv_def dest: mall_get)

text \<open>A volume is there exactly when a pod wants it.\<close>

lemma kd_exists_iff: "kd_inv dsw \<Longrightarrow> kd_VolumeExists dsw v \<longleftrightarrow> (\<exists>p. kd_PodExistsInVolume dsw p v)"
  using kd_vol_ok_get [of dsw v] by (auto simp: kd_obs mhas_def kd_vol_ok_def mempty_iff split: option.split)

lemma kd_abs_eq_iff:
  "kd_abs dsw = s \<longleftrightarrow> (\<forall>p v. kd_PodExistsInVolume dsw p v \<longleftrightarrow> (p, v) \<in> des_wanted s) \<and>
     (\<forall>v. kd_reported dsw v \<longleftrightarrow> v \<in> des_reported s)"
  by (cases s) (auto simp: kd_abs_def)

lemma kd_abs_simps [simp]:
  "(p, v) \<in> des_wanted (kd_abs dsw) \<longleftrightarrow> kd_PodExistsInVolume dsw p v" "v \<in> des_reported (kd_abs dsw) \<longleftrightarrow> kd_reported dsw v"
  by (simp_all add: kd_abs_def)

lemma kd_wanted_volumes: "kd_inv dsw \<Longrightarrow> v \<in> snd ` des_wanted (kd_abs dsw) \<longleftrightarrow> kd_VolumeExists dsw v"
  by (force simp: kd_exists_iff kd_abs_def)

lemma kd_reported_exists: "kd_reported dsw v \<Longrightarrow> kd_VolumeExists dsw v"
  by (auto simp: kd_obs mhas_def)

lemma mhas_fold_mput: "mhas (fold (\<lambda>k. mput k x) ks m) k \<longleftrightarrow> k \<in> set ks \<or> mhas m k"
  by (induction ks arbitrary: m) auto

lemma kd_AddPod_facts:
  assumes "kd_inv dsw" and "kd_volume_name na (kd_volumePluginMgr dsw) p spec = Inr (att, v)"
  shows "\<exists>dsw'. kd_AddPodToVolume na p pod spec outer gid dsw = (Inr v, dsw') \<and> kd_inv dsw' \<and>
    (\<forall>q u. kd_PodExistsInVolume dsw' q u \<longleftrightarrow> (q, u) = (p, v) \<or> kd_PodExistsInVolume dsw q u) \<and> kd_reported dsw' = kd_reported dsw"
proof (cases "mget (kd_volumesToMount dsw) v")
  case None
  then show ?thesis
    using assms by (auto simp: kd_AddPodToVolume_def kd_inv_def kd_vol_ok_def kd_obs gm.get_put fun_eq_iff)
next
  case (Some o')
  then show ?thesis
    using assms kd_vol_ok_get [OF assms(1) Some]
    by (auto simp: kd_AddPodToVolume_def kd_inv_def kd_vol_ok_def kd_obs gm.get_put fun_eq_iff)
qed

lemma kd_MarkReported_facts:
  assumes "kd_inv dsw"
  shows "kd_inv (kd_MarkVolumesReportedInUse vs dsw)"
    and "kd_PodExistsInVolume (kd_MarkVolumesReportedInUse vs dsw) = kd_PodExistsInVolume dsw"
    and "kd_reported (kd_MarkVolumesReportedInUse vs dsw) v \<longleftrightarrow> v \<in> set vs \<and> kd_VolumeExists dsw v"
proof -
  let ?f = "\<lambda>v volumeObj. volumeObj\<lparr>kdv_reportedInUse := v \<in> set vs\<rparr>"
  have m: "kd_volumesToMount (kd_MarkVolumesReportedInUse vs dsw) = map (\<lambda>(v, o'). (v, ?f v o')) (kd_volumesToMount dsw)"
    by (simp add: kd_MarkVolumesReportedInUse_def mhas_fold_mput)
  then have get: "mget (kd_volumesToMount (kd_MarkVolumesReportedInUse vs dsw)) v = map_option (?f v) (mget (kd_volumesToMount dsw) v)" for v
    by (simp add: mget_map)
  have "kd_vol_ok v o' \<Longrightarrow> kd_vol_ok v (?f v o')" for v o' by (simp add: kd_vol_ok_def)
  then show "kd_inv (kd_MarkVolumesReportedInUse vs dsw)"
    using assms unfolding kd_inv_def mall_def get by (auto simp: m)
  show "kd_PodExistsInVolume (kd_MarkVolumesReportedInUse vs dsw) = kd_PodExistsInVolume dsw"
    by (auto simp: fun_eq_iff kd_PodExistsInVolume_def get split: option.split)
  show "kd_reported (kd_MarkVolumesReportedInUse vs dsw) v \<longleftrightarrow> v \<in> set vs \<and> kd_VolumeExists dsw v"
    by (auto simp: kd_obs get mhas_def)
qed

lemma kd_DeletePod_facts:
  assumes "kd_inv dsw"
  shows "kd_inv (kd_DeletePodFromVolume p v dsw)"
    and "kd_PodExistsInVolume (kd_DeletePodFromVolume p v dsw) q u \<longleftrightarrow> (q, u) \<noteq> (p, v) \<and> kd_PodExistsInVolume dsw q u"
    and "kd_reported (kd_DeletePodFromVolume p v dsw) u \<longleftrightarrow>
      kd_reported dsw u \<and> (\<exists>q. (q, u) \<noteq> (p, v) \<and> kd_PodExistsInVolume dsw q u)"
proof -
  have ok: "kd_vol_ok x o'" if "mget (kd_volumesToMount dsw) x = Some o'" for x o' by (rule kd_vol_ok_get [OF assms that])
  show "kd_inv (kd_DeletePodFromVolume p v dsw)"
    using assms ok [of v] by (auto simp: kd_DeletePodFromVolume_def kd_inv_def kd_vol_ok_def Let_def split: option.split)
  have wanted: "kd_PodExistsInVolume (kd_DeletePodFromVolume p v dsw) q u \<longleftrightarrow> (q, u) \<noteq> (p, v) \<and> kd_PodExistsInVolume dsw q u" for q u
    using mempty_iff [of "mdel p (kdv_podsToMount (the (mget (kd_volumesToMount dsw) v)))"]
    by (auto simp: kd_DeletePodFromVolume_def kd_PodExistsInVolume_def gm.get_put gm.get_del Let_def split: option.splits if_splits)
  then show "kd_PodExistsInVolume (kd_DeletePodFromVolume p v dsw) q u \<longleftrightarrow> (q, u) \<noteq> (p, v) \<and> kd_PodExistsInVolume dsw q u" .
  have "kd_reported (kd_DeletePodFromVolume p v dsw) u \<longleftrightarrow> kd_reported dsw u \<and> kd_VolumeExists (kd_DeletePodFromVolume p v dsw) u"
    by (auto simp: kd_DeletePodFromVolume_def kd_obs mhas_def gm.get_put gm.get_del Let_def split: option.splits if_splits)
  then show "kd_reported (kd_DeletePodFromVolume p v dsw) u \<longleftrightarrow>
      kd_reported dsw u \<and> (\<exists>q. (q, u) \<noteq> (p, v) \<and> kd_PodExistsInVolume dsw q u)"
    by (simp only: kd_exists_iff [OF \<open>kd_inv (kd_DeletePodFromVolume p v dsw)\<close>] wanted)
qed

lemma kd_step_refines:
  assumes "kd_inv dsw"
  shows "kd_inv (kd_step na c dsw) \<and> kd_abs (kd_step na c dsw) = kd_spec na (kd_volumePluginMgr dsw) c (kd_abs dsw)"
proof (cases c)
  case (kd_AddPod_call p pod spec outer gid)
  show ?thesis
  proof (cases "kd_volume_name na (kd_volumePluginMgr dsw) p spec")
    case (Inl err)
    then show ?thesis using assms by (simp add: kd_AddPod_call kd_AddPodToVolume_def)
  next
    case (Inr r)
    then obtain att v where n: "kd_volume_name na (kd_volumePluginMgr dsw) p spec = Inr (att, v)" by (cases r) simp
    from kd_AddPod_facts [OF assms n, of pod outer gid] obtain dsw' where
        "kd_AddPodToVolume na p pod spec outer gid dsw = (Inr v, dsw')" "kd_inv dsw'" "kd_reported dsw' = kd_reported dsw"
        "\<And>q u. kd_PodExistsInVolume dsw' q u \<longleftrightarrow> (q, u) = (p, v) \<or> kd_PodExistsInVolume dsw q u" by blast
    then show ?thesis by (simp add: kd_AddPod_call n kd_abs_eq_iff)
  qed
next
  case (kd_MarkReported_call vs)
  then show ?thesis using assms by (simp add: kd_abs_eq_iff kd_MarkReported_facts kd_wanted_volumes)
next
  case (kd_DeletePod_call p v)
  have "(\<exists>q. (q, u) \<noteq> (p, v) \<and> kd_PodExistsInVolume dsw q u) \<longleftrightarrow> u \<in> snd ` (des_wanted (kd_abs dsw) - {(p, v)})" for u
    by (force simp: kd_abs_def)
  with kd_DeletePod_call show ?thesis using assms by (auto simp: kd_abs_eq_iff kd_DeletePod_facts Let_def)
qed

lemma kd_step_mgr [simp]: "kd_volumePluginMgr (kd_step na c dsw) = kd_volumePluginMgr dsw"
  by (cases c) (auto simp: kd_AddPodToVolume_def kd_MarkVolumesReportedInUse_def kd_DeletePodFromVolume_def Let_def
      split: sum.split option.split)

lemma kd_run:
  "kd_inv dsw \<Longrightarrow> kd_inv (fold (kd_step na) cs dsw) \<and>
     kd_abs (fold (kd_step na) cs dsw) = fold (kd_spec na (kd_volumePluginMgr dsw)) cs (kd_abs dsw)"
  by (induction cs arbitrary: dsw) (simp_all add: kd_step_refines)

lemma kd_new:
  "kd_inv (kd_NewDesiredStateOfWorld mgr)" "kd_volumePluginMgr (kd_NewDesiredStateOfWorld mgr) = mgr"
  "kd_abs (kd_NewDesiredStateOfWorld mgr) = \<lparr>des_wanted = {}, des_reported = {}\<rparr>"
  by (simp_all add: kd_abs_eq_iff) (simp_all add: kd_NewDesiredStateOfWorld_def kd_inv_def kd_obs)

section \<open>Properties\<close>

definition vtm_key :: "VolumeToMount \<Rightarrow> unique_pod_name \<times> unique_volume_name" where
  "vtm_key m = (vtm_PodName m, vtm_VolumeName m)"

lemma kd_GetVolumesToMount_keys:
  assumes "kd_inv dsw"
  shows "vtm_key ` set (kd_GetVolumesToMount dsw) = {(p, v). kd_PodExistsInVolume dsw p v}"
proof -
  have w: "mwf (kd_volumesToMount dsw)" using assms by (simp add: kd_inv_def)
  have pods: "(p, x) \<in> set (kdv_podsToMount o') \<longleftrightarrow> mget (kdv_podsToMount o') p = Some x"
    if "mget (kd_volumesToMount dsw) v = Some o'" for v o' p x
    using kd_vol_ok_get [OF assms that] by (simp add: kd_vol_ok_def gm.entries_get)
  have "vtm_key ` set (kd_GetVolumesToMount dsw) =
      {(p, v). \<exists>o' x. (v, o') \<in> set (kd_volumesToMount dsw) \<and> (p, x) \<in> set (kdv_podsToMount o')}"
    by (force simp: kd_GetVolumesToMount_def vtm_key_def)
  also have "\<dots> = {(p, v). kd_PodExistsInVolume dsw p v}"
    using pods by (auto simp: gm.entries_get [OF w] kd_PodExistsInVolume_def mhas_def split: option.splits)
  finally show ?thesis .
qed

lemma kd_GetVolumesToMount_reported:
  assumes "kd_inv dsw" and "m \<in> set (kd_GetVolumesToMount dsw)"
  shows "vtm_ReportedInUse m \<longleftrightarrow> kd_reported dsw (vtm_VolumeName m)"
proof -
  have w: "mwf (kd_volumesToMount dsw)" using assms by (simp add: kd_inv_def)
  show ?thesis using assms(2) by (auto simp: kd_GetVolumesToMount_def kd_reported_def gm.entries_get [OF w])
qed

lemma mhas_pod_list:
  "mhas (fold (\<lambda>(k, _) m. if mget m k = Some True then m else mput k True m) es m) k \<longleftrightarrow> k \<in> fst ` set es \<or> mhas m k"
proof (induction es arbitrary: m)
  case (Cons e es)
  have "mhas (if mget m a = Some True then m else mput a True m) k \<longleftrightarrow> k = a \<or> mhas m k" for a
    by (auto simp: mhas_def gm.get_put)
  with Cons show ?case by (auto simp: split_def)
qed simp

lemma kd_GetPods_keys:
  assumes "kd_inv dsw"
  shows "{p. mhas (kd_GetPods dsw) p} = fst ` {(p, v). kd_PodExistsInVolume dsw p v}"
proof -
  have "kd_GetPods dsw = fold (\<lambda>(k, _) m. if mget m k = Some True then m else mput k True m)
      (concat (map (\<lambda>e. kdv_podsToMount (snd e)) (kd_volumesToMount dsw))) []"
    unfolding kd_GetPods_def by (simp add: split_def flip: fold_nested)
  then have "{p. mhas (kd_GetPods dsw) p} = fst ` vtm_key ` set (kd_GetVolumesToMount dsw)"
    by (force simp: mhas_pod_list kd_GetVolumesToMount_def vtm_key_def)
  then show ?thesis by (simp add: kd_GetVolumesToMount_keys [OF assms])
qed

text \<open>After any sequence of calls the desired state of the kubelet implements a plain set of pairs of a pod
  and a volume that it wants, and the set of the volumes reported in use; a volume leaves both with its last
  pod, and a report is forgotten then. \<open>GetVolumesToMount\<close> lists exactly the wanted pairs, each with
  the report of its volume, \<open>GetPods\<close> exactly their pods, and \<open>VolumeExists\<close> holds for exactly
  their volumes.\<close>

theorem kubelet_dsw_refines_sets:
  "let dsw = fold (kd_step na) cs (kd_NewDesiredStateOfWorld mgr);
       s = fold (kd_spec na mgr) cs \<lparr>des_wanted = {}, des_reported = {}\<rparr>
   in kd_abs dsw = s \<and> des_reported s \<subseteq> snd ` des_wanted s \<and> {v. kd_VolumeExists dsw v} = snd ` des_wanted s \<and>
      (\<lambda>m. (vtm_key m, vtm_ReportedInUse m)) ` set (kd_GetVolumesToMount dsw) = (\<lambda>(p, v). ((p, v), v \<in> des_reported s)) ` des_wanted s \<and>
      {p. mhas (kd_GetPods dsw) p} = fst ` des_wanted s"
proof -
  let ?dsw = "fold (kd_step na) cs (kd_NewDesiredStateOfWorld mgr)"
  have r: "kd_inv ?dsw" "kd_abs ?dsw = fold (kd_spec na mgr) cs \<lparr>des_wanted = {}, des_reported = {}\<rparr>"
    using kd_run [OF kd_new(1), of na cs mgr] by (simp_all add: kd_new)
  note w = kd_wanted_volumes [OF r(1)]
  have "(\<lambda>m. (vtm_key m, vtm_ReportedInUse m)) ` set (kd_GetVolumesToMount ?dsw) =
      (\<lambda>m. (vtm_key m, kd_reported ?dsw (snd (vtm_key m)))) ` set (kd_GetVolumesToMount ?dsw)"
    using kd_GetVolumesToMount_reported [OF r(1)] by (intro image_cong refl) (simp add: vtm_key_def)
  also have "\<dots> = (\<lambda>k. (k, kd_reported ?dsw (snd k))) ` vtm_key ` set (kd_GetVolumesToMount ?dsw)" by (simp add: image_image)
  also have "\<dots> = (\<lambda>(p, v). ((p, v), v \<in> des_reported (kd_abs ?dsw))) ` des_wanted (kd_abs ?dsw)"
    by (simp add: kd_GetVolumesToMount_keys [OF r(1)] kd_abs_def split_def)
  finally have "(\<lambda>m. (vtm_key m, vtm_ReportedInUse m)) ` set (kd_GetVolumesToMount ?dsw) =
      (\<lambda>(p, v). ((p, v), v \<in> des_reported (kd_abs ?dsw))) ` des_wanted (kd_abs ?dsw)" .
  moreover have "des_reported (kd_abs ?dsw) \<subseteq> snd ` des_wanted (kd_abs ?dsw)"
    using w kd_reported_exists [of ?dsw] by auto
  moreover have "{v. kd_VolumeExists ?dsw v} = snd ` des_wanted (kd_abs ?dsw)" using w by blast
  moreover have "{p. mhas (kd_GetPods ?dsw) p} = fst ` des_wanted (kd_abs ?dsw)"
    using kd_GetPods_keys [OF r(1)] by (simp add: kd_abs_def)
  ultimately show ?thesis unfolding r(2) [symmetric] Let_def by (intro conjI refl)
qed

end
