(* ===== verification/Kubelet_Reconciler.thy ===== *)
theory Kubelet_Reconciler
  imports Operation_Executor Kubelet_Actual_State Kubelet_Desired_State
begin

text \<open>
  \<open>pkg/kubelet/volumemanager/reconciler/reconciler.go\<close>: one pass unmounts what is mounted but not
  wanted, then attaches or mounts what is wanted, then unmounts and detaches devices nobody wants; from
  time to time the volumes found on disk are put back into the caches. The bodies of the loops are the
  functions \<open>_iteration\<close>. They run over snapshots while goroutines, the populator and the API of the
  volume manager change the caches: \<open>kr_step\<close> is the relation of all these interleavings.
\<close>

section \<open>State\<close>

text \<open>
  The methods of \<open>ioutil\<close>, of \<open>util.ReadDirNoStat\<close> and of the plugins that only this component calls are
  fields of the reconciler.
\<close>

record 'w k_reconciler =
  kr_controllerAttachDetachEnabled :: bool
  kr_syncDuration :: duration
  kr_waitForAttachTimeout :: duration
  kr_nodeName :: node_name
  kr_volumePluginMgr :: "(string, VolumePlugin) gomap"
  kr_kubeletPodsDir :: string
  kr_outside :: "'w outside"
  kr_generator :: operationGenerator
  kr_ReadDir :: "string \<Rightarrow> 'w \<Rightarrow> error + (string \<times> bool) list"  \<comment> \<open>names, and whether they are directories\<close>
  kr_ReadDirNoStat :: "string \<Rightarrow> 'w \<Rightarrow> error + string list"
  kr_ConstructVolumeSpec :: "string \<Rightarrow> string \<Rightarrow> string \<Rightarrow> error + Spec"  \<comment> \<open>plugin name, volume name, mount path\<close>

record 'w k_state =
  ks_asw :: ka_actualStateOfWorld
  ks_dsw :: kd_desiredStateOfWorld
  ks_oe :: operationExecutor
  ks_w :: 'w
  ks_timeOfLastSync :: time

abbreviation kr_newAttacher :: "'w k_reconciler \<Rightarrow> string \<Rightarrow> error option" where
  "kr_newAttacher rc \<equiv> os_NewAttacher (kr_outside rc)"

section \<open>One pass\<close>

definition unmount_iteration :: "'w k_reconciler \<Rightarrow> time \<Rightarrow> MountedVolume \<Rightarrow> 'w k_state \<Rightarrow> 'w k_state" where
  "unmount_iteration rc now mountedVolume st =
     (if \<not> kd_PodExistsInVolume (ks_dsw st) (mtv_PodName mountedVolume) (mtv_VolumeName mountedVolume)
      then st\<lparr>ks_oe := snd (UnmountVolume (kr_outside rc) (kr_generator rc) now mountedVolume (ks_oe st))\<rparr>
      else st)"

definition mount_iteration :: "'w k_reconciler \<Rightarrow> time \<Rightarrow> VolumeToMount \<Rightarrow> 'w k_state \<Rightarrow> 'w k_state" where
  "mount_iteration rc now volumeToMount st =
     (let (volMounted, devicePath, err) =
            ka_PodExistsInVolume (ks_asw st) (vtm_PodName volumeToMount) (vtm_VolumeName volumeToMount);
          volumeToMount = volumeToMount\<lparr>vtm_DevicePath := devicePath\<rparr>
      in if IsVolumeNotAttachedError err then
           if kr_controllerAttachDetachEnabled rc \<or> \<not> vtm_PluginIsAttachable volumeToMount
           then st\<lparr>ks_oe := snd (VerifyControllerAttachedVolume now volumeToMount (kr_nodeName rc) (ks_oe st))\<rparr>
           else let volumeToAttach = \<lparr>vtoa_VolumeName = vtm_VolumeName volumeToMount, vtoa_VolumeSpec = vtm_VolumeSpec volumeToMount,
                      vtoa_NodeName = kr_nodeName rc, vtoa_ScheduledPods = []\<rparr>
                in st\<lparr>ks_oe := snd (AttachVolume (kr_outside rc) (kr_generator rc) now volumeToAttach (ks_oe st))\<rparr>
         else if \<not> volMounted \<or> IsRemountRequiredError err
         then st\<lparr>ks_oe := snd (MountVolume (kr_outside rc) (kr_generator rc) now (kr_waitForAttachTimeout rc) volumeToMount (ks_oe st))\<rparr>
         else st)"

definition unmount_device_iteration :: "'w k_reconciler \<Rightarrow> time \<Rightarrow> KA_AttachedVolume \<Rightarrow> 'w k_state \<Rightarrow> 'w k_state" where
  "unmount_device_iteration rc now attachedVolume st =
     (if kd_VolumeExists (ks_dsw st) (atv_VolumeName attachedVolume) then st
      else if atv_GloballyMounted attachedVolume
      then st\<lparr>ks_oe := snd (UnmountDevice (kr_outside rc) (kr_generator rc) now (AttachedVolume.truncate attachedVolume) (ks_oe st))\<rparr>
      else if kr_controllerAttachDetachEnabled rc \<or> \<not> atv_PluginIsAttachable attachedVolume
      then st\<lparr>ks_asw := au_MarkVolumeAsDetached ka_attacher (atv_VolumeName attachedVolume) (kr_nodeName rc) (ks_asw st)\<rparr>
      else st\<lparr>ks_oe := snd (DetachVolume (kr_outside rc) (kr_generator rc) now (AttachedVolume.truncate attachedVolume) False (ks_oe st))\<rparr>)"

text \<open>A pass that is not interrupted; \<open>now\<close> gives the clock for each volume of the three loops.\<close>

definition kr_reconcile :: "'w k_reconciler \<Rightarrow> (nat \<Rightarrow> unique_volume_name \<Rightarrow> time) \<Rightarrow> 'w k_state \<Rightarrow> 'w k_state" where
  "kr_reconcile rc now st =
     (let st = fold (\<lambda>m. unmount_iteration rc (now 0 (mtv_VolumeName m)) m) (ka_GetMountedVolumes (ks_asw st)) st;
          st = fold (\<lambda>m. mount_iteration rc (now 1 (vtm_VolumeName m)) m) (kd_GetVolumesToMount (ks_dsw st)) st
      in fold (\<lambda>a. unmount_device_iteration rc (now 2 (atv_VolumeName a)) a) (ka_GetUnmountedVolumes (ks_asw st)) st)"

section \<open>Reconstruction from disk\<close>

record podVolume =
  pvo_podName :: unique_pod_name
  pvo_volumeSpecName :: string
  pvo_mountPath :: string
  pvo_pluginName :: string

record reconstructedVolume =
  rv_volumeName :: unique_volume_name
  rv_podName :: unique_pod_name
  rv_volumeSpec :: Spec
  rv_outerVolumeSpecName :: string
  rv_pod :: v1_Pod
  rv_pluginIsAttachable :: bool
  rv_volumeGidValue :: string
  rv_devicePath :: string
  rv_mounter :: Mounter

definition pod_dir_volumes :: "'w k_reconciler \<Rightarrow> 'w \<Rightarrow> string \<Rightarrow> string \<Rightarrow> podVolume list" where
  "pod_dir_volumes rc w podDir podName =
     (let podDir = path_Join [podDir, podName]; volumesDir = path_Join [podDir, ''volumes''] in
      case kr_ReadDir rc volumesDir w of
        Inl err \<Rightarrow> []
      | Inr volumesDirInfo \<Rightarrow>
          concat (map (\<lambda>(pluginName, _).
              let volumePluginPath = path_Join [volumesDir, pluginName] in
              case kr_ReadDirNoStat rc volumePluginPath w of
                Inl err \<Rightarrow> []
              | Inr volumePluginDirs \<Rightarrow>
                  map (\<lambda>volumeName. \<lparr>pvo_podName = podName, pvo_volumeSpecName = volumeName,
                      pvo_mountPath = path_Join [volumePluginPath, volumeName],
                      pvo_pluginName = UnescapeQualifiedNameForDisk pluginName\<rparr>) volumePluginDirs)
            volumesDirInfo))"

definition getVolumesFromPodDir :: "'w k_reconciler \<Rightarrow> 'w \<Rightarrow> string \<Rightarrow> error + podVolume list" where
  "getVolumesFromPodDir rc w podDir =
     (case kr_ReadDir rc podDir w of
        Inl err \<Rightarrow> Inl err
      | Inr podsDirInfo \<Rightarrow>
          Inr (concat (map (\<lambda>(podName, isDir). if \<not> isDir then [] else pod_dir_volumes rc w podDir podName) podsDirInfo)))"

definition reconstructed_pod :: "unique_pod_name \<Rightarrow> v1_Pod" where
  "reconstructed_pod podName = \<lparr>pod_Name = '''', pod_Namespace = '''', pod_UID = podName, pod_NodeName = '''', pod_Volumes = [],
     pod_FSGroup = None, pod_SupplementalGroups = [], pod_Phase = PodPhaseUnset\<rparr>"

definition reconstructVolume :: "'w k_reconciler \<Rightarrow> podVolume \<Rightarrow> error + reconstructedVolume" where
  "reconstructVolume rc volume =
     (case FindPluginByName (kr_volumePluginMgr rc) (pvo_pluginName volume) of
        Inl err \<Rightarrow> Inl err
      | Inr plugin \<Rightarrow>
     (case kr_ConstructVolumeSpec rc (pl_GetPluginName plugin) (pvo_volumeSpecName volume) (pvo_mountPath volume) of
        Inl err \<Rightarrow> Inl err
      | Inr volumeSpec \<Rightarrow>
     (case FindAttachablePluginByName (kr_volumePluginMgr rc) (pvo_pluginName volume) of
        Inl err \<Rightarrow> Inl err
      | Inr attachablePlugin \<Rightarrow>
     (case pl_GetVolumeName plugin volumeSpec of
        Inl err \<Rightarrow> Inl err
      | Inr volumeName \<Rightarrow>
          let pod = reconstructed_pod (pvo_podName volume);
              uniqueVolumeName = (if attachablePlugin \<noteq> None then GetUniqueVolumeName (pvo_pluginName volume) volumeName
                else GetUniqueVolumeNameForNonAttachableVolume (pvo_podName volume) plugin volumeSpec)
          in case os_NewMounter (kr_outside rc) (pl_GetPluginName plugin) volumeSpec pod of
               Some newMounterErr \<Rightarrow> Inl (Errorf ''MountVolume.NewMounter failed'' (Some newMounterErr))
             | None \<Rightarrow> Inr \<lparr>rv_volumeName = uniqueVolumeName, rv_podName = pvo_podName volume, rv_volumeSpec = volumeSpec,
                 rv_outerVolumeSpecName = pvo_volumeSpecName volume, rv_pod = pod, rv_pluginIsAttachable = attachablePlugin \<noteq> None,
                 rv_volumeGidValue = '''', rv_devicePath = '''',
                 rv_mounter = \<lparr>mnt_pluginName = pl_GetPluginName plugin, mnt_spec = volumeSpec, mnt_podUID = pod_UID pod\<rparr>\<rparr>))))"

definition StatesHasBeenSynced :: "'w k_state \<Rightarrow> bool" where
  "StatesHasBeenSynced st \<longleftrightarrow> \<not> time_IsZero (ks_timeOfLastSync st)"

text \<open>The body of the loop of \<open>syncStates\<close>.\<close>

definition scan_iteration ::
    "'w k_reconciler \<Rightarrow> 'w k_state \<Rightarrow> podVolume \<Rightarrow> (unique_volume_name, reconstructedVolume) gomap \<Rightarrow>
     (unique_volume_name, reconstructedVolume) gomap" where
  "scan_iteration rc st volume volumesNeedUpdate =
     (case reconstructVolume rc volume of
        Inl err \<Rightarrow> volumesNeedUpdate
      | Inr rv \<Rightarrow>
          let pending = oe_IsOperationPending (ks_oe st) (rv_volumeName rv) (rv_podName rv);
              dswExist = kd_PodExistsInVolume (ks_dsw st) (rv_podName rv) (rv_volumeName rv);
              aswExist = fst (ka_PodExistsInVolume (ks_asw st) (rv_podName rv) (rv_volumeName rv))
          in if (if \<not> StatesHasBeenSynced st then aswExist \<or> \<not> rv_pluginIsAttachable rv else pending \<or> dswExist \<or> aswExist)
             then volumesNeedUpdate
             else mput (rv_volumeName rv) rv volumesNeedUpdate)"

text \<open>The first two loops of \<open>updateStates\<close>: device paths from the node status, names from the desired state.\<close>

definition complete_reconstructed ::
    "'w k_reconciler \<Rightarrow> 'w k_state \<Rightarrow> (unique_volume_name, reconstructedVolume) gomap \<Rightarrow>
     (unique_volume_name, reconstructedVolume) gomap option" where
  "complete_reconstructed rc st volumesNeedUpdate =
     map_option (\<lambda>volumesNeedUpdate. fold (\<lambda>volumeToMount m. case mget m (vtm_VolumeName volumeToMount) of
            None \<Rightarrow> m
          | Some volume \<Rightarrow> mput (vtm_VolumeName volumeToMount)
              (volume\<lparr>rv_outerVolumeSpecName := vtm_OuterVolumeSpecName volumeToMount\<rparr>) m)
        (kd_GetVolumesToMount (ks_dsw st)) volumesNeedUpdate)
     (case os_GetNode (kr_outside rc) (kr_nodeName rc) (ks_w st) of
        Inl fetchErr \<Rightarrow> Some volumesNeedUpdate
      | Inr None \<Rightarrow> None
      | Inr (Some node) \<Rightarrow>
          Some (fold (\<lambda>attachedVolume m. case mget m (av_Name attachedVolume) of
              None \<Rightarrow> m | Some volume \<Rightarrow> mput (av_Name attachedVolume) (volume\<lparr>rv_devicePath := av_DevicePath attachedVolume\<rparr>) m)
            (node_VolumesAttached node) volumesNeedUpdate))"

text \<open>The body of its last loop.\<close>

definition update_iteration :: "'w k_reconciler \<Rightarrow> reconstructedVolume \<Rightarrow> 'w k_state \<Rightarrow> 'w k_state" where
  "update_iteration rc volume st =
     (case au_MarkVolumeAsAttached ka_attacher (rv_volumeName volume) (rv_volumeSpec volume) '''' (rv_devicePath volume) (ks_asw st) of
        (Some err, asw) \<Rightarrow> st\<lparr>ks_asw := asw\<rparr>
      | (None, asw) \<Rightarrow>
     (case ka_AddPodToVolume (rv_podName volume) (rv_podName volume) (rv_volumeName volume) (rv_mounter volume)
             (rv_outerVolumeSpecName volume) (rv_devicePath volume) asw of
        (Some err, asw) \<Rightarrow> st\<lparr>ks_asw := asw\<rparr>
      | (None, asw) \<Rightarrow>
     (case (if rv_pluginIsAttachable volume then mu_MarkDeviceAsMounted ka_mounter (rv_volumeName volume) asw else (None, asw)) of
        (Some err, asw) \<Rightarrow> st\<lparr>ks_asw := asw\<rparr>
      | (None, asw) \<Rightarrow>
          st\<lparr>ks_asw := asw, ks_dsw := snd (kd_AddPodToVolume (kr_newAttacher rc) (rv_podName volume) (rv_pod volume)
               (rv_volumeSpec volume) (rv_outerVolumeSpecName volume) (rv_volumeGidValue volume) (ks_dsw st))\<rparr>)))"

text \<open>\<open>syncStates\<close> and \<open>sync\<close> without interruption; \<open>None\<close> is the nil node that \<open>updateStates\<close> would read.\<close>

definition kr_syncStates :: "'w k_reconciler \<Rightarrow> 'w k_state \<Rightarrow> 'w k_state option" where
  "kr_syncStates rc st =
     (case getVolumesFromPodDir rc (ks_w st) (kr_kubeletPodsDir rc) of
        Inl err \<Rightarrow> Some st
      | Inr podVolumes \<Rightarrow>
          let volumesNeedUpdate = fold (scan_iteration rc st) podVolumes [] in
          if length volumesNeedUpdate = 0 then Some st
          else map_option (\<lambda>m. fold (\<lambda>(_, volume). update_iteration rc volume) m st)
                 (complete_reconstructed rc st volumesNeedUpdate))"

definition kr_sync :: "'w k_reconciler \<Rightarrow> time \<Rightarrow> 'w k_state \<Rightarrow> 'w k_state option" where
  "kr_sync rc now st = map_option (\<lambda>st. st\<lparr>ks_timeOfLastSync := now\<rparr>) (kr_syncStates rc st)"

definition sync_due :: "'w k_reconciler \<Rightarrow> bool \<Rightarrow> time \<Rightarrow> 'w k_state \<Rightarrow> bool" where
  "sync_due rc allReady now st \<longleftrightarrow> allReady \<and> time_Since now (ks_timeOfLastSync st) > kr_syncDuration rc"

definition reconciliationLoopFunc ::
    "'w k_reconciler \<Rightarrow> (nat \<Rightarrow> unique_volume_name \<Rightarrow> time) \<Rightarrow> bool \<Rightarrow> time \<Rightarrow> time \<Rightarrow> 'w k_state \<Rightarrow> 'w k_state option" where
  "reconciliationLoopFunc rc now allReady t t' st =
     (let st = kr_reconcile rc now st in if sync_due rc allReady t st then kr_sync rc t' st else Some st)"

section \<open>The interleavings\<close>

datatype k_pc = K_Start | K_Unmounting "MountedVolume list" | K_Mounting "VolumeToMount list"
  | K_Devices "KA_AttachedVolume list" | K_AfterPass
  | K_Scanning "podVolume list" "(unique_volume_name, reconstructedVolume) gomap"
  | K_Updating "(unique_volume_name \<times> reconstructedVolume) list"

text \<open>
  The reconciler's own steps, then those of the others: a goroutine finishes, the populator or a status
  report changes the desired state, a pod asks for a remount, the outside world changes.
\<close>

inductive kr_step :: "'w k_reconciler \<Rightarrow> k_pc \<times> 'w k_state \<Rightarrow> k_pc \<times> 'w k_state \<Rightarrow> bool" for rc where
  k_pass: "kr_step rc (K_Start, st) (K_Unmounting (ka_GetMountedVolumes (ks_asw st)), st)"
| k_unmount: "kr_step rc (K_Unmounting (m # ms), st) (K_Unmounting ms, unmount_iteration rc now m st)"
| k_mounting: "kr_step rc (K_Unmounting [], st) (K_Mounting (kd_GetVolumesToMount (ks_dsw st)), st)"
| k_mount: "kr_step rc (K_Mounting (v # vs), st) (K_Mounting vs, mount_iteration rc now v st)"
| k_devices: "kr_step rc (K_Mounting [], st) (K_Devices (ka_GetUnmountedVolumes (ks_asw st)), st)"
| k_device: "kr_step rc (K_Devices (a # as), st) (K_Devices as, unmount_device_iteration rc now a st)"
| k_passed: "kr_step rc (K_Devices [], st) (K_AfterPass, st)"
| k_no_sync: "\<not> sync_due rc ready now st \<Longrightarrow> kr_step rc (K_AfterPass, st) (K_Start, st)"
| k_scanning: "sync_due rc ready now st \<Longrightarrow> getVolumesFromPodDir rc (ks_w st) (kr_kubeletPodsDir rc) = Inr vs \<Longrightarrow>
      kr_step rc (K_AfterPass, st) (K_Scanning vs [], st)"
| k_scan_failed: "sync_due rc ready now st \<Longrightarrow> getVolumesFromPodDir rc (ks_w st) (kr_kubeletPodsDir rc) = Inl err \<Longrightarrow>
      kr_step rc (K_AfterPass, st) (K_Start, st\<lparr>ks_timeOfLastSync := now'\<rparr>)"
| k_scan: "kr_step rc (K_Scanning (v # vs) m, st) (K_Scanning vs (scan_iteration rc st v m), st)"
| k_nothing: "kr_step rc (K_Scanning [] [], st) (K_Updating [], st)"
| k_updating: "m \<noteq> [] \<Longrightarrow> complete_reconstructed rc st m = Some m' \<Longrightarrow> kr_step rc (K_Scanning [] m, st) (K_Updating m', st)"
| k_update: "kr_step rc (K_Updating ((k, rv) # m), st) (K_Updating m, update_iteration rc rv st)"
| k_synced: "kr_step rc (K_Updating [], st) (K_Start, st\<lparr>ks_timeOfLastSync := now\<rparr>)"
| k_finished: "finish (kr_outside rc) (kr_generator rc) ka_attacher ka_mounter now g (ks_oe st) (ks_asw st, ks_w st) =
      Some (err, oe', asw', w') \<Longrightarrow> kr_step rc (p, st) (p, st\<lparr>ks_asw := asw', ks_oe := oe', ks_w := w'\<rparr>)"
| k_desire: "kr_step rc (p, st) (p, st\<lparr>ks_dsw := kd_step (kr_newAttacher rc) c (ks_dsw st)\<rparr>)"
| k_remount: "kr_step rc (p, st) (p, st\<lparr>ks_asw := ka_MarkRemountRequired podName (ks_asw st)\<rparr>)"
| k_outside: "kr_step rc (p, st) (p, st\<lparr>ks_w := w'\<rparr>)"

definition k_init :: "'w k_reconciler \<Rightarrow> 'w \<Rightarrow> 'w k_state" where
  "k_init rc w = \<lparr>ks_asw = ka_NewActualStateOfWorld (kr_nodeName rc) (kr_volumePluginMgr rc),
     ks_dsw = kd_NewDesiredStateOfWorld (kr_volumePluginMgr rc), ks_oe = NewOperationExecutor, ks_w = w, ks_timeOfLastSync = 0\<rparr>"

inductive kr_reach :: "'w k_reconciler \<Rightarrow> 'w \<Rightarrow> k_pc \<times> 'w k_state \<Rightarrow> bool" for rc w where
  k_init: "kr_reach rc w (K_Start, k_init rc w)"
| k_next: "kr_reach rc w s \<Longrightarrow> kr_step rc s s' \<Longrightarrow> kr_reach rc w s'"

inductive_cases kr_stepE: "kr_step rc (p, st) (p', st')"

section \<open>Invariant\<close>

text \<open>The caches only change by calls of their methods.\<close>

definition ka_calls :: "ka_actualStateOfWorld \<Rightarrow> ka_actualStateOfWorld \<Rightarrow> bool" where
  "ka_calls s s' \<longleftrightarrow> (\<exists>cs. s' = fold ka_step cs s)"

definition kd_calls :: "(string \<Rightarrow> error option) \<Rightarrow> kd_desiredStateOfWorld \<Rightarrow> kd_desiredStateOfWorld \<Rightarrow> bool" where
  "kd_calls na s s' \<longleftrightarrow> (\<exists>cs. s' = fold (kd_step na) cs s)"

lemma ka_calls_refl [simp]: "ka_calls s s"
  by (auto simp: ka_calls_def intro: exI [of _ "[]"])

lemma ka_calls_trans: "ka_calls s s' \<Longrightarrow> ka_calls s' s'' \<Longrightarrow> ka_calls s s''"
  unfolding ka_calls_def by (metis comp_apply fold_append)

lemma ka_calls_step: "ka_calls s (ka_step c s)"
  by (auto simp: ka_calls_def intro: exI [of _ "[c]"])

lemma kd_calls_refl [simp]: "kd_calls na s s"
  by (auto simp: kd_calls_def intro: exI [of _ "[]"])

lemma kd_calls_step: "kd_calls na s (kd_step na c s)"
  by (auto simp: kd_calls_def intro: exI [of _ "[c]"])

lemmas ka_calls_methods =
  ka_calls_step [where c = "AddVolume_call v spec dev" for v spec dev, simplified]
  ka_calls_step [where c = "AddPodToVolume_call p u v m outer gid" for p u v m outer gid, simplified]
  ka_calls_step [where c = "MarkRemountRequired_call p" for p, simplified]
  ka_calls_step [where c = "SetVolumeGloballyMounted_call v b" for v b, simplified]
  ka_calls_step [where c = "DeletePodFromVolume_call p v" for p v, simplified]
  ka_calls_step [where c = "DeleteVolume_call v" for v, simplified]

lemma ka_calls_keeps:
  assumes "ka_calls s s'" and "ka_inv s"
  shows "ka_inv s' \<and> ka_volumePluginMgr s' = ka_volumePluginMgr s"
proof -
  have "ka_volumePluginMgr (fold ka_step cs s) = ka_volumePluginMgr s" for cs by (induction cs arbitrary: s) simp_all
  with assms ka_run [OF assms(2)] show ?thesis by (auto simp: ka_calls_def)
qed

lemma kd_calls_keeps:
  assumes "kd_calls na s s'" and "kd_inv s"
  shows "kd_inv s' \<and> kd_volumePluginMgr s' = kd_volumePluginMgr s"
proof -
  have "kd_volumePluginMgr (fold (kd_step na) cs s) = kd_volumePluginMgr s" for cs by (induction cs arbitrary: s) simp_all
  with assms kd_run [OF assms(2)] show ?thesis by (auto simp: kd_calls_def)
qed

lemma ka_calls_results:
  "ka_addVolume v spec dev s = (e, s') \<Longrightarrow> ka_calls s s'"
  "ka_AddPodToVolume p u v m outer gid s = (e, s') \<Longrightarrow> ka_calls s s'"
  "ka_SetVolumeGloballyMounted v b s = (e, s') \<Longrightarrow> ka_calls s s'"
  "ka_DeletePodFromVolume p v s = (e, s') \<Longrightarrow> ka_calls s s'"
  "ka_DeleteVolume v s = (e, s') \<Longrightarrow> ka_calls s s'"
  using ka_calls_methods(1,2,4,5,6) by (metis snd_conv)+

lemma fold_keeps_calls:
  assumes "\<And>x s. ka_calls s (f x s)"
  shows "ka_calls s (fold f xs s)"
  using assms by (induction xs arbitrary: s) (auto intro: ka_calls_trans)

lemma volumesAreAttachedFunc_calls:
  "volumesAreAttachedFunc os og ka_attacher perPlugin specMap n (s, w) = (err, s', w') \<Longrightarrow> ka_calls s s'"
  by (auto simp: volumesAreAttachedFunc_def ka_attacher_def ka_calls_methods split: sum.split option.split
      intro!: fold_keeps_calls)

lemma mountDevice_part_calls:
  "mountDevice_part os ka_mounter attacher vtm timeout (s, w) = (err, s', w') \<Longrightarrow> ka_calls s s'"
  by (auto simp: mountDevice_part_def ka_mounter_def Let_def split: sum.splits option.splits prod.splits
      intro: ka_calls_results)

lemma mountFunc_calls:
  assumes "mountFunc os og ka_mounter plugin attacher vtm timeout fsGroup (s, w) = (err, s', w')"
  shows "ka_calls s s'"
proof -
  obtain e1 s1 w1 where p: "(case attacher of Some a \<Rightarrow> mountDevice_part os ka_mounter a vtm timeout (s, w) | None \<Rightarrow> (None, s, w)) = (e1, s1, w1)"
    by (metis prod_cases3)
  then have "ka_calls s s1" by (auto split: option.splits dest: mountDevice_part_calls)
  moreover have "ka_calls s1 s'"
    using assms p by (auto simp: mountFunc_def ka_mounter_def Let_def split: option.splits prod.splits intro: ka_calls_results)
  ultimately show ?thesis by (rule ka_calls_trans)
qed

lemma run_func_calls:
  assumes "run_func os og ka_attacher ka_mounter f (s, w) = (err, s', w')"
  shows "ka_calls s s'"
proof (cases f)
  case (AttachFunc plugin vta)
  then show ?thesis
    using assms by (auto simp: run_func_def attachFunc_def ka_attacher_def Let_def split: prod.splits sum.splits option.splits
        intro: ka_calls_results)
next
  case (DetachFunc plugin vn vol verify)
  then show ?thesis
    using assms detachFunc_state [of os ka_attacher plugin vn vol verify s w err s' w']
    by (simp add: run_func_def) (simp add: ka_attacher_def ka_calls_methods)
next
  case (VolumesAreAttachedFunc perPlugin specMap n)
  then show ?thesis using assms volumesAreAttachedFunc_calls by (auto simp: run_func_def)
next
  case (MountFunc plugin attacher vtm timeout fsGroup)
  then show ?thesis using assms mountFunc_calls by (auto simp: run_func_def)
next
  case (UnmountFunc plugin mv)
  then show ?thesis
    using assms by (auto simp: run_func_def unmountFunc_def ka_mounter_def ka_calls_methods Let_def split: prod.splits option.splits)
next
  case (UnmountDeviceFunc plugin dev)
  then show ?thesis
    using assms by (auto simp: run_func_def unmountDeviceFunc_def ka_mounter_def Let_def
        split: prod.splits sum.splits option.splits if_splits intro: ka_calls_results)
next
  case (VerifyControllerAttachedFunc vtm n)
  then show ?thesis
    using assms by (auto simp: run_func_def verifyControllerAttachedVolumeFunc_def ka_attacher_def Let_def
        split: prod.splits sum.splits option.splits if_splits intro: ka_calls_results)
qed

lemma update_iteration_calls:
  "ka_calls (ks_asw st) (ks_asw (update_iteration rc rv st)) \<and>
   kd_calls (kr_newAttacher rc) (ks_dsw st) (ks_dsw (update_iteration rc rv st)) \<and> ks_oe (update_iteration rc rv st) = ks_oe st \<and>
   ks_w (update_iteration rc rv st) = ks_w st \<and> ks_timeOfLastSync (update_iteration rc rv st) = ks_timeOfLastSync st"
proof -
  note add = kd_calls_step [of "kr_newAttacher rc" "ks_dsw st" "kd_AddPod_call (rv_podName rv) (rv_pod rv) (rv_volumeSpec rv)
    (rv_outerVolumeSpecName rv) (rv_volumeGidValue rv)", simplified]
  show ?thesis
    by (auto simp: update_iteration_def ka_attacher_def ka_mounter_def add split: prod.split option.split if_splits
        dest!: ka_calls_results intro: ka_calls_trans)
qed

definition k_ok :: "'w k_reconciler \<Rightarrow> 'w k_state \<Rightarrow> bool" where
  "k_ok rc st \<longleftrightarrow> ka_inv (ks_asw st) \<and> kd_inv (ks_dsw st) \<and> oe_inv (ks_oe st) \<and>
     ka_volumePluginMgr (ks_asw st) = kr_volumePluginMgr rc \<and> kd_volumePluginMgr (ks_dsw st) = kr_volumePluginMgr rc"

lemma k_ok_calls:
  assumes "k_ok rc st" and "ka_calls (ks_asw st) (ks_asw st')" and "kd_calls na (ks_dsw st) (ks_dsw st')" and "oe_inv (ks_oe st')"
  shows "k_ok rc st'"
  using assms ka_calls_keeps [OF assms(2)] kd_calls_keeps [OF assms(3)] by (simp add: k_ok_def)

lemma oe_inv_operations:
  assumes "oe_inv oe"
  shows "oe_inv (snd (UnmountVolume os og now mv oe))" "oe_inv (snd (MountVolume os og now d vtm oe))"
    "oe_inv (snd (UnmountDevice os og now dev oe))" "oe_inv (snd (DetachVolume os og now att b oe))"
    "oe_inv (snd (AttachVolume os og now vta oe))" "oe_inv (snd (VerifyControllerAttachedVolume now vtm n oe))"
  by (simp_all add: UnmountVolume_def MountVolume_def UnmountDevice_def DetachVolume_def AttachVolume_def
      VerifyControllerAttachedVolume_def oe_inv_start assms Let_def)

lemma iterations_ok:
  assumes "k_ok rc st"
  shows "k_ok rc (unmount_iteration rc now m st)" "k_ok rc (mount_iteration rc now v st)" "k_ok rc (unmount_device_iteration rc now a st)"
proof -
  have oe: "k_ok rc (st\<lparr>ks_oe := snd (UnmountVolume os og now mv (ks_oe st))\<rparr>)"
      "k_ok rc (st\<lparr>ks_oe := snd (MountVolume os og now d vtm (ks_oe st))\<rparr>)"
      "k_ok rc (st\<lparr>ks_oe := snd (UnmountDevice os og now dev (ks_oe st))\<rparr>)"
      "k_ok rc (st\<lparr>ks_oe := snd (DetachVolume os og now att b (ks_oe st))\<rparr>)"
      "k_ok rc (st\<lparr>ks_oe := snd (AttachVolume os og now vta (ks_oe st))\<rparr>)"
      "k_ok rc (st\<lparr>ks_oe := snd (VerifyControllerAttachedVolume now vtm n (ks_oe st))\<rparr>)"
    for os :: "'a outside" and og now mv d vtm dev att b vta n
    using assms by (simp_all add: k_ok_def oe_inv_operations)
  show "k_ok rc (unmount_iteration rc now m st)" using assms oe(1) by (simp add: unmount_iteration_def)
  show "k_ok rc (mount_iteration rc now v st)" using assms oe(2,5,6) by (simp add: mount_iteration_def split_def Let_def)
  have "k_ok rc (st\<lparr>ks_asw := snd (ka_DeleteVolume x (ks_asw st))\<rparr>)" for x
    using assms k_ok_calls [OF assms, of "st\<lparr>ks_asw := snd (ka_DeleteVolume x (ks_asw st))\<rparr>" "kr_newAttacher rc"]
    by (simp add: ka_calls_methods k_ok_def)
  then show "k_ok rc (unmount_device_iteration rc now a st)" using assms oe(3,4)
    by (simp add: unmount_device_iteration_def ka_attacher_def)
qed

lemma kr_step_ok: "kr_step rc s s' \<Longrightarrow> k_ok rc (snd s) \<Longrightarrow> k_ok rc (snd s')"
proof (induction rule: kr_step.induct)
  case (k_finished now g st err oe' asw' w' p)
  then have "ka_calls (ks_asw st) asw'" using finish_facts(4) run_func_calls by metis
  with k_finished oe_inv_finish [OF _ k_finished(1)] show ?case
    using ka_calls_keeps [of "ks_asw st" asw'] by (simp add: k_ok_def)
next
  case (k_update k rv m st)
  have "oe_inv (ks_oe (update_iteration rc rv st))" using k_update by (simp add: update_iteration_calls k_ok_def)
  then show ?case using k_ok_calls [of rc st "update_iteration rc rv st"] update_iteration_calls [of st rc rv] k_update by auto
next
  case (k_desire p st c)
  then show ?case using kd_calls_keeps [OF kd_calls_step, of "ks_dsw st"] by (simp add: k_ok_def)
next
  case (k_remount p st podName)
  then show ?case using ka_calls_keeps [OF ka_calls_methods(3), of "ks_asw st"] by (simp add: k_ok_def)
qed (simp_all add: iterations_ok, simp_all add: k_ok_def)

lemma kr_reach_ok: "kr_reach rc w s \<Longrightarrow> k_ok rc (snd s)"
proof (induction rule: kr_reach.induct)
  case k_init
  then show ?case by (simp add: k_ok_def k_init_def ka_inv_new kd_new oe_inv_new) (simp add: ka_NewActualStateOfWorld_def)
qed (rule kr_step_ok)

section \<open>Which operations a pass starts\<close>

text \<open>What justifies an operation when it starts; \<open>p\<close> is the position of the reconciler before the step.\<close>

definition start_allowed :: "'w k_reconciler \<Rightarrow> k_pc \<Rightarrow> 'w k_state \<Rightarrow> op_id \<times> opfunc \<Rightarrow> bool" where
  "start_allowed rc p st g \<longleftrightarrow>
     (case snd g of
        UnmountFunc _ mv \<Rightarrow> fst g = (mtv_VolumeName mv, mtv_PodUID mv) \<and> (\<exists>ms. p = K_Unmounting (mv # ms)) \<and>
          \<not> kd_PodExistsInVolume (ks_dsw st) (mtv_PodName mv) (mtv_VolumeName mv)
      | MountFunc _ _ vtm _ _ \<Rightarrow>
          fst g = (vtm_VolumeName vtm, if vtm_PluginIsAttachable vtm then '''' else pod_UID (vtm_Pod vtm)) \<and>
          (\<exists>v vs. p = K_Mounting (v # vs) \<and> vtm = v\<lparr>vtm_DevicePath := vtm_DevicePath vtm\<rparr>) \<and>
          (\<exists>o'. mget (ka_attachedVolumes (ks_asw st)) (vtm_VolumeName vtm) = Some o' \<and> vtm_DevicePath vtm = kav_devicePath o') \<and>
          (ka_mounted (ks_asw st) (vtm_PodName vtm) (vtm_VolumeName vtm) \<longrightarrow>
             IsRemountRequiredError (snd (snd (ka_PodExistsInVolume (ks_asw st) (vtm_PodName vtm) (vtm_VolumeName vtm)))))
      | VerifyControllerAttachedFunc vtm n \<Rightarrow> fst g = (vtm_VolumeName vtm, '''') \<and> n = kr_nodeName rc \<and>
          (\<exists>v vs. p = K_Mounting (v # vs) \<and> vtm = v\<lparr>vtm_DevicePath := vtm_DevicePath vtm\<rparr>) \<and>
          \<not> ka_VolumeExists (ks_asw st) (vtm_VolumeName vtm) \<and> (kr_controllerAttachDetachEnabled rc \<or> \<not> vtm_PluginIsAttachable vtm)
      | AttachFunc _ vta \<Rightarrow> fst g = (vtoa_VolumeName vta, '''') \<and> \<not> kr_controllerAttachDetachEnabled rc \<and>
          vtoa_NodeName vta = kr_nodeName rc \<and> (\<exists>v vs. p = K_Mounting (v # vs) \<and> vtm_VolumeName v = vtoa_VolumeName vta \<and> vtm_PluginIsAttachable v) \<and>
          \<not> ka_VolumeExists (ks_asw st) (vtoa_VolumeName vta)
      | UnmountDeviceFunc _ dev \<Rightarrow> fst g = (atv_VolumeName dev, '''') \<and> \<not> kd_VolumeExists (ks_dsw st) (atv_VolumeName dev) \<and>
          (\<exists>a as. p = K_Devices (a # as) \<and> atv_GloballyMounted a \<and> dev = AttachedVolume.truncate a)
      | DetachFunc _ _ vol verify \<Rightarrow> fst g = (atv_VolumeName vol, '''') \<and> \<not> kr_controllerAttachDetachEnabled rc \<and>
          \<not> kd_VolumeExists (ks_dsw st) (atv_VolumeName vol) \<and> \<not> verify \<and>
          (\<exists>a as. p = K_Devices (a # as) \<and> \<not> atv_GloballyMounted a \<and> atv_PluginIsAttachable a \<and> vol = AttachedVolume.truncate a)
      | VolumesAreAttachedFunc _ _ _ \<Rightarrow> False)"

lemma oe_start_new:
  "g \<in> set (oe_goroutines (snd (oe_start now k gen oe))) \<Longrightarrow> g \<notin> set (oe_goroutines oe) \<Longrightarrow> fst g = k \<and> gen = Inr (snd g)"
  by (auto simp: oe_start_def oe_Run_def split: sum.splits prod.splits option.splits)

lemma generated_funcs:
  "GenerateUnmountVolumeFunc os og mv = Inr f \<Longrightarrow> \<exists>plugin. f = UnmountFunc plugin mv"
  "GenerateMountVolumeFunc os og d vtm = Inr f \<Longrightarrow> \<exists>plugin att fs. f = MountFunc plugin att vtm d fs"
  "GenerateUnmountDeviceFunc os og dev = Inr f \<Longrightarrow> \<exists>plugin. f = UnmountDeviceFunc plugin dev"
  "GenerateDetachVolumeFunc os og vol b = Inr f \<Longrightarrow> \<exists>plugin vn. f = DetachFunc plugin vn vol b"
  "GenerateAttachVolumeFunc os og vta = Inr f \<Longrightarrow> \<exists>plugin. f = AttachFunc plugin vta"
  "GenerateVerifyControllerAttachedVolumeFunc vtm n = Inr f \<Longrightarrow> f = VerifyControllerAttachedFunc vtm n"
  by (auto simp: GenerateVerifyControllerAttachedVolumeFunc_def GenerateUnmountVolumeFunc_def GenerateMountVolumeFunc_def GenerateUnmountDeviceFunc_def
      GenerateDetachVolumeFunc_def GenerateAttachVolumeFunc_def Let_def split: sum.splits option.splits)

lemma unmount_iteration_starts:
  assumes "g \<in> set (oe_goroutines (ks_oe (unmount_iteration rc now m st)))" and "g \<notin> set (oe_goroutines (ks_oe st))"
  shows "start_allowed rc (K_Unmounting (m # ms)) st g"
  using assms by (auto simp: unmount_iteration_def UnmountVolume_def start_allowed_def split: if_splits
      dest!: oe_start_new generated_funcs)

lemma mount_iteration_starts:
  assumes "g \<in> set (oe_goroutines (ks_oe (mount_iteration rc now v st)))" and "g \<notin> set (oe_goroutines (ks_oe st))"
  shows "start_allowed rc (K_Mounting (v # vs)) st g"
proof (cases "mget (ka_attachedVolumes (ks_asw st)) (vtm_VolumeName v)")
  case None
  then show ?thesis
    using assms by (auto simp: mount_iteration_def ka_PodExistsInVolume_def IsVolumeNotAttachedError_def AttachVolume_def
        VerifyControllerAttachedVolume_def start_allowed_def ka_VolumeExists_def
        mhas_def Let_def split: if_splits dest!: oe_start_new generated_funcs)
next
  case (Some o')
  define r where "r = ka_PodExistsInVolume (ks_asw st) (vtm_PodName v) (vtm_VolumeName v)"
  have r: "\<not> IsVolumeNotAttachedError (snd (snd r))" "fst (snd r) = kav_devicePath o'"
      "fst r \<longleftrightarrow> ka_mounted (ks_asw st) (vtm_PodName v) (vtm_VolumeName v)"
    by (auto simp: r_def ka_PodExistsInVolume_def Some IsVolumeNotAttachedError_def ka_mounted_def mhas_def split: option.splits)
  have "mount_iteration rc now v st = (if \<not> fst r \<or> IsRemountRequiredError (snd (snd r))
      then st\<lparr>ks_oe := snd (MountVolume (kr_outside rc) (kr_generator rc) now (kr_waitForAttachTimeout rc)
        (v\<lparr>vtm_DevicePath := kav_devicePath o'\<rparr>) (ks_oe st))\<rparr> else st)"
    using r(1,2) by (simp add: mount_iteration_def r_def [symmetric] split_def Let_def)
  then show ?thesis
    using assms r(3) Some by (auto simp: MountVolume_def start_allowed_def r_def [symmetric] Let_def split: if_splits
        dest!: oe_start_new generated_funcs)
qed

lemma unmount_device_iteration_starts:
  assumes "g \<in> set (oe_goroutines (ks_oe (unmount_device_iteration rc now a st)))" and "g \<notin> set (oe_goroutines (ks_oe st))"
  shows "start_allowed rc (K_Devices (a # as)) st g"
  using assms by (auto simp: unmount_device_iteration_def UnmountDevice_def DetachVolume_def start_allowed_def
      AttachedVolume.truncate_def split: if_splits dest!: oe_start_new generated_funcs)

lemma kr_step_starts:
  assumes "kr_step rc (p, st) (p', st')" and "g \<in> set (oe_goroutines (ks_oe st'))" and "g \<notin> set (oe_goroutines (ks_oe st))"
  shows "start_allowed rc p st g"
  using assms
proof (cases rule: kr_step.cases)
  case (k_finished now g' err oe' asw' w')
  then have "oe_goroutines oe' = remove1 g' (oe_goroutines (ks_oe st))" using finish_facts(3) by metis
  then show ?thesis using k_finished assms(2,3) notin_set_remove1 by force
qed (auto simp: update_iteration_calls dest: unmount_iteration_starts mount_iteration_starts unmount_device_iteration_starts)

section \<open>Executing the interleavings\<close>

text \<open>A schedule as data, so that concrete runs are computed: the reconciler advances, the last goroutine finishes, and so on.\<close>

datatype k_event = KE_Own bool time | KE_Finish time | KE_Desire kd_call | KE_Remount unique_pod_name

fun k_own :: "'w k_reconciler \<Rightarrow> bool \<Rightarrow> time \<Rightarrow> k_pc \<times> 'w k_state \<Rightarrow> (k_pc \<times> 'w k_state) option" where
  "k_own rc ready now (K_Start, st) = Some (K_Unmounting (ka_GetMountedVolumes (ks_asw st)), st)"
| "k_own rc ready now (K_Unmounting (m # ms), st) = Some (K_Unmounting ms, unmount_iteration rc now m st)"
| "k_own rc ready now (K_Unmounting [], st) = Some (K_Mounting (kd_GetVolumesToMount (ks_dsw st)), st)"
| "k_own rc ready now (K_Mounting (v # vs), st) = Some (K_Mounting vs, mount_iteration rc now v st)"
| "k_own rc ready now (K_Mounting [], st) = Some (K_Devices (ka_GetUnmountedVolumes (ks_asw st)), st)"
| "k_own rc ready now (K_Devices (a # as), st) = Some (K_Devices as, unmount_device_iteration rc now a st)"
| "k_own rc ready now (K_Devices [], st) = Some (K_AfterPass, st)"
| "k_own rc ready now (K_AfterPass, st) =
     (if sync_due rc ready now st then
        (case getVolumesFromPodDir rc (ks_w st) (kr_kubeletPodsDir rc) of
           Inr vs \<Rightarrow> Some (K_Scanning vs [], st) | Inl err \<Rightarrow> Some (K_Start, st\<lparr>ks_timeOfLastSync := now\<rparr>))
      else Some (K_Start, st))"
| "k_own rc ready now (K_Scanning (v # vs) m, st) = Some (K_Scanning vs (scan_iteration rc st v m), st)"
| "k_own rc ready now (K_Scanning [] m, st) =
     (if m = [] then Some (K_Updating [], st) else map_option (\<lambda>m'. (K_Updating m', st)) (complete_reconstructed rc st m))"
| "k_own rc ready now (K_Updating ((k, rv) # m), st) = Some (K_Updating m, update_iteration rc rv st)"
| "k_own rc ready now (K_Updating [], st) = Some (K_Start, st\<lparr>ks_timeOfLastSync := now\<rparr>)"

fun k_exec :: "'w k_reconciler \<Rightarrow> k_event \<Rightarrow> k_pc \<times> 'w k_state \<Rightarrow> (k_pc \<times> 'w k_state) option" where
  "k_exec rc (KE_Own ready now) s = k_own rc ready now s"
| "k_exec rc (KE_Finish now) (p, st) =
     map_option (\<lambda>(err, oe', asw', w'). (p, st\<lparr>ks_asw := asw', ks_oe := oe', ks_w := w'\<rparr>))
       (finish_last (kr_outside rc) (kr_generator rc) ka_attacher ka_mounter now (ks_oe st) (ks_asw st, ks_w st))"
| "k_exec rc (KE_Desire c) (p, st) = Some (p, st\<lparr>ks_dsw := kd_step (kr_newAttacher rc) c (ks_dsw st)\<rparr>)"
| "k_exec rc (KE_Remount podName) (p, st) = Some (p, st\<lparr>ks_asw := ka_MarkRemountRequired podName (ks_asw st)\<rparr>)"

fun k_run :: "'w k_reconciler \<Rightarrow> k_event list \<Rightarrow> k_pc \<times> 'w k_state \<Rightarrow> (k_pc \<times> 'w k_state) option" where
  "k_run rc [] s = Some s"
| "k_run rc (e # es) s = (case k_exec rc e s of None \<Rightarrow> None | Some s' \<Rightarrow> k_run rc es s')"

lemma k_own_step: "k_own rc ready now s = Some s' \<Longrightarrow> kr_step rc s s'"
  by (induction rc ready now s rule: k_own.induct) (auto split: if_splits sum.splits intro: kr_step.intros)

lemma k_exec_step:
  assumes "k_exec rc e s = Some s'"
  shows "kr_step rc s s'"
proof (cases e)
  case (KE_Own ready now)
  then show ?thesis using assms k_own_step by (cases s) simp
next
  case (KE_Finish now)
  then show ?thesis using assms by (cases s) (auto dest!: finish_last_finish intro: kr_step.k_finished)
next
  case (KE_Desire c)
  then show ?thesis using assms kr_step.k_desire by (cases s) auto
next
  case (KE_Remount p)
  then show ?thesis using assms kr_step.k_remount by (cases s) auto
qed

lemma k_run_reach: "k_run rc es s = Some s' \<Longrightarrow> kr_reach rc w s \<Longrightarrow> kr_reach rc w s'"
proof (induction es arbitrary: s)
  case (Cons e es)
  then obtain s1 where "k_exec rc e s = Some s1" "k_run rc es s1 = Some s'" by (auto split: option.splits)
  with Cons k_exec_step kr_reach.k_next show ?case by metis
qed simp

definition k_after :: "'w k_reconciler \<Rightarrow> k_event list \<Rightarrow> k_pc \<times> 'w k_state \<Rightarrow> k_pc \<times> 'w k_state" where
  "k_after rc es s = (case k_run rc es s of Some s' \<Rightarrow> s' | None \<Rightarrow> s)"

lemma k_after_reach: "kr_reach rc w s \<Longrightarrow> kr_reach rc w (k_after rc es s)"
  by (auto simp: k_after_def split: option.split intro: k_run_reach)

lemma k_after_exec: "\<not> Option.is_none (k_exec rc e s) \<Longrightarrow> kr_step rc s (k_after rc [e] s)"
  by (cases "k_exec rc e s") (auto simp: k_after_def dest: k_exec_step)

text \<open>A node whose status says that \<open>p/v\<close> is attached, and whose world is whether its device is mounted;
  \<open>setUp\<close> is the result of the mount into a pod.\<close>

definition sample_node :: "error option \<Rightarrow> bool outside" where
  "sample_node setUp = \<lparr>os_NewAttacher = (\<lambda>_. None), os_NewDetacher = (\<lambda>_. None), os_NewMounter = (\<lambda>_ _ _. None),
     os_NewUnmounter = (\<lambda>_ _ _. None), os_Attach = (\<lambda>_ _ _ w. (Inr ''dev'', w)), os_Detach = (\<lambda>_ _ _ w. (None, w)),
     os_VolumesAreAttached = (\<lambda>_ specs _ _. Inr (map (\<lambda>s. (s, True)) specs)),
     os_WaitForAttach = (\<lambda>_ _ d _ w. (Inr d, w)), os_GetDeviceMountPath = (\<lambda>_ _. Inr ''/mnt''),
     os_MountDevice = (\<lambda>_ _ _ _ w. (None, True)), os_GetDeviceMountRefs = (\<lambda>_ _ _. Inr []),
     os_UnmountDevice = (\<lambda>_ _ w. (None, False)), os_CanMount = (\<lambda>_ _. None), os_SetUp = (\<lambda>_ _ w. (setUp, w)),
     os_TearDown = (\<lambda>_ _ _ w. (None, w)), os_PathIsDevice = (\<lambda>_ _. (False, None)), os_DeviceOpened = (\<lambda>_ _. (False, None)),
     os_GetNode = (\<lambda>n _. Inr (Some \<lparr>node_Name = n, node_Annotations = [],
        node_VolumesAttached = [\<lparr>av_Name = ''p/v'', av_DevicePath = ''/dev/x''\<rparr>], node_VolumesInUse = []\<rparr>)),
     os_Eventf = (\<lambda>_ _ w. w)\<rparr>"

definition sample_krc :: "error option \<Rightarrow> bool k_reconciler" where
  "sample_krc setUp = \<lparr>kr_controllerAttachDetachEnabled = True, kr_syncDuration = 10, kr_waitForAttachTimeout = 5, kr_nodeName = ''n'',
     kr_volumePluginMgr = [(''p'', sample_plugin ''p'')], kr_kubeletPodsDir = ''/pods'', kr_outside = sample_node setUp,
     kr_generator = \<lparr>og_volumePluginMgr = [(''p'', sample_plugin ''p'')], og_checkNodeCapabilitiesBeforeMount = False\<rparr>,
     kr_ReadDir = (\<lambda>d _. if d = ''/pods'' then Inr [(''u'', True)]
        else if d = ''/pods/u/volumes'' then Inr [(''p'', True)] else Inl (ErrNotExist d)),
     kr_ReadDirNoStat = (\<lambda>d _. if d = ''/pods/u/volumes/p'' then Inr [''v''] else Inl (ErrNotExist d)),
     kr_ConstructVolumeSpec = (\<lambda>_ _ _. Inr sample_spec)\<rparr>"

definition sample_kpod :: v1_Pod where
  "sample_kpod = \<lparr>pod_Name = ''web'', pod_Namespace = ''default'', pod_UID = ''u'', pod_NodeName = ''n'',
     pod_Volumes = [], pod_FSGroup = None, pod_SupplementalGroups = [], pod_Phase = PodRunning\<rparr>"

text \<open>The pod wants the volume, the volume is reported in use and verified, and the next pass is about to mount it.\<close>

definition sample_wanting :: "k_event list" where
  "sample_wanting = [KE_Desire (kd_AddPod_call ''u'' sample_kpod sample_spec ''v'' ''''), KE_Desire (kd_MarkReported_call [''p/v'']),
     KE_Own False 1, KE_Own False 1, KE_Own False 1, KE_Finish 2] @ replicate 6 (KE_Own False 3)"

section \<open>Properties\<close>


definition sample_before_mount :: "k_pc \<times> bool k_state" where
  "sample_before_mount = k_after (sample_krc None) sample_wanting (K_Start, k_init (sample_krc None) False)"

definition sample_mounting :: "k_pc \<times> bool k_state" where
  "sample_mounting = k_after (sample_krc None) [KE_Own False 3] sample_before_mount"

lemma sample_mounting_reach:
  "kr_reach (sample_krc None) False sample_before_mount" "kr_reach (sample_krc None) False sample_mounting"
  unfolding sample_before_mount_def sample_mounting_def by (intro k_after_reach kr_reach.k_init)+

lemma sample_mounting_goroutine:
  obtains g plugin att vtm d fs where "oe_goroutines (ks_oe (snd sample_mounting)) = [g]"
    and "snd g = MountFunc plugin att vtm d fs" and "vtm_VolumeName vtm = ''p/v''" and "vtm_PodName vtm = ''u''" and "att \<noteq> None"
proof -
  have "map (\<lambda>g. case snd g of MountFunc _ att vtm _ _ \<Rightarrow> (vtm_VolumeName vtm, vtm_PodName vtm, \<not> Option.is_none att)
      | _ \<Rightarrow> ('''', '''', False)) (oe_goroutines (ks_oe (snd sample_mounting))) = [(''p/v'', ''u'', True)]"
    by code_simp
  then show ?thesis using that by (auto split: opfunc.splits simp: Option.is_none_def)
qed


lemma volume_calls_mounted:
  assumes "ka_inv s"
  shows "ka_addVolume v spec dev s = (e, s') \<Longrightarrow> ka_inv s' \<and> ka_mounted s' = ka_mounted s"
    and "ka_inv (snd (ka_DeleteVolume v s)) \<and> ka_mounted (snd (ka_DeleteVolume v s)) = ka_mounted s"
  using ka_step_sets(1,3) [OF assms, of "AddVolume_call v spec dev"] ka_step_sets(1,3) [OF assms, of "DeleteVolume_call v"]
  by (auto simp: fun_eq_iff split: if_splits sum.splits prod.splits)

lemma fold_mounted:
  assumes "\<And>x s. ka_inv s \<Longrightarrow> ka_inv (f x s) \<and> ka_mounted (f x s) = ka_mounted s"
  shows "ka_inv s \<Longrightarrow> ka_inv (fold f xs s) \<and> ka_mounted (fold f xs s) = ka_mounted s"
  using assms by (induction xs arbitrary: s) auto

lemma detach_fold_mounted:
  assumes "ka_inv s"
  shows "ka_inv (fold (\<lambda>(spec, check) s. if \<not> check then au_MarkVolumeAsDetached ka_attacher (V spec) n s else s) xs s) \<and>
    ka_mounted (fold (\<lambda>(spec, check) s. if \<not> check then au_MarkVolumeAsDetached ka_attacher (V spec) n s else s) xs s) = ka_mounted s"
  by (rule fold_mounted [OF _ assms]) (auto simp: ka_attacher_def volume_calls_mounted(2))

text \<open>Attaching, detaching and verifying do not touch the pods.\<close>

lemma attach_funcs_mounted:
  assumes "run_func os og ka_attacher ka_mounter f (s, w) = (err, s', w')" and "ka_inv s"
    and "case f of MountFunc _ _ _ _ _ \<Rightarrow> False | UnmountFunc _ _ \<Rightarrow> False | UnmountDeviceFunc _ _ \<Rightarrow> False | _ \<Rightarrow> True"
  shows "ka_mounted s' = ka_mounted s"
proof (cases f)
  case (VolumesAreAttachedFunc perPlugin specMap n)
  then have "s' = fst (snd (volumesAreAttachedFunc os og ka_attacher perPlugin specMap n (s, w)))" using assms(1) by (simp add: run_func_def)
  moreover have "ka_inv (fst (snd (volumesAreAttachedFunc os og ka_attacher perPlugin specMap n (s, w)))) \<and>
      ka_mounted (fst (snd (volumesAreAttachedFunc os og ka_attacher perPlugin specMap n (s, w)))) = ka_mounted s"
    using assms(2) unfolding volumesAreAttachedFunc_def Let_def prod.case fst_conv snd_conv
    by (rule fold_mounted [rotated])
      (auto simp: detach_fold_mounted split: sum.split option.split)
  ultimately show ?thesis by simp
next
  case (DetachFunc plugin vn vol verify)
  then show ?thesis
    using assms(1) detachFunc_state [of os ka_attacher plugin vn vol verify s w err s' w'] volume_calls_mounted(2) [OF assms(2)]
    by (simp add: run_func_def) (simp add: ka_attacher_def)
next
  case (AttachFunc plugin vta)
  then show ?thesis
    using assms(1) volume_calls_mounted(1) [OF assms(2)]
    by (auto simp: run_func_def attachFunc_def ka_attacher_def Let_def split: prod.splits sum.splits option.splits)
next
  case (VerifyControllerAttachedFunc vtm n)
  then show ?thesis
    using assms(1) volume_calls_mounted(1) [OF assms(2)]
    by (auto simp: run_func_def verifyControllerAttachedVolumeFunc_def ka_attacher_def Let_def
        split: prod.splits sum.splits option.splits if_splits)
qed (use assms(3) in auto)

text \<open>What a finished operation leaves in the cache of the kubelet. A mount without error records the pod
  and, for an attachable volume, the device; with an error no pod is added. An unmount without error
  removes exactly its pod. The device is recorded as unmounted only if no mount reference outside its
  own path was left and the plugin unmounted it. No operation touches the pods of other volumes, and
  attaching, detaching and verifying touch no pods at all.\<close>

theorem kubelet_operation_outcome:
  assumes "kr_reach rc w (p, st)"
    and "finish (kr_outside rc) (kr_generator rc) ka_attacher ka_mounter now g (ks_oe st) (ks_asw st, ks_w st) = Some (err, oe', asw', w')"
  shows "case snd g of
      MountFunc _ attacher vtm _ _ \<Rightarrow>
        (\<forall>q x. ka_mounted asw' q x \<longleftrightarrow> ka_mounted (ks_asw st) q x \<or> err = None \<and> (q, x) = (vtm_PodName vtm, vtm_VolumeName vtm)) \<and>
        (\<forall>x. ka_device (ks_asw st) x \<longrightarrow> ka_device asw' x) \<and> (\<forall>x. ka_device asw' x \<longrightarrow> ka_device (ks_asw st) x \<or> x = vtm_VolumeName vtm) \<and>
        (err = None \<and> attacher \<noteq> None \<longrightarrow> ka_device asw' (vtm_VolumeName vtm))
    | UnmountFunc _ mv \<Rightarrow> ka_device asw' = ka_device (ks_asw st) \<and>
        (\<forall>q x. ka_mounted asw' q x \<longleftrightarrow> ka_mounted (ks_asw st) q x \<and> (err \<noteq> None \<or> (q, x) \<noteq> (mtv_PodName mv, mtv_VolumeName mv)))
    | UnmountDeviceFunc plugin dev \<Rightarrow> ka_mounted asw' = ka_mounted (ks_asw st) \<and>
        (\<forall>x. x \<noteq> atv_VolumeName dev \<longrightarrow> ka_device asw' x = ka_device (ks_asw st) x) \<and>
        (err = None \<longrightarrow> \<not> ka_device asw' (atv_VolumeName dev) \<and>
           (\<exists>path refs w1. os_GetDeviceMountPath (kr_outside rc) (pl_GetPluginName plugin) (atv_VolumeSpec dev) = Inr path \<and>
              os_GetDeviceMountRefs (kr_outside rc) (pl_GetPluginName plugin) path (ks_w st) = Inr refs \<and>
              (\<forall>r \<in> set refs. strings_Contains r path) \<and>
              os_UnmountDevice (kr_outside rc) (pl_GetPluginName plugin) path (ks_w st) = (None, w1)))
    | _ \<Rightarrow> ka_mounted asw' = ka_mounted (ks_asw st)"
proof -
  have i: "ka_inv (ks_asw st)" using kr_reach_ok [OF assms(1)] by (simp add: k_ok_def)
  have r: "run_func (kr_outside rc) (kr_generator rc) ka_attacher ka_mounter (snd g) (ks_asw st, ks_w st) = (err, asw', w')"
    by (rule finish_facts(4) [OF assms(2)])
  show ?thesis
  proof (cases "snd g")
    case (MountFunc plugin attacher vtm timeout fsGroup)
    with r have "mountFunc (kr_outside rc) (kr_generator rc) ka_mounter plugin attacher vtm timeout fsGroup (ks_asw st, ks_w st) = (err, asw', w')"
      by (simp add: run_func_def)
    from kmu.mountFunc_state [OF i this] show ?thesis unfolding MountFunc opfunc.case by (elim conjE) (intro conjI)
  next
    case (UnmountFunc plugin mv)
    with r have "unmountFunc (kr_outside rc) ka_mounter plugin mv (ks_asw st, ks_w st) = (err, asw', w')" by (simp add: run_func_def)
    from kmu.unmountFunc_state [OF i this] show ?thesis unfolding UnmountFunc opfunc.case by (elim conjE) (intro conjI)
  next
    case (UnmountDeviceFunc plugin dev)
    with r have "unmountDeviceFunc (kr_outside rc) ka_mounter plugin dev (ks_asw st, ks_w st) = (err, asw', w')" by (simp add: run_func_def)
    note u = kmu.unmountDeviceFunc_state [OF i this]
    then have "\<forall>x. x \<noteq> atv_VolumeName dev \<longrightarrow> ka_device asw' x = ka_device (ks_asw st) x" by metis
    with u show ?thesis unfolding UnmountDeviceFunc opfunc.case by (elim conjE) (intro conjI)
  qed (use attach_funcs_mounted [OF r i] in simp_all)
qed

theorem kubelet_operation_outcome_witness:
  "\<not> ka_mounted (ks_asw (snd sample_mounting)) ''u'' ''p/v'' \<and>
   ka_mounted (ks_asw (snd (k_after (sample_krc None) [KE_Finish 4] sample_mounting))) ''u'' ''p/v''"
proof -
  let ?rc = "sample_krc None"
  obtain g plugin att vtm d fs where g: "oe_goroutines (ks_oe (snd sample_mounting)) = [g]"
    and f: "snd g = MountFunc plugin att vtm d fs" "vtm_VolumeName vtm = ''p/v''" "vtm_PodName vtm = ''u''"
    by (rule sample_mounting_goroutine)
  have no: "\<not> ka_mounted (ks_asw (snd sample_mounting)) ''u'' ''p/v''"
  proof -
    have "\<not> fst (ka_PodExistsInVolume (ks_asw (snd sample_mounting)) ''u'' ''p/v'')" by code_simp
    then show ?thesis by (auto simp: ka_PodExistsInVolume_def ka_mounted_def mhas_def split: option.splits if_splits)
  qed
  have "map_option fst (finish_last (kr_outside ?rc) (kr_generator ?rc) ka_attacher ka_mounter 4 (ks_oe (snd sample_mounting))
      (ks_asw (snd sample_mounting), ks_w (snd sample_mounting))) = Some None" by code_simp
  then obtain oe' asw' w' where fin: "finish_last (kr_outside ?rc) (kr_generator ?rc) ka_attacher ka_mounter 4 (ks_oe (snd sample_mounting))
      (ks_asw (snd sample_mounting), ks_w (snd sample_mounting)) = Some (None, oe', asw', w')" by auto
  then have "k_exec ?rc (KE_Finish 4) (fst sample_mounting, snd sample_mounting) =
      Some (fst sample_mounting, (snd sample_mounting)\<lparr>ks_asw := asw', ks_oe := oe', ks_w := w'\<rparr>)"
    by (simp only: k_exec.simps) simp
  then have "ks_asw (snd (k_after ?rc [KE_Finish 4] sample_mounting)) = asw'" by (simp add: k_after_def)
  moreover have "finish (kr_outside ?rc) (kr_generator ?rc) ka_attacher ka_mounter 4 g (ks_oe (snd sample_mounting))
      (ks_asw (snd sample_mounting), ks_w (snd sample_mounting)) = Some (None, oe', asw', w')"
    using finish_last_finish [OF fin] g by simp
  ultimately show ?thesis
    using no kubelet_operation_outcome [of ?rc False "fst sample_mounting" "snd sample_mounting" 4 g] sample_mounting_reach(2) f by simp
qed


end
