(* ===== verification/Kubelet_Reconstruction.thy ===== *)
theory Kubelet_Reconstruction
  imports Kubelet_Reconciler
begin

text \<open>
  What the reconstruction of volumes from the pod directories (\<open>syncStates\<close> of the kubelet's
  reconciler) finds on disk and puts back into the caches.
\<close>

section \<open>Reading the directories\<close>

lemma no_tilde_chars: "\<not> qname_ext_char (CHR ''~'')" "\<not> dns_char (CHR ''~'')"
  by code_simp+

lemma concat_map_mem: "x \<in> set xs \<Longrightarrow> set (f x) \<subseteq> set (concat (map f xs))"
  by auto

lemma qualified_no_tilde:
  assumes "IsQualifiedName n = []"
  shows "CHR ''~'' \<notin> set n"
proof -
  have name: "CHR ''~'' \<notin> set s" if "qualifiedName_name s = []" for s
  proof -
    have "list_all qname_ext_char s" using that by (simp add: qualifiedName_name_def qualifiedNameRegexp_def split: if_splits)
    then show ?thesis using no_tilde_chars(1) by (auto simp: list_all_iff)
  qed
  have label: "CHR ''~'' \<notin> set l" if "dns1123LabelRegexp l" for l
    using that no_tilde_chars(2) by (auto simp: dns1123LabelRegexp_def list_all_iff)
  have pre: "CHR ''~'' \<notin> set s" if "IsDNS1123Subdomain s = []" for s
  proof -
    have "\<forall>l \<in> set (strings_Split s (CHR ''.'')). dns1123LabelRegexp l"
      using that by (simp add: IsDNS1123Subdomain_def dns1123SubdomainRegexp_def list_all_iff split: if_splits)
    then have "CHR ''~'' \<notin> \<Union> (set ` set (strings_Split s (CHR ''.'')))" using label by blast
    then show ?thesis using set_strings_Join [of "strings_Split s (CHR ''.'')" "''.''"] unfolding strings_Join_Split by auto
  qed
  consider n' where "strings_Split n (CHR ''/'') = [n']" "qualifiedName_name n' = []"
    | p n' where "strings_Split n (CHR ''/'') = [p, n']" "IsDNS1123Subdomain p = []" "qualifiedName_name n' = []"
    using assms by (auto simp: IsQualifiedName_def split: list.splits if_splits)
  then have "CHR ''~'' \<notin> \<Union> (set ` set (strings_Split n (CHR ''/'')))" by cases (use name pre in auto)
  then show ?thesis using set_strings_Join [of "strings_Split n (CHR ''/'')" "''/''"] unfolding strings_Join_Split by auto
qed

lemma Unescape_Escape: "CHR ''~'' \<notin> set n \<Longrightarrow> UnescapeQualifiedNameForDisk (EscapeQualifiedNameForDisk n) = n"
  by (induction n) (auto simp: UnescapeQualifiedNameForDisk_def EscapeQualifiedNameForDisk_def)

text \<open>A volume directory that a plugin with a qualified name laid out under
  \<open><pods>/<pod>/volumes/<escaped plugin name>/<volume>\<close> is found when the pod directories are read,
  with the pod, the volume, its path and the original name of the plugin.\<close>

theorem pod_volume_found_on_disk:
  assumes "IsQualifiedName plugin = []"
    and "kr_ReadDir rc podsDir w = Inr pods" and "(podName, True) \<in> set pods"
    and "kr_ReadDir rc (path_Join [path_Join [podsDir, podName], ''volumes'']) w = Inr plugins"
    and "(EscapeQualifiedNameForDisk plugin, d) \<in> set plugins"
    and "kr_ReadDirNoStat rc (path_Join [path_Join [path_Join [podsDir, podName], ''volumes''], EscapeQualifiedNameForDisk plugin]) w = Inr vols"
    and "vol \<in> set vols"
  shows "\<exists>vs. getVolumesFromPodDir rc w podsDir = Inr vs \<and>
    \<lparr>pvo_podName = podName, pvo_volumeSpecName = vol,
     pvo_mountPath = path_Join [path_Join [path_Join [path_Join [podsDir, podName], ''volumes''], EscapeQualifiedNameForDisk plugin], vol],
     pvo_pluginName = plugin\<rparr> \<in> set vs"
proof -
  define dir where "dir = path_Join [path_Join [podsDir, podName], ''volumes'']"
  define sub where "sub = path_Join [dir, EscapeQualifiedNameForDisk plugin]"
  have name: "UnescapeQualifiedNameForDisk (EscapeQualifiedNameForDisk plugin) = plugin"
    by (rule Unescape_Escape [OF qualified_no_tilde [OF assms(1)]])
  have "kr_ReadDir rc dir w = Inr plugins" "kr_ReadDirNoStat rc sub w = Inr vols"
    using assms(4,6) by (simp_all only: dir_def sub_def)
  note r = this
  define found where "found = map (\<lambda>volumeName. \<lparr>pvo_podName = podName, pvo_volumeSpecName = volumeName,
      pvo_mountPath = path_Join [sub, volumeName], pvo_pluginName = plugin\<rparr>) vols"
  let ?loop = "\<lambda>(pluginName, _). case kr_ReadDirNoStat rc (path_Join [dir, pluginName]) w of
      Inl err \<Rightarrow> []
    | Inr volumePluginDirs \<Rightarrow> map (\<lambda>volumeName. \<lparr>pvo_podName = podName, pvo_volumeSpecName = volumeName,
        pvo_mountPath = path_Join [path_Join [dir, pluginName], volumeName],
        pvo_pluginName = UnescapeQualifiedNameForDisk pluginName\<rparr>) volumePluginDirs"
  have "?loop (EscapeQualifiedNameForDisk plugin, d) = found"
    by (simp only: prod.case sub_def [symmetric] r(2) sum.case name found_def)
  with concat_map_mem [OF assms(5), of ?loop] have "set found \<subseteq> set (concat (map ?loop plugins))" by (simp only:)
  moreover have "pod_dir_volumes rc w podsDir podName = concat (map ?loop plugins)"
    by (simp only: pod_dir_volumes_def Let_def dir_def [symmetric] r(1) sum.case)
  moreover have "\<lparr>pvo_podName = podName, pvo_volumeSpecName = vol, pvo_mountPath = path_Join [sub, vol], pvo_pluginName = plugin\<rparr> \<in> set found"
    using assms(7) by (auto simp only: found_def set_map)
  ultimately have "\<lparr>pvo_podName = podName, pvo_volumeSpecName = vol, pvo_mountPath = path_Join [sub, vol], pvo_pluginName = plugin\<rparr>
      \<in> set (pod_dir_volumes rc w podsDir podName)"
    by (simp only: subset_iff)
  then have "\<lparr>pvo_podName = podName, pvo_volumeSpecName = vol, pvo_mountPath = path_Join [sub, vol], pvo_pluginName = plugin\<rparr>
      \<in> set (concat (map (\<lambda>(podName, isDir). if \<not> isDir then [] else pod_dir_volumes rc w podsDir podName) pods))"
    using concat_map_mem [OF assms(3), of "\<lambda>(podName, isDir). if \<not> isDir then [] else pod_dir_volumes rc w podsDir podName"]
    by (simp only: prod.case not_True_eq_False if_False subset_iff)
  then show ?thesis unfolding getVolumesFromPodDir_def assms(2) sub_def dir_def by (simp del: path_Join.simps)
qed

theorem pod_volume_found_on_disk_witness:
  "IsQualifiedName ''p'' = [] \<and> (\<exists>vs. getVolumesFromPodDir (sample_krc None) True ''/pods'' = Inr vs \<and>
    \<lparr>pvo_podName = ''u'', pvo_volumeSpecName = ''v'', pvo_mountPath = ''/pods/u/volumes/p/v'', pvo_pluginName = ''p''\<rparr> \<in> set vs)"
proof -
  have q: "IsQualifiedName ''p'' = []" "EscapeQualifiedNameForDisk ''p'' = ''p''" by code_simp+
  have j: "path_Join [path_Join [''/pods'', ''u''], ''volumes''] = ''/pods/u/volumes''"
    "path_Join [''/pods/u/volumes'', ''p''] = ''/pods/u/volumes/p''" "path_Join [''/pods/u/volumes/p'', ''v''] = ''/pods/u/volumes/p/v''"
    by code_simp+
  have d: "kr_ReadDir (sample_krc None) ''/pods'' True = Inr [(''u'', True)]"
    "kr_ReadDir (sample_krc None) ''/pods/u/volumes'' True = Inr [(''p'', True)]"
    "kr_ReadDirNoStat (sample_krc None) ''/pods/u/volumes/p'' True = Inr [''v'']"
    by (simp_all add: sample_krc_def)
  show ?thesis
    using q(1) pod_volume_found_on_disk [where plugin = "''p''" and podName = "''u''" and vol = "''v''" and w = True, OF q(1) d(1), unfolded q(2) j, OF _ d(2) _ d(3)]
    by simp
qed

section \<open>Putting volumes back\<close>

definition rv_supported :: "'w k_reconciler \<Rightarrow> reconstructedVolume \<Rightarrow> bool" where
  "rv_supported rc rv \<longleftrightarrow> rv_volumeName rv \<noteq> [] \<and> (\<exists>plugin. FindPluginBySpec (kr_volumePluginMgr rc) (rv_volumeSpec rv) = Inr plugin)"

lemma update_iteration_facts:
  assumes "k_ok rc st" and "rv_supported rc rv"
  shows "k_ok rc (update_iteration rc rv st)"
    and "ka_mounted (ks_asw (update_iteration rc rv st)) q x \<longleftrightarrow> ka_mounted (ks_asw st) q x \<or> (q, x) = (rv_podName rv, rv_volumeName rv)"
    and "ka_device (ks_asw (update_iteration rc rv st)) x \<longleftrightarrow> ka_device (ks_asw st) x \<or> rv_pluginIsAttachable rv \<and> x = rv_volumeName rv"
proof -
  let ?v = "rv_volumeName rv" and ?st' = "update_iteration rc rv st"
  have "oe_inv (ks_oe ?st')" using assms(1) by (simp add: update_iteration_calls k_ok_def)
  then show "k_ok rc ?st'" using k_ok_calls [OF assms(1)] update_iteration_calls [of st rc rv] by blast
  have i: "ka_inv (ks_asw st)" using assms(1) by (simp add: k_ok_def)
  obtain plugin where "ka_volume_name (ka_volumePluginMgr (ks_asw st)) ?v (rv_volumeSpec rv) = Inr (plugin, ?v)"
    using assms by (auto simp: rv_supported_def ka_volume_name_def k_ok_def)
  from ka_addVolume_facts [OF i this, of "rv_devicePath rv"] obtain s1 where
      1: "ka_addVolume ?v (rv_volumeSpec rv) (rv_devicePath rv) (ks_asw st) = (None, s1)" "ka_inv s1" "ka_VolumeExists s1 ?v"
      "ka_mounted s1 = ka_mounted (ks_asw st)" "ka_device s1 = ka_device (ks_asw st)" by blast
  obtain e s2 where 2: "ka_AddPodToVolume (rv_podName rv) (rv_podName rv) ?v (rv_mounter rv) (rv_outerVolumeSpecName rv) (rv_devicePath rv) s1 = (e, s2)"
    by (cases "ka_AddPodToVolume (rv_podName rv) (rv_podName rv) ?v (rv_mounter rv) (rv_outerVolumeSpecName rv) (rv_devicePath rv) s1")
  then have 3: "e = None" "ka_inv s2" "ka_VolumeExists s2 ?v" "ka_device s2 = ka_device (ks_asw st)"
      "\<And>q x. ka_mounted s2 q x \<longleftrightarrow> ka_mounted (ks_asw st) q x \<or> (q, x) = (rv_podName rv, ?v)"
    using kmu.mark_mounted [OF 1(2), of "rv_podName rv" "rv_podName rv" ?v "rv_mounter rv" "rv_outerVolumeSpecName rv" "rv_devicePath rv" e s2] 1
    by (simp_all add: ka_mounter_def)
  obtain e' s3 where 4: "(if rv_pluginIsAttachable rv then mu_MarkDeviceAsMounted ka_mounter ?v s2 else (None, s2)) = (e', s3)" by fastforce
  then have 5: "e' = None" "ka_mounted s3 = ka_mounted s2"
      "\<And>x. ka_device s3 x \<longleftrightarrow> ka_device (ks_asw st) x \<or> rv_pluginIsAttachable rv \<and> x = ?v"
    using kmu.mark_device [OF 3(2), of ?v e' s3] 3(3,4) by (auto split: if_splits)
  have "ks_asw ?st' = s3"
    using 4 unfolding 5(1) by (simp add: update_iteration_def 1(1) 2 3(1) ka_attacher_def)
  then show "ka_mounted (ks_asw ?st') q x \<longleftrightarrow> ka_mounted (ks_asw st) q x \<or> (q, x) = (rv_podName rv, ?v)"
    and "ka_device (ks_asw ?st') x \<longleftrightarrow> ka_device (ks_asw st) x \<or> rv_pluginIsAttachable rv \<and> x = ?v"
    by (simp_all add: 3(5) 5)
qed

lemma update_loop_facts:
  assumes "k_ok rc st" and "\<forall>e \<in> set m. rv_supported rc (snd e)"
  shows "k_ok rc (fold (\<lambda>(_, rv). update_iteration rc rv) m st) \<and>
    (\<forall>q x. ka_mounted (ks_asw (fold (\<lambda>(_, rv). update_iteration rc rv) m st)) q x \<longleftrightarrow>
       ka_mounted (ks_asw st) q x \<or> (\<exists>e \<in> set m. (q, x) = (rv_podName (snd e), rv_volumeName (snd e)))) \<and>
    (\<forall>x. ka_device (ks_asw (fold (\<lambda>(_, rv). update_iteration rc rv) m st)) x \<longleftrightarrow>
       ka_device (ks_asw st) x \<or> (\<exists>e \<in> set m. rv_pluginIsAttachable (snd e) \<and> x = rv_volumeName (snd e)))"
  using assms
proof (induction m arbitrary: st)
  case (Cons e m)
  obtain k rv where e: "e = (k, rv)" by (cases e)
  have u: "k_ok rc (update_iteration rc rv st)" using Cons.prems update_iteration_facts(1) by (auto simp: e)
  have s: "rv_supported rc rv" using Cons.prems by (simp add: e)
  show ?case
    using Cons.IH [OF u] Cons.prems(2) by (simp add: e update_iteration_facts(2,3) [OF Cons.prems(1) s])
qed simp

text \<open>What the scan decides, and what it collects.\<close>

definition scan_skips :: "'w k_state \<Rightarrow> reconstructedVolume \<Rightarrow> bool" where
  "scan_skips st rv \<longleftrightarrow>
     (let aswExist = fst (ka_PodExistsInVolume (ks_asw st) (rv_podName rv) (rv_volumeName rv)) in
      if \<not> StatesHasBeenSynced st then aswExist \<or> \<not> rv_pluginIsAttachable rv
      else oe_IsOperationPending (ks_oe st) (rv_volumeName rv) (rv_podName rv) \<or>
        kd_PodExistsInVolume (ks_dsw st) (rv_podName rv) (rv_volumeName rv) \<or> aswExist)"

lemma scan_iteration_eq:
  "scan_iteration rc st vol m = (case reconstructVolume rc vol of Inl _ \<Rightarrow> m
     | Inr rv \<Rightarrow> if scan_skips st rv then m else mput (rv_volumeName rv) rv m)"
  by (simp add: scan_iteration_def scan_skips_def Let_def split: sum.split)

definition rv_core :: "reconstructedVolume \<Rightarrow> unique_volume_name \<times> unique_pod_name \<times> Spec \<times> bool" where
  "rv_core rv = (rv_volumeName rv, rv_podName rv, rv_volumeSpec rv, rv_pluginIsAttachable rv)"

definition scanned :: "'w k_reconciler \<Rightarrow> 'w k_state \<Rightarrow> unique_volume_name \<Rightarrow> reconstructedVolume \<Rightarrow> bool" where
  "scanned rc st k rv \<longleftrightarrow> k = rv_volumeName rv \<and> \<not> scan_skips st rv \<and> (\<exists>vol. reconstructVolume rc vol = Inr rv)"

lemma scan_facts:
  assumes "mwf m" and "mall (scanned rc st) m"
  shows "mwf (fold (scan_iteration rc st) vols m) \<and> mall (scanned rc st) (fold (scan_iteration rc st) vols m) \<and>
    (\<forall>k. mhas (fold (scan_iteration rc st) vols m) k \<longleftrightarrow>
       mhas m k \<or> (\<exists>vol \<in> set vols. \<exists>rv. reconstructVolume rc vol = Inr rv \<and> \<not> scan_skips st rv \<and> k = rv_volumeName rv))"
  using assms
proof (induction vols arbitrary: m)
  case (Cons vol vols)
  have step: "mwf (scan_iteration rc st vol m)" "mall (scanned rc st) (scan_iteration rc st vol m)"
      "\<And>k. mhas (scan_iteration rc st vol m) k \<longleftrightarrow> mhas m k \<or>
        (\<exists>rv. reconstructVolume rc vol = Inr rv \<and> \<not> scan_skips st rv \<and> k = rv_volumeName rv)"
    using Cons.prems by (auto simp: scan_iteration_eq split: sum.split) (auto simp: scanned_def)
  show ?case using Cons.IH [OF step(1,2)] step(3) by auto
qed simp

lemma fold_core:
  assumes "\<And>x rv. rv_core (f x rv) = rv_core rv" and "mwf m"
  shows "mwf (fold (\<lambda>x m. case mget m (key x) of None \<Rightarrow> m | Some rv \<Rightarrow> mput (key x) (f x rv) m) xs m) \<and>
    map_option rv_core (mget (fold (\<lambda>x m. case mget m (key x) of None \<Rightarrow> m | Some rv \<Rightarrow> mput (key x) (f x rv) m) xs m) k) =
      map_option rv_core (mget m k)"
  using assms(2)
proof (induction xs arbitrary: m)
  case (Cons x xs)
  let ?m = "case mget m (key x) of None \<Rightarrow> m | Some rv \<Rightarrow> mput (key x) (f x rv) m"
  have "mwf ?m" "map_option rv_core (mget ?m k) = map_option rv_core (mget m k)"
    using Cons.prems by (auto split: option.split simp: gm.get_put assms(1))
  with Cons.IH [of ?m] show ?case by simp
qed simp

lemma complete_reconstructed_core:
  assumes "complete_reconstructed rc st m = Some m'" and "mwf m"
  shows "mwf m' \<and> map_option rv_core (mget m' k) = map_option rv_core (mget m k)"
proof -
  note outer = fold_core [where f = "\<lambda>x rv. rv\<lparr>rv_outerVolumeSpecName := vtm_OuterVolumeSpecName x\<rparr>" and key = vtm_VolumeName and k = k]
  note dev = fold_core [where f = "\<lambda>x rv. rv\<lparr>rv_devicePath := av_DevicePath x\<rparr>" and key = av_Name and k = k, OF _ assms(2)]
  have core: "rv_core (rv\<lparr>rv_outerVolumeSpecName := a\<rparr>) = rv_core rv" "rv_core (rv\<lparr>rv_devicePath := b\<rparr>) = rv_core rv" for rv a b
    by (simp_all add: rv_core_def)
  show ?thesis
    using assms(1) outer [OF core(1)] dev [OF core(2)] assms(2)
    by (auto simp: complete_reconstructed_def split: sum.splits option.splits)
qed

lemma reconstructVolume_supported:
  assumes "reconstructVolume rc vol = Inr rv"
    and "\<And>name dir path spec. kr_ConstructVolumeSpec rc name dir path = Inr spec \<Longrightarrow>
      \<exists>plugin. FindPluginBySpec (kr_volumePluginMgr rc) spec = Inr plugin"
  shows "rv_supported rc rv"
proof -
  have "rv_volumeName rv \<noteq> []"
    using assms(1) by (auto simp: reconstructVolume_def GetUniqueVolumeName_def GetUniqueVolumeNameForNonAttachableVolume_def Let_def
        split: sum.splits option.splits if_splits)
  moreover obtain name dir path where "kr_ConstructVolumeSpec rc name dir path = Inr (rv_volumeSpec rv)"
    using assms(1) by (auto simp: reconstructVolume_def Let_def split: sum.splits option.splits)
  ultimately show ?thesis using assms(2) by (auto simp: rv_supported_def)
qed

lemma PodExistsInVolume_mounted: "fst (ka_PodExistsInVolume asw p v) \<longleftrightarrow> ka_mounted asw p v"
  by (auto simp: ka_PodExistsInVolume_def ka_mounted_def mhas_def split: option.splits)

text \<open>What a pass that finds something keeps of the volumes it reconstructed.\<close>

lemma reconstructed_entries:
  assumes "complete_reconstructed rc st m = Some m'" and "mwf m" and "mall (scanned rc st) m"
    and "\<And>r. \<not> scan_skips st r \<Longrightarrow> rv_pluginIsAttachable r"
    and "\<And>name dir path spec. kr_ConstructVolumeSpec rc name dir path = Inr spec \<Longrightarrow>
      \<exists>plugin. FindPluginBySpec (kr_volumePluginMgr rc) spec = Inr plugin"
  shows "(e \<in> set m' \<longleftrightarrow> mget m' (fst e) = Some (snd e)) \<and> (mhas m' k \<longleftrightarrow> mhas m k) \<and>
    (mget m' k = Some r' \<longrightarrow> rv_supported rc r' \<and> rv_volumeName r' = k \<and> rv_pluginIsAttachable r')"
proof -
  note core = complete_reconstructed_core [OF assms(1,2)]
  have "rv_supported rc r' \<and> rv_volumeName r' = k \<and> rv_pluginIsAttachable r'" if e: "mget m' k = Some r'"
  proof -
    obtain r where r: "mget m k = Some r" "rv_core r = rv_core r'" using core [of k] e by (cases "mget m k") auto
    then have "scanned rc st k r" using assms(3) by (auto dest: mall_get)
    then obtain vol where vol: "reconstructVolume rc vol = Inr r" "k = rv_volumeName r" "rv_pluginIsAttachable r"
      using assms(4) by (auto simp: scanned_def)
    have "rv_supported rc r" using vol(1) assms(5) by (rule reconstructVolume_supported)
    with vol(2,3) r(2) show ?thesis by (auto simp: rv_supported_def rv_core_def)
  qed
  moreover have "mhas m' k \<longleftrightarrow> mhas m k" using core [of k] by (cases "mget m k"; cases "mget m' k") (auto simp: mhas_def)
  ultimately show ?thesis using core gm.entries_get [of m' "fst e" "snd e"] by simp
qed



end
