(* ===== verification/Kubelet_Volume_Manager.thy ===== *)
theory Kubelet_Volume_Manager
  imports Kubelet_Reconciler "HOL-Library.List_Lexorder" "HOL-Library.Char_ord"
begin

text \<open>
  \<open>pkg/kubelet/volumemanager/populator/desired_state_of_world_populator.go\<close>, which keeps the desired
  state in step with the pods of the node, and \<open>volume_manager.go\<close>, the interface that the rest of the
  kubelet calls. \<open>wait.Poll\<close> of \<open>pkg/util/wait\<close> is modelled as far as the manager uses it.
\<close>

section \<open>Populator\<close>

text \<open>
  The pod manager, the container runtime and the API server, as the populator sees them during one
  run. The runtime may be asked more than once: \<open>env_RuntimeGetPods i\<close> is its \<open>i\<close>-th answer, the
  ids of the running pods with the number of their containers.
\<close>

record populator_env =
  env_GetPods :: "v1_Pod list"
  env_GetPodByUID :: "uid \<Rightarrow> v1_Pod option"
  env_RuntimeGetPods :: "nat \<Rightarrow> error + (uid \<times> nat) list"
  env_GetPVC :: "string \<Rightarrow> string \<Rightarrow> error + PersistentVolumeClaim option"
  env_GetPV :: "string \<Rightarrow> error + PersistentVolume option"
  env_DeepCopy :: "v1_Volume \<Rightarrow> error + v1_Volume"
  env_NewAttacher :: "string \<Rightarrow> error option"

record desiredStateOfWorldPopulator =
  dswp_getPodStatusRetryDuration :: duration
  dswp_desiredStateOfWorld :: kd_desiredStateOfWorld
  dswp_processedPods :: "(unique_pod_name, bool) gomap"
  dswp_timeOfLastGetPodStatus :: time

definition podPreviouslyProcessed :: "unique_pod_name \<Rightarrow> desiredStateOfWorldPopulator \<Rightarrow> bool" where
  "podPreviouslyProcessed podName dswp = mhas (dswp_processedPods dswp) podName"

definition markPodProcessed :: "unique_pod_name \<Rightarrow> desiredStateOfWorldPopulator \<Rightarrow> desiredStateOfWorldPopulator" where
  "markPodProcessed podName dswp = dswp\<lparr>dswp_processedPods := mput podName True (dswp_processedPods dswp)\<rparr>"

definition deleteProcessedPod :: "unique_pod_name \<Rightarrow> desiredStateOfWorldPopulator \<Rightarrow> desiredStateOfWorldPopulator" where
  "deleteProcessedPod podName dswp = dswp\<lparr>dswp_processedPods := mdel podName (dswp_processedPods dswp)\<rparr>"

definition ReprocessPod :: "unique_pod_name \<Rightarrow> desiredStateOfWorldPopulator \<Rightarrow> desiredStateOfWorldPopulator" where
  "ReprocessPod podName dswp = deleteProcessedPod podName dswp"

definition isPodTerminated :: "v1_Pod \<Rightarrow> bool" where
  "isPodTerminated pod \<longleftrightarrow> pod_Phase pod = PodFailed \<or> pod_Phase pod = PodSucceeded"

definition kd_getPVCExtractPV :: "populator_env \<Rightarrow> string \<Rightarrow> string \<Rightarrow> error + string \<times> uid" where
  "kd_getPVCExtractPV env namespace claimName =
     (case env_GetPVC env namespace claimName of
        Inl err \<Rightarrow> Inl (Errorf ''failed to fetch PVC from API server'' (Some err))
      | Inr None \<Rightarrow> Inl (Errorf ''failed to fetch PVC from API server'' None)
      | Inr (Some pvc) \<Rightarrow>
          if pvc_Phase pvc \<noteq> ClaimBound \<or> pvc_VolumeName pvc = ''''
          then Inl (Errorf ''PVC has non-bound phase or empty pvc.Spec.VolumeName'' None)
          else Inr (pvc_VolumeName pvc, pvc_UID pvc))"

definition getPVVolumeGidAnnotationValue :: "PersistentVolume \<Rightarrow> string" where
  "getPVVolumeGidAnnotationValue pv =
     (case mget (pv_Annotations pv) ''pv.beta.kubernetes.io/gid'' of Some volumeGid \<Rightarrow> volumeGid | None \<Rightarrow> '''')"

definition kd_getPVSpec :: "populator_env \<Rightarrow> string \<Rightarrow> bool \<Rightarrow> uid \<Rightarrow> error + Spec \<times> string" where
  "kd_getPVSpec env name pvcReadOnly expectedClaimUID =
     (case env_GetPV env name of
        Inl err \<Rightarrow> Inl (Errorf ''failed to fetch PV from API server'' (Some err))
      | Inr None \<Rightarrow> Inl (Errorf ''failed to fetch PV from API server'' None)
      | Inr (Some pv) \<Rightarrow>
          (case pv_ClaimRef pv of
             None \<Rightarrow> Inl (Errorf ''found PV object but it has a nil pv.Spec.ClaimRef'' None)
           | Some claimRef \<Rightarrow>
               if ref_UID claimRef \<noteq> expectedClaimUID
               then Inl (Errorf ''found PV object but its pv.Spec.ClaimRef.UID does not point to claim.UID'' None)
               else Inr (NewSpecFromPersistentVolume pv pvcReadOnly, getPVVolumeGidAnnotationValue pv)))"

definition kd_createVolumeSpec :: "populator_env \<Rightarrow> v1_Volume \<Rightarrow> string \<Rightarrow> error + Spec \<times> string" where
  "kd_createVolumeSpec env podVolume podNamespace =
     (case vol_PersistentVolumeClaim podVolume of
        Some pvcSource \<Rightarrow>
          (case kd_getPVCExtractPV env podNamespace (pvcvs_ClaimName pvcSource) of
             Inl err \<Rightarrow> Inl (Errorf ''error processing PVC'' (Some err))
           | Inr (pvName, pvcUID) \<Rightarrow>
               (case kd_getPVSpec env pvName (pvcvs_ReadOnly pvcSource) pvcUID of
                  Inl err \<Rightarrow> Inl (Errorf ''error processing PVC'' (Some err))
                | Inr r \<Rightarrow> Inr r))
      | None \<Rightarrow>
          (case env_DeepCopy env podVolume of
             Inl err \<Rightarrow> Inl (Errorf ''failed to deep copy volume object'' (Some err))
           | Inr clonedPodVolume \<Rightarrow> Inr (NewSpecFromVolume clonedPodVolume, '''')))"

definition processPodVolumes :: "populator_env \<Rightarrow> v1_Pod \<Rightarrow> desiredStateOfWorldPopulator \<Rightarrow> desiredStateOfWorldPopulator" where
  "processPodVolumes env pod dswp =
     (let uniquePodName = pod_UID pod in
      if podPreviouslyProcessed uniquePodName dswp then dswp
      else markPodProcessed uniquePodName
        (fold (\<lambda>podVolume dswp.
           case kd_createVolumeSpec env podVolume (pod_Namespace pod) of
             Inl err \<Rightarrow> dswp
           | Inr (volumeSpec, volumeGidValue) \<Rightarrow>
               dswp\<lparr>dswp_desiredStateOfWorld := snd (kd_AddPodToVolume (env_NewAttacher env) uniquePodName pod volumeSpec
                  (vol_Name podVolume) volumeGidValue (dswp_desiredStateOfWorld dswp))\<rparr>)
         (pod_Volumes pod) dswp))"

definition findAndAddNewPods :: "populator_env \<Rightarrow> desiredStateOfWorldPopulator \<Rightarrow> desiredStateOfWorldPopulator" where
  "findAndAddNewPods env dswp =
     fold (\<lambda>pod dswp. if isPodTerminated pod then dswp else processPodVolumes env pod dswp) (env_GetPods env) dswp"

text \<open>The first part of the loop of \<open>findAndRemoveDeletedPods\<close>: whether the pod still needs the volume.\<close>

definition pod_needs_volume :: "populator_env \<Rightarrow> VolumeToMount \<Rightarrow> bool" where
  "pod_needs_volume env volumeToMount \<longleftrightarrow>
     (case env_GetPodByUID env (pod_UID (vtm_Pod volumeToMount)) of
        None \<Rightarrow> False
      | Some pod \<Rightarrow>
          if \<not> isPodTerminated pod then True
          else (case sp_Volume (vtm_VolumeSpec volumeToMount) of
                  None \<Rightarrow> True
                | Some volume \<Rightarrow> vol_EmptyDir volume \<noteq> Some ''Memory'' \<and> \<not> vol_ConfigMap volume \<and> \<not> vol_Secret volume))"

definition has_running_containers :: "(uid \<times> nat) list \<Rightarrow> uid \<Rightarrow> bool" where
  "has_running_containers runningPods podUID =
     (case find (\<lambda>runningPod. fst runningPod = podUID) runningPods of Some runningPod \<Rightarrow> snd runningPod > 0 | None \<Rightarrow> False)"

text \<open>The loop carries the fetched list of running pods, if any, and the number of times the runtime was asked.\<close>

definition remove_iteration ::
    "populator_env \<Rightarrow> time \<Rightarrow> VolumeToMount \<Rightarrow> (uid \<times> nat) list option \<times> nat \<times> desiredStateOfWorldPopulator \<Rightarrow>
     (uid \<times> nat) list option \<times> nat \<times> desiredStateOfWorldPopulator" where
  "remove_iteration env now volumeToMount s =
     (let (running, calls, dswp) = s;
          remove = (\<lambda>runningPods dswp.
             if has_running_containers runningPods (pod_UID (vtm_Pod volumeToMount)) then dswp
             else deleteProcessedPod (vtm_PodName volumeToMount)
               (dswp\<lparr>dswp_desiredStateOfWorld := kd_DeletePodFromVolume (vtm_PodName volumeToMount) (vtm_VolumeName volumeToMount)
                  (dswp_desiredStateOfWorld dswp)\<rparr>))
      in if pod_needs_volume env volumeToMount then s
         else case running of
             Some runningPods \<Rightarrow> (running, calls, remove runningPods dswp)
           | None \<Rightarrow>
               (case env_RuntimeGetPods env calls of
                  Inl getPodsErr \<Rightarrow> (None, Suc calls, dswp)
                | Inr runningPods \<Rightarrow> (Some runningPods, Suc calls, remove runningPods (dswp\<lparr>dswp_timeOfLastGetPodStatus := now\<rparr>))))"

definition kd_findAndRemoveDeletedPods :: "populator_env \<Rightarrow> time \<Rightarrow> desiredStateOfWorldPopulator \<Rightarrow> desiredStateOfWorldPopulator" where
  "kd_findAndRemoveDeletedPods env now dswp =
     snd (snd (fold (remove_iteration env now) (kd_GetVolumesToMount (dswp_desiredStateOfWorld dswp)) (None, 0, dswp)))"

definition kd_populatorLoopFunc :: "populator_env \<Rightarrow> time \<Rightarrow> time \<Rightarrow> desiredStateOfWorldPopulator \<Rightarrow> desiredStateOfWorldPopulator" where
  "kd_populatorLoopFunc env now now' dswp =
     (let dswp = findAndAddNewPods env dswp
      in if time_Since now (dswp_timeOfLastGetPodStatus dswp) < dswp_getPodStatusRetryDuration dswp then dswp
         else kd_findAndRemoveDeletedPods env now' dswp)"

section \<open>Volume manager\<close>

definition vm_GetMountedVolumesForPod :: "ka_actualStateOfWorld \<Rightarrow> unique_pod_name \<Rightarrow> (string, Mounter) gomap" where
  "vm_GetMountedVolumesForPod asw podName =
     fold (\<lambda>mountedVolume. mput (mtv_OuterVolumeSpecName mountedVolume) (mtv_Mounter mountedVolume))
       (ka_GetMountedVolumesForPod asw podName) []"

text \<open>\<open>strconv.ParseInt(s, 10, 64)\<close>; \<open>None\<close> is a syntax or range error.\<close>

definition ParseInt64 :: "string \<Rightarrow> int option" where
  "ParseInt64 s =
     (let (neg, ds) = (case s of c # cs \<Rightarrow> if c = CHR ''-'' then (True, cs) else if c = CHR ''+'' then (False, cs) else (False, s) | [] \<Rightarrow> (False, []));
          n = int (read_nat ds); i = (if neg then - n else n)
      in if ds = [] \<or> \<not> list_all is_digit ds \<or> i < int64_min \<or> i > int64_max then None else Some i)"

definition getExtraSupplementalGid :: "string \<Rightarrow> v1_Pod \<Rightarrow> int \<times> bool" where
  "getExtraSupplementalGid volumeGidValue pod =
     (if volumeGidValue = '''' then (0, False)
      else case ParseInt64 volumeGidValue of
          None \<Rightarrow> (0, False)
        | Some gid \<Rightarrow> if gid \<in> set (pod_SupplementalGroups pod) then (0, False) else (gid, True))"

definition GetExtraSupplementalGroupsForPod :: "ka_actualStateOfWorld \<Rightarrow> v1_Pod \<Rightarrow> int list" where
  "GetExtraSupplementalGroupsForPod asw pod =
     (let supplementalGroups = sort (remdups (filter (\<lambda>g. g \<noteq> '''')
            (map mtv_VolumeGidValue (ka_GetMountedVolumesForPod asw (pod_UID pod)))))
      in concat (map (\<lambda>group. let (iGroup, extra) = getExtraSupplementalGid group pod in if \<not> extra then [] else [iGroup])
           supplementalGroups))"

definition GetVolumesInUse :: "kd_desiredStateOfWorld \<Rightarrow> ka_actualStateOfWorld \<Rightarrow> unique_volume_name list" where
  "GetVolumesInUse dsw asw =
     (let desiredVolumes = kd_GetVolumesToMount dsw;
          mountedVolumes = ka_GetGloballyMountedVolumes asw;
          (desiredVolumesMap, volumesToReportInUse) =
            fold (\<lambda>volume (m, r). if vtm_PluginIsAttachable volume
                then (mput (vtm_VolumeName volume) True m, r @ [vtm_VolumeName volume]) else (m, r)) desiredVolumes ([], [])
      in fold (\<lambda>volume r. if atv_PluginIsAttachable volume \<and> \<not> mhas desiredVolumesMap (atv_VolumeName volume)
                then r @ [atv_VolumeName volume] else r) mountedVolumes volumesToReportInUse)"

definition VolumeIsAttached :: "ka_actualStateOfWorld \<Rightarrow> unique_volume_name \<Rightarrow> bool" where
  "VolumeIsAttached asw volumeName = ka_VolumeExists asw volumeName"

definition MarkVolumesAsReportedInUse :: "unique_volume_name list \<Rightarrow> kd_desiredStateOfWorld \<Rightarrow> kd_desiredStateOfWorld" where
  "MarkVolumesAsReportedInUse volumesReportedAsInUse dsw = kd_MarkVolumesReportedInUse volumesReportedAsInUse dsw"

definition getExpectedVolumes :: "v1_Pod \<Rightarrow> string list" where
  "getExpectedVolumes pod = map vol_Name (pod_Volumes pod)"

definition filterUnmountedVolumes :: "string list \<Rightarrow> string list \<Rightarrow> string list" where
  "filterUnmountedVolumes mountedVolumes expectedVolumes = filter (\<lambda>expectedVolume. expectedVolume \<notin> set mountedVolumes) expectedVolumes"

definition getUnmountedVolumes :: "ka_actualStateOfWorld \<Rightarrow> unique_pod_name \<Rightarrow> string list \<Rightarrow> string list" where
  "getUnmountedVolumes asw podName expectedVolumes =
     filterUnmountedVolumes (map mtv_OuterVolumeSpecName (ka_GetMountedVolumesForPod asw podName)) expectedVolumes"

definition verifyVolumesMountedFunc :: "ka_actualStateOfWorld \<Rightarrow> unique_pod_name \<Rightarrow> string list \<Rightarrow> error + bool" where
  "verifyVolumesMountedFunc asw podName expectedVolumes = Inr (length (getUnmountedVolumes asw podName expectedVolumes) = 0)"

text \<open>
  \<open>wait.WaitFor\<close> with a channel that delivers some ticks and is then closed; \<open>fn i\<close> is what the
  condition returns when it is called for the \<open>i\<close>-th time.
\<close>

fun WaitFor :: "nat \<Rightarrow> (nat \<Rightarrow> error + bool) \<Rightarrow> nat \<Rightarrow> error option" where
  "WaitFor ticks fn i =
     (case fn i of
        Inl err \<Rightarrow> Some err
      | Inr True \<Rightarrow> None
      | Inr False \<Rightarrow> (case ticks of 0 \<Rightarrow> Some (Errorf ''timed out waiting for the condition'' None)
                    | Suc ticks' \<Rightarrow> WaitFor ticks' fn (Suc i)))"

text \<open>
  \<open>WaitForAttachAndMount\<close> first asks for the pod to be processed again and remounted, then polls. While
  it polls the others run: \<open>asw i\<close> is the cache at the \<open>i\<close>-th reading.
\<close>

definition WaitForAttachAndMount_request ::
    "v1_Pod \<Rightarrow> desiredStateOfWorldPopulator \<times> ka_actualStateOfWorld \<Rightarrow> desiredStateOfWorldPopulator \<times> ka_actualStateOfWorld" where
  "WaitForAttachAndMount_request pod s =
     (if length (getExpectedVolumes pod) = 0 then s
      else (ReprocessPod (pod_UID pod) (fst s), ka_MarkRemountRequired (pod_UID pod) (snd s)))"

definition WaitForAttachAndMount :: "nat \<Rightarrow> (nat \<Rightarrow> ka_actualStateOfWorld) \<Rightarrow> v1_Pod \<Rightarrow> error option" where
  "WaitForAttachAndMount ticks asw pod =
     (let expectedVolumes = getExpectedVolumes pod; uniquePodName = pod_UID pod in
      if length expectedVolumes = 0 then None
      else case WaitFor ticks (\<lambda>i. verifyVolumesMountedFunc (asw i) uniquePodName expectedVolumes) 0 of
          None \<Rightarrow> None
        | Some err \<Rightarrow>
            let unmountedVolumes = getUnmountedVolumes (asw (Suc ticks)) uniquePodName expectedVolumes
            in if length unmountedVolumes = 0 then None
               else Some (Errorf ''timeout expired waiting for volumes to attach/mount for pod'' None))"

declare WaitFor.simps [simp del]

section \<open>Lemmas about the populator\<close>

abbreviation dswp_wanted :: "desiredStateOfWorldPopulator \<Rightarrow> unique_pod_name \<Rightarrow> unique_volume_name \<Rightarrow> bool" where
  "dswp_wanted dswp \<equiv> kd_PodExistsInVolume (dswp_desiredStateOfWorld dswp)"

abbreviation dswp_inv :: "desiredStateOfWorldPopulator \<Rightarrow> bool" where
  "dswp_inv dswp \<equiv> kd_inv (dswp_desiredStateOfWorld dswp)"

text \<open>An answer of the runtime that lets the loop remove the volume.\<close>

definition remove_ok :: "populator_env \<Rightarrow> (uid \<times> nat) list \<Rightarrow> VolumeToMount \<Rightarrow> bool" where
  "remove_ok env pods m \<longleftrightarrow> \<not> pod_needs_volume env m \<and> \<not> has_running_containers pods (pod_UID (vtm_Pod m))"

lemma remove_iteration_cases:
  assumes "dswp_inv dswp" and "remove_iteration env now m (running, calls, dswp) = (running', calls', dswp')"
  shows "dswp_inv dswp' \<and> calls \<le> calls' \<and>
    (running' = running \<or> running = None \<and> (\<exists>pods. running' = Some pods \<and> env_RuntimeGetPods env calls = Inr pods)) \<and>
    (\<forall>p v. dswp_wanted dswp' p v \<longleftrightarrow> dswp_wanted dswp p v \<and>
       \<not> ((p, v) = vtm_key m \<and> (\<exists>pods. running' = Some pods \<and> remove_ok env pods m)))"
proof (cases "pod_needs_volume env m")
  case True
  then show ?thesis using assms by (auto simp: remove_iteration_def remove_ok_def Let_def)
next
  case False
  show ?thesis
  proof (cases running)
    case (Some pods)
    then show ?thesis
      using assms False kd_DeletePod_facts [OF assms(1)]
      by (auto simp: remove_iteration_def remove_ok_def deleteProcessedPod_def vtm_key_def Let_def split: if_splits)
  next
    case None
    then show ?thesis
      using assms False kd_DeletePod_facts [OF assms(1)]
      by (cases "env_RuntimeGetPods env calls")
        (auto simp: remove_iteration_def remove_ok_def deleteProcessedPod_def vtm_key_def Let_def split: if_splits)
  qed
qed

lemma populator_remove_loop:
  assumes "dswp_inv dswp" and "fold (remove_iteration env now) ms (running, calls, dswp) = (running', calls', dswp')"
  shows "dswp_inv dswp' \<and> (\<forall>p v. dswp_wanted dswp' p v \<longrightarrow> dswp_wanted dswp p v) \<and>
    (\<forall>p v. dswp_wanted dswp p v \<and> \<not> dswp_wanted dswp' p v \<longrightarrow>
       (\<exists>m \<in> set ms. vtm_key m = (p, v) \<and> (\<exists>pods. (running = Some pods \<or> (\<exists>i. env_RuntimeGetPods env i = Inr pods)) \<and> remove_ok env pods m)))"
  using assms
proof (induction ms arbitrary: running calls dswp)
  case (Cons m ms)
  obtain running1 calls1 dswp1 where 1: "remove_iteration env now m (running, calls, dswp) = (running1, calls1, dswp1)"
    by (metis prod_cases3)
  note c = remove_iteration_cases [OF Cons.prems(1) 1]
  have rest: "fold (remove_iteration env now) ms (running1, calls1, dswp1) = (running', calls', dswp')"
    using Cons.prems(2) by (simp add: 1)
  have "dswp_inv dswp1" using c by blast
  note ih = Cons.IH [OF this rest]
  have run: "running1 = Some pods \<Longrightarrow> running = Some pods \<or> (\<exists>i. env_RuntimeGetPods env i = Inr pods)" for pods using c by auto
  have "\<exists>m' \<in> set (m # ms). vtm_key m' = (p, v) \<and>
      (\<exists>pods. (running = Some pods \<or> (\<exists>i. env_RuntimeGetPods env i = Inr pods)) \<and> remove_ok env pods m')"
    if w: "dswp_wanted dswp p v" "\<not> dswp_wanted dswp' p v" for p v
  proof (cases "dswp_wanted dswp1 p v")
    case True
    from ih [THEN conjunct2, THEN conjunct2, rule_format, OF conjI [OF True w(2)]]
    obtain m' pods where "m' \<in> set ms" "vtm_key m' = (p, v)" "remove_ok env pods m'"
        "running1 = Some pods \<or> (\<exists>i. env_RuntimeGetPods env i = Inr pods)" by blast
    then show ?thesis using run [of pods] by (intro bexI [of _ m']) auto
  next
    case False
    with c w(1) obtain pods where "(p, v) = vtm_key m" "running1 = Some pods" "remove_ok env pods m" by blast
    then show ?thesis using run [of pods] by (intro bexI [of _ m]) auto
  qed
  moreover have "dswp_wanted dswp' p v \<Longrightarrow> dswp_wanted dswp p v" for p v
    using ih [THEN conjunct2, THEN conjunct1, rule_format, of p v] c by blast
  moreover have "dswp_inv dswp'" by (rule ih [THEN conjunct1])
  ultimately show ?case by blast
qed auto

lemma populator_remove_complete:
  assumes "dswp_inv dswp" and "fold (remove_iteration env now) ms (running, calls, dswp) = (running', calls', dswp')"
    and "running = Some pods \<or> running = None \<and> env_RuntimeGetPods env calls = Inr pods" and "m \<in> set ms" and "remove_ok env pods m"
  shows "\<not> dswp_wanted dswp' (vtm_PodName m) (vtm_VolumeName m)"
  using assms
proof (induction ms arbitrary: running calls dswp)
  case (Cons m' ms)
  obtain running1 calls1 dswp1 where 1: "remove_iteration env now m' (running, calls, dswp) = (running1, calls1, dswp1)"
    by (metis prod_cases3)
  note c = remove_iteration_cases [OF Cons.prems(1) 1]
  have rest: "fold (remove_iteration env now) ms (running1, calls1, dswp1) = (running', calls', dswp')"
    using Cons.prems(2) by (simp add: 1)
  have i1: "dswp_inv dswp1" using c by blast
  have r1: "running1 = Some pods \<or> running1 = None \<and> env_RuntimeGetPods env calls1 = Inr pods"
    using Cons.prems(3) 1 by (auto simp: remove_iteration_def Let_def split: if_splits sum.splits option.splits)
  show ?case
  proof (cases "m \<in> set ms")
    case True
    then show ?thesis by (rule Cons.IH [OF i1 rest r1 _ Cons.prems(5)])
  next
    case False
    then have m: "m' = m" using Cons.prems(4) by simp
    have "\<not> pod_needs_volume env m" using Cons.prems(5) by (simp add: remove_ok_def)
    then have "running1 = Some pods" using Cons.prems(3) 1 by (auto simp: m remove_iteration_def Let_def split: sum.splits option.splits)
    then have "\<not> dswp_wanted dswp1 (vtm_PodName m) (vtm_VolumeName m)" using c Cons.prems(5) by (simp add: m vtm_key_def)
    then show ?thesis using populator_remove_loop [OF i1 rest] by blast
  qed
qed simp

text \<open>Adding pods.\<close>

lemma processPodVolumes_facts:
  assumes "dswp_inv dswp"
  shows "dswp_inv (processPodVolumes env pod dswp) \<and>
    (\<forall>p v. dswp_wanted dswp p v \<longrightarrow> dswp_wanted (processPodVolumes env pod dswp) p v) \<and>
    kd_volumePluginMgr (dswp_desiredStateOfWorld (processPodVolumes env pod dswp)) = kd_volumePluginMgr (dswp_desiredStateOfWorld dswp) \<and>
    (\<forall>u. mhas (dswp_processedPods (processPodVolumes env pod dswp)) u \<longleftrightarrow> u = pod_UID pod \<or> mhas (dswp_processedPods dswp) u) \<and>
    (\<not> podPreviouslyProcessed (pod_UID pod) dswp \<longrightarrow>
      (\<forall>vol \<in> set (pod_Volumes pod). \<forall>spec gid att v. kd_createVolumeSpec env vol (pod_Namespace pod) = Inr (spec, gid) \<longrightarrow>
        kd_volume_name (env_NewAttacher env) (kd_volumePluginMgr (dswp_desiredStateOfWorld dswp)) (pod_UID pod) spec = Inr (att, v) \<longrightarrow>
        dswp_wanted (processPodVolumes env pod dswp) (pod_UID pod) v))"
proof -
  let ?f = "\<lambda>podVolume dswp. case kd_createVolumeSpec env podVolume (pod_Namespace pod) of Inl err \<Rightarrow> dswp
     | Inr (volumeSpec, volumeGidValue) \<Rightarrow> dswp\<lparr>dswp_desiredStateOfWorld := snd (kd_AddPodToVolume (env_NewAttacher env) (pod_UID pod) pod
         volumeSpec (vol_Name podVolume) volumeGidValue (dswp_desiredStateOfWorld dswp))\<rparr>"
  have one: "dswp_inv (?f vol d) \<and> (\<forall>p v. dswp_wanted d p v \<longrightarrow> dswp_wanted (?f vol d) p v) \<and> dswp_processedPods (?f vol d) = dswp_processedPods d \<and>
      kd_volumePluginMgr (dswp_desiredStateOfWorld (?f vol d)) = kd_volumePluginMgr (dswp_desiredStateOfWorld d) \<and>
      (\<forall>spec gid att v. kd_createVolumeSpec env vol (pod_Namespace pod) = Inr (spec, gid) \<longrightarrow>
        kd_volume_name (env_NewAttacher env) (kd_volumePluginMgr (dswp_desiredStateOfWorld d)) (pod_UID pod) spec = Inr (att, v) \<longrightarrow>
        dswp_wanted (?f vol d) (pod_UID pod) v)" if "dswp_inv d" for vol d
  proof (cases "kd_createVolumeSpec env vol (pod_Namespace pod)")
    case (Inl e)
    then show ?thesis using that by simp
  next
    case (Inr r)
    obtain spec gid where r: "r = (spec, gid)" by (cases r)
    let ?c = "kd_AddPod_call (pod_UID pod) pod spec (vol_Name vol) gid"
    have "?f vol d = d\<lparr>dswp_desiredStateOfWorld := kd_step (env_NewAttacher env) ?c (dswp_desiredStateOfWorld d)\<rparr>"
      by (simp add: Inr r)
    with kd_step_refines [OF that, of "env_NewAttacher env" ?c] kd_step_mgr [of "env_NewAttacher env" ?c "dswp_desiredStateOfWorld d"] that Inr
    show ?thesis
      by (auto simp: r kd_abs_eq_iff split: sum.splits)
  qed
  have loop: "dswp_inv (fold ?f vols d) \<and> (\<forall>p v. dswp_wanted d p v \<longrightarrow> dswp_wanted (fold ?f vols d) p v) \<and>
      dswp_processedPods (fold ?f vols d) = dswp_processedPods d \<and>
      kd_volumePluginMgr (dswp_desiredStateOfWorld (fold ?f vols d)) = kd_volumePluginMgr (dswp_desiredStateOfWorld d) \<and>
      (\<forall>vol \<in> set vols. \<forall>spec gid att v. kd_createVolumeSpec env vol (pod_Namespace pod) = Inr (spec, gid) \<longrightarrow>
        kd_volume_name (env_NewAttacher env) (kd_volumePluginMgr (dswp_desiredStateOfWorld d)) (pod_UID pod) spec = Inr (att, v) \<longrightarrow>
        dswp_wanted (fold ?f vols d) (pod_UID pod) v)" if "dswp_inv d" for vols d
    using that
  proof (induction vols arbitrary: d)
    case (Cons vol vols)
    note o = one [OF Cons.prems, of vol]
    have i: "dswp_inv (?f vol d)" using o by blast
    note ih = Cons.IH [OF i]
    let ?d' = "fold ?f vols (?f vol d)"
    have mono: "dswp_wanted (?f vol d) p v \<Longrightarrow> dswp_wanted ?d' p v" for p v using ih by blast
    have "dswp_wanted d p v \<Longrightarrow> dswp_wanted ?d' p v" for p v using o mono by blast
    moreover have "dswp_wanted ?d' (pod_UID pod) v"
      if w: "w \<in> set (vol # vols)" "kd_createVolumeSpec env w (pod_Namespace pod) = Inr (spec, gid)"
        "kd_volume_name (env_NewAttacher env) (kd_volumePluginMgr (dswp_desiredStateOfWorld d)) (pod_UID pod) spec = Inr (att, v)" for w spec gid att v
    proof (cases "w = vol")
      case True
      then show ?thesis using o [THEN conjunct2, THEN conjunct2, THEN conjunct2, THEN conjunct2, rule_format, of spec gid att v] w mono by simp
    next
      case False
      then have "w \<in> set vols" using w(1) by simp
      from ih [THEN conjunct2, THEN conjunct2, THEN conjunct2, THEN conjunct2, rule_format, OF this w(2), of att v] w(3) o
      show ?thesis by simp
    qed
    moreover have "dswp_inv ?d'" "dswp_processedPods ?d' = dswp_processedPods d"
        "kd_volumePluginMgr (dswp_desiredStateOfWorld ?d') = kd_volumePluginMgr (dswp_desiredStateOfWorld d)"
      using ih o by simp_all
    ultimately show ?case unfolding fold.simps comp_apply by blast
  qed simp
  show ?thesis
    using assms loop [OF assms, of "pod_Volumes pod"]
    by (auto simp: processPodVolumes_def markPodProcessed_def podPreviouslyProcessed_def Let_def)
qed

section \<open>Properties of the populator\<close>

text \<open>C22: The populator takes a volume away from a pod only if the pod manager does not know the pod, or
  the pod has terminated and the volume is memory-backed, a config map or a secret, and the container
  runtime answered that the pod has no running containers; if the runtime cannot be asked, nothing is
  removed. When the runtime answers at once, every such volume is removed.\<close>

theorem populator_removes_exactly:
  assumes "kd_inv (dswp_desiredStateOfWorld dswp)"
  shows "(\<forall>p v. kd_PodExistsInVolume (dswp_desiredStateOfWorld dswp) p v \<and>
        \<not> kd_PodExistsInVolume (dswp_desiredStateOfWorld (kd_findAndRemoveDeletedPods env now dswp)) p v \<longrightarrow>
        (\<exists>m \<in> set (kd_GetVolumesToMount (dswp_desiredStateOfWorld dswp)). vtm_key m = (p, v) \<and> \<not> pod_needs_volume env m \<and>
          (\<exists>i pods. env_RuntimeGetPods env i = Inr pods \<and> \<not> has_running_containers pods (pod_UID (vtm_Pod m))))) \<and>
    (\<forall>pods. env_RuntimeGetPods env 0 = Inr pods \<longrightarrow>
       (\<forall>m \<in> set (kd_GetVolumesToMount (dswp_desiredStateOfWorld dswp)).
          \<not> pod_needs_volume env m \<and> \<not> has_running_containers pods (pod_UID (vtm_Pod m)) \<longrightarrow>
          \<not> kd_PodExistsInVolume (dswp_desiredStateOfWorld (kd_findAndRemoveDeletedPods env now dswp)) (vtm_PodName m) (vtm_VolumeName m)))"
proof -
  let ?ms = "kd_GetVolumesToMount (dswp_desiredStateOfWorld dswp)"
  obtain running calls where r: "fold (remove_iteration env now) ?ms (None, 0, dswp) = (running, calls, kd_findAndRemoveDeletedPods env now dswp)"
    unfolding kd_findAndRemoveDeletedPods_def by (metis prod.collapse)
  show ?thesis
    using populator_remove_loop [OF assms r] populator_remove_complete [OF assms r] by (simp add: remove_ok_def) blast
qed

definition sample_env :: populator_env where
  "sample_env = \<lparr>env_GetPods = [sample_kpod\<lparr>pod_Volumes := [\<lparr>vol_Name = ''v'', vol_NVMEOF = None, vol_PersistentVolumeClaim = None,
      vol_EmptyDir = None, vol_ConfigMap = False, vol_Secret = False, vol_source = ''''\<rparr>]\<rparr>], env_GetPodByUID = (\<lambda>_. None),
     env_RuntimeGetPods = (\<lambda>_. Inr []), env_GetPVC = (\<lambda>_ _. Inr None), env_GetPV = (\<lambda>_. Inr None), env_DeepCopy = Inr,
     env_NewAttacher = (\<lambda>_. None)\<rparr>"

definition sample_dswp :: desiredStateOfWorldPopulator where
  "sample_dswp = \<lparr>dswp_getPodStatusRetryDuration = 2, dswp_desiredStateOfWorld = kd_NewDesiredStateOfWorld [(''p'', sample_plugin ''p'')],
     dswp_processedPods = [], dswp_timeOfLastGetPodStatus = 0\<rparr>"

definition sample_populated :: desiredStateOfWorldPopulator where
  "sample_populated = findAndAddNewPods sample_env sample_dswp"

lemma findAndAdd_loop:
  assumes "dswp_inv dswp"
  shows "dswp_inv (fold (\<lambda>pod dswp. if isPodTerminated pod then dswp else processPodVolumes env pod dswp) pods dswp) \<and>
    (\<forall>p v. dswp_wanted dswp p v \<longrightarrow>
       dswp_wanted (fold (\<lambda>pod dswp. if isPodTerminated pod then dswp else processPodVolumes env pod dswp) pods dswp) p v)"
  using assms
proof (induction pods arbitrary: dswp)
  case (Cons pod pods)
  have step: "dswp_inv (if isPodTerminated pod then dswp else processPodVolumes env pod dswp) \<and>
      (\<forall>p v. dswp_wanted dswp p v \<longrightarrow> dswp_wanted (if isPodTerminated pod then dswp else processPodVolumes env pod dswp) p v)"
    using Cons.prems processPodVolumes_facts [OF Cons.prems, of env pod] by simp
  show ?case unfolding fold.simps comp_apply using Cons.IH [OF step [THEN conjunct1]] step by blast
qed simp

lemma sample_populated_inv: "kd_inv (dswp_desiredStateOfWorld sample_populated)"
  unfolding sample_populated_def findAndAddNewPods_def
  by (rule findAndAdd_loop [THEN conjunct1]) (simp add: sample_dswp_def kd_new)

theorem populator_removes_exactly_witness:
  "kd_inv (dswp_desiredStateOfWorld sample_populated) \<and> kd_PodExistsInVolume (dswp_desiredStateOfWorld sample_populated) ''u'' ''p/v'' \<and>
   \<not> kd_PodExistsInVolume (dswp_desiredStateOfWorld (kd_findAndRemoveDeletedPods sample_env 9 sample_populated)) ''u'' ''p/v''"
proof -
  let ?ms = "kd_GetVolumesToMount (dswp_desiredStateOfWorld sample_populated)"
  have "map vtm_key ?ms = [(''u'', ''p/v'')] \<and> list_all (\<lambda>m. \<not> pod_needs_volume sample_env m \<and> \<not> has_running_containers [] (pod_UID (vtm_Pod m))) ?ms"
    by code_simp
  then obtain m where m: "m \<in> set ?ms" "vtm_PodName m = ''u''" "vtm_VolumeName m = ''p/v''" "\<not> pod_needs_volume sample_env m"
      "\<not> has_running_containers [] (pod_UID (vtm_Pod m))"
    by (auto simp: vtm_key_def)
  have "kd_PodExistsInVolume (dswp_desiredStateOfWorld sample_populated) ''u'' ''p/v''" by code_simp
  moreover have "env_RuntimeGetPods sample_env 0 = Inr []" by (simp add: sample_env_def)
  ultimately show ?thesis
    using sample_populated_inv m populator_removes_exactly [OF sample_populated_inv, of sample_env 9] by metis
qed

text \<open>A pass of the populator makes every pod of the pod manager that has not terminated and was not
  processed before want each of its volumes whose spec can be determined and that a plugin supports.\<close>

theorem populator_adds_running_pods:
  assumes "kd_inv (dswp_desiredStateOfWorld dswp)" and "distinct (map pod_UID (env_GetPods env))"
    and "pod \<in> set (env_GetPods env)" and "\<not> isPodTerminated pod" and "\<not> podPreviouslyProcessed (pod_UID pod) dswp"
    and "vol \<in> set (pod_Volumes pod)" and "kd_createVolumeSpec env vol (pod_Namespace pod) = Inr (spec, gid)"
    and "kd_volume_name (env_NewAttacher env) (kd_volumePluginMgr (dswp_desiredStateOfWorld dswp)) (pod_UID pod) spec = Inr (att, v)"
  shows "kd_PodExistsInVolume (dswp_desiredStateOfWorld (findAndAddNewPods env dswp)) (pod_UID pod) v"
proof -
  have "dswp_wanted (fold (\<lambda>pod dswp. if isPodTerminated pod then dswp else processPodVolumes env pod dswp) pods d) (pod_UID pod) v"
    if "dswp_inv d" "distinct (map pod_UID pods)" "pod \<in> set pods" "\<not> podPreviouslyProcessed (pod_UID pod) d"
      "kd_volumePluginMgr (dswp_desiredStateOfWorld d) = kd_volumePluginMgr (dswp_desiredStateOfWorld dswp)" for pods d
    using that
  proof (induction pods arbitrary: d)
    case (Cons pod' pods)
    let ?d = "if isPodTerminated pod' then d else processPodVolumes env pod' d"
    note f = processPodVolumes_facts [OF Cons.prems(1), of env pod']
    have i: "dswp_inv ?d" using f Cons.prems(1) by simp
    have g: "kd_volumePluginMgr (dswp_desiredStateOfWorld ?d) = kd_volumePluginMgr (dswp_desiredStateOfWorld dswp)" using f Cons.prems(5) by simp
    show ?case
    proof (cases "pod' = pod")
      case True
      then have "dswp_wanted (processPodVolumes env pod d) (pod_UID pod) v"
        using f [THEN conjunct2, THEN conjunct2, THEN conjunct2, THEN conjunct2, rule_format, of vol spec gid att v] Cons.prems(4,5) assms(6-8) by simp
      then show ?thesis unfolding fold.simps comp_apply True using findAndAdd_loop [OF i [unfolded True], of env pods] assms(4) by simp
    next
      case False
      then have p: "pod \<in> set pods" using Cons.prems(3) by auto
      then have "pod_UID pod' \<noteq> pod_UID pod" using Cons.prems(2) by auto
      then have "\<not> podPreviouslyProcessed (pod_UID pod) ?d" using f Cons.prems(4) by (auto simp: podPreviouslyProcessed_def)
      from Cons.IH [OF i _ p this g] Cons.prems(2) show ?thesis unfolding fold.simps comp_apply by simp
    qed
  qed simp
  from this [OF assms(1-3,5) refl] show ?thesis by (simp add: findAndAddNewPods_def)
qed

theorem populator_adds_running_pods_witness:
  "\<not> kd_PodExistsInVolume (dswp_desiredStateOfWorld sample_dswp) ''u'' ''p/v'' \<and>
   kd_PodExistsInVolume (dswp_desiredStateOfWorld (findAndAddNewPods sample_env sample_dswp)) ''u'' ''p/v''"
proof -
  let ?vol = "\<lparr>vol_Name = ''v'', vol_NVMEOF = None, vol_PersistentVolumeClaim = None, vol_EmptyDir = None,
    vol_ConfigMap = False, vol_Secret = False, vol_source = ''''\<rparr>"
  let ?pod = "sample_kpod\<lparr>pod_Volumes := [?vol]\<rparr>"
  have inv: "kd_inv (dswp_desiredStateOfWorld sample_dswp)" by (simp add: sample_dswp_def kd_new)
  have pods: "env_GetPods sample_env = [?pod]" by (simp add: sample_env_def)
  have spec: "kd_createVolumeSpec sample_env ?vol (pod_Namespace ?pod) = Inr (sample_spec, '''')"
    by (simp add: kd_createVolumeSpec_def sample_env_def sample_spec_def)
  have name: "kd_volume_name (env_NewAttacher sample_env) (kd_volumePluginMgr (dswp_desiredStateOfWorld sample_dswp)) (pod_UID ?pod) sample_spec =
      Inr (True, ''p/v'')" by code_simp
  have "kd_PodExistsInVolume (dswp_desiredStateOfWorld (findAndAddNewPods sample_env sample_dswp)) (pod_UID ?pod) ''p/v''"
    by (rule populator_adds_running_pods [OF inv _ _ _ _ _ spec name])
      (simp_all add: pods, simp_all add: isPodTerminated_def sample_kpod_def podPreviouslyProcessed_def sample_dswp_def)
  then show ?thesis by (simp add: sample_kpod_def sample_dswp_def kd_NewDesiredStateOfWorld_def kd_PodExistsInVolume_def)
qed

section \<open>Properties of the volume manager\<close>

lemma in_use_desired_loop:
  "fold (\<lambda>volume (m, r). if vtm_PluginIsAttachable volume then (mput (vtm_VolumeName volume) True m, r @ [vtm_VolumeName volume]) else (m, r)) vs (m, r) =
     (m', r') \<Longrightarrow>
   (\<forall>k. mhas m' k \<longleftrightarrow> mhas m k \<or> k \<in> vtm_VolumeName ` set (filter vtm_PluginIsAttachable vs)) \<and>
   r' = r @ map vtm_VolumeName (filter vtm_PluginIsAttachable vs)"
proof (induction vs arbitrary: m r)
  case (Cons v vs)
  show ?case
  proof (cases "vtm_PluginIsAttachable v")
    case True
    with Cons.prems have "fold (\<lambda>volume (m, r). if vtm_PluginIsAttachable volume then (mput (vtm_VolumeName volume) True m, r @ [vtm_VolumeName volume]) else (m, r))
        vs (mput (vtm_VolumeName v) True m, r @ [vtm_VolumeName v]) = (m', r')" by simp
    from Cons.IH [OF this] True show ?thesis by auto
  qed (use Cons in simp)
qed simp

lemma in_use_mounted_loop:
  "fold (\<lambda>volume r. if P volume then r @ [f volume] else r) vs r = r @ map f (filter P vs)"
  by (induction vs arbitrary: r) auto

lemma GetVolumesInUse_set:
  "set (GetVolumesInUse dsw asw) = vtm_VolumeName ` {m \<in> set (kd_GetVolumesToMount dsw). vtm_PluginIsAttachable m} \<union>
     atv_VolumeName ` {a \<in> set (ka_GetGloballyMountedVolumes asw). atv_PluginIsAttachable a}"
proof -
  obtain m' r' where l: "fold (\<lambda>volume (m, r). if vtm_PluginIsAttachable volume
      then (mput (vtm_VolumeName volume) True m, r @ [vtm_VolumeName volume]) else (m, r)) (kd_GetVolumesToMount dsw) ([], []) = (m', r')"
    by (rule prod.exhaust)
  have l': "\<And>k. mhas m' k \<longleftrightarrow> k \<in> vtm_VolumeName ` set (filter vtm_PluginIsAttachable (kd_GetVolumesToMount dsw))"
      "r' = map vtm_VolumeName (filter vtm_PluginIsAttachable (kd_GetVolumesToMount dsw))"
    using in_use_desired_loop [OF l] by simp_all
  have "GetVolumesInUse dsw asw = r' @ map atv_VolumeName (filter (\<lambda>volume. atv_PluginIsAttachable volume \<and> \<not> mhas m' (atv_VolumeName volume))
      (ka_GetGloballyMountedVolumes asw))"
    unfolding GetVolumesInUse_def Let_def l prod.case by (rule in_use_mounted_loop)
  then show ?thesis by (simp only: set_append set_map l' set_filter) blast
qed

text \<open>A volume whose device is mounted, or that a pod wants, is in use if its plugin can attach it.\<close>

lemma mounted_device_in_use:
  assumes "mget (ka_attachedVolumes asw) v = Some o'" and "kav_volumeName o' = v" and "kav_globallyMounted o'" and "kav_pluginIsAttachable o'"
  shows "v \<in> set (GetVolumesInUse dsw asw)"
proof -
  have "newAttachedVolume asw o' \<in> set (ka_GetGloballyMountedVolumes asw)"
    using mget_SomeD [OF assms(1)] assms(3) by (force simp: ka_GetGloballyMountedVolumes_def)
  moreover have "atv_VolumeName (newAttachedVolume asw o') = v" "atv_PluginIsAttachable (newAttachedVolume asw o')"
    using assms by (simp_all add: newAttachedVolume_def)
  ultimately show ?thesis unfolding GetVolumesInUse_set by blast
qed

lemma WaitFor_Inr:
  "WaitFor ticks (\<lambda>i. Inr (ok i)) k = None \<longleftrightarrow> (\<exists>i. k \<le> i \<and> i \<le> k + ticks \<and> ok i)"
proof (induction ticks arbitrary: k)
  case 0
  show ?case by (subst WaitFor.simps) (auto split: bool.split dest: le_antisym)
next
  case (Suc ticks)
  have "(\<exists>i. k \<le> i \<and> i \<le> k + Suc ticks \<and> ok i) \<longleftrightarrow> ok k \<or> (\<exists>i. Suc k \<le> i \<and> i \<le> Suc k + ticks \<and> ok i)"
    by (metis Suc_leD Suc_leI add_Suc_right add_Suc le_add1 le_neq_implies_less order_refl)
  then show ?case by (subst WaitFor.simps) (simp split: bool.split add: Suc)
qed



lemma ParseInt64_range: "ParseInt64 s = Some i \<Longrightarrow> int64_min \<le> i \<and> i \<le> int64_max"
  by (auto simp: ParseInt64_def Let_def split: prod.splits if_splits)

text \<open>The extra supplemental groups of a pod are exactly the numbers that the group annotations of the
  volumes mounted for it denote, without the groups the pod has already; annotations that are not a
  decimal number of 64 bits are ignored, so every group fits into an \<open>int64\<close>.\<close>

theorem extra_groups_exact:
  "set (GetExtraSupplementalGroupsForPod asw pod) =
     {g. g \<notin> set (pod_SupplementalGroups pod) \<and>
         (\<exists>m. m \<in> set (ka_GetMountedVolumesForPod asw (pod_UID pod)) \<and> ParseInt64 (mtv_VolumeGidValue m) = Some g)} \<and>
   set (GetExtraSupplementalGroupsForPod asw pod) \<subseteq> {int64_min .. int64_max}"
proof -
  have one: "g \<in> set (let (iGroup, extra) = getExtraSupplementalGid group pod in if \<not> extra then [] else [iGroup]) \<longleftrightarrow>
      ParseInt64 group = Some g \<and> g \<notin> set (pod_SupplementalGroups pod)" for group g
    by (auto simp: getExtraSupplementalGid_def ParseInt64_def [of "[]"] split: option.split)
  have "ParseInt64 [] = None" by (simp add: ParseInt64_def)
  then have "set (GetExtraSupplementalGroupsForPod asw pod) = {g. g \<notin> set (pod_SupplementalGroups pod) \<and>
      (\<exists>m. m \<in> set (ka_GetMountedVolumesForPod asw (pod_UID pod)) \<and> ParseInt64 (mtv_VolumeGidValue m) = Some g)}"
    unfolding GetExtraSupplementalGroupsForPod_def Let_def [of "sort _"] set_concat set_map set_sort set_remdups set_filter
    using one by (auto simp: Bex_def)
  then show ?thesis by (auto dest: ParseInt64_range)
qed

end
