(* ===== verification/Indexed_Store.thy ===== *)
theory Indexed_Store
  imports Go_Strings "HOL-Library.Char_ord" "HOL-Library.List_Lexorder"
begin

text \<open>
  The client-side object caches: the indexed map of \<open>pkg/client/cache/thread_safe_store.go\<close>
  (\<open>threadSafeMap\<close>, every method) and the store in front of it in \<open>pkg/client/cache/store.go\<close>
  (\<open>cache\<close>). The indices are maintained incrementally by \<open>updateIndices\<close> and \<open>deleteFromIndices\<close>;
  the theorems compare them with a scan of the stored objects. A method runs under the lock of the
  store, so each is one function on the state.
\<close>

named_theorems tsm_defs \<open>definitions of the methods of the indexed map\<close>

section \<open>State\<close>

text \<open>
  A \<open>sets.String\<close> is a list of distinct strings in the order of a \<open>range\<close> loop. An index function
  returns index values or an error (the values returned beside an error are never used).
\<close>

type_synonym 'a index_func = "'a \<Rightarrow> error + string list"
type_synonym index = "(string, string list) gomap"

record 'a threadSafeMap =
  tsm_items :: "(string, 'a) gomap"
  tsm_indexers :: "(string, 'a index_func) gomap"
  tsm_indices :: "(string, index) gomap"

definition NewThreadSafeStore ::
  "(string, 'a index_func) gomap \<Rightarrow> (string, index) gomap \<Rightarrow> 'a threadSafeMap" where
  "NewThreadSafeStore indexers indices =
     \<lparr>tsm_items = [], tsm_indexers = indexers, tsm_indices = indices\<rparr>"

section \<open>Index maintenance\<close>

fun index_remove :: "string \<Rightarrow> string list \<Rightarrow> index \<Rightarrow> index" where
  "index_remove key [] index = index"
| "index_remove key (indexValue # vs) index =
     index_remove key vs
       (case mget index indexValue of
          None \<Rightarrow> index
        | Some keys \<Rightarrow> mput indexValue (removeAll key keys) index)"

fun deleteFromIndices_loop ::
  "'a \<Rightarrow> string \<Rightarrow> (string, 'a index_func) gomap \<Rightarrow> (string, index) gomap \<Rightarrow>
   (string, index) gomap \<times> error option" where
  "deleteFromIndices_loop obj key [] indices = (indices, None)"
| "deleteFromIndices_loop obj key ((name, indexFunc) # rest) indices =
     (case indexFunc obj of
        Inl err \<Rightarrow> (indices, Some err)
      | Inr indexValues \<Rightarrow>
          (case mget indices name of
             None \<Rightarrow> deleteFromIndices_loop obj key rest indices
           | Some index \<Rightarrow>
               deleteFromIndices_loop obj key rest
                 (mput name (index_remove key indexValues index) indices)))"

definition deleteFromIndices ::
  "'a threadSafeMap \<Rightarrow> 'a \<Rightarrow> string \<Rightarrow> 'a threadSafeMap \<times> error option" where
  "deleteFromIndices c obj key =
     (let (indices, err) = deleteFromIndices_loop obj key (tsm_indexers c) (tsm_indices c)
      in (c\<lparr>tsm_indices := indices\<rparr>, err))"

fun index_insert :: "string \<Rightarrow> string list \<Rightarrow> index \<Rightarrow> index" where
  "index_insert key [] index = index"
| "index_insert key (indexValue # vs) index =
     index_insert key vs
       (mput indexValue
          (List.insert key (case mget index indexValue of None \<Rightarrow> [] | Some keys \<Rightarrow> keys)) index)"

fun updateIndices_loop ::
  "'a \<Rightarrow> string \<Rightarrow> (string, 'a index_func) gomap \<Rightarrow> (string, index) gomap \<Rightarrow>
   (string, index) gomap \<times> error option" where
  "updateIndices_loop newObj key [] indices = (indices, None)"
| "updateIndices_loop newObj key ((name, indexFunc) # rest) indices =
     (case indexFunc newObj of
        Inl err \<Rightarrow> (indices, Some err)
      | Inr indexValues \<Rightarrow>
          (let index = (case mget indices name of None \<Rightarrow> [] | Some index \<Rightarrow> index)
           in updateIndices_loop newObj key rest
                (mput name (index_insert key indexValues index) indices)))"

definition updateIndices ::
  "'a threadSafeMap \<Rightarrow> 'a option \<Rightarrow> 'a \<Rightarrow> string \<Rightarrow> 'a threadSafeMap \<times> error option" where
  "updateIndices c oldObj newObj key =
     (let c = (case oldObj of None \<Rightarrow> c | Some obj \<Rightarrow> fst (deleteFromIndices c obj key));
          (indices, err) = updateIndices_loop newObj key (tsm_indexers c) (tsm_indices c)
      in (c\<lparr>tsm_indices := indices\<rparr>, err))"

section \<open>Methods of the indexed map\<close>

definition tsm_Add :: "'a threadSafeMap \<Rightarrow> string \<Rightarrow> 'a \<Rightarrow> 'a threadSafeMap" where [tsm_defs]:
  "tsm_Add c key obj =
     (let oldObject = mget (tsm_items c) key;
          c = c\<lparr>tsm_items := mput key obj (tsm_items c)\<rparr>
      in fst (updateIndices c oldObject obj key))"

definition tsm_Update :: "'a threadSafeMap \<Rightarrow> string \<Rightarrow> 'a \<Rightarrow> 'a threadSafeMap" where [tsm_defs]:
  "tsm_Update c key obj =
     (let oldObject = mget (tsm_items c) key;
          c = c\<lparr>tsm_items := mput key obj (tsm_items c)\<rparr>
      in fst (updateIndices c oldObject obj key))"

definition tsm_Delete :: "'a threadSafeMap \<Rightarrow> string \<Rightarrow> 'a threadSafeMap" where [tsm_defs]:
  "tsm_Delete c key =
     (case mget (tsm_items c) key of
        None \<Rightarrow> c
      | Some obj \<Rightarrow>
          (let c = fst (deleteFromIndices c obj key)
           in c\<lparr>tsm_items := mdel key (tsm_items c)\<rparr>))"

definition tsm_Get :: "'a threadSafeMap \<Rightarrow> string \<Rightarrow> 'a option" where [tsm_defs]:
  "tsm_Get c key = mget (tsm_items c) key"

definition tsm_List :: "'a threadSafeMap \<Rightarrow> 'a list" where [tsm_defs]:
  "tsm_List c = map snd (tsm_items c)"

definition tsm_ListKeys :: "'a threadSafeMap \<Rightarrow> string list" where [tsm_defs]:
  "tsm_ListKeys c = map fst (tsm_items c)"

fun rebuild_loop :: "(string, 'a) gomap \<Rightarrow> 'a threadSafeMap \<Rightarrow> 'a threadSafeMap" where
  "rebuild_loop [] c = c"
| "rebuild_loop ((key, item) # rest) c = rebuild_loop rest (fst (updateIndices c None item key))"

definition tsm_Replace :: "'a threadSafeMap \<Rightarrow> (string, 'a) gomap \<Rightarrow> 'a threadSafeMap" where [tsm_defs]:
  "tsm_Replace c items = rebuild_loop items (c\<lparr>tsm_items := items, tsm_indices := []\<rparr>)"

definition index_set :: "'a threadSafeMap \<Rightarrow> string \<Rightarrow> string \<Rightarrow> string list" where
  "index_set c indexName indexKey =
     (case mget (tsm_indices c) indexName of
        None \<Rightarrow> []
      | Some index \<Rightarrow> (case mget index indexKey of None \<Rightarrow> [] | Some keys \<Rightarrow> keys))"

text \<open>
  \<open>Index\<close> and \<open>ByIndex\<close> read \<open>c.items[key]\<close> for the keys of the index: the value is \<open>nil\<close> for a
  key that is not stored, so the results are lists of optional objects.
\<close>

definition tsm_Index :: "'a threadSafeMap \<Rightarrow> string \<Rightarrow> 'a \<Rightarrow> error + 'a option list" where [tsm_defs]:
  "tsm_Index c indexName obj =
     (case mget (tsm_indexers c) indexName of
        None \<Rightarrow> Inl (Errorf ''Index with name does not exist'' None)
      | Some indexFunc \<Rightarrow>
          (case indexFunc obj of
             Inl err \<Rightarrow> Inl err
           | Inr indexKeys \<Rightarrow>
               (let returnKeySet = fold (\<lambda>indexKey. fold List.insert (index_set c indexName indexKey)) indexKeys []
                in Inr (map (mget (tsm_items c)) returnKeySet))))"

definition tsm_ByIndex :: "'a threadSafeMap \<Rightarrow> string \<Rightarrow> string \<Rightarrow> error + 'a option list" where [tsm_defs]:
  "tsm_ByIndex c indexName indexKey =
     (case mget (tsm_indexers c) indexName of
        None \<Rightarrow> Inl (Errorf ''Index with name does not exist'' None)
      | Some indexFunc \<Rightarrow>
          Inr (map (mget (tsm_items c)) (sort (index_set c indexName indexKey))))"

definition tsm_ListIndexFuncValues :: "'a threadSafeMap \<Rightarrow> string \<Rightarrow> string list" where [tsm_defs]:
  "tsm_ListIndexFuncValues c indexName =
     (case mget (tsm_indices c) indexName of None \<Rightarrow> [] | Some index \<Rightarrow> map fst index)"

definition tsm_AddIndexers ::
  "'a threadSafeMap \<Rightarrow> (string, 'a index_func) gomap \<Rightarrow> 'a threadSafeMap \<times> error option" where [tsm_defs]:
  "tsm_AddIndexers c newIndexers =
     (if tsm_items c \<noteq> [] then (c, Some (Errorf ''cannot add indexers to running index'' None))
      else if \<exists>k \<in> set (map fst newIndexers). mhas (tsm_indexers c) k
      then (c, Some (Errorf ''indexer conflict'' None))
      else (c\<lparr>tsm_indexers := fold (\<lambda>(k, v). mput k v) newIndexers (tsm_indexers c)\<rparr>, None))"

section \<open>The cache\<close>

text \<open>
  \<open>cache\<close> computes the key of an object and calls the indexed map. \<open>KeyError\<close> wraps the error of the
  key function.
\<close>

type_synonym 'a key_func = "'a \<Rightarrow> error + string"

record 'a cache =
  cacheStorage :: "'a threadSafeMap"
  keyFunc :: "'a key_func"

definition KeyError :: "error \<Rightarrow> error" where
  "KeyError err = Errorf ''couldn't create key for object'' (Some err)"

definition cache_Add :: "'a cache \<Rightarrow> 'a \<Rightarrow> 'a cache \<times> error option" where
  "cache_Add c obj =
     (case keyFunc c obj of
        Inl err \<Rightarrow> (c, Some (KeyError err))
      | Inr key \<Rightarrow> (c\<lparr>cacheStorage := tsm_Add (cacheStorage c) key obj\<rparr>, None))"

definition cache_Update :: "'a cache \<Rightarrow> 'a \<Rightarrow> 'a cache \<times> error option" where
  "cache_Update c obj =
     (case keyFunc c obj of
        Inl err \<Rightarrow> (c, Some (KeyError err))
      | Inr key \<Rightarrow> (c\<lparr>cacheStorage := tsm_Update (cacheStorage c) key obj\<rparr>, None))"

definition cache_Delete :: "'a cache \<Rightarrow> 'a \<Rightarrow> 'a cache \<times> error option" where
  "cache_Delete c obj =
     (case keyFunc c obj of
        Inl err \<Rightarrow> (c, Some (KeyError err))
      | Inr key \<Rightarrow> (c\<lparr>cacheStorage := tsm_Delete (cacheStorage c) key\<rparr>, None))"

definition cache_List :: "'a cache \<Rightarrow> 'a list" where
  "cache_List c = tsm_List (cacheStorage c)"

definition cache_ListKeys :: "'a cache \<Rightarrow> string list" where
  "cache_ListKeys c = tsm_ListKeys (cacheStorage c)"

definition cache_Index :: "'a cache \<Rightarrow> string \<Rightarrow> 'a \<Rightarrow> error + 'a option list" where
  "cache_Index c indexName obj = tsm_Index (cacheStorage c) indexName obj"

definition cache_ListIndexFuncValues :: "'a cache \<Rightarrow> string \<Rightarrow> string list" where
  "cache_ListIndexFuncValues c indexName = tsm_ListIndexFuncValues (cacheStorage c) indexName"

definition cache_ByIndex :: "'a cache \<Rightarrow> string \<Rightarrow> string \<Rightarrow> error + 'a option list" where
  "cache_ByIndex c indexName indexKey = tsm_ByIndex (cacheStorage c) indexName indexKey"

definition cache_AddIndexers :: "'a cache \<Rightarrow> (string, 'a index_func) gomap \<Rightarrow> 'a cache \<times> error option" where
  "cache_AddIndexers c newIndexers =
     (let (st, err) = tsm_AddIndexers (cacheStorage c) newIndexers in (c\<lparr>cacheStorage := st\<rparr>, err))"

definition cache_GetByKey :: "'a cache \<Rightarrow> string \<Rightarrow> 'a option" where
  "cache_GetByKey c key = tsm_Get (cacheStorage c) key"

definition cache_Get :: "'a cache \<Rightarrow> 'a \<Rightarrow> error + 'a option" where
  "cache_Get c obj =
     (case keyFunc c obj of Inl err \<Rightarrow> Inl (KeyError err) | Inr key \<Rightarrow> Inr (cache_GetByKey c key))"

fun replace_items :: "'a key_func \<Rightarrow> 'a list \<Rightarrow> (string, 'a) gomap \<Rightarrow> error + (string, 'a) gomap" where
  "replace_items kf [] items = Inr items"
| "replace_items kf (item # rest) items =
     (case kf item of
        Inl err \<Rightarrow> Inl (KeyError err)
      | Inr key \<Rightarrow> replace_items kf rest (mput key item items))"

definition cache_Replace :: "'a cache \<Rightarrow> 'a list \<Rightarrow> 'a cache \<times> error option" where
  "cache_Replace c list =
     (case replace_items (keyFunc c) list [] of
        Inl err \<Rightarrow> (c, Some err)
      | Inr items \<Rightarrow> (c\<lparr>cacheStorage := tsm_Replace (cacheStorage c) items\<rparr>, None))"

definition NewIndexer :: "'a key_func \<Rightarrow> (string, 'a index_func) gomap \<Rightarrow> 'a cache" where
  "NewIndexer kf indexers = \<lparr>cacheStorage = NewThreadSafeStore indexers [], keyFunc = kf\<rparr>"

definition NewStore :: "'a key_func \<Rightarrow> 'a cache" where
  "NewStore kf = \<lparr>cacheStorage = NewThreadSafeStore [] [], keyFunc = kf\<rparr>"

text \<open>The keys of API objects: \<open>MetaNamespaceKeyFunc\<close> on the namespace and name, and its inverse.\<close>

definition MetaNamespaceKey :: "string \<Rightarrow> string \<Rightarrow> string" where
  "MetaNamespaceKey namespace name = (if namespace \<noteq> [] then namespace @ ''/'' @ name else name)"

definition SplitMetaNamespaceKey :: "string \<Rightarrow> error + (string \<times> string)" where
  "SplitMetaNamespaceKey key =
     (case strings_Split key (CHR ''/'') of
        [name] \<Rightarrow> Inr ([], name)
      | [namespace, name] \<Rightarrow> Inr (namespace, name)
      | _ \<Rightarrow> Inl (Errorf ''unexpected key format'' None))"

lemma SplitMetaNamespaceKey_MetaNamespaceKey:
  assumes "CHR ''/'' \<notin> set namespace" and "CHR ''/'' \<notin> set name"
  shows "SplitMetaNamespaceKey (MetaNamespaceKey namespace name) = Inr (namespace, name)"
  using assms
  by (simp add: SplitMetaNamespaceKey_def MetaNamespaceKey_def strings_Split_append strings_Split_notin)

section \<open>The indices hold what a scan finds\<close>

definition index_values :: "'a index_func \<Rightarrow> 'a \<Rightarrow> string list" where
  "index_values f obj = (case f obj of Inl _ \<Rightarrow> [] | Inr vs \<Rightarrow> vs)"

definition index_total :: "(string, 'a index_func) gomap \<Rightarrow> bool" where
  "index_total fs \<longleftrightarrow> (\<forall>(n, f) \<in> set fs. \<forall>obj. \<not> isl (f obj))"

definition index_val :: "index \<Rightarrow> string \<Rightarrow> string list" where
  "index_val ix v = (case mget ix v of None \<Rightarrow> [] | Some keys \<Rightarrow> keys)"

definition index_lookup :: "(string, index) gomap \<Rightarrow> string \<Rightarrow> string \<Rightarrow> string list" where
  "index_lookup ixs name v = (case mget ixs name of None \<Rightarrow> [] | Some ix \<Rightarrow> index_val ix v)"

lemma index_set_lookup: "index_set c = index_lookup (tsm_indices c)"
  by (intro ext) (simp add: index_set_def index_lookup_def index_val_def split: option.split)

lemma index_val_mput: "index_val (mput w keys ix) v = (if v = w then keys else index_val ix v)"
  by (simp add: index_val_def gm.get_put)

lemma index_val_remove:
  "index_val (index_remove key vs ix) v =
     (if v \<in> set vs then removeAll key (index_val ix v) else index_val ix v)"
proof (induction key vs ix rule: index_remove.induct)
  case (2 key w vs ix)
  then show ?case
    by (cases "mget ix w") (auto simp: index_val_mput, auto simp: index_val_def)
qed simp

lemma index_val_insert:
  "index_val (index_insert key vs ix) v =
     (if v \<in> set vs then List.insert key (index_val ix v) else index_val ix v)"
proof (induction key vs ix rule: index_insert.induct)
  case (2 key w vs ix)
  have "(case mget ix w of None \<Rightarrow> [] | Some keys \<Rightarrow> keys) = index_val ix w"
    by (simp add: index_val_def)
  with 2 show ?case by (simp add: index_val_mput)
qed simp

lemma index_total_Cons:
  "index_total ((n, f) # fs) \<longleftrightarrow> (\<forall>obj. f obj = Inr (index_values f obj)) \<and> index_total fs"
proof -
  have "\<not> isl (f obj) \<longleftrightarrow> f obj = Inr (index_values f obj)" for obj
    by (cases "f obj") (auto simp: index_values_def)
  then show ?thesis by (auto simp: index_total_def)
qed

lemma index_lookup_mput:
  "index_lookup (mput n ix ixs) name v = (if name = n then index_val ix v else index_lookup ixs name v)"
  by (simp add: index_lookup_def gm.get_put)

definition indexed_by :: "(string, 'a index_func) gomap \<Rightarrow> string \<Rightarrow> 'a \<Rightarrow> string \<Rightarrow> bool" where
  "indexed_by fs name obj v =
     (case mget fs name of None \<Rightarrow> False | Some f \<Rightarrow> v \<in> set (index_values f obj))"

lemma deleteFromIndices_loop_lookup:
  "index_total fs \<Longrightarrow> mwf fs \<Longrightarrow>
   snd (deleteFromIndices_loop obj key fs ixs) = None \<and>
   index_lookup (fst (deleteFromIndices_loop obj key fs ixs)) name v =
     (if indexed_by fs name obj v then removeAll key (index_lookup ixs name v)
      else index_lookup ixs name v)"
proof (induction obj key fs ixs rule: deleteFromIndices_loop.induct)
  case (2 obj key n f fs ixs)
  from 2(3,4) have f: "f obj = Inr (index_values f obj)" and t: "index_total fs"
    and w: "mwf fs" "mget fs n = None"
    by (auto simp: index_total_Cons)
  show ?case
  proof (cases "mget ixs n")
    case None
    with 2(1) [OF f None t w(1)] f w(2) show ?thesis
      by (auto simp: indexed_by_def index_lookup_def)
  next
    case (Some ix)
    with 2(2) [OF f Some t w(1)] f w(2) show ?thesis
      by (auto simp: indexed_by_def index_lookup_mput index_val_remove, auto simp: index_lookup_def)
  qed
qed (simp add: indexed_by_def)

lemma updateIndices_loop_lookup:
  "index_total fs \<Longrightarrow> mwf fs \<Longrightarrow>
   snd (updateIndices_loop obj key fs ixs) = None \<and>
   index_lookup (fst (updateIndices_loop obj key fs ixs)) name v =
     (if indexed_by fs name obj v then List.insert key (index_lookup ixs name v)
      else index_lookup ixs name v)"
proof (induction obj key fs ixs rule: updateIndices_loop.induct)
  case (2 obj key n f fs ixs)
  from 2(2,3) have f: "f obj = Inr (index_values f obj)" and t: "index_total fs"
    and w: "mwf fs" "mget fs n = None"
    by (auto simp: index_total_Cons)
  let ?ix = "case mget ixs n of None \<Rightarrow> [] | Some index \<Rightarrow> index"
  have ix: "index_val ?ix u = index_lookup ixs n u" for u
    by (cases "mget ixs n") (simp_all add: index_lookup_def index_val_def)
  from 2(1) [OF f refl t w(1)] f w(2) show ?case
    by (auto simp: indexed_by_def index_lookup_mput index_val_insert ix Let_def)
qed (simp add: indexed_by_def)

text \<open>
  The invariant of the store: the key sets of an index are exactly the keys of the objects with that
  index value, and every value an index lists came from an object.
\<close>

definition index_exact :: "(string, 'a index_func) gomap \<Rightarrow> (string, 'a) gomap \<Rightarrow> (string, index) gomap \<Rightarrow> bool" where
  "index_exact fs items ixs \<longleftrightarrow>
     (\<forall>name v. distinct (index_lookup ixs name v)) \<and>
     (\<forall>name v key. key \<in> set (index_lookup ixs name v) \<longleftrightarrow>
        (\<exists>obj. mget items key = Some obj \<and> indexed_by fs name obj v))"

definition index_sound :: "(string, 'a index_func) gomap \<Rightarrow> (string, index) gomap \<Rightarrow> bool" where
  "index_sound fs ixs \<longleftrightarrow>
     mwf ixs \<and> mall (\<lambda>name ix. mwf ix \<and> (\<forall>v. mhas ix v \<longrightarrow> (\<exists>obj. indexed_by fs name obj v))) ixs"

definition tsm_inv :: "'a threadSafeMap \<Rightarrow> bool" where
  "tsm_inv c \<longleftrightarrow>
     mwf (tsm_items c) \<and> mwf (tsm_indexers c) \<and> index_total (tsm_indexers c) \<and>
     index_exact (tsm_indexers c) (tsm_items c) (tsm_indices c) \<and>
     index_sound (tsm_indexers c) (tsm_indices c)"

lemma index_exact_empty: "index_exact fs [] []"
  by (simp add: index_exact_def index_lookup_def)

lemma index_exact_del:
  assumes "index_exact fs items ixs" and "index_total fs" and "mwf fs"
    and "mget items key = Some obj"
  shows "index_exact fs (mdel key items) (fst (deleteFromIndices_loop obj key fs ixs))"
  using assms
  by (auto simp: index_exact_def deleteFromIndices_loop_lookup gm.get_del distinct_removeAll
      split: if_splits)

lemma index_exact_add:
  assumes "index_exact fs items ixs" and "index_total fs" and "mwf fs"
    and "mget items key = None"
  shows "index_exact fs (mput key obj items) (fst (updateIndices_loop obj key fs ixs))"
  using assms
  by (auto simp: index_exact_def updateIndices_loop_lookup gm.get_put split: if_splits)

lemma mhas_index_remove: "mhas (index_remove key vs ix) v \<longleftrightarrow> mhas ix v"
  by (induction key vs ix rule: index_remove.induct) (auto split: option.split simp: mhas_def gm.get_put)

lemma mhas_index_insert: "mhas (index_insert key vs ix) v \<longleftrightarrow> v \<in> set vs \<or> mhas ix v"
  by (induction key vs ix rule: index_insert.induct) auto

lemma mwf_index_remove [simp]: "mwf ix \<Longrightarrow> mwf (index_remove key vs ix)"
  by (induction key vs ix rule: index_remove.induct) (auto split: option.split)

lemma mwf_index_insert [simp]: "mwf ix \<Longrightarrow> mwf (index_insert key vs ix)"
  by (induction key vs ix rule: index_insert.induct) auto

lemma index_sound_remove:
  "index_sound fs ixs \<Longrightarrow> mget ixs n = Some ix \<Longrightarrow> index_sound fs (mput n (index_remove key vs ix) ixs)"
  by (auto simp: index_sound_def mhas_index_remove dest: mall_get)

lemma index_sound_del:
  "index_sound fs0 ixs \<Longrightarrow> index_sound fs0 (fst (deleteFromIndices_loop obj key fs ixs))"
  by (induction obj key fs ixs rule: deleteFromIndices_loop.induct)
    (auto simp: index_sound_remove split: sum.split option.split)

lemma index_sound_add:
  assumes "index_sound fs0 ixs" and "\<forall>(n, f) \<in> set fs. mget fs0 n = Some f"
  shows "index_sound fs0 (fst (updateIndices_loop obj key fs ixs))"
  using assms
proof (induction obj key fs ixs rule: updateIndices_loop.induct)
  case (2 obj key n f fs ixs)
  show ?case
  proof (cases "f obj")
    case (Inr vs)
    let ?ix = "case mget ixs n of None \<Rightarrow> [] | Some index \<Rightarrow> index"
    have ix: "mwf ?ix \<and> (\<forall>v. mhas ?ix v \<longrightarrow> (\<exists>obj. indexed_by fs0 n obj v))"
      using 2(2) by (auto simp: index_sound_def dest: mall_get split: option.split)
    have "\<exists>obj. indexed_by fs0 n obj v" if "v \<in> set vs" for v
      using that 2(3) Inr by (auto simp: indexed_by_def index_values_def intro: exI [of _ obj])
    then have "index_sound fs0 (mput n (index_insert key vs ?ix) ixs)"
      using 2(2) ix by (auto simp: index_sound_def mhas_index_insert)
    with 2(1) [OF Inr refl] 2(3) Inr show ?thesis by (simp add: Let_def)
  qed (use 2(2) in simp)
qed simp

lemma indexers_get: "mwf fs \<Longrightarrow> \<forall>(n, f) \<in> set fs. mget fs n = Some f"
  by (auto simp: gm.entries_get)

lemma index_sound_upd:
  "index_sound fs ixs \<Longrightarrow> mwf fs \<Longrightarrow> index_sound fs (fst (updateIndices_loop obj key fs ixs))"
  by (rule index_sound_add [OF _ indexers_get])

lemma tsm_inv_Delete: "tsm_inv c \<Longrightarrow> tsm_inv (tsm_Delete c key)"
  by (auto simp: tsm_inv_def tsm_Delete_def deleteFromIndices_def Let_def case_prod_beta
      index_exact_del index_sound_del split: option.split)

lemma mput_mdel_items:
  "index_exact fs (mput key obj (mdel key items)) ixs \<longleftrightarrow> index_exact fs (mput key obj items) ixs"
  by (simp add: index_exact_def gm.get_put gm.get_del)

lemma tsm_inv_Add: "tsm_inv c \<Longrightarrow> tsm_inv (tsm_Add c key obj)"
proof (cases "mget (tsm_items c) key")
  case None
  then show "tsm_inv c \<Longrightarrow> tsm_inv (tsm_Add c key obj)"
    by (simp add: tsm_inv_def tsm_Add_def updateIndices_def Let_def case_prod_beta index_exact_add
        index_sound_upd)
next
  case (Some old)
  assume inv: "tsm_inv c"
  let ?ixs = "fst (deleteFromIndices_loop old key (tsm_indexers c) (tsm_indices c))"
  from inv Some have "index_exact (tsm_indexers c) (mdel key (tsm_items c)) ?ixs"
    by (simp add: tsm_inv_def index_exact_del)
  from index_exact_add [OF this, of key obj] inv
  have "index_exact (tsm_indexers c) (mput key obj (tsm_items c))
          (fst (updateIndices_loop obj key (tsm_indexers c) ?ixs))"
    by (simp add: mput_mdel_items tsm_inv_def)
  with inv Some show "tsm_inv (tsm_Add c key obj)"
    by (simp add: tsm_inv_def tsm_Add_def updateIndices_def deleteFromIndices_def Let_def
        case_prod_beta index_sound_upd index_sound_del)
qed

lemma tsm_Update_Add: "tsm_Update = tsm_Add"
  by (intro ext) (simp add: tsm_Update_def tsm_Add_def)

lemma index_exact_cong:
  "(\<And>k. mget items k = mget items' k) \<Longrightarrow> index_exact fs items ixs \<Longrightarrow> index_exact fs items' ixs"
  by (simp add: index_exact_def)

lemma mget_append: "mget (xs @ ys) k = (case mget xs k of None \<Rightarrow> mget ys k | Some v \<Rightarrow> Some v)"
  by (simp add: mget_def map_add_def split: option.split)

lemma rebuild_loop_inv:
  assumes "mwf (done @ rest)" and "index_total (tsm_indexers c)" and "mwf (tsm_indexers c)"
    and "index_exact (tsm_indexers c) done (tsm_indices c)"
    and "index_sound (tsm_indexers c) (tsm_indices c)"
  shows "tsm_items (rebuild_loop rest c) = tsm_items c \<and>
         tsm_indexers (rebuild_loop rest c) = tsm_indexers c \<and>
         index_exact (tsm_indexers c) (done @ rest) (tsm_indices (rebuild_loop rest c)) \<and>
         index_sound (tsm_indexers c) (tsm_indices (rebuild_loop rest c))"
  using assms
proof (induction rest arbitrary: "done" c)
  case (Cons e rest)
  obtain key item where e: "e = (key, item)" by (cases e)
  let ?c = "fst (updateIndices c None item key)"
  have c: "tsm_items ?c = tsm_items c" "tsm_indexers ?c = tsm_indexers c"
    "tsm_indices ?c = fst (updateIndices_loop item key (tsm_indexers c) (tsm_indices c))"
    by (simp_all add: updateIndices_def Let_def case_prod_beta)
  have new: "mget done key = None"
    using Cons.prems(1) e by (auto simp: mwf_def mget_None_iff)
  have "index_exact (tsm_indexers c) (mput key item done) (tsm_indices ?c)"
    using index_exact_add [OF Cons.prems(4,2,3) new] c by simp
  moreover have "mget (mput key item done) k = mget (done @ [e]) k" for k
    using new by (auto simp: gm.get_put e mget_append split: option.split)
  ultimately have ex: "index_exact (tsm_indexers ?c) (done @ [e]) (tsm_indices ?c)"
    using index_exact_cong [of "mput key item done" "done @ [e]"] c by simp
  have so: "index_sound (tsm_indexers ?c) (tsm_indices ?c)"
    using index_sound_add [OF Cons.prems(5) indexers_get [OF Cons.prems(3)]] c by simp
  have "mwf ((done @ [e]) @ rest)" using Cons.prems(1) by simp
  from Cons.IH [OF this _ _ ex so] Cons.prems(2,3) c show ?case
    by (simp add: e)
qed simp

lemma tsm_inv_Replace:
  assumes "tsm_inv c" and "mwf items"
  shows "tsm_inv (tsm_Replace c items)" and "tsm_items (tsm_Replace c items) = items"
proof -
  let ?c = "c\<lparr>tsm_items := items, tsm_indices := []\<rparr>"
  have "index_sound (tsm_indexers ?c) (tsm_indices ?c)" by (simp add: index_sound_def)
  with rebuild_loop_inv [of "[]" items ?c] assms
  show "tsm_inv (tsm_Replace c items)" and "tsm_items (tsm_Replace c items) = items"
    by (simp_all add: tsm_inv_def tsm_Replace_def index_exact_empty)
qed

lemma tsm_inv_New: "mwf indexers \<Longrightarrow> index_total indexers \<Longrightarrow> tsm_inv (NewThreadSafeStore indexers [])"
  by (simp add: tsm_inv_def NewThreadSafeStore_def index_exact_empty index_sound_def)

section \<open>The contract of a store\<close>

text \<open>
  What the clients of a cache rely on, for objects whose key is always defined: a lookup returns the
  object last stored under its key, and the invariant of the indices survives every operation.
\<close>

locale object_store =
  fixes key :: "'a \<Rightarrow> string"
    and get :: "'s \<Rightarrow> string \<Rightarrow> 'a option"
    and put :: "'s \<Rightarrow> 'a \<Rightarrow> 's"
    and del :: "'s \<Rightarrow> 'a \<Rightarrow> 's"
    and inv :: "'s \<Rightarrow> bool"
  assumes inv_put: "inv s \<Longrightarrow> inv (put s obj)"
    and inv_del: "inv s \<Longrightarrow> inv (del s obj)"
    and get_put: "inv s \<Longrightarrow> get (put s obj) k = (if k = key obj then Some obj else get s k)"
    and get_del: "inv s \<Longrightarrow> get (del s obj) k = (if k = key obj then None else get s k)"
begin

lemma inv_fold_put: "inv s \<Longrightarrow> inv (fold (\<lambda>obj s. put s obj) objs s)"
  by (induction objs arbitrary: s) (simp_all add: inv_put)

lemma get_fold_put:
  "inv s \<Longrightarrow> get (fold (\<lambda>obj s. put s obj) objs s) k =
     (case find (\<lambda>obj. key obj = k) (rev objs) of None \<Rightarrow> get s k | Some obj \<Rightarrow> Some obj)"
proof (induction objs rule: rev_induct)
  case (snoc obj objs)
  then show ?case by (auto simp: get_put inv_fold_put)
qed simp

lemma put_put_get: "inv s \<Longrightarrow> key obj = key obj' \<Longrightarrow> get (put (put s obj) obj') k = get (put s obj') k"
  by (simp add: get_put inv_put)

lemma del_put_get: "inv s \<Longrightarrow> get (del (put s obj) obj) k = get (del s obj) k"
  by (simp add: get_put get_del inv_put)

end

text \<open>The cache provides it, for every key function that does not fail.\<close>

definition cache_inv :: "('a \<Rightarrow> string) \<Rightarrow> 'a cache \<Rightarrow> bool" where
  "cache_inv kf c \<longleftrightarrow>
     keyFunc c = Inr \<circ> kf \<and> tsm_inv (cacheStorage c) \<and>
     mall (\<lambda>key obj. key = kf obj) (tsm_items (cacheStorage c))"

lemma tsm_items_updateIndices [simp]: "tsm_items (fst (updateIndices c old obj key)) = tsm_items c"
  by (simp add: updateIndices_def deleteFromIndices_def Let_def case_prod_beta split: option.split)

lemma tsm_indexers_updateIndices [simp]:
  "tsm_indexers (fst (updateIndices c old obj key)) = tsm_indexers c"
  by (simp add: updateIndices_def deleteFromIndices_def Let_def case_prod_beta split: option.split)

lemma tsm_items_Add [simp]: "tsm_items (tsm_Add c key obj) = mput key obj (tsm_items c)"
  by (simp add: tsm_Add_def Let_def)

lemma tsm_indexers_Add [simp]: "tsm_indexers (tsm_Add c key obj) = tsm_indexers c"
  by (simp add: tsm_Add_def Let_def)

lemma tsm_items_Delete [simp]: "tsm_items (tsm_Delete c key) = mdel key (tsm_items c)"
  by (simp add: tsm_Delete_def deleteFromIndices_def Let_def case_prod_beta split: option.split)

lemma tsm_indexers_Delete [simp]: "tsm_indexers (tsm_Delete c key) = tsm_indexers c"
  by (simp add: tsm_Delete_def deleteFromIndices_def Let_def case_prod_beta split: option.split)

lemma tsm_indexers_rebuild [simp]: "tsm_indexers (rebuild_loop items c) = tsm_indexers c"
  by (induction items c rule: rebuild_loop.induct) simp_all

lemma tsm_indexers_Replace [simp]: "tsm_indexers (tsm_Replace c items) = tsm_indexers c"
  by (simp add: tsm_Replace_def)

lemmas cache_ops = cache_Add_def cache_Update_def cache_Delete_def cache_Get_def cache_GetByKey_def
  tsm_Update_Add tsm_Get_def

interpretation cs: object_store kf cache_GetByKey "\<lambda>c obj. fst (cache_Add c obj)"
  "\<lambda>c obj. fst (cache_Delete c obj)" "cache_inv kf" for kf :: "'a \<Rightarrow> string"
  by unfold_locales
    (auto simp: cache_inv_def cache_ops tsm_inv_Add tsm_inv_Delete gm.get_put gm.get_del)

lemma cache_Add_ok: "cache_inv kf c \<Longrightarrow> snd (cache_Add c obj) = None"
  by (simp add: cache_inv_def cache_Add_def)

lemma cache_Delete_ok: "cache_inv kf c \<Longrightarrow> snd (cache_Delete c obj) = None"
  by (simp add: cache_inv_def cache_Delete_def)

lemma cache_Update_Add: "cache_Update = cache_Add"
  by (intro ext) (simp add: cache_Update_def cache_Add_def tsm_Update_Add split: sum.split)

lemma cache_Get_key: "cache_inv kf c \<Longrightarrow> cache_Get c obj = Inr (cache_GetByKey c (kf obj))"
  by (simp add: cache_inv_def cache_Get_def)

lemma cache_inv_New: "mwf fs \<Longrightarrow> index_total fs \<Longrightarrow> cache_inv kf (NewIndexer (Inr \<circ> kf) fs)"
  by (simp add: cache_inv_def NewIndexer_def tsm_inv_New) (simp add: NewThreadSafeStore_def)

lemma cache_inv_NewStore: "cache_inv kf (NewStore (Inr \<circ> kf))"
  by (simp add: cache_inv_def NewStore_def tsm_inv_New index_total_def) (simp add: NewThreadSafeStore_def)

lemma cache_GetByKey_key: "cache_inv kf c \<Longrightarrow> cache_GetByKey c k = Some obj \<Longrightarrow> k = kf obj"
  by (auto simp: cache_inv_def cache_GetByKey_def tsm_Get_def dest: mall_get)

lemma cache_List_iff: "cache_inv kf c \<Longrightarrow> obj \<in> set (cache_List c) \<longleftrightarrow> cache_GetByKey c (kf obj) = Some obj"
proof -
  assume c: "cache_inv kf c"
  let ?m = "tsm_items (cacheStorage c)"
  from c have w: "mwf ?m" by (simp add: cache_inv_def tsm_inv_def)
  have "obj \<in> set (cache_List c) \<longleftrightarrow> (\<exists>k. mget ?m k = Some obj)"
    by (force simp: cache_List_def tsm_List_def gm.entries_get [OF w, symmetric])
  then show ?thesis
    using c by (auto simp: cache_inv_def cache_GetByKey_def tsm_Get_def dest: mall_get)
qed

section \<open>Histories\<close>

text \<open>The calls that change a store, its run over a list of them, and the abstract map.\<close>

datatype 'a store_op = AddOp 'a | UpdateOp 'a | DeleteOp 'a | ReplaceOp "'a list"

fun store_apply :: "'a store_op \<Rightarrow> 'a cache \<Rightarrow> 'a cache" where
  "store_apply (AddOp obj) c = fst (cache_Add c obj)"
| "store_apply (UpdateOp obj) c = fst (cache_Update c obj)"
| "store_apply (DeleteOp obj) c = fst (cache_Delete c obj)"
| "store_apply (ReplaceOp objs) c = fst (cache_Replace c objs)"

fun map_apply :: "'a key_func \<Rightarrow> 'a store_op \<Rightarrow> (string \<rightharpoonup> 'a) \<Rightarrow> (string \<rightharpoonup> 'a)" where
  "map_apply kf (AddOp obj) m = (case kf obj of Inl _ \<Rightarrow> m | Inr k \<Rightarrow> m(k \<mapsto> obj))"
| "map_apply kf (UpdateOp obj) m = (case kf obj of Inl _ \<Rightarrow> m | Inr k \<Rightarrow> m(k \<mapsto> obj))"
| "map_apply kf (DeleteOp obj) m = (case kf obj of Inl _ \<Rightarrow> m | Inr k \<Rightarrow> m(k := None))"
| "map_apply kf (ReplaceOp objs) m =
     (if \<exists>obj \<in> set objs. isl (kf obj) then m
      else map_of (rev (map (\<lambda>obj. (projr (kf obj), obj)) objs)))"

lemma replace_items_Inl: "\<exists>obj \<in> set objs. isl (kf obj) \<Longrightarrow> isl (replace_items kf objs items)"
  by (induction kf objs items rule: replace_items.induct) (auto split: sum.split)

lemma replace_items_Inr:
  "\<forall>obj \<in> set objs. \<not> isl (kf obj) \<Longrightarrow>
   replace_items kf objs items = Inr (fold (\<lambda>(k, v). mput k v) (map (\<lambda>obj. (projr (kf obj), obj)) objs) items)"
  by (induction kf objs items rule: replace_items.induct) (auto split: sum.split)

lemma mget_fold_mput:
  "mget (fold (\<lambda>(k, v). mput k v) es m) k =
     (case map_of (rev es) k of None \<Rightarrow> mget m k | Some v \<Rightarrow> Some v)"
  by (induction es arbitrary: m) (auto simp: gm.get_put map_add_def split: option.split)

text \<open>One call keeps the invariant, keeps the indexers and acts on the contents as on a map.\<close>

lemma store_apply_step:
  assumes "tsm_inv (cacheStorage c)"
  shows "tsm_inv (cacheStorage (store_apply op c)) \<and>
    tsm_indexers (cacheStorage (store_apply op c)) = tsm_indexers (cacheStorage c) \<and>
    keyFunc (store_apply op c) = keyFunc c \<and>
    cache_GetByKey (store_apply op c) = map_apply (keyFunc c) op (cache_GetByKey c)"
proof (cases op)
  case (ReplaceOp objs)
  show ?thesis
  proof (cases "\<exists>obj \<in> set objs. isl (keyFunc c obj)")
    case True
    with replace_items_Inl [OF True, of "[]"] assms ReplaceOp show ?thesis
      by (cases "replace_items (keyFunc c) objs []") (auto simp: cache_Replace_def)
  next
    case False
    let ?items = "fold (\<lambda>(k, v). mput k v) (map (\<lambda>obj. (projr (keyFunc c obj), obj)) objs) []"
    have i: "replace_items (keyFunc c) objs [] = Inr ?items"
      using False by (intro replace_items_Inr) auto
    have w: "mwf ?items" by (rule mwf_fold_mput) simp
    show ?thesis
      using i tsm_inv_Replace [OF assms w] ReplaceOp False
      by (auto simp: cache_Replace_def cache_GetByKey_def tsm_Get_def mget_fold_mput fun_eq_iff
          split: option.split)
  qed
qed (use assms in \<open>auto simp: cache_ops tsm_inv_Add tsm_inv_Delete fun_eq_iff gm.get_put gm.get_del
    split: sum.split\<close>)

definition store_run :: "'a store_op list \<Rightarrow> 'a cache \<Rightarrow> 'a cache" where
  "store_run ops c = fold store_apply ops c"

lemma store_run_steps:
  assumes "tsm_inv (cacheStorage c)"
  shows "tsm_inv (cacheStorage (store_run ops c)) \<and>
    tsm_indexers (cacheStorage (store_run ops c)) = tsm_indexers (cacheStorage c) \<and>
    keyFunc (store_run ops c) = keyFunc c \<and>
    cache_GetByKey (store_run ops c) = fold (map_apply (keyFunc c)) ops (cache_GetByKey c)"
  using assms unfolding store_run_def
  by (induction ops arbitrary: c) (simp_all add: store_apply_step)

lemma cache_inv_apply: "cache_inv kf c \<Longrightarrow> cache_inv kf (store_apply op c)"
proof -
  assume c: "cache_inv kf c"
  then have i: "tsm_inv (cacheStorage c)" and k: "keyFunc c = Inr \<circ> kf" by (simp_all add: cache_inv_def)
  have "map_apply (Inr \<circ> kf) op (cache_GetByKey c) key = Some obj \<Longrightarrow> key = kf obj" for key obj
    using cache_GetByKey_key [OF c]
    by (cases op) (auto split: if_splits dest!: map_of_SomeD)
  with store_apply_step [OF i, of op] k show ?thesis
    by (auto simp: cache_inv_def mall_def cache_GetByKey_def tsm_Get_def fun_eq_iff)
qed

lemma cache_inv_run: "cache_inv kf c \<Longrightarrow> cache_inv kf (store_run ops c)"
  unfolding store_run_def by (induction ops arbitrary: c) (simp_all add: cache_inv_apply)

section \<open>Lookups by index\<close>

text \<open>The reference: the objects that have the index value, by a scan of the contents in key order.\<close>

definition index_scan :: "'a threadSafeMap \<Rightarrow> string \<Rightarrow> string \<Rightarrow> 'a list" where
  "index_scan c indexName indexKey =
     map snd (sort_key fst
       (filter (\<lambda>(key, obj). indexed_by (tsm_indexers c) indexName obj indexKey) (tsm_items c)))"

lemma map_fst_sort_key: "map fst (sort_key fst xs) = sort (map fst xs)"
  by (rule properties_for_sort [symmetric]) simp_all

lemma sort_mset_eq: "mset xs = mset ys \<Longrightarrow> sort xs = sort ys"
  by (rule properties_for_sort) simp_all

lemma index_keys_scan:
  assumes "tsm_inv c"
  shows "sort (index_set c name v) =
    map fst (sort_key fst (filter (\<lambda>(key, obj). indexed_by (tsm_indexers c) name obj v) (tsm_items c)))"
    (is "_ = map fst (sort_key fst ?es)")
proof -
  from assms have w: "mwf (tsm_items c)"
    and ex: "index_exact (tsm_indexers c) (tsm_items c) (tsm_indices c)"
    by (simp_all add: tsm_inv_def)
  have "distinct (map fst ?es)"
    using w by (simp add: mwf_def distinct_map_filter)
  moreover have "set (map fst ?es) = set (index_set c name v)"
  proof -
    have "k \<in> set (map fst ?es) \<longleftrightarrow> k \<in> set (index_set c name v)" for k
      using ex by (auto simp: index_exact_def index_set_lookup gm.entries_get [OF w] image_iff)
    then show ?thesis by blast
  qed
  moreover have "distinct (index_set c name v)"
    using ex by (simp add: index_exact_def index_set_lookup)
  ultimately have "mset (index_set c name v) = mset (map fst ?es)"
    by (simp only: set_eq_iff_mset_eq_distinct)
  then have "sort (index_set c name v) = sort (map fst ?es)" by (rule sort_mset_eq)
  then show ?thesis by (rule trans [OF _ map_fst_sort_key [symmetric]])
qed

lemma tsm_ByIndex_scan:
  assumes "tsm_inv c" and "mhas (tsm_indexers c) name"
  shows "tsm_ByIndex c name v = Inr (map Some (index_scan c name v))"
proof -
  let ?es = "sort_key fst (filter (\<lambda>(key, obj). indexed_by (tsm_indexers c) name obj v) (tsm_items c))"
  have "mget (tsm_items c) (fst e) = Some (snd e)" if "e \<in> set ?es" for e
    using that assms(1) gm.entries_get [of "tsm_items c" "fst e" "snd e"] by (auto simp: tsm_inv_def)
  then have "map (mget (tsm_items c)) (map fst ?es) = map Some (map snd ?es)"
    by simp
  then show ?thesis
    using assms by (auto simp: tsm_ByIndex_def mhas_def index_keys_scan index_scan_def)
qed

lemma set_fold_insert: "set (fold List.insert xs acc) = set xs \<union> set acc"
  by (induction xs arbitrary: acc) auto

lemma distinct_fold_insert: "distinct acc \<Longrightarrow> distinct (fold List.insert xs acc)"
  by (induction xs arbitrary: acc) auto

lemma tsm_Index_scan:
  assumes inv: "tsm_inv c" and f: "mget (tsm_indexers c) name = Some f"
  obtains keys where "tsm_Index c name obj = Inr (map (mget (tsm_items c)) keys)" and "distinct keys"
    and "\<And>k. k \<in> set keys \<longleftrightarrow> (\<exists>o'. mget (tsm_items c) k = Some o' \<and>
           (\<exists>v \<in> set (index_values f obj). v \<in> set (index_values f o')))"
proof -
  let ?keys = "fold List.insert (concat (map (index_set c name) (index_values f obj))) []"
  have "\<not> isl (f obj)"
    using inv mget_SomeD [OF f] by (auto simp: tsm_inv_def index_total_def)
  then have "f obj = Inr (index_values f obj)"
    by (cases "f obj") (auto simp: index_values_def)
  then have "tsm_Index c name obj = Inr (map (mget (tsm_items c)) ?keys)"
    using f by (simp add: tsm_Index_def Let_def fold_nested)
  moreover have "distinct ?keys" by (rule distinct_fold_insert) simp
  moreover have "k \<in> set ?keys \<longleftrightarrow> (\<exists>o'. mget (tsm_items c) k = Some o' \<and>
      (\<exists>v \<in> set (index_values f obj). v \<in> set (index_values f o')))" for k
    using inv f
    by (auto simp: set_fold_insert tsm_inv_def index_exact_def index_set_lookup indexed_by_def)
  ultimately show ?thesis by (rule that)
qed

text \<open>
  C26: After any sequence of additions, updates, deletions and replacements on a store whose index
  functions do not fail, a lookup by an index value returns exactly the objects that have the value,
  in the order of their keys: the incrementally maintained index agrees with a scan of the contents.
\<close>

theorem index_lookup_is_scan:
  assumes "mwf indexers" and "index_total indexers" and "mhas indexers indexName"
  shows "cache_ByIndex (store_run ops (NewIndexer kf indexers)) indexName indexKey =
         Inr (map Some (index_scan (cacheStorage (store_run ops (NewIndexer kf indexers))) indexName indexKey))"
proof -
  have "tsm_inv (cacheStorage (NewIndexer kf indexers))"
    using assms by (simp add: NewIndexer_def tsm_inv_New)
  from store_run_steps [OF this, of ops] assms(3) show ?thesis
    unfolding cache_ByIndex_def
    by (intro tsm_ByIndex_scan) (simp_all add: NewIndexer_def NewThreadSafeStore_def)
qed

text \<open>Strings indexed by their first character; a deletion and an update of a stored object.\<close>

theorem index_lookup_is_scan_witness:
  "mwf [(''first'', \<lambda>s :: string. Inr [take 1 s] :: error + string list)] \<and>
   index_total [(''first'', \<lambda>s :: string. Inr [take 1 s])] \<and>
   cache_ByIndex (store_run [AddOp ''b1'', AddOp ''a2'', AddOp ''a1'', AddOp ''c'', DeleteOp ''c'', UpdateOp ''b1'']
     (NewIndexer (\<lambda>s. Inr s) [(''first'', \<lambda>s. Inr [take 1 s])])) ''first'' ''a'' = Inr [Some ''a1'', Some ''a2'']"
proof (intro conjI)
  show w: "mwf [(''first'', \<lambda>s :: string. Inr [take 1 s] :: error + string list)]" by simp
  show t: "index_total [(''first'', \<lambda>s :: string. Inr [take 1 s])]" by (simp add: index_total_def)
  show "cache_ByIndex (store_run [AddOp ''b1'', AddOp ''a2'', AddOp ''a1'', AddOp ''c'', DeleteOp ''c'', UpdateOp ''b1'']
     (NewIndexer (\<lambda>s. Inr s) [(''first'', \<lambda>s. Inr [take 1 s])])) ''first'' ''a'' = Inr [Some ''a1'', Some ''a2'']"
    by (subst index_lookup_is_scan [OF w t]) (simp add: mhas_def, code_simp)
qed

text \<open>
  C27: A store behaves as a map from keys to objects: from the empty store, after any sequence of
  calls (an object whose key cannot be computed changes nothing, a replacement with such an object is
  refused as a whole) \<open>GetByKey\<close> returns what the map holds.
\<close>

theorem store_refines_map:
  assumes "mwf indexers" and "index_total indexers"
  shows "cache_GetByKey (store_run ops (NewIndexer kf indexers)) = fold (map_apply kf) ops Map.empty"
proof -
  have "tsm_inv (cacheStorage (NewIndexer kf indexers))"
    using assms by (simp add: NewIndexer_def tsm_inv_New)
  moreover have "cache_GetByKey (NewIndexer kf indexers) = Map.empty"
    by (intro ext) (simp add: cache_GetByKey_def tsm_Get_def NewIndexer_def NewThreadSafeStore_def)
  ultimately show ?thesis
    using store_run_steps [of "NewIndexer kf indexers" ops] by (simp add: NewIndexer_def)
qed

theorem store_refines_map_witness:
  "mwf [(''first'', \<lambda>s :: string. Inr [take 1 s] :: error + string list)] \<and>
   index_total [(''first'', \<lambda>s :: string. Inr [take 1 s])] \<and>
   cache_GetByKey (store_run [AddOp ''b1'', ReplaceOp [''a2'', ''a1''], DeleteOp ''a2'']
     (NewIndexer (\<lambda>s. Inr s) [(''first'', \<lambda>s. Inr [take 1 s])])) ''a1'' = Some ''a1''"
proof (intro conjI)
  show w: "mwf [(''first'', \<lambda>s :: string. Inr [take 1 s] :: error + string list)]" by simp
  show t: "index_total [(''first'', \<lambda>s :: string. Inr [take 1 s])]" by (simp add: index_total_def)
  show "cache_GetByKey (store_run [AddOp ''b1'', ReplaceOp [''a2'', ''a1''], DeleteOp ''a2'']
     (NewIndexer (\<lambda>s. Inr s) [(''first'', \<lambda>s. Inr [take 1 s])])) ''a1'' = Some ''a1''"
    by (subst store_refines_map [OF w t]) simp
qed

end
