(* ===== verification/PV_Index.thy ===== *)
theory PV_Index
  imports API_Types Indexed_Store
begin

text \<open>
  The index of persistent volumes of the persistent volume controller,
  \<open>pkg/controller/volume/persistentvolume/index.go\<close>, with the helpers it calls: access modes as
  strings and annotations (\<open>pkg/api/v1/helpers.go\<close>), storage classes
  (\<open>pkg/apis/storage/v1beta1/util/helpers.go\<close>) and \<open>isVolumeBoundToClaim\<close>
  (\<open>pv_controller_base.go\<close>). The theorems characterise the volume \<open>findByClaim\<close> selects.
\<close>

section \<open>Annotations and classes\<close>

definition HasAnnotation :: "(string, string) gomap \<Rightarrow> string \<Rightarrow> bool" where
  "HasAnnotation annotations ann = mhas annotations ann"

definition SetMetaDataAnnotation :: "(string, string) gomap \<Rightarrow> string \<Rightarrow> string \<Rightarrow> (string, string) gomap" where
  "SetMetaDataAnnotation annotations ann val = mput ann val annotations"

definition AlphaStorageClassAnnotation :: string where
  "AlphaStorageClassAnnotation = ''volume.alpha.kubernetes.io/storage-class''"

definition BetaStorageClassAnnotation :: string where
  "BetaStorageClassAnnotation = ''volume.beta.kubernetes.io/storage-class''"

definition StorageClassAnnotation :: string where
  "StorageClassAnnotation = ''volume.beta.kubernetes.io/storage-class''"

definition GetVolumeStorageClass :: "PersistentVolume \<Rightarrow> string" where
  "GetVolumeStorageClass volume =
     (case mget (pv_Annotations volume) StorageClassAnnotation of Some class \<Rightarrow> class | None \<Rightarrow> [])"

definition GetClaimStorageClass :: "PersistentVolumeClaim \<Rightarrow> string" where
  "GetClaimStorageClass claim =
     (case mget (pvc_Annotations claim) StorageClassAnnotation of Some class \<Rightarrow> class | None \<Rightarrow> [])"

section \<open>Access modes as strings\<close>

fun containsAccessMode :: "accessMode list \<Rightarrow> accessMode \<Rightarrow> bool" where
  "containsAccessMode [] mode = False"
| "containsAccessMode (m # modes) mode = (if m = mode then True else containsAccessMode modes mode)"

fun dedup_loop :: "accessMode list \<Rightarrow> accessMode list \<Rightarrow> accessMode list" where
  "dedup_loop [] accessModes = accessModes"
| "dedup_loop (m # modes) accessModes =
     dedup_loop modes (if \<not> containsAccessMode accessModes m then accessModes @ [m] else accessModes)"

definition removeDuplicateAccessModes :: "accessMode list \<Rightarrow> accessMode list" where
  "removeDuplicateAccessModes modes = dedup_loop modes []"

definition GetAccessModesAsString :: "accessMode list \<Rightarrow> string" where
  "GetAccessModesAsString ms =
     (let modes = removeDuplicateAccessModes ms;
          modesStr = (if containsAccessMode modes ReadWriteOnce then [''RWO''] else []) @
                     (if containsAccessMode modes ReadOnlyMany then [''ROX''] else []) @
                     (if containsAccessMode modes ReadWriteMany then [''RWX''] else [])
      in strings_Join modesStr '','')"

definition strings_TrimSpace :: "string \<Rightarrow> string" where
  "strings_TrimSpace s = rev (dropWhile (\<lambda>c. c = CHR '' '') (rev (dropWhile (\<lambda>c. c = CHR '' '') s)))"

fun modes_from :: "string list \<Rightarrow> accessMode list" where
  "modes_from [] = []"
| "modes_from (s # rest) =
     (let s = strings_TrimSpace s
      in if s = ''RWO'' then ReadWriteOnce # modes_from rest
         else if s = ''ROX'' then ReadOnlyMany # modes_from rest
         else if s = ''RWX'' then ReadWriteMany # modes_from rest
         else modes_from rest)"

definition GetAccessModesFromString :: "string \<Rightarrow> accessMode list" where
  "GetAccessModesFromString modes = modes_from (strings_Split modes (CHR '',''))"

lemma containsAccessMode_iff: "containsAccessMode ms m \<longleftrightarrow> m \<in> set ms"
  by (induction ms m rule: containsAccessMode.induct) auto

lemma set_dedup_loop: "set (dedup_loop ms acc) = set ms \<union> set acc"
  by (induction ms acc rule: dedup_loop.induct) (auto simp: containsAccessMode_iff)

lemma distinct_dedup_loop: "distinct acc \<Longrightarrow> distinct (dedup_loop ms acc)"
  by (induction ms acc rule: dedup_loop.induct) (auto simp: containsAccessMode_iff)

text \<open>The modes of a set in the fixed order of the string form.\<close>

definition canonical_modes :: "accessMode set \<Rightarrow> accessMode list" where
  "canonical_modes M = filter (\<lambda>m. m \<in> M) [ReadWriteOnce, ReadOnlyMany, ReadWriteMany]"

lemma set_canonical_modes: "set (canonical_modes M) = M"
proof -
  have "m \<in> set (canonical_modes M) \<longleftrightarrow> m \<in> M" for m
    by (cases m) (simp_all add: canonical_modes_def)
  then show ?thesis by blast
qed

lemma distinct_canonical_modes: "distinct (canonical_modes M)"
  by (simp add: canonical_modes_def)

lemma length_canonical_modes: "length (canonical_modes M) = card M"
  using distinct_card [OF distinct_canonical_modes [of M]] by (simp add: set_canonical_modes)

lemma GetAccessModesAsString_set:
  "GetAccessModesAsString ms =
     strings_Join ((if ReadWriteOnce \<in> set ms then [''RWO''] else []) @
                   (if ReadOnlyMany \<in> set ms then [''ROX''] else []) @
                   (if ReadWriteMany \<in> set ms then [''RWX''] else [])) '',''"
  by (simp add: GetAccessModesAsString_def removeDuplicateAccessModes_def containsAccessMode_iff set_dedup_loop Let_def)

lemma AccessModes_roundtrip:
  "GetAccessModesFromString (GetAccessModesAsString ms) = canonical_modes (set ms)"
  by (auto simp: GetAccessModesAsString_set GetAccessModesFromString_def canonical_modes_def
      strings_TrimSpace_def Let_def)

lemma AccessModesAsString_eq:
  "GetAccessModesAsString ms = GetAccessModesAsString ns \<longleftrightarrow> set ms = set ns"
  using AccessModes_roundtrip [of ms] AccessModes_roundtrip [of ns] set_canonical_modes
  by (metis GetAccessModesAsString_set)

section \<open>The index\<close>

definition pv_key :: "PersistentVolume \<Rightarrow> string" where
  "pv_key pv = MetaNamespaceKey [] (pv_Name pv)"

definition claimToClaimKey :: "PersistentVolumeClaim \<Rightarrow> string" where
  "claimToClaimKey claim = pvc_Namespace claim @ ''/'' @ pvc_Name claim"

definition claimrefToClaimKey :: "ObjectReference \<Rightarrow> string" where
  "claimrefToClaimKey claimref = ref_Namespace claimref @ ''/'' @ ref_Name claimref"

definition isVolumeBoundToClaim :: "PersistentVolume \<Rightarrow> PersistentVolumeClaim \<Rightarrow> bool" where
  "isVolumeBoundToClaim volume claim =
     (case pv_ClaimRef volume of
        None \<Rightarrow> False
      | Some ref \<Rightarrow>
          if pvc_Name claim \<noteq> ref_Name ref \<or> pvc_Namespace claim \<noteq> ref_Namespace ref then False
          else if ref_UID ref \<noteq> [] \<and> pvc_UID claim \<noteq> ref_UID ref then False
          else True)"

type_synonym pv_index = "PersistentVolume cache"

definition accessModesIndexFunc :: "PersistentVolume index_func" where
  "accessModesIndexFunc pv = Inr [GetAccessModesAsString (pv_AccessModes pv)]"

definition newPersistentVolumeOrderedIndex :: pv_index where
  "newPersistentVolumeOrderedIndex =
     NewIndexer (Inr \<circ> pv_key) [(''accessmodes'', accessModesIndexFunc)]"

text \<open>The volume \<open>&v1.PersistentVolume{Spec: v1.PersistentVolumeSpec{AccessModes: modes}}\<close>.\<close>

definition pv_with_modes :: "accessMode list \<Rightarrow> PersistentVolume" where
  "pv_with_modes modes =
     \<lparr>pv_Name = [], pv_UID = [], pv_ResourceVersion = [], pv_Annotations = [], pv_Labels = [],
      pv_DeletionTimestamp = None, pv_Capacity = None, pv_AccessModes = modes, pv_ClaimRef = None,
      pv_ReclaimPolicy = OtherReclaimPolicy [], pv_NVMEOF = None, pv_source = [],
      pv_Phase = VolumePending, pv_Message = [], pv_Reason = []\<rparr>"

text \<open>
  The type assertion on a nil object panics: the outer \<open>None\<close> of the results below.
\<close>

definition listByAccessModes :: "pv_index \<Rightarrow> accessMode list \<Rightarrow> (error + PersistentVolume list) option" where
  "listByAccessModes pvIndex modes =
     (case cache_Index pvIndex ''accessmodes'' (pv_with_modes modes) of
        Inl err \<Rightarrow> Some (Inl err)
      | Inr objs \<Rightarrow> map_option Inr (those objs))"

definition mode_contains :: "accessMode list \<Rightarrow> accessMode \<Rightarrow> bool" where
  "mode_contains modes mode = list_ex (\<lambda>m. m = mode) modes"

definition containedInAll :: "accessMode list \<Rightarrow> accessMode list \<Rightarrow> bool" where
  "containedInAll indexedModes requestedModes = list_all (mode_contains indexedModes) requestedModes"

text \<open>\<open>sort.Sort(byAccessModes{...})\<close>; the order of lists of one length is open and the model keeps it.\<close>

definition allPossibleMatchingAccessModes :: "pv_index \<Rightarrow> accessMode list \<Rightarrow> accessMode list list" where
  "allPossibleMatchingAccessModes pvIndex requestedModes =
     sort_key length
       (filter (\<lambda>indexedModes. containedInAll indexedModes requestedModes)
         (map GetAccessModesFromString (cache_ListIndexFuncValues pvIndex ''accessmodes'')))"

section \<open>findByClaim\<close>

definition pv_size :: "PersistentVolume \<Rightarrow> int" where
  "pv_size volume = (case pv_Capacity volume of None \<Rightarrow> 0 | Some q \<Rightarrow> q)"

definition pv_filtered_out :: "PersistentVolumeClaim \<Rightarrow> Selector option \<Rightarrow> PersistentVolume \<Rightarrow> bool" where
  "pv_filtered_out claim selector volume \<longleftrightarrow>
     HasAnnotation (pvc_Annotations claim) AlphaStorageClassAnnotation \<or>
     pv_ClaimRef volume \<noteq> None \<or>
     (case selector of None \<Rightarrow> False | Some s \<Rightarrow> \<not> Selector_Matches s (pv_Labels volume)) \<or>
     GetVolumeStorageClass volume \<noteq> GetClaimStorageClass claim"

text \<open>
  The loop over the volumes of one list of modes: \<open>Inl\<close> is the return of a volume from inside the
  loop, \<open>Inr\<close> the value of \<open>smallestVolume\<close> after it.
\<close>

fun scan_volumes ::
  "PersistentVolumeClaim \<Rightarrow> Selector option \<Rightarrow> PersistentVolume list \<Rightarrow> PersistentVolume option \<Rightarrow>
   PersistentVolume + PersistentVolume option" where
  "scan_volumes claim selector [] smallestVolume = Inr smallestVolume"
| "scan_volumes claim selector (volume # volumes) smallestVolume =
     (if isVolumeBoundToClaim volume claim then
        (if pv_size volume < pvc_Storage claim then scan_volumes claim selector volumes smallestVolume
         else Inl volume)
      else if pv_filtered_out claim selector volume then scan_volumes claim selector volumes smallestVolume
      else if pv_size volume \<ge> pvc_Storage claim \<and>
        (case smallestVolume of None \<Rightarrow> True | Some s \<Rightarrow> pv_size s > pv_size volume)
      then scan_volumes claim selector volumes (Some volume)
      else scan_volumes claim selector volumes smallestVolume)"

fun findByClaim_loop ::
  "pv_index \<Rightarrow> PersistentVolumeClaim \<Rightarrow> Selector option \<Rightarrow> accessMode list list \<Rightarrow>
   PersistentVolume option \<Rightarrow> (error + PersistentVolume option) option" where
  "findByClaim_loop pvIndex claim selector [] smallestVolume = Some (Inr None)"
| "findByClaim_loop pvIndex claim selector (modes # rest) smallestVolume =
     (case listByAccessModes pvIndex modes of
        None \<Rightarrow> None
      | Some (Inl err) \<Rightarrow> Some (Inl err)
      | Some (Inr volumes) \<Rightarrow>
          (case scan_volumes claim selector volumes smallestVolume of
             Inl volume \<Rightarrow> Some (Inr (Some volume))
           | Inr (Some volume) \<Rightarrow> Some (Inr (Some volume))
           | Inr None \<Rightarrow> findByClaim_loop pvIndex claim selector rest None))"

definition claim_selector :: "PersistentVolumeClaim \<Rightarrow> error + Selector option" where
  "claim_selector claim =
     (case pvc_Selector claim of
        None \<Rightarrow> Inr None
      | Some ps \<Rightarrow>
          (case LabelSelectorAsSelector (Some ps) of
             Inl err \<Rightarrow> Inl (Errorf ''error creating internal label selector for claim'' (Some err))
           | Inr s \<Rightarrow> Inr (Some s)))"

definition findByClaim :: "pv_index \<Rightarrow> PersistentVolumeClaim \<Rightarrow> (error + PersistentVolume option) option" where
  "findByClaim pvIndex claim =
     (let allPossibleModes = allPossibleMatchingAccessModes pvIndex (pvc_AccessModes claim)
      in case claim_selector claim of
        Inl err \<Rightarrow> Some (Inl err)
      | Inr selector \<Rightarrow> findByClaim_loop pvIndex claim selector allPossibleModes None)"

text \<open>The match predicate \<open>matchStorageCapacity\<close> that is passed on is never called.\<close>

definition findBestMatchForClaim :: "pv_index \<Rightarrow> PersistentVolumeClaim \<Rightarrow> (error + PersistentVolume option) option" where
  "findBestMatchForClaim pvIndex claim = findByClaim pvIndex claim"

section \<open>What the index holds\<close>

definition pv_index_inv :: "pv_index \<Rightarrow> bool" where
  "pv_index_inv idx \<longleftrightarrow>
     cache_inv pv_key idx \<and> tsm_indexers (cacheStorage idx) = [(''accessmodes'', accessModesIndexFunc)]"

lemma pv_key_Name [simp]: "pv_key pv = pv_Name pv"
  by (simp add: pv_key_def MetaNamespaceKey_def)

lemma index_total_accessmodes: "index_total [(''accessmodes'', accessModesIndexFunc)]"
  by (simp add: index_total_def accessModesIndexFunc_def)

lemma pv_index_inv_New: "pv_index_inv newPersistentVolumeOrderedIndex"
  by (simp add: pv_index_inv_def newPersistentVolumeOrderedIndex_def cache_inv_New index_total_accessmodes)
    (simp add: NewIndexer_def NewThreadSafeStore_def)

lemma pv_index_inv_apply: "pv_index_inv idx \<Longrightarrow> pv_index_inv (store_apply op idx)"
  using store_apply_step [of idx op] by (simp add: pv_index_inv_def cache_inv_apply) (simp add: cache_inv_def)

lemma pv_index_inv_run: "pv_index_inv idx \<Longrightarrow> pv_index_inv (store_run ops idx)"
  unfolding store_run_def by (induction ops arbitrary: idx) (simp_all add: pv_index_inv_apply)

lemma index_values_accessModes:
  "index_values accessModesIndexFunc pv = [GetAccessModesAsString (pv_AccessModes pv)]"
  by (simp add: index_values_def accessModesIndexFunc_def)

lemma those_map_Some: "\<forall>x \<in> set xs. f x \<noteq> None \<Longrightarrow> those (map f xs) = Some (map (the \<circ> f) xs)"
  by (induction xs) auto

lemma pv_index_invD:
  assumes "pv_index_inv idx"
  shows "tsm_inv (cacheStorage idx)" and "mwf (tsm_items (cacheStorage idx))"
    and "mget (tsm_indexers (cacheStorage idx)) ''accessmodes'' = Some accessModesIndexFunc"
    and "index_exact [(''accessmodes'', accessModesIndexFunc)] (tsm_items (cacheStorage idx)) (tsm_indices (cacheStorage idx))"
    and "index_sound [(''accessmodes'', accessModesIndexFunc)] (tsm_indices (cacheStorage idx))"
  using assms by (auto simp: pv_index_inv_def cache_inv_def tsm_inv_def)

text \<open>The volumes listed for some modes are the stored ones with exactly these modes.\<close>

lemma listByAccessModes_exact:
  assumes "pv_index_inv idx"
  obtains vols where "listByAccessModes idx modes = Some (Inr vols)"
    and "set vols = {v \<in> set (cache_List idx). set (pv_AccessModes v) = set modes}"
proof -
  let ?c = "cacheStorage idx"
  note inv = pv_index_invD(1) [OF assms] and w = pv_index_invD(2) [OF assms]
    and f = pv_index_invD(3) [OF assms]
  have pm: "pv_AccessModes (pv_with_modes modes) = modes" by (simp add: pv_with_modes_def)
  obtain keys where k: "tsm_Index ?c ''accessmodes'' (pv_with_modes modes) = Inr (map (mget (tsm_items ?c)) keys)"
    and "\<And>k. k \<in> set keys \<longleftrightarrow> (\<exists>v. mget (tsm_items ?c) k = Some v \<and>
           (\<exists>s \<in> set (index_values accessModesIndexFunc (pv_with_modes modes)).
             s \<in> set (index_values accessModesIndexFunc v)))"
    by (rule tsm_Index_scan [OF inv f, of "pv_with_modes modes"]) blast
  then have ks: "k \<in> set keys \<longleftrightarrow> (\<exists>v. mget (tsm_items ?c) k = Some v \<and> set (pv_AccessModes v) = set modes)" for k
    by (auto simp: index_values_accessModes AccessModesAsString_eq pm)
  let ?vols = "map (the \<circ> mget (tsm_items ?c)) keys"
  have "those (map (mget (tsm_items ?c)) keys) = Some ?vols"
    by (rule those_map_Some) (auto simp: ks)
  then have "listByAccessModes idx modes = Some (Inr ?vols)"
    by (simp add: listByAccessModes_def cache_Index_def k)
  moreover have "v \<in> set ?vols \<longleftrightarrow> v \<in> set (cache_List idx) \<and> set (pv_AccessModes v) = set modes" for v
  proof -
    have "v \<in> set ?vols \<longleftrightarrow> (\<exists>k. mget (tsm_items ?c) k = Some v \<and> set (pv_AccessModes v) = set modes)"
      by (force simp: ks)
    also have "\<dots> \<longleftrightarrow> v \<in> set (cache_List idx) \<and> set (pv_AccessModes v) = set modes"
      by (force simp: cache_List_def tsm_List_def gm.entries_get [OF w, symmetric])
    finally show ?thesis .
  qed
  ultimately show thesis by (intro that [of ?vols]) blast+
qed

lemma containedInAll_subset: "containedInAll indexed requested \<longleftrightarrow> set requested \<subseteq> set indexed"
  by (auto simp: containedInAll_def mode_contains_def list_all_iff list_ex_iff)

lemma allPossible_sorted: "sorted (map length (allPossibleMatchingAccessModes idx req))"
  by (simp add: allPossibleMatchingAccessModes_def)

lemma ListIndexFuncValues_iff:
  "v \<in> set (tsm_ListIndexFuncValues c name) \<longleftrightarrow> (\<exists>ix. mget (tsm_indices c) name = Some ix \<and> mhas ix v)"
  by (auto simp: tsm_ListIndexFuncValues_def mhas_def mget_None_iff image_iff split: option.split
      dest: mget_SomeD) (metis mget_None_iff fst_conv image_eqI)

lemma allPossible_sound:
  assumes "pv_index_inv idx" and "ms \<in> set (allPossibleMatchingAccessModes idx req)"
  shows "ms = canonical_modes (set ms) \<and> set req \<subseteq> set ms"
proof -
  from assms(2) obtain v where v: "v \<in> set (tsm_ListIndexFuncValues (cacheStorage idx) ''accessmodes'')"
    and ms: "ms = GetAccessModesFromString v" "set req \<subseteq> set ms"
    by (auto simp: allPossibleMatchingAccessModes_def containedInAll_subset cache_ListIndexFuncValues_def)
  obtain pv :: PersistentVolume where "v = GetAccessModesAsString (pv_AccessModes pv)"
    using v pv_index_invD(5) [OF assms(1)]
    by (auto simp: ListIndexFuncValues_iff index_sound_def indexed_by_def index_values_accessModes
        dest!: mall_get)
  with ms show ?thesis by (simp add: AccessModes_roundtrip set_canonical_modes)
qed

lemma allPossible_complete:
  assumes "pv_index_inv idx" and v: "v \<in> set (cache_List idx)" and "set req \<subseteq> set (pv_AccessModes v)"
  shows "canonical_modes (set (pv_AccessModes v)) \<in> set (allPossibleMatchingAccessModes idx req)"
proof -
  let ?c = "cacheStorage idx" and ?s = "GetAccessModesAsString (pv_AccessModes v)"
  note w = pv_index_invD(2) [OF assms(1)] and ex = pv_index_invD(4) [OF assms(1)]
  obtain k where "mget (tsm_items ?c) k = Some v"
    using v by (force simp: cache_List_def tsm_List_def gm.entries_get [OF w, symmetric])
  then have "k \<in> set (index_lookup (tsm_indices ?c) ''accessmodes'' ?s)"
    using ex by (auto simp: index_exact_def indexed_by_def index_values_accessModes)
  then have "?s \<in> set (tsm_ListIndexFuncValues ?c ''accessmodes'')"
    by (auto simp: ListIndexFuncValues_iff index_lookup_def index_val_def mhas_def split: option.splits)
      metis
  then show ?thesis
    using assms(3) AccessModes_roundtrip [of "pv_AccessModes v"]
    by (auto simp: allPossibleMatchingAccessModes_def cache_ListIndexFuncValues_def containedInAll_subset
        set_canonical_modes intro!: image_eqI [where x = ?s])
qed

section \<open>The selected volume\<close>

text \<open>
  The specification: a volume pre-bound to the claim that is large enough and offers its access modes,
  and a free volume that satisfies the claim in every respect.
\<close>

definition prebound_match :: "PersistentVolumeClaim \<Rightarrow> PersistentVolume \<Rightarrow> bool" where
  "prebound_match claim v \<longleftrightarrow>
     isVolumeBoundToClaim v claim \<and> pvc_Storage claim \<le> pv_size v \<and>
     set (pvc_AccessModes claim) \<subseteq> set (pv_AccessModes v)"

definition free_match :: "PersistentVolumeClaim \<Rightarrow> PersistentVolume \<Rightarrow> bool" where
  "free_match claim v \<longleftrightarrow>
     pv_ClaimRef v = None \<and> \<not> HasAnnotation (pvc_Annotations claim) AlphaStorageClassAnnotation \<and>
     (case pvc_Selector claim of None \<Rightarrow> True | Some ps \<Rightarrow> selector_selects ps (pv_Labels v)) \<and>
     GetVolumeStorageClass v = GetClaimStorageClass claim \<and>
     pvc_Storage claim \<le> pv_size v \<and> set (pvc_AccessModes claim) \<subseteq> set (pv_AccessModes v)"

definition same_modes :: "PersistentVolume \<Rightarrow> PersistentVolume \<Rightarrow> bool" where
  "same_modes v w \<longleftrightarrow> set (pv_AccessModes v) = set (pv_AccessModes w)"

definition mode_count :: "PersistentVolume \<Rightarrow> nat" where
  "mode_count v = card (set (pv_AccessModes v))"

definition best_match :: "PersistentVolumeClaim \<Rightarrow> PersistentVolume list \<Rightarrow> PersistentVolume option \<Rightarrow> bool" where
  "best_match claim vols r =
     (case r of
        None \<Rightarrow> \<forall>w \<in> set vols. \<not> prebound_match claim w \<and> \<not> free_match claim w
      | Some v \<Rightarrow>
          v \<in> set vols \<and> (prebound_match claim v \<or> free_match claim v) \<and>
          (\<forall>w \<in> set vols. prebound_match claim w \<or> free_match claim w \<longrightarrow> mode_count v \<le> mode_count w) \<and>
          (free_match claim v \<longrightarrow> (\<forall>w \<in> set vols. same_modes v w \<longrightarrow>
             \<not> prebound_match claim w \<and> (free_match claim w \<longrightarrow> pv_size v \<le> pv_size w))))"

lemma scan_volumes_Inl:
  "scan_volumes claim sel vols s = Inl v \<Longrightarrow>
   v \<in> set vols \<and> isVolumeBoundToClaim v claim \<and> pvc_Storage claim \<le> pv_size v"
  by (induction claim sel vols s rule: scan_volumes.induct) (auto split: if_splits)

definition scan_candidate :: "PersistentVolumeClaim \<Rightarrow> Selector option \<Rightarrow> PersistentVolume \<Rightarrow> bool" where
  "scan_candidate claim sel v \<longleftrightarrow> \<not> pv_filtered_out claim sel v \<and> pvc_Storage claim \<le> pv_size v"

lemma bound_not_candidate: "isVolumeBoundToClaim v claim \<Longrightarrow> \<not> scan_candidate claim sel v"
  by (auto simp: isVolumeBoundToClaim_def scan_candidate_def pv_filtered_out_def split: option.splits)

text \<open>What holds after the loop when it does not return: no pre-bound match, and the smallest candidate.\<close>

definition scan_result ::
  "PersistentVolumeClaim \<Rightarrow> Selector option \<Rightarrow> PersistentVolume list \<Rightarrow> PersistentVolume option \<Rightarrow>
   PersistentVolume option \<Rightarrow> bool" where
  "scan_result claim sel vols s r \<longleftrightarrow>
     (\<forall>w \<in> set vols. \<not> (isVolumeBoundToClaim w claim \<and> pvc_Storage claim \<le> pv_size w)) \<and>
     (case r of
        None \<Rightarrow> s = None \<and> (\<forall>w \<in> set vols. \<not> scan_candidate claim sel w)
      | Some v \<Rightarrow> (s = Some v \<or> v \<in> set vols \<and> scan_candidate claim sel v) \<and>
          (\<forall>w \<in> set vols. scan_candidate claim sel w \<longrightarrow> pv_size v \<le> pv_size w) \<and>
          (\<forall>u. s = Some u \<longrightarrow> pv_size v \<le> pv_size u))"

lemma scan_volumes_Inr: "scan_volumes claim sel vols s = Inr r \<Longrightarrow> scan_result claim sel vols s r"
proof (induction vols arbitrary: s)
  case Nil
  then show ?case by (cases r) (auto simp: scan_result_def)
next
  case (Cons v vols)
  note bc = bound_not_candidate [of v claim sel]
  consider (skip) "scan_volumes claim sel vols s = Inr r" "\<not> scan_candidate claim sel v"
      "\<not> (isVolumeBoundToClaim v claim \<and> pvc_Storage claim \<le> pv_size v)"
    | (best) "scan_volumes claim sel vols (Some v) = Inr r" "scan_candidate claim sel v"
        "\<forall>u. s = Some u \<longrightarrow> pv_size v \<le> pv_size u"
    | (keep) u where "scan_volumes claim sel vols s = Inr r" "s = Some u" "pv_size u \<le> pv_size v"
        "\<not> isVolumeBoundToClaim v claim"
    using Cons.prems bc by (cases s) (auto simp: scan_candidate_def split: if_splits)
  then show ?case
  proof cases
    case skip
    with Cons.IH [OF skip(1)] show ?thesis by (auto simp: scan_result_def split: option.splits)
  next
    case best
    with Cons.IH [OF best(1)] bc show ?thesis by (auto simp: scan_result_def split: option.splits)
  next
    case keep
    with Cons.IH [OF keep(1)] show ?thesis by (auto simp: scan_result_def split: option.splits)
  qed
qed

text \<open>With the claim's selector converted, the loop looks for the matches of the specification.\<close>

lemma scan_candidate_free:
  assumes "claim_selector claim = Inr sel" and "set (pvc_AccessModes claim) \<subseteq> set (pv_AccessModes v)"
  shows "scan_candidate claim sel v \<longleftrightarrow> free_match claim v"
proof (cases "pvc_Selector claim")
  case None
  with assms show ?thesis
    by (auto simp: claim_selector_def scan_candidate_def pv_filtered_out_def free_match_def)
next
  case (Some ps)
  with assms(1) obtain s where s: "sel = Some s" "LabelSelectorAsSelector (Some ps) = Inr s"
    by (auto simp: claim_selector_def split: sum.splits)
  with Some assms(2) LabelSelectorAsSelector_matches [OF s(2), of "pv_Labels v"] show ?thesis
    by (auto simp: scan_candidate_def pv_filtered_out_def free_match_def)
qed

text \<open>
  One round of the outer loop, on the volumes with the modes \<open>ms\<close>: it returns a match that is best
  among them, or there is none.
\<close>

lemma scan_modes_best:
  assumes sel: "claim_selector claim = Inr sel"
    and vols: "set vols = {v \<in> set all. set (pv_AccessModes v) = set ms}"
    and req: "set (pvc_AccessModes claim) \<subseteq> set ms"
  shows "case scan_volumes claim sel vols None of
      Inl v \<Rightarrow> v \<in> set vols \<and> prebound_match claim v
    | Inr (Some v) \<Rightarrow> v \<in> set vols \<and> free_match claim v \<and>
        (\<forall>w \<in> set vols. \<not> prebound_match claim w \<and> (free_match claim w \<longrightarrow> pv_size v \<le> pv_size w))
    | Inr None \<Rightarrow> \<forall>w \<in> set vols. \<not> prebound_match claim w \<and> \<not> free_match claim w"
proof -
  have m: "set (pvc_AccessModes claim) \<subseteq> set (pv_AccessModes v)" if "v \<in> set vols" for v
    using that req by (simp add: vols)
  have c: "scan_candidate claim sel v \<longleftrightarrow> free_match claim v" if "v \<in> set vols" for v
    using scan_candidate_free [OF sel m [OF that]] .
  have p: "prebound_match claim v \<longleftrightarrow> isVolumeBoundToClaim v claim \<and> pvc_Storage claim \<le> pv_size v"
    if "v \<in> set vols" for v
    using m [OF that] by (simp add: prebound_match_def)
  show ?thesis
  proof (cases "scan_volumes claim sel vols None")
    case (Inl v)
    with scan_volumes_Inl [OF Inl] p show ?thesis by simp
  next
    case (Inr r)
    with scan_volumes_Inr [OF Inr] c p show ?thesis
      by (cases r) (auto simp: scan_result_def)
  qed
qed

definition loop_result :: "PersistentVolumeClaim \<Rightarrow> PersistentVolume list \<Rightarrow> accessMode list list \<Rightarrow> PersistentVolume option \<Rightarrow> bool" where
  "loop_result claim all mss r =
     (let here = {w \<in> set all. canonical_modes (set (pv_AccessModes w)) \<in> set mss}
      in case r of
        None \<Rightarrow> \<forall>w \<in> here. \<not> prebound_match claim w \<and> \<not> free_match claim w
      | Some v \<Rightarrow>
          v \<in> here \<and> (prebound_match claim v \<or> free_match claim v) \<and>
          (\<forall>w \<in> here. prebound_match claim w \<or> free_match claim w \<longrightarrow> mode_count v \<le> mode_count w) \<and>
          (free_match claim v \<longrightarrow> (\<forall>w \<in> set all. same_modes v w \<longrightarrow>
             \<not> prebound_match claim w \<and> (free_match claim w \<longrightarrow> pv_size v \<le> pv_size w))))"

lemma prebound_not_free: "prebound_match claim v \<Longrightarrow> \<not> free_match claim v"
  by (auto simp: prebound_match_def free_match_def isVolumeBoundToClaim_def split: option.splits)

lemma canonical_eq_iff: "canonical_modes M = canonical_modes N \<longleftrightarrow> M = N"
  by (metis set_canonical_modes)

lemma mode_count_canonical: "mode_count v = length (canonical_modes (set (pv_AccessModes v)))"
  by (simp add: mode_count_def length_canonical_modes)

lemma findByClaim_loop_best:
  assumes inv: "pv_index_inv idx" and sel: "claim_selector claim = Inr sel"
    and "\<forall>ms \<in> set mss. ms = canonical_modes (set ms) \<and> set (pvc_AccessModes claim) \<subseteq> set ms"
    and "sorted (map length mss)"
  shows "\<exists>r. findByClaim_loop idx claim sel mss None = Some (Inr r) \<and> loop_result claim (cache_List idx) mss r"
  using assms(3,4)
proof (induction mss)
  case Nil
  then show ?case by (simp add: loop_result_def)
next
  case (Cons ms mss)
  obtain vols where l: "listByAccessModes idx ms = Some (Inr vols)"
    and vols: "set vols = {v \<in> set (cache_List idx). set (pv_AccessModes v) = set ms}"
    by (rule listByAccessModes_exact [OF inv])
  from Cons.prems have ms: "ms = canonical_modes (set ms)" and req: "set (pvc_AccessModes claim) \<subseteq> set ms"
    by auto
  have here: "canonical_modes (set (pv_AccessModes w)) = ms \<longleftrightarrow> set (pv_AccessModes w) = set ms" for w
    using ms canonical_eq_iff by metis
  have least: "length ms \<le> mode_count w" if "canonical_modes (set (pv_AccessModes w)) \<in> set (ms # mss)" for w
    using that Cons.prems(2) by (auto simp: mode_count_canonical)
  have count: "mode_count v = length ms" if "v \<in> set vols" for v
    using that here [of v] by (auto simp: vols mode_count_canonical)
  note best = scan_modes_best [OF sel vols req]
  show ?case
  proof (cases "scan_volumes claim sel vols None")
    case (Inl v)
    with best have v: "v \<in> set vols" "prebound_match claim v" by simp_all
    have "loop_result claim (cache_List idx) (ms # mss) (Some v)"
      using v count [OF v(1)] least prebound_not_free [OF v(2)]
      by (auto simp: loop_result_def Let_def vols here)
    then show ?thesis by (simp add: l Inl)
  next
    case (Inr r)
    show ?thesis
    proof (cases r)
      case None
      with best Inr have no: "\<forall>w \<in> set vols. \<not> prebound_match claim w \<and> \<not> free_match claim w" by simp
      obtain r' where r': "findByClaim_loop idx claim sel mss None = Some (Inr r')"
        "loop_result claim (cache_List idx) mss r'"
        using Cons.IH Cons.prems by auto
      have "loop_result claim (cache_List idx) (ms # mss) r'"
        using r'(2) no by (auto simp: loop_result_def Let_def vols here split: option.splits)
      then show ?thesis using r'(1) by (simp add: l Inr None)
    next
      case (Some v)
      with best Inr have v: "v \<in> set vols" "free_match claim v"
        "\<forall>w \<in> set vols. \<not> prebound_match claim w \<and> (free_match claim w \<longrightarrow> pv_size v \<le> pv_size w)"
        by simp_all
      have "loop_result claim (cache_List idx) (ms # mss) (Some v)"
        using v count [OF v(1)] least by (auto simp: loop_result_def Let_def vols here same_modes_def)
      then show ?thesis by (simp add: l Inr Some)
    qed
  qed
qed

lemma match_modes:
  "prebound_match claim w \<or> free_match claim w \<Longrightarrow> set (pvc_AccessModes claim) \<subseteq> set (pv_AccessModes w)"
  by (auto simp: prebound_match_def free_match_def)

lemma findByClaim_best:
  assumes inv: "pv_index_inv idx" and sel: "claim_selector claim = Inr sel"
  shows "\<exists>r. findByClaim idx claim = Some (Inr r) \<and> best_match claim (cache_List idx) r"
proof -
  let ?mss = "allPossibleMatchingAccessModes idx (pvc_AccessModes claim)"
  have "\<forall>ms \<in> set ?mss. ms = canonical_modes (set ms) \<and> set (pvc_AccessModes claim) \<subseteq> set ms"
    using allPossible_sound [OF inv] by blast
  then obtain r where r: "findByClaim_loop idx claim sel ?mss None = Some (Inr r)"
    "loop_result claim (cache_List idx) ?mss r"
    using findByClaim_loop_best [OF inv sel _ allPossible_sorted] by blast
  have c: "canonical_modes (set (pv_AccessModes w)) \<in> set ?mss"
    if "w \<in> set (cache_List idx)" "prebound_match claim w \<or> free_match claim w" for w
    by (rule allPossible_complete [OF inv that(1) match_modes [OF that(2)]])
  have "best_match claim (cache_List idx) r"
  proof (cases r)
    case None
    with r(2) have n: "\<forall>w \<in> set (cache_List idx). canonical_modes (set (pv_AccessModes w)) \<in> set ?mss \<longrightarrow>
        \<not> prebound_match claim w \<and> \<not> free_match claim w"
      by (simp add: loop_result_def)
    show ?thesis unfolding best_match_def None option.case using n c by blast
  next
    case (Some v)
    with r(2) have v: "v \<in> set (cache_List idx)" "prebound_match claim v \<or> free_match claim v"
      "\<forall>w \<in> set (cache_List idx). canonical_modes (set (pv_AccessModes w)) \<in> set ?mss \<longrightarrow>
         prebound_match claim w \<or> free_match claim w \<longrightarrow> mode_count v \<le> mode_count w"
      "free_match claim v \<longrightarrow> (\<forall>w \<in> set (cache_List idx). same_modes v w \<longrightarrow>
         \<not> prebound_match claim w \<and> (free_match claim w \<longrightarrow> pv_size v \<le> pv_size w))"
      by (simp_all add: loop_result_def)
    show ?thesis unfolding best_match_def Some option.case using v c by blast
  qed
  with r(1) sel show ?thesis by (auto simp: findByClaim_def Let_def)
qed

text \<open>
  C24: On an index reached by any sequence of store operations, the search for a volume never panics.
  It fails exactly when the label selector of the claim is invalid. Otherwise it returns no volume only
  if no stored volume is pre-bound to the claim or free and matching; and the volume it returns is such
  a match, none of the others has fewer access modes, and, when it is a free volume, no volume with the
  same access modes is pre-bound to the claim or a smaller free match.
\<close>

theorem find_best_match:
  "case pvc_Selector claim of
     Some ps \<Rightarrow> if \<not> selector_valid ps
       then \<exists>err. findBestMatchForClaim (store_run ops newPersistentVolumeOrderedIndex) claim = Some (Inl err)
       else \<exists>r. findBestMatchForClaim (store_run ops newPersistentVolumeOrderedIndex) claim = Some (Inr r) \<and>
              best_match claim (cache_List (store_run ops newPersistentVolumeOrderedIndex)) r
   | None \<Rightarrow> \<exists>r. findBestMatchForClaim (store_run ops newPersistentVolumeOrderedIndex) claim = Some (Inr r) \<and>
              best_match claim (cache_List (store_run ops newPersistentVolumeOrderedIndex)) r"
proof -
  let ?idx = "store_run ops newPersistentVolumeOrderedIndex"
  have inv: "pv_index_inv ?idx" by (rule pv_index_inv_run [OF pv_index_inv_New])
  show ?thesis
  proof (cases "claim_selector claim")
    case (Inl err)
    then obtain ps where ps: "pvc_Selector claim = Some ps" "isl (LabelSelectorAsSelector (Some ps))"
      by (auto simp: claim_selector_def split: option.splits sum.splits)
    then have "\<not> selector_valid ps" using LabelSelectorAsSelector_total [of ps] by blast
    with Inl ps(1) show ?thesis by (simp add: findBestMatchForClaim_def findByClaim_def)
  next
    case (Inr sel)
    have "selector_valid ps" if "pvc_Selector claim = Some ps" for ps
    proof -
      have "\<not> isl (LabelSelectorAsSelector (Some ps))"
        using that Inr by (auto simp: claim_selector_def split: sum.splits)
      then show ?thesis using LabelSelectorAsSelector_total [of ps] by blast
    qed
    then show ?thesis
      using findByClaim_best [OF inv Inr] by (auto simp: findBestMatchForClaim_def split: option.split)
  qed
qed

section \<open>A pre-bound volume that is not found\<close>

text \<open>A volume and a claim for concrete examples.\<close>

definition sample_pv :: "string \<Rightarrow> accessMode list \<Rightarrow> int \<Rightarrow> ObjectReference option \<Rightarrow> PersistentVolume" where
  "sample_pv name modes bytes ref =
     (pv_with_modes modes)\<lparr>pv_Name := name, pv_UID := ''uid-'' @ name, pv_ResourceVersion := ''1'',
        pv_Capacity := Some bytes, pv_ClaimRef := ref\<rparr>"

definition sample_pvc :: "string \<Rightarrow> accessMode list \<Rightarrow> int \<Rightarrow> PersistentVolumeClaim" where
  "sample_pvc name modes bytes =
     \<lparr>pvc_Namespace = ''ns'', pvc_Name = name, pvc_UID = ''uid-'' @ name, pvc_ResourceVersion = ''1'',
      pvc_SelfLink = [], pvc_APIVersion = ''v1'', pvc_Annotations = [], pvc_AccessModes = modes,
      pvc_Storage = bytes, pvc_Selector = None, pvc_VolumeName = [], pvc_Phase = ClaimPending,
      pvc_StatusAccessModes = [], pvc_StatusCapacity = None\<rparr>"

text \<open>
  The search does not find a volume that is pre-bound to the claim (by its creator, or by dynamic
  provisioning) when a free volume with fewer access modes matches, although the comment in the code
  says that all volumes are looped through for the sake of pre-bound ones.
\<close>

theorem prebound_volume_skipped:
  assumes "w \<in> set (cache_List (store_run ops newPersistentVolumeOrderedIndex))" and "prebound_match claim w"
    and "u \<in> set (cache_List (store_run ops newPersistentVolumeOrderedIndex))" and "free_match claim u"
    and "mode_count u < mode_count w"
  shows "findBestMatchForClaim (store_run ops newPersistentVolumeOrderedIndex) claim \<noteq> Some (Inr (Some w))"
proof
  let ?idx = "store_run ops newPersistentVolumeOrderedIndex"
  assume w: "findBestMatchForClaim ?idx claim = Some (Inr (Some w))"
  then obtain sel where "claim_selector claim = Inr sel"
    by (auto simp: findBestMatchForClaim_def findByClaim_def Let_def split: sum.splits)
  from findByClaim_best [OF pv_index_inv_run [OF pv_index_inv_New] this, of ops] w
  have "best_match claim (cache_List ?idx) (Some w)" by (simp add: findBestMatchForClaim_def)
  then have "mode_count w \<le> mode_count u"
    using assms(3,4) unfolding best_match_def option.case by blast
  with assms(5) show False by simp
qed

theorem prebound_volume_skipped_witness:
  "let claim = sample_pvc ''c'' [ReadWriteOnce] 5;
       w = sample_pv ''bound'' [ReadWriteOnce, ReadOnlyMany] 5 (Some \<lparr>ref_Namespace = ''ns'', ref_Name = ''c'', ref_UID = []\<rparr>);
       u = sample_pv ''free'' [ReadWriteOnce] 9 None;
       ops = [AddOp w, AddOp u]
   in prebound_match claim w \<and> free_match claim u \<and> mode_count u < mode_count w \<and>
      findBestMatchForClaim (store_run ops newPersistentVolumeOrderedIndex) claim = Some (Inr (Some u)) \<and>
      findBestMatchForClaim (store_run ops newPersistentVolumeOrderedIndex) claim \<noteq> Some (Inr (Some w))"
proof -
  define claim where "claim = sample_pvc ''c'' [ReadWriteOnce] 5"
  define w where "w = sample_pv ''bound'' [ReadWriteOnce, ReadOnlyMany] 5 (Some \<lparr>ref_Namespace = ''ns'', ref_Name = ''c'', ref_UID = []\<rparr>)"
  define u where "u = sample_pv ''free'' [ReadWriteOnce] 9 None"
  note s = claim_def w_def u_def sample_pvc_def sample_pv_def pv_with_modes_def
  have m: "w \<in> set (cache_List (store_run [AddOp w, AddOp u] newPersistentVolumeOrderedIndex))"
    "u \<in> set (cache_List (store_run [AddOp w, AddOp u] newPersistentVolumeOrderedIndex))"
    unfolding s by code_simp+
  have f: "findBestMatchForClaim (store_run [AddOp w, AddOp u] newPersistentVolumeOrderedIndex) claim = Some (Inr (Some u))"
    unfolding s by code_simp
  have p: "prebound_match claim w" and q: "free_match claim u" and l: "mode_count u < mode_count w"
    unfolding s by code_simp+
  show ?thesis
    using prebound_volume_skipped [OF m(1) p m(2) q l] f p q l
    unfolding claim_def [symmetric] w_def [symmetric] u_def [symmetric] by (simp add: Let_def)
qed

end
