(* ===== verification/Kube_API.thy ===== *)
theory Kube_API
  imports PV_Index
begin

text \<open>
  The API server as the persistent volume controller sees it. The client interface is a record of
  functions on a world of any type: every call may change the world, so a client may stand for a server
  that other controllers and users change between two calls. The second part models the registry behind
  the two resources (\<open>Update\<close> and \<open>Create\<close> of \<open>pkg/registry/generic/registry/store.go\<close> with the
  strategies of persistent volumes and claims) as one instance of the interface: optimistic locking by
  resource version, and specification and status written separately. Validation of the objects is a
  parameter; finalizers and graceful deletion are not modelled.
\<close>

section \<open>Client interface\<close>

record 'w kube_client =
  kc_GetPV :: "string \<Rightarrow> 'w \<Rightarrow> 'w \<times> (error + PersistentVolume)"
  kc_CreatePV :: "PersistentVolume \<Rightarrow> 'w \<Rightarrow> 'w \<times> (error + PersistentVolume)"
  kc_UpdatePV :: "PersistentVolume \<Rightarrow> 'w \<Rightarrow> 'w \<times> (error + PersistentVolume)"
  kc_UpdatePVStatus :: "PersistentVolume \<Rightarrow> 'w \<Rightarrow> 'w \<times> (error + PersistentVolume)"
  kc_DeletePV :: "string \<Rightarrow> 'w \<Rightarrow> 'w \<times> error option"
  kc_UpdatePVC :: "PersistentVolumeClaim \<Rightarrow> 'w \<Rightarrow> 'w \<times> (error + PersistentVolumeClaim)"
  kc_UpdatePVCStatus :: "PersistentVolumeClaim \<Rightarrow> 'w \<Rightarrow> 'w \<times> (error + PersistentVolumeClaim)"

section \<open>The registry\<close>

definition ObjectResourceVersion :: "string \<Rightarrow> error + nat" where
  "ObjectResourceVersion version = (if length version = 0 then Inr 0 else strconv_ParseUint version)"

text \<open>
  \<open>Store.Update\<close> for a strategy that allows unconditional updates and does not create on update. The
  table holds each object with its resource version; \<open>revision\<close> is the last revision of the storage. An
  object that does not change is not written (\<open>GuaranteedUpdate\<close>).
\<close>

definition registry_Update ::
  "('a \<Rightarrow> string) \<Rightarrow> (string \<Rightarrow> 'a \<Rightarrow> 'a) \<Rightarrow> ('a \<Rightarrow> 'a \<Rightarrow> 'a) \<Rightarrow> ('a \<Rightarrow> 'a \<Rightarrow> error option) \<Rightarrow>
   string \<Rightarrow> 'a \<Rightarrow> (string, 'a) gomap \<Rightarrow> nat \<Rightarrow> ((string, 'a) gomap \<times> nat) \<times> (error + 'a)" where
  "registry_Update rv set_rv prepareForUpdate validateUpdate key obj tbl revision =
     (case ObjectResourceVersion (rv obj) of
        Inl err \<Rightarrow> ((tbl, revision), Inl err)
      | Inr resourceVersion \<Rightarrow>
          (case mget tbl key of
             None \<Rightarrow> ((tbl, revision), Inl (NotFoundError key))
           | Some existing \<Rightarrow>
               (case ObjectResourceVersion (rv existing) of
                  Inl err \<Rightarrow> ((tbl, revision), Inl err)
                | Inr version \<Rightarrow>
                    if version = 0 then ((tbl, revision), Inl (NotFoundError key))
                    else if resourceVersion \<noteq> 0 \<and> resourceVersion \<noteq> version
                    then ((tbl, revision), Inl (ConflictError key))
                    else let obj = prepareForUpdate obj existing
                         in case validateUpdate obj existing of
                              Some err \<Rightarrow> ((tbl, revision), Inl err)
                            | None \<Rightarrow>
                                if set_rv (rv existing) obj = existing then ((tbl, revision), Inr existing)
                                else let out = set_rv (show_nat (Suc revision)) obj
                                     in ((mput key out tbl, Suc revision), Inr out))))"

text \<open>
  \<open>Store.Create\<close>; \<open>fill\<close> sets the system fields of the metadata (\<open>FillObjectMetaSystemFields\<close>).
\<close>

definition registry_Create ::
  "('a \<Rightarrow> string) \<Rightarrow> (string \<Rightarrow> 'a \<Rightarrow> 'a) \<Rightarrow> ('a \<Rightarrow> 'a) \<Rightarrow> ('a \<Rightarrow> 'a) \<Rightarrow> ('a \<Rightarrow> error option) \<Rightarrow>
   string \<Rightarrow> 'a \<Rightarrow> (string, 'a) gomap \<Rightarrow> nat \<Rightarrow> ((string, 'a) gomap \<times> nat) \<times> (error + 'a)" where
  "registry_Create rv set_rv prepareForCreate fill validate key obj tbl revision =
     (let obj = fill (prepareForCreate obj)
      in case validate obj of
           Some err \<Rightarrow> ((tbl, revision), Inl err)
         | None \<Rightarrow>
             if (case ObjectResourceVersion (rv obj) of Inl _ \<Rightarrow> False | Inr version \<Rightarrow> version \<noteq> 0)
             then ((tbl, revision), Inl (Errorf ''resourceVersion should not be set on objects to be created'' None))
             else if mhas tbl key then ((tbl, revision), Inl (AlreadyExistsError key))
             else let out = set_rv (show_nat (Suc revision)) obj
                  in ((mput key out tbl, Suc revision), Inr out))"

section \<open>Strategies\<close>

definition pv_PrepareForCreate :: "PersistentVolume \<Rightarrow> PersistentVolume" where
  "pv_PrepareForCreate pv = pv\<lparr>pv_Phase := VolumePending, pv_Message := [], pv_Reason := []\<rparr>"

definition pv_PrepareForUpdate :: "PersistentVolume \<Rightarrow> PersistentVolume \<Rightarrow> PersistentVolume" where
  "pv_PrepareForUpdate newPv oldPv =
     newPv\<lparr>pv_Phase := pv_Phase oldPv, pv_Message := pv_Message oldPv, pv_Reason := pv_Reason oldPv\<rparr>"

definition pv_StatusPrepareForUpdate :: "PersistentVolume \<Rightarrow> PersistentVolume \<Rightarrow> PersistentVolume" where
  "pv_StatusPrepareForUpdate newPv oldPv =
     newPv\<lparr>pv_Capacity := pv_Capacity oldPv, pv_AccessModes := pv_AccessModes oldPv,
           pv_ClaimRef := pv_ClaimRef oldPv, pv_ReclaimPolicy := pv_ReclaimPolicy oldPv,
           pv_NVMEOF := pv_NVMEOF oldPv, pv_source := pv_source oldPv\<rparr>"

definition pvc_PrepareForUpdate :: "PersistentVolumeClaim \<Rightarrow> PersistentVolumeClaim \<Rightarrow> PersistentVolumeClaim" where
  "pvc_PrepareForUpdate newPvc oldPvc =
     newPvc\<lparr>pvc_Phase := pvc_Phase oldPvc, pvc_StatusAccessModes := pvc_StatusAccessModes oldPvc,
            pvc_StatusCapacity := pvc_StatusCapacity oldPvc\<rparr>"

definition pvc_StatusPrepareForUpdate :: "PersistentVolumeClaim \<Rightarrow> PersistentVolumeClaim \<Rightarrow> PersistentVolumeClaim" where
  "pvc_StatusPrepareForUpdate newPv oldPv =
     newPv\<lparr>pvc_AccessModes := pvc_AccessModes oldPv, pvc_Storage := pvc_Storage oldPv,
           pvc_Selector := pvc_Selector oldPv, pvc_VolumeName := pvc_VolumeName oldPv\<rparr>"

section \<open>The registry as a client\<close>

record etcd =
  etcd_pvs :: "(string, PersistentVolume) gomap"
  etcd_pvcs :: "(string, PersistentVolumeClaim) gomap"
  etcd_rev :: nat

text \<open>What the API server validates and generates: parameters of the instance.\<close>

record api_rules =
  ar_validatePV :: "PersistentVolume \<Rightarrow> error option"
  ar_validatePVUpdate :: "PersistentVolume \<Rightarrow> PersistentVolume \<Rightarrow> error option"
  ar_validatePVC :: "PersistentVolumeClaim \<Rightarrow> PersistentVolumeClaim \<Rightarrow> error option"
  ar_newUID :: "nat \<Rightarrow> uid"

definition put_pv :: "etcd \<Rightarrow> ((string, PersistentVolume) gomap \<times> nat) \<times> 'r \<Rightarrow> etcd \<times> 'r" where
  "put_pv e r = (e\<lparr>etcd_pvs := fst (fst r), etcd_rev := snd (fst r)\<rparr>, snd r)"

definition put_pvc :: "etcd \<Rightarrow> ((string, PersistentVolumeClaim) gomap \<times> nat) \<times> 'r \<Rightarrow> etcd \<times> 'r" where
  "put_pvc e r = (e\<lparr>etcd_pvcs := fst (fst r), etcd_rev := snd (fst r)\<rparr>, snd r)"

definition set_pv_rv :: "string \<Rightarrow> PersistentVolume \<Rightarrow> PersistentVolume" where
  "set_pv_rv v pv = pv\<lparr>pv_ResourceVersion := v\<rparr>"

definition set_pvc_rv :: "string \<Rightarrow> PersistentVolumeClaim \<Rightarrow> PersistentVolumeClaim" where
  "set_pvc_rv v pvc = pvc\<lparr>pvc_ResourceVersion := v\<rparr>"

definition etcd_UpdatePV :: "api_rules \<Rightarrow> PersistentVolume \<Rightarrow> etcd \<Rightarrow> etcd \<times> (error + PersistentVolume)" where
  "etcd_UpdatePV ar pv e =
     put_pv e (registry_Update pv_ResourceVersion set_pv_rv pv_PrepareForUpdate (ar_validatePVUpdate ar)
       (pv_Name pv) pv (etcd_pvs e) (etcd_rev e))"

definition etcd_UpdatePVStatus :: "api_rules \<Rightarrow> PersistentVolume \<Rightarrow> etcd \<Rightarrow> etcd \<times> (error + PersistentVolume)" where
  "etcd_UpdatePVStatus ar pv e =
     put_pv e (registry_Update pv_ResourceVersion set_pv_rv pv_StatusPrepareForUpdate (ar_validatePVUpdate ar)
       (pv_Name pv) pv (etcd_pvs e) (etcd_rev e))"

definition etcd_UpdatePVC :: "api_rules \<Rightarrow> PersistentVolumeClaim \<Rightarrow> etcd \<Rightarrow> etcd \<times> (error + PersistentVolumeClaim)" where
  "etcd_UpdatePVC ar pvc e =
     put_pvc e (registry_Update pvc_ResourceVersion set_pvc_rv pvc_PrepareForUpdate (ar_validatePVC ar)
       (claimToClaimKey pvc) pvc (etcd_pvcs e) (etcd_rev e))"

definition etcd_UpdatePVCStatus :: "api_rules \<Rightarrow> PersistentVolumeClaim \<Rightarrow> etcd \<Rightarrow> etcd \<times> (error + PersistentVolumeClaim)" where
  "etcd_UpdatePVCStatus ar pvc e =
     put_pvc e (registry_Update pvc_ResourceVersion set_pvc_rv pvc_StatusPrepareForUpdate (ar_validatePVC ar)
       (claimToClaimKey pvc) pvc (etcd_pvcs e) (etcd_rev e))"

definition etcd_client :: "api_rules \<Rightarrow> etcd kube_client" where
  "etcd_client ar =
     \<lparr>kc_GetPV = (\<lambda>name e. (e, case mget (etcd_pvs e) name of Some pv \<Rightarrow> Inr pv | None \<Rightarrow> Inl (NotFoundError name))),
      kc_CreatePV = (\<lambda>pv e. put_pv e (registry_Create pv_ResourceVersion set_pv_rv pv_PrepareForCreate
         (\<lambda>pv. pv\<lparr>pv_UID := ar_newUID ar (etcd_rev e), pv_DeletionTimestamp := None\<rparr>) (ar_validatePV ar)
         (pv_Name pv) pv (etcd_pvs e) (etcd_rev e))),
      kc_UpdatePV = etcd_UpdatePV ar,
      kc_UpdatePVStatus = etcd_UpdatePVStatus ar,
      kc_DeletePV = (\<lambda>name e. if mhas (etcd_pvs e) name
         then (e\<lparr>etcd_pvs := mdel name (etcd_pvs e), etcd_rev := Suc (etcd_rev e)\<rparr>, None)
         else (e, Some (NotFoundError name))),
      kc_UpdatePVC = etcd_UpdatePVC ar,
      kc_UpdatePVCStatus = etcd_UpdatePVCStatus ar\<rparr>"

section \<open>Laws of the registry\<close>

lemma ObjectResourceVersion_show:
  "n < 2 ^ 64 \<Longrightarrow> ObjectResourceVersion (show_nat n) = Inr n"
  by (simp add: ObjectResourceVersion_def strconv_ParseUint_show_nat)

text \<open>A refused update changes nothing; an accepted one was made on the version that is stored.\<close>

lemma registry_Update_Inl:
  "registry_Update rv set_rv prep val key obj tbl n = (t, Inl err) \<Longrightarrow> t = (tbl, n)"
  by (auto simp: registry_Update_def Let_def split: sum.splits option.splits if_splits)

lemma registry_Update_Inr:
  assumes "registry_Update rv set_rv prep val key obj tbl n = ((tbl', n'), Inr out)"
  obtains existing where "mget tbl key = Some existing" and "mget tbl' = (mget tbl)(key \<mapsto> out)"
    and "ObjectResourceVersion (rv obj) = Inr 0 \<or> ObjectResourceVersion (rv obj) = ObjectResourceVersion (rv existing)"
    and "\<exists>v. out = set_rv v (prep obj existing)"
proof -
  from assms obtain r where r: "ObjectResourceVersion (rv obj) = Inr r"
    by (auto simp: registry_Update_def split: sum.splits)
  with assms obtain existing where e: "mget tbl key = Some existing"
    by (auto simp: registry_Update_def split: option.splits)
  with assms r obtain v where v: "ObjectResourceVersion (rv existing) = Inr v" "r = 0 \<or> r = v"
    by (auto simp: registry_Update_def split: sum.splits if_splits)
  have "mget tbl' = (mget tbl)(key \<mapsto> out)"
    using assms r e v
    by (auto simp: registry_Update_def Let_def fun_eq_iff gm.get_put split: if_splits option.splits)
  moreover have "\<exists>v. out = set_rv v (prep obj existing)"
    using assms r e v by (auto simp: registry_Update_def Let_def split: if_splits option.splits) (metis+)
  ultimately show thesis using that e r v by auto
qed

text \<open>An update of the stored version that the rules accept succeeds.\<close>

lemma registry_Update_current:
  assumes "mget tbl key = Some existing" and "rv obj = rv existing" and "rv existing = show_nat k"
    and "0 < k" and "k < 2 ^ 64" and "val (prep obj existing) existing = None"
  obtains t n' out where "registry_Update rv set_rv prep val key obj tbl n = ((t, n'), Inr out)"
    and "mget t = (mget tbl)(key \<mapsto> out)" and "n' = n \<and> out = existing \<and> set_rv (rv existing) (prep obj existing) = existing
      \<or> n' = Suc n \<and> out = set_rv (show_nat (Suc n)) (prep obj existing)"
proof (cases "set_rv (rv existing) (prep obj existing) = existing")
  case True
  with assms show thesis
    by (intro that [of tbl n existing])
      (auto simp: registry_Update_def ObjectResourceVersion_show fun_eq_iff)
next
  case False
  with assms show thesis
    by (intro that [of "mput key (set_rv (show_nat (Suc n)) (prep obj existing)) tbl" "Suc n"
          "set_rv (show_nat (Suc n)) (prep obj existing)"])
      (auto simp: registry_Update_def ObjectResourceVersion_show Let_def fun_eq_iff gm.get_put)
qed

section \<open>The contract of an update\<close>

text \<open>
  What the controller relies on when it writes an object from its cache: a refused update leaves the
  stored objects alone, and an accepted one was made from the version that is stored (or from an object
  without a version) and changes that object only.
\<close>

locale optimistic_update =
  fixes name :: "'a \<Rightarrow> string" and rv :: "'a \<Rightarrow> string"
    and stored :: "'w \<Rightarrow> string \<Rightarrow> 'a option"
    and upd :: "'a \<Rightarrow> 'w \<Rightarrow> 'w \<times> (error + 'a)"
  assumes refused: "upd obj w = (w', Inl err) \<Longrightarrow> stored w' = stored w"
    and accepted: "upd obj w = (w', Inr out) \<Longrightarrow>
      \<exists>existing. stored w (name obj) = Some existing \<and> stored w' = (stored w)(name obj \<mapsto> out) \<and>
        name out = name obj \<and>
        (ObjectResourceVersion (rv obj) = Inr 0 \<or> ObjectResourceVersion (rv obj) = ObjectResourceVersion (rv existing))"
begin

lemma stale_update:
  assumes "upd obj w = (w', r)" and "stored w (name obj) = Some existing"
    and "ObjectResourceVersion (rv obj) \<noteq> Inr 0"
    and "ObjectResourceVersion (rv obj) \<noteq> ObjectResourceVersion (rv existing)"
  shows "stored w' = stored w" and "isl r"
proof (atomize (full), cases r)
  case (Inl err)
  with assms(1) show "stored w' = stored w \<and> isl r" by (simp add: refused)
next
  case (Inr out)
  with accepted [of obj w w' out] assms show "stored w' = stored w \<and> isl r" by auto
qed

lemma other_objects: "upd obj w = (w', r) \<Longrightarrow> k \<noteq> name obj \<Longrightarrow> stored w' k = stored w k"
  using refused [of obj w w'] accepted [of obj w w'] by (cases r) auto

end

lemma registry_refused:
  "snd (registry_Update rv set_rv prep val key obj tbl n) = Inl err \<Longrightarrow>
   fst (registry_Update rv set_rv prep val key obj tbl n) = (tbl, n)"
  by (cases "registry_Update rv set_rv prep val key obj tbl n") (auto dest: registry_Update_Inl)

lemma registry_accepted:
  assumes "snd (registry_Update rv set_rv prep val key obj tbl n) = Inr out"
  shows "\<exists>existing. mget tbl key = Some existing \<and>
     mget (fst (fst (registry_Update rv set_rv prep val key obj tbl n))) = (mget tbl)(key \<mapsto> out) \<and>
     (\<exists>v. out = set_rv v (prep obj existing)) \<and>
     (ObjectResourceVersion (rv obj) = Inr 0 \<or> ObjectResourceVersion (rv obj) = ObjectResourceVersion (rv existing))"
proof -
  obtain t m where r: "registry_Update rv set_rv prep val key obj tbl n = ((t, m), Inr out)"
    using assms by (metis prod.collapse)
  then show ?thesis by (rule registry_Update_Inr) (use r in auto)
qed

lemma strategies_keep_name:
  "pv_Name (set_pv_rv r (pv_PrepareForUpdate v w)) = pv_Name v"
  "pv_Name (set_pv_rv r (pv_StatusPrepareForUpdate v w)) = pv_Name v"
  "claimToClaimKey (set_pvc_rv r (pvc_PrepareForUpdate c d)) = claimToClaimKey c"
  "claimToClaimKey (set_pvc_rv r (pvc_StatusPrepareForUpdate c d)) = claimToClaimKey c"
  by (simp_all add: set_pv_rv_def set_pvc_rv_def pv_PrepareForUpdate_def pv_StatusPrepareForUpdate_def
      pvc_PrepareForUpdate_def pvc_StatusPrepareForUpdate_def claimToClaimKey_def)

lemmas etcd_updates = etcd_UpdatePV_def etcd_UpdatePVStatus_def etcd_UpdatePVC_def etcd_UpdatePVCStatus_def
  put_pv_def put_pvc_def

interpretation etcd_pv: optimistic_update pv_Name pv_ResourceVersion "\<lambda>e. mget (etcd_pvs e)" "etcd_UpdatePV ar" for ar
  by unfold_locales (auto simp: etcd_updates registry_refused strategies_keep_name dest!: registry_accepted)

interpretation etcd_pv_status: optimistic_update pv_Name pv_ResourceVersion "\<lambda>e. mget (etcd_pvs e)" "etcd_UpdatePVStatus ar" for ar
  by unfold_locales (auto simp: etcd_updates registry_refused strategies_keep_name dest!: registry_accepted)

interpretation etcd_pvc: optimistic_update claimToClaimKey pvc_ResourceVersion "\<lambda>e. mget (etcd_pvcs e)" "etcd_UpdatePVC ar" for ar
  by unfold_locales (auto simp: etcd_updates registry_refused strategies_keep_name dest!: registry_accepted)

interpretation etcd_pvc_status: optimistic_update claimToClaimKey pvc_ResourceVersion "\<lambda>e. mget (etcd_pvcs e)" "etcd_UpdatePVCStatus ar" for ar
  by unfold_locales (auto simp: etcd_updates registry_refused strategies_keep_name dest!: registry_accepted)

end
