(* ===== verification/Go_Effects.thy ===== *)
theory Go_Effects
  imports Volume_Prelude
begin

text \<open>
  Go methods that change state and return an error: a function from the state before the call to the
  state after it and the result, or to \<open>None\<close> for a panic. Sequencing stops at the first error, which
  is the idiom \<open>if err != nil { return err }\<close>. The weakest-precondition rules below turn a statement
  about a method into one about the calls it makes.
\<close>

named_theorems go_simps \<open>running the combinators\<close>
named_theorems go_wp \<open>weakest preconditions of the combinators\<close>

type_synonym ('s, 'a) go = "'s \<Rightarrow> ('s \<times> (error + 'a)) option"

definition ret :: "'a \<Rightarrow> ('s, 'a) go" where
  "ret a s = Some (s, Inr a)"

definition fail :: "error \<Rightarrow> ('s, 'a) go" where
  "fail err s = Some (s, Inl err)"

definition panic :: "('s, 'a) go" where
  "panic s = None"

definition modify :: "('s \<Rightarrow> 's) \<Rightarrow> ('s, unit) go" where
  "modify f s = Some (f s, Inr ())"

text \<open>\<open>and_then m f\<close>: call \<open>m\<close>, return its error if there is one, otherwise continue with its result.\<close>

definition and_then :: "('s, 'a) go \<Rightarrow> ('a \<Rightarrow> ('s, 'b) go) \<Rightarrow> ('s, 'b) go" where
  "and_then m f s =
     (case m s of
        None \<Rightarrow> None
      | Some (s', Inl err) \<Rightarrow> Some (s', Inl err)
      | Some (s', Inr a) \<Rightarrow> f a s')"

text \<open>\<open>on_result m h\<close>: call \<open>m\<close> and go on with the error or the value it returned.\<close>

definition on_result :: "('s, 'a) go \<Rightarrow> (error + 'a \<Rightarrow> ('s, 'b) go) \<Rightarrow> ('s, 'b) go" where
  "on_result m h s = (case m s of None \<Rightarrow> None | Some (s', r) \<Rightarrow> h r s')"

text \<open>Reading the state.\<close>

definition gets :: "('s \<Rightarrow> ('s, 'a) go) \<Rightarrow> ('s, 'a) go" where
  "gets f s = f s s"

text \<open>Returning a result that was computed without changing the state.\<close>

definition result :: "error + 'a \<Rightarrow> ('s, 'a) go" where
  "result r s = Some (s, r)"

lemmas go_defs = ret_def fail_def panic_def modify_def and_then_def on_result_def gets_def result_def

lemma go_run [go_simps]:
  "and_then (ret a) f = f a" "and_then (fail e) f = fail e" "and_then panic f = panic"
  "on_result (ret a) h = h (Inr a)" "on_result (fail e) h = h (Inl e)" "on_result panic h = panic"
  "result (Inr a) = ret a" "result (Inl e) = fail e"
  by (intro ext; simp add: go_defs)+

lemma and_then_assoc: "and_then (and_then m f) g = and_then m (\<lambda>a. and_then (f a) g)"
  by (intro ext) (simp add: and_then_def split: option.split sum.split)

lemma and_then_ret: "and_then m ret = m"
  by (intro ext) (simp add: and_then_def ret_def split: option.split sum.split)

section \<open>Weakest preconditions\<close>

text \<open>
  \<open>outcome m s Q E\<close>: started in \<open>s\<close>, \<open>m\<close> does not panic; if it returns a value then \<open>Q\<close> holds of the
  state and the value, and if it returns an error then \<open>E\<close> holds of the state and the error.
\<close>

definition outcome :: "('s, 'a) go \<Rightarrow> 's \<Rightarrow> ('s \<Rightarrow> 'a \<Rightarrow> bool) \<Rightarrow> ('s \<Rightarrow> error \<Rightarrow> bool) \<Rightarrow> bool" where
  "outcome m s Q E =
     (case m s of
        None \<Rightarrow> False
      | Some (s', Inl err) \<Rightarrow> E s' err
      | Some (s', Inr a) \<Rightarrow> Q s' a)"

lemma outcome_ret [go_wp]: "outcome (ret a) s Q E \<longleftrightarrow> Q s a"
  by (simp add: outcome_def ret_def)

lemma outcome_fail [go_wp]: "outcome (fail e) s Q E \<longleftrightarrow> E s e"
  by (simp add: outcome_def fail_def)

lemma outcome_panic [go_wp]: "outcome panic s Q E \<longleftrightarrow> False"
  by (simp add: outcome_def panic_def)

lemma outcome_modify [go_wp]: "outcome (modify f) s Q E \<longleftrightarrow> Q (f s) ()"
  by (simp add: outcome_def modify_def)

lemma outcome_result [go_wp]: "outcome (result r) s Q E \<longleftrightarrow> (case r of Inl e \<Rightarrow> E s e | Inr a \<Rightarrow> Q s a)"
  by (simp add: outcome_def result_def split: sum.split)

lemma outcome_gets [go_wp]: "outcome (gets f) s Q E \<longleftrightarrow> outcome (f s) s Q E"
  by (simp add: outcome_def gets_def)

lemma outcome_and_then [go_wp]:
  "outcome (and_then m f) s Q E \<longleftrightarrow> outcome m s (\<lambda>s' a. outcome (f a) s' Q E) E"
  by (simp add: outcome_def and_then_def split: option.split sum.split)

lemma outcome_on_result [go_wp]:
  "outcome (on_result m h) s Q E \<longleftrightarrow>
   outcome m s (\<lambda>s' a. outcome (h (Inr a)) s' Q E) (\<lambda>s' e. outcome (h (Inl e)) s' Q E)"
  by (simp add: outcome_def on_result_def split: option.split sum.split)

lemma outcome_mono:
  assumes "outcome m s Q E" and "\<And>s' a. Q s' a \<Longrightarrow> Q' s' a" and "\<And>s' e. E s' e \<Longrightarrow> E' s' e"
  shows "outcome m s Q' E'"
  using assms by (auto simp: outcome_def split: option.splits sum.splits)

lemma outcome_conj:
  "outcome m s Q E \<Longrightarrow> outcome m s Q' E' \<Longrightarrow> outcome m s (\<lambda>s' a. Q s' a \<and> Q' s' a) (\<lambda>s' e. E s' e \<and> E' s' e)"
  by (auto simp: outcome_def split: option.splits sum.splits)

lemma outcome_run:
  "outcome m s Q E \<Longrightarrow> (\<exists>s' a. m s = Some (s', Inr a) \<and> Q s' a) \<or> (\<exists>s' e. m s = Some (s', Inl e) \<and> E s' e)"
  by (auto simp: outcome_def split: option.splits sum.splits) (metis sumE)

text \<open>The same as rules: what the first call achieves is what the rest starts from.\<close>

lemma and_then_outcome:
  assumes "outcome m s Q1 E1" and "\<And>s' a. Q1 s' a \<Longrightarrow> outcome (f a) s' Q E" and "\<And>s' e. E1 s' e \<Longrightarrow> E s' e"
  shows "outcome (and_then m f) s Q E"
  unfolding outcome_and_then using assms by (rule outcome_mono)

lemma on_result_outcome:
  assumes "outcome m s Q1 E1" and "\<And>s' a. Q1 s' a \<Longrightarrow> outcome (h (Inr a)) s' Q E" and "\<And>s' e. E1 s' e \<Longrightarrow> outcome (h (Inl e)) s' Q E"
  shows "outcome (on_result m h) s Q E"
  unfolding outcome_on_result using assms by (rule outcome_mono)

text \<open>A property of states that a method keeps, whether it returns a value or an error.\<close>

definition keeps :: "('s \<Rightarrow> bool) \<Rightarrow> ('s, 'a) go \<Rightarrow> bool" where
  "keeps P m \<longleftrightarrow> (\<forall>s. P s \<longrightarrow> outcome m s (\<lambda>s' _. P s') (\<lambda>s' _. P s'))"

lemma keepsD: "keeps P m \<Longrightarrow> P s \<Longrightarrow> outcome m s (\<lambda>s' _. P s') (\<lambda>s' _. P s')"
  by (simp add: keeps_def)

lemma keeps_basic: "keeps P (ret a)" "keeps P (fail e)"
  by (simp_all add: keeps_def go_wp)

lemma keeps_modify: "(\<And>s. P s \<Longrightarrow> P (f s)) \<Longrightarrow> keeps P (modify f)"
  by (simp add: keeps_def go_wp)

lemma keeps_and_then: "keeps P m \<Longrightarrow> (\<And>a. keeps P (f a)) \<Longrightarrow> keeps P (and_then m f)"
  unfolding keeps_def go_wp by (blast intro: outcome_mono)

lemma keeps_on_result: "keeps P m \<Longrightarrow> (\<And>r. keeps P (h r)) \<Longrightarrow> keeps P (on_result m h)"
  unfolding keeps_def go_wp by (blast intro: outcome_mono)

lemma keeps_gets_all: "(\<And>s. keeps P (f s)) \<Longrightarrow> keeps P (gets f)"
  by (simp add: keeps_def go_wp)

lemma keeps_result: "keeps P (result r)"
  by (simp add: keeps_def go_wp split: sum.split)

lemma keeps_if: "(b \<Longrightarrow> keeps P m) \<Longrightarrow> (\<not> b \<Longrightarrow> keeps P n) \<Longrightarrow> keeps P (if b then m else n)"
  by simp

lemma keeps_option: "keeps P m \<Longrightarrow> (\<And>x. keeps P (f x)) \<Longrightarrow> keeps P (case o' of None \<Rightarrow> m | Some x \<Rightarrow> f x)"
  by (cases o') simp_all

lemma keeps_sum: "(\<And>x. keeps P (f x)) \<Longrightarrow> (\<And>y. keeps P (g y)) \<Longrightarrow> keeps P (case r of Inl x \<Rightarrow> f x | Inr y \<Rightarrow> g y)"
  by (cases r) simp_all

lemma keeps_prod: "(\<And>x y. keeps P (f x y)) \<Longrightarrow> keeps P (case p of (x, y) \<Rightarrow> f x y)"
  by (cases p) simp

lemmas keeps_intros = keeps_basic keeps_result keeps_and_then keeps_on_result keeps_if keeps_option
  keeps_sum keeps_prod

lemma keeps_gets: "(\<And>s. P s \<Longrightarrow> outcome (f s) s (\<lambda>s' _. P s') (\<lambda>s' _. P s')) \<Longrightarrow> keeps P (gets f)"
  by (simp add: keeps_def go_wp)

end
