(* ===== verification/Work_Queue.thy ===== *)
theory Work_Queue
  imports Volume_Prelude
begin

text \<open>
  The work queue of the controllers, \<open>pkg/util/workqueue/queue.go\<close>: \<open>Add\<close>, \<open>Len\<close>, \<open>Get\<close>, \<open>Done\<close>,
  \<open>ShutDown\<close> and \<open>ShuttingDown\<close> as functions on the fields of \<open>Type\<close>, each under its mutex, and
  the interleavings of any number of producers and workers as a step relation. The metrics are left out.
\<close>

named_theorems wq_defs \<open>definitions of the methods of the work queue\<close>

section \<open>Operations\<close>

text \<open>The sets \<open>dirty\<close> and \<open>processing\<close> are lists of distinct items.\<close>

record 'a workqueue =
  wq_queue :: "'a list"
  wq_dirty :: "'a list"
  wq_processing :: "'a list"
  wq_shuttingDown :: bool

definition wq_New :: "'a workqueue" where [wq_defs]:
  "wq_New = \<lparr>wq_queue = [], wq_dirty = [], wq_processing = [], wq_shuttingDown = False\<rparr>"

definition wq_Add :: "'a \<Rightarrow> 'a workqueue \<Rightarrow> 'a workqueue" where [wq_defs]:
  "wq_Add item q =
     (if wq_shuttingDown q then q
      else if item \<in> set (wq_dirty q) then q
      else let q = q\<lparr>wq_dirty := List.insert item (wq_dirty q)\<rparr>
           in if item \<in> set (wq_processing q) then q
              else q\<lparr>wq_queue := wq_queue q @ [item]\<rparr>)"

definition wq_Len :: "'a workqueue \<Rightarrow> nat" where [wq_defs]:
  "wq_Len q = length (wq_queue q)"

text \<open>
  \<open>Get\<close> returns \<open>None\<close> when the call blocks in \<open>cond.Wait\<close>, and otherwise the new state with the
  item, or with no item for \<open>shutdown = true\<close>.
\<close>

definition wq_Get :: "'a workqueue \<Rightarrow> ('a workqueue \<times> 'a option) option" where [wq_defs]:
  "wq_Get q =
     (case wq_queue q of
        [] \<Rightarrow> if \<not> wq_shuttingDown q then None else Some (q, None)
      | item # rest \<Rightarrow>
          Some (q\<lparr>wq_queue := rest,
                  wq_processing := List.insert item (wq_processing q),
                  wq_dirty := removeAll item (wq_dirty q)\<rparr>, Some item))"

definition wq_Done :: "'a \<Rightarrow> 'a workqueue \<Rightarrow> 'a workqueue" where [wq_defs]:
  "wq_Done item q =
     (let q = q\<lparr>wq_processing := removeAll item (wq_processing q)\<rparr>
      in if item \<in> set (wq_dirty q) then q\<lparr>wq_queue := wq_queue q @ [item]\<rparr> else q)"

definition wq_ShutDown :: "'a workqueue \<Rightarrow> 'a workqueue" where [wq_defs]:
  "wq_ShutDown q = q\<lparr>wq_shuttingDown := True\<rparr>"

section \<open>Invariant\<close>

text \<open>
  What the comment on the field \<open>queue\<close> asks for, and what makes an item that is marked dirty never
  get lost: a dirty item that nobody processes is queued.
\<close>

definition wq_inv :: "'a workqueue \<Rightarrow> bool" where
  "wq_inv q \<longleftrightarrow>
     distinct (wq_queue q) \<and> distinct (wq_dirty q) \<and> distinct (wq_processing q) \<and>
     set (wq_queue q) = set (wq_dirty q) - set (wq_processing q)"

lemma wq_inv_New: "wq_inv wq_New"
  by (simp add: wq_inv_def wq_New_def)

lemma wq_inv_Add: "wq_inv q \<Longrightarrow> wq_inv (wq_Add item q)"
  by (auto simp: wq_inv_def wq_Add_def Let_def)

lemma wq_inv_Get: "wq_inv q \<Longrightarrow> wq_Get q = Some (q', i) \<Longrightarrow> wq_inv q'"
  by (auto simp: wq_inv_def wq_Get_def distinct_removeAll split: list.splits if_splits)

lemma wq_inv_Done: "wq_inv q \<Longrightarrow> item \<in> set (wq_processing q) \<Longrightarrow> wq_inv (wq_Done item q)"
  by (auto simp: wq_inv_def wq_Done_def Let_def distinct_removeAll)

lemma wq_inv_ShutDown: "wq_inv q \<Longrightarrow> wq_inv (wq_ShutDown q)"
  by (simp add: wq_inv_def wq_ShutDown_def)

lemma wq_Get_item:
  "wq_inv q \<Longrightarrow> wq_Get q = Some (q', Some item) \<Longrightarrow>
   item \<notin> set (wq_processing q) \<and> wq_processing q' = item # wq_processing q \<and>
   wq_queue q = item # wq_queue q' \<and> item \<notin> set (wq_dirty q') \<and> wq_shuttingDown q' = wq_shuttingDown q"
  by (auto simp: wq_inv_def wq_Get_def List.insert_def split: list.splits if_splits)

section \<open>Producers and workers\<close>

text \<open>
  A state is the queue and the items in the hands of the workers. Any goroutine may add an item or shut
  the queue down; a worker may take an item, and must hold an item to call \<open>Done\<close> on it.
\<close>

inductive wq_step :: "'a workqueue \<times> 'a multiset \<Rightarrow> 'a workqueue \<times> 'a multiset \<Rightarrow> bool" where
  step_add: "wq_step (q, held) (wq_Add item q, held)"
| step_get: "wq_Get q = Some (q', Some item) \<Longrightarrow> wq_step (q, held) (q', add_mset item held)"
| step_done: "item \<in># held \<Longrightarrow> wq_step (q, held) (wq_Done item q, held - {#item#})"
| step_shutdown: "wq_step (q, held) (wq_ShutDown q, held)"

definition wq_reachable :: "'a workqueue \<times> 'a multiset \<Rightarrow> bool" where
  "wq_reachable s \<longleftrightarrow> wq_step\<^sup>*\<^sup>* (wq_New, {#}) s"

definition wq_held :: "'a workqueue \<times> 'a multiset \<Rightarrow> bool" where
  "wq_held s \<longleftrightarrow> wq_inv (fst s) \<and> snd s = mset (wq_processing (fst s))"

lemma mset_removeAll_distinct:
  "distinct xs \<Longrightarrow> mset (removeAll x xs) = mset xs - {#x#}"
  by (metis distinct_remove1_removeAll mset_remove1)

lemma wq_held_step: "wq_step s s' \<Longrightarrow> wq_held s \<Longrightarrow> wq_held s'"
proof (induction rule: wq_step.induct)
  case (step_add q held item)
  then show ?case by (simp add: wq_held_def wq_inv_Add) (simp add: wq_Add_def Let_def)
next
  case (step_get q q' item held)
  then show ?case
    using wq_Get_item [of q q' item] by (simp add: wq_held_def wq_inv_Get [of q q'])
next
  case (step_done item held q)
  then have "item \<in> set (wq_processing q)" by (simp add: wq_held_def)
  then show ?case
    using step_done by (auto simp: wq_held_def wq_inv_Done wq_Done_def Let_def wq_inv_def
        mset_removeAll_distinct distinct_removeAll)
next
  case (step_shutdown q held)
  then show ?case by (simp add: wq_held_def wq_inv_ShutDown) (simp add: wq_ShutDown_def)
qed

lemma wq_reachable_held: "wq_reachable s \<Longrightarrow> wq_held s"
  unfolding wq_reachable_def
  by (induction rule: rtranclp_induct)
    (auto simp: wq_held_step, simp add: wq_held_def wq_inv_New, simp add: wq_New_def)

lemma wq_reachable_step: "wq_reachable s \<Longrightarrow> wq_step s s' \<Longrightarrow> wq_reachable s'"
  unfolding wq_reachable_def by (rule rtranclp.rtrancl_into_rtrancl)

section \<open>Nothing is lost\<close>

text \<open>The items that successive calls of \<open>Get\<close> return, until one blocks or reports the shutdown.\<close>

fun wq_gets :: "nat \<Rightarrow> 'a workqueue \<Rightarrow> 'a list" where
  "wq_gets 0 q = []"
| "wq_gets (Suc n) q =
     (case wq_Get q of Some (q', Some item) \<Rightarrow> item # wq_gets n q' | _ \<Rightarrow> [])"

lemma wq_gets_queue: "wq_gets n q = take n (wq_queue q)"
proof (induction n arbitrary: q)
  case (Suc n)
  show ?case
  proof (cases "wq_queue q")
    case (Cons item rest)
    then show ?thesis by (simp add: wq_Get_def Suc.IH)
  qed (simp add: wq_Get_def)
qed simp

text \<open>
  C25: However producers and workers interleave, no item is in the hands of two workers at once, the
  items in their hands are exactly the \<open>processing\<close> set, and the queue holds exactly the dirty items
  nobody processes, each once.
\<close>

theorem workqueue_one_worker_per_item:
  assumes "wq_reachable (q, held)"
  shows "count held item \<le> 1 \<and> (item \<in># held \<longleftrightarrow> item \<in> set (wq_processing q)) \<and>
         distinct (wq_queue q) \<and>
         (item \<in> set (wq_queue q) \<longleftrightarrow> item \<in> set (wq_dirty q) \<and> item \<notin># held)"
proof -
  from wq_reachable_held [OF assms] have i: "wq_inv q" and h: "held = mset (wq_processing q)"
    by (simp_all add: wq_held_def)
  have "count held item \<le> 1"
    using i by (simp add: h wq_inv_def distinct_count_atmost_1)
  with i show ?thesis by (auto simp: h wq_inv_def)
qed

theorem workqueue_one_worker_per_item_witness:
  "wq_reachable (\<lparr>wq_queue = [], wq_dirty = [], wq_processing = [''pv''], wq_shuttingDown = False\<rparr>, {#''pv''#}) \<and>
   count {#''pv''#} ''pv'' \<le> 1"
proof -
  let ?q0 = "wq_Add ''pv'' wq_New"
  let ?q1 = "\<lparr>wq_queue = [], wq_dirty = [], wq_processing = [''pv''], wq_shuttingDown = False\<rparr>"
  have "wq_step (wq_New, {#}) (?q0, {#})" by (rule step_add)
  moreover have "wq_step (?q0, {#}) (?q1, {#''pv''#})"
    using step_get [of ?q0 ?q1 "''pv''" "{#}"] by (simp add: wq_defs Let_def)
  ultimately have "wq_step\<^sup>*\<^sup>* (wq_New, {#}) (?q1, {#''pv''#})"
    using converse_rtranclp_into_rtranclp [of wq_step] r_into_rtranclp [of wq_step] by blast
  then have r: "wq_reachable (?q1, {#''pv''#})" by (simp add: wq_reachable_def)
  show ?thesis using workqueue_one_worker_per_item [OF r, of "''pv''"] r by simp
qed

text \<open>
  An item added before the shutdown is handed out: if nobody processes it, one of the next calls
  of \<open>Get\<close>, at most as many as the queue is long, returns it; if a worker processes it at the time,
  the call of \<open>Done\<close> by that worker puts it into the queue again. Items that are already waiting are
  handed out before it.
\<close>

theorem workqueue_added_item_handed_out:
  assumes "wq_reachable (q, held)" and "\<not> wq_shuttingDown q"
  shows "if item \<in># held
         then item \<in> set (wq_gets (wq_Len (wq_Done item (wq_Add item q))) (wq_Done item (wq_Add item q)))
         else item \<in> set (wq_gets (wq_Len (wq_Add item q)) (wq_Add item q)) \<and>
              take (wq_Len q) (wq_gets (wq_Len (wq_Add item q)) (wq_Add item q)) = wq_queue q"
proof -
  from wq_reachable_held [OF assms(1)] have i: "wq_inv q" and h: "held = mset (wq_processing q)"
    by (simp_all add: wq_held_def)
  show ?thesis
    using i assms(2) by (auto simp: h wq_gets_queue wq_Len_def wq_inv_def wq_Add_def wq_Done_def Let_def)
qed

theorem workqueue_added_item_handed_out_witness:
  "wq_reachable (wq_New, {#}) \<and> \<not> wq_shuttingDown wq_New \<and>
   ''pvc'' \<in> set (wq_gets (wq_Len (wq_Add ''pvc'' wq_New)) (wq_Add ''pvc'' wq_New))"
proof -
  have r: "wq_reachable (wq_New, {#})" and s: "\<not> wq_shuttingDown wq_New"
    by (simp_all add: wq_reachable_def wq_New_def)
  show ?thesis using workqueue_added_item_handed_out [OF r s, of "''pvc''"] r s by simp
qed

end
