(* ===== verification/PV_Controller.thy ===== *)
theory PV_Controller
  imports Kube_API Go_Effects Work_Queue Goroutine_Map Volume_Plugins
begin

text \<open>
  The persistent volume controller: \<open>pv_controller.go\<close> and \<open>pv_controller_base.go\<close> of
  \<open>pkg/controller/volume/persistentvolume\<close>, every method, with \<open>GetReference\<close> of
  \<open>pkg/api/v1/ref.go\<close>. This theory holds the definitions; the theorems are in \<open>PV_Binding\<close>,
  \<open>PV_Convergence\<close> and \<open>PV_Reclaim\<close>. The API client and the volume plugins act on a world of any type. A method that runs
  in its own goroutine (recycling, deleting, provisioning) is started by \<open>scheduleOperation\<close>, which
  keeps it with the arguments it was started with.
\<close>

section \<open>Data\<close>

definition annBindCompleted :: string where "annBindCompleted = ''pv.kubernetes.io/bind-completed''"
definition annBoundByController :: string where "annBoundByController = ''pv.kubernetes.io/bound-by-controller''"
definition annDynamicallyProvisioned :: string where "annDynamicallyProvisioned = ''pv.kubernetes.io/provisioned-by''"
definition annStorageProvisioner :: string where
  "annStorageProvisioner = ''volume.beta.kubernetes.io/storage-provisioner''"

lemmas annotation_names = annBindCompleted_def annBoundByController_def annDynamicallyProvisioned_def
  annStorageProvisioner_def

record StorageClass =
  sc_Name :: string
  sc_Provisioner :: string
  sc_Parameters :: "(string, string) gomap"

record VolumeOptions =
  vo_PersistentVolumeReclaimPolicy :: reclaimPolicy
  vo_PVName :: string
  vo_PVC :: PersistentVolumeClaim
  vo_ClusterName :: string
  vo_CloudTags :: "(string, string) gomap"
  vo_Parameters :: "(string, string) gomap"

text \<open>
  A volume plugin with the methods of its optional interfaces. A recycler reports events, each with its
  type and message, through the recorder it was created with.
\<close>

datatype eventtype = EventTypeNormal | EventTypeWarning

record 'w pv_plugin = VolumePlugin +
  pvp_NewRecycler :: "string \<Rightarrow> Spec \<Rightarrow> error option"
  pvp_Recycle :: "Spec \<Rightarrow> 'w \<Rightarrow> 'w \<times> (eventtype \<times> string) list \<times> error option"
  pvp_NewDeleter :: "Spec \<Rightarrow> error option"
  pvp_Delete :: "Spec \<Rightarrow> 'w \<Rightarrow> 'w \<times> error option"
  pvp_NewProvisioner :: "VolumeOptions \<Rightarrow> error option"
  pvp_Provision :: "VolumeOptions \<Rightarrow> 'w \<Rightarrow> 'w \<times> (error + PersistentVolume)"

text \<open>Events by the object they are recorded on, type and reason; the texts are left out.\<close>

datatype event_object = OnVolume string | OnClaim string

record pv_event =
  ev_object :: event_object
  ev_type :: eventtype
  ev_reason :: string

datatype pv_operation =
    RecycleVolumeOperation PersistentVolume
  | DeleteVolumeOperation PersistentVolume
  | ProvisionClaimOperation PersistentVolumeClaim

text \<open>The fields of \<open>PersistentVolumeController\<close> that never change, and those that do.\<close>

record 'w pv_config =
  pc_kubeClient :: "'w kube_client"
  pc_plugins :: "(string, 'w pv_plugin) gomap"
  pc_enableDynamicProvisioning :: bool
  pc_clusterName :: string
  pc_createProvisionedPVRetryCount :: nat
  pc_alphaProvisioner :: "'w pv_plugin option"

record 'w pv_state =
  ct_volumes :: pv_index
  ct_claims :: "PersistentVolumeClaim cache"
  ct_classes :: "StorageClass cache"
  ct_volumeInformer :: pv_index
  ct_claimInformer :: "PersistentVolumeClaim cache"
  ct_claimQueue :: "string workqueue"
  ct_volumeQueue :: "string workqueue"
  ct_runningOperations :: goRoutineMap
  ct_goroutines :: "(string \<times> pv_operation) list"
  ct_events :: "pv_event list"
  ct_clock :: time
  ct_world :: 'w

type_synonym ('w, 'a) ctrl = "('w pv_state, 'a) go"

definition pvc_key :: "PersistentVolumeClaim \<Rightarrow> string" where
  "pvc_key claim = MetaNamespaceKey (pvc_Namespace claim) (pvc_Name claim)"

definition NewController :: "'w \<Rightarrow> 'w pv_state" where
  "NewController w =
     \<lparr>ct_volumes = newPersistentVolumeOrderedIndex,
      ct_claims = NewStore (Inr \<circ> pvc_key),
      ct_classes = NewStore (Inr \<circ> sc_Name),
      ct_volumeInformer = newPersistentVolumeOrderedIndex,
      ct_claimInformer = NewStore (Inr \<circ> pvc_key),
      ct_claimQueue = wq_New, ct_volumeQueue = wq_New,
      ct_runningOperations = NewGoRoutineMap True, ct_goroutines = [], ct_events = [],
      ct_clock = 0, ct_world = w\<rparr>"

section \<open>Primitive steps\<close>

definition api :: "('w \<Rightarrow> 'w \<times> (error + 'a)) \<Rightarrow> ('w, 'a) ctrl" where
  "api call s = (case call (ct_world s) of (w, r) \<Rightarrow> Some (s\<lparr>ct_world := w\<rparr>, r))"

definition api_err :: "('w \<Rightarrow> 'w \<times> error option) \<Rightarrow> ('w, unit) ctrl" where
  "api_err call s =
     (case call (ct_world s) of (w, err) \<Rightarrow>
        Some (s\<lparr>ct_world := w\<rparr>, case err of None \<Rightarrow> Inr () | Some e \<Rightarrow> Inl e))"

definition event :: "event_object \<Rightarrow> eventtype \<Rightarrow> string \<Rightarrow> ('w, unit) ctrl" where
  "event obj etype reason =
     modify (\<lambda>s. s\<lparr>ct_events := ct_events s @ [\<lparr>ev_object = obj, ev_type = etype, ev_reason = reason\<rparr>]\<rparr>)"

definition claimQueue_Add :: "string \<Rightarrow> ('w, unit) ctrl" where
  "claimQueue_Add key = modify (\<lambda>s. s\<lparr>ct_claimQueue := wq_Add key (ct_claimQueue s)\<rparr>)"

definition volumeQueue_Add :: "string \<Rightarrow> ('w, unit) ctrl" where
  "volumeQueue_Add key = modify (\<lambda>s. s\<lparr>ct_volumeQueue := wq_Add key (ct_volumeQueue s)\<rparr>)"

section \<open>The caches\<close>

definition storeObjectUpdate :: "('a \<Rightarrow> string) \<Rightarrow> 'a cache \<Rightarrow> 'a \<Rightarrow> 'a cache \<times> (error + bool)" where
  "storeObjectUpdate getResourceVersion store obj =
     (case keyFunc store obj of
        Inl err \<Rightarrow> (store, Inl (Errorf ''Couldn't get key for object'' (Some err)))
      | Inr objName \<Rightarrow>
          (case cache_Get store obj of
             Inl err \<Rightarrow> (store, Inl (Errorf ''Error finding object in controller cache'' (Some err)))
           | Inr None \<Rightarrow>
               (case cache_Add store obj of
                  (store, Some err) \<Rightarrow> (store, Inl (Errorf ''Error adding object to controller cache'' (Some err)))
                | (store, None) \<Rightarrow> (store, Inr True))
           | Inr (Some oldObj) \<Rightarrow>
               (case strconv_ParseInt (getResourceVersion obj) of
                  Inl err \<Rightarrow> (store, Inl (Errorf ''Error parsing ResourceVersion'' (Some err)))
                | Inr objResourceVersion \<Rightarrow>
                    (case strconv_ParseInt (getResourceVersion oldObj) of
                       Inl err \<Rightarrow> (store, Inl (Errorf ''Error parsing old ResourceVersion'' (Some err)))
                     | Inr oldObjResourceVersion \<Rightarrow>
                         if oldObjResourceVersion > objResourceVersion then (store, Inr False)
                         else case cache_Update store obj of
                             (store, Some err) \<Rightarrow>
                               (store, Inl (Errorf ''Error updating object in controller cache'' (Some err)))
                           | (store, None) \<Rightarrow> (store, Inr True)))))"

definition storeVolumeUpdate :: "PersistentVolume \<Rightarrow> ('w, bool) ctrl" where
  "storeVolumeUpdate volume s =
     (case storeObjectUpdate pv_ResourceVersion (ct_volumes s) volume of
        (store, r) \<Rightarrow> Some (s\<lparr>ct_volumes := store\<rparr>, r))"

definition storeClaimUpdate :: "PersistentVolumeClaim \<Rightarrow> ('w, bool) ctrl" where
  "storeClaimUpdate claim s =
     (case storeObjectUpdate pvc_ResourceVersion (ct_claims s) claim of
        (store, r) \<Rightarrow> Some (s\<lparr>ct_claims := store\<rparr>, r))"

definition deleteVolumeFromCache :: "PersistentVolume \<Rightarrow> ('w, unit) ctrl" where
  "deleteVolumeFromCache volume =
     modify (\<lambda>s. s\<lparr>ct_volumes := fst (cache_Delete (ct_volumes s) volume)\<rparr>)"

definition deleteClaimFromCache :: "PersistentVolumeClaim \<Rightarrow> ('w, unit) ctrl" where
  "deleteClaimFromCache claim =
     modify (\<lambda>s. s\<lparr>ct_claims := fst (cache_Delete (ct_claims s) claim)\<rparr>)"

section \<open>Status and phase\<close>

definition updateClaimStatus ::
  "'w pv_config \<Rightarrow> PersistentVolumeClaim \<Rightarrow> claimPhase \<Rightarrow> PersistentVolume option \<Rightarrow>
   ('w, PersistentVolumeClaim) ctrl" where
  "updateClaimStatus cf claim phase volume =
     (let claimClone = claim\<lparr>pvc_Phase := phase\<rparr>;
          dirty = (pvc_Phase claim \<noteq> phase);
          save = (\<lambda>dirty claimClone.
            if \<not> dirty then ret claim
            else and_then (api (kc_UpdatePVCStatus (pc_kubeClient cf) claimClone)) (\<lambda>newClaim.
                 and_then (storeClaimUpdate newClaim) (\<lambda>_. ret newClaim)))
      in case volume of
           None \<Rightarrow>
             save (dirty \<or> pvc_StatusAccessModes claim \<noteq> [] \<or> pvc_StatusCapacity claim \<noteq> None)
               (claimClone\<lparr>pvc_StatusAccessModes := [], pvc_StatusCapacity := None\<rparr>)
         | Some volume \<Rightarrow>
             (case pv_Capacity volume of
                None \<Rightarrow> fail (Errorf ''PersistentVolume is without a storage capacity'' None)
              | Some volumeCap \<Rightarrow>
                  save (dirty \<or> pvc_StatusAccessModes claim \<noteq> pv_AccessModes volume \<or>
                        pvc_StatusCapacity claim \<noteq> Some volumeCap)
                    (claimClone\<lparr>pvc_StatusAccessModes := pv_AccessModes volume,
                                pvc_StatusCapacity := pv_Capacity volume\<rparr>)))"

definition updateClaimStatusWithEvent ::
  "'w pv_config \<Rightarrow> PersistentVolumeClaim \<Rightarrow> claimPhase \<Rightarrow> PersistentVolume option \<Rightarrow> eventtype \<Rightarrow> string \<Rightarrow>
   ('w, PersistentVolumeClaim) ctrl" where
  "updateClaimStatusWithEvent cf claim phase volume etype reason =
     (if pvc_Phase claim = phase then ret claim
      else and_then (updateClaimStatus cf claim phase volume) (\<lambda>newClaim.
           and_then (event (OnClaim (claimToClaimKey newClaim)) etype reason) (\<lambda>_.
           ret newClaim)))"

definition updateVolumePhase ::
  "'w pv_config \<Rightarrow> PersistentVolume \<Rightarrow> volumePhase \<Rightarrow> string \<Rightarrow> ('w, PersistentVolume) ctrl" where
  "updateVolumePhase cf volume phase message =
     (if pv_Phase volume = phase then ret volume
      else let volumeClone = volume\<lparr>pv_Phase := phase, pv_Message := message\<rparr>
           in and_then (api (kc_UpdatePVStatus (pc_kubeClient cf) volumeClone)) (\<lambda>newVol.
              and_then (storeVolumeUpdate newVol) (\<lambda>_. ret newVol)))"

definition updateVolumePhaseWithEvent ::
  "'w pv_config \<Rightarrow> PersistentVolume \<Rightarrow> volumePhase \<Rightarrow> eventtype \<Rightarrow> string \<Rightarrow> string \<Rightarrow>
   ('w, PersistentVolume) ctrl" where
  "updateVolumePhaseWithEvent cf volume phase etype reason message =
     (if pv_Phase volume = phase then ret volume
      else and_then (updateVolumePhase cf volume phase message) (\<lambda>newVol.
           and_then (event (OnVolume (pv_Name newVol)) etype reason) (\<lambda>_.
           ret newVol)))"

section \<open>Binding\<close>

text \<open>
  \<open>GetReference\<close> of a claim: the version comes from the type, or else from the self link, which is a
  path with an optional query. Of the reference, the fields of \<open>ObjectReference\<close> that are used are kept.
\<close>

definition GetReference :: "PersistentVolumeClaim \<Rightarrow> error + ObjectReference" where
  "GetReference claim =
     (let ref = \<lparr>ref_Namespace = pvc_Namespace claim, ref_Name = pvc_Name claim, ref_UID = pvc_UID claim\<rparr>
      in if pvc_APIVersion claim \<noteq> [] then Inr ref
         else if pvc_SelfLink claim = [] then Inl (Errorf ''selfLink was empty, can't make reference'' None)
         else if length (strings_Split (takeWhile (\<lambda>c. c \<noteq> CHR ''?'' \<and> c \<noteq> CHR 0x23) (pvc_SelfLink claim)) (CHR ''/'')) < 3
         then Inl (Errorf ''unexpected self link format'' None)
         else Inr ref)"

definition bindVolumeToClaim ::
  "'w pv_config \<Rightarrow> PersistentVolume \<Rightarrow> PersistentVolumeClaim \<Rightarrow> ('w, PersistentVolume) ctrl" where
  "bindVolumeToClaim cf volume claim =
     (let shouldSetBoundByController = (\<not> isVolumeBoundToClaim volume claim);
          newRef = (case pv_ClaimRef volume of
             None \<Rightarrow> True
           | Some ref \<Rightarrow> ref_Name ref \<noteq> pvc_Name claim \<or> ref_Namespace ref \<noteq> pvc_Namespace claim \<or>
                         ref_UID ref \<noteq> pvc_UID claim);
          setAnn = (shouldSetBoundByController \<and> \<not> HasAnnotation (pv_Annotations volume) annBoundByController);
          annotate = (\<lambda>v. if setAnn
             then v\<lparr>pv_Annotations := SetMetaDataAnnotation (pv_Annotations v) annBoundByController ''yes''\<rparr> else v)
      in and_then
           (if newRef then
              (case GetReference claim of
                 Inl err \<Rightarrow> fail (Errorf ''Unexpected error getting claim reference'' (Some err))
               | Inr claimRef \<Rightarrow> ret (volume\<lparr>pv_ClaimRef := Some claimRef\<rparr>))
            else ret volume) (\<lambda>volumeClone.
         if newRef \<or> setAnn
         then and_then (api (kc_UpdatePV (pc_kubeClient cf) (annotate volumeClone))) (\<lambda>newVol.
              and_then (storeVolumeUpdate newVol) (\<lambda>_. ret newVol))
         else ret volume))"

definition bindClaimToVolume ::
  "'w pv_config \<Rightarrow> PersistentVolumeClaim \<Rightarrow> PersistentVolume \<Rightarrow> ('w, PersistentVolumeClaim) ctrl" where
  "bindClaimToVolume cf claim volume =
     (let shouldSetBoundByController = (pv_Name volume \<noteq> pvc_VolumeName claim);
          dirty1 = (pvc_VolumeName claim \<noteq> pv_Name volume);
          clone1 = claim\<lparr>pvc_VolumeName := pv_Name volume\<rparr>;
          dirty2 = (shouldSetBoundByController \<and> \<not> HasAnnotation (pvc_Annotations clone1) annBoundByController);
          clone2 = (if dirty2
            then clone1\<lparr>pvc_Annotations := SetMetaDataAnnotation (pvc_Annotations clone1) annBoundByController ''yes''\<rparr>
            else clone1);
          dirty3 = (\<not> HasAnnotation (pvc_Annotations clone2) annBindCompleted);
          clone3 = (if dirty3
            then clone2\<lparr>pvc_Annotations := SetMetaDataAnnotation (pvc_Annotations clone2) annBindCompleted ''yes''\<rparr>
            else clone2)
      in if dirty1 \<or> dirty2 \<or> dirty3
         then and_then (api (kc_UpdatePVC (pc_kubeClient cf) clone3)) (\<lambda>newClaim.
              and_then (storeClaimUpdate newClaim) (\<lambda>_. ret newClaim))
         else ret claim)"

definition bind_volume :: "'w pv_config \<Rightarrow> PersistentVolume \<Rightarrow> PersistentVolumeClaim \<Rightarrow> ('w, unit) ctrl" where
  "bind_volume cf volume claim =
     and_then (bindVolumeToClaim cf volume claim) (\<lambda>volume.
     and_then (updateVolumePhase cf volume VolumeBound []) (\<lambda>volume.
     and_then (bindClaimToVolume cf claim volume) (\<lambda>claim.
     and_then (updateClaimStatus cf claim ClaimBound (Some volume)) (\<lambda>claim.
     ret ()))))"

text \<open>
  \<open>unbindVolume\<close> reads the claim reference first; it panics for a volume without one. An emptied
  annotation map and a nil one are the same list.
\<close>

definition unbindVolume :: "'w pv_config \<Rightarrow> PersistentVolume \<Rightarrow> ('w, unit) ctrl" where
  "unbindVolume cf volume =
     (case pv_ClaimRef volume of
        None \<Rightarrow> panic
      | Some ref \<Rightarrow>
          (let volumeClone =
             (if HasAnnotation (pv_Annotations volume) annBoundByController
              then volume\<lparr>pv_ClaimRef := None, pv_Annotations := mdel annBoundByController (pv_Annotations volume)\<rparr>
              else volume\<lparr>pv_ClaimRef := Some (ref\<lparr>ref_UID := []\<rparr>)\<rparr>)
           in and_then (api (kc_UpdatePV (pc_kubeClient cf) volumeClone)) (\<lambda>newVol.
              and_then (storeVolumeUpdate newVol) (\<lambda>_.
              and_then (updateVolumePhase cf newVol VolumeAvailable []) (\<lambda>_.
              ret ())))))"

section \<open>Operations in goroutines\<close>

definition scheduleOperation :: "string \<Rightarrow> pv_operation \<Rightarrow> ('w, unit) ctrl" where
  "scheduleOperation operationName operation =
     modify (\<lambda>s. case grm_Run (ct_clock s) (ct_runningOperations s) operationName of
        (None, grm) \<Rightarrow> s\<lparr>ct_runningOperations := grm,
                          ct_goroutines := ct_goroutines s @ [(operationName, operation)]\<rparr>
      | (Some err, grm) \<Rightarrow> s\<lparr>ct_runningOperations := grm\<rparr>)"

definition recycle_name :: "PersistentVolume \<Rightarrow> string" where
  "recycle_name volume = ''recycle-'' @ pv_Name volume @ ''['' @ pv_UID volume @ '']''"

definition delete_name :: "PersistentVolume \<Rightarrow> string" where
  "delete_name volume = ''delete-'' @ pv_Name volume @ ''['' @ pv_UID volume @ '']''"

definition provision_name :: "PersistentVolumeClaim \<Rightarrow> string" where
  "provision_name claim = ''provision-'' @ claimToClaimKey claim @ ''['' @ pvc_UID claim @ '']''"

definition reclaimVolume :: "'w pv_config \<Rightarrow> PersistentVolume \<Rightarrow> ('w, unit) ctrl" where
  "reclaimVolume cf volume =
     (case pv_ReclaimPolicy volume of
        PersistentVolumeReclaimRetain \<Rightarrow> ret ()
      | PersistentVolumeReclaimRecycle \<Rightarrow>
          scheduleOperation (recycle_name volume) (RecycleVolumeOperation volume)
      | PersistentVolumeReclaimDelete \<Rightarrow>
          scheduleOperation (delete_name volume) (DeleteVolumeOperation volume)
      | OtherReclaimPolicy p \<Rightarrow>
          and_then (updateVolumePhaseWithEvent cf volume VolumeFailed EventTypeWarning
            ''VolumeUnknownReclaimPolicy'' ''Volume has unrecognized PersistentVolumeReclaimPolicy'') (\<lambda>_.
          ret ()))"

definition isVolumeReleased :: "PersistentVolumeClaim cache \<Rightarrow> PersistentVolume \<Rightarrow> bool" where
  "isVolumeReleased claims volume =
     (case pv_ClaimRef volume of
        None \<Rightarrow> False
      | Some ref \<Rightarrow>
          if ref_UID ref = [] then False
          else case cache_GetByKey claims (claimrefToClaimKey ref) of
              None \<Rightarrow> True
            | Some claim \<Rightarrow>
                if pvc_UID claim = ref_UID ref
                then (if length (pvc_VolumeName claim) > 0 \<and> pvc_VolumeName claim \<noteq> pv_Name volume
                      then True else False)
                else True)"

definition findDeletablePlugin :: "'w pv_config \<Rightarrow> PersistentVolume \<Rightarrow> error + 'w pv_plugin option" where
  "findDeletablePlugin cf volume =
     (let bySpec =
        (case FindDeletablePluginBySpec (pc_plugins cf) (NewSpecFromPersistentVolume volume False) of
           Inl err \<Rightarrow> Inl (Errorf ''Error getting deleter volume plugin for volume'' (Some err))
         | Inr plugin \<Rightarrow> Inr (Some plugin))
      in case mget (pv_Annotations volume) annDynamicallyProvisioned of
           None \<Rightarrow> bySpec
         | Some provisionPluginName \<Rightarrow>
             if provisionPluginName \<noteq> [] then
               (case FindDeletablePluginByName (pc_plugins cf) provisionPluginName of
                  Inl err \<Rightarrow> if \<not> prefix ''kubernetes.io/'' provisionPluginName then Inr None else Inl err
                | Inr plugin \<Rightarrow> Inr (Some plugin))
             else bySpec)"

definition doDeleteVolume :: "'w pv_config \<Rightarrow> PersistentVolume \<Rightarrow> ('w, bool) ctrl" where
  "doDeleteVolume cf volume =
     (case findDeletablePlugin cf volume of
        Inl err \<Rightarrow> fail err
      | Inr None \<Rightarrow> ret False
      | Inr (Some plugin) \<Rightarrow>
          (let spec = NewSpecFromPersistentVolume volume False
           in case pvp_NewDeleter plugin spec of
                Some err \<Rightarrow> fail (Errorf ''Failed to create deleter for volume'' (Some err))
              | None \<Rightarrow> and_then (api_err (pvp_Delete plugin spec)) (\<lambda>_. ret True)))"

definition IsDeletedVolumeInUse :: "error \<Rightarrow> bool" where
  "IsDeletedVolumeInUse err = (case err of DeletedVolumeInUseError _ \<Rightarrow> True | _ \<Rightarrow> False)"

definition deleteVolumeOperation :: "'w pv_config \<Rightarrow> PersistentVolume \<Rightarrow> ('w, unit) ctrl" where
  "deleteVolumeOperation cf volume =
     on_result (api (kc_GetPV (pc_kubeClient cf) (pv_Name volume))) (\<lambda>r. case r of
       Inl err \<Rightarrow> ret ()
     | Inr newVolume \<Rightarrow> gets (\<lambda>s.
         if \<not> isVolumeReleased (ct_claims s) newVolume then ret ()
         else on_result (doDeleteVolume cf volume) (\<lambda>r. case r of
           Inl err \<Rightarrow>
             if IsDeletedVolumeInUse err
             then and_then (event (OnVolume (pv_Name volume)) EventTypeNormal ''VolumeDelete'') (\<lambda>_. fail err)
             else and_then (updateVolumePhaseWithEvent cf volume VolumeFailed EventTypeWarning
                    ''VolumeFailedDelete'' ''delete failed'') (\<lambda>_. fail err)
         | Inr deleted \<Rightarrow>
             if \<not> deleted then ret ()
             else on_result (api_err (kc_DeletePV (pc_kubeClient cf) (pv_Name volume))) (\<lambda>_. ret ()))))"

definition recycle_failed :: "'w pv_config \<Rightarrow> PersistentVolume \<Rightarrow> string \<Rightarrow> ('w, unit) ctrl" where
  "recycle_failed cf volume strerr =
     on_result (updateVolumePhaseWithEvent cf volume VolumeFailed EventTypeWarning ''VolumeFailedRecycle'' strerr)
       (\<lambda>_. ret ())"

definition recycler_run :: "'w pv_plugin \<Rightarrow> PersistentVolume \<Rightarrow> Spec \<Rightarrow> ('w, unit) ctrl" where
  "recycler_run plugin volume spec s =
     (case pvp_Recycle plugin spec (ct_world s) of (w, evs, err) \<Rightarrow>
        Some (s\<lparr>ct_world := w,
                ct_events := ct_events s @
                  map (\<lambda>(t, msg). \<lparr>ev_object = OnVolume (pv_Name volume), ev_type = t, ev_reason = ''RecyclerPod''\<rparr>) evs\<rparr>,
              case err of None \<Rightarrow> Inr () | Some e \<Rightarrow> Inl e))"

definition recycleVolumeOperation :: "'w pv_config \<Rightarrow> PersistentVolume \<Rightarrow> ('w, unit) ctrl" where
  "recycleVolumeOperation cf volume =
     on_result (api (kc_GetPV (pc_kubeClient cf) (pv_Name volume))) (\<lambda>r. case r of
       Inl err \<Rightarrow> ret ()
     | Inr newVolume \<Rightarrow> gets (\<lambda>s.
         if \<not> isVolumeReleased (ct_claims s) newVolume then ret ()
         else let volume = newVolume; spec = NewSpecFromPersistentVolume volume False
              in case FindRecyclablePluginBySpec (pc_plugins cf) spec of
                   Inl err \<Rightarrow> recycle_failed cf volume ''No recycler plugin found for the volume!''
                 | Inr plugin \<Rightarrow>
                     (case pvp_NewRecycler plugin (pv_Name volume) spec of
                        Some err \<Rightarrow> recycle_failed cf volume ''Failed to create recycler''
                      | None \<Rightarrow>
                          on_result (recycler_run plugin volume spec) (\<lambda>r. case r of
                            Inl err \<Rightarrow> recycle_failed cf volume ''Recycler failed''
                          | Inr _ \<Rightarrow>
                              and_then (event (OnVolume (pv_Name volume)) EventTypeNormal ''VolumeRecycled'') (\<lambda>_.
                              on_result (unbindVolume cf volume) (\<lambda>_. ret ()))))))"

section \<open>Provisioning\<close>

definition setClaimProvisioner ::
  "'w pv_config \<Rightarrow> PersistentVolumeClaim \<Rightarrow> StorageClass \<Rightarrow> ('w, PersistentVolumeClaim) ctrl" where
  "setClaimProvisioner cf claim class =
     (if mget (pvc_Annotations claim) annDynamicallyProvisioned = Some (sc_Provisioner class) then ret claim
      else let claimClone = claim\<lparr>pvc_Annotations :=
             SetMetaDataAnnotation (pvc_Annotations claim) annStorageProvisioner (sc_Provisioner class)\<rparr>
           in and_then (api (kc_UpdatePVC (pc_kubeClient cf) claimClone)) (\<lambda>newClaim.
              and_then (storeClaimUpdate newClaim) (\<lambda>_. ret newClaim)))"

definition findAlphaProvisionablePlugin :: "'w pv_config \<Rightarrow> ('w, 'w pv_plugin option \<times> StorageClass option) ctrl" where
  "findAlphaProvisionablePlugin cf =
     (case pc_alphaProvisioner cf of
        None \<Rightarrow> fail (Errorf ''cannot find volume plugin for alpha provisioning'' None)
      | Some plugin \<Rightarrow>
          ret (Some plugin, Some \<lparr>sc_Name = [], sc_Provisioner = pl_GetPluginName plugin, sc_Parameters = []\<rparr>))"

definition findProvisionablePlugin ::
  "'w pv_config \<Rightarrow> PersistentVolumeClaim \<Rightarrow> ('w, 'w pv_plugin option \<times> StorageClass option) ctrl" where
  "findProvisionablePlugin cf claim =
     (let alpha = HasAnnotation (pvc_Annotations claim) AlphaStorageClassAnnotation;
          beta = HasAnnotation (pvc_Annotations claim) BetaStorageClassAnnotation
      in and_then
           (if alpha \<and> beta
            then event (OnClaim (claimToClaimKey claim)) EventTypeNormal ''ProvisioningIgnoreAlpha''
            else ret ()) (\<lambda>_.
         if alpha \<and> \<not> beta then findAlphaProvisionablePlugin cf
         else gets (\<lambda>s. case cache_GetByKey (ct_classes s) (GetClaimStorageClass claim) of
             None \<Rightarrow> fail (Errorf ''StorageClass not found'' None)
           | Some class \<Rightarrow>
               (case FindProvisionablePluginByName (pc_plugins cf) (sc_Provisioner class) of
                  Inl err \<Rightarrow>
                    if \<not> prefix ''kubernetes.io/'' (sc_Provisioner class) then ret (None, Some class)
                    else fail err
                | Inr plugin \<Rightarrow> ret (Some plugin, Some class)))))"

definition getProvisionedVolumeNameForClaim :: "PersistentVolumeClaim \<Rightarrow> string" where
  "getProvisionedVolumeNameForClaim claim = ''pvc-'' @ pvc_UID claim"

text \<open>
  The two retry loops. The value of the first is the variable \<open>err\<close> after the loop, which the update of
  the cache after a successful creation overwrites. In the second, the results of
  \<open>doDeleteVolume\<close> are bound to new variables of the loop body: the outer \<open>err\<close> keeps its value.
\<close>

fun create_loop :: "'w pv_config \<Rightarrow> PersistentVolume \<Rightarrow> nat \<Rightarrow> error option \<Rightarrow> ('w, error option) ctrl" where
  "create_loop cf volume 0 err = ret err"
| "create_loop cf volume (Suc i) err =
     on_result (api (kc_CreatePV (pc_kubeClient cf) volume)) (\<lambda>r. case r of
       Inr newVol \<Rightarrow>
         on_result (storeVolumeUpdate newVol) (\<lambda>r. ret (case r of Inl err \<Rightarrow> Some err | Inr _ \<Rightarrow> None))
     | Inl err \<Rightarrow> create_loop cf volume i (Some err))"

fun cleanup_loop :: "'w pv_config \<Rightarrow> PersistentVolume \<Rightarrow> nat \<Rightarrow> ('w, unit) ctrl" where
  "cleanup_loop cf volume 0 = ret ()"
| "cleanup_loop cf volume (Suc i) =
     on_result (doDeleteVolume cf volume) (\<lambda>r.
       let deleted = (case r of Inl _ \<Rightarrow> False | Inr d \<Rightarrow> d)
       in if \<not> isl r \<and> deleted then ret ()
          else if \<not> deleted then ret ()
          else cleanup_loop cf volume i)"

definition provisioned_volume ::
  "'w pv_plugin \<Rightarrow> string \<Rightarrow> ObjectReference \<Rightarrow> string \<Rightarrow> PersistentVolume \<Rightarrow> PersistentVolume" where
  "provisioned_volume plugin pvName claimRef claimClass volume =
     (let anns = SetMetaDataAnnotation
            (SetMetaDataAnnotation (pv_Annotations volume) annBoundByController ''yes'')
            annDynamicallyProvisioned (pl_GetPluginName plugin)
      in volume\<lparr>pv_Name := pvName, pv_ClaimRef := Some claimRef, pv_Phase := VolumeBound,
           pv_Annotations := (if claimClass \<noteq> [] then SetMetaDataAnnotation anns StorageClassAnnotation claimClass
                              else anns)\<rparr>)"

definition save_provisioned :: "'w pv_config \<Rightarrow> PersistentVolumeClaim \<Rightarrow> PersistentVolume \<Rightarrow> ('w, unit) ctrl" where
  "save_provisioned cf claim volume =
     and_then (create_loop cf volume (pc_createProvisionedPVRetryCount cf) None) (\<lambda>err.
       if err \<noteq> None
       then and_then (event (OnClaim (claimToClaimKey claim)) EventTypeWarning ''ProvisioningFailed'') (\<lambda>_.
            and_then (cleanup_loop cf volume (pc_createProvisionedPVRetryCount cf)) (\<lambda>_.
            if err \<noteq> None
            then event (OnClaim (claimToClaimKey claim)) EventTypeWarning ''ProvisioningCleanupFailed''
            else ret ()))
       else event (OnClaim (claimToClaimKey claim)) EventTypeNormal ''ProvisioningSucceeded'')"

definition provision_options :: "'w pv_config \<Rightarrow> PersistentVolumeClaim \<Rightarrow> StorageClass \<Rightarrow> VolumeOptions" where
  "provision_options cf claim storageClass =
     (let pvName = getProvisionedVolumeNameForClaim claim
      in \<lparr>vo_PersistentVolumeReclaimPolicy = PersistentVolumeReclaimDelete, vo_PVName = pvName, vo_PVC = claim,
          vo_ClusterName = pc_clusterName cf,
          vo_CloudTags = [(''kubernetes.io/created-for/pvc/namespace'', pvc_Namespace claim),
                          (''kubernetes.io/created-for/pvc/name'', pvc_Name claim),
                          (''kubernetes.io/created-for/pv/name'', pvName)],
          vo_Parameters = sc_Parameters storageClass\<rparr>)"

text \<open>The part of \<open>provisionClaimOperation\<close> for an internal plugin.\<close>

definition provision_internal ::
  "'w pv_config \<Rightarrow> PersistentVolumeClaim \<Rightarrow> string \<Rightarrow> 'w pv_plugin \<Rightarrow> StorageClass \<Rightarrow> ('w, unit) ctrl" where
  "provision_internal cf claim claimClass plugin storageClass =
     (let pvName = getProvisionedVolumeNameForClaim claim;
          options = provision_options cf claim storageClass;
          failed = event (OnClaim (claimToClaimKey claim)) EventTypeWarning ''ProvisioningFailed''
      in on_result (api (kc_GetPV (pc_kubeClient cf) pvName)) (\<lambda>r. case r of
           Inr volume \<Rightarrow> ret ()
         | Inl _ \<Rightarrow>
             (case GetReference claim of
                Inl err \<Rightarrow> ret ()
              | Inr claimRef \<Rightarrow>
                  (case pvp_NewProvisioner plugin options of
                     Some err \<Rightarrow> failed
                   | None \<Rightarrow>
                       on_result (api (pvp_Provision plugin options)) (\<lambda>r. case r of
                         Inl err \<Rightarrow> failed
                       | Inr volume \<Rightarrow>
                           save_provisioned cf claim (provisioned_volume plugin pvName claimRef claimClass volume))))))"

text \<open>
  A plugin is only returned together with a storage class, so the dereference of a nil class cannot
  happen; the model has it as a panic.
\<close>

definition provisionClaimOperation :: "'w pv_config \<Rightarrow> PersistentVolumeClaim \<Rightarrow> ('w, unit) ctrl" where
  "provisionClaimOperation cf claim =
     (let claimClass = GetClaimStorageClass claim
      in on_result (findProvisionablePlugin cf claim) (\<lambda>r. case r of
           Inl err \<Rightarrow> event (OnClaim (claimToClaimKey claim)) EventTypeWarning ''ProvisioningFailed''
         | Inr (plugin, storageClass) \<Rightarrow>
             on_result
               (case storageClass of
                  Some class \<Rightarrow> setClaimProvisioner cf claim class
                | None \<Rightarrow> ret claim) (\<lambda>r. case r of
               Inl err \<Rightarrow> ret ()
             | Inr claim \<Rightarrow>
                 (case plugin of
                    None \<Rightarrow>
                      if storageClass \<noteq> None
                      then event (OnClaim (claimToClaimKey claim)) EventTypeNormal ''ExternalProvisioning''
                      else ret ()
                  | Some plugin \<Rightarrow>
                      (case storageClass of
                         None \<Rightarrow> panic
                       | Some class \<Rightarrow> provision_internal cf claim claimClass plugin class)))))"

definition provisionClaim :: "'w pv_config \<Rightarrow> PersistentVolumeClaim \<Rightarrow> ('w, unit) ctrl" where
  "provisionClaim cf claim =
     (if \<not> pc_enableDynamicProvisioning cf then ret ()
      else scheduleOperation (provision_name claim) (ProvisionClaimOperation claim))"

text \<open>A goroutine that \<open>scheduleOperation\<close> started runs its operation and reports the error to the map.\<close>

fun pv_operation_body :: "'w pv_config \<Rightarrow> pv_operation \<Rightarrow> ('w, unit) ctrl" where
  "pv_operation_body cf (RecycleVolumeOperation volume) =
     and_then (recycleVolumeOperation cf volume) (\<lambda>_. ret ())"
| "pv_operation_body cf (DeleteVolumeOperation volume) = deleteVolumeOperation cf volume"
| "pv_operation_body cf (ProvisionClaimOperation claim) =
     and_then (provisionClaimOperation cf claim) (\<lambda>_. ret ())"

definition run_goroutine :: "'w pv_config \<Rightarrow> string \<times> pv_operation \<Rightarrow> ('w, unit) ctrl" where
  "run_goroutine cf g =
     on_result (pv_operation_body cf (snd g)) (\<lambda>r.
       modify (\<lambda>s. s\<lparr>ct_runningOperations :=
         grm_operationComplete (ct_clock s) (ct_runningOperations s) (fst g)
           (case r of Inl err \<Rightarrow> Some err | Inr _ \<Rightarrow> None),
         ct_goroutines := remove1 g (ct_goroutines s)\<rparr>))"

section \<open>Synchronisation\<close>

definition syncUnboundClaim :: "'w pv_config \<Rightarrow> PersistentVolumeClaim \<Rightarrow> ('w, unit) ctrl" where
  "syncUnboundClaim cf claim =
     (let pending = and_then (updateClaimStatus cf claim ClaimPending None) (\<lambda>_. ret ())
      in if pvc_VolumeName claim = [] then
           gets (\<lambda>s. case findBestMatchForClaim (ct_volumes s) claim of
             None \<Rightarrow> panic
           | Some (Inl err) \<Rightarrow> fail (Errorf ''Error finding PV for claim'' (Some err))
           | Some (Inr None) \<Rightarrow>
               if GetClaimStorageClass claim \<noteq> [] \<or>
                  HasAnnotation (pvc_Annotations claim) AlphaStorageClassAnnotation
               then provisionClaim cf claim
               else pending
           | Some (Inr (Some volume)) \<Rightarrow> bind_volume cf volume claim)
         else
           gets (\<lambda>s. case cache_GetByKey (ct_volumes s) (pvc_VolumeName claim) of
             None \<Rightarrow> pending
           | Some volume \<Rightarrow>
               if pv_ClaimRef volume = None then bind_volume cf volume claim
               else if isVolumeBoundToClaim volume claim then bind_volume cf volume claim
               else if \<not> HasAnnotation (pvc_Annotations claim) annBoundByController then pending
               else fail (Errorf ''Invalid binding of claim to volume: volume already claimed'' None)))"

definition syncBoundClaim :: "'w pv_config \<Rightarrow> PersistentVolumeClaim \<Rightarrow> ('w, unit) ctrl" where
  "syncBoundClaim cf claim =
     (let lost = (\<lambda>reason.
        and_then (updateClaimStatusWithEvent cf claim ClaimLost None EventTypeWarning reason) (\<lambda>_. ret ()))
      in if pvc_VolumeName claim = [] then lost ''ClaimLost''
         else gets (\<lambda>s. case cache_GetByKey (ct_volumes s) (pvc_VolumeName claim) of
             None \<Rightarrow> lost ''ClaimLost''
           | Some volume \<Rightarrow>
               (case pv_ClaimRef volume of
                  None \<Rightarrow> bind_volume cf volume claim
                | Some ref \<Rightarrow>
                    if ref_UID ref = pvc_UID claim then bind_volume cf volume claim
                    else lost ''ClaimMisbound'')))"

definition syncClaim :: "'w pv_config \<Rightarrow> PersistentVolumeClaim \<Rightarrow> ('w, unit) ctrl" where
  "syncClaim cf claim =
     (if \<not> HasAnnotation (pvc_Annotations claim) annBindCompleted then syncUnboundClaim cf claim
      else syncBoundClaim cf claim)"

definition release_and_reclaim :: "'w pv_config \<Rightarrow> PersistentVolume \<Rightarrow> ('w, unit) ctrl" where
  "release_and_reclaim cf volume =
     and_then
       (if pv_Phase volume \<noteq> VolumeReleased \<and> pv_Phase volume \<noteq> VolumeFailed
        then updateVolumePhase cf volume VolumeReleased [] else ret volume)
       (\<lambda>volume. reclaimVolume cf volume)"

definition syncVolume :: "'w pv_config \<Rightarrow> PersistentVolume \<Rightarrow> ('w, unit) ctrl" where
  "syncVolume cf volume =
     (case pv_ClaimRef volume of
        None \<Rightarrow> and_then (updateVolumePhase cf volume VolumeAvailable []) (\<lambda>_. ret ())
      | Some ref \<Rightarrow>
          if ref_UID ref = [] then and_then (updateVolumePhase cf volume VolumeAvailable []) (\<lambda>_. ret ())
          else gets (\<lambda>s.
            let claim = (case cache_GetByKey (ct_claims s) (claimrefToClaimKey ref) of
                  None \<Rightarrow> None
                | Some claim \<Rightarrow> if pvc_UID claim \<noteq> ref_UID ref then None else Some claim)
            in case claim of
                 None \<Rightarrow> release_and_reclaim cf volume
               | Some claim \<Rightarrow>
                   if pvc_VolumeName claim = [] then claimQueue_Add (claimToClaimKey claim)
                   else if pvc_VolumeName claim = pv_Name volume
                   then and_then (updateVolumePhase cf volume VolumeBound []) (\<lambda>_. ret ())
                   else if HasAnnotation (pv_Annotations volume) annDynamicallyProvisioned \<and>
                           pv_ReclaimPolicy volume = PersistentVolumeReclaimDelete
                   then release_and_reclaim cf volume
                   else unbindVolume cf volume))"

section \<open>Events and workers\<close>

definition pvProvisioningRequiredAnnotationKey :: string where
  "pvProvisioningRequiredAnnotationKey = ''volume.experimental.kubernetes.io/provisioning-required''"

definition pvProvisioningCompletedAnnotationValue :: string where
  "pvProvisioningCompletedAnnotationValue = ''volume.experimental.kubernetes.io/provisioning-completed''"

definition upgradeVolumeFrom1_2 :: "'w pv_config \<Rightarrow> PersistentVolume \<Rightarrow> ('w, bool) ctrl" where
  "upgradeVolumeFrom1_2 cf volume =
     (case mget (pv_Annotations volume) pvProvisioningRequiredAnnotationKey of
        None \<Rightarrow> ret False
      | Some annValue \<Rightarrow>
          if annValue = pvProvisioningCompletedAnnotationValue then ret False
          else on_result (api_err (kc_DeletePV (pc_kubeClient cf) (pv_Name volume))) (\<lambda>_.
               and_then (deleteVolumeFromCache volume) (\<lambda>_.
               ret True)))"

text \<open>The handlers log the error of a synchronisation and drop it. An error of the cache counts as "not new".\<close>

definition updateVolume :: "'w pv_config \<Rightarrow> PersistentVolume \<Rightarrow> ('w, unit) ctrl" where
  "updateVolume cf volume =
     and_then (upgradeVolumeFrom1_2 cf volume) (\<lambda>deleted.
       if deleted then ret ()
       else on_result (storeVolumeUpdate volume) (\<lambda>r. case r of
           Inl err \<Rightarrow> ret ()
         | Inr isNew \<Rightarrow>
             if \<not> isNew then ret ()
             else on_result (syncVolume cf volume) (\<lambda>_. ret ())))"

definition deleteVolume :: "PersistentVolume \<Rightarrow> ('w, unit) ctrl" where
  "deleteVolume volume =
     and_then (deleteVolumeFromCache volume) (\<lambda>_.
       case pv_ClaimRef volume of
         None \<Rightarrow> ret ()
       | Some ref \<Rightarrow> claimQueue_Add (claimrefToClaimKey ref))"

definition updateClaim :: "'w pv_config \<Rightarrow> PersistentVolumeClaim \<Rightarrow> ('w, unit) ctrl" where
  "updateClaim cf claim =
     on_result (storeClaimUpdate claim) (\<lambda>r. case r of
         Inl err \<Rightarrow> ret ()
       | Inr isNew \<Rightarrow>
           if \<not> isNew then ret ()
           else on_result (syncClaim cf claim) (\<lambda>_. ret ()))"

definition deleteClaim :: "PersistentVolumeClaim \<Rightarrow> ('w, unit) ctrl" where
  "deleteClaim claim =
     and_then (deleteClaimFromCache claim) (\<lambda>_. volumeQueue_Add (pvc_VolumeName claim))"

text \<open>One pass of the loops of the workers, for a key taken from the queue.\<close>

definition volumeWorker_key :: "'w pv_config \<Rightarrow> string \<Rightarrow> ('w, unit) ctrl" where
  "volumeWorker_key cf key =
     and_then (gets (\<lambda>s. case cache_GetByKey (ct_volumeInformer s) key of
         Some volume \<Rightarrow> updateVolume cf volume
       | None \<Rightarrow>
           (case cache_GetByKey (ct_volumes s) key of
              None \<Rightarrow> ret ()
            | Some volume \<Rightarrow> deleteVolume volume))) (\<lambda>_.
     modify (\<lambda>s. s\<lparr>ct_volumeQueue := wq_Done key (ct_volumeQueue s)\<rparr>))"

definition claimWorker_key :: "'w pv_config \<Rightarrow> string \<Rightarrow> ('w, unit) ctrl" where
  "claimWorker_key cf key =
     and_then (gets (\<lambda>s. case cache_GetByKey (ct_claimInformer s) key of
         Some claim \<Rightarrow> updateClaim cf claim
       | None \<Rightarrow>
           (case cache_GetByKey (ct_claims s) key of
              None \<Rightarrow> ret ()
            | Some claim \<Rightarrow> deleteClaim claim))) (\<lambda>_.
     modify (\<lambda>s. s\<lparr>ct_claimQueue := wq_Done key (ct_claimQueue s)\<rparr>))"

text \<open>
  \<open>workFunc\<close> of the two workers: \<open>None\<close> when \<open>Get\<close> blocks, otherwise whether the worker quits.
\<close>

definition volumeWorker :: "'w pv_config \<Rightarrow> ('w, bool option) ctrl" where
  "volumeWorker cf =
     gets (\<lambda>s. case wq_Get (ct_volumeQueue s) of
       None \<Rightarrow> ret None
     | Some (q, None) \<Rightarrow> ret (Some True)
     | Some (q, Some key) \<Rightarrow>
         and_then (modify (\<lambda>s. s\<lparr>ct_volumeQueue := q\<rparr>)) (\<lambda>_.
         and_then (volumeWorker_key cf key) (\<lambda>_. ret (Some False))))"

definition claimWorker :: "'w pv_config \<Rightarrow> ('w, bool option) ctrl" where
  "claimWorker cf =
     gets (\<lambda>s. case wq_Get (ct_claimQueue s) of
       None \<Rightarrow> ret None
     | Some (q, None) \<Rightarrow> ret (Some True)
     | Some (q, Some key) \<Rightarrow>
         and_then (modify (\<lambda>s. s\<lparr>ct_claimQueue := q\<rparr>)) (\<lambda>_.
         and_then (claimWorker_key cf key) (\<lambda>_. ret (Some False))))"

text \<open>\<open>initializeCaches\<close>, with the answers of the two list requests.\<close>

fun init_volumes :: "'w pv_config \<Rightarrow> PersistentVolume list \<Rightarrow> ('w, unit) ctrl" where
  "init_volumes cf [] = ret ()"
| "init_volumes cf (volume # rest) =
     and_then (upgradeVolumeFrom1_2 cf volume) (\<lambda>deleted.
     and_then (if \<not> deleted then on_result (storeVolumeUpdate volume) (\<lambda>_. ret ()) else ret ()) (\<lambda>_.
     init_volumes cf rest))"

fun init_claims :: "PersistentVolumeClaim list \<Rightarrow> ('w, unit) ctrl" where
  "init_claims [] = ret ()"
| "init_claims (claim # rest) =
     on_result (storeClaimUpdate claim) (\<lambda>_. init_claims rest)"

definition initializeCaches ::
  "'w pv_config \<Rightarrow> error + PersistentVolume list \<Rightarrow> error + PersistentVolumeClaim list \<Rightarrow> ('w, unit) ctrl" where
  "initializeCaches cf volumeList claimList =
     (case volumeList of
        Inl err \<Rightarrow> ret ()
      | Inr volumes \<Rightarrow>
          and_then (init_volumes cf volumes) (\<lambda>_.
            case claimList of Inl err \<Rightarrow> ret () | Inr claims \<Rightarrow> init_claims claims))"

text \<open>\<open>enqueueWork\<close> from the informers: the key of the object, also of a deleted one.\<close>

definition enqueueVolume :: "PersistentVolume \<Rightarrow> ('w, unit) ctrl" where
  "enqueueVolume volume = volumeQueue_Add (pv_key volume)"

definition enqueueClaim :: "PersistentVolumeClaim \<Rightarrow> ('w, unit) ctrl" where
  "enqueueClaim claim = claimQueue_Add (pvc_key claim)"

end
