(* ===== verification/PV_Binding.thy ===== *)
theory PV_Binding
  imports PV_Controller
begin

text \<open>
  Theorems on the persistent volume controller: its caches (versions never go back), its invariant and
  that no handler panics whatever the API server and the plugins answer, the binding of a volume and a
  claim, and that a volume claimed by somebody else is not touched.
\<close>

section \<open>Rules for the primitive steps\<close>

lemma outcome_api [go_wp]:
  "outcome (api call) s Q E \<longleftrightarrow>
   (case call (ct_world s) of
      (w, Inl e) \<Rightarrow> E (s\<lparr>ct_world := w\<rparr>) e
    | (w, Inr a) \<Rightarrow> Q (s\<lparr>ct_world := w\<rparr>) a)"
  by (simp add: outcome_def api_def split: prod.split sum.split)

lemma outcome_api_err [go_wp]:
  "outcome (api_err call) s Q E \<longleftrightarrow>
   (case call (ct_world s) of
      (w, Some e) \<Rightarrow> E (s\<lparr>ct_world := w\<rparr>) e
    | (w, None) \<Rightarrow> Q (s\<lparr>ct_world := w\<rparr>) ())"
  by (simp add: outcome_def api_err_def split: prod.split option.split)

lemma outcome_event [go_wp]:
  "outcome (event obj t reason) s Q E \<longleftrightarrow>
   Q (s\<lparr>ct_events := ct_events s @ [\<lparr>ev_object = obj, ev_type = t, ev_reason = reason\<rparr>]\<rparr>) ()"
  by (simp add: event_def go_wp)

lemma outcome_storeVolumeUpdate:
  "outcome (storeVolumeUpdate v) s Q E \<longleftrightarrow>
   (case storeObjectUpdate pv_ResourceVersion (ct_volumes s) v of
      (store, Inl e) \<Rightarrow> E (s\<lparr>ct_volumes := store\<rparr>) e
    | (store, Inr b) \<Rightarrow> Q (s\<lparr>ct_volumes := store\<rparr>) b)"
  by (simp add: outcome_def storeVolumeUpdate_def split: prod.split sum.split)

lemma outcome_storeClaimUpdate:
  "outcome (storeClaimUpdate c) s Q E \<longleftrightarrow>
   (case storeObjectUpdate pvc_ResourceVersion (ct_claims s) c of
      (store, Inl e) \<Rightarrow> E (s\<lparr>ct_claims := store\<rparr>) e
    | (store, Inr b) \<Rightarrow> Q (s\<lparr>ct_claims := store\<rparr>) b)"
  by (simp add: outcome_def storeClaimUpdate_def split: prod.split sum.split)

section \<open>The cache of the newest versions\<close>

text \<open>
  The result of \<open>storeObjectUpdate\<close> on a cache in order: stored when the key is new or the version is
  not older than the cached one, ignored when it is older, an error when a version is not a number.
\<close>

lemma storeObjectUpdate_cases:
  assumes "cache_inv kf c"
  shows "storeObjectUpdate rv c obj =
    (case cache_GetByKey c (kf obj) of
       None \<Rightarrow> (fst (cache_Add c obj), Inr True)
     | Some old \<Rightarrow>
         (case strconv_ParseInt (rv obj) of
            Inl err \<Rightarrow> (c, Inl (Errorf ''Error parsing ResourceVersion'' (Some err)))
          | Inr n \<Rightarrow>
              (case strconv_ParseInt (rv old) of
                 Inl err \<Rightarrow> (c, Inl (Errorf ''Error parsing old ResourceVersion'' (Some err)))
               | Inr m \<Rightarrow> if m > n then (c, Inr False) else (fst (cache_Add c obj), Inr True))))"
proof -
  have k: "keyFunc c obj = Inr (kf obj)" using assms by (simp add: cache_inv_def)
  obtain c' where c': "cache_Add c obj = (c', None)"
    using cache_Add_ok [OF assms, of obj] by (cases "cache_Add c obj") auto
  then have "fst (cache_Add c obj) = c'" by simp
  then show ?thesis
    unfolding storeObjectUpdate_def
    by (simp add: k cache_Get_key [OF assms] cache_Update_Add c' split: option.split sum.split)
qed

lemma storeObjectUpdate_fst:
  assumes "cache_inv kf c"
  shows "fst (storeObjectUpdate rv c obj) = c \<or> fst (storeObjectUpdate rv c obj) = fst (cache_Add c obj)"
  unfolding storeObjectUpdate_cases [OF assms] by (simp split: option.split sum.split)

lemma cache_inv_storeObjectUpdate: "cache_inv kf c \<Longrightarrow> cache_inv kf (fst (storeObjectUpdate rv c obj))"
  using storeObjectUpdate_fst [of kf c rv obj] cs.inv_put [of kf c obj] by auto

text \<open>The number of a resource version; the controller rejects objects where it is not defined.\<close>

definition version_of :: "string \<Rightarrow> int option" where
  "version_of v = (case strconv_ParseInt v of Inl _ \<Rightarrow> None | Inr n \<Rightarrow> Some n)"

definition version_le :: "string \<Rightarrow> string \<Rightarrow> bool" where
  "version_le v w \<longleftrightarrow>
     v = w \<or> (case (version_of v, version_of w) of (Some m, Some n) \<Rightarrow> m \<le> n | _ \<Rightarrow> False)"

lemma version_le_refl: "version_le v v"
  by (simp add: version_le_def)

lemma version_le_trans: "version_le u v \<Longrightarrow> version_le v w \<Longrightarrow> version_le u w"
  by (auto simp: version_le_def split: option.splits)

lemma storeObjectUpdate_version:
  assumes "cache_inv kf c" and "cache_GetByKey c k = Some old"
  shows "\<exists>new. cache_GetByKey (fst (storeObjectUpdate rv c obj)) k = Some new \<and> version_le (rv old) (rv new)"
proof (cases "k = kf obj")
  case False
  with assms storeObjectUpdate_fst [OF assms(1), of rv obj] show ?thesis
    using cs.get_put [OF assms(1), of obj k] by (auto simp: version_le_refl)
next
  case True
  with assms(2) show ?thesis
    using cs.get_put [OF assms(1), of obj k]
    by (auto simp: storeObjectUpdate_cases [OF assms(1)] version_le_def version_of_def split: sum.splits)
qed

text \<open>
  C14: However many object versions the controller stores, in whatever order the API server, the
  informers and its own writes deliver them, the version it holds for a key never goes back: what is
  cached for a key stays cached, and its resource version only grows.
\<close>

theorem cached_version_never_goes_back:
  assumes "cache_GetByKey (fold (\<lambda>obj c. fst (storeObjectUpdate pv_ResourceVersion c obj)) objs
             newPersistentVolumeOrderedIndex) name = Some old"
  shows "\<exists>new. cache_GetByKey (fold (\<lambda>obj c. fst (storeObjectUpdate pv_ResourceVersion c obj)) (objs @ objs')
             newPersistentVolumeOrderedIndex) name = Some new \<and>
           version_le (pv_ResourceVersion old) (pv_ResourceVersion new)"
proof -
  let ?st = "\<lambda>obj c. fst (storeObjectUpdate pv_ResourceVersion c obj)"
  have inv: "cache_inv pv_key (fold ?st xs c)" if "cache_inv pv_key c" for xs c
    using that by (induction xs arbitrary: c) (simp_all add: cache_inv_storeObjectUpdate)
  have mono: "\<exists>new. cache_GetByKey (fold ?st xs c) name = Some new \<and>
      version_le (pv_ResourceVersion old) (pv_ResourceVersion new)"
    if "cache_inv pv_key c" "cache_GetByKey c name = Some old" for xs c old
    using that
  proof (induction xs arbitrary: c old)
    case Nil
    then show ?case by (simp add: version_le_refl)
  next
    case (Cons x xs)
    obtain mid where m: "cache_GetByKey (?st x c) name = Some mid"
      "version_le (pv_ResourceVersion old) (pv_ResourceVersion mid)"
      using storeObjectUpdate_version [OF Cons.prems, of pv_ResourceVersion x] by blast
    from Cons.IH [OF cache_inv_storeObjectUpdate [OF Cons.prems(1)] m(1)] m(2) show ?case
      by (auto intro: version_le_trans)
  qed
  have "cache_inv pv_key newPersistentVolumeOrderedIndex"
    using pv_index_inv_New by (simp add: pv_index_inv_def)
  from mono [OF inv [OF this] assms] show ?thesis by simp
qed

theorem cached_version_never_goes_back_witness:
  "cache_GetByKey (fold (\<lambda>obj c. fst (storeObjectUpdate pv_ResourceVersion c obj))
     [(sample_pv ''v'' [] 1 None)\<lparr>pv_ResourceVersion := ''9''\<rparr>] newPersistentVolumeOrderedIndex) ''v'' =
     Some ((sample_pv ''v'' [] 1 None)\<lparr>pv_ResourceVersion := ''9''\<rparr>) \<and>
   (\<exists>new. cache_GetByKey (fold (\<lambda>obj c. fst (storeObjectUpdate pv_ResourceVersion c obj))
     ([(sample_pv ''v'' [] 1 None)\<lparr>pv_ResourceVersion := ''9''\<rparr>] @
      [(sample_pv ''v'' [] 1 None)\<lparr>pv_ResourceVersion := ''10''\<rparr>, (sample_pv ''v'' [] 1 None)\<lparr>pv_ResourceVersion := ''8''\<rparr>])
     newPersistentVolumeOrderedIndex) ''v'' = Some new \<and> version_le ''9'' (pv_ResourceVersion new))"
proof -
  have 1: "cache_GetByKey (fold (\<lambda>obj c. fst (storeObjectUpdate pv_ResourceVersion c obj))
     [(sample_pv ''v'' [] 1 None)\<lparr>pv_ResourceVersion := ''9''\<rparr>] newPersistentVolumeOrderedIndex) ''v'' =
     Some ((sample_pv ''v'' [] 1 None)\<lparr>pv_ResourceVersion := ''9''\<rparr>)" by code_simp
  show ?thesis
    using 1 cached_version_never_goes_back [OF 1, of "[(sample_pv ''v'' [] 1 None)\<lparr>pv_ResourceVersion := ''10''\<rparr>,
      (sample_pv ''v'' [] 1 None)\<lparr>pv_ResourceVersion := ''8''\<rparr>]"] by simp
qed

section \<open>The invariant of the controller\<close>

text \<open>
  The caches are in order, and the goroutines that run have different names, each registered as pending.
\<close>

definition ctrl_inv :: "(string \<times> pv_operation) set \<Rightarrow> 'w pv_state \<Rightarrow> bool" where
  "ctrl_inv G s \<longleftrightarrow>
     pv_index_inv (ct_volumes s) \<and> cache_inv pvc_key (ct_claims s) \<and>
     distinct (map fst (ct_goroutines s)) \<and>
     (\<forall>g \<in> set (ct_goroutines s). grm_IsOperationPending (ct_runningOperations s) (fst g)) \<and>
     G \<subseteq> set (ct_goroutines s)"

lemma ctrl_inv_New: "ctrl_inv {} (NewController w)"
  by (simp add: ctrl_inv_def NewController_def pv_index_inv_New cache_inv_NewStore)

lemma ctrl_inv_fields:
  "ctrl_inv G s \<Longrightarrow> ct_volumes s' = ct_volumes s \<Longrightarrow> ct_claims s' = ct_claims s \<Longrightarrow>
   ct_goroutines s' = ct_goroutines s \<Longrightarrow> ct_runningOperations s' = ct_runningOperations s \<Longrightarrow> ctrl_inv G s'"
  by (simp add: ctrl_inv_def)

lemma pv_index_inv_Add: "pv_index_inv idx \<Longrightarrow> pv_index_inv (fst (cache_Add idx v))"
  using pv_index_inv_apply [of idx "AddOp v"] by simp

lemma pv_index_inv_Delete: "pv_index_inv idx \<Longrightarrow> pv_index_inv (fst (cache_Delete idx v))"
  using pv_index_inv_apply [of idx "DeleteOp v"] by simp

lemma pv_index_inv_store: "pv_index_inv idx \<Longrightarrow> pv_index_inv (fst (storeObjectUpdate rv idx v))"
  using storeObjectUpdate_fst [of pv_key idx rv v] pv_index_inv_Add [of idx v]
  by (auto simp: pv_index_inv_def)

lemma keeps_api: "keeps (ctrl_inv G) (api call)"
  by (auto simp: keeps_def go_wp split: prod.split sum.split elim: ctrl_inv_fields)

lemma keeps_api_err: "keeps (ctrl_inv G) (api_err call)"
  by (auto simp: keeps_def go_wp split: prod.split option.split elim: ctrl_inv_fields)

lemma keeps_event: "keeps (ctrl_inv G) (event obj t r)"
  by (auto simp: keeps_def go_wp elim: ctrl_inv_fields)

lemma keeps_queues: "keeps (ctrl_inv G) (claimQueue_Add k)" "keeps (ctrl_inv G) (volumeQueue_Add k)"
  by (auto simp: keeps_def claimQueue_Add_def volumeQueue_Add_def go_wp elim: ctrl_inv_fields)

lemma keeps_storeVolumeUpdate: "keeps (ctrl_inv G) (storeVolumeUpdate v)"
proof -
  have "ctrl_inv G (s\<lparr>ct_volumes := fst (storeObjectUpdate pv_ResourceVersion (ct_volumes s) v)\<rparr>)"
    if "ctrl_inv G s" for s :: "'a pv_state"
    using that by (simp add: ctrl_inv_def pv_index_inv_store)
  then show ?thesis
    by (simp add: keeps_def outcome_storeVolumeUpdate case_prod_beta split: sum.split)
qed

lemma keeps_storeClaimUpdate: "keeps (ctrl_inv G) (storeClaimUpdate c)"
proof -
  have "ctrl_inv G (s\<lparr>ct_claims := fst (storeObjectUpdate pvc_ResourceVersion (ct_claims s) c)\<rparr>)"
    if "ctrl_inv G s" for s :: "'a pv_state"
    using that by (simp add: ctrl_inv_def cache_inv_storeObjectUpdate)
  then show ?thesis
    by (simp add: keeps_def outcome_storeClaimUpdate case_prod_beta split: sum.split)
qed

lemma keeps_cache_deletes: "keeps (ctrl_inv G) (deleteVolumeFromCache v)" "keeps (ctrl_inv G) (deleteClaimFromCache c)"
  by (auto simp: keeps_def deleteVolumeFromCache_def deleteClaimFromCache_def go_wp ctrl_inv_def
      pv_index_inv_Delete cs.inv_del)

lemma keeps_scheduleOperation: "keeps (ctrl_inv G) (scheduleOperation n op)"
proof -
  have "ctrl_inv G (case grm_Run (ct_clock s) (ct_runningOperations s) n of
        (None, grm) \<Rightarrow> s\<lparr>ct_runningOperations := grm, ct_goroutines := ct_goroutines s @ [(n, op)]\<rparr>
      | (Some err, grm) \<Rightarrow> s\<lparr>ct_runningOperations := grm\<rparr>)"
    if inv: "ctrl_inv G s" for s :: "'a pv_state"
  proof (cases "grm_Run (ct_clock s) (ct_runningOperations s) n")
    case (Pair err grm)
    show ?thesis
    proof (cases err)
      case (Some e)
      with Pair grm_Run_refused [of "ct_clock s" "ct_runningOperations s" n e grm] have "grm = ct_runningOperations s" by simp
      with Pair Some inv show ?thesis by (simp add: ctrl_inv_def)
    next
      case None
      then obtain b where "grm = (ct_runningOperations s)\<lparr>grm_operations :=
          mput n \<lparr>gop_operationPending = True, gop_expBackoff = b\<rparr> (grm_operations (ct_runningOperations s))\<rparr>"
        and n: "\<not> grm_IsOperationPending (ct_runningOperations s) n"
        using Pair grm_Run_started [of "ct_clock s" "ct_runningOperations s" n grm] by auto
      then have "grm_IsOperationPending grm k \<longleftrightarrow> k = n \<or> grm_IsOperationPending (ct_runningOperations s) k" for k
        by (simp add: grm_pending_put)
      with Pair None inv n show ?thesis by (auto simp: ctrl_inv_def)
    qed
  qed
  then show ?thesis by (simp add: keeps_def scheduleOperation_def go_wp)
qed

lemmas keeps_ctrl = keeps_intros keeps_gets_all keeps_api keeps_api_err keeps_event keeps_queues
  keeps_storeVolumeUpdate keeps_storeClaimUpdate keeps_cache_deletes keeps_scheduleOperation

lemma keeps_status:
  "keeps (ctrl_inv G) (updateClaimStatus cf claim phase volume)"
  "keeps (ctrl_inv G) (updateVolumePhase cf v vphase msg)"
  by (auto simp: updateClaimStatus_def updateVolumePhase_def Let_def intro!: keeps_ctrl)

lemma keeps_status_event:
  "keeps (ctrl_inv G) (updateClaimStatusWithEvent cf claim phase volume t r)"
  "keeps (ctrl_inv G) (updateVolumePhaseWithEvent cf v vphase t r msg)"
  by (auto simp: updateClaimStatusWithEvent_def updateVolumePhaseWithEvent_def intro!: keeps_ctrl keeps_status)

lemma keeps_bind: "keeps (ctrl_inv G) (bind_volume cf volume claim)"
  by (auto simp: bind_volume_def bindVolumeToClaim_def bindClaimToVolume_def Let_def
      intro!: keeps_ctrl keeps_status split: option.split)

lemma keeps_unbind: "pv_ClaimRef v \<noteq> None \<Longrightarrow> keeps (ctrl_inv G) (unbindVolume cf v)"
  by (cases "pv_ClaimRef v") (simp_all add: unbindVolume_def Let_def keeps_ctrl keeps_status)

lemma keeps_reclaim: "keeps (ctrl_inv G) (reclaimVolume cf v)"
  by (auto simp: reclaimVolume_def intro!: keeps_ctrl keeps_status_event split: reclaimPolicy.split)

lemma keeps_syncVolume: "keeps (ctrl_inv G) (syncVolume cf v)"
  by (auto simp: syncVolume_def release_and_reclaim_def Let_def
      intro!: keeps_ctrl keeps_status keeps_reclaim keeps_unbind split: option.split)

lemma isVolumeReleased_ref: "isVolumeReleased claims v \<Longrightarrow> pv_ClaimRef v \<noteq> None"
  by (cases "pv_ClaimRef v") (simp_all add: isVolumeReleased_def)

lemma keeps_doDelete: "keeps (ctrl_inv G) (doDeleteVolume cf v)"
  by (auto simp: doDeleteVolume_def Let_def intro!: keeps_ctrl split: sum.split option.split)

lemma keeps_deleteOperation: "keeps (ctrl_inv G) (deleteVolumeOperation cf v)"
  by (auto simp: deleteVolumeOperation_def intro!: keeps_ctrl keeps_doDelete keeps_status_event)

lemma keeps_recycler_run: "keeps (ctrl_inv G) (recycler_run p v spec)"
  by (auto simp: keeps_def outcome_def recycler_run_def split: prod.split option.split elim: ctrl_inv_fields)

lemma keeps_recycle: "keeps (ctrl_inv G) (recycleVolumeOperation cf v)"
  by (auto simp: recycleVolumeOperation_def recycle_failed_def Let_def
      intro!: keeps_ctrl keeps_recycler_run keeps_status_event keeps_unbind isVolumeReleased_ref
      split: sum.split option.split)

lemma keeps_loops:
  "keeps (ctrl_inv G) (create_loop cf v n err)" "keeps (ctrl_inv G) (cleanup_loop cf v n)"
  by (induction n arbitrary: err) (auto simp: Let_def intro!: keeps_ctrl keeps_doDelete)

lemma findProvisionablePlugin_class:
  "outcome (findProvisionablePlugin cf claim) s (\<lambda>s' (plugin, class). plugin \<noteq> None \<longrightarrow> class \<noteq> None) (\<lambda>_ _. True)"
  by (auto simp: findProvisionablePlugin_def findAlphaProvisionablePlugin_def Let_def go_wp
      split: option.split sum.split)

lemma keeps_findProvisionable: "keeps (ctrl_inv G) (findProvisionablePlugin cf claim)"
  by (auto simp: findProvisionablePlugin_def findAlphaProvisionablePlugin_def Let_def intro!: keeps_ctrl
      split: option.split sum.split)

lemma keeps_provision_internal: "keeps (ctrl_inv G) (provision_internal cf claim cl p class)"
  by (auto simp: provision_internal_def save_provisioned_def Let_def intro!: keeps_ctrl keeps_loops
      split: sum.split option.split)

lemma keeps_provisionOperation: "keeps (ctrl_inv G) (provisionClaimOperation cf claim)"
proof -
  have prov: "keeps (ctrl_inv G) (setClaimProvisioner cf c k)" for c k
    by (auto simp: setClaimProvisioner_def Let_def intro!: keeps_ctrl)
  let ?k = "\<lambda>plugin storageClass. on_result
     (case storageClass of Some class \<Rightarrow> setClaimProvisioner cf claim class | None \<Rightarrow> ret claim) (\<lambda>r. case r of
       Inl err \<Rightarrow> ret ()
     | Inr claim' \<Rightarrow> (case plugin of
         None \<Rightarrow> if storageClass \<noteq> None then event (OnClaim (claimToClaimKey claim')) EventTypeNormal ''ExternalProvisioning'' else ret ()
       | Some p \<Rightarrow> (case storageClass of None \<Rightarrow> panic | Some class \<Rightarrow> provision_internal cf claim' (GetClaimStorageClass claim) p class)))"
  have k: "keeps (ctrl_inv G) (?k plugin storageClass)" if "plugin \<noteq> None \<longrightarrow> storageClass \<noteq> None" for plugin storageClass
    using that
    by (cases plugin; cases storageClass)
      (auto intro!: keeps_ctrl prov keeps_provision_internal)
  show ?thesis
    unfolding keeps_def
  proof (intro allI impI)
    fix s :: "'a pv_state" assume s: "ctrl_inv G s"
    have f: "outcome (findProvisionablePlugin cf claim) s
        (\<lambda>s' a. ctrl_inv G s' \<and> (case a of (plugin, class) \<Rightarrow> plugin \<noteq> None \<longrightarrow> class \<noteq> None)) (\<lambda>s' e. ctrl_inv G s' \<and> True)"
      by (rule outcome_conj [OF keepsD [OF keeps_findProvisionable s] findProvisionablePlugin_class])
    show "outcome (provisionClaimOperation cf claim) s (\<lambda>s' _. ctrl_inv G s') (\<lambda>s' _. ctrl_inv G s')"
      unfolding provisionClaimOperation_def Let_def outcome_on_result [of "findProvisionablePlugin cf claim"]
      using f
      by (rule outcome_mono) (auto split: prod.split intro: keepsD [OF keeps_event] keepsD [OF k])
  qed
qed

lemma keeps_syncUnbound: "keeps (ctrl_inv G) (syncUnboundClaim cf claim)"
proof -
  have a: "outcome (case findBestMatchForClaim (ct_volumes s) claim of
             None \<Rightarrow> panic
           | Some (Inl err) \<Rightarrow> fail (Errorf ''Error finding PV for claim'' (Some err))
           | Some (Inr None) \<Rightarrow>
               if GetClaimStorageClass claim \<noteq> [] \<or> HasAnnotation (pvc_Annotations claim) AlphaStorageClassAnnotation
               then provisionClaim cf claim
               else and_then (updateClaimStatus cf claim ClaimPending None) (\<lambda>_. ret ())
           | Some (Inr (Some volume)) \<Rightarrow> bind_volume cf volume claim) s (\<lambda>s' _. ctrl_inv G s') (\<lambda>s' _. ctrl_inv G s')"
    if s: "ctrl_inv G s" for s :: "'a pv_state"
  proof -
    have "findBestMatchForClaim (ct_volumes s) claim \<noteq> None"
    proof (cases "claim_selector claim")
      case (Inr sel)
      with findByClaim_best [of "ct_volumes s" claim sel] s show ?thesis
        by (auto simp: findBestMatchForClaim_def ctrl_inv_def)
    qed (simp add: findBestMatchForClaim_def findByClaim_def)
    then obtain r where r: "findBestMatchForClaim (ct_volumes s) claim = Some r" by blast
    have "keeps (ctrl_inv G) (provisionClaim cf claim)" by (auto simp: provisionClaim_def intro!: keeps_ctrl)
    then have "keeps (ctrl_inv G) (case r of
             Inl err \<Rightarrow> fail (Errorf ''Error finding PV for claim'' (Some err))
           | Inr None \<Rightarrow>
               if GetClaimStorageClass claim \<noteq> [] \<or> HasAnnotation (pvc_Annotations claim) AlphaStorageClassAnnotation
               then provisionClaim cf claim
               else and_then (updateClaimStatus cf claim ClaimPending None) (\<lambda>_. ret ())
           | Inr (Some volume) \<Rightarrow> bind_volume cf volume claim)"
      by (auto intro!: keeps_ctrl keeps_status keeps_bind)
    from keepsD [OF this s] r show ?thesis by simp
  qed
  show ?thesis
    unfolding syncUnboundClaim_def Let_def
    by (intro keeps_if keeps_gets a) (auto intro!: keepsD [of "ctrl_inv G"] keeps_ctrl keeps_bind keeps_status)
qed

lemma keeps_syncClaim: "keeps (ctrl_inv G) (syncClaim cf claim)"
  unfolding syncClaim_def
  by (rule keeps_if, rule keeps_syncUnbound)
    (auto simp: syncBoundClaim_def Let_def intro!: keeps_ctrl keeps_bind keeps_status_event)

lemma keeps_goroutine_body: "keeps (ctrl_inv G) (pv_operation_body cf op)"
  by (cases op) (auto intro!: keeps_ctrl keeps_recycle keeps_deleteOperation keeps_provisionOperation)

lemma keeps_upgrade: "keeps (ctrl_inv G) (upgradeVolumeFrom1_2 cf v)"
  by (auto simp: upgradeVolumeFrom1_2_def intro!: keeps_ctrl)

lemma keeps_handlers:
  "keeps (ctrl_inv G) (updateVolume cf v)" "keeps (ctrl_inv G) (deleteVolume v)"
  "keeps (ctrl_inv G) (updateClaim cf c)" "keeps (ctrl_inv G) (deleteClaim c)"
  by (auto simp: updateVolume_def deleteVolume_def updateClaim_def deleteClaim_def
      intro!: keeps_ctrl keeps_upgrade keeps_syncVolume keeps_syncClaim split: option.split)

lemma keeps_modify_queues:
  "keeps (ctrl_inv G) (modify (\<lambda>s. s\<lparr>ct_volumeQueue := f s\<rparr>))" "keeps (ctrl_inv G) (modify (\<lambda>s. s\<lparr>ct_claimQueue := f s\<rparr>))"
  by (auto intro!: keeps_modify elim: ctrl_inv_fields)

lemma keeps_workers: "keeps (ctrl_inv G) (volumeWorker cf)" "keeps (ctrl_inv G) (claimWorker cf)"
  by (auto simp: volumeWorker_def claimWorker_def volumeWorker_key_def claimWorker_key_def
      intro!: keeps_ctrl keeps_handlers keeps_modify_queues split: option.split)

lemma ctrl_inv_complete:
  assumes inv: "ctrl_inv {g} s"
  shows "ctrl_inv {} (s\<lparr>ct_runningOperations := grm_operationComplete now (ct_runningOperations s) (fst g) err,
      ct_goroutines := remove1 g (ct_goroutines s)\<rparr>)"
proof -
  have d: "distinct (map fst (ct_goroutines s))" and g: "g \<in> set (ct_goroutines s)"
    using inv by (simp_all add: ctrl_inv_def)
  then have "distinct (ct_goroutines s)" and i: "inj_on fst (set (ct_goroutines s))"
    by (simp_all add: distinct_map)
  then have r: "set (remove1 g (ct_goroutines s)) = set (ct_goroutines s) - {g}" by (simp add: set_remove1_eq)
  have "fst h \<noteq> fst g" if "h \<in> set (ct_goroutines s) - {g}" for h
    using that g inj_onD [OF i] by blast
  moreover have "distinct (map fst (remove1 g (ct_goroutines s)))"
    using \<open>distinct (ct_goroutines s)\<close> i r by (simp add: distinct_map inj_on_def)
  ultimately show ?thesis
    using inv by (simp add: ctrl_inv_def r grm_pending_complete)
qed

lemma run_goroutine_inv:
  assumes "ctrl_inv {g} s"
  shows "outcome (run_goroutine cf g) s (\<lambda>s' _. ctrl_inv {} s') (\<lambda>_ _. False)"
  unfolding run_goroutine_def go_wp
  using keepsD [OF keeps_goroutine_body assms, of cf "snd g"]
  by (rule outcome_mono) (simp_all add: ctrl_inv_complete)

section \<open>Histories of the controller\<close>

text \<open>
  What happens to the controller: the informers deliver an object or its deletion, a worker makes one
  pass, a goroutine that was started runs, time passes. A handler runs as one step on the caches; the
  API server and the plugins may change in any way within it.
\<close>

datatype pv_action =
    VolumeAdded PersistentVolume
  | VolumeRemoved PersistentVolume
  | ClaimAdded PersistentVolumeClaim
  | ClaimRemoved PersistentVolumeClaim
  | ClassAdded StorageClass
  | VolumeWork
  | ClaimWork
  | GoroutineRuns nat
  | TimePasses duration

fun pv_act :: "'w pv_config \<Rightarrow> pv_action \<Rightarrow> ('w, unit) ctrl" where
  "pv_act cf (VolumeAdded v) =
     and_then (modify (\<lambda>s. s\<lparr>ct_volumeInformer := fst (cache_Add (ct_volumeInformer s) v)\<rparr>)) (\<lambda>_. enqueueVolume v)"
| "pv_act cf (VolumeRemoved v) =
     and_then (modify (\<lambda>s. s\<lparr>ct_volumeInformer := fst (cache_Delete (ct_volumeInformer s) v)\<rparr>)) (\<lambda>_. enqueueVolume v)"
| "pv_act cf (ClaimAdded c) =
     and_then (modify (\<lambda>s. s\<lparr>ct_claimInformer := fst (cache_Add (ct_claimInformer s) c)\<rparr>)) (\<lambda>_. enqueueClaim c)"
| "pv_act cf (ClaimRemoved c) =
     and_then (modify (\<lambda>s. s\<lparr>ct_claimInformer := fst (cache_Delete (ct_claimInformer s) c)\<rparr>)) (\<lambda>_. enqueueClaim c)"
| "pv_act cf (ClassAdded k) = modify (\<lambda>s. s\<lparr>ct_classes := fst (cache_Add (ct_classes s) k)\<rparr>)"
| "pv_act cf VolumeWork = and_then (volumeWorker cf) (\<lambda>_. ret ())"
| "pv_act cf ClaimWork = and_then (claimWorker cf) (\<lambda>_. ret ())"
| "pv_act cf (GoroutineRuns i) =
     gets (\<lambda>s. if i < length (ct_goroutines s) then run_goroutine cf (ct_goroutines s ! i) else ret ())"
| "pv_act cf (TimePasses d) = modify (\<lambda>s. s\<lparr>ct_clock := ct_clock s + d\<rparr>)"

fun pv_run :: "'w pv_config \<Rightarrow> pv_action list \<Rightarrow> 'w pv_state \<Rightarrow> 'w pv_state option" where
  "pv_run cf [] s = Some s"
| "pv_run cf (a # as) s = (case pv_act cf a s of None \<Rightarrow> None | Some (s', _) \<Rightarrow> pv_run cf as s')"

lemma pv_act_inv: "ctrl_inv {} s \<Longrightarrow> outcome (pv_act cf a) s (\<lambda>s' _. ctrl_inv {} s') (\<lambda>s' _. ctrl_inv {} s')"
proof (cases a)
  case (GoroutineRuns i)
  assume inv: "ctrl_inv {} s"
  have "outcome (run_goroutine cf (ct_goroutines s ! i)) s (\<lambda>s' _. ctrl_inv {} s') (\<lambda>s' _. ctrl_inv {} s')"
    if i: "i < length (ct_goroutines s)"
  proof -
    have "ctrl_inv {ct_goroutines s ! i} s" using inv i by (simp add: ctrl_inv_def)
    from run_goroutine_inv [OF this] show ?thesis by (rule outcome_mono) auto
  qed
  with inv GoroutineRuns show ?thesis by (simp add: go_wp)
qed (auto simp: enqueueVolume_def enqueueClaim_def intro!: keepsD [of "ctrl_inv {}"] keeps_ctrl keeps_workers
    keeps_modify elim: ctrl_inv_fields)

lemma pv_run_inv: "ctrl_inv {} s \<Longrightarrow> \<exists>s'. pv_run cf as s = Some s' \<and> ctrl_inv {} s'"
proof (induction as arbitrary: s)
  case (Cons a as)
  from outcome_run [OF pv_act_inv [OF Cons.prems, of cf a]] obtain s' r
    where "pv_act cf a s = Some (s', r)" "ctrl_inv {} s'" by blast
  with Cons.IH [of s'] show ?case by simp
qed simp

text \<open>
  C10: Whatever the API server and the volume plugins answer, no sequence of informer events, worker
  passes and background operations makes the controller panic; and at every moment the background
  operations that run have different names, so that no volume is recycled or deleted, and for no claim
  a volume is provisioned, by two goroutines at once.
\<close>

theorem pv_controller_never_panics:
  "\<exists>s. pv_run cf actions (NewController w) = Some s \<and>
       distinct (map fst (ct_goroutines s)) \<and>
       fst ` set (ct_goroutines s) \<subseteq> {name. grm_IsOperationPending (ct_runningOperations s) name}"
proof -
  obtain s where s: "pv_run cf actions (NewController w) = Some s" "ctrl_inv {} s"
    using pv_run_inv [OF ctrl_inv_New [of w], of cf actions] by blast
  then show ?thesis by (intro exI [of _ s]) (auto simp: ctrl_inv_def)
qed

end
