(* ===== verification/PV_Convergence.thy ===== *)
theory PV_Convergence
  imports PV_Binding
begin

text \<open>
  The persistent volume controller on the registry of the API server (the client \<open>etcd_client\<close>): a
  volume that belongs to another claim is not changed, binding an available volume succeeds and leaves
  both objects bound to each other, and a bound pair is left alone from then on.
\<close>

section \<open>Volumes of other claims\<close>

definition foreign :: "PersistentVolumeClaim \<Rightarrow> PersistentVolume \<Rightarrow> bool" where
  "foreign claim v \<longleftrightarrow>
     (case pv_ClaimRef v of
        None \<Rightarrow> False
      | Some ref \<Rightarrow> \<not> isVolumeBoundToClaim v claim \<and> ref_UID ref \<noteq> pvc_UID claim)"

text \<open>
  The cached volumes are versions that the API server has issued: one with the version number that is
  stored is the stored object. The cache may be arbitrarily out of date.
\<close>

definition cache_issued :: "etcd pv_state \<Rightarrow> bool" where
  "cache_issued s \<longleftrightarrow>
     (\<forall>name v. cache_GetByKey (ct_volumes s) name = Some v \<longrightarrow>
        (\<exists>n. ObjectResourceVersion (pv_ResourceVersion v) = Inr n \<and> 0 < n) \<and>
        (\<forall>w. mget (etcd_pvs (ct_world s)) name = Some w \<and>
           ObjectResourceVersion (pv_ResourceVersion w) = ObjectResourceVersion (pv_ResourceVersion v) \<longrightarrow> w = v))"

definition holds :: "string \<Rightarrow> PersistentVolume \<Rightarrow> etcd pv_state \<Rightarrow> bool" where
  "holds name w s \<longleftrightarrow> mget (etcd_pvs (ct_world s)) name = Some w"

text \<open>An update of \<open>v\<close> cannot replace the stored volume \<open>w\<close>: another name, or not its version.\<close>

definition harmless :: "string \<Rightarrow> PersistentVolume \<Rightarrow> PersistentVolume \<Rightarrow> bool" where
  "harmless name w v \<longleftrightarrow>
     pv_Name v \<noteq> name \<or>
     ObjectResourceVersion (pv_ResourceVersion v) \<noteq> Inr 0 \<and>
     ObjectResourceVersion (pv_ResourceVersion v) \<noteq> ObjectResourceVersion (pv_ResourceVersion w)"

lemma harmless_other: "pv_Name v \<noteq> name \<Longrightarrow> harmless name w v"
  by (simp add: harmless_def)

lemma harmless_cong:
  "harmless name w v \<Longrightarrow> pv_Name v' = pv_Name v \<Longrightarrow> pv_ResourceVersion v' = pv_ResourceVersion v \<Longrightarrow> harmless name w v'"
  by (simp add: harmless_def)

lemma etcd_client_sel [simp]:
  "kc_UpdatePV (etcd_client ar) = etcd_UpdatePV ar" "kc_UpdatePVStatus (etcd_client ar) = etcd_UpdatePVStatus ar"
  "kc_UpdatePVC (etcd_client ar) = etcd_UpdatePVC ar" "kc_UpdatePVCStatus (etcd_client ar) = etcd_UpdatePVCStatus ar"
  by (simp_all add: etcd_client_def)

lemma harmless_update:
  assumes "harmless name w v" and "mget (etcd_pvs e) name = Some w"
  shows "etcd_UpdatePV ar v e = (e', r) \<Longrightarrow> mget (etcd_pvs e') name = Some w \<and> (\<forall>out. r = Inr out \<longrightarrow> pv_Name out \<noteq> name)"
    and "etcd_UpdatePVStatus ar v e = (e', r) \<Longrightarrow> mget (etcd_pvs e') name = Some w \<and> (\<forall>out. r = Inr out \<longrightarrow> pv_Name out \<noteq> name)"
proof -
  show "mget (etcd_pvs e') name = Some w \<and> (\<forall>out. r = Inr out \<longrightarrow> pv_Name out \<noteq> name)" if "etcd_UpdatePV ar v e = (e', r)"
    using assms that etcd_pv.stale_update [OF that] etcd_pv.other_objects [OF that] etcd_pv.accepted [of ar v e e']
    by (cases "pv_Name v = name") (auto simp: harmless_def)
  show "mget (etcd_pvs e') name = Some w \<and> (\<forall>out. r = Inr out \<longrightarrow> pv_Name out \<noteq> name)" if "etcd_UpdatePVStatus ar v e = (e', r)"
    using assms that etcd_pv_status.stale_update [OF that] etcd_pv_status.other_objects [OF that]
      etcd_pv_status.accepted [of ar v e e']
    by (cases "pv_Name v = name") (auto simp: harmless_def)
qed

lemma holds_fields: "holds name w s \<Longrightarrow> ct_world s' = ct_world s \<Longrightarrow> holds name w s'"
  by (simp add: holds_def)

lemma holds_step: "holds name w (s\<lparr>ct_world := e\<rparr>) \<longleftrightarrow> mget (etcd_pvs e) name = Some w"
  by (simp add: holds_def)

lemma holds_steps:
  "keeps (holds name w) (storeVolumeUpdate v)" "keeps (holds name w) (storeClaimUpdate c)"
  "keeps (holds name w) (event obj t r)" "keeps (holds name w) (scheduleOperation n op)"
  by (auto simp: keeps_def outcome_storeVolumeUpdate outcome_storeClaimUpdate scheduleOperation_def go_wp
      split: prod.split sum.split option.split elim: holds_fields)

lemma holds_claim_updates:
  "keeps (holds name w) (api (etcd_UpdatePVC ar c))" "keeps (holds name w) (api (etcd_UpdatePVCStatus ar c))"
  by (auto simp: keeps_def go_wp holds_def etcd_updates split: prod.split sum.split)

lemmas holds_keeps = keeps_intros keeps_gets_all holds_steps holds_claim_updates

lemma holds_claim_methods:
  assumes "pc_kubeClient cf = etcd_client ar"
  shows "keeps (holds name w) (updateClaimStatus cf c ph vol)" and "keeps (holds name w) (bindClaimToVolume cf c v)"
    and "keeps (holds name w) (updateClaimStatusWithEvent cf c ph vol t r)"
    and "keeps (holds name w) (provisionClaim cf c)"
  by (auto simp: updateClaimStatus_def bindClaimToVolume_def updateClaimStatusWithEvent_def provisionClaim_def
      Let_def assms intro!: holds_keeps)

definition unharmed :: "string \<Rightarrow> PersistentVolume \<Rightarrow> etcd pv_state \<Rightarrow> PersistentVolume \<Rightarrow> bool" where
  "unharmed name w s v \<longleftrightarrow> holds name w s \<and> harmless name w v"

lemma save_unharmed:
  assumes "holds name w s" and "harmless name w v"
  shows "outcome (and_then (api (etcd_UpdatePV ar v)) (\<lambda>out. and_then (storeVolumeUpdate out) (\<lambda>_. ret out)))
           s (unharmed name w) (\<lambda>s' _. holds name w s')"
    and "outcome (and_then (api (etcd_UpdatePVStatus ar v)) (\<lambda>out. and_then (storeVolumeUpdate out) (\<lambda>_. ret out)))
           s (unharmed name w) (\<lambda>s' _. holds name w s')"
proof -
  have st: "outcome (and_then (storeVolumeUpdate out) (\<lambda>_. ret out)) s' (unharmed name w) (\<lambda>s' _. holds name w s')"
    if "holds name w s'" "pv_Name out \<noteq> name" for s' out
    unfolding go_wp using keepsD [OF holds_steps(1) that(1)]
    by (rule outcome_mono) (simp_all add: unharmed_def that harmless_other)
  show "outcome (and_then (api (etcd_UpdatePV ar v)) (\<lambda>out. and_then (storeVolumeUpdate out) (\<lambda>_. ret out)))
           s (unharmed name w) (\<lambda>s' _. holds name w s')"
    unfolding outcome_and_then [of "api _"] outcome_api
    using harmless_update(1) [OF assms(2) assms(1) [unfolded holds_def], of ar]
    by (auto split: prod.split sum.split intro!: st simp: holds_step)
  show "outcome (and_then (api (etcd_UpdatePVStatus ar v)) (\<lambda>out. and_then (storeVolumeUpdate out) (\<lambda>_. ret out)))
           s (unharmed name w) (\<lambda>s' _. holds name w s')"
    unfolding outcome_and_then [of "api _"] outcome_api
    using harmless_update(2) [OF assms(2) assms(1) [unfolded holds_def], of ar]
    by (auto split: prod.split sum.split intro!: st simp: holds_step)
qed

lemma updateVolumePhase_unharmed:
  assumes "pc_kubeClient cf = etcd_client ar" and "unharmed name w s v"
  shows "outcome (updateVolumePhase cf v ph msg) s (unharmed name w) (\<lambda>s' _. holds name w s')"
proof (cases "pv_Phase v = ph")
  case True
  then show ?thesis using assms(2) by (simp add: updateVolumePhase_def go_wp)
next
  case False
  have "harmless name w (v\<lparr>pv_Phase := ph, pv_Message := msg\<rparr>)"
    using assms(2) by (auto simp: unharmed_def elim: harmless_cong)
  with save_unharmed(2) [of name w s _ ar] assms False show ?thesis
    by (simp add: updateVolumePhase_def unharmed_def Let_def)
qed

lemma bindVolumeToClaim_unharmed:
  assumes "pc_kubeClient cf = etcd_client ar" and "unharmed name w s v"
  shows "outcome (bindVolumeToClaim cf v claim) s (unharmed name w) (\<lambda>s' _. holds name w s')"
proof -
  have h: "holds name w s" "harmless name w v" using assms(2) by (simp_all add: unharmed_def)
  have "outcome (and_then (api (etcd_UpdatePV ar v')) (\<lambda>out. and_then (storeVolumeUpdate out) (\<lambda>_. ret out)))
      s (unharmed name w) (\<lambda>s' _. holds name w s')"
    if "pv_Name v' = pv_Name v" "pv_ResourceVersion v' = pv_ResourceVersion v" for v'
    using save_unharmed(1) [OF h(1) harmless_cong [OF h(2) that]] .
  then show ?thesis
    using assms(2) h(1)
    by (auto simp: bindVolumeToClaim_def Let_def assms(1) go_simps outcome_ret outcome_fail split: sum.split)
qed

lemma bind_volume_unharmed:
  assumes "pc_kubeClient cf = etcd_client ar" and "unharmed name w s v"
  shows "outcome (bind_volume cf v claim) s (\<lambda>s' _. holds name w s') (\<lambda>s' _. holds name w s')"
  unfolding bind_volume_def outcome_and_then [of "bindVolumeToClaim _ _ _"]
proof (rule outcome_mono [OF bindVolumeToClaim_unharmed [OF assms]])
  fix s' v' assume "unharmed name w s' v'"
  from updateVolumePhase_unharmed [OF assms(1) this]
  show "outcome (and_then (updateVolumePhase cf v' VolumeBound []) (\<lambda>volume.
     and_then (bindClaimToVolume cf claim volume) (\<lambda>claim.
     and_then (updateClaimStatus cf claim ClaimBound (Some volume)) (\<lambda>claim. ret ())))) s'
     (\<lambda>s' _. holds name w s') (\<lambda>s' _. holds name w s')"
    unfolding outcome_and_then [of "updateVolumePhase _ _ _ _"]
    by (rule outcome_mono)
      (auto simp: unharmed_def intro!: keepsD holds_keeps holds_claim_methods [OF assms(1)])
qed

lemma cached_harmless:
  assumes "cache_issued s" and "cache_inv pv_key (ct_volumes s)" and "cache_GetByKey (ct_volumes s) k = Some v"
    and "holds name w s" and "v \<noteq> w"
  shows "unharmed name w s v"
proof -
  have k: "k = pv_Name v" using cache_GetByKey_key [OF assms(2,3)] by simp
  obtain n where n: "ObjectResourceVersion (pv_ResourceVersion v) = Inr n" "0 < n"
    using assms(1,3) unfolding cache_issued_def by blast
  have "ObjectResourceVersion (pv_ResourceVersion v) \<noteq> ObjectResourceVersion (pv_ResourceVersion w)"
    if "pv_Name v = name"
    using assms(1,3,4,5) that unfolding cache_issued_def holds_def k by metis
  with n assms(4) show ?thesis by (auto simp: unharmed_def harmless_def)
qed

lemma claim_volume_not_foreign:
  "pv_ClaimRef v = None \<or> isVolumeBoundToClaim v claim \<or> (\<exists>ref. pv_ClaimRef v = Some ref \<and> ref_UID ref = pvc_UID claim) \<Longrightarrow>
   \<not> foreign claim v"
  by (auto simp: foreign_def split: option.split)

lemma match_not_foreign: "prebound_match claim v \<or> free_match claim v \<Longrightarrow> \<not> foreign claim v"
  by (rule claim_volume_not_foreign) (auto simp: prebound_match_def free_match_def)

lemma syncClaim_keeps_foreign:
  assumes cf: "pc_kubeClient cf = etcd_client ar" and inv: "ctrl_inv {} s" and ci: "cache_issued s"
    and w: "holds name w s" "foreign claim w"
  shows "outcome (syncClaim cf claim) s (\<lambda>s' _. holds name w s') (\<lambda>s' _. holds name w s')"
proof -
  have c: "cache_inv pv_key (ct_volumes s)" and pi: "pv_index_inv (ct_volumes s)"
    using inv by (simp_all add: ctrl_inv_def pv_index_inv_def)
  have b: "outcome (bind_volume cf v claim) s (\<lambda>s' _. holds name w s') (\<lambda>s' _. holds name w s')"
    if "cache_GetByKey (ct_volumes s) k = Some v" "\<not> foreign claim v" for k v
    using bind_volume_unharmed [OF cf cached_harmless [OF ci c that(1) w(1)]] that(2) w(2) by blast
  have found: "outcome (case findBestMatchForClaim (ct_volumes s) claim of
             None \<Rightarrow> panic
           | Some (Inl err) \<Rightarrow> fail (Errorf ''Error finding PV for claim'' (Some err))
           | Some (Inr None) \<Rightarrow> m
           | Some (Inr (Some volume)) \<Rightarrow> bind_volume cf volume claim) s (\<lambda>s' _. holds name w s') (\<lambda>s' _. holds name w s')"
    if m: "keeps (holds name w) m" for m
  proof (cases "claim_selector claim")
    case (Inl err)
    then show ?thesis using w(1) by (simp add: findBestMatchForClaim_def findByClaim_def go_wp)
  next
    case (Inr sel)
    obtain r where r: "findBestMatchForClaim (ct_volumes s) claim = Some (Inr r)"
      "best_match claim (cache_List (ct_volumes s)) r"
      using findByClaim_best [OF pi Inr] by (auto simp: findBestMatchForClaim_def)
    show ?thesis
    proof (cases r)
      case None
      with r keepsD [OF m w(1)] show ?thesis by simp
    next
      case (Some v)
      with r(2) have "v \<in> set (cache_List (ct_volumes s))" "prebound_match claim v \<or> free_match claim v"
        unfolding best_match_def by simp_all
      with b [of "pv_key v" v] match_not_foreign cache_List_iff [OF c] Some r(1) show ?thesis by simp
    qed
  qed
  note k = holds_claim_methods [OF cf]
  show ?thesis
  proof (cases "HasAnnotation (pvc_Annotations claim) annBindCompleted")
    case False
    have p: "keeps (holds name w) (and_then (updateClaimStatus cf claim ClaimPending None) (\<lambda>_. ret ()))"
      by (auto intro!: holds_keeps k)
    have "outcome (syncUnboundClaim cf claim) s (\<lambda>s' _. holds name w s') (\<lambda>s' _. holds name w s')"
    proof (cases "pvc_VolumeName claim = []")
      case True
      then show ?thesis
        using found [OF keeps_if [OF k(4) p]] by (simp add: syncUnboundClaim_def Let_def outcome_gets)
    next
      case named: False
      show ?thesis
        using keepsD [OF p w(1)] w(1) b claim_volume_not_foreign named
        by (auto simp: syncUnboundClaim_def Let_def outcome_gets outcome_fail split: option.split)
    qed
    with False show ?thesis by (simp add: syncClaim_def)
  next
    case True
    have p: "keeps (holds name w) (and_then (updateClaimStatusWithEvent cf claim ClaimLost None EventTypeWarning r) (\<lambda>_. ret ()))" for r
      by (auto intro!: holds_keeps k)
    have "outcome (syncBoundClaim cf claim) s (\<lambda>s' _. holds name w s') (\<lambda>s' _. holds name w s')"
      using keepsD [OF p w(1)] b claim_volume_not_foreign
      by (auto simp: syncBoundClaim_def Let_def outcome_gets split: option.split)
    with True show ?thesis by (simp add: syncClaim_def)
  qed
qed

text \<open>
  C3: However out of date its caches are, synchronising a claim never changes a stored volume that
  belongs to another claim: neither a volume found by the search, nor one the claim names, is taken away
  from the claim it is bound to.
\<close>

theorem no_volume_stolen:
  assumes "pc_kubeClient cf = etcd_client ar" and "ctrl_inv {} s" and "cache_issued s"
    and "mget (etcd_pvs (ct_world s)) name = Some v" and "foreign claim v"
  shows "\<exists>s' r. syncClaim cf claim s = Some (s', r) \<and> mget (etcd_pvs (ct_world s')) name = Some v"
  using outcome_run [OF syncClaim_keeps_foreign [OF assms(1-3), of name v claim]] assms(4,5)
  by (auto simp: holds_def)

section \<open>Binding an available volume\<close>

text \<open>
  An object is in sync: what the caller holds, what the cache holds and what the API server stores are
  the same version.
\<close>

definition pv_synced :: "PersistentVolume \<Rightarrow> etcd pv_state \<Rightarrow> bool" where
  "pv_synced v s \<longleftrightarrow>
     mget (etcd_pvs (ct_world s)) (pv_Name v) = Some v \<and> cache_GetByKey (ct_volumes s) (pv_Name v) = Some v \<and>
     (\<exists>n. pv_ResourceVersion v = show_nat n \<and> 0 < n \<and> n \<le> etcd_rev (ct_world s))"

definition pvc_synced :: "PersistentVolumeClaim \<Rightarrow> etcd pv_state \<Rightarrow> bool" where
  "pvc_synced c s \<longleftrightarrow>
     mget (etcd_pvcs (ct_world s)) (claimToClaimKey c) = Some c \<and> cache_GetByKey (ct_claims s) (pvc_key c) = Some c \<and>
     (\<exists>n. pvc_ResourceVersion c = show_nat n \<and> 0 < n \<and> n \<le> etcd_rev (ct_world s))"

definition accepts_all :: "api_rules \<Rightarrow> bool" where
  "accepts_all ar \<longleftrightarrow> (\<forall>v w. ar_validatePVUpdate ar v w = None) \<and> (\<forall>c d. ar_validatePVC ar c d = None)"

definition room :: "nat \<Rightarrow> etcd pv_state \<Rightarrow> bool" where
  "room k s \<longleftrightarrow> etcd_rev (ct_world s) + k < 2 ^ 63"

lemma two_pow_63: "n < 2 ^ 63 \<Longrightarrow> n < (2 ^ 64 :: nat)"
  by simp

lemma store_newer:
  assumes inv: "cache_inv kf c" and old: "cache_GetByKey c (kf obj) = Some old"
    and "rv old = show_nat n" and "rv obj = show_nat m" and "n \<le> m" and "m < 2 ^ 63"
  shows "storeObjectUpdate rv c obj = (fst (cache_Add c obj), Inr True)"
  using assms(3-6) old by (simp add: storeObjectUpdate_cases [OF inv] strconv_ParseInt_show_nat)

text \<open>Saving a changed copy of a volume in sync, through either of the two requests.\<close>

lemma save_pv_synced:
  assumes inv: "ctrl_inv {} s" and v: "pv_synced v s" and k: "room (Suc k) s"
    and nm: "\<And>r. pv_Name (set_pv_rv r (prep v' v)) = pv_Name v" and v': "pv_Name v' = pv_Name v" "pv_ResourceVersion v' = pv_ResourceVersion v"
    and acc: "val (prep v' v) v = None"
    and upd: "\<And>e. upd e = put_pv e (registry_Update pv_ResourceVersion set_pv_rv prep val (pv_Name v') v' (etcd_pvs e) (etcd_rev e))"
  shows "outcome (and_then (api upd) (\<lambda>out. and_then (storeVolumeUpdate out) (\<lambda>_. ret out))) s
    (\<lambda>s' out. ctrl_inv {} s' \<and> pv_synced out s' \<and> room k s' \<and> (\<exists>r. out = set_pv_rv r (prep v' v)) \<and>
       ct_claims s' = ct_claims s \<and> etcd_pvcs (ct_world s') = etcd_pvcs (ct_world s) \<and>
       etcd_rev (ct_world s) \<le> etcd_rev (ct_world s'))
    (\<lambda>_ _. False)"
proof -
  let ?e = "ct_world s"
  obtain n where n: "pv_ResourceVersion v = show_nat n" "0 < n" "n \<le> etcd_rev ?e"
    and st: "mget (etcd_pvs ?e) (pv_Name v) = Some v" and ca: "cache_GetByKey (ct_volumes s) (pv_Name v) = Some v"
    using v by (auto simp: pv_synced_def)
  have lim: "etcd_rev ?e + Suc k < 2 ^ 63" using k by (simp add: room_def)
  obtain t m out where u: "registry_Update pv_ResourceVersion set_pv_rv prep val (pv_Name v') v' (etcd_pvs ?e) (etcd_rev ?e) = ((t, m), Inr out)"
    and t: "mget t = (mget (etcd_pvs ?e))(pv_Name v' \<mapsto> out)"
    and o: "m = etcd_rev ?e \<and> out = v \<and> set_pv_rv (pv_ResourceVersion v) (prep v' v) = v \<or>
            m = Suc (etcd_rev ?e) \<and> out = set_pv_rv (show_nat (Suc (etcd_rev ?e))) (prep v' v)"
    by (rule registry_Update_current [where rv = pv_ResourceVersion and existing = v and obj = v' and k = n
          and key = "pv_Name v'" and tbl = "etcd_pvs ?e" and val = val and prep = prep and n = "etcd_rev ?e" and set_rv = set_pv_rv])
      (use st n v' acc lim in auto)
  have name: "pv_Name out = pv_Name v" using o nm by auto
  obtain j where j: "pv_ResourceVersion out = show_nat j" "n \<le> j" "j \<le> m" "0 < j"
    using o n by (auto simp: set_pv_rv_def)
  have m: "etcd_rev ?e \<le> m" "m \<le> Suc (etcd_rev ?e)" using o by auto
  have c: "cache_inv pv_key (ct_volumes s)" using inv by (simp add: ctrl_inv_def pv_index_inv_def)
  have so: "storeObjectUpdate pv_ResourceVersion (ct_volumes s) out = (fst (cache_Add (ct_volumes s) out), Inr True)"
    using store_newer [OF c, of out v pv_ResourceVersion n j] ca n(1) j name m lim by simp
  let ?s = "s\<lparr>ct_world := ?e\<lparr>etcd_pvs := t, etcd_rev := m\<rparr>, ct_volumes := fst (cache_Add (ct_volumes s) out)\<rparr>"
  have "ctrl_inv {} ?s" using inv by (simp add: ctrl_inv_def pv_index_inv_Add)
  moreover have "pv_synced out ?s"
    using j t v'(1) name cs.get_put [OF c, of out] by (auto simp: pv_synced_def)
  moreover have "\<exists>r. out = set_pv_rv r (prep v' v)" using o by metis
  ultimately show ?thesis
    using m lim by (simp add: go_wp outcome_storeVolumeUpdate upd put_pv_def u so room_def)
qed

lemma save_pvc_synced:
  assumes inv: "ctrl_inv {} s" and c: "pvc_synced c s" and k: "room (Suc k) s"
    and nm: "\<And>r. claimToClaimKey (set_pvc_rv r (prep c' c)) = claimToClaimKey c"
      "\<And>r. pvc_key (set_pvc_rv r (prep c' c)) = pvc_key c"
    and c': "claimToClaimKey c' = claimToClaimKey c" "pvc_ResourceVersion c' = pvc_ResourceVersion c"
    and acc: "val (prep c' c) c = None"
    and upd: "\<And>e. upd e = put_pvc e (registry_Update pvc_ResourceVersion set_pvc_rv prep val (claimToClaimKey c') c' (etcd_pvcs e) (etcd_rev e))"
  shows "outcome (and_then (api upd) (\<lambda>out. and_then (storeClaimUpdate out) (\<lambda>_. ret out))) s
    (\<lambda>s' out. ctrl_inv {} s' \<and> pvc_synced out s' \<and> room k s' \<and> (\<exists>r. out = set_pvc_rv r (prep c' c)) \<and>
       ct_volumes s' = ct_volumes s \<and> etcd_pvs (ct_world s') = etcd_pvs (ct_world s) \<and>
       etcd_rev (ct_world s) \<le> etcd_rev (ct_world s'))
    (\<lambda>_ _. False)"
proof -
  let ?e = "ct_world s"
  obtain n where n: "pvc_ResourceVersion c = show_nat n" "0 < n" "n \<le> etcd_rev ?e"
    and st: "mget (etcd_pvcs ?e) (claimToClaimKey c) = Some c" and ca: "cache_GetByKey (ct_claims s) (pvc_key c) = Some c"
    using c by (auto simp: pvc_synced_def)
  have lim: "etcd_rev ?e + Suc k < 2 ^ 63" using k by (simp add: room_def)
  obtain t m out where u: "registry_Update pvc_ResourceVersion set_pvc_rv prep val (claimToClaimKey c') c' (etcd_pvcs ?e) (etcd_rev ?e) = ((t, m), Inr out)"
    and t: "mget t = (mget (etcd_pvcs ?e))(claimToClaimKey c' \<mapsto> out)"
    and o: "m = etcd_rev ?e \<and> out = c \<and> set_pvc_rv (pvc_ResourceVersion c) (prep c' c) = c \<or>
            m = Suc (etcd_rev ?e) \<and> out = set_pvc_rv (show_nat (Suc (etcd_rev ?e))) (prep c' c)"
    by (rule registry_Update_current [where rv = pvc_ResourceVersion and existing = c and obj = c' and k = n
          and key = "claimToClaimKey c'" and tbl = "etcd_pvcs ?e" and val = val and prep = prep and n = "etcd_rev ?e" and set_rv = set_pvc_rv])
      (use st n c' acc lim in auto)
  have name: "claimToClaimKey out = claimToClaimKey c" "pvc_key out = pvc_key c" using o nm by auto
  obtain j where j: "pvc_ResourceVersion out = show_nat j" "n \<le> j" "j \<le> m" "0 < j"
    using o n by (auto simp: set_pvc_rv_def)
  have m: "etcd_rev ?e \<le> m" "m \<le> Suc (etcd_rev ?e)" using o by auto
  have ci: "cache_inv pvc_key (ct_claims s)" using inv by (simp add: ctrl_inv_def)
  have so: "storeObjectUpdate pvc_ResourceVersion (ct_claims s) out = (fst (cache_Add (ct_claims s) out), Inr True)"
    using store_newer [OF ci, of out c pvc_ResourceVersion n j] ca n(1) j name m lim by simp
  let ?s = "s\<lparr>ct_world := ?e\<lparr>etcd_pvcs := t, etcd_rev := m\<rparr>, ct_claims := fst (cache_Add (ct_claims s) out)\<rparr>"
  have "ctrl_inv {} ?s" using inv cs.inv_put [OF ci, of out] by (simp add: ctrl_inv_def)
  moreover have "pvc_synced out ?s"
    using j t c'(1) name cs.get_put [OF ci, of out] by (auto simp: pvc_synced_def)
  moreover have "\<exists>r. out = set_pvc_rv r (prep c' c)" using o by metis
  ultimately show ?thesis
    using m lim by (simp add: go_wp outcome_storeClaimUpdate upd put_pvc_def u so room_def)
qed

definition ref_to :: "PersistentVolumeClaim \<Rightarrow> ObjectReference" where
  "ref_to c = \<lparr>ref_Namespace = pvc_Namespace c, ref_Name = pvc_Name c, ref_UID = pvc_UID c\<rparr>"

definition bound_pair :: "PersistentVolume \<Rightarrow> PersistentVolumeClaim \<Rightarrow> bool" where
  "bound_pair v c \<longleftrightarrow>
     pv_ClaimRef v = Some (ref_to c) \<and> pv_Phase v = VolumeBound \<and>
     pvc_VolumeName c = pv_Name v \<and> HasAnnotation (pvc_Annotations c) annBindCompleted \<and>
     pvc_Phase c = ClaimBound \<and> pvc_StatusAccessModes c = pv_AccessModes v \<and>
     pvc_StatusCapacity c = pv_Capacity v \<and> pv_Capacity v \<noteq> None"

definition bind_state :: "nat \<Rightarrow> PersistentVolume \<Rightarrow> PersistentVolumeClaim \<Rightarrow> etcd pv_state \<Rightarrow> bool" where
  "bind_state k v c s \<longleftrightarrow> ctrl_inv {} s \<and> pv_synced v s \<and> pvc_synced c s \<and> room k s"

lemma bind_state_weaken: "bind_state (Suc k) v c s \<Longrightarrow> bind_state k v c s"
  by (simp add: bind_state_def room_def)

lemma pvc_synced_frame:
  "pvc_synced c s \<Longrightarrow> ct_claims s' = ct_claims s \<Longrightarrow> etcd_pvcs (ct_world s') = etcd_pvcs (ct_world s) \<Longrightarrow>
   etcd_rev (ct_world s) \<le> etcd_rev (ct_world s') \<Longrightarrow> pvc_synced c s'"
  by (auto simp: pvc_synced_def intro: le_trans)

lemma pv_synced_frame:
  "pv_synced v s \<Longrightarrow> ct_volumes s' = ct_volumes s \<Longrightarrow> etcd_pvs (ct_world s') = etcd_pvs (ct_world s) \<Longrightarrow>
   etcd_rev (ct_world s) \<le> etcd_rev (ct_world s') \<Longrightarrow> pv_synced v s'"
  by (auto simp: pv_synced_def intro: le_trans)

text \<open>Saving the volume, or the claim, while the other object stays in sync.\<close>

lemma save_volume_step:
  assumes "bind_state (Suc k) v c s" and "accepts_all ar"
    and "pv_Name v' = pv_Name v" and "pv_ResourceVersion v' = pv_ResourceVersion v"
  shows "outcome (and_then (api (etcd_UpdatePV ar v')) (\<lambda>out. and_then (storeVolumeUpdate out) (\<lambda>_. ret out))) s
      (\<lambda>s' out. bind_state k out c s' \<and> (\<exists>r. out = set_pv_rv r (pv_PrepareForUpdate v' v))) (\<lambda>_ _. False)"
    and "outcome (and_then (api (etcd_UpdatePVStatus ar v')) (\<lambda>out. and_then (storeVolumeUpdate out) (\<lambda>_. ret out))) s
      (\<lambda>s' out. bind_state k out c s' \<and> (\<exists>r. out = set_pv_rv r (pv_StatusPrepareForUpdate v' v))) (\<lambda>_ _. False)"
proof -
  have b: "ctrl_inv {} s" "pv_synced v s" "room (Suc k) s" "pvc_synced c s"
    using assms(1) by (simp_all add: bind_state_def)
  have a: "ar_validatePVUpdate ar x y = None" for x y using assms(2) by (simp add: accepts_all_def)
  note sv = save_pv_synced [OF b(1-3) _ assms(3,4) a]
  show "outcome (and_then (api (etcd_UpdatePV ar v')) (\<lambda>out. and_then (storeVolumeUpdate out) (\<lambda>_. ret out))) s
      (\<lambda>s' out. bind_state k out c s' \<and> (\<exists>r. out = set_pv_rv r (pv_PrepareForUpdate v' v))) (\<lambda>_ _. False)"
    by (rule outcome_mono [OF sv [where prep = pv_PrepareForUpdate]])
      (auto simp: etcd_UpdatePV_def strategies_keep_name assms(3) bind_state_def intro: pvc_synced_frame [OF b(4)])
  show "outcome (and_then (api (etcd_UpdatePVStatus ar v')) (\<lambda>out. and_then (storeVolumeUpdate out) (\<lambda>_. ret out))) s
      (\<lambda>s' out. bind_state k out c s' \<and> (\<exists>r. out = set_pv_rv r (pv_StatusPrepareForUpdate v' v))) (\<lambda>_ _. False)"
    by (rule outcome_mono [OF sv [where prep = pv_StatusPrepareForUpdate]])
      (auto simp: etcd_UpdatePVStatus_def strategies_keep_name assms(3) bind_state_def intro: pvc_synced_frame [OF b(4)])
qed

lemma pvc_key_strategies:
  "pvc_key (set_pvc_rv r (pvc_PrepareForUpdate c d)) = pvc_key c"
  "pvc_key (set_pvc_rv r (pvc_StatusPrepareForUpdate c d)) = pvc_key c"
  by (simp_all add: pvc_key_def set_pvc_rv_def pvc_PrepareForUpdate_def pvc_StatusPrepareForUpdate_def)

lemma save_claim_step:
  assumes "bind_state (Suc k) v c s" and "accepts_all ar"
    and "claimToClaimKey c' = claimToClaimKey c" "pvc_key c' = pvc_key c" and "pvc_ResourceVersion c' = pvc_ResourceVersion c"
  shows "outcome (and_then (api (etcd_UpdatePVC ar c')) (\<lambda>out. and_then (storeClaimUpdate out) (\<lambda>_. ret out))) s
      (\<lambda>s' out. bind_state k v out s' \<and> (\<exists>r. out = set_pvc_rv r (pvc_PrepareForUpdate c' c))) (\<lambda>_ _. False)"
    and "outcome (and_then (api (etcd_UpdatePVCStatus ar c')) (\<lambda>out. and_then (storeClaimUpdate out) (\<lambda>_. ret out))) s
      (\<lambda>s' out. bind_state k v out s' \<and> (\<exists>r. out = set_pvc_rv r (pvc_StatusPrepareForUpdate c' c))) (\<lambda>_ _. False)"
proof -
  have b: "ctrl_inv {} s" "pvc_synced c s" "room (Suc k) s" "pv_synced v s"
    using assms(1) by (simp_all add: bind_state_def)
  have a: "ar_validatePVC ar x y = None" for x y using assms(2) by (simp add: accepts_all_def)
  note sv = save_pvc_synced [OF b(1-3) _ _ assms(3,5) a]
  show "outcome (and_then (api (etcd_UpdatePVC ar c')) (\<lambda>out. and_then (storeClaimUpdate out) (\<lambda>_. ret out))) s
      (\<lambda>s' out. bind_state k v out s' \<and> (\<exists>r. out = set_pvc_rv r (pvc_PrepareForUpdate c' c))) (\<lambda>_ _. False)"
    by (rule outcome_mono [OF sv [where prep = pvc_PrepareForUpdate]])
      (auto simp: etcd_UpdatePVC_def strategies_keep_name pvc_key_strategies assms(3,4) bind_state_def
        intro: pv_synced_frame [OF b(4)])
  show "outcome (and_then (api (etcd_UpdatePVCStatus ar c')) (\<lambda>out. and_then (storeClaimUpdate out) (\<lambda>_. ret out))) s
      (\<lambda>s' out. bind_state k v out s' \<and> (\<exists>r. out = set_pvc_rv r (pvc_StatusPrepareForUpdate c' c))) (\<lambda>_ _. False)"
    by (rule outcome_mono [OF sv [where prep = pvc_StatusPrepareForUpdate]])
      (auto simp: etcd_UpdatePVCStatus_def strategies_keep_name pvc_key_strategies assms(3,4) bind_state_def
        intro: pv_synced_frame [OF b(4)])
qed

text \<open>The four writes of \<open>bind\<close>.\<close>

lemma HasAnnotation_Set: "HasAnnotation (SetMetaDataAnnotation a k x) j \<longleftrightarrow> j = k \<or> HasAnnotation a j"
  by (auto simp: HasAnnotation_def SetMetaDataAnnotation_def)

lemma GetReference_ref_to: "\<not> isl (GetReference c) \<Longrightarrow> GetReference c = Inr (ref_to c)"
  by (auto simp: GetReference_def ref_to_def Let_def split: if_splits)

lemma bindVolumeToClaim_step:
  assumes "pc_kubeClient cf = etcd_client ar" and "accepts_all ar" and b: "bind_state (Suc k) v c s"
    and "\<not> isl (GetReference c)"
  shows "outcome (bindVolumeToClaim cf v c) s
      (\<lambda>s' v'. bind_state k v' c s' \<and> pv_ClaimRef v' = Some (ref_to c) \<and> pv_Name v' = pv_Name v \<and>
         pv_Capacity v' = pv_Capacity v \<and> pv_AccessModes v' = pv_AccessModes v) (\<lambda>_ _. False)"
proof -
  have w: "outcome (and_then (api (etcd_UpdatePV ar v')) (\<lambda>out. and_then (storeVolumeUpdate out) (\<lambda>_. ret out))) s
      (\<lambda>s' v'. bind_state k v' c s' \<and> pv_ClaimRef v' = Some (ref_to c) \<and> pv_Name v' = pv_Name v \<and>
         pv_Capacity v' = pv_Capacity v \<and> pv_AccessModes v' = pv_AccessModes v) (\<lambda>_ _. False)"
    if "pv_ClaimRef v' = Some (ref_to c)" "pv_Name v' = pv_Name v" "pv_ResourceVersion v' = pv_ResourceVersion v"
      "pv_Capacity v' = pv_Capacity v" "pv_AccessModes v' = pv_AccessModes v" for v'
    by (rule outcome_mono [OF save_volume_step(1) [OF b assms(2) that(2,3)]])
      (auto simp: that set_pv_rv_def pv_PrepareForUpdate_def)
  have eq: "ref = ref_to c" if "ref_Name ref = pvc_Name c" "ref_Namespace ref = pvc_Namespace c" "ref_UID ref = pvc_UID c" for ref
    using that by (simp add: ref_to_def)
  show ?thesis
    using bind_state_weaken [OF b] eq
    by (auto simp: bindVolumeToClaim_def Let_def assms(1) GetReference_ref_to [OF assms(4)] go_simps outcome_ret
        split: option.split intro!: w)
qed

lemma updateVolumePhase_step:
  assumes "pc_kubeClient cf = etcd_client ar" and "accepts_all ar" and b: "bind_state (Suc k) v c s"
  shows "outcome (updateVolumePhase cf v ph msg) s
      (\<lambda>s' v'. bind_state k v' c s' \<and> pv_Phase v' = ph \<and> pv_ClaimRef v' = pv_ClaimRef v \<and> pv_Name v' = pv_Name v \<and>
         pv_Capacity v' = pv_Capacity v \<and> pv_AccessModes v' = pv_AccessModes v) (\<lambda>_ _. False)"
proof (cases "pv_Phase v = ph")
  case True
  then show ?thesis using bind_state_weaken [OF b] by (simp add: updateVolumePhase_def go_wp)
next
  case False
  have "outcome (and_then (api (etcd_UpdatePVStatus ar (v\<lparr>pv_Phase := ph, pv_Message := msg\<rparr>)))
      (\<lambda>out. and_then (storeVolumeUpdate out) (\<lambda>_. ret out))) s
      (\<lambda>s' v'. bind_state k v' c s' \<and> pv_Phase v' = ph \<and> pv_ClaimRef v' = pv_ClaimRef v \<and> pv_Name v' = pv_Name v \<and>
         pv_Capacity v' = pv_Capacity v \<and> pv_AccessModes v' = pv_AccessModes v) (\<lambda>_ _. False)"
    by (rule outcome_mono [OF save_volume_step(2) [OF b assms(2)]])
      (auto simp: set_pv_rv_def pv_StatusPrepareForUpdate_def)
  then show ?thesis using False assms(1) by (simp add: updateVolumePhase_def Let_def)
qed

lemma bindClaimToVolume_step:
  assumes "pc_kubeClient cf = etcd_client ar" and "accepts_all ar" and b: "bind_state (Suc k) v c s"
  shows "outcome (bindClaimToVolume cf c v) s
      (\<lambda>s' c'. bind_state k v c' s' \<and> ref_to c' = ref_to c \<and> pvc_VolumeName c' = pv_Name v \<and>
         HasAnnotation (pvc_Annotations c') annBindCompleted) (\<lambda>_ _. False)"
proof -
  have w: "outcome (and_then (api (etcd_UpdatePVC ar c')) (\<lambda>out. and_then (storeClaimUpdate out) (\<lambda>_. ret out))) s
      (\<lambda>s' c'. bind_state k v c' s' \<and> ref_to c' = ref_to c \<and> pvc_VolumeName c' = pv_Name v \<and>
         HasAnnotation (pvc_Annotations c') annBindCompleted) (\<lambda>_ _. False)"
    if "ref_to c' = ref_to c" "pvc_ResourceVersion c' = pvc_ResourceVersion c" "pvc_VolumeName c' = pv_Name v"
      "HasAnnotation (pvc_Annotations c') annBindCompleted" for c'
    by (rule outcome_mono [OF save_claim_step(1) [OF b assms(2)]])
      (use that in \<open>auto simp: ref_to_def claimToClaimKey_def pvc_key_def set_pvc_rv_def pvc_PrepareForUpdate_def\<close>)
  have sv: "outcome (and_then (api (etcd_UpdatePVC ar (c\<lparr>pvc_VolumeName := pv_Name v, pvc_Annotations := a\<rparr>)))
      (\<lambda>out. and_then (storeClaimUpdate out) (\<lambda>_. ret out))) s
      (\<lambda>s' c'. bind_state k v c' s' \<and> ref_to c' = ref_to c \<and> pvc_VolumeName c' = pv_Name v \<and>
         HasAnnotation (pvc_Annotations c') annBindCompleted) (\<lambda>_ _. False)"
    if "HasAnnotation a annBindCompleted" for a
    by (rule w) (simp_all add: that ref_to_def)
  show ?thesis
  proof (cases "pvc_VolumeName c = pv_Name v")
    case True
    then have "c\<lparr>pvc_VolumeName := pv_Name v\<rparr> = c" by simp
    then show ?thesis
      using bind_state_weaken [OF b] True sv [of "SetMetaDataAnnotation (pvc_Annotations c) annBindCompleted ''yes''"]
      by (simp add: bindClaimToVolume_def Let_def assms(1) outcome_ret HasAnnotation_Set)
  next
    case False
    have "annBindCompleted \<noteq> annBoundByController" by (simp add: annBindCompleted_def annBoundByController_def)
    then show ?thesis
      using False sv [of "pvc_Annotations c"]
      by (auto simp: bindClaimToVolume_def Let_def assms(1) HasAnnotation_Set intro!: sv)
  qed
qed

lemma updateClaimStatus_step:
  assumes "pc_kubeClient cf = etcd_client ar" and "accepts_all ar" and b: "bind_state (Suc k) v c s"
    and "pv_Capacity v = Some q"
  shows "outcome (updateClaimStatus cf c ph (Some v)) s
      (\<lambda>s' c'. bind_state k v c' s' \<and> ref_to c' = ref_to c \<and> pvc_VolumeName c' = pvc_VolumeName c \<and>
         pvc_Annotations c' = pvc_Annotations c \<and> pvc_Phase c' = ph \<and>
         pvc_StatusAccessModes c' = pv_AccessModes v \<and> pvc_StatusCapacity c' = Some q) (\<lambda>_ _. False)"
proof -
  let ?c = "c\<lparr>pvc_Phase := ph, pvc_StatusAccessModes := pv_AccessModes v, pvc_StatusCapacity := Some q\<rparr>"
  have "outcome (and_then (api (etcd_UpdatePVCStatus ar ?c)) (\<lambda>out. and_then (storeClaimUpdate out) (\<lambda>_. ret out))) s
      (\<lambda>s' c'. bind_state k v c' s' \<and> ref_to c' = ref_to c \<and> pvc_VolumeName c' = pvc_VolumeName c \<and>
         pvc_Annotations c' = pvc_Annotations c \<and> pvc_Phase c' = ph \<and>
         pvc_StatusAccessModes c' = pv_AccessModes v \<and> pvc_StatusCapacity c' = Some q) (\<lambda>_ _. False)"
    by (rule outcome_mono [OF save_claim_step(2) [OF b assms(2)]])
      (auto simp: ref_to_def claimToClaimKey_def pvc_key_def set_pvc_rv_def pvc_StatusPrepareForUpdate_def)
  then show ?thesis
    using bind_state_weaken [OF b]
    by (auto simp: updateClaimStatus_def Let_def assms(1,4) outcome_ret)
qed

lemma bind_volume_binds:
  assumes cf: "pc_kubeClient cf = etcd_client ar" "accepts_all ar" and b: "bind_state 4 v c s"
    and r: "\<not> isl (GetReference c)" and q: "pv_Capacity v = Some q"
  shows "outcome (bind_volume cf v c) s
      (\<lambda>s' _. \<exists>v' c'. bind_state 0 v' c' s' \<and> bound_pair v' c' \<and> pv_Name v' = pv_Name v \<and> ref_to c' = ref_to c) (\<lambda>_ _. False)"
  unfolding bind_volume_def go_wp
proof (rule outcome_mono [OF bindVolumeToClaim_step [OF cf, of 3 v c s]], simp_all add: b r, elim conjE)
  fix s1 v1
  assume v1: "bind_state 3 v1 c s1" "pv_ClaimRef v1 = Some (ref_to c)" "pv_Name v1 = pv_Name v"
    "pv_Capacity v1 = pv_Capacity v" "pv_AccessModes v1 = pv_AccessModes v"
  have s3: "outcome (updateClaimStatus cf c3 ClaimBound (Some v2)) s3
      (\<lambda>s' _. \<exists>v' c'. bind_state 0 v' c' s' \<and> bound_pair v' c' \<and> pv_Name v' = pv_Name v \<and> ref_to c' = ref_to c) (\<lambda>_ _. False)"
    if "bind_state 1 v2 c3 s3" "ref_to c3 = ref_to c" "pvc_VolumeName c3 = pv_Name v2"
      "HasAnnotation (pvc_Annotations c3) annBindCompleted" "pv_Phase v2 = VolumeBound" "pv_ClaimRef v2 = pv_ClaimRef v1"
      "pv_Name v2 = pv_Name v1" "pv_Capacity v2 = pv_Capacity v1" for s3 c3 v2
    by (rule outcome_mono [OF updateClaimStatus_step [OF cf, of 0 v2 c3 s3 q]])
      (use that v1 q in \<open>auto simp: bound_pair_def intro!: exI [of _ v2]\<close>)
  show "outcome (updateVolumePhase cf v1 VolumeBound []) s1
      (\<lambda>s' a. outcome (bindClaimToVolume cf c a) s' (\<lambda>s' aa. outcome (updateClaimStatus cf aa ClaimBound (Some a)) s'
      (\<lambda>s' _. \<exists>v' c'. bind_state 0 v' c' s' \<and> bound_pair v' c' \<and> pv_Name v' = pv_Name v \<and> ref_to c' = ref_to c)
      (\<lambda>_ _. False)) (\<lambda>_ _. False)) (\<lambda>_ _. False)"
  proof (rule outcome_mono [OF updateVolumePhase_step [OF cf, of 2 v1 c s1]], simp_all add: v1(1), elim conjE)
    fix s2 v2
    assume v2: "bind_state 2 v2 c s2" "pv_Phase v2 = VolumeBound" "pv_ClaimRef v2 = pv_ClaimRef v1"
      "pv_Name v2 = pv_Name v1" "pv_Capacity v2 = pv_Capacity v1" "pv_AccessModes v2 = pv_AccessModes v1"
    show "outcome (bindClaimToVolume cf c v2) s2 (\<lambda>s' aa. outcome (updateClaimStatus cf aa ClaimBound (Some v2)) s'
      (\<lambda>s' _. \<exists>v' c'. bind_state 0 v' c' s' \<and> bound_pair v' c' \<and> pv_Name v' = pv_Name v \<and> ref_to c' = ref_to c)
      (\<lambda>_ _. False)) (\<lambda>_ _. False)"
      by (rule outcome_mono [OF bindClaimToVolume_step [OF cf, of 1 v2 c s2]])
        (use v2 in \<open>auto intro!: s3 simp: numeral_2_eq_2\<close>)
  qed
qed

text \<open>The controller has caught up: all it has cached is what the API server stores.\<close>

definition caught_up :: "PersistentVolumeClaim \<Rightarrow> etcd pv_state \<Rightarrow> bool" where
  "caught_up c s \<longleftrightarrow>
     ctrl_inv {} s \<and> pvc_synced c s \<and> room 4 s \<and>
     (\<forall>v \<in> set (cache_List (ct_volumes s)). pv_synced v s \<and> pv_Capacity v \<noteq> None)"


section \<open>A bound pair is left alone\<close>

lemma bind_volume_bound:
  assumes "bound_pair v c"
  shows "bind_volume cf v c s = Some (s, Inr ())"
proof -
  have "bindVolumeToClaim cf v c = ret v"
    using assms by (simp add: bindVolumeToClaim_def Let_def bound_pair_def ref_to_def isVolumeBoundToClaim_def go_simps)
  moreover have "updateVolumePhase cf v VolumeBound [] = ret v"
    using assms by (simp add: updateVolumePhase_def bound_pair_def)
  moreover have "bindClaimToVolume cf c v = ret c"
    using assms by (simp add: bindClaimToVolume_def Let_def bound_pair_def)
  moreover have "updateClaimStatus cf c ClaimBound (Some v) = ret c"
    using assms by (auto simp: updateClaimStatus_def Let_def bound_pair_def)
  ultimately show ?thesis by (simp add: bind_volume_def and_then_def ret_def)
qed

text \<open>
  C9: Once a volume and a claim are bound to each other, synchronising either of them, from caches that
  hold them, succeeds and changes nothing at all: no request to the API server, no event, no queue entry,
  no background operation, whatever the API client and the plugins are.
\<close>

theorem bound_pair_left_alone:
  assumes "bound_pair v c" and "cache_GetByKey (ct_volumes s) (pv_Name v) = Some v"
    and "cache_GetByKey (ct_claims s) (pvc_Namespace c @ ''/'' @ pvc_Name c) = Some c"
    and "pv_Name v \<noteq> []" and "pvc_UID c \<noteq> []"
  shows "syncClaim cf c s = Some (s, Inr ()) \<and> syncVolume cf v s = Some (s, Inr ())"
proof
  show "syncClaim cf c s = Some (s, Inr ())"
    using assms bind_volume_bound [OF assms(1), of cf s]
    by (auto simp: syncClaim_def syncBoundClaim_def Let_def gets_def bound_pair_def ref_to_def)
  show "syncVolume cf v s = Some (s, Inr ())"
    using assms
    by (simp add: syncVolume_def bound_pair_def ref_to_def gets_def Let_def claimrefToClaimKey_def
        updateVolumePhase_def and_then_def ret_def)
qed

section \<open>Examples\<close>

text \<open>An API server that accepts every object, a controller without plugins, and one that has caught up.\<close>

definition sample_rules :: api_rules where
  "sample_rules =
     \<lparr>ar_validatePV = (\<lambda>_. None), ar_validatePVUpdate = (\<lambda>_ _. None), ar_validatePVC = (\<lambda>_ _. None),
      ar_newUID = (\<lambda>n. ''uid-'' @ show_nat n)\<rparr>"

definition sample_config :: "etcd pv_config" where
  "sample_config =
     \<lparr>pc_kubeClient = etcd_client sample_rules, pc_plugins = [], pc_enableDynamicProvisioning = True,
      pc_clusterName = ''kubernetes'', pc_createProvisionedPVRetryCount = 5, pc_alphaProvisioner = None\<rparr>"

definition sample_controller :: "PersistentVolume list \<Rightarrow> PersistentVolumeClaim list \<Rightarrow> etcd pv_state" where
  "sample_controller vs cs =
     (NewController \<lparr>etcd_pvs = map (\<lambda>v. (pv_Name v, v)) vs, etcd_pvcs = map (\<lambda>c. (claimToClaimKey c, c)) cs, etcd_rev = 1\<rparr>)
       \<lparr>ct_volumes := fold (\<lambda>v idx. fst (cache_Add idx v)) vs newPersistentVolumeOrderedIndex,
        ct_claims := fold (\<lambda>c st. fst (cache_Add st c)) cs (NewStore (Inr \<circ> pvc_key))\<rparr>"

lemma sample_controller_inv: "ctrl_inv {} (sample_controller vs cs)"
proof -
  have "pv_index_inv (fold (\<lambda>v idx. fst (cache_Add idx v)) vs idx)" if "pv_index_inv idx" for idx
    using that by (induction vs arbitrary: idx) (simp_all add: pv_index_inv_Add)
  moreover have "cache_inv pvc_key (fold (\<lambda>c st. fst (cache_Add st c)) cs st)" if "cache_inv pvc_key st" for st
    using that by (induction cs arbitrary: st) (simp_all add: cs.inv_put)
  ultimately show ?thesis
    by (simp add: ctrl_inv_def sample_controller_def NewController_def pv_index_inv_New cache_inv_NewStore)
qed

lemma sample_cached:
  "cache_GetByKey (ct_volumes (sample_controller vs cs)) name = Some v \<Longrightarrow> v \<in> set vs \<and> pv_Name v = name"
proof -
  have "v \<in> set vs \<or> cache_GetByKey idx name = Some v"
    if "pv_index_inv idx" "cache_GetByKey (fold (\<lambda>v idx. fst (cache_Add idx v)) vs idx) name = Some v" for idx
    using that
  proof (induction vs arbitrary: idx)
    case (Cons x vs)
    from Cons.prems(2) have "cache_GetByKey (fold (\<lambda>v idx. fst (cache_Add idx v)) vs (fst (cache_Add idx x))) name = Some v"
      by simp
    from Cons.IH [OF pv_index_inv_Add [OF Cons.prems(1)] this] Cons.prems(1) show ?case
      using cs.get_put [of pv_key idx x name] by (auto simp: pv_index_inv_def split: if_splits)
  qed simp
  moreover assume *: "cache_GetByKey (ct_volumes (sample_controller vs cs)) name = Some v"
  moreover have "cache_GetByKey newPersistentVolumeOrderedIndex name = None"
    by (simp add: newPersistentVolumeOrderedIndex_def NewIndexer_def NewThreadSafeStore_def cache_GetByKey_def tsm_Get_def)
  moreover have "cache_inv pv_key (ct_volumes (sample_controller vs cs))"
    using sample_controller_inv [of vs cs] by (simp add: ctrl_inv_def pv_index_inv_def)
  from cache_GetByKey_key [OF this *] have "pv_Name v = name" by simp
  ultimately show ?thesis using pv_index_inv_New by (force simp: sample_controller_def)
qed

lemma sample_config_rules: "pc_kubeClient sample_config = etcd_client sample_rules" "accepts_all sample_rules"
  by (simp_all add: sample_config_def sample_rules_def accepts_all_def)

theorem no_volume_stolen_witness:
  "let v = sample_pv ''v'' [ReadWriteOnce] 9 (Some \<lparr>ref_Namespace = ''ns'', ref_Name = ''other'', ref_UID = ''u''\<rparr>);
       c = (sample_pvc ''c'' [ReadWriteOnce] 5)\<lparr>pvc_VolumeName := ''v''\<rparr>
   in foreign c v \<and>
      (\<exists>s' r. syncClaim sample_config c (sample_controller [v] [c]) = Some (s', r) \<and> mget (etcd_pvs (ct_world s')) ''v'' = Some v)"
proof -
  define v where "v = sample_pv ''v'' [ReadWriteOnce] 9 (Some \<lparr>ref_Namespace = ''ns'', ref_Name = ''other'', ref_UID = ''u''\<rparr>)"
  define c where "c = (sample_pvc ''c'' [ReadWriteOnce] 5)\<lparr>pvc_VolumeName := ''v''\<rparr>"
  let ?s = "sample_controller [v] [c]"
  have n: "pv_Name v = ''v''" "pv_ResourceVersion v = show_nat 1" unfolding v_def by code_simp+
  then have "ObjectResourceVersion (pv_ResourceVersion v) = Inr 1" using ObjectResourceVersion_show [of 1] by simp
  moreover have st: "mget (etcd_pvs (ct_world ?s)) ''v'' = Some v"
    using n by (simp add: sample_controller_def NewController_def)
  moreover have f: "foreign c v"
    by (simp add: v_def c_def foreign_def isVolumeBoundToClaim_def sample_pv_def sample_pvc_def)
  ultimately have ci: "cache_issued ?s"
    unfolding cache_issued_def using sample_cached [of "[v]" "[c]"] n(1) by (intro allI impI conjI) (force, force)
  show ?thesis
    using no_volume_stolen [OF sample_config_rules(1) sample_controller_inv ci st f] f
    unfolding v_def [symmetric] c_def [symmetric] by (simp add: Let_def)
qed


theorem bound_pair_left_alone_witness:
  "let c = (sample_pvc ''c'' [ReadWriteOnce] 5)\<lparr>pvc_VolumeName := ''v'', pvc_Annotations := [(annBindCompleted, ''yes'')],
         pvc_Phase := ClaimBound, pvc_StatusAccessModes := [ReadWriteOnce], pvc_StatusCapacity := Some 9\<rparr>;
       v = (sample_pv ''v'' [ReadWriteOnce] 9 (Some (ref_to c)))\<lparr>pv_Phase := VolumeBound\<rparr>;
       s = sample_controller [v] [c]
   in bound_pair v c \<and> syncClaim sample_config c s = Some (s, Inr ()) \<and> syncVolume sample_config v s = Some (s, Inr ())"
proof -
  define c where "c = (sample_pvc ''c'' [ReadWriteOnce] 5)\<lparr>pvc_VolumeName := ''v'', pvc_Annotations := [(annBindCompleted, ''yes'')],
         pvc_Phase := ClaimBound, pvc_StatusAccessModes := [ReadWriteOnce], pvc_StatusCapacity := Some 9\<rparr>"
  define v where "v = (sample_pv ''v'' [ReadWriteOnce] 9 (Some (ref_to c)))\<lparr>pv_Phase := VolumeBound\<rparr>"
  let ?s = "sample_controller [v] [c]"
  have b: "bound_pair v c" and l: "cache_GetByKey (ct_volumes ?s) (pv_Name v) = Some v"
      "cache_GetByKey (ct_claims ?s) (pvc_Namespace c @ ''/'' @ pvc_Name c) = Some c" "pv_Name v \<noteq> []" "pvc_UID c \<noteq> []"
    unfolding v_def c_def by code_simp+
  from bound_pair_left_alone [OF b l] b show ?thesis
    unfolding c_def [symmetric] by (simp add: Let_def v_def)
qed

end
