(* ===== verification/PV_Reclaim.thy ===== *)
theory PV_Reclaim
  imports PV_Convergence
begin

text \<open>
  Reclaiming and provisioning volumes: a volume in use is never recycled or deleted, a released one is
  deleted together with its object, a claim gets one provisioned volume that is bound to it, and what
  happens when the object of a provisioned volume cannot be saved.
\<close>

section \<open>Volumes in use\<close>

lemma etcd_GetPV:
  "api (kc_GetPV (etcd_client ar) name) s =
   Some (s, case mget (etcd_pvs (ct_world s)) name of Some v \<Rightarrow> Inr v | None \<Rightarrow> Inl (NotFoundError name))"
  by (simp add: api_def etcd_client_def)

lemma in_use_not_released:
  assumes "pv_ClaimRef v = Some ref" and "cache_GetByKey claims (claimrefToClaimKey ref) = Some c"
    and "pvc_UID c = ref_UID ref" and "pvc_VolumeName c = [] \<or> pvc_VolumeName c = pv_Name v"
  shows "\<not> isVolumeReleased claims v"
  using assms by (auto simp: isVolumeReleased_def)

text \<open>
  C15: However old the copy of the volume is that a reclaim operation was started with: as long as the
  stored volume refers to a claim that exists and does not name another volume, deleting and recycling
  the volume change nothing. The deleter and the recycler of the plugin are not called.
\<close>

theorem volume_in_use_not_reclaimed:
  assumes "pc_kubeClient cf = etcd_client ar" and "mget (etcd_pvs (ct_world s)) (pv_Name old) = Some v"
    and "pv_ClaimRef v = Some ref" and "cache_GetByKey (ct_claims s) (claimrefToClaimKey ref) = Some c"
    and "pvc_UID c = ref_UID ref" and "pvc_VolumeName c = [] \<or> pvc_VolumeName c = pv_Name v"
  shows "deleteVolumeOperation cf old s = Some (s, Inr ()) \<and> recycleVolumeOperation cf old s = Some (s, Inr ())"
  using assms(1,2) in_use_not_released [OF assms(3-6)]
  by (simp add: deleteVolumeOperation_def recycleVolumeOperation_def on_result_def etcd_GetPV gets_def ret_def)

theorem volume_in_use_not_reclaimed_witness:
  "let c = (sample_pvc ''c'' [ReadWriteOnce] 5)\<lparr>pvc_VolumeName := ''v''\<rparr>;
       v = (sample_pv ''v'' [ReadWriteOnce] 9 (Some (ref_to c)))\<lparr>pv_ReclaimPolicy := PersistentVolumeReclaimDelete\<rparr>;
       s = sample_controller [v] [c]
   in deleteVolumeOperation sample_config v s = Some (s, Inr ()) \<and> recycleVolumeOperation sample_config v s = Some (s, Inr ())"
proof -
  define c where "c = (sample_pvc ''c'' [ReadWriteOnce] 5)\<lparr>pvc_VolumeName := ''v''\<rparr>"
  define v where "v = (sample_pv ''v'' [ReadWriteOnce] 9 (Some (ref_to c)))\<lparr>pv_ReclaimPolicy := PersistentVolumeReclaimDelete\<rparr>"
  let ?s = "sample_controller [v] [c]"
  have h: "mget (etcd_pvs (ct_world ?s)) (pv_Name v) = Some v" "pv_ClaimRef v = Some (ref_to c)"
    "cache_GetByKey (ct_claims ?s) (claimrefToClaimKey (ref_to c)) = Some c" "pvc_UID c = ref_UID (ref_to c)"
    "pvc_VolumeName c = [] \<or> pvc_VolumeName c = pv_Name v"
    unfolding v_def c_def by code_simp+
  from volume_in_use_not_reclaimed [OF sample_config_rules(1) h] show ?thesis
    unfolding c_def [symmetric] by (simp add: Let_def v_def)
qed

section \<open>Released volumes\<close>

text \<open>The claim of the volume is gone, as far as the cache of claims tells.\<close>

definition claim_gone :: "PersistentVolume \<Rightarrow> 'w pv_state \<Rightarrow> bool" where
  "claim_gone v s \<longleftrightarrow>
     (case pv_ClaimRef v of
        None \<Rightarrow> False
      | Some ref \<Rightarrow> ref_UID ref \<noteq> [] \<and> cache_GetByKey (ct_claims s) (claimrefToClaimKey ref) = None)"

definition released_copy :: "string \<Rightarrow> PersistentVolume \<Rightarrow> PersistentVolume" where
  "released_copy r v = v\<lparr>pv_ResourceVersion := r, pv_Phase := VolumeReleased, pv_Message := []\<rparr>"

text \<open>A plugin that deletes the volume without an error.\<close>

definition deletes :: "etcd pv_config \<Rightarrow> PersistentVolume \<Rightarrow> etcd pv_plugin \<Rightarrow> bool" where
  "deletes cf v plugin \<longleftrightarrow>
     findDeletablePlugin cf v = Inr (Some plugin) \<and>
     pvp_NewDeleter plugin (NewSpecFromPersistentVolume v False) = None \<and>
     (\<forall>e. pvp_Delete plugin (NewSpecFromPersistentVolume v False) e = (e, None))"

lemma release_step:
  assumes "pc_kubeClient cf = etcd_client ar" and "accepts_all ar"
    and "ctrl_inv {} s" "pv_synced v s" "room 1 s" and "pv_Phase v = VolumeBound"
  obtains s' r where "updateVolumePhase cf v VolumeReleased [] s = Some (s', Inr (released_copy r v))"
    and "mget (etcd_pvs (ct_world s')) (pv_Name v) = Some (released_copy r v)"
    and "ct_claims s' = ct_claims s" "ct_goroutines s' = ct_goroutines s" "ct_runningOperations s' = ct_runningOperations s"
proof -
  let ?v = "v\<lparr>pv_Phase := VolumeReleased, pv_Message := []\<rparr>"
  let ?m = "and_then (api (etcd_UpdatePVStatus ar ?v)) (\<lambda>out. and_then (storeVolumeUpdate out) (\<lambda>_. ret out))"
  have o1: "outcome ?m s (\<lambda>s' out. pv_synced out s' \<and> (\<exists>r. out = set_pv_rv r (pv_StatusPrepareForUpdate ?v v)) \<and>
      ct_claims s' = ct_claims s) (\<lambda>_ _. False)"
    by (rule outcome_mono [OF save_pv_synced [OF assms(3,4), of 0 pv_StatusPrepareForUpdate ?v "ar_validatePVUpdate ar"]])
      (use assms(2,5) in \<open>auto simp: accepts_all_def etcd_UpdatePVStatus_def strategies_keep_name\<close>)
  have o2: "outcome ?m s
      (\<lambda>s' _. ct_goroutines s' = ct_goroutines s \<and> ct_runningOperations s' = ct_runningOperations s)
      (\<lambda>s' _. ct_goroutines s' = ct_goroutines s \<and> ct_runningOperations s' = ct_runningOperations s)"
    by (simp add: go_wp outcome_storeVolumeUpdate split: prod.split sum.split)
  have u: "updateVolumePhase cf v VolumeReleased [] = ?m"
    using assms(1,6) by (simp add: updateVolumePhase_def Let_def)
  have c: "set_pv_rv r (pv_StatusPrepareForUpdate ?v v) = released_copy r v" for r
    by (simp add: set_pv_rv_def pv_StatusPrepareForUpdate_def released_copy_def)
  obtain s' r where s': "?m s = Some (s', Inr (released_copy r v))"
    "pv_synced (released_copy r v) s'" "ct_claims s' = ct_claims s"
    "ct_goroutines s' = ct_goroutines s" "ct_runningOperations s' = ct_runningOperations s"
    using outcome_run [OF outcome_conj [OF o1 o2]] unfolding c by blast
  then show thesis using that [of s' r] unfolding u by (simp add: pv_synced_def released_copy_def)
qed

lemma scheduleOperation_fresh:
  assumes "mget (grm_operations (ct_runningOperations s)) n = None"
  obtains grm where "scheduleOperation n op s =
      Some (s\<lparr>ct_runningOperations := grm, ct_goroutines := ct_goroutines s @ [(n, op)]\<rparr>, Inr ())"
    and "grm_IsOperationPending grm n"
  using assms that
  by (auto simp: scheduleOperation_def modify_def grm_Run_def mhas_def Let_def grm_IsOperationPending_def)

lemma delete_released:
  assumes "pc_kubeClient cf = etcd_client ar" and "mget (etcd_pvs (ct_world s)) (pv_Name v) = Some v"
    and "claim_gone v s" and "deletes cf v plugin"
  shows "deleteVolumeOperation cf v s =
    Some (s\<lparr>ct_world := (ct_world s)\<lparr>etcd_pvs := mdel (pv_Name v) (etcd_pvs (ct_world s)), etcd_rev := Suc (etcd_rev (ct_world s))\<rparr>\<rparr>, Inr ())"
proof -
  have "isVolumeReleased (ct_claims s) v"
    using assms(3) by (auto simp: claim_gone_def isVolumeReleased_def split: option.splits)
  moreover have "doDeleteVolume cf v s = Some (s, Inr True)"
    using assms(4) by (simp add: doDeleteVolume_def deletes_def Let_def and_then_def api_err_def ret_def)
  moreover have "kc_DeletePV (etcd_client ar) (pv_Name v) (ct_world s) =
    ((ct_world s)\<lparr>etcd_pvs := mdel (pv_Name v) (etcd_pvs (ct_world s)), etcd_rev := Suc (etcd_rev (ct_world s))\<rparr>, None)"
    using assms(2) by (simp add: etcd_client_def mhas_def)
  ultimately show ?thesis
    using assms(1,2)
    by (simp add: deleteVolumeOperation_def on_result_def etcd_GetPV gets_def ret_def api_err_def)
qed


section \<open>Provisioning\<close>

definition provisions :: "api_rules \<Rightarrow> etcd pv_config \<Rightarrow> PersistentVolumeClaim \<Rightarrow> etcd pv_plugin \<Rightarrow> StorageClass \<Rightarrow> PersistentVolume \<Rightarrow> bool" where
  "provisions ar cf claim plugin sc vol \<longleftrightarrow>
     (\<forall>v. ar_validatePV ar v = None) \<and> pvp_NewProvisioner plugin (provision_options cf claim sc) = None \<and>
     (\<forall>e. pvp_Provision plugin (provision_options cf claim sc) e = (e, Inr vol)) \<and> pv_ResourceVersion vol = []"


section \<open>A provisioned volume that cannot be saved\<close>

text \<open>
  The clean-up loop ends after its first pass: the deletion has succeeded, or it has failed, and then
  \<open>deleted\<close> is false and the loop is left through the branch for external deleters.
\<close>

lemma cleanup_loop_once: "cleanup_loop cf volume (Suc n) = on_result (doDeleteVolume cf volume) (\<lambda>_. ret ())"
  by (intro ext) (simp add: on_result_def Let_def split: option.split sum.split)

text \<open>
  C39: When the object of a provisioned volume could not be saved, the controller makes exactly one attempt
  to delete the storage asset, whatever the retry count, and then reports that the clean-up has failed,
  also when that attempt was successful.
\<close>

theorem provision_cleanup_one_attempt:
  assumes "create_loop cf volume (pc_createProvisionedPVRetryCount cf) None s = Some (s1, Inr (Some err))"
    and "doDeleteVolume cf volume (s1\<lparr>ct_events := ct_events s1 @
           [\<lparr>ev_object = OnClaim (claimToClaimKey claim), ev_type = EventTypeWarning, ev_reason = ''ProvisioningFailed''\<rparr>]\<rparr>) = Some (s2, r)"
  shows "save_provisioned cf claim volume s =
    Some (s2\<lparr>ct_events := ct_events s2 @
      [\<lparr>ev_object = OnClaim (claimToClaimKey claim), ev_type = EventTypeWarning, ev_reason = ''ProvisioningCleanupFailed''\<rparr>]\<rparr>, Inr ())"
proof -
  obtain n where n: "pc_createProvisionedPVRetryCount cf = Suc n"
    using assms(1) by (cases "pc_createProvisionedPVRetryCount cf") (simp_all add: ret_def)
  show ?thesis
    using assms unfolding save_provisioned_def n cleanup_loop_once
    by (simp add: and_then_def on_result_def event_def modify_def ret_def)
qed

section \<open>Examples\<close>

text \<open>A plugin that supports, provisions and deletes every volume.\<close>

definition sample_provisioner :: "etcd pv_plugin" where
  "sample_provisioner =
     \<lparr>pl_GetPluginName = ''p'', pl_GetVolumeName = (\<lambda>_. Inr ''v''), pl_CanSupport = (\<lambda>_. True), pl_RequiresRemount = False,
      pl_Persistent = True, pl_Recyclable = False, pl_Deletable = True, pl_Provisionable = True, pl_Attachable = False,
      pvp_NewRecycler = (\<lambda>_ _. None), pvp_Recycle = (\<lambda>_ e. (e, [], None)), pvp_NewDeleter = (\<lambda>_. None),
      pvp_Delete = (\<lambda>_ e. (e, None)), pvp_NewProvisioner = (\<lambda>_. None),
      pvp_Provision = (\<lambda>_ e. (e, Inr ((sample_pv ''new'' [ReadWriteOnce] 9 None)\<lparr>pv_ResourceVersion := []\<rparr>)))\<rparr>"

definition plugin_config :: "api_rules \<Rightarrow> etcd pv_config" where
  "plugin_config ar = sample_config\<lparr>pc_kubeClient := etcd_client ar, pc_plugins := [(''p'', sample_provisioner)]\<rparr>"

lemma plugin_config_client: "pc_kubeClient (plugin_config ar) = etcd_client ar"
  by (simp add: plugin_config_def)



text \<open>An API server that refuses every new volume: the asset is deleted, and failure reported twice.\<close>

definition refusing_rules :: api_rules where
  "refusing_rules = sample_rules\<lparr>ar_validatePV := (\<lambda>_. Some (Errorf ''invalid'' None))\<rparr>"

theorem provision_cleanup_one_attempt_witness:
  "let claim = sample_pvc ''c'' [ReadWriteOnce] 5; v = sample_pv ''v'' [ReadWriteOnce] 9 None;
       ev = (\<lambda>r. \<lparr>ev_object = OnClaim ''ns/c'', ev_type = EventTypeWarning, ev_reason = r\<rparr>)
   in map_option (\<lambda>(s, r). (ct_events s, r)) (save_provisioned (plugin_config refusing_rules) claim v (sample_controller [] [claim])) =
      Some ([ev ''ProvisioningFailed'', ev ''ProvisioningCleanupFailed''], Inr ())"
proof -
  define claim where "claim = sample_pvc ''c'' [ReadWriteOnce] 5"
  define v where "v = sample_pv ''v'' [ReadWriteOnce] 9 None"
  let ?cf = "plugin_config refusing_rules" and ?s = "sample_controller [] [claim]"
  have a: "mget (pv_Annotations v) annDynamicallyProvisioned = None" unfolding v_def by code_simp
  have k: "claimToClaimKey claim = ''ns/c''" and e: "ct_events ?s = []" unfolding claim_def by code_simp+
  have "kc_CreatePV (etcd_client refusing_rules) v w = (w, Inl (Errorf ''invalid'' None))" for w
    by (simp add: etcd_client_def put_pv_def registry_Create_def refusing_rules_def Let_def)
  then have c: "create_loop ?cf v (pc_createProvisionedPVRetryCount ?cf) None ?s = Some (?s, Inr (Some (Errorf ''invalid'' None)))"
    by (simp add: plugin_config_def sample_config_def eval_nat_numeral on_result_def api_def ret_def)
  have d: "doDeleteVolume ?cf v t = Some (t, Inr True)" for t
    using a by (simp add: doDeleteVolume_def findDeletablePlugin_def Let_def plugin_config_def sample_config_def
        FindDeletablePluginBySpec_def FindPluginBySpec_def with_capability_def sample_provisioner_def select_match_def
        and_then_def api_err_def ret_def)
  show ?thesis
    using provision_cleanup_one_attempt [OF c d, of claim] k e
    unfolding claim_def [symmetric] v_def [symmetric] by (simp add: Let_def)
qed

end
