(* ===== verification/Delta_FIFO.thy ===== *)
theory Delta_FIFO
  imports Indexed_Store
begin

text \<open>
  The queue of changes between a reflector and an informer: \<open>pkg/client/cache/delta_fifo.go\<close>. The
  objects that the consumer knows (\<open>knownObjects\<close>) belong to the consumer and change between the calls,
  so the methods that read them have them as an argument. A call of \<open>Pop\<close> that waits is \<open>None\<close>.
\<close>

named_theorems df_defs \<open>methods of the queue of deltas\<close>

section \<open>Deltas\<close>

datatype 'a queued_object = Object 'a | DeletedFinalStateUnknown string "'a queued_object option"

datatype DeltaType = Added | Updated | Deleted | Sync

record 'a Delta =
  dl_Type :: DeltaType
  dl_Object :: "'a queued_object"

type_synonym 'a Deltas = "'a Delta list"

definition Oldest :: "'a Deltas \<Rightarrow> 'a Delta option" where
  "Oldest d = (if length d > 0 then Some (d ! 0) else None)"

definition Newest :: "'a Deltas \<Rightarrow> 'a Delta option" where
  "Newest d = (if length d > 0 then Some (d ! (length d - 1)) else None)"

section \<open>The queue\<close>

record 'a KeyListerGetter =
  kl_ListKeys :: "string list"
  kl_GetByKey :: "string \<Rightarrow> error + 'a queued_object option"

record 'a DeltaFIFO =
  df_items :: "(string, 'a Deltas) gomap"
  df_queue :: "string list"
  df_populated :: bool
  df_initialPopulationCount :: nat
  df_keyFunc :: "'a key_func"
  df_deltaCompressor :: "('a Deltas \<Rightarrow> 'a Deltas) option"

definition NewDeltaFIFO :: "'a key_func \<Rightarrow> ('a Deltas \<Rightarrow> 'a Deltas) option \<Rightarrow> 'a DeltaFIFO" where
  "NewDeltaFIFO kf compressor =
     \<lparr>df_items = [], df_queue = [], df_populated = False, df_initialPopulationCount = 0,
      df_keyFunc = kf, df_deltaCompressor = compressor\<rparr>"

fun KeyOf :: "'a DeltaFIFO \<Rightarrow> 'a queued_object \<Rightarrow> error + string" where
  "KeyOf f (DeletedFinalStateUnknown key obj) = Inr key"
| "KeyOf f (Object obj) = df_keyFunc f obj"

text \<open>\<open>KeyOf\<close> of a \<open>Deltas\<close> value.\<close>

definition KeyOf_Deltas :: "'a DeltaFIFO \<Rightarrow> 'a Deltas \<Rightarrow> error + string" where
  "KeyOf_Deltas f d =
     (case Newest d of
        None \<Rightarrow> Inl (KeyError (Errorf ''0 length Deltas object; can't get key'' None))
      | Some n \<Rightarrow> KeyOf f (dl_Object n))"

definition HasSynced :: "'a DeltaFIFO \<Rightarrow> bool" where
  "HasSynced f \<longleftrightarrow> df_populated f \<and> df_initialPopulationCount f = 0"

definition isDeletionDup :: "'a Delta \<Rightarrow> 'a Delta \<Rightarrow> 'a Delta option" where
  "isDeletionDup a b =
     (if dl_Type b \<noteq> Deleted \<or> dl_Type a \<noteq> Deleted then None
      else case dl_Object b of
          DeletedFinalStateUnknown _ _ \<Rightarrow> Some a
        | Object _ \<Rightarrow> Some b)"

definition isDup :: "'a Delta \<Rightarrow> 'a Delta \<Rightarrow> 'a Delta option" where
  "isDup a b = (case isDeletionDup a b of Some out \<Rightarrow> Some out | None \<Rightarrow> None)"

definition dedupDeltas :: "'a Deltas \<Rightarrow> 'a Deltas" where
  "dedupDeltas deltas =
     (let n = length deltas
      in if n < 2 then deltas
         else case isDup (deltas ! (n - 1)) (deltas ! (n - 2)) of
             Some out \<Rightarrow> take (n - 2) deltas @ [out]
           | None \<Rightarrow> deltas)"

definition df_deltas :: "'a DeltaFIFO \<Rightarrow> string \<Rightarrow> 'a Deltas" where
  "df_deltas f key = (case mget (df_items f) key of None \<Rightarrow> [] | Some d \<Rightarrow> d)"

definition willObjectBeDeletedLocked :: "'a DeltaFIFO \<Rightarrow> string \<Rightarrow> bool" where
  "willObjectBeDeletedLocked f key =
     (let deltas = df_deltas f key
      in length deltas > 0 \<and> dl_Type (deltas ! (length deltas - 1)) = Deleted)"

definition queueActionLocked ::
  "'a DeltaFIFO \<Rightarrow> DeltaType \<Rightarrow> 'a queued_object \<Rightarrow> 'a DeltaFIFO \<times> error option" where
  "queueActionLocked f actionType obj =
     (case KeyOf f obj of
        Inl err \<Rightarrow> (f, Some (KeyError err))
      | Inr key \<Rightarrow>
          if actionType = Sync \<and> willObjectBeDeletedLocked f key then (f, None)
          else let newDeltas = dedupDeltas (df_deltas f key @ [\<lparr>dl_Type = actionType, dl_Object = obj\<rparr>]);
                   newDeltas = (case df_deltaCompressor f of None \<Rightarrow> newDeltas | Some compress \<Rightarrow> compress newDeltas);
                   exists = mhas (df_items f) key
               in if length newDeltas > 0
                  then (f\<lparr>df_queue := (if \<not> exists then df_queue f @ [key] else df_queue f),
                          df_items := mput key newDeltas (df_items f)\<rparr>, None)
                  else if exists then (f\<lparr>df_items := mdel key (df_items f)\<rparr>, None)
                  else (f, None))"

section \<open>Producer methods\<close>

definition df_Add :: "'a DeltaFIFO \<Rightarrow> 'a queued_object \<Rightarrow> 'a DeltaFIFO \<times> error option" where
  "df_Add f obj = queueActionLocked (f\<lparr>df_populated := True\<rparr>) Added obj"

definition df_Update :: "'a DeltaFIFO \<Rightarrow> 'a queued_object \<Rightarrow> 'a DeltaFIFO \<times> error option" where
  "df_Update f obj = queueActionLocked (f\<lparr>df_populated := True\<rparr>) Updated obj"

definition df_Delete ::
  "'a KeyListerGetter option \<Rightarrow> 'a DeltaFIFO \<Rightarrow> 'a queued_object \<Rightarrow> 'a DeltaFIFO \<times> error option" where
  "df_Delete knownObjects f obj =
     (case KeyOf f obj of
        Inl err \<Rightarrow> (f, Some (KeyError err))
      | Inr key \<Rightarrow>
          let f = f\<lparr>df_populated := True\<rparr>;
              skip = (case knownObjects of
                  None \<Rightarrow> \<not> mhas (df_items f) key
                | Some known \<Rightarrow>
                    (case kl_GetByKey known key of
                       Inl err \<Rightarrow> False
                     | Inr found \<Rightarrow> found = None \<and> \<not> mhas (df_items f) key))
          in if skip then (f, None) else queueActionLocked f Deleted obj)"

definition addIfNotPresent :: "'a DeltaFIFO \<Rightarrow> string \<Rightarrow> 'a Deltas \<Rightarrow> 'a DeltaFIFO" where
  "addIfNotPresent f key deltas =
     (let f = f\<lparr>df_populated := True\<rparr>
      in if mhas (df_items f) key then f
         else f\<lparr>df_queue := df_queue f @ [key], df_items := mput key deltas (df_items f)\<rparr>)"

text \<open>\<open>AddIfNotPresent\<close> dereferences the newest delta: an empty list is a panic.\<close>

definition df_AddIfNotPresent :: "'a DeltaFIFO \<Rightarrow> 'a Deltas \<Rightarrow> ('a DeltaFIFO \<times> error option) option" where
  "df_AddIfNotPresent f deltas =
     (case Newest deltas of
        None \<Rightarrow> None
      | Some n \<Rightarrow>
          Some (case KeyOf f (dl_Object n) of
             Inl err \<Rightarrow> (f, Some (KeyError err))
           | Inr key \<Rightarrow> (addIfNotPresent f key deltas, None)))"

fun replace_sync ::
  "'a queued_object list \<Rightarrow> 'a DeltaFIFO \<Rightarrow> string list \<Rightarrow> ('a DeltaFIFO \<times> string list) \<times> error option" where
  "replace_sync [] f keys = ((f, keys), None)"
| "replace_sync (item # rest) f keys =
     (case KeyOf f item of
        Inl err \<Rightarrow> ((f, keys), Some (KeyError err))
      | Inr key \<Rightarrow>
          (case queueActionLocked f Sync item of
             (f, Some err) \<Rightarrow> ((f, List.insert key keys), Some (Errorf ''couldn't enqueue object'' (Some err)))
           | (f, None) \<Rightarrow> replace_sync rest f (List.insert key keys)))"

text \<open>
  The two loops that detect deletions: over the items of the queue itself, and over the known objects.
  The number counts the deletions that were queued.
\<close>

fun replace_own :: "(string \<times> 'a Deltas) list \<Rightarrow> string list \<Rightarrow> 'a DeltaFIFO \<Rightarrow> 'a DeltaFIFO \<times> error option" where
  "replace_own [] keys f = (f, None)"
| "replace_own ((k, oldItem) # rest) keys f =
     (if k \<in> set keys then replace_own rest keys f
      else case queueActionLocked f Deleted
             (DeletedFinalStateUnknown k (map_option dl_Object (Newest oldItem))) of
          (f, Some err) \<Rightarrow> (f, Some err)
        | (f, None) \<Rightarrow> replace_own rest keys f)"

fun replace_known ::
  "'a KeyListerGetter \<Rightarrow> string list \<Rightarrow> string list \<Rightarrow> 'a DeltaFIFO \<Rightarrow> nat \<Rightarrow>
   ('a DeltaFIFO \<times> nat) \<times> error option" where
  "replace_known known [] keys f n = ((f, n), None)"
| "replace_known known (k # rest) keys f n =
     (if k \<in> set keys then replace_known known rest keys f n
      else let deletedObj = (case kl_GetByKey known k of Inl err \<Rightarrow> None | Inr found \<Rightarrow> found)
           in case queueActionLocked f Deleted (DeletedFinalStateUnknown k deletedObj) of
                (f, Some err) \<Rightarrow> ((f, Suc n), Some err)
              | (f, None) \<Rightarrow> replace_known known rest keys f (Suc n))"

definition df_Replace ::
  "'a KeyListerGetter option \<Rightarrow> 'a DeltaFIFO \<Rightarrow> 'a queued_object list \<Rightarrow> 'a DeltaFIFO \<times> error option" where
  "df_Replace knownObjects f list =
     (case replace_sync list f [] of
        ((f, keys), Some err) \<Rightarrow> (f, Some err)
      | ((f, keys), None) \<Rightarrow>
          (case knownObjects of
             None \<Rightarrow>
               (case replace_own (df_items f) keys f of
                  (f, Some err) \<Rightarrow> (f, Some err)
                | (f, None) \<Rightarrow>
                    (if \<not> df_populated f
                     then f\<lparr>df_populated := True, df_initialPopulationCount := length list\<rparr> else f, None))
           | Some known \<Rightarrow>
               (case replace_known known (kl_ListKeys known) keys f 0 of
                  ((f, n), Some err) \<Rightarrow> (f, Some err)
                | ((f, n), None) \<Rightarrow>
                    (if \<not> df_populated f
                     then f\<lparr>df_populated := True, df_initialPopulationCount := length list + n\<rparr> else f, None))))"

definition syncKey :: "'a KeyListerGetter \<Rightarrow> 'a DeltaFIFO \<Rightarrow> string \<Rightarrow> 'a DeltaFIFO \<times> error option" where
  "syncKey known f key =
     (case kl_GetByKey known key of
        Inl err \<Rightarrow> (f, None)
      | Inr None \<Rightarrow> (f, None)
      | Inr (Some obj) \<Rightarrow>
          (case KeyOf f obj of
             Inl err \<Rightarrow> (f, Some (KeyError err))
           | Inr key \<Rightarrow>
               if length (df_deltas f key) > 0 then (f, None)
               else case queueActionLocked f Sync obj of
                   (f, Some err) \<Rightarrow> (f, Some (Errorf ''couldn't queue object'' (Some err)))
                 | (f, None) \<Rightarrow> (f, None)))"

text \<open>The loop of \<open>Resync\<close> with the objects known at each of its calls of \<open>syncKey\<close>.\<close>

fun df_Resync :: "(string \<times> 'a KeyListerGetter) list \<Rightarrow> 'a DeltaFIFO \<Rightarrow> 'a DeltaFIFO \<times> error option" where
  "df_Resync [] f = (f, None)"
| "df_Resync ((k, known) # rest) f =
     (case syncKey known f k of
        (f, Some err) \<Rightarrow> (f, Some err)
      | (f, None) \<Rightarrow> df_Resync rest f)"

section \<open>Consumer methods\<close>

definition listLocked :: "'a DeltaFIFO \<Rightarrow> 'a queued_object option list" where
  "listLocked f = map (\<lambda>(k, item). map_option dl_Object (Newest item)) (df_items f)"

definition df_ListKeys :: "'a DeltaFIFO \<Rightarrow> string list" where
  "df_ListKeys f = map fst (df_items f)"

definition df_GetByKey :: "'a DeltaFIFO \<Rightarrow> string \<Rightarrow> 'a Deltas option" where
  "df_GetByKey f key = mget (df_items f) key"

definition df_Get :: "'a DeltaFIFO \<Rightarrow> 'a queued_object \<Rightarrow> error + 'a Deltas option" where
  "df_Get f obj =
     (case KeyOf f obj of Inl err \<Rightarrow> Inl (KeyError err) | Inr key \<Rightarrow> Inr (df_GetByKey f key))"

text \<open>The loop of \<open>Pop\<close> up to the call of \<open>process\<close>: the queue entries without an item are dropped.\<close>

fun pop_entries :: "string list \<Rightarrow> 'a DeltaFIFO \<Rightarrow> 'a DeltaFIFO \<times> (string \<times> 'a Deltas) option" where
  "pop_entries [] f = (f\<lparr>df_queue := []\<rparr>, None)"
| "pop_entries (key # rest) f =
     (let f = f\<lparr>df_queue := rest,
                df_initialPopulationCount :=
                  (if df_initialPopulationCount f > 0 then df_initialPopulationCount f - 1
                   else df_initialPopulationCount f)\<rparr>
      in case mget (df_items f) key of
           None \<Rightarrow> pop_entries rest f
         | Some item \<Rightarrow> (f\<lparr>df_items := mdel key (df_items f)\<rparr>, Some (key, item)))"

datatype process_result = ProcessOk | ProcessError error | ErrRequeue "error option"

definition df_Pop ::
  "('a Deltas \<Rightarrow> 's \<Rightarrow> 's \<times> process_result) \<Rightarrow> 'a DeltaFIFO \<Rightarrow> 's \<Rightarrow>
   ('a DeltaFIFO \<times> 's) \<times> ('a Deltas \<times> error option) option" where
  "df_Pop process f s =
     (case pop_entries (df_queue f) f of
        (f, None) \<Rightarrow> ((f, s), None)
      | (f, Some (key, item)) \<Rightarrow>
          (case process item s of
             (s, ErrRequeue err) \<Rightarrow> ((addIfNotPresent f key item, s), Some (item, err))
           | (s, ProcessError err) \<Rightarrow> ((f, s), Some (item, Some err))
           | (s, ProcessOk) \<Rightarrow> ((f, s), Some (item, None))))"

section \<open>Keys and items\<close>

text \<open>
  What the comment on the fields asks for: the keys of the items are the entries of the queue, each once,
  and every item has at least one delta; and each delta is filed under the key of its object. As in the
  informers, the key function does not fail and there is no compressor.
\<close>

fun object_key :: "('a \<Rightarrow> string) \<Rightarrow> 'a queued_object \<Rightarrow> string" where
  "object_key kf (Object obj) = kf obj"
| "object_key kf (DeletedFinalStateUnknown key obj) = key"

definition df_inv :: "('a \<Rightarrow> string) \<Rightarrow> 'a DeltaFIFO \<Rightarrow> bool" where
  "df_inv kf f \<longleftrightarrow>
     df_keyFunc f = Inr \<circ> kf \<and> df_deltaCompressor f = None \<and> mwf (df_items f) \<and>
     distinct (df_queue f) \<and> (\<forall>k. k \<in> set (df_queue f) \<longleftrightarrow> mhas (df_items f) k) \<and>
     mall (\<lambda>k ds. ds \<noteq> [] \<and> (\<forall>d \<in> set ds. object_key kf (dl_Object d) = k)) (df_items f)"

lemma df_inv_New: "df_inv kf (NewDeltaFIFO (Inr \<circ> kf) None)"
  by (simp add: df_inv_def NewDeltaFIFO_def mwf_def)

lemma KeyOf_inv: "df_inv kf f \<Longrightarrow> KeyOf f obj = Inr (object_key kf obj)"
  by (cases obj) (simp_all add: df_inv_def)

declare KeyOf.simps [simp del]

lemma df_deltas_Nil: "df_inv kf f \<Longrightarrow> df_deltas f k = [] \<longleftrightarrow> \<not> mhas (df_items f) k"
  by (auto simp: df_inv_def df_deltas_def mhas_def dest: mall_get split: option.split)

lemma df_deltas_queue: "df_inv kf f \<Longrightarrow> k \<in> set (df_queue f) \<longleftrightarrow> df_deltas f k \<noteq> []"
  by (simp add: df_deltas_Nil) (simp add: df_inv_def)

lemma df_deltas_key: "df_inv kf f \<Longrightarrow> d \<in> set (df_deltas f k) \<Longrightarrow> object_key kf (dl_Object d) = k"
  by (cases "mget (df_items f) k") (auto simp: df_inv_def df_deltas_def dest: mall_get)

lemma dedupDeltas_snoc:
  "dedupDeltas (ds @ [d]) = (if ds \<noteq> [] \<and> dl_Type (last ds) = Deleted \<and> dl_Type d = Deleted
     then butlast ds @ [case dl_Object (last ds) of DeletedFinalStateUnknown _ _ \<Rightarrow> d | Object _ \<Rightarrow> last ds]
     else ds @ [d])"
proof (cases ds rule: rev_cases)
  case (snoc es e)
  then have "(ds @ [d]) ! Suc (length es) = d" "(ds @ [d]) ! length es = e" by (simp_all add: nth_append)
  then show ?thesis
    using snoc by (auto simp: dedupDeltas_def Let_def isDup_def isDeletionDup_def split: queued_object.split)
qed (simp add: dedupDeltas_def)

lemma dedupDeltas_facts:
  "dedupDeltas (ds @ [d]) \<noteq> []" "set (dedupDeltas (ds @ [d])) \<subseteq> set (ds @ [d])"
  by (auto simp: dedupDeltas_snoc dest: in_set_butlastD split: queued_object.split)

text \<open>Queueing a delta: under the key of its object, and ignored if it is a \<open>Sync\<close> after a deletion.\<close>

definition dropped :: "'a DeltaFIFO \<Rightarrow> DeltaType \<Rightarrow> string \<Rightarrow> bool" where
  "dropped f t k \<longleftrightarrow> t = Sync \<and> willObjectBeDeletedLocked f k"

lemma queueActionLocked_inv:
  assumes "df_inv kf f"
  shows "queueActionLocked f t obj =
    (if dropped f t (object_key kf obj) then f
     else let k = object_key kf obj; ds = dedupDeltas (df_deltas f k @ [\<lparr>dl_Type = t, dl_Object = obj\<rparr>])
          in f\<lparr>df_queue := (if k \<in> set (df_queue f) then df_queue f else df_queue f @ [k]), df_items := mput k ds (df_items f)\<rparr>, None)"
proof -
  have "df_deltaCompressor f = None" "object_key kf obj \<in> set (df_queue f) \<longleftrightarrow> mhas (df_items f) (object_key kf obj)"
    using assms by (simp_all add: df_inv_def)
  then show ?thesis
    by (simp add: queueActionLocked_def KeyOf_inv [OF assms] dropped_def Let_def dedupDeltas_facts(1))
qed

lemma queueActionLocked_step:
  assumes "df_inv kf f"
  shows "df_inv kf (fst (queueActionLocked f t obj))" and "snd (queueActionLocked f t obj) = None"
    and "df_deltas (fst (queueActionLocked f t obj)) k =
      (if k = object_key kf obj \<and> \<not> dropped f t k
       then dedupDeltas (df_deltas f k @ [\<lparr>dl_Type = t, dl_Object = obj\<rparr>]) else df_deltas f k)"
proof -
  let ?k = "object_key kf obj" and ?d = "\<lparr>dl_Type = t, dl_Object = obj\<rparr>"
  let ?ds = "dedupDeltas (df_deltas f ?k @ [?d])"
  have "?ds \<noteq> [] \<and> (\<forall>d \<in> set ?ds. object_key kf (dl_Object d) = ?k)"
    using dedupDeltas_facts [of "df_deltas f ?k" ?d] df_deltas_key [OF assms] by auto
  then show "df_inv kf (fst (queueActionLocked f t obj))"
    using assms by (auto simp: queueActionLocked_inv [OF assms] df_inv_def Let_def mall_put gm.wf_put mhas_put)
  show "snd (queueActionLocked f t obj) = None" by (simp add: queueActionLocked_inv [OF assms] Let_def)
  show "df_deltas (fst (queueActionLocked f t obj)) k =
      (if k = ?k \<and> \<not> dropped f t k then dedupDeltas (df_deltas f k @ [?d]) else df_deltas f k)"
    by (auto simp: queueActionLocked_inv [OF assms] Let_def df_deltas_def gm.get_put)
qed

section \<open>What the consumer will hold\<close>

text \<open>
  The value of a key after its deltas have been applied to the value \<open>v\<close> that the consumer holds.
\<close>

definition apply_delta :: "'a Delta \<Rightarrow> 'a queued_object option \<Rightarrow> 'a queued_object option" where
  "apply_delta d v = (if dl_Type d = Deleted then None else Some (dl_Object d))"

definition settled :: "'a DeltaFIFO \<Rightarrow> string \<Rightarrow> 'a queued_object option \<Rightarrow> 'a queued_object option" where
  "settled f k v = fold apply_delta (df_deltas f k) v"

lemma fold_dedupDeltas: "fold apply_delta (dedupDeltas (ds @ [d])) v = apply_delta d (fold apply_delta ds v)"
  unfolding dedupDeltas_snoc by (auto simp: apply_delta_def split: queued_object.split)

lemma settled_last: "df_deltas f k \<noteq> [] \<Longrightarrow> settled f k v = apply_delta (last (df_deltas f k)) v"
  by (cases "df_deltas f k" rule: rev_cases) (simp_all add: settled_def apply_delta_def)

lemma willObjectBeDeleted_iff:
  "willObjectBeDeletedLocked f k \<longleftrightarrow> df_deltas f k \<noteq> [] \<and> dl_Type (last (df_deltas f k)) = Deleted"
  by (auto simp: willObjectBeDeletedLocked_def Let_def last_conv_nth)

lemma settled_deleted: "willObjectBeDeletedLocked f k \<Longrightarrow> settled f k v = None"
  by (simp add: willObjectBeDeleted_iff settled_last apply_delta_def)

lemma settled_queue:
  assumes "df_inv kf f"
  shows "settled (fst (queueActionLocked f t obj)) k v =
    (if k = object_key kf obj \<and> \<not> dropped f t k then (if t = Deleted then None else Some obj) else settled f k v)"
  unfolding settled_def queueActionLocked_step(3) [OF assms] by (auto simp: fold_dedupDeltas apply_delta_def)

lemma df_inv_populated [simp]:
  "df_inv kf (f\<lparr>df_populated := b\<rparr>) = df_inv kf f" "df_inv kf (f\<lparr>df_populated := b, df_initialPopulationCount := n\<rparr>) = df_inv kf f"
  "df_deltas (f\<lparr>df_populated := b\<rparr>) = df_deltas f" "df_deltas (f\<lparr>df_populated := b, df_initialPopulationCount := n\<rparr>) = df_deltas f"
  by (simp_all add: df_inv_def df_deltas_def fun_eq_iff)

lemma settled_populated [simp]:
  "settled (f\<lparr>df_populated := b\<rparr>) = settled f" "settled (f\<lparr>df_populated := b, df_initialPopulationCount := n\<rparr>) = settled f"
  by (simp_all add: settled_def fun_eq_iff)

lemma dropped_populated [simp]: "dropped (f\<lparr>df_populated := b\<rparr>) = dropped f"
  by (simp add: dropped_def willObjectBeDeleted_iff fun_eq_iff)

text \<open>The calls of the reflector, on the objects \<open>get\<close> that the consumer holds.\<close>

definition knows :: "'a KeyListerGetter \<Rightarrow> (string \<Rightarrow> 'a queued_object option) \<Rightarrow> bool" where
  "knows known get \<longleftrightarrow> kl_GetByKey known = Inr \<circ> get \<and> (\<forall>k. k \<in> set (kl_ListKeys known) \<longleftrightarrow> get k \<noteq> None)"

lemma df_Add_step:
  assumes "df_inv kf f"
  shows "df_inv kf (fst (df_Add f (Object obj)))" "df_inv kf (fst (df_Update f (Object obj)))"
    and "settled (fst (df_Add f (Object obj))) k v = (if k = kf obj then Some (Object obj) else settled f k v)"
    and "settled (fst (df_Update f (Object obj))) k v = (if k = kf obj then Some (Object obj) else settled f k v)"
  using assms by (simp_all add: df_Add_def df_Update_def queueActionLocked_step settled_queue [where kf = kf] dropped_def)

lemma df_Delete_step:
  assumes "df_inv kf f" and "knows known get"
  shows "df_inv kf (fst (df_Delete (Some known) f (Object obj)))"
    and "settled (fst (df_Delete (Some known) f (Object obj))) k (get k) = (if k = kf obj then None else settled f k (get k))"
proof -
  have "settled f (kf obj) None = None" if "\<not> mhas (df_items f) (kf obj)"
    using that by (simp add: settled_def df_deltas_def mhas_def)
  then show "settled (fst (df_Delete (Some known) f (Object obj))) k (get k) = (if k = kf obj then None else settled f k (get k))"
    using assms by (auto simp: df_Delete_def KeyOf_inv [OF assms(1)] knows_def Let_def settled_queue [where kf = kf] dropped_def)
  show "df_inv kf (fst (df_Delete (Some known) f (Object obj)))"
    using assms by (auto simp: df_Delete_def KeyOf_inv [OF assms(1)] knows_def Let_def queueActionLocked_step)
qed

lemma syncKey_step:
  assumes "df_inv kf f" and "knows known get" and "\<And>o'. get k = Some o' \<Longrightarrow> object_key kf o' = k"
  shows "df_inv kf (fst (syncKey known f k))" and "settled (fst (syncKey known f k)) j (get j) = settled f j (get j)"
proof -
  have q: "df_inv kf (fst (queueActionLocked f Sync obj))" "snd (queueActionLocked f Sync obj) = None"
      "settled (fst (queueActionLocked f Sync obj)) j (get j) = settled f j (get j)"
    if "df_deltas f k = []" "get k = Some obj" for obj
  proof -
    have "settled f k (get k) = get k" using that(1) by (simp add: settled_def)
    then show "settled (fst (queueActionLocked f Sync obj)) j (get j) = settled f j (get j)"
      using that(2) assms(3) [OF that(2)] by (auto simp: settled_queue [OF assms(1)])
  qed (use queueActionLocked_step [OF assms(1)] in auto)
  show "df_inv kf (fst (syncKey known f k))" "settled (fst (syncKey known f k)) j (get j) = settled f j (get j)"
    using assms q by (auto simp: syncKey_def KeyOf_inv [OF assms(1)] knows_def split: option.split prod.split)
qed

section \<open>Relisting\<close>

lemma not_deleted_Sync:
  assumes "df_inv kf f" and "\<not> willObjectBeDeletedLocked f k"
  shows "\<not> willObjectBeDeletedLocked (fst (queueActionLocked f Sync obj)) k"
  using assms(2) unfolding willObjectBeDeleted_iff queueActionLocked_step(3) [OF assms(1)]
  by (auto simp: dedupDeltas_snoc)

definition last_of :: "('a \<Rightarrow> string) \<Rightarrow> 'a list \<Rightarrow> string \<Rightarrow> 'a option" where
  "last_of kf objs k = map_of (rev (map (\<lambda>obj. (kf obj, obj)) objs)) k"

lemma last_of_Cons: "last_of kf (obj # objs) k = (case last_of kf objs k of None \<Rightarrow> if k = kf obj then Some obj else None | Some x \<Rightarrow> Some x)"
  by (simp add: last_of_def map_add_def split: option.split)

lemma last_of_None: "last_of kf objs k = None \<longleftrightarrow> k \<notin> kf ` set objs"
  by (force simp: last_of_def map_of_eq_None_iff)

lemma replace_sync_step:
  assumes "df_inv kf f" and "\<forall>obj \<in> set objs. \<not> willObjectBeDeletedLocked f (kf obj)"
  shows "\<exists>f' keys'. replace_sync (map Object objs) f keys = ((f', keys'), None) \<and> df_inv kf f' \<and>
    set keys' = set keys \<union> kf ` set objs \<and>
    (\<forall>k v. settled f' k v = (case last_of kf objs k of Some obj \<Rightarrow> Some (Object obj) | None \<Rightarrow> settled f k v))"
  using assms
proof (induction objs arbitrary: f keys)
  case Nil
  then show ?case by (simp add: last_of_def)
next
  case (Cons obj objs)
  obtain f1 where q: "queueActionLocked f Sync (Object obj) = (f1, None)"
    using queueActionLocked_step(2) [OF Cons.prems(1), of Sync "Object obj"] by (metis prod.collapse)
  have f1: "df_inv kf f1" "settled f1 k v = (if k = kf obj then Some (Object obj) else settled f k v)" for k v
    using Cons.prems(2) queueActionLocked_step(1) [OF Cons.prems(1), of Sync "Object obj"]
      settled_queue [OF Cons.prems(1), of Sync "Object obj"] by (auto simp: q dropped_def)
  have "\<forall>o' \<in> set objs. \<not> willObjectBeDeletedLocked f1 (kf o')"
    using Cons.prems not_deleted_Sync [OF Cons.prems(1), of _ "Object obj"] by (simp add: q)
  from Cons.IH [OF f1(1) this, of "List.insert (kf obj) keys"]
  obtain f' keys' where f': "replace_sync (map Object objs) f1 (List.insert (kf obj) keys) = ((f', keys'), None)"
    "df_inv kf f'" "set keys' = set (List.insert (kf obj) keys) \<union> kf ` set objs"
    "\<forall>k v. settled f' k v = (case last_of kf objs k of Some obj \<Rightarrow> Some (Object obj) | None \<Rightarrow> settled f1 k v)"
    by blast
  have "settled f' k v = (case last_of kf (obj # objs) k of Some obj \<Rightarrow> Some (Object obj) | None \<Rightarrow> settled f k v)" for k v
    by (simp add: f'(4) f1(2) last_of_Cons split: option.split)
  with f' q show ?case by (simp add: KeyOf_inv [OF Cons.prems(1)])
qed

lemma replace_known_step:
  assumes "df_inv kf f"
  shows "\<exists>f' n'. replace_known known ks keys f n = ((f', n'), None) \<and> df_inv kf f' \<and>
    (\<forall>k v. settled f' k v = (if k \<in> set ks \<and> k \<notin> set keys then None else settled f k v))"
  using assms
proof (induction ks arbitrary: f n)
  case (Cons j ks)
  show ?case
  proof (cases "j \<in> set keys")
    case True
    with Cons show ?thesis by fastforce
  next
    case False
    let ?o = "DeletedFinalStateUnknown j (case kl_GetByKey known j of Inl err \<Rightarrow> None | Inr found \<Rightarrow> found)"
    obtain f1 where q: "queueActionLocked f Deleted ?o = (f1, None)"
      using queueActionLocked_step(2) [OF Cons.prems, of Deleted ?o] by (metis prod.collapse)
    then have f1: "df_inv kf f1" "settled f1 k v = (if k = j then None else settled f k v)" for k v
      using queueActionLocked_step(1) [OF Cons.prems, of Deleted ?o] settled_queue [OF Cons.prems, of Deleted ?o]
      by (simp_all add: dropped_def)
    from Cons.IH [OF f1(1)] obtain f' n' where
      "replace_known known ks keys f1 (Suc n) = ((f', n'), None)" "df_inv kf f'"
      "\<forall>k v. settled f' k v = (if k \<in> set ks \<and> k \<notin> set keys then None else settled f1 k v)" by blast
    with q False show ?thesis by (auto simp: f1(2))
  qed
qed simp

text \<open>
  When a relist is safe: no listed object waits for its deletion, and every queued key that is not listed
  is known to the consumer or waits for its deletion.
\<close>

definition relist_safe :: "('a \<Rightarrow> string) \<Rightarrow> 'a list \<Rightarrow> 'a DeltaFIFO \<Rightarrow> (string \<Rightarrow> 'a queued_object option) \<Rightarrow> bool" where
  "relist_safe kf objs f get \<longleftrightarrow>
     list_all (\<lambda>obj. \<not> willObjectBeDeletedLocked f (kf obj)) objs \<and>
     list_all (\<lambda>k. k \<in> set (map kf objs) \<or> get k \<noteq> None \<or> willObjectBeDeletedLocked f k) (df_queue f)"

lemma df_Replace_step:
  assumes "df_inv kf f" and "knows known get" and "relist_safe kf objs f get"
  shows "df_inv kf (fst (df_Replace (Some known) f (map Object objs)))"
    and "settled (fst (df_Replace (Some known) f (map Object objs))) k (get k) = map_option Object (last_of kf objs k)"
proof -
  have s: "\<forall>obj \<in> set objs. \<not> willObjectBeDeletedLocked f (kf obj)"
    and p: "\<And>k. k \<notin> kf ` set objs \<Longrightarrow> get k = None \<Longrightarrow> df_deltas f k \<noteq> [] \<Longrightarrow> willObjectBeDeletedLocked f k"
    using assms(3) by (auto simp: relist_safe_def list_all_iff df_deltas_queue [OF assms(1), symmetric])
  from replace_sync_step [OF assms(1) s, of "[]"] obtain f1 keys where f1:
    "replace_sync (map Object objs) f [] = ((f1, keys), None)" "df_inv kf f1" "set keys = kf ` set objs"
    "\<And>k v. settled f1 k v = (case last_of kf objs k of Some obj \<Rightarrow> Some (Object obj) | None \<Rightarrow> settled f k v)"
    by auto
  from replace_known_step [OF f1(2), of known "kl_ListKeys known" keys 0] obtain f2 n where f2:
    "replace_known known (kl_ListKeys known) keys f1 0 = ((f2, n), None)" "df_inv kf f2"
    "\<And>k v. settled f2 k v = (if k \<in> set (kl_ListKeys known) \<and> k \<notin> set keys then None else settled f1 k v)" by blast
  have "settled f2 k (get k) = map_option Object (last_of kf objs k)"
  proof (cases "last_of kf objs k")
    case None
    then have "k \<notin> kf ` set objs" by (simp add: last_of_None)
    moreover have "settled f k None = None" if "get k = None"
      using p [OF calculation that] settled_deleted [of f k None] by (cases "df_deltas f k = []") (auto simp: settled_def)
    ultimately show ?thesis using assms(2) None f1(3,4) f2(3) by (auto simp: knows_def)
  next
    case (Some obj)
    then have "k \<in> set keys" using f1(3) last_of_None [of kf objs k] by auto
    with Some show ?thesis using f1(4) f2(3) by simp
  qed
  with f1(1) f2(1,2) show "df_inv kf (fst (df_Replace (Some known) f (map Object objs)))"
    "settled (fst (df_Replace (Some known) f (map Object objs))) k (get k) = map_option Object (last_of kf objs k)"
    by (simp_all add: df_Replace_def)
qed

section \<open>Popping\<close>

lemma df_Pop_entry:
  assumes "df_inv kf f" and "df_queue f = k # rest"
  obtains f' where "pop_entries (df_queue f) f = (f', Some (k, df_deltas f k))" and "df_inv kf f'"
    and "df_queue f' = rest" and "\<And>j. df_deltas f' j = (if j = k then [] else df_deltas f j)"
proof -
  have k: "mget (df_items f) k = Some (df_deltas f k)"
    using assms df_deltas_queue [OF assms(1), of k] by (auto simp: df_deltas_def split: option.splits)
  let ?f = "f\<lparr>df_queue := rest, df_initialPopulationCount := (if df_initialPopulationCount f > 0
     then df_initialPopulationCount f - 1 else df_initialPopulationCount f), df_items := mdel k (df_items f)\<rparr>"
  have "pop_entries (df_queue f) f = (?f, Some (k, df_deltas f k))" using k assms(2) by simp
  moreover have "df_inv kf ?f" using assms by (auto simp: df_inv_def)
  moreover have "df_deltas ?f j = (if j = k then [] else df_deltas f j)" for j by (simp add: df_deltas_def gm.get_del)
  ultimately show thesis using that [of ?f] by simp
qed

end
