(* ===== verification/Informer.thy ===== *)
theory Informer
  imports Delta_FIFO
begin

text \<open>
  Informers: \<open>NewInformer\<close> and \<open>NewIndexerInformer\<close> of \<open>pkg/client/cache/controller.go\<close>. The reflector
  writes what it lists and watches into a queue of deltas; the process loop takes the deltas of one
  object at a time, applies them to the client state and notifies the handler. The volume controllers
  read the client state and enqueue keys in the handler.
\<close>

section \<open>Definitions\<close>

datatype 'a notification =
    OnAdd "'a queued_object" | OnUpdate "'a queued_object" "'a queued_object" | OnDelete "'a queued_object"

record 'a informer =
  inf_fifo :: "'a DeltaFIFO"
  inf_clientState :: "'a queued_object cache"
  inf_notified :: "'a notification list"

fun DeletionHandlingKeyFunc :: "'a key_func \<Rightarrow> 'a queued_object key_func" where
  "DeletionHandlingKeyFunc kf (DeletedFinalStateUnknown key obj) = Inr key"
| "DeletionHandlingKeyFunc kf (Object obj) = kf obj"

definition NewIndexerInformer :: "'a key_func \<Rightarrow> (string, 'a queued_object index_func) gomap \<Rightarrow> 'a informer" where
  "NewIndexerInformer kf indexers =
     \<lparr>inf_fifo = NewDeltaFIFO kf None, inf_clientState = NewIndexer (DeletionHandlingKeyFunc kf) indexers, inf_notified = []\<rparr>"

definition NewInformer :: "'a key_func \<Rightarrow> 'a informer" where
  "NewInformer kf =
     \<lparr>inf_fifo = NewDeltaFIFO kf None, inf_clientState = NewStore (DeletionHandlingKeyFunc kf), inf_notified = []\<rparr>"

text \<open>The function \<open>Process\<close>, from the oldest delta to the newest.\<close>

fun process_deltas ::
  "'a Deltas \<Rightarrow> 'a queued_object cache \<times> 'a notification list \<Rightarrow>
   ('a queued_object cache \<times> 'a notification list) \<times> process_result" where
  "process_deltas [] s = (s, ProcessOk)"
| "process_deltas (d # ds) (c, ns) =
     (if dl_Type d = Deleted then
        (case cache_Delete c (dl_Object d) of
           (c, Some err) \<Rightarrow> ((c, ns), ProcessError err)
         | (c, None) \<Rightarrow> process_deltas ds (c, ns @ [OnDelete (dl_Object d)]))
      else
        (case cache_Get c (dl_Object d) of
           Inr (Some old) \<Rightarrow>
             (case cache_Update c (dl_Object d) of
                (c, Some err) \<Rightarrow> ((c, ns), ProcessError err)
              | (c, None) \<Rightarrow> process_deltas ds (c, ns @ [OnUpdate old (dl_Object d)]))
         | _ \<Rightarrow>
             (case cache_Add c (dl_Object d) of
                (c, Some err) \<Rightarrow> ((c, ns), ProcessError err)
              | (c, None) \<Rightarrow> process_deltas ds (c, ns @ [OnAdd (dl_Object d)]))))"

text \<open>One pass of \<open>processLoop\<close>; \<open>RetryOnError\<close> is not set.\<close>

definition processLoop_pass :: "'a informer \<Rightarrow> 'a informer" where
  "processLoop_pass s =
     (case df_Pop process_deltas (inf_fifo s) (inf_clientState s, inf_notified s) of
        ((f, c, ns), r) \<Rightarrow> \<lparr>inf_fifo = f, inf_clientState = c, inf_notified = ns\<rparr>)"

text \<open>\<open>Requeue\<close> puts an object back; an object that is queued already stays as it is.\<close>

definition Requeue :: "'a informer \<Rightarrow> 'a queued_object \<Rightarrow> ('a informer \<times> error option) option" where
  "Requeue s obj =
     (case df_AddIfNotPresent (inf_fifo s) [\<lparr>dl_Type = Sync, dl_Object = obj\<rparr>] of
        None \<Rightarrow> None
      | Some (f, err) \<Rightarrow> Some (s\<lparr>inf_fifo := f\<rparr>, err))"

text \<open>The client state as the \<open>knownObjects\<close> of the queue.\<close>

definition known_of :: "'a queued_object cache \<Rightarrow> 'a KeyListerGetter" where
  "known_of c = \<lparr>kl_ListKeys = cache_ListKeys c, kl_GetByKey = (\<lambda>k. Inr (cache_GetByKey c k))\<rparr>"

text \<open>What can happen to an informer: the calls of the reflector, one step of a resync, and a pass.\<close>

datatype 'a informer_op =
    Relist "'a list" | WatchAdd 'a | WatchUpdate 'a | WatchDelete 'a | ResyncKey string | ProcessNext

definition on_fifo :: "('a DeltaFIFO \<Rightarrow> 'a DeltaFIFO \<times> error option) \<Rightarrow> 'a informer \<Rightarrow> 'a informer" where
  "on_fifo call s = s\<lparr>inf_fifo := fst (call (inf_fifo s))\<rparr>"

fun informer_apply :: "'a informer_op \<Rightarrow> 'a informer \<Rightarrow> 'a informer" where
  "informer_apply (Relist objs) s =
     on_fifo (\<lambda>f. df_Replace (Some (known_of (inf_clientState s))) f (map Object objs)) s"
| "informer_apply (WatchAdd obj) s = on_fifo (\<lambda>f. df_Add f (Object obj)) s"
| "informer_apply (WatchUpdate obj) s = on_fifo (\<lambda>f. df_Update f (Object obj)) s"
| "informer_apply (WatchDelete obj) s = on_fifo (\<lambda>f. df_Delete (Some (known_of (inf_clientState s))) f (Object obj)) s"
| "informer_apply (ResyncKey k) s = on_fifo (\<lambda>f. syncKey (known_of (inf_clientState s)) f k) s"
| "informer_apply ProcessNext s = processLoop_pass s"

definition informer_run :: "'a informer_op list \<Rightarrow> 'a informer \<Rightarrow> 'a informer" where
  "informer_run ops s = fold informer_apply ops s"

section \<open>The abstract history\<close>

text \<open>
  What the API server has told so far: the objects by key. A relist replaces everything; resyncs and
  passes of the process loop tell nothing new.
\<close>

fun told :: "('a \<Rightarrow> string) \<Rightarrow> 'a informer_op \<Rightarrow> (string \<rightharpoonup> 'a) \<Rightarrow> (string \<rightharpoonup> 'a)" where
  "told kf (Relist objs) m = last_of kf objs"
| "told kf (WatchAdd obj) m = m(kf obj \<mapsto> obj)"
| "told kf (WatchUpdate obj) m = m(kf obj \<mapsto> obj)"
| "told kf (WatchDelete obj) m = m(kf obj := None)"
| "told kf (ResyncKey k) m = m"
| "told kf ProcessNext m = m"

text \<open>
  What the handler has been told: \<open>None\<close> when a notification does not fit, that is an addition of an
  object that exists or an update with an old object that is not the last one.
\<close>

fun notified :: "('a \<Rightarrow> string) \<Rightarrow> 'a notification list \<Rightarrow> (string \<rightharpoonup> 'a queued_object) \<Rightarrow> (string \<rightharpoonup> 'a queued_object) option" where
  "notified kf [] m = Some m"
| "notified kf (OnAdd obj # ns) m =
     (if m (object_key kf obj) = None then notified kf ns (m(object_key kf obj \<mapsto> obj)) else None)"
| "notified kf (OnUpdate old obj # ns) m =
     (if m (object_key kf obj) = Some old then notified kf ns (m(object_key kf obj \<mapsto> obj)) else None)"
| "notified kf (OnDelete obj # ns) m = notified kf ns (m(object_key kf obj := None))"

lemma notified_append:
  "notified kf (ns @ ns') m = (case notified kf ns m of None \<Rightarrow> None | Some m' \<Rightarrow> notified kf ns' m')"
  by (induction kf ns m rule: notified.induct) (auto simp: fun_upd_def)

section \<open>Invariant\<close>

definition informer_inv :: "('a \<Rightarrow> string) \<Rightarrow> (string \<rightharpoonup> 'a) \<Rightarrow> 'a informer \<Rightarrow> bool" where
  "informer_inv kf m s \<longleftrightarrow>
     df_inv kf (inf_fifo s) \<and> cache_inv (object_key kf) (inf_clientState s) \<and>
     notified kf (inf_notified s) Map.empty = Some (cache_GetByKey (inf_clientState s)) \<and>
     (\<forall>k. settled (inf_fifo s) k (cache_GetByKey (inf_clientState s) k) = map_option Object (m k))"

lemma DeletionHandlingKeyFunc_key: "DeletionHandlingKeyFunc (Inr \<circ> kf) = Inr \<circ> object_key kf"
  by (rule ext, rename_tac obj, case_tac obj) simp_all

lemma GetByKey_New [simp]: "cache_GetByKey (NewIndexer kf fs) k = None" "cache_GetByKey (NewStore kf) k = None"
  by (simp_all add: cache_GetByKey_def tsm_Get_def NewIndexer_def NewStore_def NewThreadSafeStore_def)

lemma settled_New [simp]: "settled (NewDeltaFIFO kf None) k v = v"
  by (simp add: settled_def df_deltas_def NewDeltaFIFO_def)

lemma NewInformer_eq: "NewInformer kf = NewIndexerInformer kf []"
  by (simp add: NewInformer_def NewIndexerInformer_def NewStore_def NewIndexer_def)

lemma informer_inv_New:
  "mwf fs \<Longrightarrow> index_total fs \<Longrightarrow> informer_inv kf Map.empty (NewIndexerInformer (Inr \<circ> kf) fs)"
  by (simp add: informer_inv_def NewIndexerInformer_def df_inv_New DeletionHandlingKeyFunc_key
      cache_inv_NewStore cache_inv_New fun_eq_iff)

lemma knows_known_of: "knows (known_of c) (cache_GetByKey c)"
  by (auto simp: knows_def known_of_def fun_eq_iff cache_ListKeys_def tsm_ListKeys_def cache_GetByKey_def tsm_Get_def
      mget_None_iff dest: mget_SomeD)

lemma process_deltas_step:
  assumes "cache_inv (object_key kf) c" and "notified kf ns Map.empty = Some (cache_GetByKey c)"
    and "\<forall>d \<in> set ds. object_key kf (dl_Object d) = k"
  shows "\<exists>c' ns'. process_deltas ds (c, ns) = ((c', ns'), ProcessOk) \<and> cache_inv (object_key kf) c' \<and>
    notified kf ns' Map.empty = Some (cache_GetByKey c') \<and>
    cache_GetByKey c' = (cache_GetByKey c)(k := fold apply_delta ds (cache_GetByKey c k))"
  using assms
proof (induction ds arbitrary: c ns)
  case (Cons d ds)
  let ?o = "dl_Object d"
  have k: "object_key kf ?o = k" and ks: "\<forall>d \<in> set ds. object_key kf (dl_Object d) = k" using Cons.prems(3) by simp_all
  note c = Cons.prems(1)
  obtain c1 where c1: "cache_Add c ?o = (c1, None)" using cache_Add_ok [OF c, of ?o] by (metis prod.collapse)
  obtain c2 where c2: "cache_Delete c ?o = (c2, None)" using cache_Delete_ok [OF c, of ?o] by (metis prod.collapse)
  have g1: "cache_inv (object_key kf) c1" "cache_GetByKey c1 = (cache_GetByKey c)(k \<mapsto> ?o)"
    using cs.inv_put [OF c, of ?o] cs.get_put [OF c, of ?o] by (auto simp: c1 k)
  have g2: "cache_inv (object_key kf) c2" "cache_GetByKey c2 = (cache_GetByKey c)(k := None)"
    using cs.inv_del [OF c, of ?o] cs.get_del [OF c, of ?o] by (auto simp: c2 k)
  show ?case
  proof (cases "dl_Type d = Deleted")
    case True
    have "notified kf (ns @ [OnDelete ?o]) Map.empty = Some (cache_GetByKey c2)"
      using Cons.prems(2) by (simp add: notified_append g2(2) k)
    moreover have "apply_delta d v = None" for v using True by (simp add: apply_delta_def)
    ultimately show ?thesis using Cons.IH [OF g2(1) _ ks, of "ns @ [OnDelete ?o]"] True by (simp add: c2 g2(2) fun_upd_def cong: if_cong)
  next
    case False
    let ?n = "case cache_GetByKey c k of None \<Rightarrow> OnAdd ?o | Some old \<Rightarrow> OnUpdate old ?o"
    have "notified kf (ns @ [?n]) Map.empty = Some (cache_GetByKey c1)"
      using Cons.prems(2) by (simp add: notified_append g1(2) k split: option.split)
    moreover have "apply_delta d v = Some ?o" for v using False by (simp add: apply_delta_def)
    ultimately show ?thesis
      using Cons.IH [OF g1(1) _ ks, of "ns @ [?n]"] False
      by (cases "cache_GetByKey c k") (simp_all add: cache_Get_key [OF c] k cache_Update_Add c1 g1(2) fun_upd_def cong: if_cong)
  qed
qed simp

lemma processLoop_pass_step:
  assumes "informer_inv kf m s"
  shows "informer_inv kf m (processLoop_pass s)" and "df_queue (inf_fifo (processLoop_pass s)) = tl (df_queue (inf_fifo s))"
proof -
  let ?f = "inf_fifo s" and ?c = "inf_clientState s"
  have f: "df_inv kf ?f" and c: "cache_inv (object_key kf) ?c"
    and n: "notified kf (inf_notified s) Map.empty = Some (cache_GetByKey ?c)"
    and m: "\<And>k. settled ?f k (cache_GetByKey ?c k) = map_option Object (m k)"
    using assms by (simp_all add: informer_inv_def)
  show "informer_inv kf m (processLoop_pass s)" "df_queue (inf_fifo (processLoop_pass s)) = tl (df_queue ?f)"
  proof (atomize (full), cases "df_queue ?f")
    case Nil
    with assms show "informer_inv kf m (processLoop_pass s) \<and> df_queue (inf_fifo (processLoop_pass s)) = tl (df_queue ?f)"
      by (simp add: processLoop_pass_def df_Pop_def informer_inv_def df_inv_def settled_def df_deltas_def)
  next
    case (Cons k rest)
    obtain f' where f': "pop_entries (df_queue ?f) ?f = (f', Some (k, df_deltas ?f k))" "df_inv kf f'" "df_queue f' = rest"
      "\<And>j. df_deltas f' j = (if j = k then [] else df_deltas ?f j)"
      using df_Pop_entry [OF f Cons] by blast
    have "\<forall>d \<in> set (df_deltas ?f k). object_key kf (dl_Object d) = k" using df_deltas_key [OF f] by blast
    from process_deltas_step [OF c n this] obtain c' ns' where
      p: "process_deltas (df_deltas ?f k) (?c, inf_notified s) = ((c', ns'), ProcessOk)"
      and c': "cache_inv (object_key kf) c'" "notified kf ns' Map.empty = Some (cache_GetByKey c')"
        "cache_GetByKey c' = (cache_GetByKey ?c)(k := fold apply_delta (df_deltas ?f k) (cache_GetByKey ?c k))" by blast
    have "settled f' j (cache_GetByKey c' j) = map_option Object (m j)" for j
      using m [of j] by (auto simp: settled_def f'(4) c'(3))
    then show "informer_inv kf m (processLoop_pass s) \<and> df_queue (inf_fifo (processLoop_pass s)) = tl (df_queue ?f)"
      using f' p c' Cons by (simp add: processLoop_pass_def df_Pop_def informer_inv_def)
  qed
qed

fun relists_safe :: "('a \<Rightarrow> string) \<Rightarrow> 'a informer_op list \<Rightarrow> 'a informer \<Rightarrow> bool" where
  "relists_safe kf [] s = True"
| "relists_safe kf (op # ops) s =
     ((case op of
         Relist objs \<Rightarrow> relist_safe kf objs (inf_fifo s) (cache_GetByKey (inf_clientState s))
       | _ \<Rightarrow> True) \<and> relists_safe kf ops (informer_apply op s))"

lemma informer_apply_step:
  assumes "informer_inv kf m s" and "relists_safe kf [op] s"
  shows "informer_inv kf (told kf op m) (informer_apply op s)"
proof -
  have f: "df_inv kf (inf_fifo s)" and c: "cache_inv (object_key kf) (inf_clientState s)" using assms(1) by (simp_all add: informer_inv_def)
  note k = knows_known_of [of "inf_clientState s"]
  show ?thesis
  proof (cases op)
    case (Relist objs)
    then show ?thesis
      using assms df_Replace_step [OF f k] by (simp add: informer_inv_def on_fifo_def)
  next
    case (WatchDelete obj)
    then show ?thesis
      using assms df_Delete_step [OF f k] by (simp add: informer_inv_def on_fifo_def)
  next
    case (ResyncKey j)
    then show ?thesis
      using assms syncKey_step [OF f k] cache_GetByKey_key [OF c] by (force simp: informer_inv_def on_fifo_def)
  next
    case ProcessNext
    then show ?thesis using processLoop_pass_step(1) [OF assms(1)] by simp
  qed (use assms df_Add_step [OF f] in \<open>simp_all add: informer_inv_def on_fifo_def\<close>)
qed

lemma informer_run_inv:
  assumes "informer_inv kf m s" and "relists_safe kf ops s"
  shows "informer_inv kf (fold (told kf) ops m) (informer_run ops s)"
  using assms unfolding informer_run_def
proof (induction ops arbitrary: m s)
  case (Cons op ops)
  then show ?case using informer_apply_step [of kf m s op] by simp
qed simp

lemma informer_drain:
  assumes "informer_inv kf m s" and "length (df_queue (inf_fifo s)) = n"
  shows "informer_inv kf m (informer_run (replicate n ProcessNext) s) \<and>
    df_queue (inf_fifo (informer_run (replicate n ProcessNext) s)) = []"
  using assms unfolding informer_run_def
proof (induction n arbitrary: s)
  case (Suc n)
  then show ?case using processLoop_pass_step [OF Suc.prems(1)] by simp
qed simp

lemma drained_client_state:
  assumes "informer_inv kf m s" and "df_queue (inf_fifo s) = []"
  shows "cache_GetByKey (inf_clientState s) k = map_option Object (m k)"
proof -
  have f: "df_inv kf (inf_fifo s)" and m: "settled (inf_fifo s) k (cache_GetByKey (inf_clientState s) k) = map_option Object (m k)"
    using assms(1) by (simp_all add: informer_inv_def)
  have "df_deltas (inf_fifo s) k = []" using df_deltas_queue [OF f, of k] assms(2) by simp
  with m show ?thesis by (simp add: settled_def)
qed

section \<open>The informer catches up\<close>

text \<open>
  C11: However relists, watch events, resyncs and passes of the process loop interleave, as long as the
  relists are safe: as many passes as the queue is long empty the queue, and then the client state is what
  the API server has told: the objects of the last list as changed by the events after it. The handler has
  been notified of every change of the client state, additions and updates told apart, with the old object.
\<close>

theorem informer_catches_up:
  assumes "mwf fs" and "index_total fs" and "relists_safe kf ops (NewIndexerInformer (Inr \<circ> kf) fs)"
  shows "let s = informer_run ops (NewIndexerInformer (Inr \<circ> kf) fs);
             s' = informer_run (replicate (length (df_queue (inf_fifo s))) ProcessNext) s
         in df_queue (inf_fifo s') = [] \<and>
            cache_GetByKey (inf_clientState s') = map_option Object \<circ> fold (told kf) ops Map.empty \<and>
            notified kf (inf_notified s') Map.empty = Some (cache_GetByKey (inf_clientState s'))"
proof -
  define s where "s = informer_run ops (NewIndexerInformer (Inr \<circ> kf) fs)"
  define s' where "s' = informer_run (replicate (length (df_queue (inf_fifo s))) ProcessNext) s"
  have "informer_inv kf (fold (told kf) ops Map.empty) s'" and q: "df_queue (inf_fifo s') = []"
    using informer_drain [OF informer_run_inv [OF informer_inv_New [OF assms(1,2)] assms(3)]] by (simp_all add: s_def s'_def)
  then show ?thesis
    using drained_client_state [of kf "fold (told kf) ops Map.empty" s']
    by (simp add: Let_def s_def [symmetric] s'_def [symmetric] fun_eq_iff) (simp add: informer_inv_def fun_eq_iff)
qed

theorem informer_catches_up_witness:
  "let ops = [Relist [''a1'', ''b1''], ProcessNext, WatchUpdate ''a2'', WatchDelete ''b1'', ProcessNext, ResyncKey ''a'', WatchAdd ''c1''];
       s = informer_run ops (NewIndexerInformer (Inr \<circ> take 1) []);
       s' = informer_run (replicate (length (df_queue (inf_fifo s))) ProcessNext) s
   in relists_safe (take 1) ops (NewIndexerInformer (Inr \<circ> take 1) []) \<and> df_queue (inf_fifo s) = [''a'', ''c''] \<and>
      df_queue (inf_fifo s') = [] \<and> cache_GetByKey (inf_clientState s') ''a'' = Some (Object ''a2'') \<and>
      cache_GetByKey (inf_clientState s') ''b'' = None"
proof -
  let ?ops = "[Relist [''a1'', ''b1''], ProcessNext, WatchUpdate ''a2'', WatchDelete ''b1'', ProcessNext, ResyncKey ''a'', WatchAdd ''c1'']"
  have r: "relists_safe (take 1) ?ops (NewIndexerInformer (Inr \<circ> take 1) [])" by code_simp
  have q: "df_queue (inf_fifo (informer_run ?ops (NewIndexerInformer (Inr \<circ> take 1) []))) = [''a'', ''c'']" by code_simp
  show ?thesis
    using informer_catches_up [OF gm.wf_empty _ r] r q by (simp add: Let_def index_total_def fun_eq_iff last_of_def)
qed

section \<open>Relists that are not safe\<close>

text \<open>
  A relist can leave the client state wrong. An object that was deleted and created again while its
  deletion waits in the queue is lost, because the queue ignores its \<open>Sync\<close> delta; and an object that was
  added, but not processed, and then deleted during an interruption of the watch stays, because only objects
  of the client state are checked for deletion. In both cases the queue is empty in the end, and resyncs of
  the object change nothing.
\<close>

theorem relist_diverges:
  "let ops1 = [Relist [a], ProcessNext, WatchDelete a, Relist [a], ProcessNext]; s1 = informer_run ops1 (NewInformer (Inr \<circ> kf));
       ops2 = [WatchAdd a, Relist [], ProcessNext]; s2 = informer_run ops2 (NewInformer (Inr \<circ> kf))
   in df_queue (inf_fifo s1) = [] \<and> cache_GetByKey (inf_clientState s1) (kf a) = None \<and>
      fold (told kf) ops1 Map.empty (kf a) = Some a \<and> informer_run [ResyncKey (kf a), ProcessNext] s1 = s1 \<and>
      df_queue (inf_fifo s2) = [] \<and> cache_GetByKey (inf_clientState s2) (kf a) = Some (Object a) \<and>
      fold (told kf) ops2 Map.empty (kf a) = None \<and>
      cache_GetByKey (inf_clientState (informer_run [ResyncKey (kf a), ProcessNext] s2)) (kf a) = Some (Object a)"
  by (simp add: informer_run_def NewInformer_def NewDeltaFIFO_def NewStore_def NewThreadSafeStore_def on_fifo_def df_Add_def df_Delete_def
      df_Replace_def queueActionLocked_def KeyOf.simps df_deltas_def willObjectBeDeletedLocked_def Let_def dedupDeltas_def isDup_def
      isDeletionDup_def mget_def mput_def mdel_def mhas_def processLoop_pass_def df_Pop_def known_of_def cache_ops cache_ListKeys_def
      tsm_ListKeys_def tsm_Add_def tsm_Delete_def updateIndices_def deleteFromIndices_def syncKey_def last_of_def)

end
