(* ===== verification/Reflector.thy ===== *)
theory Reflector
  imports Informer
begin

text \<open>
  Reflectors: \<open>pkg/client/cache/reflector.go\<close>. A reflector lists the objects, puts them into its store
  and then watches for changes, always from the last version it has seen. The store is an interface; the
  informers pass the queue of deltas. What the watch channel and the other channels of a \<open>select\<close>
  deliver is an argument.
\<close>

section \<open>Definitions\<close>

record ('a, 's) reflector_store =
  rs_Add :: "'a \<Rightarrow> 's \<Rightarrow> 's \<times> error option"
  rs_Update :: "'a \<Rightarrow> 's \<Rightarrow> 's \<times> error option"
  rs_Delete :: "'a \<Rightarrow> 's \<Rightarrow> 's \<times> error option"
  rs_Replace :: "'a list \<Rightarrow> string \<Rightarrow> 's \<Rightarrow> 's \<times> error option"

record 's reflector =
  rf_store :: 's
  rf_lastSyncResourceVersion :: string

text \<open>An object of another type than the expected one, or without metadata, is an unexpected event.\<close>

datatype 'a watch_event =
    EvAdded 'a | EvModified 'a | EvDeleted 'a | EvOther 'a | EvError error | EvUnexpected

datatype 'a received =
    StopRequested | ResyncFailed error | EventReceived "'a watch_event" | ChannelClosed bool

definition errorStopRequested :: error where
  "errorStopRequested = Errorf ''Stop requested'' None"

text \<open>The errors of the store are only logged.\<close>

fun store_event :: "('a, 's) reflector_store \<Rightarrow> 'a watch_event \<Rightarrow> 's \<Rightarrow> 's" where
  "store_event st (EvAdded obj) s = fst (rs_Add st obj s)"
| "store_event st (EvModified obj) s = fst (rs_Update st obj s)"
| "store_event st (EvDeleted obj) s = fst (rs_Delete st obj s)"
| "store_event st ev s = s"

fun event_version :: "('a \<Rightarrow> string) \<Rightarrow> 'a watch_event \<Rightarrow> string" where
  "event_version rv (EvAdded obj) = rv obj"
| "event_version rv (EvModified obj) = rv obj"
| "event_version rv (EvDeleted obj) = rv obj"
| "event_version rv (EvOther obj) = rv obj"
| "event_version rv _ = []"

text \<open>
  The results of \<open>watchHandler\<close>: the reflector, the resource version, and, unless it still waits for the
  next event, the error it returns. \<open>ChannelClosed short\<close>: whether the watch lasted less than a second.
\<close>

fun watchHandler ::
  "('a, 's) reflector_store \<Rightarrow> ('a \<Rightarrow> string) \<Rightarrow> 'a received list \<Rightarrow> string \<Rightarrow> nat \<Rightarrow> 's reflector \<Rightarrow>
   's reflector \<times> string \<times> error option option" where
  "watchHandler st rv [] resourceVersion eventCount r = (r, resourceVersion, None)"
| "watchHandler st rv (StopRequested # rest) resourceVersion eventCount r =
     (r, resourceVersion, Some (Some errorStopRequested))"
| "watchHandler st rv (ResyncFailed err # rest) resourceVersion eventCount r = (r, resourceVersion, Some (Some err))"
| "watchHandler st rv (ChannelClosed short # rest) resourceVersion eventCount r =
     (r, resourceVersion,
      Some (if short \<and> eventCount = 0 then Some (Errorf ''very short watch'' None) else None))"
| "watchHandler st rv (EventReceived ev # rest) resourceVersion eventCount r =
     (case ev of
        EvError err \<Rightarrow> (r, resourceVersion, Some (Some err))
      | EvUnexpected \<Rightarrow> watchHandler st rv rest resourceVersion eventCount r
      | _ \<Rightarrow>
          (let newResourceVersion = event_version rv ev
           in watchHandler st rv rest newResourceVersion (Suc eventCount)
                \<lparr>rf_store = store_event st ev (rf_store r), rf_lastSyncResourceVersion = newResourceVersion\<rparr>))"

datatype 'a watch_attempt = ConnectionRefused | WatchFailed error | WatchOpened "'a received list"

text \<open>The loop of \<open>ListAndWatch\<close>, over the answers to its watch requests so far.\<close>

fun watch_loop ::
  "('a, 's) reflector_store \<Rightarrow> ('a \<Rightarrow> string) \<Rightarrow> 'a watch_attempt list \<Rightarrow> string \<Rightarrow> 's reflector \<Rightarrow>
   's reflector \<times> string \<times> error option option" where
  "watch_loop st rv [] resourceVersion r = (r, resourceVersion, None)"
| "watch_loop st rv (ConnectionRefused # rest) resourceVersion r = watch_loop st rv rest resourceVersion r"
| "watch_loop st rv (WatchFailed err # rest) resourceVersion r = (r, resourceVersion, Some None)"
| "watch_loop st rv (WatchOpened events # rest) resourceVersion r =
     (case watchHandler st rv events resourceVersion 0 r of
        (r, resourceVersion, None) \<Rightarrow> (r, resourceVersion, None)
      | (r, resourceVersion, Some (Some err)) \<Rightarrow> (r, resourceVersion, Some None)
      | (r, resourceVersion, Some None) \<Rightarrow> watch_loop st rv rest resourceVersion r)"

definition syncWith ::
  "('a, 's) reflector_store \<Rightarrow> 'a list \<Rightarrow> string \<Rightarrow> 's reflector \<Rightarrow> 's reflector \<times> error option" where
  "syncWith st items resourceVersion r =
     (case rs_Replace st items resourceVersion (rf_store r) of (s, err) \<Rightarrow> (r\<lparr>rf_store := s\<rparr>, err))"

definition ListAndWatch ::
  "('a, 's) reflector_store \<Rightarrow> ('a \<Rightarrow> string) \<Rightarrow> error + (string \<times> 'a list) \<Rightarrow> 'a watch_attempt list \<Rightarrow> 's reflector \<Rightarrow>
   's reflector \<times> string \<times> error option option" where
  "ListAndWatch st rv answer attempts r =
     (case answer of
        Inl err \<Rightarrow> (r, [], Some (Some (Errorf ''Failed to list'' (Some err))))
      | Inr (resourceVersion, items) \<Rightarrow>
          (case syncWith st items resourceVersion r of
             (r, Some err) \<Rightarrow> (r, resourceVersion, Some (Some (Errorf ''Unable to sync list result'' (Some err))))
           | (r, None) \<Rightarrow>
               watch_loop st rv attempts resourceVersion (r\<lparr>rf_lastSyncResourceVersion := resourceVersion\<rparr>)))"

section \<open>Every event once\<close>

text \<open>
  The API server: a log of events with different versions, and a watch from version \<open>v\<close> delivers what
  follows \<open>v\<close> in the log. \<open>handled\<close> are the events that the handler takes from a channel.
\<close>

fun handled :: "'a received list \<Rightarrow> 'a watch_event list" where
  "handled [] = []"
| "handled (EventReceived ev # rest) =
     (case ev of EvError err \<Rightarrow> [] | EvUnexpected \<Rightarrow> handled rest | _ \<Rightarrow> ev # handled rest)"
| "handled (_ # rest) = []"

fun events_after :: "('a \<Rightarrow> string) \<Rightarrow> string \<Rightarrow> 'a watch_event list \<Rightarrow> string \<Rightarrow> 'a watch_event list" where
  "events_after rv v0 [] v = []"
| "events_after rv v0 (ev # log) v = (if v = v0 then ev # log else events_after rv (event_version rv ev) log v)"

fun attempts_ok :: "('a \<Rightarrow> string) \<Rightarrow> string \<Rightarrow> 'a watch_event list \<Rightarrow> 'a watch_attempt list \<Rightarrow> string \<Rightarrow> bool" where
  "attempts_ok rv v0 log [] v = True"
| "attempts_ok rv v0 log (WatchOpened events # rest) v \<longleftrightarrow>
     prefix (handled events) (events_after rv v0 log v) \<and>
     attempts_ok rv v0 log rest (last (v # map (event_version rv) (handled events)))"
| "attempts_ok rv v0 log (_ # rest) v \<longleftrightarrow> attempts_ok rv v0 log rest v"

lemma events_after_nth:
  "distinct (v0 # map (event_version rv) log) \<Longrightarrow> n \<le> length log \<Longrightarrow>
   events_after rv v0 log ((v0 # map (event_version rv) log) ! n) = drop n log"
proof (induction rv v0 log "(v0 # map (event_version rv) log) ! n" arbitrary: n rule: events_after.induct)
  case (2 rv v0 ev log)
  show ?case
  proof (cases n)
    case (Suc m)
    then have "(v0 # map (event_version rv) (ev # log)) ! n \<noteq> v0"
      using 2(2,3) by (auto simp: nth_Cons split: nat.split)
    with 2(1) [of m] 2(2,3) Suc show ?thesis by simp
  qed simp
qed simp

lemma watchHandler_events:
  "watchHandler st rv events v n r = (r', v', e) \<Longrightarrow>
   v' = last (v # map (event_version rv) (handled events)) \<and> rf_store r' = fold (store_event st) (handled events) (rf_store r) \<and>
   (rf_lastSyncResourceVersion r = v \<longrightarrow> rf_lastSyncResourceVersion r' = v')"
proof (induction st rv events v n r rule: watchHandler.induct)
  case (5 st rv ev rest v n r)
  then show ?case by (cases ev) (auto simp: Let_def)
qed auto

lemma watch_loop_events:
  assumes "distinct (v0 # map (event_version rv) log)" and "attempts_ok rv v0 log attempts v"
    and "v = (v0 # map (event_version rv) log) ! n" and "n \<le> length log"
    and "rf_store r = fold (store_event st) (take n log) s" and "rf_lastSyncResourceVersion r = v"
    and "watch_loop st rv attempts v r = (r', v', e)"
  shows "\<exists>m. n \<le> m \<and> m \<le> length log \<and> v' = (v0 # map (event_version rv) log) ! m \<and>
    rf_store r' = fold (store_event st) (take m log) s \<and> rf_lastSyncResourceVersion r' = v'"
  using assms(2-7)
proof (induction attempts arbitrary: v r n)
  case (Cons a attempts)
  show ?case
  proof (cases a)
    case (WatchOpened events)
    let ?es = "handled events" and ?vs = "v0 # map (event_version rv) log"
    obtain r1 v1 e1 where h: "watchHandler st rv events v 0 r = (r1, v1, e1)" by (rule prod_cases3)
    have p: "prefix ?es (drop n log)" and ok: "attempts_ok rv v0 log attempts (last (v # map (event_version rv) ?es))"
      using Cons.prems(1-3) WatchOpened events_after_nth [OF assms(1) Cons.prems(3)] by simp_all
    define m where "m = n + length ?es"
    obtain zs where zs: "drop n log = ?es @ zs" using p by (auto simp: prefix_def)
    have m: "take m log = take n log @ ?es" "n \<le> m" using zs by (simp_all add: m_def take_add)
    have "length log - n = length ?es + length zs" unfolding length_drop [symmetric] zs by simp
    then have m3: "m \<le> length log" using Cons.prems(3) by (simp add: m_def)
    have "last (v # map (event_version rv) ?es) = ?vs ! m"
    proof (cases "?es = []")
      case True
      then show ?thesis using Cons.prems(2) by (simp add: m_def)
    next
      case False
      then have "last (take m log) = last ?es" "0 < m" by (simp_all add: m(1)) (simp add: m_def)
      moreover have "last (take m log) = log ! (m - 1)" if "0 < m"
        using that m3 last_conv_nth [of "take m log"] by fastforce
      ultimately have "last ?es = log ! (m - 1)" "0 < m" by simp_all
      with False m3 show ?thesis by (cases m) (simp_all add: last_map)
    qed
    with watchHandler_events [OF h] Cons.prems(4,5) m(1) have r1: "v1 = ?vs ! m"
      "rf_store r1 = fold (store_event st) (take m log) s" "rf_lastSyncResourceVersion r1 = v1" "last (v # map (event_version rv) ?es) = v1"
      by simp_all
    show ?thesis
    proof (cases "e1 = Some None")
      case True
      then have "watch_loop st rv attempts v1 r1 = (r', v', e)" using Cons.prems(6) WatchOpened h by simp
      from Cons.IH [OF _ r1(1) m3 r1(2,3) this] ok r1(4) m(2) show ?thesis by (metis le_trans)
    next
      case False
      then have "(r', v') = (r1, v1)" using Cons.prems(6) WatchOpened h by (auto split: option.splits)
      with r1 m m3 show ?thesis by blast
    qed
  qed (use Cons in auto)
qed auto

text \<open>
  If every watch delivers what follows its resource version in the log of the API server, then a
  reflector puts the listed objects into its store and after them a first part of the log: every event once,
  in order, however often the watch is interrupted. The version it would continue from is that of the last
  of these events.
\<close>

lemma events_stored_once:
  assumes "distinct (v0 # map (event_version rv) log)" and "attempts_ok rv v0 log attempts v0"
    and "rs_Replace st items v0 (rf_store r) = (s, None)"
  shows "\<exists>n \<le> length log. \<exists>r' e. ListAndWatch st rv (Inr (v0, items)) attempts r =
      (r', (v0 # map (event_version rv) log) ! n, e) \<and>
      rf_store r' = fold (store_event st) (take n log) s \<and>
      rf_lastSyncResourceVersion r' = (v0 # map (event_version rv) log) ! n"
proof -
  let ?r = "r\<lparr>rf_store := s, rf_lastSyncResourceVersion := v0\<rparr>"
  obtain r' v' e where w: "watch_loop st rv attempts v0 ?r = (r', v', e)" by (rule prod_cases3)
  from watch_loop_events [OF assms(1,2) _ _ _ _ w, of 0 s] obtain m where
    "m \<le> length log" "v' = (v0 # map (event_version rv) log) ! m" "rf_store r' = fold (store_event st) (take m log) s"
    "rf_lastSyncResourceVersion r' = v'" by auto
  then show ?thesis using w assms(3) by (auto simp: ListAndWatch_def syncWith_def)
qed

section \<open>From the API server to the client state\<close>

text \<open>
  The queue of an informer as the store of its reflector. Between two calls of the reflector the process
  loop and resyncs run; \<open>sched\<close> says what they do before each call. The key function does not fail, so no
  call returns an error.
\<close>

definition meanwhile :: "'a informer \<times> 'a informer_op list list \<Rightarrow> 'a informer" where
  "meanwhile st = informer_run (case snd st of [] \<Rightarrow> [] | ops # _ \<Rightarrow> ops) (fst st)"

definition informer_call ::
  "'a informer_op \<Rightarrow> 'a informer \<times> 'a informer_op list list \<Rightarrow> ('a informer \<times> 'a informer_op list list) \<times> error option" where
  "informer_call op st = ((informer_apply op (meanwhile st), tl (snd st)), None)"

definition informer_store :: "('a, 'a informer \<times> 'a informer_op list list) reflector_store" where
  "informer_store =
     \<lparr>rs_Add = (\<lambda>obj. informer_call (WatchAdd obj)), rs_Update = (\<lambda>obj. informer_call (WatchUpdate obj)),
      rs_Delete = (\<lambda>obj. informer_call (WatchDelete obj)), rs_Replace = (\<lambda>items v. informer_call (Relist items))\<rparr>"

fun background :: "'a informer_op \<Rightarrow> bool" where
  "background ProcessNext = True"
| "background (ResyncKey k) = True"
| "background _ = False"

text \<open>The objects of the API server after an event.\<close>

fun after_event :: "('a \<Rightarrow> string) \<Rightarrow> 'a watch_event \<Rightarrow> (string \<rightharpoonup> 'a) \<Rightarrow> (string \<rightharpoonup> 'a)" where
  "after_event kf (EvAdded obj) m = m(kf obj \<mapsto> obj)"
| "after_event kf (EvModified obj) m = m(kf obj \<mapsto> obj)"
| "after_event kf (EvDeleted obj) m = m(kf obj := None)"
| "after_event kf ev m = m"

lemma background_inv:
  "informer_inv kf m s \<Longrightarrow> list_all background ops \<Longrightarrow> informer_inv kf m (informer_run ops s)"
proof (induction ops arbitrary: s)
  case (Cons op ops)
  then have "informer_inv kf m (informer_apply op s)"
    using informer_apply_step [of kf m s op] by (cases op) auto
  with Cons show ?case by (simp add: informer_run_def)
qed (simp add: informer_run_def)

lemma meanwhile_inv:
  "informer_inv kf m (fst st) \<Longrightarrow> list_all (list_all background) (snd st) \<Longrightarrow>
   informer_inv kf m (meanwhile st) \<and> list_all (list_all background) (tl (snd st))"
  by (cases "snd st") (auto simp: meanwhile_def informer_run_def intro: background_inv [unfolded informer_run_def])

lemma store_event_inv:
  assumes "informer_inv kf m (fst st)" and "list_all (list_all background) (snd st)"
  shows "informer_inv kf (after_event kf ev m) (fst (store_event informer_store ev st)) \<and>
    list_all (list_all background) (snd (store_event informer_store ev st))"
proof -
  have b: "list_all (list_all background) (tl (snd st))" and mw: "informer_inv kf m (meanwhile st)"
    using meanwhile_inv [OF assms] by simp_all
  note op = informer_apply_step [OF mw]
  show ?thesis
  proof (cases ev)
    case (EvAdded obj)
    with op [of "WatchAdd obj"] b show ?thesis by (simp add: informer_store_def informer_call_def)
  next
    case (EvModified obj)
    with op [of "WatchUpdate obj"] b show ?thesis by (simp add: informer_store_def informer_call_def)
  next
    case (EvDeleted obj)
    with op [of "WatchDelete obj"] b show ?thesis by (simp add: informer_store_def informer_call_def)
  qed (use assms in simp_all)
qed

lemma store_events_inv:
  assumes "informer_inv kf m (fst st)" and "list_all (list_all background) (snd st)"
  shows "informer_inv kf (fold (after_event kf) evs m) (fst (fold (store_event informer_store) evs st))"
  using assms
proof (induction evs arbitrary: m st)
  case (Cons ev evs)
  then show ?case using store_event_inv [OF Cons.prems, of ev] by simp
qed simp

text \<open>An informer that has been told nothing does nothing.\<close>

lemma background_idle:
  "df_queue (inf_fifo s) = [] \<Longrightarrow> (\<And>k. cache_GetByKey (inf_clientState s) k = None) \<Longrightarrow> list_all background ops \<Longrightarrow>
   informer_run ops s = s"
proof (induction ops)
  case (Cons op ops)
  have "informer_apply op s = s"
    using Cons.prems by (cases op) (simp_all add: on_fifo_def syncKey_def known_of_def processLoop_pass_def df_Pop_def)
  with Cons show ?case by (simp add: informer_run_def)
qed (simp add: informer_run_def)

text \<open>
  C5: From the API server to the client state of an informer: after its first list, through any number of
  interrupted watches, and whatever passes and resyncs run in between, the objects that the informer holds
  when it has emptied its queue are those of the API server after a first part of its log, up to
  the version the reflector has reached.
\<close>

theorem informer_reflects_server:
  assumes "mwf fs" and "index_total fs" and "distinct (v0 # map (event_version rv) log)"
    and "attempts_ok rv v0 log attempts v0" and "list_all (list_all background) sched"
  shows "\<exists>n \<le> length log. \<exists>s sched' v e.
      ListAndWatch informer_store rv (Inr (v0, items)) attempts
        \<lparr>rf_store = (NewIndexerInformer (Inr \<circ> kf) fs, sched), rf_lastSyncResourceVersion = []\<rparr> =
        (\<lparr>rf_store = (s, sched'), rf_lastSyncResourceVersion = v\<rparr>, v, e) \<and> v = (v0 # map (event_version rv) log) ! n \<and>
      cache_GetByKey (inf_clientState (informer_run (replicate (length (df_queue (inf_fifo s))) ProcessNext) s)) =
        map_option Object \<circ> fold (after_event kf) (take n log) (last_of kf items)"
proof -
  let ?st = "(NewIndexerInformer (Inr \<circ> kf) fs, sched)"
  let ?r = "\<lparr>rf_store = ?st, rf_lastSyncResourceVersion = []\<rparr>"
  have "informer_inv kf Map.empty (fst ?st)" using informer_inv_New [OF assms(1,2)] by simp
  then have mw: "informer_inv kf Map.empty (meanwhile ?st)" "list_all (list_all background) (tl sched)"
    using meanwhile_inv [of kf Map.empty ?st] assms(5) by simp_all
  define s0 where "s0 = (informer_apply (Relist items) (meanwhile ?st), tl sched)"
  have rep: "rs_Replace informer_store items v0 (rf_store ?r) = (s0, None)"
    by (simp add: informer_store_def informer_call_def s0_def)
  have "relist_safe kf items (inf_fifo (meanwhile ?st)) (cache_GetByKey (inf_clientState (meanwhile ?st)))"
  proof -
    have f: "df_inv kf (inf_fifo (meanwhile ?st))" using mw(1) by (simp add: informer_inv_def)
    have "meanwhile ?st = fst ?st"
      unfolding meanwhile_def using assms(5)
      by (intro background_idle) (auto simp: NewIndexerInformer_def NewDeltaFIFO_def split: list.split)
    then have "df_queue (inf_fifo (meanwhile ?st)) = []" by (simp add: NewIndexerInformer_def NewDeltaFIFO_def)
    then show ?thesis using df_deltas_queue [OF f] by (simp add: relist_safe_def willObjectBeDeleted_iff list_all_iff)
  qed
  with informer_apply_step [OF mw(1), of "Relist items"] have i0: "informer_inv kf (last_of kf items) (fst s0)" by (simp add: s0_def)
  from events_stored_once [OF assms(3,4) rep] obtain n r' e where n: "n \<le> length log"
    "ListAndWatch informer_store rv (Inr (v0, items)) attempts ?r = (r', (v0 # map (event_version rv) log) ! n, e)"
    "rf_store r' = fold (store_event informer_store) (take n log) s0"
    "rf_lastSyncResourceVersion r' = (v0 # map (event_version rv) log) ! n" by blast
  obtain s sched' where s: "rf_store r' = (s, sched')" by (cases "rf_store r'")
  have "list_all (list_all background) (snd s0)" using mw(2) by (simp add: s0_def)
  from store_events_inv [OF i0 this, of "take n log"]
  have "informer_inv kf (fold (after_event kf) (take n log) (last_of kf items)) s"
    unfolding n(3) [symmetric] s by simp
  from informer_drain [OF this refl] drained_client_state n s show ?thesis
    by (intro exI [of _ n] conjI exI [of _ s] exI [of _ sched'] exI [of _ "(v0 # map (event_version rv) log) ! n"] exI [of _ e])
      (auto simp: fun_eq_iff)
qed

theorem informer_reflects_server_witness:
  "let rv = snd :: string \<times> string \<Rightarrow> string; log = [EvModified (''a'', ''6''), EvAdded (''b'', ''7''), EvDeleted (''a'', ''8'')];
       attempts = [WatchOpened [EventReceived (EvModified (''a'', ''6'')), ChannelClosed False], ConnectionRefused,
         WatchOpened [EventReceived EvUnexpected, EventReceived (EvAdded (''b'', ''7''))]];
       r = \<lparr>rf_store = (NewIndexerInformer (Inr \<circ> fst) [], [[ProcessNext], [], [ResyncKey ''a'', ProcessNext]]), rf_lastSyncResourceVersion = []\<rparr>
   in attempts_ok rv ''5'' log attempts ''5'' \<and>
      (\<exists>n \<le> length log. \<exists>s sched' v e.
        ListAndWatch informer_store rv (Inr (''5'', [(''a'', ''1'')])) attempts r =
          (\<lparr>rf_store = (s, sched'), rf_lastSyncResourceVersion = v\<rparr>, v, e) \<and> v = (''5'' # map (event_version rv) log) ! n \<and>
        cache_GetByKey (inf_clientState (informer_run (replicate (length (df_queue (inf_fifo s))) ProcessNext) s)) =
          map_option Object \<circ> fold (after_event fst) (take n log) (last_of fst [(''a'', ''1'')]))"
proof -
  let ?log = "[EvModified (''a'', ''6''), EvAdded (''b'', ''7''), EvDeleted (''a'', ''8'')]"
  let ?attempts = "[WatchOpened [EventReceived (EvModified (''a'', ''6'')), ChannelClosed False], ConnectionRefused,
         WatchOpened [EventReceived EvUnexpected, EventReceived (EvAdded (''b'', ''7''))]]"
  let ?sched = "[[ProcessNext], [], [ResyncKey ''a'', ProcessNext]] :: (string \<times> string) informer_op list list"
  have d: "distinct (''5'' # map (event_version snd) ?log)" and a: "attempts_ok snd ''5'' ?log ?attempts ''5''"
    and b: "list_all (list_all background) ?sched" by code_simp+
  have i: "index_total ([] :: (string, (string \<times> string) queued_object index_func) gomap)" by (simp add: index_total_def)
  show ?thesis
    using informer_reflects_server [OF gm.wf_empty i d a b, of "[(''a'', ''1'')]" fst] a unfolding Let_def by blast
qed

end
