(* ===== verification/File_System.thy ===== *)
theory File_System
  imports Mount_Util Go_Effects
begin

text \<open>
  A file system below one directory, with the calls of package \<open>os\<close> that the writer of projected
  volumes uses. A path is the list of its elements below that directory, \<open>[]\<close> is the directory itself.
  Symbolic links are followed as in the kernel. A call that changes files can fail at any time (a full
  disk, an I/O error); \<open>os_faults\<close> says which ones do. \<open>os_trace\<close> keeps the state of the files after each such
  call: what a reader can meet, and what a crash can leave.
\<close>

unbundle bit_operations_syntax

named_theorems os_defs \<open>calls that change files\<close>

section \<open>Files\<close>

type_synonym fpath = "string list"
type_synonym fmode = "32 word"

text \<open>The mode has the bits of \<open>os.FileMode\<close>; the owner never changes.\<close>

record fattr =
  fa_mode :: fmode
  fa_gid :: int

datatype fnode = Dir fattr | File string fattr | Link fpath

type_synonym files = "(fpath, fnode) gomap"

definition ENOENT :: error where "ENOENT = ErrNotExist ''no such file or directory''"
definition ENOTDIR :: error where "ENOTDIR = Errorf ''not a directory'' None"
definition EISDIR :: error where "EISDIR = Errorf ''is a directory'' None"
definition EEXIST :: error where "EEXIST = Errorf ''file exists'' None"
definition EINVAL :: error where "EINVAL = Errorf ''invalid argument'' None"
definition ELOOP :: error where "ELOOP = Errorf ''too many levels of symbolic links'' None"
definition ENOTEMPTY :: error where "ENOTEMPTY = Errorf ''directory not empty'' None"

text \<open>
  Looking up a path from the directory \<open>cur\<close>: at most \<open>n\<close> links are followed, a link at the end only if
  \<open>follow\<close> is set. The result is the place of the last element, where a file may or may not exist. Links that lead out of the
  directory are not followed.
\<close>

function namei :: "nat \<Rightarrow> files \<Rightarrow> bool \<Rightarrow> fpath \<Rightarrow> fpath \<Rightarrow> error + fpath" where
  "namei n fs follow cur [] = Inr cur"
| "namei n fs follow cur (e # es) =
     (if e = ''..'' then (if cur = [] then Inl ENOENT else namei n fs follow (butlast cur) es)
      else case mget fs (cur @ [e]) of
          None \<Rightarrow> if es = [] then Inr (cur @ [e]) else Inl ENOENT
        | Some (Dir m) \<Rightarrow> namei n fs follow (cur @ [e]) es
        | Some (File d m) \<Rightarrow> if es = [] then Inr (cur @ [e]) else Inl ENOTDIR
        | Some (Link t) \<Rightarrow>
            if es = [] \<and> \<not> follow then Inr (cur @ [e])
            else if n = 0 then Inl ELOOP else namei (n - 1) fs follow cur (t @ es))"
  by pat_completeness auto
termination
  by (relation "measures [\<lambda>(n, fs, follow, cur, es). n, \<lambda>(n, fs, follow, cur, es). length es]") auto

definition max_links :: nat where "max_links = 40"

section \<open>Calls that read\<close>

definition node_at :: "bool \<Rightarrow> files \<Rightarrow> fpath \<Rightarrow> error + fnode" where
  "node_at follow fs p =
     (case namei max_links fs follow [] p of
        Inl err \<Rightarrow> Inl err
      | Inr q \<Rightarrow> (case mget fs q of None \<Rightarrow> Inl ENOENT | Some nd \<Rightarrow> Inr nd))"

definition os_Lstat :: "files \<Rightarrow> fpath \<Rightarrow> error + fnode" where
  "os_Lstat fs p = node_at False fs p"

definition os_Stat :: "files \<Rightarrow> fpath \<Rightarrow> error + fnode" where
  "os_Stat fs p = node_at True fs p"

definition os_Readlink :: "files \<Rightarrow> fpath \<Rightarrow> error + fpath" where
  "os_Readlink fs p =
     (case node_at False fs p of
        Inl err \<Rightarrow> Inl err
      | Inr (Link t) \<Rightarrow> Inr t
      | Inr _ \<Rightarrow> Inl EINVAL)"

definition ReadFile :: "files \<Rightarrow> fpath \<Rightarrow> error + string" where
  "ReadFile fs p =
     (case node_at True fs p of
        Inl err \<Rightarrow> Inl err
      | Inr (File d m) \<Rightarrow> Inr d
      | Inr _ \<Rightarrow> Inl EISDIR)"

text \<open>The paths that \<open>filepath.Walk\<close> visits; it does not follow links.\<close>

definition walk_paths :: "files \<Rightarrow> fpath list" where
  "walk_paths fs = map fst fs"

section \<open>Calls that change files\<close>

record os =
  os_files :: files
  os_umask :: fmode
  os_gid :: int
  os_faults :: "error option list"
  os_trace :: "files list"

definition syscall :: "(files \<Rightarrow> error + files) \<Rightarrow> (os, unit) go" where
  "syscall f s =
     (let s' = s\<lparr>os_faults := tl (os_faults s)\<rparr>
      in case os_faults s of
           Some err # _ \<Rightarrow> Some (s', Inl err)
         | _ \<Rightarrow>
             (case f (os_files s) of
                Inl err \<Rightarrow> Some (s', Inl err)
              | Inr fs \<Rightarrow> Some (s'\<lparr>os_files := fs, os_trace := os_trace s @ [fs]\<rparr>, Inr ())))"

text \<open>The place where a call may create an entry.\<close>

definition new_entry :: "files \<Rightarrow> fpath \<Rightarrow> fnode \<Rightarrow> error + files" where
  "new_entry fs p nd =
     (case namei max_links fs False [] p of
        Inl err \<Rightarrow> Inl err
      | Inr q \<Rightarrow> if mhas fs q then Inl EEXIST else Inr (mput q nd fs))"

definition ModeSetuid :: fmode where "ModeSetuid = 0x800000"
definition ModeSetgid :: fmode where "ModeSetgid = 0x400000"
definition ModeSticky :: fmode where "ModeSticky = 0x100000"

text \<open>The bits that \<open>syscallMode\<close> passes to the kernel.\<close>

definition perm :: "fmode \<Rightarrow> fmode" where
  "perm m = take_bit 9 m OR (m AND (ModeSetuid OR ModeSetgid OR ModeSticky))"

definition masked :: "fmode \<Rightarrow> fmode \<Rightarrow> fmode" where
  "masked umask m = perm m AND NOT umask"

text \<open>
  A new entry has the group of the process, or that of its directory if the setgid bit is set there; a new
  directory inherits this bit.
\<close>

definition new_attr :: "os \<Rightarrow> bool \<Rightarrow> fmode \<Rightarrow> fpath \<Rightarrow> files \<Rightarrow> fattr" where
  "new_attr s dir m p fs =
     (let m' = masked (os_umask s) m; plain = \<lparr>fa_mode = m', fa_gid = os_gid s\<rparr>
      in case namei max_links fs (\<not> dir) [] p of
           Inl err \<Rightarrow> plain
         | Inr q \<Rightarrow>
             (case mget fs (butlast q) of
                Some (Dir a) \<Rightarrow>
                  if fa_mode a AND ModeSetgid = 0 then plain
                  else \<lparr>fa_mode = if dir then m' OR ModeSetgid else m', fa_gid = fa_gid a\<rparr>
              | _ \<Rightarrow> plain))"

definition os_Mkdir :: "fmode \<Rightarrow> fpath \<Rightarrow> (os, unit) go" where [os_defs]:
  "os_Mkdir m p = gets (\<lambda>s. syscall (\<lambda>fs. new_entry fs p (Dir (new_attr s True m p fs))))"

definition os_Symlink :: "fpath \<Rightarrow> fpath \<Rightarrow> (os, unit) go" where [os_defs]:
  "os_Symlink target p = syscall (\<lambda>fs. new_entry fs p (Link target))"

text \<open>A file is changed at the place that its path leads to.\<close>

definition change_file :: "(fnode option \<Rightarrow> error + fnode) \<Rightarrow> fpath \<Rightarrow> files \<Rightarrow> error + files" where
  "change_file f p fs =
     (case namei max_links fs True [] p of
        Inl err \<Rightarrow> Inl err
      | Inr q \<Rightarrow> (case f (mget fs q) of Inl err \<Rightarrow> Inl err | Inr nd \<Rightarrow> Inr (mput q nd fs)))"

text \<open>\<open>ioutil.WriteFile\<close>: the file is created, or emptied, and then written.\<close>

definition os_Create :: "fmode \<Rightarrow> fpath \<Rightarrow> (os, unit) go" where [os_defs]:
  "os_Create m p = gets (\<lambda>s. syscall (\<lambda>fs. change_file (\<lambda>nd. case nd of
        None \<Rightarrow> Inr (File [] (new_attr s False m p fs))
      | Some (File d a) \<Rightarrow> Inr (File [] a)
      | Some _ \<Rightarrow> Inl EISDIR) p fs))"

definition os_WriteData :: "string \<Rightarrow> fpath \<Rightarrow> (os, unit) go" where [os_defs]:
  "os_WriteData data p = syscall (change_file (\<lambda>nd. case nd of
        Some (File d a) \<Rightarrow> Inr (File data a)
      | _ \<Rightarrow> Inl EINVAL) p)"

definition WriteFile :: "fpath \<Rightarrow> string \<Rightarrow> fmode \<Rightarrow> (os, unit) go" where
  "WriteFile p data m = and_then (os_Create m p) (\<lambda>_. os_WriteData data p)"

definition os_Chmod :: "fpath \<Rightarrow> fmode \<Rightarrow> (os, unit) go" where [os_defs]:
  "os_Chmod p m = syscall (change_file (\<lambda>nd. case nd of
        None \<Rightarrow> Inl ENOENT
      | Some (Dir a) \<Rightarrow> Inr (Dir (a\<lparr>fa_mode := perm m\<rparr>))
      | Some (File d a) \<Rightarrow> Inr (File d (a\<lparr>fa_mode := perm m\<rparr>))
      | Some (Link t) \<Rightarrow> Inl ELOOP) p)"

text \<open>Changing the group of a file takes the setuid and setgid bits of a program away.\<close>

definition chown_mode :: "fmode \<Rightarrow> fmode" where
  "chown_mode m = m AND NOT (if m AND 0x8 = 0 then ModeSetuid else ModeSetuid OR ModeSetgid)"

definition os_Chown :: "fpath \<Rightarrow> int \<Rightarrow> (os, unit) go" where [os_defs]:
  "os_Chown p gid = syscall (change_file (\<lambda>nd. case nd of
        None \<Rightarrow> Inl ENOENT
      | Some (Dir a) \<Rightarrow> Inr (Dir (a\<lparr>fa_gid := gid\<rparr>))
      | Some (File d a) \<Rightarrow> Inr (File d \<lparr>fa_mode = chown_mode (fa_mode a), fa_gid = gid\<rparr>)
      | Some (Link t) \<Rightarrow> Inl ELOOP) p)"

definition has_children :: "files \<Rightarrow> fpath \<Rightarrow> bool" where
  "has_children fs p \<longleftrightarrow> list_ex (\<lambda>(q, nd). q \<noteq> [] \<and> butlast q = p) fs"

definition remove_entry :: "fpath \<Rightarrow> files \<Rightarrow> error + files" where
  "remove_entry p fs =
     (case namei max_links fs False [] p of
        Inl err \<Rightarrow> Inl err
      | Inr q \<Rightarrow>
          if \<not> mhas fs q then Inl ENOENT
          else if q = [] then Inl EINVAL
          else if has_children fs q then Inl ENOTEMPTY
          else Inr (mdel q fs))"

definition os_Remove :: "fpath \<Rightarrow> (os, unit) go" where [os_defs]:
  "os_Remove p = syscall (remove_entry p)"

text \<open>
  \<open>rename\<close> replaces a file or link at the new place in one step; a directory is moved with everything in it, and replaces
  an empty directory.
\<close>

definition move_tree :: "fpath \<Rightarrow> fpath \<Rightarrow> files \<Rightarrow> files" where
  "move_tree q q' fs = map (\<lambda>(p, nd). (if prefix q p then q' @ drop (length q) p else p, nd)) (mdel q' fs)"

definition rename_entry :: "fpath \<Rightarrow> fpath \<Rightarrow> files \<Rightarrow> error + files" where
  "rename_entry p p' fs =
     (case (namei max_links fs False [] p, namei max_links fs False [] p') of
        (Inl err, _) \<Rightarrow> Inl err
      | (_, Inl err) \<Rightarrow> Inl err
      | (Inr q, Inr q') \<Rightarrow>
          (case mget fs q of
             None \<Rightarrow> Inl ENOENT
           | Some (Dir m) \<Rightarrow>
               if q = q' then Inr fs
               else if prefix q q' then Inl EINVAL
               else (case mget fs q' of
                   None \<Rightarrow> Inr (move_tree q q' fs)
                 | Some (Dir m) \<Rightarrow> if has_children fs q' then Inl ENOTEMPTY else Inr (move_tree q q' fs)
                 | Some _ \<Rightarrow> Inl ENOTDIR)
           | Some nd \<Rightarrow>
               (case mget fs q' of
                  Some (Dir m) \<Rightarrow> Inl EISDIR
                | _ \<Rightarrow> Inr (mput q' nd (mdel q fs)))))"

definition os_Rename :: "fpath \<Rightarrow> fpath \<Rightarrow> (os, unit) go" where [os_defs]:
  "os_Rename p p' = syscall (rename_entry p p')"

text \<open>\<open>MkdirAll\<close>: the directories of the path that do not exist, from the outermost on.\<close>

function MkdirAll :: "fmode \<Rightarrow> fpath \<Rightarrow> (os, unit) go" where
  "MkdirAll m p =
     gets (\<lambda>s. case os_Stat (os_files s) p of
         Inr (Dir _) \<Rightarrow> ret ()
       | Inr _ \<Rightarrow> fail ENOTDIR
       | Inl _ \<Rightarrow>
           and_then (if p = [] then ret () else MkdirAll m (butlast p)) (\<lambda>_.
             on_result (os_Mkdir m p) (\<lambda>r. case r of
                 Inr _ \<Rightarrow> ret ()
               | Inl err \<Rightarrow>
                   gets (\<lambda>s. case os_Lstat (os_files s) p of
                       Inr (Dir _) \<Rightarrow> ret ()
                     | _ \<Rightarrow> fail err))))"
  by pat_completeness auto
termination
  by (relation "measure (\<lambda>(m, p). length p)") auto

declare MkdirAll.simps [simp del]

text \<open>\<open>RemoveAll\<close>: the entries below a directory are removed with the deepest first; an error does not stop it.\<close>

definition descendants :: "files \<Rightarrow> fpath \<Rightarrow> fpath list" where
  "descendants fs p = rev (sort_key length (filter (strict_prefix p) (walk_paths fs)))"

fun remove_each :: "fpath list \<Rightarrow> error option \<Rightarrow> (os, error option) go" where
  "remove_each [] err = ret err"
| "remove_each (q # qs) err =
     on_result (os_Remove q) (\<lambda>r. remove_each qs
       (case (err, r) of
          (None, Inl e) \<Rightarrow> if os_IsNotExist e then None else Some e
        | _ \<Rightarrow> err))"

definition remove_dir :: "fpath \<Rightarrow> error option \<Rightarrow> (os, unit) go" where
  "remove_dir p err =
     on_result (os_Remove p) (\<lambda>r. case r of
         Inr _ \<Rightarrow> ret ()
       | Inl err1 \<Rightarrow>
           if os_IsNotExist err1 then ret ()
           else fail (case err of Some e \<Rightarrow> e | None \<Rightarrow> err1))"

definition RemoveAll :: "fpath \<Rightarrow> (os, unit) go" where
  "RemoveAll p =
     on_result (os_Remove p) (\<lambda>r. case r of
         Inr _ \<Rightarrow> ret ()
       | Inl err \<Rightarrow>
           if os_IsNotExist err then ret ()
           else gets (\<lambda>s. case os_Lstat (os_files s) p of
               Inl serr \<Rightarrow> if os_IsNotExist serr \<or> serr = ENOTDIR then ret () else fail serr
             | Inr (Dir _) \<Rightarrow>
                 and_then (remove_each (descendants (os_files s) p) None) (remove_dir p)
             | Inr _ \<Rightarrow> fail err))"

section \<open>Looking up paths\<close>

definition is_dir :: "files \<Rightarrow> fpath \<Rightarrow> bool" where
  "is_dir fs p \<longleftrightarrow> (case mget fs p of Some (Dir m) \<Rightarrow> True | _ \<Rightarrow> False)"

lemma is_dir_iff: "is_dir fs p \<longleftrightarrow> (\<exists>m. mget fs p = Some (Dir m))"
  by (auto simp: is_dir_def split: option.splits fnode.splits)

text \<open>Every entry is in a directory, and no entry is named \<open>..\<close>.\<close>

definition fs_ok :: "files \<Rightarrow> bool" where
  "fs_ok fs \<longleftrightarrow> mwf fs \<and> is_dir fs [] \<and>
     (\<forall>p e. mget fs (p @ [e]) \<noteq> None \<longrightarrow> is_dir fs p \<and> e \<noteq> ''..'')"

lemma fs_ok_parent: "fs_ok fs \<Longrightarrow> mget fs (p @ q) \<noteq> None \<Longrightarrow> q \<noteq> [] \<Longrightarrow> is_dir fs p"
proof (induction q rule: rev_induct)
  case (snoc e q)
  then have "is_dir fs (p @ q)" by (auto simp: fs_ok_def simp flip: append_assoc)
  with snoc show ?case by (cases "q = []") (auto simp: is_dir_iff)
qed simp

lemma fs_ok_names: "fs_ok fs \<Longrightarrow> mget fs p \<noteq> None \<Longrightarrow> ''..'' \<notin> set p"
proof (induction p rule: rev_induct)
  case (snoc e p)
  then have "is_dir fs p" "e \<noteq> ''..''" by (auto simp: fs_ok_def)
  with snoc show ?case by (auto simp: is_dir_iff)
qed simp

lemma namei_walk:
  "fs_ok fs \<Longrightarrow> is_dir fs (cur @ p) \<Longrightarrow> namei n fs follow cur (p @ es) = namei n fs follow (cur @ p) es"
proof (induction p arbitrary: cur)
  case (Cons e p)
  then have d: "is_dir fs (cur @ [e])"
    using fs_ok_parent [of fs "cur @ [e]" p] by (cases "p = []") (auto simp: is_dir_iff split: option.splits)
  moreover have "e \<noteq> ''..''" using fs_ok_names [OF Cons.prems(1), of "cur @ [e]"] d by (auto simp: is_dir_iff)
  ultimately show ?case using Cons.IH [of "cur @ [e]"] Cons.prems by (auto simp: is_dir_iff split: option.splits fnode.splits)
qed simp

lemma namei_up: "namei n fs follow cur (replicate (length cur) ''..'' @ es) = namei n fs follow [] es"
proof (induction "length cur" arbitrary: cur)
  case (Suc k)
  then have "cur \<noteq> []" "k = length (butlast cur)" by auto
  with Suc show ?case by (metis append_Cons namei.simps(2) replicate_Suc)
qed simp

text \<open>A path leads to its parent directory, or something on the way is not a directory.\<close>

lemma path_cases:
  assumes "is_dir fs []" and "p \<noteq> []"
  obtains (parent) "is_dir fs (butlast p)"
    | (blocked) a e rest where "p = a @ e # rest" "rest \<noteq> []" "is_dir fs a" "\<not> is_dir fs (a @ [e])"
  using assms(2)
proof (induction p arbitrary: thesis rule: rev_induct)
  case (snoc x p)
  show ?case
  proof (cases "p = [] \<or> is_dir fs p")
    case True
    then show ?thesis using snoc.prems(1) assms(1) by auto
  next
    case False
    show ?thesis
    proof (rule snoc.IH)
      show "p \<noteq> []" using False by simp
      assume "is_dir fs (butlast p)"
      then show ?thesis using False snoc.prems(2) [of "butlast p" "last p" "[x]"] by simp
    next
      fix a e rest assume "p = a @ e # rest" "rest \<noteq> []" "is_dir fs a" "\<not> is_dir fs (a @ [e])"
      then show ?thesis using snoc.prems(2) [of a e "rest @ [x]"] by simp
    qed
  qed
qed simp

lemma namei_parent:
  assumes "fs_ok fs" and "is_dir fs p" and "e \<noteq> ''..''"
  shows "namei n fs follow [] (p @ [e]) =
    (case mget fs (p @ [e]) of
       Some (Link t) \<Rightarrow> if follow then (if n = 0 then Inl ELOOP else namei (n - 1) fs follow p t) else Inr (p @ [e])
     | _ \<Rightarrow> Inr (p @ [e]))"
  using namei_walk [OF assms(1), of "[]" p n follow "[e]"] assms(2,3) by (auto split: option.splits fnode.splits)

text \<open>Where there are no links a path stays what it is, and it cannot go through something that is not a directory.\<close>

lemma namei_no_links:
  assumes "\<And>q t. mget fs (cur @ q) = Some (Link t) \<Longrightarrow> \<not> prefix q p" and "''..'' \<notin> set p" and "is_dir fs cur"
  shows "namei n fs follow cur p = Inr q \<Longrightarrow> q = cur @ p \<and> (p \<noteq> [] \<longrightarrow> is_dir fs (cur @ butlast p))"
  using assms
proof (induction p arbitrary: cur)
  case (Cons e p)
  have l: "mget fs (cur @ [e]) \<noteq> Some (Link t)" for t using Cons.prems(2) [of "[e]" t] by auto
  show ?case
  proof (cases "is_dir fs (cur @ [e])")
    case True
    moreover have "namei n fs follow (cur @ [e]) p = Inr q" using True Cons.prems(1,3) by (auto simp: is_dir_iff)
    ultimately show ?thesis
      using Cons.IH [of "cur @ [e]"] Cons.prems(2) [of "e # r" t for r t] Cons.prems(3,4) by auto
  next
    case False
    then show ?thesis using l Cons.prems(1,3,4) by (auto simp: is_dir_iff split: if_splits option.splits fnode.splits)
  qed
qed simp

lemma namei_blocked:
  assumes "\<And>q t. mget fs (cur @ q) = Some (Link t) \<Longrightarrow> \<not> prefix q p" and "''..'' \<notin> set p" and "p \<noteq> []"
    and "\<not> is_dir fs (cur @ p)" and "rest \<noteq> []"
  shows "\<exists>err. namei n fs follow cur (p @ rest) = Inl err"
  using assms(1-4)
proof (induction p arbitrary: cur)
  case (Cons e p)
  have l: "mget fs (cur @ [e]) \<noteq> Some (Link t)" for t using Cons.prems(1) [of "[e]" t] by auto
  show ?case
  proof (cases "is_dir fs (cur @ [e])")
    case True
    then have "p \<noteq> []" using Cons.prems(4) by auto
    then have "\<exists>err. namei n fs follow (cur @ [e]) (p @ rest) = Inl err"
      using Cons.IH [of "cur @ [e]"] Cons.prems(1) [of "e # r" t for r t] Cons.prems(2,4) by auto
    then show ?thesis using True Cons.prems(2) by (auto simp: is_dir_iff split: option.splits fnode.splits)
  next
    case False
    then show ?thesis using l Cons.prems(2) assms(5) by (auto simp: is_dir_iff split: option.splits fnode.splits)
  qed
qed simp

section \<open>Entries that come and go\<close>

lemma has_children_iff: "mwf fs \<Longrightarrow> has_children fs p \<longleftrightarrow> (\<exists>e. mget fs (p @ [e]) \<noteq> None)"
proof -
  assume w: "mwf fs"
  have "has_children fs p \<longleftrightarrow> (\<exists>q nd. mget fs q = Some nd \<and> q \<noteq> [] \<and> butlast q = p)"
    using gm.entries_get [OF w] by (auto simp: has_children_def list_ex_iff)
  also have "\<dots> \<longleftrightarrow> (\<exists>e. mget fs (p @ [e]) \<noteq> None)"
    by (metis append_butlast_last_id butlast_snoc not_None_eq snoc_eq_iff_butlast)
  finally show ?thesis .
qed

lemma is_dir_put: "is_dir (mput q nd fs) p \<longleftrightarrow> (if p = q then (\<exists>m. nd = Dir m) else is_dir fs p)"
  by (auto simp: is_dir_iff gm.get_put)

lemma is_dir_del: "is_dir (mdel q fs) p \<longleftrightarrow> p \<noteq> q \<and> is_dir fs p"
  by (auto simp: is_dir_iff gm.get_del)

lemma fs_ok_put:
  assumes "fs_ok fs" and "q \<noteq> []" and "is_dir fs (butlast q)" and "last q \<noteq> ''..''" and "is_dir fs q \<Longrightarrow> \<exists>m. nd = Dir m"
  shows "fs_ok (mput q nd fs)"
proof -
  have d: "is_dir fs p \<Longrightarrow> is_dir (mput q nd fs) p" for p using assms(5) by (auto simp: is_dir_put)
  have "is_dir (mput q nd fs) p \<and> e \<noteq> ''..''" if "mget (mput q nd fs) (p @ [e]) \<noteq> None" for p e
  proof (cases "q = p @ [e]")
    case True
    then show ?thesis using assms(3,4) d by auto
  next
    case False
    then show ?thesis using that assms(1) d by (auto simp: fs_ok_def gm.get_put)
  qed
  then show ?thesis using assms(1) d by (auto simp: fs_ok_def)
qed

lemma fs_ok_del: "fs_ok fs \<Longrightarrow> q \<noteq> [] \<Longrightarrow> \<not> has_children fs q \<Longrightarrow> fs_ok (mdel q fs)"
  using has_children_iff [of fs q] by (auto simp: fs_ok_def is_dir_del gm.get_del)

section \<open>What holds along the trace\<close>

text \<open>\<open>traced T Q\<close>: \<open>T\<close> holds of the states so far, and \<open>Q\<close> of the present one.\<close>

definition traced :: "(files list \<Rightarrow> bool) \<Rightarrow> (files \<Rightarrow> bool) \<Rightarrow> os \<Rightarrow> bool" where
  "traced T Q s \<longleftrightarrow> T (os_trace s) \<and> Q (os_files s)"

lemma outcome_syscall:
  assumes "traced T Q s" and "\<And>fs. f (os_files s) = Inr fs \<Longrightarrow> T' (os_trace s @ [fs]) \<and> Q' fs"
  shows "outcome (syscall f) s (\<lambda>s' _. traced T' Q' s') (\<lambda>s' _. traced T Q s')"
  using assms by (auto simp: outcome_def syscall_def traced_def Let_def split: list.split option.split sum.split)

lemma keeps_syscall:
  assumes "\<And>fs fs'. Q fs \<Longrightarrow> f fs = Inr fs' \<Longrightarrow> Q fs'" and "\<And>tr fs. T tr \<Longrightarrow> Q fs \<Longrightarrow> T (tr @ [fs])"
  shows "keeps (traced T Q) (syscall f)"
  unfolding keeps_def
proof (intro allI impI)
  fix s assume t: "traced T Q s"
  show "outcome (syscall f) s (\<lambda>s' _. traced T Q s') (\<lambda>s' _. traced T Q s')"
    by (rule outcome_syscall [OF t]) (use t assms in \<open>auto simp: traced_def\<close>)
qed

lemma new_entry_Inr:
  "new_entry fs p nd = Inr fs' \<longleftrightarrow> (\<exists>q. namei max_links fs False [] p = Inr q \<and> mget fs q = None \<and> fs' = mput q nd fs)"
  by (auto simp: new_entry_def mhas_def split: sum.split)

lemma change_file_Inr:
  "change_file f p fs = Inr fs' \<longleftrightarrow>
   (\<exists>q nd. namei max_links fs True [] p = Inr q \<and> f (mget fs q) = Inr nd \<and> fs' = mput q nd fs)"
  by (auto simp: change_file_def split: sum.split)

lemma remove_entry_Inr:
  "remove_entry p fs = Inr fs' \<longleftrightarrow>
   (\<exists>q. namei max_links fs False [] p = Inr q \<and> q \<noteq> [] \<and> mget fs q \<noteq> None \<and> \<not> has_children fs q \<and> fs' = mdel q fs)"
  by (auto simp: remove_entry_def mhas_def split: sum.split)

lemma outcome_MkdirAll:
  assumes "P s" and "q \<noteq> []" and "keeps P (MkdirAll m (butlast q))"
    and "\<And>s. P s \<Longrightarrow> outcome (os_Mkdir m q) s (\<lambda>s' _. P s' \<and> R s') (\<lambda>s' _. P s')"
    and "\<And>s m. P s \<Longrightarrow> os_Stat (os_files s) q = Inr (Dir m) \<Longrightarrow> R s"
    and "\<And>s m. P s \<Longrightarrow> os_Lstat (os_files s) q = Inr (Dir m) \<Longrightarrow> R s"
  shows "outcome (MkdirAll m q) s (\<lambda>s' _. P s' \<and> R s') (\<lambda>s' _. P s')"
proof -
  let ?mk = "on_result (os_Mkdir m q) (\<lambda>r. case r of Inr _ \<Rightarrow> ret ()
      | Inl err \<Rightarrow> gets (\<lambda>s. case os_Lstat (os_files s) q of Inr (Dir _) \<Rightarrow> ret () | _ \<Rightarrow> fail err))"
  have mk: "outcome ?mk s (\<lambda>s' _. P s' \<and> R s') (\<lambda>s' _. P s')" if "P s" for s
    unfolding go_wp using assms(4) [OF that]
    by (rule outcome_mono) (use assms(6) in \<open>auto simp: go_wp split: sum.split fnode.split\<close>)
  have rec: "outcome (and_then (MkdirAll m (butlast q)) (\<lambda>_. ?mk)) s (\<lambda>s' _. P s' \<and> R s') (\<lambda>s' _. P s')"
    unfolding outcome_and_then by (rule outcome_mono [OF keepsD [OF assms(3,1)] mk])
  have "MkdirAll m q = gets (\<lambda>s. case os_Stat (os_files s) q of Inr (Dir _) \<Rightarrow> ret () | Inr _ \<Rightarrow> fail ENOTDIR
      | Inl _ \<Rightarrow> and_then (MkdirAll m (butlast q)) (\<lambda>_. ?mk))"
    by (subst MkdirAll.simps) (simp only: assms(2) if_False)
  then show ?thesis
    using rec assms(1,5)
    by (cases "os_Stat (os_files s) q") (simp_all only: outcome_gets sum.case, auto simp: outcome_ret outcome_fail split: fnode.split)
qed

lemma keeps_MkdirAll:
  "q \<noteq> [] \<Longrightarrow> keeps P (MkdirAll m (butlast q)) \<Longrightarrow> keeps P (os_Mkdir m q) \<Longrightarrow> keeps P (MkdirAll m q)"
  using outcome_MkdirAll [of P _ q m "\<lambda>_. True"] by (simp add: keeps_def)

text \<open>\<open>RemoveAll\<close> only removes entries at or below its path.\<close>

lemma keeps_RemoveAll_entries:
  assumes "\<And>q. E q \<Longrightarrow> keeps P (os_Remove q)" and "E p" and "\<And>s q. P s \<Longrightarrow> prefix p q \<Longrightarrow> mget (os_files s) q \<noteq> None \<Longrightarrow> E q"
  shows "keeps P (RemoveAll p)"
proof -
  have each: "keeps P (remove_each qs err)" if "\<forall>q \<in> set qs. E q" for qs err
    using that
  proof (induction qs arbitrary: err)
    case (Cons q qs)
    then show ?case using assms(1) by (auto intro!: keeps_on_result)
  qed (simp add: keeps_basic)
  have below: "\<forall>q \<in> set (descendants (os_files s) p). E q" if "P s" for s
    using assms(3) [OF that] by (auto simp: descendants_def walk_paths_def strict_prefix_def mget_def map_of_eq_None_iff)
  note rm = assms(1) [OF assms(2)]
  have "keeps P (remove_dir p err)" for err
    unfolding remove_dir_def by (rule keeps_on_result [OF rm]) (auto intro: keeps_basic split: sum.split)
  then have dir: "keeps P (and_then (remove_each (descendants (os_files s) p) None) (remove_dir p))" if "P s" for s
    by (rule keeps_and_then [OF each [OF below [OF that]]])
  show ?thesis
    unfolding RemoveAll_def
  proof (rule keeps_on_result [OF rm], goal_cases)
    case (1 r)
    show ?case
      using keepsD [OF dir]
      by (auto intro!: keeps_basic keeps_gets simp: outcome_ret outcome_fail split: sum.split fnode.split)
  qed
qed

lemma keeps_RemoveAll:
  assumes "\<And>q. prefix p q \<Longrightarrow> ''..'' \<notin> set q \<Longrightarrow> keeps P (os_Remove q)" and "''..'' \<notin> set p"
    and "\<And>s. P s \<Longrightarrow> fs_ok (os_files s)"
  shows "keeps P (RemoveAll p)"
proof (rule keeps_RemoveAll_entries [where E = "\<lambda>q. prefix p q \<and> ''..'' \<notin> set q"])
  fix s q assume "P s" and q: "prefix p q" "mget (os_files s) q \<noteq> None"
  then show "prefix p q \<and> ''..'' \<notin> set q" using fs_ok_names [OF assms(3) q(2)] by simp
qed (use assms in auto)

end
