(* ===== verification/Atomic_Writer.thy ===== *)
theory Atomic_Writer
  imports File_System "HOL-Library.Char_ord" "HOL-Library.List_Lexorder"
begin

text \<open>
  The atomic writer of \<open>pkg/volume/util/atomic_writer.go\<close>, which config map, secret and downward API
  volumes use to put their files into a volume. The files below its target directory are the state. A clean
  relative path is the list of its elements, so \<open>filepath.Split\<close> is \<open>butlast\<close> and \<open>path.Join\<close> is
  concatenation. The branches for Windows are left out. \<open>ts\<close> is the name that \<open>ioutil.TempDir\<close> chooses.
\<close>

section \<open>Definitions\<close>

record FileProjection =
  fp_Data :: string
  fp_Mode :: fmode

type_synonym payload = "(fpath, FileProjection) gomap"

definition maxFileNameLength :: nat where "maxFileNameLength = 255"
definition maxPathLength :: nat where "maxPathLength = 4096"
definition dataDirName :: string where "dataDirName = ''..data''"
definition newDataDirName :: string where "newDataDirName = ''..data_tmp''"

definition NewAtomicWriter :: "files \<Rightarrow> error option" where
  "NewAtomicWriter fs =
     (case os_Stat fs [] of
        Inl err \<Rightarrow> if os_IsNotExist err then Some err else None
      | Inr _ \<Rightarrow> None)"

definition hidden :: "string \<Rightarrow> bool" where
  "hidden e \<longleftrightarrow> take 2 e = ''..''"

fun validate_items :: "string list \<Rightarrow> error option" where
  "validate_items [] = None"
| "validate_items (item # items) =
     (if item = ''..'' then Some (Errorf ''invalid path: must not contain ..'' None)
      else if length item > maxFileNameLength then Some (Errorf ''invalid path: filenames must be less than 255 characters'' None)
      else validate_items items)"

definition validatePath :: "string \<Rightarrow> error option" where
  "validatePath targetPath =
     (if targetPath = '''' then Some (Errorf ''invalid path: must not be empty'' None)
      else if hd targetPath = CHR ''/'' then Some (Errorf ''invalid path: must be relative path'' None)
      else if length targetPath > maxPathLength then Some (Errorf ''invalid path: must be less than 4096 characters'' None)
      else let items = strings_Split targetPath (CHR ''/'')
           in case validate_items items of
                Some err \<Rightarrow> Some err
              | None \<Rightarrow>
                  if hidden (items ! 0) \<and> length (items ! 0) > 2
                  then Some (Errorf ''invalid path: must not start with ..'' None) else None)"

text \<open>The elements of a path; \<open>.\<close> is the directory itself.\<close>

definition path_elems :: "string \<Rightarrow> fpath" where
  "path_elems p = filter (\<lambda>e. e \<noteq> [] \<and> e \<noteq> ''.'') (strings_Split p (CHR ''/''))"

fun validatePayload_loop :: "(string, FileProjection) gomap \<Rightarrow> payload \<Rightarrow> error + payload" where
  "validatePayload_loop [] cleanPayload = Inr cleanPayload"
| "validatePayload_loop ((k, content) # rest) cleanPayload =
     (case validatePath k of
        Some err \<Rightarrow> Inl err
      | None \<Rightarrow> validatePayload_loop rest (mput (path_elems (path_Clean k)) content cleanPayload))"

definition validatePayload :: "(string, FileProjection) gomap \<Rightarrow> error + payload" where
  "validatePayload p = validatePayload_loop p []"

definition shouldWriteFile :: "files \<Rightarrow> fpath \<Rightarrow> string \<Rightarrow> error + bool" where
  "shouldWriteFile fs p content =
     (if (case os_Lstat fs p of Inl err \<Rightarrow> os_IsNotExist err | Inr _ \<Rightarrow> False) then Inr True
      else case ReadFile fs p of
          Inl err \<Rightarrow> Inl err
        | Inr contentOnFs \<Rightarrow> Inr (content \<noteq> contentOnFs))"

fun shouldWritePayload :: "files \<Rightarrow> payload \<Rightarrow> error + bool" where
  "shouldWritePayload fs [] = Inr False"
| "shouldWritePayload fs ((p, proj) # rest) =
     (case shouldWriteFile fs p (fp_Data proj) of
        Inl err \<Rightarrow> Inl err
      | Inr True \<Rightarrow> Inr True
      | Inr False \<Rightarrow> shouldWritePayload fs rest)"

text \<open>All non-empty prefixes of a path, from the path itself on.\<close>

function sub_paths :: "fpath \<Rightarrow> fpath list" where
  "sub_paths p = (if p = [] then [] else p # sub_paths (butlast p))"
  by pat_completeness auto
termination
  by (relation "measure length") auto

declare sub_paths.simps [simp del]

definition path_visible :: "fpath \<Rightarrow> bool" where
  "path_visible p \<longleftrightarrow> p \<noteq> [] \<and> \<not> hidden (hd p)"

definition pathsToRemove :: "files \<Rightarrow> payload \<Rightarrow> fpath list" where
  "pathsToRemove fs payload =
     (let paths = filter path_visible (walk_paths fs);
          newPaths = concat (map (\<lambda>(file, _). sub_paths file) payload)
      in filter (\<lambda>p. p \<notin> set newPaths) paths)"

definition newTimestampDir :: "string \<Rightarrow> (os, fpath) go" where
  "newTimestampDir ts =
     and_then (os_Mkdir 0x1C0 [ts]) (\<lambda>_.
     and_then (os_Chmod [ts] 0x1ED) (\<lambda>_. ret [ts]))"

fun writePayloadToDir :: "payload \<Rightarrow> fpath \<Rightarrow> (os, unit) go" where
  "writePayloadToDir [] dir = ret ()"
| "writePayloadToDir ((p, proj) # rest) dir =
     and_then (MkdirAll 0x1FF (butlast (dir @ p))) (\<lambda>_.
     and_then (WriteFile (dir @ p) (fp_Data proj) (fp_Mode proj)) (\<lambda>_.
     on_result (os_Chmod (dir @ p) (fp_Mode proj)) (\<lambda>_. writePayloadToDir rest dir)))"

fun createUserVisibleFiles :: "payload \<Rightarrow> (os, unit) go" where
  "createUserVisibleFiles [] = ret ()"
| "createUserVisibleFiles ((p, _) # rest) =
     (let dir = butlast p; subDirs = length dir
      in and_then (if dir \<noteq> [] then MkdirAll 0x1FF dir else ret ()) (\<lambda>_.
         and_then (gets (\<lambda>s. case os_Readlink (os_files s) p of
              Inl err \<Rightarrow>
                if os_IsNotExist err then os_Symlink (replicate subDirs ''..'' @ dataDirName # p) p else ret ()
            | Inr _ \<Rightarrow> ret ())) (\<lambda>_.
         createUserVisibleFiles rest)))"

fun remove_paths :: "fpath list \<Rightarrow> (os, unit) go" where
  "remove_paths [] = ret ()"
| "remove_paths (p # ps) = and_then (os_Remove p) (\<lambda>_. remove_paths ps)"

definition removeUserVisiblePaths :: "fpath list \<Rightarrow> (os, unit) go" where
  "removeUserVisiblePaths paths = remove_paths (rev (sort_key (\<lambda>p. strings_Join p ''/'') paths))"

text \<open>Steps (7) to (11) of \<open>Write\<close>: the new directory becomes the data directory.\<close>

definition swap_data_dir :: "fpath \<Rightarrow> fpath list \<Rightarrow> (os, unit) go" where
  "swap_data_dir tsDir remove =
     and_then (gets (\<lambda>s. case os_Readlink (os_files s) [dataDirName] of
         Inl err \<Rightarrow> if os_IsNotExist err then ret [] else fail err
       | Inr oldTsDir \<Rightarrow> ret oldTsDir)) (\<lambda>oldTsDir.
        on_result (os_Symlink [last tsDir] [newDataDirName]) (\<lambda>r. case r of
            Inl err \<Rightarrow> on_result (RemoveAll tsDir) (\<lambda>_. fail err)
          | Inr _ \<Rightarrow>
              on_result (os_Rename [newDataDirName] [dataDirName]) (\<lambda>r. case r of
                  Inl err \<Rightarrow>
                    on_result (os_Remove [newDataDirName]) (\<lambda>_. on_result (RemoveAll tsDir) (\<lambda>_. fail err))
                | Inr _ \<Rightarrow>
                    and_then (removeUserVisiblePaths remove) (\<lambda>_.
                      if length oldTsDir > 0 then RemoveAll oldTsDir else ret ()))))"

definition AtomicWriter_Write :: "string \<Rightarrow> (string, FileProjection) gomap \<Rightarrow> (os, unit) go" where
  "AtomicWriter_Write ts payload =
     and_then (result (validatePayload payload)) (\<lambda>cleanPayload.
     gets (\<lambda>s.
       let remove = pathsToRemove (os_files s) cleanPayload
       in and_then (result (shouldWritePayload (os_files s) cleanPayload)) (\<lambda>should.
          if \<not> should \<and> remove = [] then ret ()
          else and_then (newTimestampDir ts) (\<lambda>tsDir.
               and_then (writePayloadToDir cleanPayload tsDir) (\<lambda>_.
               and_then (createUserVisibleFiles cleanPayload) (\<lambda>_.
               swap_data_dir tsDir remove))))))"

section \<open>What a reader sees\<close>

definition link_target :: "fpath \<Rightarrow> fpath" where
  "link_target p = replicate (length (butlast p)) ''..'' @ dataDirName # p"

definition cur_dir :: "files \<Rightarrow> string option" where
  "cur_dir fs = (case mget fs [dataDirName] of Some (Link [c]) \<Rightarrow> Some c | _ \<Rightarrow> None)"

text \<open>
  The layout that the comment on the type describes. The data directory is a link to a hidden directory; the
  visible files are links into the data directory, in real directories; and every file of the data
  directory has its link. Other hidden directories, left over from writes that failed, do no harm.
\<close>

definition data_dir_ok :: "files \<Rightarrow> bool" where
  "data_dir_ok fs \<longleftrightarrow> (case mget fs [dataDirName] of
      None \<Rightarrow> True
    | Some (Link [c]) \<Rightarrow> hidden c \<and> is_dir fs [c]
    | _ \<Rightarrow> False)"

definition visible_ok :: "fpath \<Rightarrow> fnode \<Rightarrow> bool" where
  "visible_ok p nd \<longleftrightarrow>
     (case nd of
        Dir m \<Rightarrow> True
      | File d m \<Rightarrow> \<not> path_visible p
      | Link t \<Rightarrow> if path_visible p then t = link_target p else p \<in> {[dataDirName], [newDataDirName]})"

definition data_linked :: "files \<Rightarrow> string \<Rightarrow> bool" where
  "data_linked fs c \<longleftrightarrow> (\<forall>p nd. p \<noteq> [] \<longrightarrow> mget fs (c # p) = Some nd \<longrightarrow> path_visible p \<and>
     (case nd of Dir m \<Rightarrow> is_dir fs p | _ \<Rightarrow> \<exists>t. mget fs p = Some (Link t)))"

definition aw_inv :: "files \<Rightarrow> bool" where
  "aw_inv fs \<longleftrightarrow> fs_ok fs \<and> data_dir_ok fs \<and> (\<forall>p nd. mget fs p = Some nd \<longrightarrow> visible_ok p nd) \<and>
     (\<forall>c. cur_dir fs = Some c \<longrightarrow> data_linked fs c)"

definition file_data :: "files \<Rightarrow> fpath \<Rightarrow> string option" where
  "file_data fs p = (case mget fs p of Some (File d m) \<Rightarrow> Some d | _ \<Rightarrow> None)"

definition data_of :: "files \<Rightarrow> fpath \<Rightarrow> string option" where
  "data_of fs p = (case cur_dir fs of None \<Rightarrow> None | Some c \<Rightarrow> file_data fs (c # p))"

definition read_data :: "files \<Rightarrow> fpath \<Rightarrow> string option" where
  "read_data fs p = (case ReadFile fs p of Inl err \<Rightarrow> None | Inr d \<Rightarrow> Some d)"

lemma data_linked_dir: "data_linked fs c \<Longrightarrow> is_dir fs (c # p) \<Longrightarrow> p \<noteq> [] \<Longrightarrow> is_dir fs p"
  by (force simp: data_linked_def is_dir_iff)

lemma data_linkedD:
  "data_linked fs c \<Longrightarrow> p \<noteq> [] \<Longrightarrow> mget fs (c # p) = Some nd \<Longrightarrow> path_visible p \<and>
   (case nd of Dir m \<Rightarrow> is_dir fs p | _ \<Rightarrow> \<exists>t. mget fs p = Some (Link t))"
  by (simp add: data_linked_def)

lemma names_distinct [simp]:
  "hidden dataDirName" "hidden newDataDirName" "dataDirName \<noteq> newDataDirName" "newDataDirName \<noteq> dataDirName"
  "dataDirName \<noteq> ''..''" "newDataDirName \<noteq> ''..''"
  by (simp_all add: hidden_def dataDirName_def newDataDirName_def)

lemma not_visible_hidden [simp]: "hidden e \<Longrightarrow> \<not> path_visible (e # p)"
  by (simp add: path_visible_def)

lemma aw_inv_node: "aw_inv fs \<Longrightarrow> mget fs p = Some nd \<Longrightarrow> visible_ok p nd"
  by (simp add: aw_inv_def)

lemma cur_dir_Some:
  "aw_inv fs \<Longrightarrow> cur_dir fs = Some c \<longleftrightarrow> mget fs [dataDirName] = Some (Link [c])"
  by (auto simp: aw_inv_def data_dir_ok_def cur_dir_def split: option.splits fnode.splits list.splits)

lemma cur_dir_None: "aw_inv fs \<Longrightarrow> cur_dir fs = None \<longleftrightarrow> mget fs [dataDirName] = None"
  by (auto simp: aw_inv_def data_dir_ok_def cur_dir_def split: option.splits fnode.splits list.splits)

lemma cur_dir_facts:
  assumes "aw_inv fs" and "cur_dir fs = Some c"
  shows "hidden c" and "is_dir fs [c]" and "c \<noteq> ''..''" and "c \<noteq> dataDirName" and "data_linked fs c"
    and "\<And>q t. mget fs ([c] @ q) = Some (Link t) \<Longrightarrow> \<not> prefix q p"
proof -
  have l: "mget fs [dataDirName] = Some (Link [c])" using assms cur_dir_Some by blast
  then show h: "hidden c" and d: "is_dir fs [c]"
    using assms(1) by (auto simp: aw_inv_def data_dir_ok_def)
  show "c \<noteq> dataDirName" using l d by (auto simp: is_dir_iff)
  have "fs_ok fs" using assms(1) by (simp add: aw_inv_def)
  from fs_ok_names [OF this, of "[c]"] d show "c \<noteq> ''..''" by (auto simp: is_dir_iff)
  show "data_linked fs c" using assms by (simp add: aw_inv_def)
  show "\<not> prefix q p" if "mget fs ([c] @ q) = Some (Link t)" for q t
    using aw_inv_node [OF assms(1) that] that h d by (auto simp: visible_ok_def is_dir_iff)
qed

text \<open>A link in the visible part leads into the data directory.\<close>

lemma namei_link:
  assumes "aw_inv fs" and "p \<noteq> []"
  shows "namei (Suc n) fs follow (butlast p) (link_target p @ rest) =
    (case cur_dir fs of None \<Rightarrow> Inl ENOENT | Some c \<Rightarrow> namei n fs follow [c] (p @ rest))"
proof -
  have up: "namei (Suc n) fs follow (butlast p) (link_target p @ rest) = namei (Suc n) fs follow [] (dataDirName # p @ rest)"
    using namei_up [of "Suc n" fs follow "butlast p" "dataDirName # p @ rest"] by (simp add: link_target_def)
  show ?thesis
  proof (cases "cur_dir fs")
    case None
    then show ?thesis using up cur_dir_None [OF assms(1)] assms(2) by simp
  next
    case (Some c)
    then have "mget fs [dataDirName] = Some (Link [c])" using cur_dir_Some [OF assms(1)] by simp
    then show ?thesis using up Some assms(2) cur_dir_facts(2,3) [OF assms(1) Some] by (auto simp: is_dir_iff)
  qed
qed

text \<open>Looking up a visible path: the path itself, or the file of the data directory behind its link.\<close>

lemma namei_visible_blocked:
  assumes "aw_inv fs" and "path_visible p" and "''..'' \<notin> set p" and "p = a @ e # rest" and "rest \<noteq> []" and "is_dir fs a"
    and "\<not> is_dir fs (a @ [e])"
  shows "\<exists>err. namei (Suc (Suc n)) fs follow [] p = Inl err"
proof -
  have ok: "fs_ok fs" using assms(1) by (simp add: aw_inv_def)
  have walk: "namei (Suc (Suc n)) fs follow [] p = namei (Suc (Suc n)) fs follow a (e # rest)"
    using namei_walk [OF ok, of "[]" a "Suc (Suc n)" follow "e # rest"] assms(4,6) by simp
  have e: "e \<noteq> ''..''" "path_visible (a @ [e])" using assms(2-4) by (cases a; auto simp: path_visible_def)+
  show ?thesis
  proof (cases "mget fs (a @ [e])")
    case None
    then show ?thesis using walk e(1) assms(5) by simp
  next
    case (Some nd)
    show ?thesis
    proof (cases nd)
      case (Link t)
      then have "t = link_target (a @ [e])" using aw_inv_node [OF assms(1) Some] e(2) by (simp add: visible_ok_def)
      then have l: "namei (Suc (Suc n)) fs follow a (e # rest) =
          (case cur_dir fs of None \<Rightarrow> Inl ENOENT | Some c \<Rightarrow> namei n fs follow [c] ((a @ [e]) @ rest))"
        using namei_link [OF assms(1), of "a @ [e]" n follow rest] Some Link e(1) assms(5) by simp
      show ?thesis
      proof (cases "cur_dir fs")
        case (Some c)
        note c = cur_dir_facts [OF assms(1) Some]
        have "\<not> is_dir fs ([c] @ (a @ [e]))" using data_linked_dir [OF c(5), of "a @ [e]"] assms(7) by auto
        then show ?thesis
          using namei_blocked [of fs "[c]" "a @ [e]" rest n follow] c(6) assms(3,4,5) walk l Some by auto
      qed (use walk l in simp)
    qed (use walk Some e(1) assms(5,7) in \<open>auto simp: is_dir_iff\<close>)
  qed
qed

lemma namei_visible:
  assumes "aw_inv fs" and "path_visible p" and "''..'' \<notin> set p" and "namei max_links fs follow [] p = Inr q"
  shows "is_dir fs (butlast p) \<and>
    (if follow \<and> (\<exists>t. mget fs p = Some (Link t)) then (\<exists>c. cur_dir fs = Some c \<and> q = c # p) else q = p)"
proof -
  have ok: "fs_ok fs" and p: "p \<noteq> []" using assms(1,2) by (simp_all add: aw_inv_def path_visible_def)
  have root: "is_dir fs []" using ok by (simp add: fs_ok_def)
  show ?thesis
  proof (cases rule: path_cases [OF root p])
    case 1
    have e: "last p \<noteq> ''..''" using assms(3) last_in_set [OF p] by metis
    note n = namei_parent [OF ok 1 e, of max_links follow]
    show ?thesis
    proof (cases "follow \<and> (\<exists>t. mget fs p = Some (Link t))")
      case True
      then obtain t where t: "mget fs p = Some (Link t)" by blast
      then have "t = link_target p" using aw_inv_node [OF assms(1) t] assms(2) by (simp add: visible_ok_def)
      then have "(case cur_dir fs of None \<Rightarrow> Inl ENOENT | Some c \<Rightarrow> namei 38 fs follow [c] p) = Inr q"
        using n True t p assms(4) namei_link [OF assms(1) p, of 38 follow "[]", unfolded append_Nil2] by (simp add: max_links_def)
      then obtain c where c: "cur_dir fs = Some c" "namei 38 fs follow [c] p = Inr q" by (auto split: option.splits)
      have "q = [c] @ p" using namei_no_links [OF cur_dir_facts(6) [OF assms(1) c(1)] assms(3) cur_dir_facts(2) [OF assms(1) c(1)] c(2)] by simp
      then show ?thesis using c(1) 1 True by simp
    next
      case False
      then show ?thesis using n p 1 assms(4) by (auto split: option.splits fnode.splits)
    qed
  next
    case (2 a e rest)
    from namei_visible_blocked [OF assms(1-3) this, of 38 follow] assms(4) show ?thesis by (simp add: max_links_def)
  qed
qed

text \<open>What a reader of the visible files sees is what the data directory holds.\<close>

lemma read_data_eq:
  assumes "aw_inv fs" and "path_visible p" and "''..'' \<notin> set p"
  shows "read_data fs p = data_of fs p"
proof (cases "\<exists>c d m. cur_dir fs = Some c \<and> mget fs (c # p) = Some (File d m)")
  case True
  then obtain c d m where c: "cur_dir fs = Some c" "mget fs (c # p) = Some (File d m)" by blast
  have ok: "fs_ok fs" and p: "p \<noteq> []" using assms(1,2) by (simp_all add: aw_inv_def path_visible_def)
  obtain t where t: "mget fs p = Some (Link t)"
    using cur_dir_facts(5) [OF assms(1) c(1)] c(2) p by (fastforce simp: data_linked_def)
  then have l: "t = link_target p" using aw_inv_node [OF assms(1) t] assms(2) by (simp add: visible_ok_def)
  have par: "is_dir fs (butlast p)" using fs_ok_parent [OF ok, of "butlast p" "[last p]"] t p by simp
  have e: "last p \<noteq> ''..''" using assms(3) last_in_set [OF p] by metis
  have "is_dir fs (c # butlast p)" using fs_ok_parent [OF ok, of "c # butlast p" "[last p]"] c(2) p by simp
  then have "namei 38 fs True [c] p = Inr (c # p)"
    using namei_walk [OF ok, of "[c]" "butlast p" 38 True "[last p]"] e c(2) p by simp
  then have "namei max_links fs True [] p = Inr (c # p)"
    using namei_parent [OF ok par e, of max_links True] namei_link [OF assms(1) p, of 38 True "[]"] t l p c(1)
    by (simp add: max_links_def)
  then show ?thesis using c by (simp add: read_data_def ReadFile_def node_at_def data_of_def file_data_def)
next
  case False
  have "read_data fs p = None"
  proof (cases "namei max_links fs True [] p")
    case (Inr q)
    have "mget fs q \<noteq> Some (File d m)" for d m
      using namei_visible [OF assms Inr] False aw_inv_node [OF assms(1), of p "File d m"] assms(2)
      by (auto simp: visible_ok_def split: if_splits)
    then show ?thesis
      using Inr by (auto simp: read_data_def ReadFile_def node_at_def split: sum.splits option.splits fnode.splits)
  qed (simp add: read_data_def ReadFile_def node_at_def)
  moreover have "data_of fs p = None"
    using False by (auto simp: data_of_def file_data_def split: option.splits fnode.splits)
  ultimately show ?thesis by simp
qed

section \<open>Changes that keep the layout\<close>

text \<open>A path in a hidden directory leads to itself.\<close>

lemma namei_hidden:
  assumes "aw_inv fs" and "hidden e" and "''..'' \<notin> set (e # p)"
    and "e \<notin> {dataDirName, newDataDirName} \<or> p = [] \<and> \<not> follow" and "namei max_links fs follow [] (e # p) = Inr q"
  shows "q = e # p \<and> is_dir fs (butlast (e # p))"
proof (cases "p = []")
  case True
  have ok: "fs_ok fs" using assms(1) by (simp add: aw_inv_def)
  then have root: "is_dir fs []" by (simp add: fs_ok_def)
  have "mget fs [e] = Some (Link t) \<Longrightarrow> \<not> follow" for t
    using aw_inv_node [OF assms(1), of "[e]" "Link t"] assms(2,4) by (auto simp: visible_ok_def)
  then show ?thesis
    using namei_parent [OF ok root, of e max_links follow] True root assms(3,5)
    by (auto split: option.splits fnode.splits if_splits)
next
  case False
  then have h: "e \<notin> {dataDirName, newDataDirName}" using assms(4) by simp
  have "\<not> prefix r (e # p)" if "mget fs ([] @ r) = Some (Link t)" for r t
    using aw_inv_node [OF assms(1), of r "Link t"] that assms(1,2) h
    by (cases r) (auto simp: visible_ok_def aw_inv_def fs_ok_def is_dir_iff)
  then show ?thesis
    using namei_no_links [of fs "[]" "e # p" max_links follow q] assms(1,3,5) by (simp add: aw_inv_def fs_ok_def)
qed

declare namei.simps(2) [simp del]

text \<open>An entry outside the data directory can be made or replaced if it fits.\<close>

lemma aw_inv_put:
  assumes "aw_inv fs" and "q \<noteq> []" and "is_dir fs (butlast q)" and "last q \<noteq> ''..''" and "is_dir fs q \<Longrightarrow> \<exists>m. nd = Dir m"
    and "visible_ok q nd" and "q \<noteq> [dataDirName]" and "\<And>c. cur_dir fs = Some c \<Longrightarrow> hd q \<noteq> c"
    and "\<And>t. mget fs q \<noteq> Some (Link t)"
  shows "aw_inv (mput q nd fs) \<and> cur_dir (mput q nd fs) = cur_dir fs \<and> data_of (mput q nd fs) = data_of fs"
proof -
  let ?fs = "mput q nd fs"
  have cur: "cur_dir ?fs = cur_dir fs" using assms(7) by (simp add: cur_dir_def gm.get_put)
  have dirs: "is_dir fs p \<Longrightarrow> is_dir ?fs p" for p using assms(5) by (auto simp: is_dir_put)
  have same: "mget ?fs (c # p) = mget fs (c # p)" if "cur_dir fs = Some c" for c p
    using assms(8) [OF that] by (auto simp: gm.get_put)
  have links: "mget fs p = Some (Link t) \<Longrightarrow> mget ?fs p = Some (Link t)" for p t
    using assms(9) by (auto simp: gm.get_put)
  have "fs_ok ?fs" using assms(1-5) by (intro fs_ok_put) (auto simp: aw_inv_def)
  moreover have "data_dir_ok ?fs"
    using assms(1,7) dirs by (auto simp: aw_inv_def data_dir_ok_def gm.get_put split: option.splits fnode.splits list.splits)
  moreover have "data_linked ?fs c" if c: "cur_dir fs = Some c" for c
    using cur_dir_facts(5) [OF assms(1) c] dirs links unfolding data_linked_def same [OF c]
    by (fastforce split: fnode.splits)
  moreover have "visible_ok p nd'" if "mget ?fs p = Some nd'" for p nd'
    using that assms(6) aw_inv_node [OF assms(1), of p nd'] by (auto simp: gm.get_put split: if_splits)
  ultimately have "aw_inv ?fs" by (simp add: aw_inv_def cur)
  moreover have "data_of ?fs = data_of fs"
    using same by (auto simp: data_of_def file_data_def cur fun_eq_iff split: option.splits)
  ultimately show ?thesis using cur by simp
qed

lemma aw_inv_del:
  assumes "aw_inv fs" and "q \<noteq> []" and "\<not> has_children fs q" and "q \<noteq> [dataDirName]"
    and "\<And>c. cur_dir fs = Some c \<Longrightarrow> hd q \<noteq> c \<and> mget fs (c # q) = None"
  shows "aw_inv (mdel q fs) \<and> cur_dir (mdel q fs) = cur_dir fs \<and> data_of (mdel q fs) = data_of fs"
proof -
  let ?fs = "mdel q fs"
  have cur: "cur_dir ?fs = cur_dir fs" using assms(4) by (simp add: cur_dir_def gm.get_del)
  have same: "mget ?fs (c # p) = mget fs (c # p)" if "cur_dir fs = Some c" for c p
    using assms(5) [OF that] by (auto simp: gm.get_del)
  have "fs_ok ?fs" using assms(1-3) by (intro fs_ok_del) (auto simp: aw_inv_def)
  moreover have "data_dir_ok ?fs"
    using assms(1,4,5) by (auto simp: aw_inv_def data_dir_ok_def gm.get_del is_dir_del cur_dir_def split: option.splits fnode.splits list.splits)
  moreover have "data_linked ?fs c" if c: "cur_dir fs = Some c" for c
    unfolding data_linked_def same [OF c]
  proof (intro allI impI)
    fix p nd' assume p: "p \<noteq> []" "mget fs (c # p) = Some nd'"
    then have "p \<noteq> q" using assms(5) [OF c] by auto
    with data_linkedD [OF cur_dir_facts(5) [OF assms(1) c] p] show "path_visible p \<and> (case nd' of Dir m \<Rightarrow> is_dir ?fs p | _ \<Rightarrow> \<exists>t. mget ?fs p = Some (Link t))"
      by (auto simp: is_dir_del gm.get_del split: fnode.splits)
  qed
  moreover have "visible_ok p nd'" if "mget ?fs p = Some nd'" for p nd'
    using that aw_inv_node [OF assms(1), of p nd'] by (auto simp: gm.get_del split: if_splits)
  ultimately have "aw_inv ?fs" by (simp add: aw_inv_def cur)
  moreover have "data_of ?fs = data_of fs"
    using same by (auto simp: data_of_def file_data_def cur fun_eq_iff split: option.splits)
  ultimately show ?thesis using cur by simp
qed

section \<open>Before the switch\<close>

text \<open>The names and paths of a write that stay out of each other's way.\<close>

definition write_ok :: "string \<Rightarrow> payload \<Rightarrow> bool" where
  "write_ok ts payload \<longleftrightarrow> hidden ts \<and> ts \<notin> {''..'', dataDirName, newDataDirName} \<and> mwf payload \<and>
     (\<forall>p \<in> fst ` set payload. path_visible p \<and> ''..'' \<notin> set p)"

text \<open>The files as they were: the same data directory with the same content.\<close>

definition old_state :: "string option \<Rightarrow> (fpath \<Rightarrow> string option) \<Rightarrow> files \<Rightarrow> bool" where
  "old_state c0 D fs \<longleftrightarrow> aw_inv fs \<and> cur_dir fs = c0 \<and> data_of fs = D"

text \<open>The new directory holds nothing but files of the payload and the directories above them.\<close>

definition ts_entry :: "payload \<Rightarrow> fpath \<Rightarrow> fnode \<Rightarrow> bool" where
  "ts_entry payload q nd \<longleftrightarrow>
     (case nd of
        Dir m \<Rightarrow> q = [] \<or> (\<exists>p \<in> fst ` set payload. strict_prefix q p)
      | File d m \<Rightarrow> q \<in> fst ` set payload
      | Link t \<Rightarrow> False)"

text \<open>
  With \<open>b = Some V\<close>, nothing is in the way of the write either, and \<open>V\<close> are the visible paths that the payload does
  not need; \<open>b\<close> is only used to show that the write makes progress.
\<close>

definition clear_way :: "fpath set \<Rightarrow> payload \<Rightarrow> files \<Rightarrow> bool" where
  "clear_way V payload fs \<longleftrightarrow> mget fs [newDataDirName] = None \<and>
     (\<forall>p \<in> fst ` set payload. \<forall>q t. strict_prefix q p \<longrightarrow> q \<notin> fst ` set payload \<and> mget fs q \<noteq> Some (Link t)) \<and>
     (\<forall>q. path_visible q \<longrightarrow> (\<forall>p \<in> fst ` set payload. \<not> prefix q p) \<longrightarrow> (mget fs q \<noteq> None \<longleftrightarrow> q \<in> V))"

definition writing ::
  "fpath set option \<Rightarrow> string option \<Rightarrow> (fpath \<Rightarrow> string option) \<Rightarrow> string \<Rightarrow> payload \<Rightarrow> payload \<Rightarrow> files \<Rightarrow> bool" where
  "writing b c0 D ts payload written fs \<longleftrightarrow>
     old_state c0 D fs \<and> c0 \<noteq> Some ts \<and> is_dir fs [ts] \<and> (\<forall>V. b = Some V \<longrightarrow> clear_way V payload fs) \<and> (\<forall>p \<in> fst ` set payload. \<not> is_dir fs p) \<and>
     (\<forall>q nd. mget fs (ts # q) = Some nd \<longrightarrow> ts_entry payload q nd) \<and>
     (\<forall>(p, proj) \<in> set written. file_data fs (ts # p) = Some (fp_Data proj))"

lemma old_state_ts_put:
  assumes "old_state c0 D fs" and "write_ok ts payload" and "c0 \<noteq> Some ts" and "is_dir fs (butlast (ts # r))"
    and "''..'' \<notin> set r" and "is_dir fs (ts # r) \<Longrightarrow> \<exists>m. nd = Dir m" and "\<And>t. nd \<noteq> Link t"
  shows "old_state c0 D (mput (ts # r) nd fs)"
proof -
  have inv: "aw_inv fs" using assms(1) by (simp add: old_state_def)
  have ts: "hidden ts" "ts \<notin> {''..'', dataDirName, newDataDirName}" using assms(2) by (simp_all add: write_ok_def)
  have "last (ts # r) \<in> set (ts # r)" by (rule last_in_set) simp
  then have l: "last (ts # r) \<noteq> ''..''" using assms(5) ts(2) by (metis insert_iff list.set(2))
  have "mget fs (ts # r) \<noteq> Some (Link t)" for t
    using aw_inv_node [OF inv, of "ts # r" "Link t"] ts by (auto simp: visible_ok_def)
  moreover have "visible_ok (ts # r) nd" using ts(1) assms(7) [of "case nd of Link t \<Rightarrow> t | _ \<Rightarrow> []"] by (cases nd) (simp_all add: visible_ok_def)
  ultimately have "aw_inv (mput (ts # r) nd fs) \<and> cur_dir (mput (ts # r) nd fs) = cur_dir fs \<and> data_of (mput (ts # r) nd fs) = data_of fs"
    using ts(2) assms(1,3,4,6) l by (intro aw_inv_put [OF inv]) (auto simp: old_state_def)
  then show ?thesis using assms(1) by (simp add: old_state_def)
qed

lemma clear_way_put:
  assumes "clear_way V payload fs" and "q \<noteq> [newDataDirName]" and "\<And>t. nd = Link t \<Longrightarrow> q \<in> fst ` set payload"
    and "path_visible q \<Longrightarrow> \<exists>p \<in> fst ` set payload. prefix q p"
  shows "clear_way V payload (mput q nd fs)"
proof -
  have "mget (mput q nd fs) r \<noteq> Some (Link t)" if "p \<in> fst ` set payload" "strict_prefix r p" for p r t
    using that assms(1,3) by (cases "r = q") (auto simp: clear_way_def)
  moreover have "mget (mput q nd fs) r = mget fs r" if "path_visible r" "\<forall>p \<in> fst ` set payload. \<not> prefix r p" for r
    using that assms(4) by (cases "r = q") auto
  ultimately show ?thesis using assms(1,2) by (simp add: clear_way_def gm.get_put)
qed

lemma writing_put:
  assumes "writing b c0 D ts payload written fs" and "write_ok ts payload" and "is_dir fs (butlast (ts # r))" and "''..'' \<notin> set r"
    and "ts_entry payload r nd" and "is_dir fs (ts # r) \<Longrightarrow> \<exists>m. nd = Dir m" and "(\<exists>m. nd = Dir m) \<Longrightarrow> file_data fs (ts # r) = None"
    and "\<And>proj d m. (r, proj) \<in> set written \<Longrightarrow> nd = File d m \<Longrightarrow> d = fp_Data proj"
  shows "writing b c0 D ts payload written (mput (ts # r) nd fs)"
proof -
  have "nd \<noteq> Link t" for t using assms(5) by (auto simp: ts_entry_def)
  then have "old_state c0 D (mput (ts # r) nd fs)"
    using assms(1,4) by (intro old_state_ts_put [OF _ assms(2) _ assms(3) _ assms(6)]) (auto simp: writing_def)
  moreover have "file_data (mput (ts # r) nd fs) (ts # p) = Some (fp_Data proj)" if "(p, proj) \<in> set written" for p proj
  proof -
    have "file_data fs (ts # p) = Some (fp_Data proj)" using that assms(1) by (auto simp: writing_def)
    then show ?thesis
      using that assms(5,7,8) by (cases nd) (auto simp: file_data_def gm.get_put ts_entry_def)
  qed
  moreover have "\<forall>p \<in> fst ` set payload. \<not> is_dir (mput (ts # r) nd fs) p"
    using assms(1,2) by (auto simp: writing_def is_dir_put write_ok_def)
  moreover have "clear_way V payload (mput (ts # r) nd fs)" if "clear_way V payload fs" for V
    using that assms(2,5) by (intro clear_way_put) (auto simp: write_ok_def ts_entry_def)
  ultimately show ?thesis
    using assms(1,5,6) by (auto simp: writing_def is_dir_put gm.get_put split: if_splits)
qed

lemma writing_facts:
  assumes "writing b c0 D ts payload written fs" and "write_ok ts payload"
  shows "aw_inv fs" and "old_state c0 D fs" and "hidden ts" and "ts \<noteq> ''..''" and "ts \<noteq> dataDirName" and "ts \<noteq> newDataDirName"
  using assms by (simp_all add: writing_def old_state_def write_ok_def)

text \<open>Every state so far showed the old files.\<close>

lemma traced_old:
  "list_all (old_state c0 D) tr \<Longrightarrow> writing b c0 D ts payload written fs \<Longrightarrow> list_all (old_state c0 D) (tr @ [fs])"
  by (simp add: writing_def)

lemma namei_ts:
  assumes "writing b c0 D ts payload written fs" and "write_ok ts payload" and "''..'' \<notin> set r"
    and "namei max_links fs follow [] (ts # r) = Inr q"
  shows "q = ts # r \<and> is_dir fs (butlast (ts # r))"
  using namei_hidden [OF writing_facts(1,3) [OF assms(1,2)] _ _ assms(4)] writing_facts(4-6) [OF assms(1,2)] assms(3) by auto

lemma keeps_ts_Mkdir:
  assumes "write_ok ts payload" and "q \<in> fst ` set payload" and "strict_prefix r q"
  shows "keeps (traced (list_all (old_state c0 D)) (writing b c0 D ts payload written)) (os_Mkdir m (ts # r))"
proof -
  have r: "''..'' \<notin> set r" using assms by (auto simp: write_ok_def strict_prefix_def prefix_def)
  have "writing b c0 D ts payload written fs'"
    if w: "writing b c0 D ts payload written fs" and n: "new_entry fs (ts # r) (Dir m') = Inr fs'" for fs fs' m'
  proof -
    from n namei_ts [OF w assms(1) r] have p: "is_dir fs (butlast (ts # r))" "mget fs (ts # r) = None" "fs' = mput (ts # r) (Dir m') fs"
      by (auto simp: new_entry_Inr)
    show ?thesis
      unfolding p(3) using p(2) assms(2,3)
      by (intro writing_put [OF w assms(1) p(1) r]) (auto simp: ts_entry_def file_data_def is_dir_iff)
  qed
  then show ?thesis
    unfolding os_Mkdir_def by (intro keeps_gets_all keeps_syscall traced_old)
qed

lemma keeps_ts_MkdirAll:
  assumes "write_ok ts payload" and "q \<in> fst ` set payload"
  shows "strict_prefix r q \<Longrightarrow> keeps (traced (list_all (old_state c0 D)) (writing b c0 D ts payload written)) (MkdirAll m (ts # r))"
proof (induction r rule: rev_induct)
  case Nil
  have "os_Stat fs [ts] = Inr (Dir m')" if w: "writing b c0 D ts payload written fs" and "mget fs [ts] = Some (Dir m')" for fs m'
  proof -
    have "fs_ok fs" "is_dir fs []" using writing_facts(1) [OF w assms(1)] by (simp_all add: aw_inv_def fs_ok_def)
    from namei_parent [OF this, of ts max_links True] that writing_facts(4) [OF w assms(1)]
    show ?thesis by (simp add: os_Stat_def node_at_def)
  qed
  then show ?case
    unfolding MkdirAll.simps [of m "[ts]"]
    by (intro keeps_gets) (auto simp: traced_def writing_def is_dir_iff outcome_ret)
next
  case (snoc e r)
  then have "strict_prefix r q" by (auto simp: strict_prefix_def prefix_def)
  with snoc.IH have "keeps (traced (list_all (old_state c0 D)) (writing b c0 D ts payload written)) (MkdirAll m (butlast (ts # r @ [e])))"
    by (simp add: butlast_append)
  from keeps_MkdirAll [OF _ this keeps_ts_Mkdir [OF assms snoc.prems]] show ?case by simp
qed

text \<open>A file of the payload is created, written and gets its mode.\<close>

lemma writing_change:
  assumes "writing b c0 D ts payload written fs" and "write_ok ts payload" and "''..'' \<notin> set r"
    and "change_file f (ts # r) fs = Inr fs'"
  obtains nd where "f (mget fs (ts # r)) = Inr nd" "is_dir fs (butlast (ts # r))" "fs' = mput (ts # r) nd fs"
  using assms(4) namei_ts [OF assms(1-3)] unfolding change_file_Inr by blast

lemma keeps_ts_change:
  assumes "write_ok ts payload" and "''..'' \<notin> set r"
    and "\<And>fs nd. writing b c0 D ts payload written fs \<Longrightarrow> f fs (mget fs (ts # r)) = Inr nd \<Longrightarrow>
      ts_entry payload r nd \<and> (is_dir fs (ts # r) \<longleftrightarrow> (\<exists>m. nd = Dir m)) \<and>
      (\<forall>proj d m. (r, proj) \<in> set written \<longrightarrow> nd = File d m \<longrightarrow> d = fp_Data proj)"
  shows "keeps (traced (list_all (old_state c0 D)) (writing b c0 D ts payload written)) (syscall (\<lambda>fs. change_file (f fs) (ts # r) fs))"
proof (intro keeps_syscall traced_old)
  fix fs fs' assume w: "writing b c0 D ts payload written fs" and c: "change_file (f fs) (ts # r) fs = Inr fs'"
  obtain nd where nd: "f fs (mget fs (ts # r)) = Inr nd" "is_dir fs (butlast (ts # r))" "fs' = mput (ts # r) nd fs"
    using writing_change [OF w assms(1,2) c] .
  show "writing b c0 D ts payload written fs'"
    unfolding nd(3) using assms(3) [OF w nd(1)]
    by (intro writing_put [OF w assms(1) nd(2) assms(2)]) (auto simp: file_data_def is_dir_iff)
qed

lemma written_entry:
  "writing b c0 D ts payload written fs \<Longrightarrow> mget fs (ts # r) = Some nd \<Longrightarrow> ts_entry payload r nd"
  "writing b c0 D ts payload written fs \<Longrightarrow> (r, proj) \<in> set written \<Longrightarrow> mget fs (ts # r) = Some (File d m) \<Longrightarrow> d = fp_Data proj"
  by (fastforce simp: writing_def file_data_def)+

lemma keeps_ts_Create:
  assumes "write_ok ts payload" and "r \<in> fst ` set payload" and "r \<notin> fst ` set written"
  shows "keeps (traced (list_all (old_state c0 D)) (writing b c0 D ts payload written)) (os_Create m (ts # r))"
  unfolding os_Create_def
proof (intro keeps_gets_all keeps_ts_change [OF assms(1)])
  show "''..'' \<notin> set r" using assms(1,2) by (auto simp: write_ok_def)
qed (use assms(2,3) in \<open>force simp: ts_entry_def is_dir_iff split: option.splits fnode.splits\<close>)

lemma keeps_ts_Chmod:
  assumes "write_ok ts payload" and "r = [] \<or> r \<in> fst ` set payload"
  shows "keeps (traced (list_all (old_state c0 D)) (writing b c0 D ts payload written)) (os_Chmod (ts # r) m)"
  unfolding os_Chmod_def
proof (intro keeps_ts_change [OF assms(1), where f = "\<lambda>_. f" for f])
  show "''..'' \<notin> set r" using assms by (auto simp: write_ok_def)
  fix fs nd assume w: "writing b c0 D ts payload written fs"
    and "(case mget fs (ts # r) of None \<Rightarrow> Inl ENOENT | Some (Dir a) \<Rightarrow> Inr (Dir (a\<lparr>fa_mode := perm m\<rparr>))
      | Some (File d a) \<Rightarrow> Inr (File d (a\<lparr>fa_mode := perm m\<rparr>)) | Some (Link t) \<Rightarrow> Inl ELOOP) = Inr nd"
  then show "ts_entry payload r nd \<and> (is_dir fs (ts # r) \<longleftrightarrow> (\<exists>m. nd = Dir m)) \<and>
      (\<forall>proj d m. (r, proj) \<in> set written \<longrightarrow> nd = File d m \<longrightarrow> d = fp_Data proj)"
    using written_entry(1) [OF w, of r] written_entry(2) [OF w, of r]
    by (auto simp: ts_entry_def is_dir_iff split: option.splits fnode.splits)
qed

lemma outcome_ts_WriteData:
  assumes "traced (list_all (old_state c0 D)) (writing b c0 D ts payload written) s" and "write_ok ts payload"
    and "(r, proj) \<in> set payload" and "r \<notin> fst ` set written"
  shows "outcome (os_WriteData (fp_Data proj) (ts # r)) s
    (\<lambda>s' _. traced (list_all (old_state c0 D)) (writing b c0 D ts payload ((r, proj) # written)) s')
    (\<lambda>s' _. traced (list_all (old_state c0 D)) (writing b c0 D ts payload written) s')"
  unfolding os_WriteData_def
proof (rule outcome_syscall [OF assms(1)])
  let ?f = "\<lambda>nd. case nd of Some (File d m) \<Rightarrow> Inr (File (fp_Data proj) m) | _ \<Rightarrow> Inl EINVAL"
  have r: "r \<in> fst ` set payload" using assms(3) by force
  have dots: "''..'' \<notin> set r" using assms(2) r by (auto simp: write_ok_def)
  have w: "writing b c0 D ts payload written (os_files s)" using assms(1) by (simp add: traced_def)
  fix fs assume "change_file ?f (ts # r) (os_files s) = Inr fs"
  then obtain nd where nd: "?f (mget (os_files s) (ts # r)) = Inr nd" "is_dir (os_files s) (butlast (ts # r))"
      "fs = mput (ts # r) nd (os_files s)"
    using writing_change [OF w assms(2) dots] by blast
  from nd(1) obtain d m where f: "mget (os_files s) (ts # r) = Some (File d m)" "nd = File (fp_Data proj) m"
    by (auto split: option.splits fnode.splits)
  have "writing b c0 D ts payload written fs"
    unfolding nd(3) using r assms(4) f by (intro writing_put [OF w assms(2) nd(2) dots]) (auto simp: ts_entry_def is_dir_iff intro: rev_image_eqI)
  moreover have "file_data fs (ts # r) = Some (fp_Data proj)" using nd(3) f(2) by (simp add: file_data_def)
  ultimately have "writing b c0 D ts payload ((r, proj) # written) fs" by (simp add: writing_def)
  then show "list_all (old_state c0 D) (os_trace s @ [fs]) \<and> writing b c0 D ts payload ((r, proj) # written) fs"
    using assms(1) by (simp add: traced_def writing_def)
qed

lemma traced_mono: "traced T Q s \<Longrightarrow> (\<And>fs. Q fs \<Longrightarrow> Q' fs) \<Longrightarrow> traced T Q' s"
  by (simp add: traced_def)

lemma writing_old: "writing b c0 D ts payload written fs \<Longrightarrow> old_state c0 D fs"
  by (simp add: writing_def)

lemma traced_writing: "traced T (writing b c0 D ts payload written) s \<Longrightarrow> traced T (old_state c0 D) s"
  by (simp add: traced_def writing_def)

lemma outcome_ts_Mkdir:
  assumes "traced (list_all (old_state c0 D)) (old_state c0 D) s" and "write_ok ts payload"
    and "\<forall>p \<in> fst ` set payload. \<not> is_dir (os_files s) p" and "\<And>V. b = Some V \<Longrightarrow> clear_way V payload (os_files s)"
  shows "outcome (os_Mkdir m [ts]) s
    (\<lambda>s' _. traced (list_all (old_state c0 D)) (writing b c0 D ts payload []) s')
    (\<lambda>s' _. traced (list_all (old_state c0 D)) (old_state c0 D) s')"
  unfolding os_Mkdir_def outcome_gets
proof (rule outcome_syscall [OF assms(1)])
  fix fs' let ?fs = "os_files s" and ?d = "Dir (new_attr s True m [ts] (os_files s))"
  assume n: "new_entry ?fs [ts] ?d = Inr fs'"
  have old: "old_state c0 D ?fs" "aw_inv ?fs" using assms(1) by (simp_all add: traced_def old_state_def)
  have ts: "hidden ts" "ts \<noteq> ''..''" using assms(2) by (simp_all add: write_ok_def)
  from n namei_hidden [OF old(2) ts(1), of "[]" False] ts(2)
  have e: "is_dir ?fs []" "mget ?fs [ts] = None" "fs' = mput [ts] ?d ?fs" by (auto simp: new_entry_Inr)
  have "c0 \<noteq> Some ts" using cur_dir_facts(2) [OF old(2)] old(1) e(2) by (auto simp: old_state_def is_dir_iff)
  moreover from this have "old_state c0 D fs'"
    unfolding e(3) using e by (intro old_state_ts_put [OF old(1) assms(2)]) (auto simp: is_dir_iff)
  moreover have "mget ?fs (ts # q) = None" for q
    using fs_ok_parent [of ?fs "[ts]" q] old(2) e(2) by (cases "mget ?fs (ts # q)"; cases q) (auto simp: aw_inv_def is_dir_iff)
  then have "ts_entry payload q nd" if "mget fs' (ts # q) = Some nd" for q nd
    using that by (auto simp: e(3) gm.get_put ts_entry_def split: if_splits)
  moreover have "\<forall>p \<in> fst ` set payload. \<not> is_dir fs' p" using assms(2,3) by (auto simp: e(3) is_dir_put write_ok_def)
  moreover have "clear_way V payload fs'" if "b = Some V" for V using assms(2,4) that unfolding e(3) by (intro clear_way_put) (auto simp: write_ok_def)
  ultimately have "writing b c0 D ts payload [] fs'" by (simp add: writing_def e(3) is_dir_put)
  then show "list_all (old_state c0 D) (os_trace s @ [fs']) \<and> writing b c0 D ts payload [] fs'"
    using assms(1) by (simp add: traced_def writing_def)
qed

lemma outcome_newTimestampDir:
  assumes "traced (list_all (old_state c0 D)) (old_state c0 D) s" and "write_ok ts payload"
    and "\<forall>p \<in> fst ` set payload. \<not> is_dir (os_files s) p" and "\<And>V. b = Some V \<Longrightarrow> clear_way V payload (os_files s)"
  shows "outcome (newTimestampDir ts) s
    (\<lambda>s' dir. dir = [ts] \<and> traced (list_all (old_state c0 D)) (writing b c0 D ts payload []) s')
    (\<lambda>s' _. traced (list_all (old_state c0 D)) (old_state c0 D) s')"
  unfolding newTimestampDir_def
proof (rule and_then_outcome [OF outcome_ts_Mkdir [OF assms]])
    fix s' assume "traced (list_all (old_state c0 D)) (writing b c0 D ts payload []) s'"
    from keepsD [OF keeps_ts_Chmod [OF assms(2) disjI1 [OF refl]] this]
    show "outcome (and_then (os_Chmod [ts] 0x1ED) (\<lambda>_. ret [ts])) s'
        (\<lambda>s' dir. dir = [ts] \<and> traced (list_all (old_state c0 D)) (writing b c0 D ts payload []) s')
        (\<lambda>s' _. traced (list_all (old_state c0 D)) (old_state c0 D) s')"
      by (rule and_then_outcome) (simp_all add: outcome_ret traced_writing)
qed

lemma outcome_writePayloadToDir:
  assumes "traced (list_all (old_state c0 D)) (writing b c0 D ts payload written) s" and "write_ok ts payload"
    and "set rest \<subseteq> set payload" and "distinct (map fst (rev rest @ written))"
  shows "outcome (writePayloadToDir rest [ts]) s
    (\<lambda>s' _. traced (list_all (old_state c0 D)) (writing b c0 D ts payload (rev rest @ written)) s')
    (\<lambda>s' _. traced (list_all (old_state c0 D)) (old_state c0 D) s')"
  using assms(1,3,4)
proof (induction rest arbitrary: written s)
  case (Cons e rest)
  obtain r proj where e: "e = (r, proj)" by (cases e)
  have pay: "(r, proj) \<in> set payload" using Cons.prems(2) by (simp add: e)
  then have r: "r \<in> fst ` set payload" "r \<notin> fst ` set written" using Cons.prems(3) by (auto simp: e intro: rev_image_eqI)
  then have "r \<noteq> []" using assms(2) by (auto simp: write_ok_def path_visible_def)
  then have dir: "butlast (ts # r) = ts # butlast r" "strict_prefix (butlast r) r"
    by (cases r rule: rev_cases; simp add: strict_prefix_def)+
  note IH = Cons.IH [of "(r, proj) # written"]
  let ?T = "list_all (old_state c0 D)" and ?W = "writing b c0 D ts payload written" and ?W' = "writing b c0 D ts payload ((r, proj) # written)"
  have one: "outcome (WriteFile (ts # r) (fp_Data proj) (fp_Mode proj)) s (\<lambda>s' _. traced ?T ?W' s') (\<lambda>s' _. traced ?T ?W s')"
    if "traced ?T ?W s" for s
    unfolding WriteFile_def using keepsD [OF keeps_ts_Create [OF assms(2) r] that]
    by (rule and_then_outcome) (auto intro: outcome_ts_WriteData [OF _ assms(2) pay r(2)])
  have rest: "outcome (on_result (os_Chmod (ts # r) (fp_Mode proj)) (\<lambda>_. writePayloadToDir rest [ts])) s
      (\<lambda>s' _. traced ?T (writing b c0 D ts payload (rev rest @ (r, proj) # written)) s') (\<lambda>s' _. traced ?T (old_state c0 D) s')"
    if "traced ?T ?W' s" for s
    using keepsD [OF keeps_ts_Chmod [OF assms(2) disjI2 [OF r(1)]] that]
    by (rule on_result_outcome) (use IH Cons.prems e in auto)
  show ?case
    unfolding e writePayloadToDir.simps append_Cons append_Nil dir(1)
    using keepsD [OF keeps_ts_MkdirAll [OF assms(2) r(1) dir(2)] Cons.prems(1)]
    by (rule and_then_outcome)
      (auto intro!: and_then_outcome [OF one] rest intro: traced_writing)
qed (simp add: outcome_ret)

text \<open>Then the visible links of the payload are made.\<close>

definition linking ::
  "fpath set option \<Rightarrow> string option \<Rightarrow> (fpath \<Rightarrow> string option) \<Rightarrow> string \<Rightarrow> payload \<Rightarrow> fpath set \<Rightarrow> files \<Rightarrow> bool" where
  "linking b c0 D ts payload linked fs \<longleftrightarrow>
     writing b c0 D ts payload payload fs \<and> (\<forall>p \<in> linked. \<exists>t. mget fs p = Some (Link t))"

lemma linking_inv: "linking b c0 D ts payload linked fs \<Longrightarrow> aw_inv fs"
  by (simp add: linking_def writing_def old_state_def)

lemma linking_prefix_free:
  assumes "linking b c0 D ts payload linked fs" and "p \<in> fst ` set payload" and "strict_prefix q p"
  shows "q \<notin> fst ` set payload"
proof
  assume "q \<in> fst ` set payload"
  with assms(1,2) have f: "file_data fs (ts # p) \<noteq> None" "file_data fs (ts # q) \<noteq> None"
    by (auto simp: linking_def writing_def)
  obtain r where r: "p = q @ r" "r \<noteq> []" using assms(3) by (auto simp: strict_prefix_def prefix_def)
  have "fs_ok fs" using linking_inv [OF assms(1)] by (simp add: aw_inv_def)
  from fs_ok_parent [OF this, of "ts # q" r] f r show False by (auto simp: file_data_def is_dir_iff split: option.splits)
qed

lemma linking_put:
  assumes "linking b c0 D ts payload linked fs" and "write_ok ts payload" and "path_visible q" and "''..'' \<notin> set q"
    and "is_dir fs (butlast q)" and "mget fs q = None" and "visible_ok q nd" and "(\<exists>m. nd = Dir m) \<longleftrightarrow> q \<notin> fst ` set payload"
    and "p' \<in> fst ` set payload" and "prefix q p'"
  shows "linking b c0 D ts payload linked (mput q nd fs)"
proof -
  note inv = linking_inv [OF assms(1)]
  have q: "q \<noteq> []" "q \<noteq> [dataDirName]" using assms(3) by (auto simp: path_visible_def)
  then have l: "last q \<noteq> ''..''" using assms(4) last_in_set by metis
  have h: "hd q \<noteq> c" if "hidden c" for c using that assms(3) by (auto simp: path_visible_def)
  have put: "aw_inv (mput q nd fs) \<and> cur_dir (mput q nd fs) = cur_dir fs \<and> data_of (mput q nd fs) = data_of fs"
    using q l assms(5-7) h cur_dir_facts(1) [OF inv] by (intro aw_inv_put [OF inv]) (auto simp: is_dir_iff)
  have same: "mget (mput q nd fs) (ts # p) = mget fs (ts # p)" for p
    using h [of ts] assms(2) by (auto simp: gm.get_put write_ok_def)
  have "\<forall>p \<in> fst ` set payload. \<not> is_dir (mput q nd fs) p" using assms(1,8) by (auto simp: linking_def writing_def is_dir_put)
  moreover have "clear_way V payload (mput q nd fs)" if "clear_way V payload fs" for V
    using that assms(3,8-10) by (intro clear_way_put) (auto simp: path_visible_def)
  ultimately have "writing b c0 D ts payload payload (mput q nd fs)"
    using assms(1) put by (simp add: linking_def writing_def old_state_def is_dir_iff file_data_def same)
  moreover have "mget (mput q nd fs) p = Some (Link t)" if "mget fs p = Some (Link t)" for p t
    using that assms(6) by (auto simp: gm.get_put)
  then have "\<forall>p \<in> linked. \<exists>t. mget (mput q nd fs) p = Some (Link t)" using assms(1) unfolding linking_def by blast
  ultimately show ?thesis by (simp add: linking_def)
qed

text \<open>A visible path with all its parents can be made, and is a directory afterwards.\<close>

lemma visible_dir:
  assumes "aw_inv fs" and "path_visible q" and "''..'' \<notin> set q" and "node_at follow fs q = Inr (Dir m)"
  shows "is_dir fs q"
proof -
  obtain q' where q': "namei max_links fs follow [] q = Inr q'" "mget fs q' = Some (Dir m)"
    using assms(4) by (auto simp: node_at_def split: sum.splits option.splits)
  show ?thesis
  proof (cases "follow \<and> (\<exists>t. mget fs q = Some (Link t))")
    case True
    with namei_visible [OF assms(1-3) q'(1)] obtain c where c: "cur_dir fs = Some c" "q' = c # q" by auto
    then show ?thesis
      using data_linked_dir [OF cur_dir_facts(5) [OF assms(1) c(1)], of q] q'(2) assms(2) by (auto simp: is_dir_iff path_visible_def)
  next
    case False
    then show ?thesis using namei_visible [OF assms(1-3) q'(1)] q'(2) by (auto simp: is_dir_iff)
  qed
qed

lemma sub_path_ok:
  assumes "write_ok ts payload" and "p \<in> fst ` set payload" and "strict_prefix q p" and "q \<noteq> []"
  shows "path_visible q" and "''..'' \<notin> set q"
  using assms by (auto simp: write_ok_def path_visible_def strict_prefix_def prefix_def)

lemma outcome_visible_Mkdir:
  assumes "traced (list_all (old_state c0 D)) (linking b c0 D ts payload linked) s" and "write_ok ts payload"
    and "p \<in> fst ` set payload" and "strict_prefix q p" and "q \<noteq> []"
  shows "outcome (os_Mkdir m q) s
    (\<lambda>s' _. traced (list_all (old_state c0 D)) (linking b c0 D ts payload linked) s' \<and> is_dir (os_files s') q)
    (\<lambda>s' _. traced (list_all (old_state c0 D)) (linking b c0 D ts payload linked) s')"
proof -
  note q = sub_path_ok [OF assms(2-5)]
  have "outcome (os_Mkdir m q) s
    (\<lambda>s' _. traced (list_all (old_state c0 D)) (\<lambda>fs. linking b c0 D ts payload linked fs \<and> is_dir fs q) s')
    (\<lambda>s' _. traced (list_all (old_state c0 D)) (linking b c0 D ts payload linked) s')"
    unfolding os_Mkdir_def outcome_gets
  proof (rule outcome_syscall [OF assms(1)])
    let ?fs = "os_files s" and ?d = "Dir (new_attr s True m q (os_files s))"
    have l: "linking b c0 D ts payload linked ?fs" using assms(1) by (simp add: traced_def)
    fix fs' assume "new_entry ?fs q ?d = Inr fs'"
    with namei_visible [OF linking_inv [OF l] q, of False] have n: "is_dir ?fs (butlast q)" "mget ?fs q = None" "fs' = mput q ?d ?fs"
      by (auto simp: new_entry_Inr)
    then have "linking b c0 D ts payload linked fs' \<and> is_dir fs' q"
      using linking_put [OF l assms(2) q n(1,2), of ?d p] linking_prefix_free [OF l assms(3,4)] assms(3,4) by (simp add: visible_ok_def is_dir_put)
    then show "list_all (old_state c0 D) (os_trace s @ [fs']) \<and> linking b c0 D ts payload linked fs' \<and> is_dir fs' q"
      using assms(1) by (simp add: traced_def linking_def writing_def)
  qed
  then show ?thesis by (rule outcome_mono) (auto simp: traced_def)
qed

lemma keeps_visible_MkdirAll:
  assumes "write_ok ts payload" and "p \<in> fst ` set payload"
  shows "strict_prefix q p \<Longrightarrow> keeps (traced (list_all (old_state c0 D)) (linking b c0 D ts payload linked)) (MkdirAll m q)"
proof (induction q rule: rev_induct)
  case Nil
  have "\<exists>m. os_Stat fs [] = Inr (Dir m)" if "linking b c0 D ts payload linked fs" for fs
    using linking_inv [OF that] by (auto simp: aw_inv_def fs_ok_def is_dir_iff os_Stat_def node_at_def)
  then show ?case
    unfolding MkdirAll.simps [of m "[]"]
    by (intro keeps_gets) (fastforce simp: traced_def outcome_ret)
next
  case (snoc e q)
  then have "strict_prefix q p" by (auto simp: strict_prefix_def prefix_def)
  with snoc.IH have "keeps (traced (list_all (old_state c0 D)) (linking b c0 D ts payload linked)) (MkdirAll m (butlast (q @ [e])))"
    by simp
  moreover have "keeps (traced (list_all (old_state c0 D)) (linking b c0 D ts payload linked)) (os_Mkdir m (q @ [e]))"
    unfolding keeps_def by (intro allI impI, rule outcome_mono [OF outcome_visible_Mkdir [OF _ assms snoc.prems]]) simp_all
  ultimately show ?case by (intro keeps_MkdirAll [of "q @ [e]"]) simp_all
qed

lemma outcome_visible_MkdirAll:
  assumes "traced (list_all (old_state c0 D)) (linking b c0 D ts payload linked) s" and "write_ok ts payload"
    and "p \<in> fst ` set payload" and "strict_prefix q p" and "q \<noteq> []"
  shows "outcome (MkdirAll m q) s
    (\<lambda>s' _. traced (list_all (old_state c0 D)) (linking b c0 D ts payload linked) s' \<and> is_dir (os_files s') q)
    (\<lambda>s' _. traced (list_all (old_state c0 D)) (linking b c0 D ts payload linked) s')"
proof (rule outcome_MkdirAll [where P = "traced (list_all (old_state c0 D)) (linking b c0 D ts payload linked)"])
  show "traced (list_all (old_state c0 D)) (linking b c0 D ts payload linked) s" and "q \<noteq> []" by (fact assms)+
  note q = sub_path_ok [OF assms(2-5)]
  have "strict_prefix (butlast q) p"
    using assms(4,5) by (cases q rule: rev_cases) (auto simp: strict_prefix_def prefix_def)
  then show "keeps (traced (list_all (old_state c0 D)) (linking b c0 D ts payload linked)) (MkdirAll m (butlast q))"
    by (rule keeps_visible_MkdirAll [OF assms(2,3)])
  fix s assume t: "traced (list_all (old_state c0 D)) (linking b c0 D ts payload linked) s"
  then have inv: "aw_inv (os_files s)" by (auto simp: traced_def intro: linking_inv)
  from t show "outcome (os_Mkdir m q) s
      (\<lambda>s' _. traced (list_all (old_state c0 D)) (linking b c0 D ts payload linked) s' \<and> is_dir (os_files s') q)
      (\<lambda>s' _. traced (list_all (old_state c0 D)) (linking b c0 D ts payload linked) s')"
    by (rule outcome_visible_Mkdir [OF _ assms(2-5)])
  fix m'
  show "os_Stat (os_files s) q = Inr (Dir m') \<Longrightarrow> is_dir (os_files s) q"
    unfolding os_Stat_def by (rule visible_dir [OF inv q])
  show "os_Lstat (os_files s) q = Inr (Dir m') \<Longrightarrow> is_dir (os_files s) q"
    unfolding os_Lstat_def by (rule visible_dir [OF inv q])
qed

lemma outcome_link:
  assumes "traced (list_all (old_state c0 D)) (linking b c0 D ts payload linked) s" and "write_ok ts payload"
    and "p \<in> fst ` set payload" and "is_dir (os_files s) (butlast p)"
  shows "outcome (case os_Readlink (os_files s) p of
        Inl err \<Rightarrow> if os_IsNotExist err then os_Symlink (link_target p) p else ret ()
      | Inr _ \<Rightarrow> ret ()) s
    (\<lambda>s' _. traced (list_all (old_state c0 D)) (linking b c0 D ts payload (insert p linked)) s')
    (\<lambda>s' _. traced (list_all (old_state c0 D)) (linking b c0 D ts payload linked) s')"
proof -
  let ?fs = "os_files s"
  have l: "linking b c0 D ts payload linked ?fs" using assms(1) by (simp add: traced_def)
  note inv = linking_inv [OF l]
  have p: "path_visible p" "''..'' \<notin> set p" "p \<noteq> []" "\<not> is_dir ?fs p"
    using assms(2,3) l by (auto simp: write_ok_def path_visible_def linking_def writing_def)
  have ok: "fs_ok ?fs" using inv by (simp add: aw_inv_def)
  have "last p \<noteq> ''..''" using p(2) last_in_set [OF p(3)] by metis
  from namei_parent [OF ok assms(4) this, of max_links False] p(3) have n: "namei max_links ?fs False [] p = Inr p"
    by (simp split: option.splits fnode.splits)
  show ?thesis
  proof (cases "mget ?fs p")
    case None
    have "outcome (os_Symlink (link_target p) p) s
      (\<lambda>s' _. traced (list_all (old_state c0 D)) (linking b c0 D ts payload (insert p linked)) s')
      (\<lambda>s' _. traced (list_all (old_state c0 D)) (linking b c0 D ts payload linked) s')"
      unfolding os_Symlink_def
    proof (rule outcome_syscall [OF assms(1)])
      fix fs' assume "new_entry ?fs p (Link (link_target p)) = Inr fs'"
      then have fs': "fs' = mput p (Link (link_target p)) ?fs" using n by (simp add: new_entry_Inr)
      have "linking b c0 D ts payload linked fs'"
        unfolding fs' using p(1) by (intro linking_put [OF l assms(2) p(1,2) assms(4) None _ _ assms(3)]) (simp_all add: visible_ok_def assms(3))
      then have "linking b c0 D ts payload (insert p linked) fs'" by (simp add: linking_def fs')
      then show "list_all (old_state c0 D) (os_trace s @ [fs']) \<and> linking b c0 D ts payload (insert p linked) fs'"
        using assms(1) by (simp add: traced_def linking_def writing_def)
    qed
    then show ?thesis using None n by (simp add: os_Readlink_def node_at_def ENOENT_def os_IsNotExist_def)
  next
    case (Some nd)
    with aw_inv_node [OF inv Some] p(1,4) obtain t where t: "nd = Link t"
      by (cases nd) (auto simp: visible_ok_def is_dir_iff)
    then have "linking b c0 D ts payload (insert p linked) ?fs" using l Some by (simp add: linking_def)
    then show ?thesis using assms(1) Some n t by (simp add: os_Readlink_def node_at_def outcome_ret traced_def)
  qed
qed

lemma traced_linking: "traced T (linking b c0 D ts payload linked) s \<Longrightarrow> traced T (old_state c0 D) s"
  by (simp add: traced_def linking_def writing_def)

lemma outcome_createUserVisibleFiles:
  assumes "traced (list_all (old_state c0 D)) (linking b c0 D ts payload linked) s" and "write_ok ts payload"
    and "set rest \<subseteq> set payload"
  shows "outcome (createUserVisibleFiles rest) s
    (\<lambda>s' _. traced (list_all (old_state c0 D)) (linking b c0 D ts payload (linked \<union> fst ` set rest)) s')
    (\<lambda>s' _. traced (list_all (old_state c0 D)) (old_state c0 D) s')"
  using assms(1,3)
proof (induction rest arbitrary: linked s)
  case (Cons e rest)
  obtain p proj where e: "e = (p, proj)" by (cases e)
  have p: "p \<in> fst ` set payload" using Cons.prems(2) by (force simp: e)
  then have p': "p \<noteq> []" using assms(2) by (auto simp: write_ok_def path_visible_def)
  let ?T = "traced (list_all (old_state c0 D))" and ?L = "linking b c0 D ts payload"
  have dirs: "outcome (if butlast p \<noteq> [] then MkdirAll 0x1FF (butlast p) else ret ()) s
      (\<lambda>s' _. ?T (?L linked) s' \<and> is_dir (os_files s') (butlast p)) (\<lambda>s' _. ?T (?L linked) s')"
  proof (cases "butlast p = []")
    case True
    have "is_dir (os_files s) []" using Cons.prems(1) linking_inv by (auto simp: traced_def aw_inv_def fs_ok_def)
    then show ?thesis using True Cons.prems(1) by (simp add: outcome_ret)
  next
    case False
    have "strict_prefix (butlast p) p" using p' by (cases p rule: rev_cases) (auto simp: strict_prefix_def)
    from outcome_visible_MkdirAll [OF Cons.prems(1) assms(2) p this False] False show ?thesis by simp
  qed
  have links: "outcome (gets (\<lambda>s. case os_Readlink (os_files s) p of
        Inl err \<Rightarrow> if os_IsNotExist err then os_Symlink (link_target p) p else ret ()
      | Inr _ \<Rightarrow> ret ())) s (\<lambda>s' _. ?T (?L (insert p linked)) s') (\<lambda>s' _. ?T (?L linked) s')"
    if "?T (?L linked) s \<and> is_dir (os_files s) (butlast p)" for s
    unfolding outcome_gets using that outcome_link [OF _ assms(2) p] by blast
  have rest: "outcome (createUserVisibleFiles rest) s (\<lambda>s' _. ?T (?L (linked \<union> fst ` set (e # rest))) s') (\<lambda>s' _. ?T (old_state c0 D) s')"
    if "?T (?L (insert p linked)) s" for s
    using Cons.IH [OF that] Cons.prems(2) by (simp add: e)
  show ?case
    unfolding e createUserVisibleFiles.simps Let_def link_target_def [symmetric]
    by (rule and_then_outcome [OF dirs], rule and_then_outcome [OF links], assumption)
      (use rest traced_linking in \<open>auto simp: e\<close>)
qed (simp add: outcome_ret)

section \<open>The switch\<close>

definition payload_data :: "payload \<Rightarrow> fpath \<Rightarrow> string option" where
  "payload_data payload p = map_option fp_Data (mget payload p)"

text \<open>The new directory is the data directory, with the payload in it and nothing else.\<close>

definition new_state :: "string \<Rightarrow> payload \<Rightarrow> files \<Rightarrow> bool" where
  "new_state ts payload fs \<longleftrightarrow> aw_inv fs \<and> cur_dir fs = Some ts \<and> data_of fs = payload_data payload \<and>
     (\<forall>q. mget fs (ts # q) \<noteq> None \<longrightarrow> q = [] \<or> (\<exists>p \<in> fst ` set payload. prefix q p))"

text \<open>A first part of the trace shows the old files, and the rest the new ones.\<close>

definition switched :: "string option \<Rightarrow> (fpath \<Rightarrow> string option) \<Rightarrow> string \<Rightarrow> payload \<Rightarrow> files list \<Rightarrow> bool" where
  "switched c0 D ts payload tr \<longleftrightarrow>
     (\<exists>xs ys. tr = xs @ ys \<and> list_all (old_state c0 D) xs \<and> list_all (new_state ts payload) ys)"

lemma switched_old: "list_all (old_state c0 D) tr \<Longrightarrow> switched c0 D ts payload tr"
  unfolding switched_def by (intro exI [of _ tr] exI [of _ "[]"]) simp

lemma switched_new:
  assumes "switched c0 D ts payload tr" and "new_state ts payload fs"
  shows "switched c0 D ts payload (tr @ [fs])"
proof -
  from assms(1) obtain xs ys where "tr = xs @ ys" "list_all (old_state c0 D) xs" "list_all (new_state ts payload) ys"
    unfolding switched_def by blast
  with assms(2) show ?thesis unfolding switched_def by (intro exI [of _ xs] exI [of _ "ys @ [fs]"]) simp
qed

lemma linked_file_data:
  assumes "linking b c0 D ts payload linked fs" and "write_ok ts payload"
  shows "file_data fs (ts # p) = payload_data payload p"
proof (cases "mget payload p")
  case (Some proj)
  then have "(p, proj) \<in> set payload" by (rule mget_SomeD)
  then show ?thesis using Some assms(1) by (auto simp: linking_def writing_def payload_data_def)
next
  case None
  then have "p \<notin> fst ` set payload" by (simp add: mget_None_iff)
  then have "mget fs (ts # p) \<noteq> Some (File d m)" for d m
    using written_entry(1) [of b c0 D ts payload payload fs p "File d m"] assms(1) by (auto simp: linking_def ts_entry_def)
  then show ?thesis using None by (auto simp: file_data_def payload_data_def split: option.splits fnode.splits)
qed

lemma linked_entry:
  assumes "linking b c0 D ts payload (fst ` set payload) fs" and "write_ok ts payload" and "mget fs (ts # p) = Some nd" and "p \<noteq> []"
  shows "path_visible p \<and> (\<exists>k \<in> fst ` set payload. prefix p k) \<and>
    (case nd of Dir m \<Rightarrow> is_dir fs p | _ \<Rightarrow> \<exists>t. mget fs p = Some (Link t))"
proof -
  have ok: "fs_ok fs" using linking_inv [OF assms(1)] by (simp add: aw_inv_def)
  have e: "ts_entry payload p nd" using written_entry(1) [OF _ assms(3)] assms(1) unfolding linking_def by blast
  show ?thesis
  proof (cases nd)
    case (Dir m)
    then obtain k where k: "k \<in> fst ` set payload" "strict_prefix p k" using e assms(4) by (auto simp: ts_entry_def)
    then obtain t r where "mget fs k = Some (Link t)" "k = p @ r" "r \<noteq> []"
      using assms(1) by (auto simp: linking_def strict_prefix_def prefix_def)
    then have "is_dir fs p" using fs_ok_parent [OF ok, of p r] by simp
    then show ?thesis using k sub_path_ok(1) [OF assms(2) k assms(4)] Dir by (auto simp: strict_prefix_def)
  next
    case (File d m)
    then have "p \<in> fst ` set payload" using e by (simp add: ts_entry_def)
    then show ?thesis using File assms(1,2) by (auto simp: linking_def write_ok_def)
  qed (use e in \<open>simp add: ts_entry_def\<close>)
qed

lemma switch:
  assumes "linking b c0 D ts payload (fst ` set payload) fs" and "write_ok ts payload"
    and "mget fs [newDataDirName] = Some (Link [ts])"
  shows "new_state ts payload (mput [dataDirName] (Link [ts]) (mdel [newDataDirName] fs))" (is "new_state ts payload ?fs")
proof -
  note inv = linking_inv [OF assms(1)]
  have ok: "fs_ok fs" using inv by (simp add: aw_inv_def)
  have root: "is_dir fs []" using ok by (simp add: fs_ok_def)
  have ts: "hidden ts" "ts \<noteq> dataDirName" "ts \<noteq> newDataDirName" using assms(2) by (simp_all add: write_ok_def)
  have "\<not> has_children fs [newDataDirName]"
    using ok assms(3) has_children_iff [of fs "[newDataDirName]"] fs_ok_parent [OF ok, of "[newDataDirName]" "[e]" for e]
    by (auto simp: fs_ok_def is_dir_iff)
  then have "fs_ok (mdel [newDataDirName] fs)" using ok by (intro fs_ok_del) simp_all
  moreover have nd: "\<not> is_dir fs [dataDirName]"
    using inv by (auto simp: aw_inv_def data_dir_ok_def is_dir_iff split: option.splits fnode.splits)
  ultimately have "fs_ok ?fs" using root by (intro fs_ok_put) (auto simp: is_dir_del)
  moreover have same: "mget ?fs p = mget fs p" if "path_visible p \<or> hd p = ts" for p
    using that ts by (auto simp: gm.get_put gm.get_del)
  have dir_ts: "is_dir ?fs [ts]" using assms(1) same [of "[ts]"] by (simp add: linking_def writing_def is_dir_iff)
  then have "data_dir_ok ?fs" using ts(1) by (simp add: data_dir_ok_def)
  moreover have "visible_ok p nd" if "mget ?fs p = Some nd" for p nd
    using that aw_inv_node [OF inv, of p nd]
    by (cases "p = [dataDirName]") (auto simp: gm.get_put gm.get_del visible_ok_def [of "[dataDirName]"] split: if_splits)
  moreover have "data_linked ?fs ts"
    unfolding data_linked_def
  proof (intro allI impI)
    fix p nd assume p: "p \<noteq> []" "mget ?fs (ts # p) = Some nd"
    then have "mget fs (ts # p) = Some nd" using same [of "ts # p"] by simp
    from linked_entry [OF assms(1,2) this p(1)] same [of p]
    show "path_visible p \<and> (case nd of Dir m \<Rightarrow> is_dir ?fs p | _ \<Rightarrow> \<exists>t. mget ?fs p = Some (Link t))"
      by (auto simp: is_dir_iff split: fnode.splits)
  qed
  moreover have cur: "cur_dir ?fs = Some ts" by (simp add: cur_dir_def)
  ultimately have "aw_inv ?fs" by (simp add: aw_inv_def)
  moreover have "data_of ?fs = payload_data payload"
    using linked_file_data [OF assms(1,2)] same by (auto simp: data_of_def cur file_data_def fun_eq_iff)
  moreover have "q = [] \<or> (\<exists>p \<in> fst ` set payload. prefix q p)" if "mget ?fs (ts # q) \<noteq> None" for q
    using linked_entry [OF assms(1,2), of q] that same [of "ts # q"] by auto
  ultimately show ?thesis using cur by (simp add: new_state_def)
qed

section \<open>Removing entries\<close>

lemma old_del:
  assumes "old_state c0 D fs" and "hidden e" and "e \<noteq> dataDirName" and "c0 \<noteq> Some e" and "\<not> has_children fs (e # r)"
  shows "old_state c0 D (mdel (e # r) fs)"
proof -
  have inv: "aw_inv fs" using assms(1) by (simp add: old_state_def)
  have "e \<noteq> c \<and> mget fs (c # e # r) = None" if "cur_dir fs = Some c" for c
    using data_linkedD [OF cur_dir_facts(5) [OF inv that], of "e # r"] assms(1,2,4) that
    by (cases "mget fs (c # e # r)") (auto simp: old_state_def)
  then show ?thesis
    using aw_inv_del [OF inv, of "e # r"] assms(1,3,5) by (auto simp: old_state_def)
qed

lemma keeps_old_Remove:
  assumes "hidden e" and "e \<noteq> ''..''" and "e \<noteq> dataDirName" and "c0 \<noteq> Some e" and "''..'' \<notin> set r" and "e \<noteq> newDataDirName \<or> r = []"
  shows "keeps (traced (list_all (old_state c0 D)) (old_state c0 D)) (os_Remove (e # r))"
  unfolding os_Remove_def
proof (rule keeps_syscall)
  fix fs fs' assume o: "old_state c0 D fs" and r: "remove_entry (e # r) fs = Inr fs'"
  have inv: "aw_inv fs" using o by (simp add: old_state_def)
  from r namei_hidden [OF inv assms(1), of r False] assms(2,3,5,6) have "\<not> has_children fs (e # r)" "fs' = mdel (e # r) fs"
    by (auto simp: remove_entry_Inr)
  then show "old_state c0 D fs'" using old_del [OF o assms(1,3,4)] by simp
qed simp

lemma new_del:
  assumes "new_state ts payload fs" and "q \<noteq> []" and "q \<noteq> [dataDirName]" and "hd q \<noteq> ts" and "mget fs (ts # q) = None"
    and "\<not> has_children fs q"
  shows "new_state ts payload (mdel q fs)"
  using aw_inv_del [of fs q] assms by (auto simp: new_state_def gm.get_del split: if_splits)

lemma keeps_new_Remove:
  assumes "''..'' \<notin> set q" and "path_visible q \<and> (\<forall>p \<in> fst ` set payload. \<not> prefix q p) \<or>
      q \<noteq> [] \<and> hidden (hd q) \<and> hd q \<notin> {ts, dataDirName, newDataDirName}" and "write_ok ts payload"
  shows "keeps (traced (switched c0 D ts payload) (new_state ts payload)) (os_Remove q)"
  unfolding os_Remove_def
proof (rule keeps_syscall)
  fix fs fs' assume n: "new_state ts payload fs" and r: "remove_entry q fs = Inr fs'"
  have inv: "aw_inv fs" "cur_dir fs = Some ts" using n by (simp_all add: new_state_def)
  have q: "q \<noteq> []" "q \<noteq> [dataDirName]" "hd q \<noteq> ts" using assms(2,3) by (auto simp: path_visible_def write_ok_def)
  from r have "\<not> has_children fs q" "fs' = mdel q fs"
    using namei_visible [OF inv(1) _ assms(1), of False] namei_hidden [OF inv(1), of "hd q" "tl q" False] assms(1,2) q(1)
    by (auto simp: remove_entry_Inr)
  moreover have "mget fs (ts # q) = None"
    using assms(2) q(1) n data_linkedD [OF cur_dir_facts(5) [OF inv], of q]
    by (cases "mget fs (ts # q)") (auto simp: new_state_def path_visible_def)
  ultimately show "new_state ts payload fs'" using new_del [OF n q] by simp
qed (rule switched_new)

section \<open>Atomic writes\<close>

lemma sub_paths_iff: "q \<in> set (sub_paths p) \<longleftrightarrow> q \<noteq> [] \<and> prefix q p"
proof (induction p rule: sub_paths.induct)
  case (1 p)
  show ?case
  proof (cases "p = []")
    case False
    then obtain p' e where p: "p = p' @ [e]" by (cases p rule: rev_cases) auto
    with 1 [OF False] False show ?thesis by (subst sub_paths.simps) (auto simp: prefix_snoc)
  qed (simp add: sub_paths.simps)
qed

lemma pathsToRemove_iff:
  "p \<in> set (pathsToRemove fs payload) \<longleftrightarrow>
   mget fs p \<noteq> None \<and> path_visible p \<and> (\<forall>k \<in> fst ` set payload. \<not> prefix p k)"
  by (auto simp: pathsToRemove_def walk_paths_def sub_paths_iff mget_None_iff path_visible_def)

lemma keeps_remove_paths:
  "(\<And>p. p \<in> set ps \<Longrightarrow> keeps P (os_Remove p)) \<Longrightarrow> keeps P (remove_paths ps)"
  by (induction ps) (auto intro: keeps_basic keeps_and_then)

definition ended :: "string option \<Rightarrow> (fpath \<Rightarrow> string option) \<Rightarrow> string \<Rightarrow> payload \<Rightarrow> os \<Rightarrow> bool" where
  "ended c0 D ts payload s \<longleftrightarrow>
     traced (switched c0 D ts payload) (\<lambda>fs. old_state c0 D fs \<or> new_state ts payload fs) s"

lemma ended_old: "traced (list_all (old_state c0 D)) (old_state c0 D) s \<Longrightarrow> ended c0 D ts payload s"
  by (simp add: ended_def traced_def switched_old)

lemma ended_new: "traced (switched c0 D ts payload) (new_state ts payload) s \<Longrightarrow> ended c0 D ts payload s"
  by (simp add: ended_def traced_def)

lemma keeps_old_RemoveAll:
  assumes "write_ok ts payload" and "c0 \<noteq> Some ts"
  shows "keeps (traced (list_all (old_state c0 D)) (old_state c0 D)) (RemoveAll [ts])"
proof (rule keeps_RemoveAll)
  fix q assume "prefix [ts] q" and "''..'' \<notin> set q"
  then show "keeps (traced (list_all (old_state c0 D)) (old_state c0 D)) (os_Remove q)"
    using assms by (cases q) (auto intro!: keeps_old_Remove simp: write_ok_def)
qed (use assms(1) in \<open>auto simp: write_ok_def traced_def old_state_def aw_inv_def\<close>)

text \<open>After the rename: the old paths and the old directory are removed.\<close>

lemma outcome_cleanup:
  assumes "traced (switched c0 D ts payload) (new_state ts payload) s" and "write_ok ts payload"
    and "\<And>p. p \<in> set remove \<Longrightarrow> path_visible p \<and> ''..'' \<notin> set p \<and> (\<forall>k \<in> fst ` set payload. \<not> prefix p k)"
    and "old = [] \<or> (\<exists>c. old = [c] \<and> hidden c \<and> c \<notin> {''..'', ts, dataDirName, newDataDirName})"
  shows "outcome (and_then (removeUserVisiblePaths remove) (\<lambda>_. if length old > 0 then RemoveAll old else ret ())) s
    (\<lambda>s' _. traced (switched c0 D ts payload) (new_state ts payload) s') (\<lambda>s' _. traced (switched c0 D ts payload) (new_state ts payload) s')"
proof -
  let ?P = "traced (switched c0 D ts payload) (new_state ts payload)"
  have "keeps ?P (removeUserVisiblePaths remove)"
    unfolding removeUserVisiblePaths_def using assms(2,3) by (intro keeps_remove_paths keeps_new_Remove) auto
  moreover have "keeps ?P (if length old > 0 then RemoveAll old else ret ())"
  proof (cases "old = []")
    case False
    then obtain c where c: "old = [c]" "hidden c" "c \<notin> {''..'', ts, dataDirName, newDataDirName}" using assms(4) by auto
    have "keeps ?P (RemoveAll [c])"
    proof (rule keeps_RemoveAll)
      fix q assume "prefix [c] q" and "''..'' \<notin> set q"
      then show "keeps ?P (os_Remove q)" using c(2,3) assms(2) by (intro keeps_new_Remove) (auto simp: prefix_def)
    qed (use c in \<open>auto simp: traced_def new_state_def aw_inv_def\<close>)
    then show ?thesis using c(1) by simp
  qed (simp add: keeps_basic)
  ultimately have "keeps ?P (and_then (removeUserVisiblePaths remove) (\<lambda>_. if length old > 0 then RemoveAll old else ret ()))"
    by (intro keeps_and_then)
  from keepsD [OF this assms(1)] show ?thesis .
qed

definition old_dir :: "string option \<Rightarrow> fpath" where
  "old_dir c0 = (case c0 of None \<Rightarrow> [] | Some c \<Rightarrow> [c])"

lemma namei_top:
  assumes "aw_inv fs" and "e \<in> {dataDirName, newDataDirName}"
  shows "namei max_links fs False [] [e] = Inr [e]"
proof -
  have "fs_ok fs" "is_dir fs []" using assms(1) by (simp_all add: aw_inv_def fs_ok_def)
  from namei_parent [OF this, of e max_links False] assms(2) show ?thesis by (auto split: option.splits fnode.splits)
qed

lemma Readlink_data_dir:
  assumes "old_state c0 D fs"
  shows "(case os_Readlink fs [dataDirName] of Inl err \<Rightarrow> if os_IsNotExist err then ret [] else fail err | Inr old \<Rightarrow> ret old) = ret (old_dir c0)"
proof -
  have inv: "aw_inv fs" "cur_dir fs = c0" using assms by (simp_all add: old_state_def)
  note n = namei_top [OF inv(1), of dataDirName]
  show ?thesis
  proof (cases c0)
    case None
    then show ?thesis
      using inv cur_dir_None [OF inv(1)] n by (simp add: os_Readlink_def node_at_def old_dir_def ENOENT_def os_IsNotExist_def)
  next
    case (Some c)
    then show ?thesis using inv cur_dir_Some [OF inv(1)] n by (simp add: os_Readlink_def node_at_def old_dir_def)
  qed
qed

text \<open>The temporary link is made.\<close>

lemma outcome_tmp_link:
  assumes "traced (list_all (old_state c0 D)) (linking b c0 D ts payload linked) s" and "write_ok ts payload"
  shows "outcome (os_Symlink [ts] [newDataDirName]) s
    (\<lambda>s' _. traced (list_all (old_state c0 D)) (\<lambda>fs. linking None c0 D ts payload linked fs \<and> mget fs [newDataDirName] = Some (Link [ts])) s')
    (\<lambda>s' _. traced (list_all (old_state c0 D)) (linking b c0 D ts payload linked) s')"
  unfolding os_Symlink_def
proof (rule outcome_syscall [OF assms(1)])
  let ?fs = "os_files s" and ?q = "[newDataDirName]"
  have l: "linking b c0 D ts payload linked ?fs" using assms(1) by (simp add: traced_def)
  note inv = linking_inv [OF l]
  fix fs' assume "new_entry ?fs ?q (Link [ts]) = Inr fs'"
  then have n: "mget ?fs ?q = None" "fs' = mput ?q (Link [ts]) ?fs" using namei_top [OF inv] by (simp_all add: new_entry_Inr)
  have put: "aw_inv fs' \<and> cur_dir fs' = cur_dir ?fs \<and> data_of fs' = data_of ?fs"
    unfolding n(2) using inv n(1) cur_dir_facts(2) [OF inv]
    by (intro aw_inv_put [OF inv]) (auto simp: aw_inv_def fs_ok_def visible_ok_def is_dir_iff)
  have same: "mget fs' (ts # p) = mget ?fs (ts # p)" for p using assms(2) by (auto simp: n(2) gm.get_put write_ok_def)
  have "\<forall>p \<in> fst ` set payload. \<not> is_dir fs' p" using l by (auto simp: linking_def writing_def is_dir_put n(2))
  then have "writing None c0 D ts payload payload fs'"
    using l put by (simp add: linking_def writing_def old_state_def is_dir_iff file_data_def same)
  moreover have "mget fs' p = Some (Link t)" if "mget ?fs p = Some (Link t)" for p t
    using that n by (auto simp: gm.get_put)
  then have "\<forall>p \<in> linked. \<exists>t. mget fs' p = Some (Link t)" using l unfolding linking_def by blast
  ultimately have "linking None c0 D ts payload linked fs' \<and> mget fs' ?q = Some (Link [ts])" by (simp add: linking_def n(2))
  then show "list_all (old_state c0 D) (os_trace s @ [fs']) \<and> linking None c0 D ts payload linked fs' \<and> mget fs' ?q = Some (Link [ts])"
    using assms(1) by (simp add: traced_def linking_def writing_def)
qed

lemma outcome_rename:
  assumes "traced (list_all (old_state c0 D))
      (\<lambda>fs. linking b c0 D ts payload (fst ` set payload) fs \<and> mget fs [newDataDirName] = Some (Link [ts])) s" and "write_ok ts payload"
  shows "outcome (os_Rename [newDataDirName] [dataDirName]) s
    (\<lambda>s' _. traced (switched c0 D ts payload) (new_state ts payload) s')
    (\<lambda>s' _. traced (list_all (old_state c0 D)) (old_state c0 D) s')"
proof -
  let ?fs = "os_files s"
  have l: "linking b c0 D ts payload (fst ` set payload) ?fs" "mget ?fs [newDataDirName] = Some (Link [ts])"
    using assms(1) by (simp_all add: traced_def)
  have "outcome (os_Rename [newDataDirName] [dataDirName]) s
    (\<lambda>s' _. traced (switched c0 D ts payload) (new_state ts payload) s')
    (\<lambda>s' _. traced (list_all (old_state c0 D))
      (\<lambda>fs. linking b c0 D ts payload (fst ` set payload) fs \<and> mget fs [newDataDirName] = Some (Link [ts])) s')"
    unfolding os_Rename_def
  proof (rule outcome_syscall [OF assms(1)])
    fix fs' assume "rename_entry [newDataDirName] [dataDirName] ?fs = Inr fs'"
    then have "fs' = mput [dataDirName] (Link [ts]) (mdel [newDataDirName] ?fs)"
      using namei_top [OF linking_inv [OF l(1)]] l(2) by (auto simp: rename_entry_def split: option.splits fnode.splits)
    then have "new_state ts payload fs'" using switch [OF l(1) assms(2) l(2)] by simp
    then show "switched c0 D ts payload (os_trace s @ [fs']) \<and> new_state ts payload fs'"
      using assms(1) switched_new [OF switched_old] by (simp add: traced_def)
  qed
  then show ?thesis by (rule outcome_mono) (auto simp: traced_def linking_def writing_def)
qed

lemma outcome_swap:
  assumes "traced (list_all (old_state c0 D)) (linking b c0 D ts payload (fst ` set payload)) s" and "write_ok ts payload"
    and "\<And>p. p \<in> set remove \<Longrightarrow> path_visible p \<and> ''..'' \<notin> set p \<and> (\<forall>k \<in> fst ` set payload. \<not> prefix p k)"
  shows "outcome (swap_data_dir [ts] remove) s
    (\<lambda>s' _. traced (switched c0 D ts payload) (new_state ts payload) s') (\<lambda>s' _. ended c0 D ts payload s')"
proof -
  let ?T = "list_all (old_state c0 D)" and ?Q = "\<lambda>s' _. traced (switched c0 D ts payload) (new_state ts payload) s'"
    and ?E = "\<lambda>s' _. ended c0 D ts payload s'"
  have l: "linking b c0 D ts payload (fst ` set payload) (os_files s)" using assms(1) by (simp add: traced_def)
  have old: "old_state c0 D (os_files s)" and c0: "c0 \<noteq> Some ts" using l by (simp_all add: linking_def writing_def)
  have undo: "outcome (on_result (RemoveAll [ts]) (\<lambda>_. fail err)) s ?Q ?E" if "traced ?T (old_state c0 D) s" for s err
    using keepsD [OF keeps_old_RemoveAll [OF assms(2) c0] that]
    by (rule on_result_outcome) (auto simp: outcome_fail intro: ended_old)
  have undo': "outcome (on_result (os_Remove [newDataDirName]) (\<lambda>_. on_result (RemoveAll [ts]) (\<lambda>_. fail err))) s ?Q ?E"
    if "traced ?T (old_state c0 D) s" "c0 \<noteq> Some newDataDirName" for s err
  proof -
    have "keeps (traced ?T (old_state c0 D)) (os_Remove [newDataDirName])" using that(2) by (intro keeps_old_Remove) simp_all
    from keepsD [OF this that(1)] show ?thesis by (rule on_result_outcome) (rule undo, assumption)+
  qed
  have switch_on: "outcome (on_result (os_Rename [newDataDirName] [dataDirName]) (\<lambda>r. case r of
        Inl err \<Rightarrow> on_result (os_Remove [newDataDirName]) (\<lambda>_. on_result (RemoveAll [ts]) (\<lambda>_. fail err))
      | Inr _ \<Rightarrow> and_then (removeUserVisiblePaths remove) (\<lambda>_. if length (old_dir c0) > 0 then RemoveAll (old_dir c0) else ret ()))) s ?Q ?E"
    if t: "traced ?T (\<lambda>fs. linking None c0 D ts payload (fst ` set payload) fs \<and> mget fs [newDataDirName] = Some (Link [ts])) s" for s
  proof -
    have l': "linking None c0 D ts payload (fst ` set payload) (os_files s)" "mget (os_files s) [newDataDirName] = Some (Link [ts])"
      using t by (simp_all add: traced_def)
    have cur: "cur_dir (os_files s) = c0" using l'(1) by (simp add: linking_def writing_def old_state_def)
    have c: "hidden c \<and> c \<notin> {''..'', ts, dataDirName, newDataDirName}" if "c0 = Some c" for c
      using cur_dir_facts(1-4) [OF linking_inv [OF l'(1)]] cur that c0 l'(2) by (auto simp: is_dir_iff)
    then have o: "old_dir c0 = [] \<or> (\<exists>c. old_dir c0 = [c] \<and> hidden c \<and> c \<notin> {''..'', ts, dataDirName, newDataDirName})"
      by (cases c0) (auto simp: old_dir_def)
    have n: "c0 \<noteq> Some newDataDirName" using c by blast
    show ?thesis
      using outcome_rename [OF t assms(2)]
    proof (rule on_result_outcome)
      fix s' :: os and a :: unit assume t: "traced (switched c0 D ts payload) (new_state ts payload) s'"
      show "outcome (case Inr a of
          Inl err \<Rightarrow> on_result (os_Remove [newDataDirName]) (\<lambda>_. on_result (RemoveAll [ts]) (\<lambda>_. fail err))
        | Inr _ \<Rightarrow> and_then (removeUserVisiblePaths remove) (\<lambda>_. if length (old_dir c0) > 0 then RemoveAll (old_dir c0) else ret ())) s' ?Q ?E"
        unfolding sum.case using outcome_cleanup [OF t assms(2,3) o] by (rule outcome_mono) (auto intro: ended_new)
    qed (simp, rule undo' [OF _ n])
  qed
  show ?thesis
    unfolding swap_data_dir_def outcome_and_then outcome_gets Readlink_data_dir [OF old] outcome_ret last_ConsL [OF refl]
    using outcome_tmp_link [OF assms(1,2)]
    by (rule on_result_outcome) (simp_all only: sum.case switch_on undo [OF traced_linking])
qed

text \<open>Validation lets no element \<open>..\<close> pass, and cleaning only drops empty elements and \<open>.\<close>.\<close>

lemma validate_items_None: "validate_items items = None \<Longrightarrow> ''..'' \<notin> set items"
  by (induction items) (auto split: if_splits)

lemma foldl_clean_step:
  "''..'' \<notin> set items \<Longrightarrow> foldl (clean_step rooted) out items = out @ filter (\<lambda>e. e \<noteq> [] \<and> e \<noteq> ''.'') items"
  by (induction items arbitrary: out) (auto simp: clean_step_def)

lemma validatePath_elems:
  assumes "validatePath k = None"
  shows "path_elems (path_Clean k) = path_elems k" and "''..'' \<notin> set (path_elems k)"
proof -
  have k: "k \<noteq> []" "hd k \<noteq> CHR ''/''" "''..'' \<notin> set (strings_Split k (CHR ''/''))"
    using assms by (auto simp: validatePath_def Let_def split: if_splits option.splits intro: validate_items_None [THEN notE])
  define out where "out = path_elems k"
  have clean: "path_Clean k = (if strings_Join out ''/'' = [] then ''.'' else strings_Join out ''/'')"
    using k by (simp add: path_Clean_def foldl_clean_step Let_def out_def path_elems_def)
  have elems: "list_all (\<lambda>e. CHR ''/'' \<notin> set e) out" "list_all (\<lambda>e. e \<noteq> [] \<and> e \<noteq> ''.'') out"
    using strings_Split_parts [of _ k "CHR ''/''"] by (auto simp: out_def path_elems_def list_all_iff)
  show "path_elems (path_Clean k) = path_elems k"
  proof (cases "out = []")
    case True
    then show ?thesis using clean by (simp add: path_elems_def out_def)
  next
    case False
    then have "strings_Join out ''/'' \<noteq> []" using elems(2) by (cases out; cases "tl out") auto
    then have "path_elems (path_Clean k) = filter (\<lambda>e. e \<noteq> [] \<and> e \<noteq> ''.'') out"
      using clean strings_Split_Join [OF False elems(1)] by (simp add: path_elems_def)
    also have "\<dots> = out" using elems(2) by (intro filter_True) (simp add: list_all_iff)
    finally show ?thesis by (simp add: out_def)
  qed
  show "''..'' \<notin> set (path_elems k)" using k(3) by (auto simp: path_elems_def)
qed

lemma validatePayload_loop_keys:
  "validatePayload_loop payload acc = Inr clean \<Longrightarrow> mwf acc \<Longrightarrow> \<forall>p \<in> fst ` set acc. ''..'' \<notin> set p \<Longrightarrow>
   mwf clean \<and> (\<forall>p \<in> fst ` set clean. ''..'' \<notin> set p)"
proof (induction payload acc rule: validatePayload_loop.induct)
  case (2 k content rest acc)
  then have v: "validatePath k = None" by (auto split: option.splits)
  with 2 validatePath_elems [OF v] show ?case by (simp add: mput_keys)
qed simp

text \<open>When nothing has to be written, the files are already those of the payload.\<close>

definition readable :: "fpath \<Rightarrow> bool" where
  "readable p \<longleftrightarrow> path_visible p \<and> ''..'' \<notin> set p"

lemma shouldWritePayload_False:
  "shouldWritePayload fs payload = Inr False \<Longrightarrow> (p, proj) \<in> set payload \<Longrightarrow> read_data fs p = Some (fp_Data proj)"
  by (induction fs payload rule: shouldWritePayload.induct)
    (auto simp: shouldWriteFile_def read_data_def split: sum.splits if_splits bool.splits)

lemma payload_already_there:
  assumes "aw_inv fs" and "write_ok ts payload" and "shouldWritePayload fs payload = Inr False" and "pathsToRemove fs payload = []"
    and "readable p"
  shows "read_data fs p = payload_data payload p"
proof (cases "mget payload p")
  case (Some proj)
  then show ?thesis using shouldWritePayload_False [OF assms(3) mget_SomeD [OF Some]] by (simp add: payload_data_def)
next
  case None
  then have p: "p \<notin> fst ` set payload" by (simp add: mget_None_iff)
  have "data_of fs p = None"
  proof (rule ccontr)
    assume "data_of fs p \<noteq> None"
    then obtain c d m where c: "cur_dir fs = Some c" "mget fs (c # p) = Some (File d m)"
      by (auto simp: data_of_def file_data_def split: option.splits fnode.splits)
    have v: "path_visible p" "p \<noteq> []" using assms(5) by (auto simp: readable_def path_visible_def)
    then obtain t where "mget fs p = Some (Link t)" using data_linkedD [OF cur_dir_facts(5) [OF assms(1) c(1)] _ c(2)] by auto
    then have "\<exists>k \<in> fst ` set payload. prefix p k"
      using pathsToRemove_iff [of p fs payload] assms(4) v by auto
    then obtain k proj where kp: "(k, proj) \<in> set payload" "prefix p k" by auto
    then have "k \<noteq> p" using p by (auto intro: rev_image_eqI)
    with kp obtain r where k: "(k, proj) \<in> set payload" "k = p @ r" "r \<noteq> []" by (auto simp: prefix_def)
    have "read_data fs k = Some (fp_Data proj)" by (rule shouldWritePayload_False [OF assms(3) k(1)])
    moreover have "path_visible k" "''..'' \<notin> set k" using k(1) assms(2) by (force simp: write_ok_def)+
    ultimately have "mget fs (c # k) \<noteq> None"
      using read_data_eq [OF assms(1)] c(1) by (auto simp: data_of_def file_data_def split: option.splits)
    with fs_ok_parent [of fs "c # p" r] assms(1) c(2) k show False by (auto simp: aw_inv_def is_dir_iff)
  qed
  then show ?thesis using None assms(5) read_data_eq [OF assms(1)] by (simp add: payload_data_def readable_def)
qed

lemma outcome_Write:
  assumes "aw_inv (os_files s)" and "os_trace s = []" and "validatePayload payload = Inr clean" and "write_ok ts clean"
    and "\<forall>p \<in> fst ` set clean. \<not> is_dir (os_files s) p"
  shows "outcome (AtomicWriter_Write ts payload) s
    (\<lambda>s' _. switched (cur_dir (os_files s)) (data_of (os_files s)) ts clean (os_trace s') \<and> aw_inv (os_files s') \<and>
       (\<forall>p. readable p \<longrightarrow> read_data (os_files s') p = payload_data clean p))
    (\<lambda>s' _. ended (cur_dir (os_files s)) (data_of (os_files s)) ts clean s')"
proof -
  define c0 D remove where "c0 = cur_dir (os_files s)" and "D = data_of (os_files s)" and "remove = pathsToRemove (os_files s) clean"
  let ?Q = "\<lambda>s' _. switched c0 D ts clean (os_trace s') \<and> aw_inv (os_files s') \<and>
      (\<forall>p. readable p \<longrightarrow> read_data (os_files s') p = payload_data clean p)" and ?E = "\<lambda>s' _. ended c0 D ts clean s'"
  have start: "traced (list_all (old_state c0 D)) (old_state c0 D) s"
    using assms(1,2) by (simp add: traced_def old_state_def c0_def D_def)
  have rem: "path_visible p \<and> ''..'' \<notin> set p \<and> (\<forall>k \<in> fst ` set clean. \<not> prefix p k)" if "p \<in> set remove" for p
    using that assms(1) fs_ok_names [of "os_files s" p] by (auto simp: remove_def pathsToRemove_iff aw_inv_def)
  have swap: "outcome (swap_data_dir [ts] remove) s' ?Q ?E"
    if "traced (list_all (old_state c0 D)) (linking None c0 D ts clean (fst ` set clean)) s'" for s'
    using outcome_swap [OF that assms(4) rem]
    by (rule outcome_mono) (auto simp: traced_def new_state_def read_data_eq readable_def)
  have links: "outcome (and_then (createUserVisibleFiles clean) (\<lambda>_. swap_data_dir [ts] remove)) s' ?Q ?E"
    if "traced (list_all (old_state c0 D)) (linking None c0 D ts clean {}) s'" for s'
    using outcome_createUserVisibleFiles [OF that assms(4) order.refl]
    by (rule and_then_outcome) (auto intro: swap ended_old)
  have rest: "outcome (and_then (writePayloadToDir clean [ts]) (\<lambda>_.
      and_then (createUserVisibleFiles clean) (\<lambda>_. swap_data_dir [ts] remove))) s' ?Q ?E"
    if t: "traced (list_all (old_state c0 D)) (writing None c0 D ts clean []) s'" for s'
  proof -
    have "distinct (map fst (rev clean @ []))" using assms(4) by (simp add: write_ok_def mwf_def rev_map [symmetric])
    from outcome_writePayloadToDir [OF t assms(4) order.refl this] show ?thesis
      by (rule and_then_outcome) (auto intro!: links ended_old simp: traced_def linking_def writing_def)
  qed
  have new: "outcome (and_then (newTimestampDir ts) (\<lambda>tsDir. and_then (writePayloadToDir clean tsDir) (\<lambda>_.
      and_then (createUserVisibleFiles clean) (\<lambda>_. swap_data_dir tsDir remove)))) s ?Q ?E"
    using outcome_newTimestampDir [OF start assms(4,5), of None] by (rule and_then_outcome) (auto intro: rest ended_old)
  have same: "?Q s a" if "shouldWritePayload (os_files s) clean = Inr False" "remove = []" for a :: unit
    using payload_already_there [OF assms(1,4) that(1)] that(2) assms(1,2) by (auto simp: remove_def intro: switched_old)
  show ?thesis
    unfolding AtomicWriter_Write_def Let_def go_wp assms(3) sum.case c0_def [symmetric] D_def [symmetric] remove_def [symmetric]
    using new same ended_old [OF start] by (auto simp: outcome_result outcome_and_then outcome_ret split: sum.split)
qed

text \<open>
  C6: A write of a projected volume is atomic. Whatever calls fail, and after every single change of a
  file, a reader of the visible files sees either all the old files or all the files of the payload, and never the
  old ones again after the new ones; so does a reader after a crash at any moment. If the write reports success the
  files are those of the payload. The layout is kept in every state, so the next write starts from a good one.
  The payload is valid, none of its cleaned paths starts with two dots and none is a visible directory.
\<close>

theorem atomic_write:
  assumes "aw_inv (os_files s)" and "os_trace s = []" and "validatePayload payload = Inr clean"
    and "\<forall>p \<in> fst ` set clean. path_visible p \<and> \<not> is_dir (os_files s) p"
    and "hidden ts" and "ts \<notin> {''..'', dataDirName, newDataDirName}"
  shows "\<exists>s' r n. AtomicWriter_Write ts payload s = Some (s', r) \<and> list_all aw_inv (os_files s' # os_trace s') \<and>
    (\<forall>i < length (os_trace s'). \<forall>p. readable p \<longrightarrow>
       read_data (os_trace s' ! i) p = (if i < n then read_data (os_files s) p else payload_data clean p)) \<and>
    (case r of
       Inr _ \<Rightarrow> \<forall>p. readable p \<longrightarrow> read_data (os_files s') p = payload_data clean p
     | Inl _ \<Rightarrow> (\<forall>p. readable p \<longrightarrow> read_data (os_files s') p = read_data (os_files s) p) \<or>
         (\<forall>p. readable p \<longrightarrow> read_data (os_files s') p = payload_data clean p))"
proof -
  let ?c = "cur_dir (os_files s)" and ?D = "data_of (os_files s)"
  have keys: "mwf clean \<and> (\<forall>p \<in> fst ` set clean. ''..'' \<notin> set p)"
    using validatePayload_loop_keys [of payload "[]" clean] assms(3) by (simp add: validatePayload_def)
  then have ok: "write_ok ts clean" using assms(4-6) by (simp add: write_ok_def)
  have old: "read_data fs p = read_data (os_files s) p" if "old_state ?c ?D fs" "readable p" for fs p
    using that read_data_eq [of fs p] read_data_eq [OF assms(1), of p] by (simp add: old_state_def readable_def)
  have new: "read_data fs p = payload_data clean p" if "new_state ts clean fs" "readable p" for fs p
    using that read_data_eq [of fs p] by (simp add: new_state_def readable_def)
  have trace: "\<exists>n. list_all aw_inv tr \<and> (\<forall>i < length tr. \<forall>p. readable p \<longrightarrow>
      read_data (tr ! i) p = (if i < n then read_data (os_files s) p else payload_data clean p))" if "switched ?c ?D ts clean tr" for tr
  proof -
    from that obtain xs ys where tr: "tr = xs @ ys" "list_all (old_state ?c ?D) xs" "list_all (new_state ts clean) ys"
      unfolding switched_def by blast
    then have "list_all aw_inv tr" by (auto simp: list_all_iff old_state_def new_state_def)
    moreover have "read_data (tr ! i) p = (if i < length xs then read_data (os_files s) p else payload_data clean p)"
      if "i < length tr" "readable p" for i p
      using that tr old new by (simp add: nth_append list_all_length)
    ultimately show ?thesis by (intro exI [of _ "length xs"]) simp
  qed
  from outcome_Write [OF assms(1-3) ok] assms(4) obtain s' r where run: "AtomicWriter_Write ts payload s = Some (s', r)"
    and r: "case r of Inr _ \<Rightarrow> switched ?c ?D ts clean (os_trace s') \<and> aw_inv (os_files s') \<and>
        (\<forall>p. readable p \<longrightarrow> read_data (os_files s') p = payload_data clean p) | Inl _ \<Rightarrow> ended ?c ?D ts clean s'"
    by (auto simp: outcome_def split: option.splits sum.splits)
  then have "switched ?c ?D ts clean (os_trace s')" "aw_inv (os_files s')"
    by (auto simp: ended_def traced_def old_state_def new_state_def split: sum.splits)
  with trace [of "os_trace s'"] run r old new show ?thesis
    by (auto simp: ended_def traced_def split: sum.splits)
qed

section \<open>Sample runs\<close>

definition sample_attr :: "fmode \<Rightarrow> fattr" where
  "sample_attr m = \<lparr>fa_mode = m, fa_gid = 0\<rparr>"

definition sample_file :: "string \<Rightarrow> FileProjection" where
  "sample_file d = \<lparr>fp_Data = d, fp_Mode = 0x1A4\<rparr>"

definition sample_os :: "files \<Rightarrow> error option list \<Rightarrow> os" where
  "sample_os fs faults = \<lparr>os_files = fs, os_umask = 0x12, os_gid = 0, os_faults = faults, os_trace = []\<rparr>"

text \<open>A volume after its first write, with the files \<open>a\<close> and \<open>b/c\<close>.\<close>

definition sample_volume :: files where
  "sample_volume =
     [([], Dir (sample_attr 0x1ED)), ([''..t1''], Dir (sample_attr 0x1ED)), ([''..t1'', ''a''], File ''1'' (sample_attr 0x1A4)), ([''..t1'', ''b''], Dir (sample_attr 0x1ED)),
      ([''..t1'', ''b'', ''c''], File ''2'' (sample_attr 0x1A4)), ([''a''], Link [''..data'', ''a'']), ([''b''], Dir (sample_attr 0x1ED)),
      ([''b'', ''c''], Link [''..'', ''..data'', ''b'', ''c'']), ([''..data''], Link [''..t1''])]"

definition files_after :: "(os \<times> (error + unit)) option \<Rightarrow> files" where
  "files_after r = (case r of None \<Rightarrow> [] | Some (s, _) \<Rightarrow> os_files s)"

lemma sample_volume_written:
  "map_option snd (AtomicWriter_Write ''..t1'' [(''a'', sample_file ''1''), (''b/c'', sample_file ''2'')] (sample_os [([], Dir (sample_attr 0x1ED))] [])) = Some (Inr ())"
  "files_after (AtomicWriter_Write ''..t1'' [(''a'', sample_file ''1''), (''b/c'', sample_file ''2'')] (sample_os [([], Dir (sample_attr 0x1ED))] [])) = sample_volume"
  by code_simp+

lemma aw_inv_fresh: "aw_inv [([], Dir m)]"
  by (auto simp: aw_inv_def fs_ok_def is_dir_def data_dir_ok_def visible_ok_def cur_dir_def mwf_def)

lemma sample_volume_ok: "aw_inv sample_volume"
proof -
  let ?first = "[(''a'', sample_file ''1''), (''b/c'', sample_file ''2'')]" and ?fresh = "sample_os [([], Dir (sample_attr 0x1ED))] []"
    and ?clean = "[([''a''], sample_file ''1''), ([''b'', ''c''], sample_file ''2'')]"
  have v: "validatePayload ?first = Inr ?clean" and p: "\<forall>p \<in> fst ` set ?clean. \<not> is_dir (os_files ?fresh) p"
    and w: "write_ok ''..t1'' ?clean" by code_simp+
  have "aw_inv (os_files ?fresh)" "os_trace ?fresh = []" by (simp_all add: sample_os_def aw_inv_fresh)
  from outcome_Write [OF this v w p] sample_volume_written show ?thesis
    by (auto simp: outcome_def files_after_def split: option.splits sum.splits)
qed

theorem atomic_write_witness:
  "let s = sample_os sample_volume [None, None, None, None, Some EINVAL];
       clean = [([''b'', ''c''], sample_file ''3''), ([''d''], sample_file ''4'')]
   in \<exists>s' r n. AtomicWriter_Write ''..t2'' [(''b/c'', sample_file ''3''), (''./d'', sample_file ''4'')] s = Some (s', r) \<and>
      list_all aw_inv (os_files s' # os_trace s') \<and>
      (\<forall>i < length (os_trace s'). \<forall>p. readable p \<longrightarrow>
        read_data (os_trace s' ! i) p = (if i < n then read_data (os_files s) p else payload_data clean p))"
proof -
  let ?s = "sample_os sample_volume [None, None, None, None, Some EINVAL]"
  have inv: "aw_inv (os_files ?s)" "os_trace ?s = []" by (simp_all add: sample_os_def sample_volume_ok)
  have v: "validatePayload [(''b/c'', sample_file ''3''), (''./d'', sample_file ''4'')] = Inr [([''b'', ''c''], sample_file ''3''), ([''d''], sample_file ''4'')]"
    and p: "\<forall>p \<in> fst ` set [([''b'', ''c''], sample_file ''3''), ([''d''], sample_file ''4'')]. path_visible p \<and> \<not> is_dir (os_files ?s) p"
    and t: "hidden ''..t2''" "''..t2'' \<notin> {''..'', dataDirName, newDataDirName}" by code_simp+
  show ?thesis using atomic_write [OF inv v p t] unfolding Let_def by blast
qed

section \<open>Writes that go wrong\<close>


end
