(* ===== verification/Atomic_Progress.thy ===== *)
theory Atomic_Progress
  imports Atomic_Writer
begin

text \<open>
  Progress of the atomic writer: when no call fails, a payload that does not collide with the visible
  files is written and the write reports success. \<open>Atomic_Writer\<close> shows what holds if calls fail.
\<close>

section \<open>Calls that succeed\<close>

definition calm :: "(files list \<Rightarrow> bool) \<Rightarrow> (files \<Rightarrow> bool) \<Rightarrow> os \<Rightarrow> bool" where
  "calm T Q s \<longleftrightarrow> traced T Q s \<and> os_faults s = []"

lemma calm_traced: "calm T Q s \<Longrightarrow> traced T Q s"
  by (simp add: calm_def)

lemma syscall_calm:
  "os_faults s = [] \<Longrightarrow>
   syscall f s = Some (case f (os_files s) of
      Inl err \<Rightarrow> (s, Inl err)
    | Inr fs \<Rightarrow> (s\<lparr>os_files := fs, os_trace := os_trace s @ [fs]\<rparr>, Inr ()))"
  by (cases s) (simp add: syscall_def Let_def split: sum.split)

lemma faults_stay:
  "keeps (\<lambda>s. os_faults s = []) (os_Mkdir m p)" "keeps (\<lambda>s. os_faults s = []) (os_Symlink t p)" "keeps (\<lambda>s. os_faults s = []) (os_Create m p)"
  "keeps (\<lambda>s. os_faults s = []) (os_WriteData d p)" "keeps (\<lambda>s. os_faults s = []) (os_Chmod p m)" "keeps (\<lambda>s. os_faults s = []) (os_Chown p g)" "keeps (\<lambda>s. os_faults s = []) (os_Remove p)"
  by (auto simp: keeps_def os_defs gets_def outcome_def syscall_calm split: sum.split)

lemma keeps_calm: "keeps (traced T Q) m \<Longrightarrow> keeps (\<lambda>s. os_faults s = []) m \<Longrightarrow> keeps (calm T Q) m"
  unfolding keeps_def calm_def by (simp add: outcome_conj)

text \<open>A call that is one system call, and finds what it needs, is done and keeps what it always keeps.\<close>

lemma calm_reached:
  assumes "outcome m s (\<lambda>s' _. traced T' Q' s') E" and "m s = syscall f s" and "os_faults s = []" and "f (os_files s) = Inr fs"
  shows "outcome m s (\<lambda>s' _. calm T' Q' s' \<and> os_files s' = fs) (\<lambda>_ _. False)"
  using assms by (simp add: outcome_def syscall_calm calm_def)

lemma Mkdir_reached:
  assumes "outcome (os_Mkdir m p) s (\<lambda>s' _. traced T Q s') E" and "os_faults s = []"
    and "namei max_links (os_files s) False [] p = Inr q" and "mget (os_files s) q = None"
  shows "outcome (os_Mkdir m p) s (\<lambda>s' _. calm T Q s' \<and> os_files s' = mput q (Dir (new_attr s True m p (os_files s))) (os_files s)) (\<lambda>_ _. False)"
  using assms(1) _ assms(2)
  by (rule calm_reached [where f = "\<lambda>fs. new_entry fs p (Dir (new_attr s True m p fs))"])
    (use assms(3,4) in \<open>simp_all add: os_Mkdir_def gets_def new_entry_def mhas_def\<close>)

lemma Symlink_reached:
  assumes "outcome (os_Symlink t p) s (\<lambda>s' _. traced T Q s') E" and "os_faults s = []"
    and "namei max_links (os_files s) False [] p = Inr q" and "mget (os_files s) q = None"
  shows "outcome (os_Symlink t p) s (\<lambda>s' _. calm T Q s' \<and> os_files s' = mput q (Link t) (os_files s)) (\<lambda>_ _. False)"
  using assms(1) _ assms(2)
  by (rule calm_reached [where f = "\<lambda>fs. new_entry fs p (Link t)"])
    (use assms(3,4) in \<open>simp_all add: os_Symlink_def new_entry_def mhas_def\<close>)

text \<open>A directory and its parents are made.\<close>

lemma MkdirAll_done:
  assumes "P s" and "q \<noteq> []" and "\<And>s. P s \<Longrightarrow> os_faults s = []"
    and "\<And>s. P s \<Longrightarrow> outcome (MkdirAll m (butlast q)) s (\<lambda>s' _. P s' \<and> is_dir (os_files s') (butlast q)) (\<lambda>_ _. False)"
    and "\<And>s nd. P s \<Longrightarrow> os_Stat (os_files s) q = Inr nd \<Longrightarrow> is_dir (os_files s) q \<and> (\<exists>m. nd = Dir m)"
    and "\<And>s. P s \<Longrightarrow> is_dir (os_files s) (butlast q) \<Longrightarrow>
      namei max_links (os_files s) False [] q = Inr q \<and> (mget (os_files s) q = None \<or> is_dir (os_files s) q)"
    and "keeps P (os_Mkdir m q)"
  shows "outcome (MkdirAll m q) s (\<lambda>s' _. P s' \<and> is_dir (os_files s') q) (\<lambda>_ _. False)"
proof -
  let ?mk = "on_result (os_Mkdir m q) (\<lambda>r. case r of Inr _ \<Rightarrow> ret ()
      | Inl err \<Rightarrow> gets (\<lambda>s. case os_Lstat (os_files s) q of Inr (Dir _) \<Rightarrow> ret () | _ \<Rightarrow> fail err))"
  have mk: "outcome ?mk s (\<lambda>s' _. P s' \<and> is_dir (os_files s') q) (\<lambda>_ _. False)"
    if s: "P s" "is_dir (os_files s) (butlast q)" for s
  proof (cases "mget (os_files s) q")
    case None
    let ?d = "Dir (new_attr s True m q (os_files s))"
    have "os_Mkdir m q s = Some (s\<lparr>os_files := mput q ?d (os_files s), os_trace := os_trace s @ [mput q ?d (os_files s)]\<rparr>, Inr ())"
      using assms(3) [OF s(1)] assms(6) [OF s] None
      by (simp add: os_Mkdir_def gets_def syscall_calm new_entry_def mhas_def)
    with keepsD [OF assms(7) s(1)] show ?thesis
      by (simp add: on_result_def outcome_def ret_def is_dir_put)
  next
    case (Some nd)
    with assms(6) [OF s] obtain m' where d: "mget (os_files s) q = Some (Dir m')" "namei max_links (os_files s) False [] q = Inr q"
      by (auto simp: is_dir_iff)
    then have "os_Mkdir m q s = Some (s, Inl EEXIST)"
      using assms(3) [OF s(1)] by (simp add: os_Mkdir_def gets_def syscall_calm new_entry_def mhas_def)
    then show ?thesis
      using d s(1) by (simp add: on_result_def outcome_def gets_def os_Lstat_def node_at_def ret_def is_dir_iff)
  qed
  have rec: "outcome (and_then (MkdirAll m (butlast q)) (\<lambda>_. ?mk)) s (\<lambda>s' _. P s' \<and> is_dir (os_files s') q) (\<lambda>_ _. False)"
    using assms(4) [OF assms(1)] by (rule and_then_outcome) (auto intro: mk)
  have "MkdirAll m q = gets (\<lambda>s. case os_Stat (os_files s) q of Inr (Dir _) \<Rightarrow> ret () | Inr _ \<Rightarrow> fail ENOTDIR
      | Inl _ \<Rightarrow> and_then (MkdirAll m (butlast q)) (\<lambda>_. ?mk))"
    by (subst MkdirAll.simps) (simp only: assms(2) if_False)
  then show ?thesis
    using rec assms(1) assms(5) [OF assms(1)]
    by (cases "os_Stat (os_files s) q") (simp_all only: outcome_gets sum.case, auto simp: outcome_ret outcome_fail split: fnode.split)
qed

section \<open>Before the switch\<close>

lemma ts_place:
  assumes "writing b c0 D ts payload written fs" and "write_ok ts payload" and "''..'' \<notin> set r" and "is_dir fs (butlast (ts # r))"
  shows "namei max_links fs follow [] (ts # r) = Inr (ts # r)"
proof -
  note w = writing_facts [OF assms(1,2)]
  have ok: "fs_ok fs" using w(1) by (simp add: aw_inv_def)
  have "last (ts # r) \<in> set (ts # r)" by (rule last_in_set) simp
  then have l: "last (ts # r) \<noteq> ''..''" using assms(3) w(4) by (metis set_ConsD)
  have "mget fs (ts # r) \<noteq> Some (Link t)" for t
    using aw_inv_node [OF w(1), of "ts # r" "Link t"] w(3,5,6) by (auto simp: visible_ok_def)
  moreover have "butlast (ts # r) @ [last (ts # r)] = ts # r" by (rule append_butlast_last_id) simp
  ultimately show ?thesis
    using namei_parent [OF ok assms(4) l, of max_links follow] by (simp del: butlast.simps last.simps split: option.splits fnode.splits)
qed

lemma newTimestampDir_done:
  assumes "calm (list_all (old_state c0 D)) (old_state c0 D) s" and "write_ok ts payload"
    and "\<forall>p \<in> fst ` set payload. \<not> is_dir (os_files s) p" and "clear_way V payload (os_files s)" and "mget (os_files s) [ts] = None"
  shows "outcome (newTimestampDir ts) s
    (\<lambda>s' dir. dir = [ts] \<and> calm (list_all (old_state c0 D)) (writing (Some V) c0 D ts payload []) s') (\<lambda>_ _. False)"
proof -
  let ?T = "list_all (old_state c0 D)" and ?W = "writing (Some V) c0 D ts payload []"
  have inv: "fs_ok (os_files s)" "is_dir (os_files s) []"
    using assms(1) by (simp_all add: calm_def traced_def old_state_def aw_inv_def fs_ok_def)
  have "ts \<noteq> ''..''" using assms(2) by (simp add: write_ok_def)
  with namei_parent [OF inv, of ts max_links False] assms(5) have place: "namei max_links (os_files s) False [] [ts] = Inr [ts]" by simp
  have safe: "outcome (os_Mkdir 0x1C0 [ts]) s (\<lambda>s' _. traced ?T ?W s') (\<lambda>s' _. traced ?T (old_state c0 D) s')"
    using assms(4) by (intro outcome_ts_Mkdir [OF calm_traced [OF assms(1)] assms(2,3)]) simp
  from Mkdir_reached [OF safe _ place assms(5)] assms(1)
  have mk: "outcome (os_Mkdir 0x1C0 [ts]) s (\<lambda>s' _. calm ?T ?W s' \<and>
      os_files s' = mput [ts] (Dir (new_attr s True 0x1C0 [ts] (os_files s))) (os_files s)) (\<lambda>_ _. False)"
    by (simp add: calm_def)
  have chmod: "outcome (os_Chmod [ts] 0x1ED) s (\<lambda>s' _. calm ?T ?W s') (\<lambda>_ _. False)" if c: "calm ?T ?W s" for s
  proof -
    have w: "?W (os_files s)" using c by (simp add: calm_def traced_def)
    then obtain a where "mget (os_files s) [ts] = Some (Dir a)" "is_dir (os_files s) []"
      using writing_facts(1) [OF w assms(2)] by (auto simp: writing_def is_dir_iff aw_inv_def fs_ok_def)
    with ts_place [OF w assms(2), of "[]" True]
    have "outcome (os_Chmod [ts] 0x1ED) s (\<lambda>s' _. calm ?T ?W s' \<and> os_files s' = mput [ts] (Dir (a\<lparr>fa_mode := perm 0x1ED\<rparr>)) (os_files s)) (\<lambda>_ _. False)"
      using c by (intro calm_reached [OF keepsD [OF keeps_ts_Chmod [OF assms(2) disjI1 [OF refl]] calm_traced [OF c]],
          OF fun_cong [OF os_Chmod_def]]) (simp_all add: calm_def change_file_def)
    then show ?thesis by (rule outcome_mono) simp_all
  qed
  show ?thesis
    unfolding newTimestampDir_def using mk
    by (rule and_then_outcome) (auto intro!: and_then_outcome [OF chmod] simp: outcome_ret)
qed

lemma ts_dir_entry:
  assumes "writing (Some V) c0 D ts payload written fs" and "p \<in> fst ` set payload" and "strict_prefix q p"
  shows "mget fs (ts # q) = None \<or> is_dir fs (ts # q)"
proof (cases "mget fs (ts # q)")
  case (Some nd)
  have "clear_way V payload fs" using assms(1) by (simp add: writing_def)
  then have "q \<notin> fst ` set payload" using assms(2,3) by (auto simp: clear_way_def)
  with written_entry(1) [OF assms(1) Some] Some show ?thesis by (cases nd) (auto simp: ts_entry_def is_dir_iff)
qed simp

lemma ts_MkdirAll_done:
  assumes "write_ok ts payload" and "p \<in> fst ` set payload"
  shows "strict_prefix q p \<Longrightarrow> calm (list_all (old_state c0 D)) (writing (Some V) c0 D ts payload written) s \<Longrightarrow>
    outcome (MkdirAll m (ts # q)) s
      (\<lambda>s' _. calm (list_all (old_state c0 D)) (writing (Some V) c0 D ts payload written) s' \<and> is_dir (os_files s') (ts # q)) (\<lambda>_ _. False)"
proof (induction q arbitrary: s rule: rev_induct)
  case Nil
  then have w: "writing (Some V) c0 D ts payload written (os_files s)" by (simp add: calm_def traced_def)
  then obtain m' where d: "mget (os_files s) [ts] = Some (Dir m')" "is_dir (os_files s) []"
    using writing_facts(1) [OF w assms(1)] by (auto simp: writing_def is_dir_iff aw_inv_def fs_ok_def)
  with ts_place [OF w assms(1), of "[]" True] have "os_Stat (os_files s) [ts] = Inr (Dir m')"
    by (simp add: os_Stat_def node_at_def)
  then show ?case
    using Nil.prems(2) d unfolding MkdirAll.simps [of m "[ts]"] outcome_gets by (simp add: outcome_ret is_dir_iff)
next
  case (snoc e q)
  let ?P = "calm (list_all (old_state c0 D)) (writing (Some V) c0 D ts payload written)"
  have pre: "strict_prefix q p" using snoc.prems(1) by (auto simp: strict_prefix_def prefix_def)
  have dots: "''..'' \<notin> set (q @ [e])" using assms snoc.prems(1) by (auto simp: write_ok_def strict_prefix_def prefix_def)
  have w: "writing (Some V) c0 D ts payload written (os_files s)" if "?P s" for s using that by (simp add: calm_def traced_def)
  have "outcome (MkdirAll m (ts # q @ [e])) s (\<lambda>s' _. ?P s' \<and> is_dir (os_files s') (ts # q @ [e])) (\<lambda>_ _. False)"
  proof (rule MkdirAll_done [where P = ?P])
    show "?P s" "ts # q @ [e] \<noteq> []" using snoc.prems by simp_all
    fix s assume P: "?P s"
    then show "os_faults s = []" by (simp add: calm_def)
    show "outcome (MkdirAll m (butlast (ts # q @ [e]))) s (\<lambda>s' _. ?P s' \<and> is_dir (os_files s') (butlast (ts # q @ [e]))) (\<lambda>_ _. False)"
      using snoc.IH [OF pre P] by (simp add: butlast_append)
    show "namei max_links (os_files s) False [] (ts # q @ [e]) = Inr (ts # q @ [e]) \<and>
        (mget (os_files s) (ts # q @ [e]) = None \<or> is_dir (os_files s) (ts # q @ [e]))" if "is_dir (os_files s) (butlast (ts # q @ [e]))"
      using ts_place [OF w [OF P] assms(1) dots that, of False] ts_dir_entry [OF w [OF P] assms(2) snoc.prems(1)] by simp
    show "is_dir (os_files s) (ts # q @ [e]) \<and> (\<exists>m. nd = Dir m)" if "os_Stat (os_files s) (ts # q @ [e]) = Inr nd" for nd
      using that namei_ts [OF w [OF P] assms(1) dots, of True] ts_dir_entry [OF w [OF P] assms(2) snoc.prems(1)]
      by (auto simp: os_Stat_def node_at_def is_dir_iff split: sum.splits option.splits)
  next
    show "keeps ?P (os_Mkdir m (ts # q @ [e]))"
      using keeps_ts_Mkdir [OF assms snoc.prems(1)] faults_stay(1) by (rule keeps_calm)
  qed
  then show ?case by simp
qed

lemma WriteFile_done:
  assumes "calm (list_all (old_state c0 D)) (writing (Some V) c0 D ts payload written) s" and "write_ok ts payload"
    and "(r, proj) \<in> set payload" and "r \<notin> fst ` set written" and "is_dir (os_files s) (butlast (ts # r))"
  shows "outcome (WriteFile (ts # r) (fp_Data proj) mode) s
    (\<lambda>s' _. calm (list_all (old_state c0 D)) (writing (Some V) c0 D ts payload ((r, proj) # written)) s') (\<lambda>_ _. False)"
proof -
  let ?T = "list_all (old_state c0 D)" and ?W = "writing (Some V) c0 D ts payload written"
  have r: "r \<in> fst ` set payload" using assms(3) by force
  have dots: "''..'' \<notin> set r" "r \<noteq> []" using assms(2) r by (auto simp: write_ok_def path_visible_def)
  have w: "?W (os_files s)" "os_faults s = []" using assms(1) by (simp_all add: calm_def traced_def)
  have "clear_way V payload (os_files s)" using w(1) by (simp add: writing_def)
  then have "\<not> strict_prefix r p" if "p \<in> fst ` set payload" for p using that r by (auto simp: clear_way_def)
  then have "\<not> is_dir (os_files s) (ts # r)"
    using written_entry(1) [OF w(1), of r] dots(2) by (fastforce simp: is_dir_iff ts_entry_def)
  then obtain m' where m': "(case mget (os_files s) (ts # r) of None \<Rightarrow> Inr (File [] (new_attr s False mode (ts # r) (os_files s)))
      | Some (File d m') \<Rightarrow> Inr (File [] m') | Some _ \<Rightarrow> Inl EISDIR) = Inr (File [] m')"
    using written_entry(1) [OF w(1), of r] by (cases "mget (os_files s) (ts # r)") (auto simp: is_dir_iff ts_entry_def split: fnode.splits)
  note place = ts_place [OF w(1) assms(2) dots(1) assms(5), of True]
  have create: "outcome (os_Create mode (ts # r)) s (\<lambda>s' _. calm ?T ?W s' \<and> os_files s' = mput (ts # r) (File [] m') (os_files s)) (\<lambda>_ _. False)"
    by (rule calm_reached [OF keepsD [OF keeps_ts_Create [OF assms(2) r assms(4)] calm_traced [OF assms(1)]] _ w(2)])
      (unfold os_Create_def gets_def, rule refl, simp add: change_file_def place m')
  have "outcome (os_WriteData (fp_Data proj) (ts # r)) s'
      (\<lambda>s' _. calm ?T (writing (Some V) c0 D ts payload ((r, proj) # written)) s') (\<lambda>_ _. False)"
    if s': "calm ?T ?W s'" "os_files s' = mput (ts # r) (File [] m') (os_files s)" for s'
  proof -
    have w': "?W (os_files s')" "os_faults s' = []" using s'(1) by (simp_all add: calm_def traced_def)
    have "is_dir (os_files s') (butlast (ts # r))"
      using assms(5) dots(2) unfolding s'(2) is_dir_put by (metis append_butlast_last_id append_self_conv list.distinct(1))
    note place' = ts_place [OF w'(1) assms(2) dots(1) this, of True]
    have "outcome (os_WriteData (fp_Data proj) (ts # r)) s' (\<lambda>s'' _. calm ?T (writing (Some V) c0 D ts payload ((r, proj) # written)) s'' \<and>
        os_files s'' = mput (ts # r) (File (fp_Data proj) m') (os_files s')) (\<lambda>_ _. False)"
      by (rule calm_reached [OF outcome_ts_WriteData [OF calm_traced [OF s'(1)] assms(2-4)] fun_cong [OF os_WriteData_def] w'(2)])
        (simp add: change_file_def place', simp add: s'(2))
    then show ?thesis by (rule outcome_mono) simp_all
  qed
  then show ?thesis
    unfolding WriteFile_def using create by (intro and_then_outcome [OF create]) auto
qed

lemma writePayloadToDir_done:
  assumes "calm (list_all (old_state c0 D)) (writing (Some V) c0 D ts payload written) s" and "write_ok ts payload"
    and "set rest \<subseteq> set payload" and "distinct (map fst (rev rest @ written))"
  shows "outcome (writePayloadToDir rest [ts]) s
    (\<lambda>s' _. calm (list_all (old_state c0 D)) (writing (Some V) c0 D ts payload (rev rest @ written)) s') (\<lambda>_ _. False)"
  using assms(1,3,4)
proof (induction rest arbitrary: written s)
  case (Cons e rest)
  obtain r proj where e: "e = (r, proj)" by (cases e)
  have pay: "(r, proj) \<in> set payload" using Cons.prems(2) by (simp add: e)
  then have r: "r \<in> fst ` set payload" "r \<notin> fst ` set written" using Cons.prems(3) by (auto simp: e intro: rev_image_eqI)
  then have "r \<noteq> []" using assms(2) by (auto simp: write_ok_def path_visible_def)
  then have dir: "butlast (ts # r) = ts # butlast r" "strict_prefix (butlast r) r"
    by (cases r rule: rev_cases; simp add: strict_prefix_def)+
  note IH = Cons.IH [of "(r, proj) # written"]
  let ?C = "\<lambda>written. calm (list_all (old_state c0 D)) (writing (Some V) c0 D ts payload written)"
  have rest: "outcome (on_result (os_Chmod (ts # r) (fp_Mode proj)) (\<lambda>_. writePayloadToDir rest [ts])) s
      (\<lambda>s' _. ?C (rev rest @ (r, proj) # written) s') (\<lambda>_ _. False)" if c: "?C ((r, proj) # written) s" for s
    using keepsD [OF keeps_calm [OF keeps_ts_Chmod [OF assms(2) disjI2 [OF r(1)]] faults_stay(5)] c]
    by (rule on_result_outcome) (use IH Cons.prems e in auto)
  have one: "outcome (and_then (WriteFile (ts # r) (fp_Data proj) (fp_Mode proj)) (\<lambda>_.
      on_result (os_Chmod (ts # r) (fp_Mode proj)) (\<lambda>_. writePayloadToDir rest [ts]))) s
      (\<lambda>s' _. ?C (rev rest @ (r, proj) # written) s') (\<lambda>_ _. False)" if "?C written s" "is_dir (os_files s) (ts # butlast r)" for s
    using WriteFile_done [OF that(1) assms(2) pay r(2) that(2) [folded dir(1)]] rest by (rule and_then_outcome)
  show ?case
    unfolding e writePayloadToDir.simps append_Cons append_Nil dir(1)
    using ts_MkdirAll_done [OF assms(2) r(1) dir(2) Cons.prems(1)]
    by (rule and_then_outcome) (auto intro: one)
qed (simp add: outcome_ret)

text \<open>The visible directories and links.\<close>

lemma visible_place:
  assumes "linking (Some V) c0 D ts payload linked fs" and "write_ok ts payload" and "p \<in> fst ` set payload" and "prefix q p"
    and "q \<noteq> []" and "is_dir fs (butlast q)"
  shows "namei max_links fs False [] q = Inr q"
proof -
  have ok: "fs_ok fs" using linking_inv [OF assms(1)] by (simp add: aw_inv_def)
  have "''..'' \<notin> set q" using assms(2-4) by (auto simp: write_ok_def prefix_def)
  then have "last q \<noteq> ''..''" using last_in_set [OF assms(5)] by metis
  from namei_parent [OF ok assms(6) this, of max_links False] assms(5) show ?thesis
    by (simp split: option.splits fnode.splits)
qed

lemma visible_dir_entry:
  assumes "linking (Some V) c0 D ts payload linked fs" and "write_ok ts payload" and "p \<in> fst ` set payload" and "strict_prefix q p"
    and "q \<noteq> []" and "mget fs q = Some nd"
  shows "is_dir fs q"
proof -
  have "clear_way V payload fs" using assms(1) by (simp add: linking_def writing_def)
  then have "mget fs q \<noteq> Some (Link t)" for t using assms(3,4) by (auto simp: clear_way_def)
  with aw_inv_node [OF linking_inv [OF assms(1)] assms(6)] sub_path_ok(1) [OF assms(2-5)] assms(6) show ?thesis
    by (cases nd) (auto simp: visible_ok_def is_dir_iff)
qed

lemma visible_MkdirAll_done:
  assumes "write_ok ts payload" and "p \<in> fst ` set payload"
  shows "strict_prefix q p \<Longrightarrow> calm (list_all (old_state c0 D)) (linking (Some V) c0 D ts payload linked) s \<Longrightarrow>
    outcome (MkdirAll m q) s
      (\<lambda>s' _. calm (list_all (old_state c0 D)) (linking (Some V) c0 D ts payload linked) s' \<and> is_dir (os_files s') q) (\<lambda>_ _. False)"
proof (induction q arbitrary: s rule: rev_induct)
  case Nil
  then have "aw_inv (os_files s)" by (auto simp: calm_def traced_def intro: linking_inv)
  then obtain m' where "os_Stat (os_files s) [] = Inr (Dir m')" "is_dir (os_files s) []"
    by (auto simp: aw_inv_def fs_ok_def is_dir_iff os_Stat_def node_at_def)
  then show ?case using Nil.prems(2) unfolding MkdirAll.simps [of m "[]"] outcome_gets by (simp add: outcome_ret)
next
  case (snoc e q)
  let ?P = "calm (list_all (old_state c0 D)) (linking (Some V) c0 D ts payload linked)"
  have pre: "strict_prefix q p" "prefix (q @ [e]) p" using snoc.prems(1) by (auto simp: strict_prefix_def prefix_def)
  have ne: "q @ [e] \<noteq> []" by simp
  note vis = sub_path_ok [OF assms snoc.prems(1) ne]
  have l: "linking (Some V) c0 D ts payload linked (os_files s)" if "?P s" for s using that by (simp add: calm_def traced_def)
  show ?case
  proof (rule MkdirAll_done [where P = ?P])
    show "?P s" "q @ [e] \<noteq> []" using snoc.prems by simp_all
    fix s assume P: "?P s"
    then show "os_faults s = []" by (simp add: calm_def)
    show "outcome (MkdirAll m (butlast (q @ [e]))) s (\<lambda>s' _. ?P s' \<and> is_dir (os_files s') (butlast (q @ [e]))) (\<lambda>_ _. False)"
      using snoc.IH [OF pre(1) P] by simp
    show "namei max_links (os_files s) False [] (q @ [e]) = Inr (q @ [e]) \<and>
        (mget (os_files s) (q @ [e]) = None \<or> is_dir (os_files s) (q @ [e]))" if "is_dir (os_files s) (butlast (q @ [e]))"
      using visible_place [OF l [OF P] assms pre(2) ne that] visible_dir_entry [OF l [OF P] assms snoc.prems(1) ne]
      by (cases "mget (os_files s) (q @ [e])") simp_all
    show "is_dir (os_files s) (q @ [e]) \<and> (\<exists>m. nd = Dir m)" if st: "os_Stat (os_files s) (q @ [e]) = Inr nd" for nd
    proof -
      obtain r where r: "namei max_links (os_files s) True [] (q @ [e]) = Inr r" "mget (os_files s) r = Some nd"
        using st by (auto simp: os_Stat_def node_at_def split: sum.splits option.splits)
      have "mget (os_files s) (q @ [e]) \<noteq> Some (Link t)" for t
        using visible_dir_entry [OF l [OF P] assms snoc.prems(1) ne, of "Link t"] by (auto simp: is_dir_iff)
      with namei_visible [OF linking_inv [OF l [OF P]] vis r(1)] have "r = q @ [e]" by (auto split: if_splits)
      with r(2) visible_dir_entry [OF l [OF P] assms snoc.prems(1) ne] show ?thesis by (auto simp: is_dir_iff)
    qed
  next
    have "keeps (traced (list_all (old_state c0 D)) (linking (Some V) c0 D ts payload linked)) (os_Mkdir m (q @ [e]))"
      unfolding keeps_def by (intro allI impI, rule outcome_mono [OF outcome_visible_Mkdir [OF _ assms snoc.prems(1) ne]]) simp_all
    then show "keeps ?P (os_Mkdir m (q @ [e]))" using faults_stay(1) by (rule keeps_calm)
  qed
qed

lemma link_done:
  assumes "calm (list_all (old_state c0 D)) (linking (Some V) c0 D ts payload linked) s" and "write_ok ts payload"
    and "p \<in> fst ` set payload" and "is_dir (os_files s) (butlast p)"
  shows "outcome (case os_Readlink (os_files s) p of
        Inl err \<Rightarrow> if os_IsNotExist err then os_Symlink (link_target p) p else ret ()
      | Inr _ \<Rightarrow> ret ()) s
    (\<lambda>s' _. calm (list_all (old_state c0 D)) (linking (Some V) c0 D ts payload (insert p linked)) s') (\<lambda>_ _. False)"
proof -
  have l: "linking (Some V) c0 D ts payload linked (os_files s)" and f: "os_faults s = []" using assms(1) by (simp_all add: calm_def traced_def)
  have "p \<noteq> []" using assms(2,3) by (auto simp: write_ok_def path_visible_def)
  note place = visible_place [OF l assms(2,3) prefix_order.refl this assms(4)]
  note safe = outcome_link [OF calm_traced [OF assms(1)] assms(2-4)]
  show ?thesis
  proof (cases "mget (os_files s) p")
    case None
    then have "outcome (os_Symlink (link_target p) p) s
        (\<lambda>s' _. traced (list_all (old_state c0 D)) (linking (Some V) c0 D ts payload (insert p linked)) s')
        (\<lambda>s' _. traced (list_all (old_state c0 D)) (linking (Some V) c0 D ts payload linked) s')"
      using safe place by (simp add: os_Readlink_def node_at_def ENOENT_def os_IsNotExist_def)
    from Symlink_reached [OF this f place None] None place show ?thesis
      by (auto simp: os_Readlink_def node_at_def ENOENT_def os_IsNotExist_def elim!: outcome_mono)
  next
    case (Some nd)
    with safe place f show ?thesis
      by (auto simp: os_Readlink_def node_at_def EINVAL_def os_IsNotExist_def outcome_ret calm_def split: fnode.splits)
  qed
qed

lemma createUserVisibleFiles_done:
  assumes "calm (list_all (old_state c0 D)) (linking (Some V) c0 D ts payload linked) s" and "write_ok ts payload"
    and "set rest \<subseteq> set payload"
  shows "outcome (createUserVisibleFiles rest) s
    (\<lambda>s' _. calm (list_all (old_state c0 D)) (linking (Some V) c0 D ts payload (linked \<union> fst ` set rest)) s') (\<lambda>_ _. False)"
  using assms(1,3)
proof (induction rest arbitrary: linked s)
  case (Cons e rest)
  obtain p proj where e: "e = (p, proj)" by (cases e)
  have p: "p \<in> fst ` set payload" using Cons.prems(2) by (force simp: e)
  then have p': "p \<noteq> []" using assms(2) by (auto simp: write_ok_def path_visible_def)
  let ?C = "\<lambda>linked. calm (list_all (old_state c0 D)) (linking (Some V) c0 D ts payload linked)"
  have dirs: "outcome (if butlast p \<noteq> [] then MkdirAll 0x1FF (butlast p) else ret ()) s
      (\<lambda>s' _. ?C linked s' \<and> is_dir (os_files s') (butlast p)) (\<lambda>_ _. False)"
  proof (cases "butlast p = []")
    case True
    have "is_dir (os_files s) []" using Cons.prems(1) linking_inv by (auto simp: calm_def traced_def aw_inv_def fs_ok_def)
    then show ?thesis using True Cons.prems(1) by (simp add: outcome_ret)
  next
    case False
    have "strict_prefix (butlast p) p" using p' by (cases p rule: rev_cases) (auto simp: strict_prefix_def)
    from visible_MkdirAll_done [OF assms(2) p this Cons.prems(1)] False show ?thesis by simp
  qed
  have links: "outcome (gets (\<lambda>s. case os_Readlink (os_files s) p of
        Inl err \<Rightarrow> if os_IsNotExist err then os_Symlink (link_target p) p else ret ()
      | Inr _ \<Rightarrow> ret ())) s (\<lambda>s' _. ?C (insert p linked) s') (\<lambda>_ _. False)"
    if "?C linked s \<and> is_dir (os_files s) (butlast p)" for s
    unfolding outcome_gets using that link_done [OF _ assms(2) p] by blast
  have rest: "outcome (createUserVisibleFiles rest) s (\<lambda>s' _. ?C (linked \<union> fst ` set (e # rest)) s') (\<lambda>_ _. False)"
    if "?C (insert p linked) s" for s
    using Cons.IH [OF that] Cons.prems(2) by (simp add: e)
  show ?case
    unfolding e createUserVisibleFiles.simps Let_def link_target_def [symmetric]
    by (rule and_then_outcome [OF dirs], rule and_then_outcome [OF links], assumption) (use rest in \<open>auto simp: e\<close>)
qed (simp add: outcome_ret)

section \<open>After the switch\<close>

text \<open>\<open>V\<close> are the visible paths that the payload does not need, and no temporary link is left.\<close>

definition extras :: "fpath set \<Rightarrow> payload \<Rightarrow> files \<Rightarrow> bool" where
  "extras V payload fs \<longleftrightarrow> mget fs [newDataDirName] = None \<and>
     (\<forall>q. path_visible q \<longrightarrow> (\<forall>p \<in> fst ` set payload. \<not> prefix q p) \<longrightarrow> (mget fs q \<noteq> None \<longleftrightarrow> q \<in> V))"

lemma clear_way_extras: "clear_way V payload fs \<Longrightarrow> extras V payload fs"
  by (simp add: clear_way_def extras_def)

lemma Remove_reached:
  assumes "keeps (traced T Q) (os_Remove p)" and "calm T Q s" and "aw_inv (os_files s)" and "p \<noteq> []" and "mget (os_files s) p \<noteq> None"
    and "\<And>e. mget (os_files s) (p @ [e]) = None"
  shows "outcome (os_Remove p) s (\<lambda>s' _. calm T Q s' \<and> os_files s' = mdel p (os_files s)) (\<lambda>_ _. False)"
proof -
  let ?fs = "os_files s"
  have ok: "fs_ok ?fs" using assms(3) by (simp add: aw_inv_def)
  have par: "is_dir ?fs (butlast p)" using fs_ok_parent [OF ok, of "butlast p" "[last p]"] assms(4,5) by simp
  have "last p \<noteq> ''..''" using fs_ok_names [OF ok assms(5)] last_in_set [OF assms(4)] by metis
  from namei_parent [OF ok par this, of max_links False] assms(4) have "namei max_links ?fs False [] p = Inr p"
    by (simp split: option.splits fnode.splits)
  moreover have "\<not> has_children ?fs p" using has_children_iff [of ?fs p] ok assms(6) by (simp add: fs_ok_def)
  ultimately have "remove_entry p ?fs = Inr (mdel p ?fs)" using assms(4,5) by (simp add: remove_entry_def mhas_def)
  then show ?thesis
    using assms(2) by (intro calm_reached [OF keepsD [OF assms(1) calm_traced [OF assms(2)]] fun_cong [OF os_Remove_def]]) (simp_all add: calm_def)
qed

lemma Join_less: "p \<noteq> [] \<Longrightarrow> strings_Join p ''/'' < strings_Join (p @ [e]) ''/''"
  by (simp add: strings_Join_snoc list_less_def lexord_append_rightI)

lemma remove_paths_done:
  assumes "write_ok ts payload"
  shows "calm (switched c0 D ts payload) (new_state ts payload) s \<Longrightarrow> extras (set ps) payload (os_files s) \<Longrightarrow> distinct ps \<Longrightarrow>
    sorted_wrt (\<lambda>p q. strings_Join q ''/'' \<le> strings_Join p ''/'') ps \<Longrightarrow>
    (\<And>p. p \<in> set ps \<Longrightarrow> path_visible p \<and> ''..'' \<notin> set p \<and> (\<forall>k \<in> fst ` set payload. \<not> prefix p k)) \<Longrightarrow>
    outcome (remove_paths ps) s
      (\<lambda>s' _. calm (switched c0 D ts payload) (new_state ts payload) s' \<and> extras {} payload (os_files s')) (\<lambda>_ _. False)"
proof (induction ps arbitrary: s)
  case (Cons p ps)
  let ?C = "calm (switched c0 D ts payload) (new_state ts payload)"
  have p: "path_visible p" "''..'' \<notin> set p" "\<forall>k \<in> fst ` set payload. \<not> prefix p k" "p \<noteq> []"
    using Cons.prems(5) [of p] by (auto simp: path_visible_def)
  have inv: "aw_inv (os_files s)" using Cons.prems(1) by (simp add: calm_def traced_def new_state_def)
  have ex: "mget (os_files s) p \<noteq> None" using Cons.prems(2) p(1,3) by (simp add: extras_def)
  have child: "mget (os_files s) (p @ [e]) = None" for e
  proof (rule ccontr)
    assume "mget (os_files s) (p @ [e]) \<noteq> None"
    moreover have "path_visible (p @ [e])" "\<forall>k \<in> fst ` set payload. \<not> prefix (p @ [e]) k"
      using p by (auto simp: path_visible_def prefix_def)
    ultimately have "p @ [e] \<in> set (p # ps)" using Cons.prems(2) by (simp add: extras_def)
    then have "strings_Join (p @ [e]) ''/'' \<le> strings_Join p ''/''" using Cons.prems(4) by auto
    with Join_less [OF p(4), of e] show False by simp
  qed
  have keep: "keeps (traced (switched c0 D ts payload) (new_state ts payload)) (os_Remove p)"
    using p assms by (intro keeps_new_Remove) auto
  have rest: "outcome (remove_paths ps) s' (\<lambda>s' _. ?C s' \<and> extras {} payload (os_files s')) (\<lambda>_ _. False)"
    if "?C s'" "os_files s' = mdel p (os_files s)" for s'
  proof (rule Cons.IH [OF that(1)])
    show "extras (set ps) payload (os_files s')" using Cons.prems(2,3) by (auto simp: extras_def that(2) gm.get_del)
  qed (use Cons.prems in auto)
  show ?case
    unfolding remove_paths.simps using Remove_reached [OF keep Cons.prems(1) inv p(4) ex child]
    by (rule and_then_outcome) (auto intro: rest)
qed (simp add: outcome_ret)

lemma removeUserVisiblePaths_done:
  assumes "write_ok ts payload" and "calm (switched c0 D ts payload) (new_state ts payload) s" and "extras (set remove) payload (os_files s)"
    and "distinct remove" and "\<And>p. p \<in> set remove \<Longrightarrow> path_visible p \<and> ''..'' \<notin> set p \<and> (\<forall>k \<in> fst ` set payload. \<not> prefix p k)"
  shows "outcome (removeUserVisiblePaths remove) s
    (\<lambda>s' _. calm (switched c0 D ts payload) (new_state ts payload) s' \<and> extras {} payload (os_files s')) (\<lambda>_ _. False)"
proof -
  have "sorted_wrt (\<lambda>p q. strings_Join p ''/'' \<le> strings_Join q ''/'') (sort_key (\<lambda>p. strings_Join p ''/'') remove)"
    using sorted_sort_key [of "\<lambda>p. strings_Join p ''/''" remove] by (simp add: sorted_wrt_map)
  then show ?thesis
    unfolding removeUserVisiblePaths_def using assms by (intro remove_paths_done) (auto simp: sorted_wrt_rev)
qed

text \<open>The old directory is removed with everything in it.\<close>

lemma remove_each_done:
  assumes "write_ok ts payload" and "hidden c" and "c \<notin> {''..'', ts, dataDirName, newDataDirName}"
  shows "calm (switched c0 D ts payload) (new_state ts payload) s \<Longrightarrow> extras V payload (os_files s) \<Longrightarrow> is_dir (os_files s) [c] \<Longrightarrow>
    (\<And>q. q \<noteq> [] \<Longrightarrow> mget (os_files s) (c # q) \<noteq> None \<longleftrightarrow> c # q \<in> set qs) \<Longrightarrow> distinct qs \<Longrightarrow>
    sorted_wrt (\<lambda>p q. length q \<le> length p) qs \<Longrightarrow> (\<And>q. q \<in> set qs \<Longrightarrow> strict_prefix [c] q) \<Longrightarrow>
    outcome (remove_each qs err) s
      (\<lambda>s' _. calm (switched c0 D ts payload) (new_state ts payload) s' \<and> extras V payload (os_files s') \<and> is_dir (os_files s') [c] \<and>
         (\<forall>q. q \<noteq> [] \<longrightarrow> mget (os_files s') (c # q) = None)) (\<lambda>_ _. False)"
proof (induction qs arbitrary: s err)
  case (Cons p ps)
  let ?C = "calm (switched c0 D ts payload) (new_state ts payload)"
  obtain r where r: "p = c # r" "r \<noteq> []" using Cons.prems(7) [of p] by (auto simp: strict_prefix_def prefix_def)
  have inv: "aw_inv (os_files s)" using Cons.prems(1) by (simp add: calm_def traced_def new_state_def)
  have ex: "mget (os_files s) p \<noteq> None" using Cons.prems(4) [OF r(2)] r(1) by simp
  have dots: "''..'' \<notin> set p" using fs_ok_names [OF _ ex] inv by (simp add: aw_inv_def)
  have child: "mget (os_files s) (p @ [e]) = None" for e
  proof (rule ccontr)
    assume "mget (os_files s) (p @ [e]) \<noteq> None"
    then have "p @ [e] \<in> set (p # ps)" using Cons.prems(4) [of "r @ [e]"] r by simp
    then show False using Cons.prems(6) by auto
  qed
  have keep: "keeps (traced (switched c0 D ts payload) (new_state ts payload)) (os_Remove p)"
    using dots r assms by (intro keeps_new_Remove) auto
  have rest: "outcome (remove_each ps err') s' (\<lambda>s' _. ?C s' \<and> extras V payload (os_files s') \<and> is_dir (os_files s') [c] \<and>
         (\<forall>q. q \<noteq> [] \<longrightarrow> mget (os_files s') (c # q) = None)) (\<lambda>_ _. False)"
    if s': "?C s'" "os_files s' = mdel p (os_files s)" for s' err'
  proof (rule Cons.IH [OF s'(1)])
    show "extras V payload (os_files s')"
      using Cons.prems(2) assms(2) by (auto simp: extras_def s'(2) r(1) gm.get_del)
    show "is_dir (os_files s') [c]" using Cons.prems(3) r by (simp add: s'(2) is_dir_del)
    show "mget (os_files s') (c # q) \<noteq> None \<longleftrightarrow> c # q \<in> set ps" if "q \<noteq> []" for q
      using Cons.prems(4) [OF that] Cons.prems(5) by (auto simp: s'(2) gm.get_del)
  qed (use Cons.prems in auto)
  show ?case
    unfolding remove_each.simps using Remove_reached [OF keep Cons.prems(1) inv _ ex child] r
    by (intro on_result_outcome [OF Remove_reached [OF keep Cons.prems(1) inv _ ex child]]) (auto intro: rest)
qed (auto simp: outcome_ret)

lemma descendants_facts:
  assumes "fs_ok fs"
  shows "distinct (descendants fs p)" and "sorted_wrt (\<lambda>p q. length q \<le> length p) (descendants fs p)"
    and "q \<in> set (descendants fs p) \<longleftrightarrow> strict_prefix p q \<and> mget fs q \<noteq> None"
proof -
  show "distinct (descendants fs p)" using assms by (simp add: descendants_def walk_paths_def fs_ok_def mwf_def)
  have "sorted_wrt (\<lambda>p q. length p \<le> length q) (sort_key length (filter (strict_prefix p) (walk_paths fs)))"
    using sorted_sort_key [of length "filter (strict_prefix p) (walk_paths fs)"] by (simp add: sorted_wrt_map)
  then show "sorted_wrt (\<lambda>p q. length q \<le> length p) (descendants fs p)" by (simp add: descendants_def sorted_wrt_rev)
  show "q \<in> set (descendants fs p) \<longleftrightarrow> strict_prefix p q \<and> mget fs q \<noteq> None"
    by (auto simp: descendants_def walk_paths_def mget_None_iff)
qed

lemma RemoveAll_done:
  assumes "write_ok ts payload" and "hidden c" and "c \<notin> {''..'', ts, dataDirName, newDataDirName}"
    and "calm (switched c0 D ts payload) (new_state ts payload) s" and "extras V payload (os_files s)"
  shows "outcome (RemoveAll [c]) s
    (\<lambda>s' _. calm (switched c0 D ts payload) (new_state ts payload) s' \<and> extras V payload (os_files s')) (\<lambda>_ _. False)"
proof -
  let ?C = "calm (switched c0 D ts payload) (new_state ts payload)"
  have inv: "aw_inv (os_files s)" if "?C s" for s using that by (simp add: calm_def traced_def new_state_def)
  have keep: "keeps (traced (switched c0 D ts payload) (new_state ts payload)) (os_Remove [c])"
    using assms(1-3) by (intro keeps_new_Remove) auto
  have gone: "outcome (os_Remove [c]) s (\<lambda>s' _. ?C s' \<and> extras V payload (os_files s')) (\<lambda>_ _. False)"
    if s: "?C s" "extras V payload (os_files s)" "mget (os_files s) [c] \<noteq> None" "\<And>e. mget (os_files s) [c, e] = None" for s
  proof -
    have "outcome (os_Remove [c]) s (\<lambda>s' _. ?C s' \<and> os_files s' = mdel [c] (os_files s)) (\<lambda>_ _. False)"
      using s(3,4) by (intro Remove_reached [OF keep s(1) inv [OF s(1)]]) auto
    then show ?thesis
      by (rule outcome_mono) (use s(2) assms(2) in \<open>auto simp: extras_def gm.get_del\<close>)
  qed
  have dir: "outcome (remove_dir [c] err) s (\<lambda>s' _. ?C s' \<and> extras V payload (os_files s')) (\<lambda>_ _. False)"
    if "?C s \<and> extras V payload (os_files s) \<and> is_dir (os_files s) [c] \<and> (\<forall>q. q \<noteq> [] \<longrightarrow> mget (os_files s) (c # q) = None)" for s err
    unfolding remove_dir_def using that by (intro on_result_outcome [OF gone]) (auto simp: outcome_ret is_dir_iff)
  have ok: "fs_ok (os_files s)" using inv [OF assms(4)] by (simp add: aw_inv_def)
  then have "is_dir (os_files s) []" by (simp add: fs_ok_def)
  from namei_parent [OF ok this, of c max_links False] assms(3) have place: "namei max_links (os_files s) False [] [c] = Inr [c]"
    by (auto split: option.splits fnode.splits)
  consider "mget (os_files s) [c] = None" | "mget (os_files s) [c] \<noteq> None" "\<not> has_children (os_files s) [c]" | "has_children (os_files s) [c]" by blast
  then show ?thesis
  proof cases
    case 1
    then have "os_Remove [c] s = Some (s, Inl ENOENT)"
      using place assms(4) by (auto simp: os_Remove_def calm_def syscall_calm remove_entry_def mhas_def)
    then show ?thesis
      using assms(4,5) by (simp add: RemoveAll_def outcome_def on_result_def ret_def ENOENT_def os_IsNotExist_def)
  next
    case 2
    then have "mget (os_files s) [c, e] = None" for e
      using has_children_iff [of "os_files s" "[c]"] ok by (simp add: fs_ok_def)
    then show ?thesis
      unfolding RemoveAll_def by (intro on_result_outcome [OF gone [OF assms(4,5) 2(1)]]) (auto simp: outcome_ret)
  next
    case 3
    then obtain e where "mget (os_files s) ([c] @ [e]) \<noteq> None"
      using has_children_iff [of "os_files s" "[c]"] ok by (auto simp: fs_ok_def)
    from fs_ok_parent [OF ok this] have d: "is_dir (os_files s) [c]" by simp
    then have full: "os_Remove [c] s = Some (s, Inl ENOTEMPTY)"
      using 3 place assms(4) by (auto simp: os_Remove_def calm_def syscall_calm remove_entry_def mhas_def is_dir_iff)
    obtain m where st: "os_Lstat (os_files s) [c] = Inr (Dir m)"
      using place d by (auto simp: os_Lstat_def node_at_def is_dir_iff)
    note ds = descendants_facts [OF ok, where p = "[c]"]
    have "outcome (remove_each (descendants (os_files s) [c]) None) s
      (\<lambda>s' _. ?C s' \<and> extras V payload (os_files s') \<and> is_dir (os_files s') [c] \<and> (\<forall>q. q \<noteq> [] \<longrightarrow> mget (os_files s') (c # q) = None)) (\<lambda>_ _. False)"
      by (rule remove_each_done [OF assms(1-5) d _ ds(1,2)]) (auto simp: ds(3) strict_prefix_def)
    then have "outcome (and_then (remove_each (descendants (os_files s) [c]) None) (remove_dir [c])) s
      (\<lambda>s' _. ?C s' \<and> extras V payload (os_files s')) (\<lambda>_ _. False)"
      by (rule and_then_outcome) (auto intro: dir)
    then show ?thesis
      unfolding RemoveAll_def outcome_on_result
      by (simp add: outcome_def [of "os_Remove [c]"] full outcome_gets st ENOTEMPTY_def os_IsNotExist_def)
  qed
qed

text \<open>The switch itself.\<close>

lemma swap_done:
  assumes "calm (list_all (old_state c0 D)) (linking (Some (set remove)) c0 D ts payload (fst ` set payload)) s" and "write_ok ts payload"
    and "distinct remove" and "\<And>p. p \<in> set remove \<Longrightarrow> path_visible p \<and> ''..'' \<notin> set p \<and> (\<forall>k \<in> fst ` set payload. \<not> prefix p k)"
  shows "outcome (swap_data_dir [ts] remove) s
    (\<lambda>s' _. calm (switched c0 D ts payload) (new_state ts payload) s' \<and> extras {} payload (os_files s')) (\<lambda>_ _. False)"
proof -
  let ?T = "list_all (old_state c0 D)" and ?C = "calm (switched c0 D ts payload) (new_state ts payload)"
    and ?L = "\<lambda>fs. linking None c0 D ts payload (fst ` set payload) fs \<and> mget fs [newDataDirName] = Some (Link [ts])"
  have l: "linking (Some (set remove)) c0 D ts payload (fst ` set payload) (os_files s)" and f: "os_faults s = []"
    using assms(1) by (simp_all add: calm_def traced_def)
  note inv = linking_inv [OF l]
  have w: "old_state c0 D (os_files s)" "c0 \<noteq> Some ts" "clear_way (set remove) payload (os_files s)"
    using l by (simp_all add: linking_def writing_def)
  then have ex: "extras (set remove) payload (os_files s)" and free: "mget (os_files s) [newDataDirName] = None"
    by (simp_all add: clear_way_extras clear_way_def)
  have tmp: "outcome (os_Symlink [ts] [newDataDirName]) s
      (\<lambda>s' _. calm ?T ?L s' \<and> os_files s' = mput [newDataDirName] (Link [ts]) (os_files s)) (\<lambda>_ _. False)"
    by (rule Symlink_reached [OF outcome_tmp_link [OF calm_traced [OF assms(1)] assms(2)] f namei_top [OF inv] free]) simp
  have ren: "outcome (os_Rename [newDataDirName] [dataDirName]) s
      (\<lambda>s' _. ?C s' \<and> os_files s' = mput [dataDirName] (Link [ts]) (mdel [newDataDirName] (os_files s))) (\<lambda>_ _. False)"
    if c: "calm ?T ?L s" for s
  proof -
    have l: "?L (os_files s)" "os_faults s = []" using c by (simp_all add: calm_def traced_def)
    have inv: "aw_inv (os_files s)" using l linking_inv by blast
    then have "\<not> is_dir (os_files s) [dataDirName]"
      by (auto simp: aw_inv_def data_dir_ok_def is_dir_iff split: option.splits fnode.splits)
    then have "rename_entry [newDataDirName] [dataDirName] (os_files s) = Inr (mput [dataDirName] (Link [ts]) (mdel [newDataDirName] (os_files s)))"
      using namei_top [OF inv] l(1) by (auto simp: rename_entry_def is_dir_iff split: option.splits fnode.splits)
    with l(2) show ?thesis
      by (intro calm_reached [OF outcome_rename [OF calm_traced [OF c] assms(2)] fun_cong [OF os_Rename_def]])
  qed
  have clean: "outcome (and_then (removeUserVisiblePaths remove) (\<lambda>_. if length (old_dir c0) > 0 then RemoveAll (old_dir c0) else ret ())) s
      (\<lambda>s' _. ?C s' \<and> extras {} payload (os_files s')) (\<lambda>_ _. False)" if "?C s" "extras (set remove) payload (os_files s)" for s
  proof (rule and_then_outcome [OF removeUserVisiblePaths_done [OF assms(2) that assms(3,4)]], assumption)
    fix s assume e: "?C s \<and> extras {} payload (os_files s)"
    show "outcome (if length (old_dir c0) > 0 then RemoveAll (old_dir c0) else ret ()) s (\<lambda>s' _. ?C s' \<and> extras {} payload (os_files s')) (\<lambda>_ _. False)"
    proof (cases c0)
      case (Some c)
      then have "hidden c" "c \<notin> {''..'', ts, dataDirName, newDataDirName}"
        using cur_dir_facts(1-4) [OF inv, of c] w(1,2) free by (auto simp: old_state_def is_dir_iff)
      from RemoveAll_done [OF assms(2) this] e Some show ?thesis by (simp add: old_dir_def)
    qed (use e in \<open>simp add: old_dir_def outcome_ret\<close>)
  qed simp
  have rest: "outcome (on_result (os_Rename [newDataDirName] [dataDirName]) (\<lambda>r. case r of
        Inl err \<Rightarrow> on_result (os_Remove [newDataDirName]) (\<lambda>_. on_result (RemoveAll [ts]) (\<lambda>_. fail err))
      | Inr _ \<Rightarrow> and_then (removeUserVisiblePaths remove) (\<lambda>_. if length (old_dir c0) > 0 then RemoveAll (old_dir c0) else ret ()))) s'
      (\<lambda>s' _. ?C s' \<and> extras {} payload (os_files s')) (\<lambda>_ _. False)"
    if "calm ?T ?L s' \<and> os_files s' = mput [newDataDirName] (Link [ts]) (os_files s)" for s'
    using ren [OF conjunct1 [OF that]]
  proof (rule on_result_outcome)
    fix s'' :: os and a :: unit
    assume s'': "?C s'' \<and> os_files s'' = mput [dataDirName] (Link [ts]) (mdel [newDataDirName] (os_files s'))"
    then have "extras (set remove) payload (os_files s'')"
      using ex by (simp add: extras_def that gm.get_put gm.get_del)
    with clean [of s''] s'' show "outcome (case Inr a of
          Inl err \<Rightarrow> on_result (os_Remove [newDataDirName]) (\<lambda>_. on_result (RemoveAll [ts]) (\<lambda>_. fail err))
        | Inr _ \<Rightarrow> and_then (removeUserVisiblePaths remove) (\<lambda>_. if length (old_dir c0) > 0 then RemoveAll (old_dir c0) else ret ())) s''
      (\<lambda>s' _. ?C s' \<and> extras {} payload (os_files s')) (\<lambda>_ _. False)" by simp
  qed simp
  show ?thesis
    unfolding swap_data_dir_def outcome_and_then outcome_gets Readlink_data_dir [OF w(1)] outcome_ret last_ConsL [OF refl]
    using tmp by (rule on_result_outcome) (simp_all only: sum.case rest)
qed

section \<open>The whole write\<close>

lemma blocked_visible:
  assumes "aw_inv fs" and "path_visible p" and "''..'' \<notin> set p" and "\<forall>q t. strict_prefix q p \<longrightarrow> mget fs q \<noteq> Some (Link t)"
    and "p = a @ e # rest" and "rest \<noteq> []" and "is_dir fs a" and "\<not> is_dir fs (a @ [e])"
  shows "namei n fs follow [] p = Inl ENOENT"
proof -
  have ok: "fs_ok fs" using assms(1) by (simp add: aw_inv_def)
  have "strict_prefix (a @ [e]) p" using assms(5,6) by (simp add: strict_prefix_def)
  then have "mget fs (a @ [e]) \<noteq> Some (Link t)" for t using assms(4) by blast
  moreover have "path_visible (a @ [e])" "e \<noteq> ''..''" using assms(2,3,5) by (cases a; auto simp: path_visible_def)+
  then have "mget fs (a @ [e]) \<noteq> Some (File d m)" for d m
    using aw_inv_node [OF assms(1), of "a @ [e]" "File d m"] by (auto simp: visible_ok_def)
  ultimately have "mget fs (a @ [e]) = None" using assms(8) by (metis fnode.exhaust is_dir_iff option.exhaust)
  with namei_walk [OF ok, of "[]" a n follow "e # rest"] assms(5-7) \<open>e \<noteq> ''..''\<close> show ?thesis
    by (simp add: namei.simps(2))
qed

lemma shouldWriteFile_done:
  assumes "aw_inv fs" and "path_visible p" and "''..'' \<notin> set p" and "\<forall>q t. strict_prefix q p \<longrightarrow> mget fs q \<noteq> Some (Link t)"
    and "mget fs p = None \<or> read_data fs p \<noteq> None"
  shows "shouldWriteFile fs p content \<noteq> Inl err"
proof (cases "read_data fs p")
  case None
  then have n: "mget fs p = None" using assms(5) by simp
  have ok: "fs_ok fs" and p: "p \<noteq> []" using assms(1,2) by (simp_all add: aw_inv_def path_visible_def)
  then have root: "is_dir fs []" by (simp add: fs_ok_def)
  have "os_Lstat fs p = Inl ENOENT"
  proof (cases rule: path_cases [OF root p])
    case 1
    have "last p \<noteq> ''..''" using assms(3) last_in_set [OF p] by metis
    from namei_parent [OF ok 1 this, of max_links False] n p show ?thesis by (simp add: os_Lstat_def node_at_def)
  next
    case (2 a e rest)
    from blocked_visible [OF assms(1-4) this] show ?thesis by (simp add: os_Lstat_def node_at_def)
  qed
  then show ?thesis by (simp add: shouldWriteFile_def ENOENT_def os_IsNotExist_def)
qed (auto simp: shouldWriteFile_def read_data_def split: sum.splits)

lemma shouldWritePayload_done:
  "(\<And>p proj err. (p, proj) \<in> set payload \<Longrightarrow> shouldWriteFile fs p (fp_Data proj) \<noteq> Inl err) \<Longrightarrow> shouldWritePayload fs payload \<noteq> Inl err"
  by (induction fs payload rule: shouldWritePayload.induct) (auto split: sum.split bool.split)

lemma readable_entry:
  assumes "aw_inv fs" and "path_visible p" and "''..'' \<notin> set p" and "read_data fs p \<noteq> None"
  shows "\<not> is_dir fs p"
proof -
  obtain c d m where c: "cur_dir fs = Some c" "mget fs (c # p) = Some (File d m)"
    using assms(4) read_data_eq [OF assms(1-3)] by (auto simp: data_of_def file_data_def split: option.splits fnode.splits)
  have "p \<noteq> []" using assms(2) by (simp add: path_visible_def)
  from data_linkedD [OF cur_dir_facts(5) [OF assms(1) c(1)] this c(2)] show ?thesis by (auto simp: is_dir_iff)
qed

lemma distinct_pathsToRemove: "fs_ok fs \<Longrightarrow> distinct (pathsToRemove fs payload)"
  by (simp add: pathsToRemove_def walk_paths_def Let_def fs_ok_def mwf_def)

lemma Write_done:
  assumes "calm (list_all (old_state c0 D)) (old_state c0 D) s" and "write_ok ts clean"
    and "clear_way (set (pathsToRemove (os_files s) clean)) clean (os_files s)" and "mget (os_files s) [ts] = None"
    and "\<forall>p \<in> fst ` set clean. \<not> is_dir (os_files s) p"
  shows "outcome (and_then (newTimestampDir ts) (\<lambda>tsDir. and_then (writePayloadToDir clean tsDir) (\<lambda>_.
      and_then (createUserVisibleFiles clean) (\<lambda>_. swap_data_dir tsDir (pathsToRemove (os_files s) clean))))) s
    (\<lambda>s' _. calm (switched c0 D ts clean) (new_state ts clean) s' \<and> extras {} clean (os_files s')) (\<lambda>_ _. False)"
proof -
  let ?remove = "pathsToRemove (os_files s) clean" and ?T = "list_all (old_state c0 D)"
    and ?Q = "\<lambda>s' _. calm (switched c0 D ts clean) (new_state ts clean) s' \<and> extras {} clean (os_files s')"
  have ok: "fs_ok (os_files s)" using assms(1) by (simp add: calm_def traced_def old_state_def aw_inv_def)
  have rem: "path_visible p \<and> ''..'' \<notin> set p \<and> (\<forall>k \<in> fst ` set clean. \<not> prefix p k)" if "p \<in> set ?remove" for p
    using that fs_ok_names [OF ok, of p] by (auto simp: pathsToRemove_iff)
  have links: "outcome (and_then (createUserVisibleFiles clean) (\<lambda>_. swap_data_dir [ts] ?remove)) s' ?Q (\<lambda>_ _. False)"
    if "calm ?T (linking (Some (set ?remove)) c0 D ts clean {}) s'" for s'
    using createUserVisibleFiles_done [OF that assms(2) order.refl]
    by (rule and_then_outcome) (simp_all add: swap_done [OF _ assms(2) distinct_pathsToRemove [OF ok] rem])
  have "distinct (map fst (rev clean @ []))" using assms(2) by (simp add: write_ok_def mwf_def rev_map [symmetric])
  note wr = writePayloadToDir_done [OF _ assms(2) order.refl this]
  have rest: "outcome (and_then (writePayloadToDir clean [ts]) (\<lambda>_.
      and_then (createUserVisibleFiles clean) (\<lambda>_. swap_data_dir [ts] ?remove))) s' ?Q (\<lambda>_ _. False)"
    if "calm ?T (writing (Some (set ?remove)) c0 D ts clean []) s'" for s'
    using wr [OF that]
  proof (rule and_then_outcome)
    fix s' :: os and a :: unit assume "calm ?T (writing (Some (set ?remove)) c0 D ts clean (rev clean @ [])) s'"
    then have "calm ?T (linking (Some (set ?remove)) c0 D ts clean {}) s'"
      by (simp add: calm_def traced_def linking_def writing_def)
    from links [OF this] show "outcome (and_then (createUserVisibleFiles clean) (\<lambda>_. swap_data_dir [ts] ?remove)) s' ?Q (\<lambda>_ _. False)" .
  qed
  show ?thesis
    using newTimestampDir_done [OF assms(1,2,5,3,4)] by (rule and_then_outcome) (auto intro: rest)
qed

lemma Write_visible:
  assumes "aw_inv (os_files s)" and "os_trace s = []" and "os_faults s = []" and "validatePayload payload = Inr clean"
    and "\<forall>p \<in> fst ` set clean. path_visible p \<and> (mget (os_files s) p = None \<or> read_data (os_files s) p \<noteq> None)"
    and "\<forall>p \<in> fst ` set clean. \<forall>q t. strict_prefix q p \<longrightarrow> q \<notin> fst ` set clean \<and> mget (os_files s) q \<noteq> Some (Link t)"
    and "mget (os_files s) [newDataDirName] = None"
    and "hidden ts" and "ts \<notin> {''..'', dataDirName, newDataDirName}" and "mget (os_files s) [ts] = None"
  shows "outcome (AtomicWriter_Write ts payload) s (\<lambda>s' _. aw_inv (os_files s') \<and>
    (\<forall>p. readable p \<longrightarrow> read_data (os_files s') p = payload_data clean p) \<and> extras {} clean (os_files s') \<and> os_faults s' = []) (\<lambda>_ _. False)"
proof -
  let ?fs = "os_files s" and ?remove = "pathsToRemove (os_files s) clean"
    and ?T = "list_all (old_state (cur_dir (os_files s)) (data_of (os_files s)))"
  have keys: "mwf clean \<and> (\<forall>p \<in> fst ` set clean. ''..'' \<notin> set p)"
    using validatePayload_loop_keys [of payload "[]" clean] assms(4) by (simp add: validatePayload_def)
  then have ok: "write_ok ts clean" using assms(5,8,9) by (simp add: write_ok_def)
  have dirs: "\<forall>p \<in> fst ` set clean. \<not> is_dir ?fs p"
    using readable_entry [OF assms(1)] assms(5) keys by (metis is_dir_iff option.distinct(1))
  have clear: "clear_way (set ?remove) clean ?fs" using assms(6,7) by (simp add: clear_way_def pathsToRemove_iff)
  have "shouldWritePayload ?fs clean \<noteq> Inl err" for err
    by (rule shouldWritePayload_done, rule shouldWriteFile_done [OF assms(1)]) (use assms(5,6) keys in force)+
  then obtain b where b: "shouldWritePayload ?fs clean = Inr b" by (cases "shouldWritePayload ?fs clean") auto
  have same: "read_data ?fs p = payload_data clean p" if "\<not> b" "?remove = []" "readable p" for p
    using payload_already_there [OF assms(1) ok] b that by simp
  have "calm ?T (old_state (cur_dir ?fs) (data_of ?fs)) s" using assms(1-3) by (simp add: calm_def traced_def old_state_def)
  note new = Write_done [OF this ok clear assms(10) dirs]
  show ?thesis
  proof (cases "\<not> b \<and> ?remove = []")
    case True
    then have "extras {} clean ?fs" using clear_way_extras [OF clear] by simp
    then show ?thesis
      unfolding AtomicWriter_Write_def Let_def go_wp assms(4) b sum.case using True same assms(1,3) by (simp add: outcome_ret)
  next
    case False
    then show ?thesis
      unfolding AtomicWriter_Write_def Let_def go_wp assms(4) b sum.case if_not_P [OF False]
      using new [unfolded go_wp] by (rule_tac outcome_mono) (auto simp: calm_def traced_def new_state_def read_data_eq readable_def elim!: outcome_mono)
  qed
qed

text \<open>
  C13: A write gets done. When no call fails, a valid payload is written and the write reports success, if none of its
  files is in the way of another one and each of them is new or can be read, nothing on the way to them is a link, and no
  temporary link is left from a crash. Then the files that can be read are those of the payload, every visible path leads to
  one of them, and no temporary link is left, so that the next write can start.
\<close>

theorem payload_becomes_visible:
  assumes "aw_inv (os_files s)" and "os_trace s = []" and "os_faults s = []" and "validatePayload payload = Inr clean"
    and "\<forall>p \<in> fst ` set clean. path_visible p \<and> (mget (os_files s) p = None \<or> read_data (os_files s) p \<noteq> None)"
    and "\<forall>p \<in> fst ` set clean. \<forall>q t. strict_prefix q p \<longrightarrow> q \<notin> fst ` set clean \<and> mget (os_files s) q \<noteq> Some (Link t)"
    and "mget (os_files s) [newDataDirName] = None"
    and "hidden ts" and "ts \<notin> {''..'', dataDirName, newDataDirName}" and "mget (os_files s) [ts] = None"
  shows "\<exists>s'. AtomicWriter_Write ts payload s = Some (s', Inr ()) \<and> aw_inv (os_files s') \<and>
    (\<forall>p. readable p \<longrightarrow> read_data (os_files s') p = payload_data clean p) \<and>
    (\<forall>p. path_visible p \<longrightarrow> mget (os_files s') p \<noteq> None \<longrightarrow> (\<exists>k \<in> fst ` set clean. prefix p k)) \<and>
    mget (os_files s') [newDataDirName] = None"
proof -
  from outcome_run [OF Write_visible [OF assms]] obtain s' where "AtomicWriter_Write ts payload s = Some (s', Inr ())" "aw_inv (os_files s')"
    "\<forall>p. readable p \<longrightarrow> read_data (os_files s') p = payload_data clean p" "extras {} clean (os_files s')" by auto
  then show ?thesis by (intro exI [of _ s']) (auto simp: extras_def)
qed

theorem payload_becomes_visible_witness:
  "let clean = [([''b'', ''c''], sample_file ''3''), ([''d'', ''e''], sample_file ''4'')]
   in \<exists>s'. AtomicWriter_Write ''..t2'' [(''b/c'', sample_file ''3''), (''./d/e'', sample_file ''4'')] (sample_os sample_volume []) = Some (s', Inr ()) \<and>
      (\<forall>p. readable p \<longrightarrow> read_data (os_files s') p = payload_data clean p)"
proof -
  let ?s = "sample_os sample_volume []" and ?clean = "[([''b'', ''c''], sample_file ''3''), ([''d'', ''e''], sample_file ''4'')]"
  have inv: "aw_inv (os_files ?s)" "os_trace ?s = []" "os_faults ?s = []" by (simp_all add: sample_os_def sample_volume_ok)
  have v: "validatePayload [(''b/c'', sample_file ''3''), (''./d/e'', sample_file ''4'')] = Inr ?clean"
    and p: "\<forall>p \<in> fst ` set ?clean. path_visible p \<and> (mget (os_files ?s) p = None \<or> read_data (os_files ?s) p \<noteq> None)"
    and n: "mget (os_files ?s) [newDataDirName] = None"
    and t: "hidden ''..t2''" "''..t2'' \<notin> {''..'', dataDirName, newDataDirName}" "mget (os_files ?s) [''..t2''] = None" by code_simp+
  have q: "\<forall>p \<in> fst ` set ?clean. \<forall>q t. strict_prefix q p \<longrightarrow> q \<notin> fst ` set ?clean \<and> mget (os_files ?s) q \<noteq> Some (Link t)"
    by (auto simp: strict_prefix_def prefix_Cons sample_os_def sample_volume_def mget_def)
  show ?thesis using payload_becomes_visible [OF inv v p q n t] unfolding Let_def by blast
qed

end
