(* ===== verification/Projected_Volumes.thy ===== *)
theory Projected_Volumes
  imports Atomic_Progress API_Types
begin

text \<open>
  Volumes whose files come from the API server or from the pod: the mounters of
  \<open>pkg/volume/configmap/configmap.go\<close>, \<open>pkg/volume/secret/secret.go\<close> and
  \<open>pkg/volume/downwardapi/downwardapi.go\<close> with \<open>pkg/fieldpath/fieldpath.go\<close>, and
  \<open>SetVolumeOwnership\<close> of \<open>pkg/volume/volume_linux.go\<close>. The state are the files below the directory of the
  volume; the empty-dir volume that they wrap and the API client are fields of a record.
\<close>

section \<open>Ownership\<close>

definition rwMask :: fmode where "rwMask = 0x1B0"
definition roMask :: fmode where "roMask = 0x120"

text \<open>Errors of the two calls are logged only.\<close>

definition set_owner :: "fpath \<Rightarrow> int \<Rightarrow> fmode \<Rightarrow> (os, unit) go" where
  "set_owner p fsGroup mode = on_result (os_Chown p fsGroup) (\<lambda>_. on_result (os_Chmod p mode) (\<lambda>_. ret ()))"

definition own_entry :: "bool \<Rightarrow> int \<Rightarrow> fpath \<Rightarrow> (os, unit) go" where
  "own_entry readOnly fsGroup p =
     (let mask = if readOnly then roMask else rwMask
      in gets (\<lambda>s. case os_Lstat (os_files s) p of
           Inl err \<Rightarrow> fail err
         | Inr (Link t) \<Rightarrow> ret ()
         | Inr (Dir a) \<Rightarrow> set_owner p fsGroup (fa_mode a OR (mask OR ModeSetgid))
         | Inr (File d a) \<Rightarrow> set_owner p fsGroup (fa_mode a OR mask)))"

fun own_entries :: "bool \<Rightarrow> int \<Rightarrow> fpath list \<Rightarrow> (os, unit) go" where
  "own_entries readOnly fsGroup [] = ret ()"
| "own_entries readOnly fsGroup (p # ps) = and_then (own_entry readOnly fsGroup p) (\<lambda>_. own_entries readOnly fsGroup ps)"

text \<open>\<open>filepath.Walk\<close> visits a directory before its entries, and these in the order of their names. The path leads through no links.\<close>

definition SetVolumeOwnership :: "fpath \<Rightarrow> bool \<Rightarrow> int option \<Rightarrow> (os, unit) go" where
  "SetVolumeOwnership path readOnly fsGroup =
     (case fsGroup of
        None \<Rightarrow> ret ()
      | Some g \<Rightarrow>
          gets (\<lambda>s. case os_Lstat (os_files s) path of
              Inl err \<Rightarrow> fail err
            | Inr _ \<Rightarrow> own_entries readOnly g (sort (filter (prefix path) (walk_paths (os_files s))))))"

section \<open>Payloads\<close>

record KeyToPath =
  ktp_Key :: string
  ktp_Path :: string
  ktp_Mode :: "fmode option"

record ProjectedVolumeSource =
  ps_Name :: string
  ps_Items :: "KeyToPath list"
  ps_DefaultMode :: "fmode option"

type_synonym key_data = "(string, string) gomap"

fun all_keys :: "key_data \<Rightarrow> fmode \<Rightarrow> (string, FileProjection) gomap \<Rightarrow> (string, FileProjection) gomap" where
  "all_keys [] mode payload = payload"
| "all_keys ((name, data) # rest) mode payload =
     all_keys rest mode (mput name \<lparr>fp_Data = data, fp_Mode = mode\<rparr> payload)"

fun mapped_keys :: "string \<Rightarrow> KeyToPath list \<Rightarrow> key_data \<Rightarrow> fmode \<Rightarrow> (string, FileProjection) gomap \<Rightarrow> error + (string, FileProjection) gomap" where
  "mapped_keys err_msg [] data mode payload = Inr payload"
| "mapped_keys err_msg (ktp # mappings) data mode payload =
     (case mget data (ktp_Key ktp) of
        None \<Rightarrow> Inl (Errorf err_msg None)
      | Some content \<Rightarrow>
          mapped_keys err_msg mappings data mode
            (mput (ktp_Path ktp) \<lparr>fp_Data = content, fp_Mode = (case ktp_Mode ktp of Some m \<Rightarrow> m | None \<Rightarrow> mode)\<rparr> payload))"

definition makePayload :: "string \<Rightarrow> KeyToPath list \<Rightarrow> key_data \<Rightarrow> fmode option \<Rightarrow> error + (string, FileProjection) gomap" where
  "makePayload err_msg mappings data defaultMode =
     (case defaultMode of
        None \<Rightarrow> Inl (Errorf ''No defaultMode used, not even the default value for it'' None)
      | Some mode \<Rightarrow> if length mappings = 0 then Inr (all_keys data mode []) else mapped_keys err_msg mappings data mode [])"

definition configMap_makePayload :: "KeyToPath list \<Rightarrow> key_data \<Rightarrow> fmode option \<Rightarrow> error + (string, FileProjection) gomap" where
  "configMap_makePayload = makePayload ''references non-existent config key''"

definition secret_makePayload :: "KeyToPath list \<Rightarrow> key_data \<Rightarrow> fmode option \<Rightarrow> error + (string, FileProjection) gomap" where
  "secret_makePayload = makePayload ''references non-existent secret key''"

section \<open>Fields of a pod\<close>

record pod_meta =
  pm_Name :: string
  pm_Namespace :: string
  pm_Labels :: "(string, string) gomap"
  pm_Annotations :: "(string, string) gomap"

definition map_line :: "string \<times> string \<Rightarrow> string" where
  "map_line kv = fst kv @ CHR ''='' # go_quote (snd kv)"

definition strings_TrimSuffix :: "string \<Rightarrow> string \<Rightarrow> string" where
  "strings_TrimSuffix s suf = (if suffix suf s then take (length s - length suf) s else s)"

definition FormatMap :: "(string, string) gomap \<Rightarrow> string" where
  "FormatMap m = strings_TrimSuffix (concat (map (\<lambda>kv. map_line kv @ [CHR 0x0A]) m)) [CHR 0x0A]"

definition ExtractFieldPathAsString :: "pod_meta \<Rightarrow> string \<Rightarrow> error + string" where
  "ExtractFieldPathAsString obj fieldPath =
     (if fieldPath = ''metadata.annotations'' then Inr (FormatMap (pm_Annotations obj))
      else if fieldPath = ''metadata.labels'' then Inr (FormatMap (pm_Labels obj))
      else if fieldPath = ''metadata.name'' then Inr (pm_Name obj)
      else if fieldPath = ''metadata.namespace'' then Inr (pm_Namespace obj)
      else Inl (Errorf ''Unsupported fieldPath'' None))"

definition sortLines :: "string \<Rightarrow> string" where
  "sortLines values = strings_Join (sort (strings_Split values (CHR 0x0A))) [CHR 0x0A]"

record 'r DownwardAPIVolumeFile =
  df_Path :: string
  df_FieldRef :: "string option"
  df_ResourceFieldRef :: "'r option"
  df_Mode :: "fmode option"

text \<open>The first argument gives the value of a resource of a container, or the error of the node or of the extraction.\<close>

fun collectData_loop ::
  "('r \<Rightarrow> error + string) \<Rightarrow> pod_meta \<Rightarrow> fmode \<Rightarrow> 'r DownwardAPIVolumeFile list \<Rightarrow> error list \<Rightarrow> (string, FileProjection) gomap \<Rightarrow>
   error list \<times> (string, FileProjection) gomap" where
  "collectData_loop res pod mode [] errlist data = (errlist, data)"
| "collectData_loop res pod mode (fileInfo # items) errlist data =
     (let fPath = path_Clean (df_Path fileInfo);
          m = (case df_Mode fileInfo of Some m \<Rightarrow> m | None \<Rightarrow> mode);
          values = (case df_FieldRef fileInfo of
             Some ref \<Rightarrow> ExtractFieldPathAsString pod ref
           | None \<Rightarrow> (case df_ResourceFieldRef fileInfo of Some ref \<Rightarrow> res ref | None \<Rightarrow> Inr []))
      in case values of
           Inl err \<Rightarrow> collectData_loop res pod mode items (errlist @ [err]) (mput fPath \<lparr>fp_Data = [], fp_Mode = m\<rparr> data)
         | Inr v \<Rightarrow> collectData_loop res pod mode items errlist (mput fPath \<lparr>fp_Data = sortLines v, fp_Mode = m\<rparr> data))"

definition collectData ::
  "('r \<Rightarrow> error + string) \<Rightarrow> pod_meta \<Rightarrow> 'r DownwardAPIVolumeFile list \<Rightarrow> fmode option \<Rightarrow> error + (string, FileProjection) gomap" where
  "collectData res pod items defaultMode =
     (case defaultMode of
        None \<Rightarrow> Inl (Errorf ''No defaultMode used, not even the default value for it'' None)
      | Some mode \<Rightarrow>
          (case collectData_loop res pod mode items [] [] of
             (errlist, data) \<Rightarrow> (case NewAggregate errlist of Some err \<Rightarrow> Inl err | None \<Rightarrow> Inr data)))"

section \<open>Setting up and tearing down\<close>

text \<open>
  The wrapped empty-dir volume, found by name and pod, and the reading part of the API client (\<open>None\<close> if there is no client).
\<close>

record projected_host =
  ph_NewWrapperMounter :: "string \<Rightarrow> uid \<Rightarrow> error + (int option \<Rightarrow> (os, unit) go)"
  ph_NewWrapperUnmounter :: "string \<Rightarrow> uid \<Rightarrow> error + (os, unit) go"
  ph_GetConfigMap :: "(string \<Rightarrow> string \<Rightarrow> error + key_data) option"
  ph_GetSecret :: "(string \<Rightarrow> string \<Rightarrow> error + key_data) option"

record projected_volume =
  pj_volName :: string
  pj_podUID :: uid
  pj_Namespace :: string

definition wrapped_SetUpAt :: "projected_host \<Rightarrow> projected_volume \<Rightarrow> int option \<Rightarrow> (os, unit) go" where
  "wrapped_SetUpAt host b fsGroup =
     and_then (result (ph_NewWrapperMounter host (pj_volName b) (pj_podUID b))) (\<lambda>wrapped. wrapped fsGroup)"

text \<open>The writer is made, the payload written and the ownership set. These volumes are read-only.\<close>

definition write_payload :: "string \<Rightarrow> (string, FileProjection) gomap \<Rightarrow> int option \<Rightarrow> (os, unit) go" where
  "write_payload ts payload fsGroup =
     and_then (gets (\<lambda>s. case NewAtomicWriter (os_files s) of Some err \<Rightarrow> fail err | None \<Rightarrow> ret ())) (\<lambda>_.
     and_then (AtomicWriter_Write ts payload) (\<lambda>_.
     SetVolumeOwnership [] True fsGroup))"

definition configMap_SetUpAt :: "projected_host \<Rightarrow> projected_volume \<Rightarrow> ProjectedVolumeSource \<Rightarrow> string \<Rightarrow> int option \<Rightarrow> (os, unit) go" where
  "configMap_SetUpAt host b source ts fsGroup =
     and_then (wrapped_SetUpAt host b fsGroup) (\<lambda>_.
     case ph_GetConfigMap host of
       None \<Rightarrow> fail (Errorf ''Cannot setup configMap volume because kube client is not configured'' None)
     | Some get \<Rightarrow>
         and_then (result (get (pj_Namespace b) (ps_Name source))) (\<lambda>configMap.
         and_then (result (configMap_makePayload (ps_Items source) configMap (ps_DefaultMode source))) (\<lambda>payload.
         write_payload ts payload fsGroup)))"

definition secret_SetUpAt :: "projected_host \<Rightarrow> projected_volume \<Rightarrow> ProjectedVolumeSource \<Rightarrow> string \<Rightarrow> int option \<Rightarrow> (os, unit) go" where
  "secret_SetUpAt host b source ts fsGroup =
     and_then (wrapped_SetUpAt host b fsGroup) (\<lambda>_.
     case ph_GetSecret host of
       None \<Rightarrow> fail (Errorf ''Cannot setup secret volume because kube client is not configured'' None)
     | Some get \<Rightarrow>
         and_then (result (get (pj_Namespace b) (ps_Name source))) (\<lambda>secret.
         and_then (result (secret_makePayload (ps_Items source) secret (ps_DefaultMode source))) (\<lambda>payload.
         write_payload ts payload fsGroup)))"

definition downwardAPI_SetUpAt ::
  "projected_host \<Rightarrow> projected_volume \<Rightarrow> ('r \<Rightarrow> error + string) \<Rightarrow> pod_meta \<Rightarrow> 'r DownwardAPIVolumeFile list \<Rightarrow> fmode option \<Rightarrow>
   string \<Rightarrow> int option \<Rightarrow> (os, unit) go" where
  "downwardAPI_SetUpAt host b res pod items defaultMode ts fsGroup =
     and_then (wrapped_SetUpAt host b fsGroup) (\<lambda>_.
     and_then (result (collectData res pod items defaultMode)) (\<lambda>data.
     write_payload ts data fsGroup))"

definition PathExists :: "files \<Rightarrow> fpath \<Rightarrow> error + bool" where
  "PathExists fs p =
     (case os_Stat fs p of
        Inr _ \<Rightarrow> Inr True
      | Inl err \<Rightarrow> if os_IsNotExist err then Inr False else Inl err)"

definition UnmountViaEmptyDir :: "projected_host \<Rightarrow> projected_volume \<Rightarrow> (os, unit) go" where
  "UnmountViaEmptyDir host b =
     gets (\<lambda>s. case PathExists (os_files s) [] of
         Inl err \<Rightarrow> fail (Errorf ''Error checking if path exists'' (Some err))
       | Inr False \<Rightarrow> ret ()
       | Inr True \<Rightarrow>
           and_then (result (ph_NewWrapperUnmounter host (pj_volName b) (pj_podUID b))) (\<lambda>wrapped. wrapped))"

section \<open>Changing attributes\<close>

text \<open>What an entry is apart from its attributes.\<close>

definition kind :: "fnode \<Rightarrow> fpath option + string" where
  "kind nd = (case nd of Dir a \<Rightarrow> Inl None | Link t \<Rightarrow> Inl (Some t) | File d a \<Rightarrow> Inr d)"

definition shape :: "files \<Rightarrow> fpath \<Rightarrow> (fpath option + string) option" where
  "shape fs p = map_option kind (mget fs p)"

lemma kind_simps [simp]: "kind (Dir a) = Inl None" "kind (Link t) = Inl (Some t)" "kind (File d a) = Inr d"
  by (simp_all add: kind_def)

lemma kind_iff:
  "kind nd = Inl None \<longleftrightarrow> (\<exists>a. nd = Dir a)" "kind nd = Inl (Some t) \<longleftrightarrow> nd = Link t" "kind nd = Inr d \<longleftrightarrow> (\<exists>a. nd = File d a)"
  by (cases nd; simp)+

lemma shape_facts:
  "is_dir fs p \<longleftrightarrow> shape fs p = Some (Inl None)" "mget fs p = None \<longleftrightarrow> shape fs p = None"
  "mget fs p = Some (Link t) \<longleftrightarrow> shape fs p = Some (Inl (Some t))"
  "file_data fs p = (case shape fs p of Some (Inr d) \<Rightarrow> Some d | _ \<Rightarrow> None)"
  by (auto simp: is_dir_iff shape_def kind_iff file_data_def split: option.splits fnode.splits)

lemma fs_ok_shape: "shape fs' = shape fs \<Longrightarrow> mwf fs' \<Longrightarrow> fs_ok fs \<Longrightarrow> fs_ok fs'"
  by (simp add: fs_ok_def shape_facts(1,2))

lemma aw_inv_shape:
  assumes "shape fs' = shape fs" and "mwf fs'" and "aw_inv fs"
  shows "aw_inv fs'" and "cur_dir fs' = cur_dir fs" and "data_of fs' = data_of fs"
proof -
  have same: "is_dir fs' p = is_dir fs p" "mget fs' p = None \<longleftrightarrow> mget fs p = None" "mget fs' p = Some (Link t) \<longleftrightarrow> mget fs p = Some (Link t)"
    "file_data fs' p = file_data fs p" for p t
    by (simp_all only: shape_facts assms(1))
  have kinds: "kind nd' = kind nd" if "mget fs' p = Some nd'" "mget fs p = Some nd" for p nd nd'
    using fun_cong [OF assms(1), of p] that by (simp add: shape_def)
  have cur_iff: "cur_dir fs = Some c \<longleftrightarrow> mget fs [dataDirName] = Some (Link [c])" for fs c
    by (auto simp: cur_dir_def split: option.splits fnode.splits list.splits)
  then show cur: "cur_dir fs' = cur_dir fs" using same(3) by (metis option.exhaust)
  then show "data_of fs' = data_of fs" using same(4) by (auto simp: data_of_def fun_eq_iff split: option.splits)
  have "fs_ok fs'" using fs_ok_shape [OF assms(1,2)] assms(3) by (simp add: aw_inv_def)
  moreover have "data_dir_ok fs'"
  proof (cases "cur_dir fs")
    case None
    then have "mget fs' [dataDirName] = None" using cur_dir_None [OF assms(3)] same(2) [of "[dataDirName]"] by simp
    then show ?thesis by (simp add: data_dir_ok_def)
  next
    case (Some c)
    then have "mget fs' [dataDirName] = Some (Link [c])" using cur_iff [of fs c] same(3) by blast
    then show ?thesis using cur_dir_facts(1,2) [OF assms(3) Some] same(1) by (simp add: data_dir_ok_def)
  qed
  moreover have "visible_ok p nd'" if nd': "mget fs' p = Some nd'" for p nd'
  proof -
    obtain nd where nd: "mget fs p = Some nd" using same(2) [of p] nd' by (cases "mget fs p") simp_all
    show ?thesis using aw_inv_node [OF assms(3) nd] kinds [OF nd' nd] by (cases nd; cases nd') (auto simp: visible_ok_def)
  qed
  moreover have "data_linked fs' c" if c: "cur_dir fs = Some c" for c
    unfolding data_linked_def
  proof (intro allI impI)
    fix p nd' assume p: "p \<noteq> []" and nd': "mget fs' (c # p) = Some nd'"
    obtain nd where nd: "mget fs (c # p) = Some nd" using same(2) [of "c # p"] nd' by (cases "mget fs (c # p)") simp_all
    show "path_visible p \<and> (case nd' of Dir m \<Rightarrow> is_dir fs' p | _ \<Rightarrow> \<exists>t. mget fs' p = Some (Link t))"
      using data_linkedD [OF cur_dir_facts(5) [OF assms(3) c] p nd] kinds [OF nd' nd] same by (cases nd; cases nd') auto
  qed
  ultimately show "aw_inv fs'" by (simp add: aw_inv_def cur)
qed

text \<open>A property of files that does not depend on attributes is kept by the two calls.\<close>

definition attr_free :: "(files \<Rightarrow> bool) \<Rightarrow> bool" where
  "attr_free Q \<longleftrightarrow> (\<forall>fs fs'. Q fs \<longrightarrow> shape fs' = shape fs \<longrightarrow> mwf fs' \<longrightarrow> Q fs')"

lemma attr_free_new_state: "attr_free (new_state ts payload)"
  unfolding attr_free_def new_state_def using aw_inv_shape shape_facts(2) by metis

lemma attr_free_aw: "attr_free (\<lambda>fs. aw_inv fs \<and> data_of fs = D)"
  unfolding attr_free_def using aw_inv_shape by metis

lemma shape_put: "mget fs p = Some nd \<Longrightarrow> kind nd' = kind nd \<Longrightarrow> shape (mput p nd' fs) = shape fs"
  by (auto simp: shape_def gm.get_put fun_eq_iff)

text \<open>Where an entry exists, its path leads to it; a link is not followed.\<close>

lemma namei_entry:
  assumes "fs_ok fs" and "mget fs p \<noteq> None"
  shows "namei n fs False [] p = Inr p"
proof (cases "p = []")
  case False
  have par: "is_dir fs (butlast p)" using fs_ok_parent [OF assms(1), of "butlast p" "[last p]"] assms(2) False by simp
  have "last p \<noteq> ''..''" using fs_ok_names [OF assms] last_in_set [OF False] by metis
  from namei_parent [OF assms(1) par this, of n False] False show ?thesis by (simp split: option.splits fnode.splits)
qed simp

lemma namei_entry_follow:
  assumes "fs_ok fs" and "mget fs p = Some nd" and "\<And>t. nd \<noteq> Link t"
  shows "namei n fs True [] p = Inr p"
proof (cases "p = []")
  case False
  have par: "is_dir fs (butlast p)" using fs_ok_parent [OF assms(1), of "butlast p" "[last p]"] assms(2) False by simp
  have "last p \<noteq> ''..''" using fs_ok_names [OF assms(1), of p] assms(2) last_in_set [OF False] by auto
  from namei_parent [OF assms(1) par this, of n True] False assms(2,3) show ?thesis by (cases nd) auto
qed simp

definition change_attr :: "(fattr \<Rightarrow> fattr) \<Rightarrow> (fattr \<Rightarrow> fattr) \<Rightarrow> fnode \<Rightarrow> fnode" where
  "change_attr on_dir on_file nd = (case nd of Dir a \<Rightarrow> Dir (on_dir a) | File d a \<Rightarrow> File d (on_file a) | Link t \<Rightarrow> Link t)"

lemma kind_change_attr [simp]: "kind (change_attr f g nd) = kind nd"
  by (simp add: change_attr_def split: fnode.split)

text \<open>The contract of a call that changes the attributes of one file or directory and nothing else.\<close>

locale attr_call =
  fixes call :: "fpath \<Rightarrow> 'x \<Rightarrow> (os, unit) go" and on_dir on_file :: "'x \<Rightarrow> fattr \<Rightarrow> fattr"
  assumes call_eq: "call p x = syscall (change_file (\<lambda>nd. case nd of
        None \<Rightarrow> Inl ENOENT
      | Some (Link t) \<Rightarrow> Inl ELOOP
      | Some nd \<Rightarrow> Inr (change_attr (on_dir x) (on_file x) nd)) p)"
begin

text \<open>Whatever happens, a property that does not depend on attributes is kept.\<close>

lemma keeps_call:
  assumes "attr_free Q" and "\<And>tr fs. T tr \<Longrightarrow> Q fs \<Longrightarrow> T (tr @ [fs])" and "\<And>fs. Q fs \<Longrightarrow> mwf fs"
  shows "keeps (traced T Q) (call p x)"
  unfolding call_eq
proof (rule keeps_syscall)
  fix fs fs' assume q: "Q fs" and "change_file (\<lambda>nd. case nd of
        None \<Rightarrow> Inl ENOENT
      | Some (Link t) \<Rightarrow> Inl ELOOP
      | Some nd \<Rightarrow> Inr (change_attr (on_dir x) (on_file x) nd)) p fs = Inr fs'"
  then obtain r nd' where c: "(case mget fs r of None \<Rightarrow> Inl ENOENT | Some (Link t) \<Rightarrow> Inl ELOOP
      | Some nd \<Rightarrow> Inr (change_attr (on_dir x) (on_file x) nd)) = Inr nd'" "fs' = mput r nd' fs"
    unfolding change_file_Inr by blast
  then obtain nd where r: "mget fs r = Some nd" "fs' = mput r (change_attr (on_dir x) (on_file x) nd) fs"
    by (cases "mget fs r") (auto split: fnode.splits)
  then have "shape fs' = shape fs" "mwf fs'" using assms(3) [OF q] by (simp_all add: shape_put)
  with assms(1) q show "Q fs'" unfolding attr_free_def by blast
qed (rule assms(2))

text \<open>When it does not fail, it reaches an entry that is not a link.\<close>

lemma call_done:
  assumes "fs_ok (os_files s)" and "os_faults s = []" and "mget (os_files s) p = Some nd" and "\<And>t. nd \<noteq> Link t"
  shows "\<exists>s'. call p x s = Some (s', Inr ()) \<and> fs_ok (os_files s') \<and> os_faults s' = [] \<and>
    mget (os_files s') p = Some (change_attr (on_dir x) (on_file x) nd) \<and> (\<forall>q. q \<noteq> p \<longrightarrow> mget (os_files s') q = mget (os_files s) q)"
proof -
  let ?fs = "mput p (change_attr (on_dir x) (on_file x) nd) (os_files s)"
  have "shape ?fs = shape (os_files s)" "mwf ?fs" using assms(1,3) by (simp_all add: shape_put fs_ok_def)
  then have "fs_ok ?fs" using assms(1) by (rule fs_ok_shape)
  moreover have "call p x s = Some (s\<lparr>os_files := ?fs, os_trace := os_trace s @ [?fs]\<rparr>, Inr ())"
    using namei_entry_follow [OF assms(1,3,4)] assms(2-4) by (cases nd) (auto simp: call_eq syscall_calm change_file_def)
  ultimately show ?thesis using assms(2) by simp
qed

end

interpretation chown: attr_call os_Chown "\<lambda>g a. a\<lparr>fa_gid := g\<rparr>" "\<lambda>g a. \<lparr>fa_mode = chown_mode (fa_mode a), fa_gid = g\<rparr>"
  by unfold_locales (simp add: os_Chown_def change_attr_def cong: option.case_cong fnode.case_cong)

interpretation chmod: attr_call os_Chmod "\<lambda>m a. a\<lparr>fa_mode := perm m\<rparr>" "\<lambda>m a. a\<lparr>fa_mode := perm m\<rparr>"
  by unfold_locales (simp add: os_Chmod_def change_attr_def cong: option.case_cong fnode.case_cong)

lemma keeps_set_owner:
  assumes "attr_free Q" and "\<And>tr fs. T tr \<Longrightarrow> Q fs \<Longrightarrow> T (tr @ [fs])" and "\<And>fs. Q fs \<Longrightarrow> mwf fs"
  shows "keeps (traced T Q) (set_owner p g m)"
proof -
  have "keeps (traced T Q) (os_Chown p g)" by (rule chown.keeps_call) (use assms in blast)+
  moreover have "keeps (traced T Q) (os_Chmod p m)" by (rule chmod.keeps_call) (use assms in blast)+
  ultimately show ?thesis unfolding set_owner_def by (intro keeps_on_result keeps_basic)
qed

text \<open>Setting the ownership never fails and changes nothing but attributes.\<close>

lemma outcome_own_entries:
  assumes "attr_free Q" and "\<And>tr fs. T tr \<Longrightarrow> Q fs \<Longrightarrow> T (tr @ [fs])" and "\<And>fs. Q fs \<Longrightarrow> fs_ok fs"
    and "traced T Q s" and "\<And>p. p \<in> set ps \<Longrightarrow> shape (os_files s) p \<noteq> None"
  shows "outcome (own_entries readOnly g ps) s (\<lambda>s' _. traced T Q s') (\<lambda>_ _. False)"
  using assms(4,5)
proof (induction ps arbitrary: s)
  case (Cons p ps)
  let ?P = "traced T (\<lambda>fs. Q fs \<and> shape fs = shape (os_files s))"
  have free: "attr_free (\<lambda>fs. Q fs \<and> shape fs = shape (os_files s))" using assms(1) by (auto simp: attr_free_def)
  have keep: "keeps ?P (set_owner p g m)" for m
    by (rule keeps_set_owner [OF free]) (use assms(2,3) in \<open>auto simp: fs_ok_def\<close>)
  have "mget (os_files s) p \<noteq> None" using Cons.prems(2) [of p] shape_facts(2) by simp
  moreover have "fs_ok (os_files s)" using Cons.prems(1) assms(3) by (simp add: traced_def)
  ultimately have "namei max_links (os_files s) False [] p = Inr p" by (intro namei_entry)
  then obtain nd where st: "os_Lstat (os_files s) p = Inr nd" "mget (os_files s) p = Some nd"
    using \<open>mget (os_files s) p \<noteq> None\<close> by (auto simp: os_Lstat_def node_at_def)
  have P: "?P s" using Cons.prems(1) by (simp add: traced_def)
  have so: "outcome (set_owner p g m) s (\<lambda>s' _. ?P s') (\<lambda>_ _. False)" for m
  proof -
    have "(\<exists>s' a. set_owner p g m s = Some (s', Inr a) \<and> ?P s') \<or> (\<exists>s' e. set_owner p g m s = Some (s', Inl e) \<and> ?P s')"
      by (rule outcome_run [OF keepsD [OF keep P]])
    moreover have "set_owner p g m s \<noteq> Some (s', Inl e)" for s' e
      by (auto simp: set_owner_def on_result_def ret_def split: option.splits)
    ultimately show ?thesis by (auto simp: outcome_def)
  qed
  have one: "outcome (own_entry readOnly g p) s (\<lambda>s' _. ?P s') (\<lambda>_ _. False)"
    unfolding own_entry_def Let_def outcome_gets st(1) using so P by (cases nd) (auto simp: outcome_ret)
  show ?case
    unfolding own_entries.simps using one
  proof (rule and_then_outcome)
    fix s' assume "?P s'"
    then show "outcome (own_entries readOnly g ps) s' (\<lambda>s' _. traced T Q s') (\<lambda>_ _. False)"
      using Cons.prems(2) by (intro Cons.IH) (auto simp: traced_def)
  qed
qed (simp add: outcome_ret)

lemma all_below_root: "filter (prefix []) ps = ps"
  by (simp add: filter_id_conv)

lemma root_stat: "fs_ok fs \<Longrightarrow> \<exists>nd. os_Lstat fs [] = Inr nd"
  by (auto simp: os_Lstat_def node_at_def fs_ok_def is_dir_iff)

lemma outcome_SetVolumeOwnership:
  assumes "attr_free Q" and "\<And>tr fs. T tr \<Longrightarrow> Q fs \<Longrightarrow> T (tr @ [fs])" and "\<And>fs. Q fs \<Longrightarrow> fs_ok fs" and "traced T Q s"
  shows "outcome (SetVolumeOwnership [] readOnly fsGroup) s (\<lambda>s' _. traced T Q s') (\<lambda>_ _. False)"
proof (cases fsGroup)
  case (Some g)
  have "shape (os_files s) p \<noteq> None" if "p \<in> set (sort (walk_paths (os_files s)))" for p
    using that shape_facts(2) [of "os_files s" p] by (auto simp: walk_paths_def mget_None_iff)
  note own = outcome_own_entries [OF assms this]
  obtain nd where "os_Lstat (os_files s) [] = Inr nd" using root_stat assms(3,4) by (auto simp: traced_def)
  with own Some show ?thesis by (simp only: SetVolumeOwnership_def outcome_gets option.case sum.case all_below_root)
qed (use assms(4) in \<open>simp add: SetVolumeOwnership_def outcome_ret\<close>)

section \<open>The group owns the files\<close>

definition owned :: "bool \<Rightarrow> int \<Rightarrow> fnode \<Rightarrow> bool" where
  "owned readOnly g nd \<longleftrightarrow>
     (let mask = if readOnly then roMask else rwMask
      in case nd of
           Dir a \<Rightarrow> fa_gid a = g \<and> fa_mode a AND (mask OR ModeSetgid) = mask OR ModeSetgid
         | File d a \<Rightarrow> fa_gid a = g \<and> fa_mode a AND mask = mask
         | Link t \<Rightarrow> True)"

lemma perm_and: "perm m = m AND 0xD001FF"
proof -
  have "take_bit 9 m = m AND 0x1FF" by (simp add: take_bit_eq_mask mask_eq_exp_minus_1)
  then show ?thesis by (simp add: perm_def ModeSetuid_def ModeSetgid_def ModeSticky_def bit.conj_disj_distrib [symmetric])
qed

lemma perm_keeps:
  assumes "x AND 0xD001FF = x"
  shows "perm (m OR x) AND x = x"
proof -
  have "perm (m OR x) AND x = (m OR x) AND (x AND 0xD001FF)" by (simp add: perm_and and.assoc and.commute and.left_commute)
  also have "\<dots> = (x OR m) AND x" by (simp add: assms or.commute)
  finally show ?thesis by (simp add: bit.conj_disj_distrib2 and.assoc or.commute)
qed

lemma own_masks:
  "roMask AND 0xD001FF = roMask" "rwMask AND 0xD001FF = rwMask" "(roMask OR ModeSetgid) AND 0xD001FF = roMask OR ModeSetgid"
  "(rwMask OR ModeSetgid) AND 0xD001FF = rwMask OR ModeSetgid"
  by (simp_all add: roMask_def rwMask_def ModeSetgid_def)

lemma set_owner_done:
  assumes "fs_ok (os_files s)" and "os_faults s = []" and "mget (os_files s) p = Some nd" and "\<And>t. nd \<noteq> Link t"
  shows "\<exists>s' nd'. set_owner p g m s = Some (s', Inr ()) \<and> os_faults s' = [] \<and> fs_ok (os_files s') \<and> mget (os_files s') p = Some nd' \<and>
    (\<forall>q. q \<noteq> p \<longrightarrow> mget (os_files s') q = mget (os_files s) q) \<and>
    (case nd of Dir a \<Rightarrow> nd' = Dir \<lparr>fa_mode = perm m, fa_gid = g\<rparr> | File d a \<Rightarrow> nd' = File d \<lparr>fa_mode = perm m, fa_gid = g\<rparr> | Link t \<Rightarrow> False)"
proof -
  from chown.call_done [OF assms, of g] obtain s1 nd1 where s1: "os_Chown p g s = Some (s1, Inr ())" "fs_ok (os_files s1)" "os_faults s1 = []"
    "mget (os_files s1) p = Some nd1" "\<forall>q. q \<noteq> p \<longrightarrow> mget (os_files s1) q = mget (os_files s) q"
    and nd1: "nd1 = change_attr (\<lambda>a. a\<lparr>fa_gid := g\<rparr>) (\<lambda>a. \<lparr>fa_mode = chown_mode (fa_mode a), fa_gid = g\<rparr>) nd" by blast
  have "nd1 \<noteq> Link t" for t using assms(4) by (cases nd) (simp_all add: nd1 change_attr_def)
  from chmod.call_done [OF s1(2-4) this, of m] obtain s2 where s2: "os_Chmod p m s1 = Some (s2, Inr ())" "fs_ok (os_files s2)" "os_faults s2 = []"
    "mget (os_files s2) p = Some (change_attr (\<lambda>a. a\<lparr>fa_mode := perm m\<rparr>) (\<lambda>a. a\<lparr>fa_mode := perm m\<rparr>) nd1)"
    "\<forall>q. q \<noteq> p \<longrightarrow> mget (os_files s2) q = mget (os_files s1) q" by blast
  have "set_owner p g m s = Some (s2, Inr ())" using s1(1) s2(1) by (simp add: set_owner_def on_result_def ret_def)
  then show ?thesis using s1(5) s2(2-5) assms(4) by (cases nd) (auto simp: nd1 change_attr_def)
qed

lemma own_entry_done:
  assumes "fs_ok (os_files s)" and "os_faults s = []" and "mget (os_files s) p = Some nd"
  shows "\<exists>s' nd'. own_entry readOnly g p s = Some (s', Inr ()) \<and> os_faults s' = [] \<and> fs_ok (os_files s') \<and> mget (os_files s') p = Some nd' \<and> owned readOnly g nd' \<and>
    (\<forall>q. q \<noteq> p \<longrightarrow> mget (os_files s') q = mget (os_files s) q)"
proof -
  let ?mask = "if readOnly then roMask else rwMask"
  have st: "os_Lstat (os_files s) p = Inr nd" using namei_entry [OF assms(1), of p] assms(3) by (simp add: os_Lstat_def node_at_def)
  show ?thesis
  proof (cases nd)
    case (Link t)
    then show ?thesis using st assms by (simp add: own_entry_def gets_def ret_def owned_def)
  next
    case (Dir a)
    from set_owner_done [OF assms, of g "fa_mode a OR (?mask OR ModeSetgid)"] Dir st show ?thesis
      by (auto simp: own_entry_def gets_def owned_def perm_keeps own_masks)
  next
    case (File d a)
    from set_owner_done [OF assms, of g "fa_mode a OR ?mask"] File st show ?thesis
      by (auto simp: own_entry_def gets_def owned_def perm_keeps own_masks)
  qed
qed

lemma own_entries_done:
  "fs_ok (os_files s) \<Longrightarrow> os_faults s = [] \<Longrightarrow> (\<And>p. p \<in> set ps \<Longrightarrow> mget (os_files s) p \<noteq> None) \<Longrightarrow>
   (\<And>p nd. p \<in> done \<Longrightarrow> mget (os_files s) p = Some nd \<Longrightarrow> owned readOnly g nd) \<Longrightarrow>
   outcome (own_entries readOnly g ps) s
     (\<lambda>s' _. os_faults s' = [] \<and> (\<forall>p nd. p \<in> done \<union> set ps \<longrightarrow> mget (os_files s') p = Some nd \<longrightarrow> owned readOnly g nd)) (\<lambda>_ _. False)"
proof (induction ps arbitrary: s "done")
  case (Cons p ps)
  obtain nd where "mget (os_files s) p = Some nd" using Cons.prems(3) [of p] by auto
  from own_entry_done [OF Cons.prems(1,2) this, of readOnly g] obtain s' nd' where s': "own_entry readOnly g p s = Some (s', Inr ())"
    "os_faults s' = []" "fs_ok (os_files s')" "mget (os_files s') p = Some nd'" "owned readOnly g nd'"
    "\<forall>q. q \<noteq> p \<longrightarrow> mget (os_files s') q = mget (os_files s) q" by blast
  have "outcome (own_entries readOnly g ps) s' (\<lambda>s' _. os_faults s' = [] \<and>
      (\<forall>q nd. q \<in> insert p done \<union> set ps \<longrightarrow> mget (os_files s') q = Some nd \<longrightarrow> owned readOnly g nd)) (\<lambda>_ _. False)"
  proof (rule Cons.IH [OF s'(3,2)])
    show "mget (os_files s') q \<noteq> None" if "q \<in> set ps" for q using that s'(4,6) Cons.prems(3) [of q] by (cases "q = p") auto
    show "owned readOnly g nd" if "q \<in> insert p done" "mget (os_files s') q = Some nd" for q nd
      using that s'(4-6) Cons.prems(4) [of q nd] by (cases "q = p") auto
  qed
  then show ?case by (simp add: outcome_and_then outcome_def [of "own_entry readOnly g p"] s'(1))
qed (simp add: outcome_ret)

lemma SetVolumeOwnership_done:
  assumes "aw_inv (os_files s)" and "os_faults s = []"
  shows "outcome (SetVolumeOwnership [] readOnly fsGroup) s
    (\<lambda>s' _. aw_inv (os_files s') \<and> data_of (os_files s') = data_of (os_files s) \<and> os_faults s' = [] \<and>
       (\<forall>g p nd. fsGroup = Some g \<longrightarrow> mget (os_files s') p = Some nd \<longrightarrow> owned readOnly g nd)) (\<lambda>_ _. False)"
proof (cases fsGroup)
  case (Some g)
  have ok: "fs_ok (os_files s)" using assms(1) by (simp add: aw_inv_def)
  let ?Q = "\<lambda>fs. aw_inv fs \<and> data_of fs = data_of (os_files s) \<and> shape fs = shape (os_files s)"
    and ?ps = "sort (walk_paths (os_files s))"
  have free: "attr_free ?Q" unfolding attr_free_def using aw_inv_shape by metis
  have all: "p \<in> set ?ps \<longleftrightarrow> mget (os_files s) p \<noteq> None" for p by (auto simp: walk_paths_def mget_None_iff)
  have "outcome (SetVolumeOwnership [] readOnly fsGroup) s (\<lambda>s' _. traced (\<lambda>_. True) ?Q s') (\<lambda>_ _. False)"
    by (rule outcome_SetVolumeOwnership [OF free]) (use assms(1) in \<open>auto simp: traced_def aw_inv_def\<close>)
  moreover have "outcome (SetVolumeOwnership [] readOnly fsGroup) s (\<lambda>s' _. os_faults s' = [] \<and>
      (\<forall>p nd. p \<in> {} \<union> set ?ps \<longrightarrow> mget (os_files s') p = Some nd \<longrightarrow> owned readOnly g nd)) (\<lambda>_ _. False)"
    using root_stat [OF ok] all own_entries_done [OF ok assms(2), of ?ps "{}" readOnly g] by (auto simp: SetVolumeOwnership_def Some outcome_gets all_below_root)
  ultimately show ?thesis
  proof (rule outcome_mono [OF outcome_conj])
    fix s' and u :: unit
    assume o: "traced (\<lambda>_. True) ?Q s' \<and> os_faults s' = [] \<and> (\<forall>p nd. p \<in> {} \<union> set ?ps \<longrightarrow> mget (os_files s') p = Some nd \<longrightarrow> owned readOnly g nd)"
    have "p \<in> set ?ps" if "mget (os_files s') p = Some nd" for p nd
      using that o all [of p] shape_facts(2) [of "os_files s" p] shape_facts(2) [of "os_files s'" p] by (auto simp: traced_def)
    with o show "aw_inv (os_files s') \<and> data_of (os_files s') = data_of (os_files s) \<and> os_faults s' = [] \<and>
        (\<forall>g p nd. fsGroup = Some g \<longrightarrow> mget (os_files s') p = Some nd \<longrightarrow> owned readOnly g nd)" by (auto simp: traced_def Some)
  qed simp
qed (use assms in \<open>simp add: SetVolumeOwnership_def outcome_ret\<close>)

section \<open>Config maps and secrets\<close>

text \<open>Keys that the API server accepts, and that are not reserved.\<close>

definition simple_key :: "string \<Rightarrow> bool" where
  "simple_key k \<longleftrightarrow> k \<notin> {[], ''.''} \<and> CHR ''/'' \<notin> set k \<and> \<not> hidden k \<and> length k \<le> maxFileNameLength"

lemma simple_key_path:
  assumes "simple_key k"
  shows "validatePath k = None" and "path_elems (path_Clean k) = [k]"
proof -
  have split: "strings_Split k (CHR ''/'') = [k]" using assms by (simp add: simple_key_def strings_Split_notin)
  have "k \<noteq> ''..''" "hd k \<noteq> CHR ''/''" using assms by (auto simp: simple_key_def hidden_def dest: hd_in_set)
  then show v: "validatePath k = None"
    using assms split by (simp add: validatePath_def simple_key_def maxFileNameLength_def maxPathLength_def)
  show "path_elems (path_Clean k) = [k]"
    using validatePath_elems(1) [OF v] split assms by (simp add: path_elems_def simple_key_def)
qed

lemma validatePayload_simple:
  "(\<And>k. k \<in> fst ` set payload \<Longrightarrow> simple_key k) \<Longrightarrow> mwf payload \<Longrightarrow>
   \<exists>clean. validatePayload_loop payload acc = Inr clean \<and>
     (\<forall>p. mget clean p = (case p of [k] \<Rightarrow> (case mget payload k of None \<Rightarrow> mget acc p | Some f \<Rightarrow> Some f) | _ \<Rightarrow> mget acc p))"
proof (induction payload arbitrary: acc)
  case (Cons e rest)
  obtain k f where e: "e = (k, f)" by (cases e)
  have k: "simple_key k" "k \<notin> fst ` set rest" "mwf rest" using Cons.prems by (auto simp: e mwf_def)
  then have n: "mget rest k = None" by (simp add: mget_None_iff)
  obtain clean where v: "validatePayload_loop rest (mput [k] f acc) = Inr clean"
    and g: "\<forall>p. mget clean p = (case p of [k'] \<Rightarrow> (case mget rest k' of None \<Rightarrow> mget (mput [k] f acc) p | Some f \<Rightarrow> Some f) | _ \<Rightarrow> mget (mput [k] f acc) p)"
    using Cons.IH [of "mput [k] f acc"] Cons.prems(1) k(3) by (auto simp: e)
  have "mget clean p = (case p of [k'] \<Rightarrow> (case mget (e # rest) k' of None \<Rightarrow> mget acc p | Some f \<Rightarrow> Some f) | _ \<Rightarrow> mget acc p)" for p
    using g n by (cases p; cases "tl p") (auto simp: e gm.get_put split: option.split)
  then show ?case using simple_key_path [OF k(1)] v by (simp add: e)
qed (auto split: list.splits)

lemma all_keys_get:
  "mwf data \<Longrightarrow> mget (all_keys data mode acc) k = (case mget data k of None \<Rightarrow> mget acc k | Some d \<Rightarrow> Some \<lparr>fp_Data = d, fp_Mode = mode\<rparr>)"
proof (induction data mode acc rule: all_keys.induct)
  case (2 name data rest mode payload)
  then have "mget rest name = None" "mwf rest" by (auto simp: mget_None_iff mwf_def)
  with 2 show ?case by (auto simp: gm.get_put split: option.split)
qed simp

lemma mwf_all_keys: "mwf acc \<Longrightarrow> mwf (all_keys data mode acc)"
  by (induction data mode acc rule: all_keys.induct) simp_all

text \<open>The file of each key.\<close>

lemma projected_payload:
  assumes "mwf data" and "\<And>k. k \<in> fst ` set data \<Longrightarrow> simple_key k"
  shows "\<exists>clean. validatePayload (all_keys data mode []) = Inr clean \<and>
    (\<forall>p. mget clean p = (case p of [k] \<Rightarrow> map_option (\<lambda>d. \<lparr>fp_Data = d, fp_Mode = mode\<rparr>) (mget data k) | _ \<Rightarrow> None))"
proof -
  let ?p = "all_keys data mode []"
  have get: "mget ?p k = map_option (\<lambda>d. \<lparr>fp_Data = d, fp_Mode = mode\<rparr>) (mget data k)" for k
    using all_keys_get [OF assms(1), of mode "[]" k] by (simp split: option.splits)
  have w: "mwf ?p" by (simp add: mwf_all_keys)
  have "simple_key k" if "k \<in> fst ` set ?p" for k
  proof -
    have "mget ?p k \<noteq> None" using that by (simp add: mget_None_iff)
    then have "mget data k \<noteq> None" by (simp add: get)
    then show ?thesis using assms(2) [of k] by (simp add: mget_None_iff)
  qed
  from validatePayload_simple [OF this w, of "[]"] obtain clean where "validatePayload_loop ?p [] = Inr clean"
    "\<forall>p. mget clean p = (case p of [k] \<Rightarrow> (case mget ?p k of None \<Rightarrow> mget [] p | Some f \<Rightarrow> Some f) | _ \<Rightarrow> mget [] p)" by blast
  then show ?thesis by (intro exI [of _ clean]) (auto simp: validatePayload_def get split: list.splits option.splits)
qed

text \<open>Writing a payload and setting the ownership, when no call fails.\<close>

lemma write_payload_done:
  assumes "aw_inv (os_files s)" and "os_trace s = []" and "os_faults s = []" and "validatePayload payload = Inr clean"
    and "\<forall>p \<in> fst ` set clean. path_visible p \<and> (mget (os_files s) p = None \<or> read_data (os_files s) p \<noteq> None)"
    and "\<forall>p \<in> fst ` set clean. \<forall>q t. strict_prefix q p \<longrightarrow> q \<notin> fst ` set clean \<and> mget (os_files s) q \<noteq> Some (Link t)"
    and "mget (os_files s) [newDataDirName] = None"
    and "hidden ts" and "ts \<notin> {''..'', dataDirName, newDataDirName}" and "mget (os_files s) [ts] = None"
  shows "outcome (write_payload ts payload fsGroup) s
    (\<lambda>s' _. aw_inv (os_files s') \<and> (\<forall>p. readable p \<longrightarrow> read_data (os_files s') p = payload_data clean p) \<and>
      (\<forall>g p nd. fsGroup = Some g \<longrightarrow> mget (os_files s') p = Some nd \<longrightarrow> owned True g nd)) (\<lambda>_ _. False)"
proof -
  have "is_dir (os_files s) []" using assms(1) by (simp add: aw_inv_def fs_ok_def)
  then have "NewAtomicWriter (os_files s) = None" by (auto simp: NewAtomicWriter_def os_Stat_def node_at_def is_dir_iff)
  then show ?thesis
    unfolding write_payload_def outcome_and_then outcome_gets using Write_visible [OF assms]
    by (auto simp: outcome_ret read_data_eq readable_def elim!: outcome_mono intro!: outcome_mono [OF SetVolumeOwnership_done])
qed

text \<open>
  C12: A config map or secret volume shows its source. Once the wrapped volume is there, and if no call fails, setting up a volume
  without item mappings ends without error; then a path can be read if and only if it is a key of the config map or secret, with the content
  of that key, and if the pod has a group then every file and directory belongs to it and is open to it for reading. The keys are
  names that the API server accepts, and the volume is in the state in which a successful set-up leaves it.
\<close>

theorem projected_volume_ready:
  assumes "wrapped_SetUpAt host b fsGroup s = Some (s1, Inr ())" and "aw_inv (os_files s1)" and "os_trace s1 = []" and "os_faults s1 = []"
    and "ph_GetConfigMap host = Some get \<and> setup = configMap_SetUpAt \<or> ph_GetSecret host = Some get \<and> setup = secret_SetUpAt"
    and "get (pj_Namespace b) (ps_Name source) = Inr data" and "mwf data"
    and "\<forall>k \<in> fst ` set data. simple_key k \<and> (mget (os_files s1) [k] = None \<or> read_data (os_files s1) [k] \<noteq> None)"
    and "ps_Items source = []" and "ps_DefaultMode source = Some mode" and "mget (os_files s1) [newDataDirName] = None"
    and "hidden ts" and "ts \<notin> {''..'', dataDirName, newDataDirName}" and "mget (os_files s1) [ts] = None"
  shows "\<exists>s'. setup host b source ts fsGroup s = Some (s', Inr ()) \<and> aw_inv (os_files s') \<and>
    (\<forall>p. readable p \<longrightarrow> read_data (os_files s') p = (case p of [k] \<Rightarrow> mget data k | _ \<Rightarrow> None)) \<and>
    (\<forall>g p nd. fsGroup = Some g \<longrightarrow> mget (os_files s') p = Some nd \<longrightarrow> owned True g nd)"
proof -
  let ?payload = "all_keys data mode []"
  obtain clean where v: "validatePayload ?payload = Inr clean"
    and g: "\<forall>p. mget clean p = (case p of [k] \<Rightarrow> map_option (\<lambda>d. \<lparr>fp_Data = d, fp_Mode = mode\<rparr>) (mget data k) | _ \<Rightarrow> None)"
    using projected_payload [OF assms(7)] assms(8) by blast
  have keys: "\<exists>k. p = [k] \<and> k \<in> fst ` set data" if "p \<in> fst ` set clean" for p
  proof -
    have "mget clean p \<noteq> None" using that by (simp add: mget_None_iff)
    then obtain k where "p = [k]" "mget data k \<noteq> None" using g by (cases p; cases "tl p") auto
    then show ?thesis by (simp add: mget_None_iff)
  qed
  have root: "is_dir (os_files s1) []" using assms(2) by (simp add: aw_inv_def fs_ok_def)
  have p: "\<forall>p \<in> fst ` set clean. path_visible p \<and> (mget (os_files s1) p = None \<or> read_data (os_files s1) p \<noteq> None)"
    using keys assms(8) by (fastforce simp: path_visible_def simple_key_def)
  have q: "\<forall>p \<in> fst ` set clean. \<forall>q t. strict_prefix q p \<longrightarrow> q \<notin> fst ` set clean \<and> mget (os_files s1) q \<noteq> Some (Link t)"
  proof (intro ballI allI impI)
    fix p q t assume p: "p \<in> fst ` set clean" "strict_prefix q p"
    then have "q = []" using keys [OF p(1)] by (auto simp: strict_prefix_def prefix_Cons)
    then show "q \<notin> fst ` set clean \<and> mget (os_files s1) q \<noteq> Some (Link t)" using keys [of "[]"] root by (auto simp: is_dir_iff)
  qed
  have data: "payload_data clean p = (case p of [k] \<Rightarrow> mget data k | _ \<Rightarrow> None)" for p
    using g by (auto simp: payload_data_def option.map_comp comp_def option.map_ident split: list.split)
  from outcome_run [OF write_payload_done [OF assms(2-4) v p q assms(11-14), of fsGroup]]
  obtain s' where s': "write_payload ts ?payload fsGroup s1 = Some (s', Inr ())" "aw_inv (os_files s')"
    "\<forall>p. readable p \<longrightarrow> read_data (os_files s') p = payload_data clean p"
    "\<forall>g p nd. fsGroup = Some g \<longrightarrow> mget (os_files s') p = Some nd \<longrightarrow> owned True g nd" by auto
  have "setup host b source ts fsGroup s = write_payload ts ?payload fsGroup s1"
    using assms(1,5,6,9,10)
    by (auto simp: configMap_SetUpAt_def secret_SetUpAt_def configMap_makePayload_def secret_makePayload_def makePayload_def go_simps and_then_def [of "wrapped_SetUpAt host b fsGroup"] ret_def)
  with s' data show ?thesis by simp
qed

section \<open>Sample volumes\<close>

definition sample_host :: "key_data \<Rightarrow> projected_host" where
  "sample_host data = \<lparr>ph_NewWrapperMounter = \<lambda>_ _. Inr (\<lambda>_. ret ()), ph_NewWrapperUnmounter = \<lambda>_ _. Inr (ret ()),
     ph_GetConfigMap = Some (\<lambda>_ _. Inr data), ph_GetSecret = Some (\<lambda>_ _. Inr data)\<rparr>"

definition sample_vol :: projected_volume where
  "sample_vol = \<lparr>pj_volName = ''v'', pj_podUID = ''u'', pj_Namespace = ''ns''\<rparr>"

definition sample_source :: ProjectedVolumeSource where
  "sample_source = \<lparr>ps_Name = ''s'', ps_Items = [], ps_DefaultMode = Some 0x100\<rparr>"

theorem projected_volume_ready_witness:
  "\<exists>s'. secret_SetUpAt (sample_host [(''a'', ''2''), (''key.pem'', ''x'')]) sample_vol sample_source ''..t2'' (Some 1000) (sample_os sample_volume []) =
      Some (s', Inr ()) \<and>
    (\<forall>p. readable p \<longrightarrow> read_data (os_files s') p = (case p of [k] \<Rightarrow> mget [(''a'', ''2''), (''key.pem'', ''x'')] k | _ \<Rightarrow> None)) \<and>
    (\<forall>p nd. mget (os_files s') p = Some nd \<longrightarrow> owned True 1000 nd)"
proof -
  let ?data = "[(''a'', ''2''), (''key.pem'', ''x'')]" and ?s = "sample_os sample_volume []"
  let ?host = "sample_host ?data" and ?get = "\<lambda>_ _. Inr [(''a'', ''2''), (''key.pem'', ''x'')]"
  have w: "wrapped_SetUpAt ?host sample_vol (Some 1000) ?s = Some (?s, Inr ())"
    by (simp add: wrapped_SetUpAt_def sample_host_def go_simps ret_def)
  have inv: "aw_inv (os_files ?s)" "os_trace ?s = []" "os_faults ?s = []" by (simp_all add: sample_os_def sample_volume_ok)
  have h: "ph_GetConfigMap ?host = Some ?get \<and> secret_SetUpAt = configMap_SetUpAt \<or> ph_GetSecret ?host = Some ?get \<and> secret_SetUpAt = secret_SetUpAt"
    by (simp add: sample_host_def)
  have k: "\<forall>k \<in> fst ` set ?data. simple_key k \<and> (mget (os_files ?s) [k] = None \<or> read_data (os_files ?s) [k] \<noteq> None)"
    and n: "mwf ?data" "mget (os_files ?s) [newDataDirName] = None" "hidden ''..t2''" "''..t2'' \<notin> {''..'', dataDirName, newDataDirName}"
      "mget (os_files ?s) [''..t2''] = None" by code_simp+
  have m: "ps_Items sample_source = []" "ps_DefaultMode sample_source = Some 0x100" by (simp_all add: sample_source_def)
  from projected_volume_ready [OF w inv h refl n(1) k m n(2-5)] show ?thesis by blast
qed

section \<open>An update and the group\<close>

text \<open>What a process of the group reads that is not the owner.\<close>

definition group_reads :: "int \<Rightarrow> files \<Rightarrow> fpath \<Rightarrow> string option" where
  "group_reads g fs p =
     (case os_Stat fs p of
        Inr (File d a) \<Rightarrow>
          if (if fa_gid a = g then fa_mode a AND 0x20 \<noteq> 0 else fa_mode a AND 0x4 \<noteq> 0) then Some d else None
      | _ \<Rightarrow> None)"


section \<open>Labels and annotations as files\<close>

lemma quote_no_newline: "CHR 0x0A \<notin> set (go_quote s)"
proof -
  have "hex_digit n \<noteq> CHR 0x0A" if "n < 16" for n
    using that by (auto simp: hex_digit_def char_eq_nat simp del: of_char_eq_iff)
  then have "CHR 0x0A \<notin> set (quote_char c)" for c
    by (auto simp: quote_char_def Let_def char_eq_nat of_char_eq_iff [symmetric] less_mult_imp_div_less simp del: of_char_eq_iff)
  then show ?thesis by (auto simp: go_quote_def)
qed

text \<open>Keys of labels and annotations.\<close>

definition map_keys_ok :: "(string, string) gomap \<Rightarrow> bool" where
  "map_keys_ok m \<longleftrightarrow> mwf m \<and> (\<forall>k \<in> fst ` set m. CHR ''='' \<notin> set k \<and> CHR 0x0A \<notin> set k)"

lemma map_line_inj: "map_keys_ok m \<Longrightarrow> map_keys_ok m' \<Longrightarrow> kv \<in> set m \<Longrightarrow> kv' \<in> set m' \<Longrightarrow> map_line kv = map_line kv' \<Longrightarrow> kv = kv'"
  using split_at_first_inj [of "CHR ''=''" "fst kv" "fst kv'"] go_quote_inj by (auto simp: map_line_def map_keys_ok_def prod_eq_iff)

lemma FormatMap_lines: "FormatMap m = strings_Join (map map_line m) [CHR 0x0A]"
proof (cases "m = []")
  case False
  have "concat (map (\<lambda>kv. map_line kv @ [CHR 0x0A]) m) = strings_Join (map map_line m) [CHR 0x0A] @ [CHR 0x0A]" using False
  proof (induction m)
    case (Cons kv m)
    then show ?case by (cases m) simp_all
  qed simp
  then show ?thesis by (simp add: FormatMap_def strings_TrimSuffix_def)
qed (simp add: FormatMap_def strings_TrimSuffix_def)

text \<open>The lines of the file before they are sorted.\<close>

definition map_lines :: "(string, string) gomap \<Rightarrow> string list" where
  "map_lines m = (if m = [] then [[]] else map map_line m)"

lemma split_FormatMap:
  assumes "map_keys_ok m"
  shows "strings_Split (FormatMap m) (CHR 0x0A) = map_lines m" and "list_all (\<lambda>l. CHR 0x0A \<notin> set l) (map_lines m)"
proof -
  show "list_all (\<lambda>l. CHR 0x0A \<notin> set l) (map_lines m)"
    using assms quote_no_newline by (auto simp: map_lines_def list_all_iff map_line_def map_keys_ok_def)
  then show "strings_Split (FormatMap m) (CHR 0x0A) = map_lines m"
    using strings_Split_Join [of "map map_line m" "CHR 0x0A"] by (auto simp: FormatMap_lines map_lines_def)
qed

lemma sortLines_eq:
  assumes "map_keys_ok m" and "map_keys_ok m'"
  shows "sortLines (FormatMap m) = sortLines (FormatMap m') \<longleftrightarrow> mset (map_lines m) = mset (map_lines m')"
proof -
  have lines: "strings_Split (sortLines (FormatMap m)) (CHR 0x0A) = sort (map_lines m)" if "map_keys_ok m" for m
  proof -
    have "map_lines m \<noteq> []" by (simp add: map_lines_def)
    then have "sort (map_lines m) \<noteq> []" by (metis length_0_conv length_sort)
    with split_FormatMap [OF that] strings_Split_Join [of "sort (map_lines m)" "CHR 0x0A"] show ?thesis
      by (simp add: sortLines_def list_all_iff)
  qed
  show ?thesis
  proof
    assume "sortLines (FormatMap m) = sortLines (FormatMap m')"
    then have "sort (map_lines m) = sort (map_lines m')" using lines [OF assms(1)] lines [OF assms(2)] by simp
    then show "mset (map_lines m) = mset (map_lines m')" by (metis mset_sort)
  next
    assume "mset (map_lines m) = mset (map_lines m')"
    then have "sort (map_lines m) = sort (map_lines m')" by (metis mset_sort properties_for_sort sorted_sort)
    then show "sortLines (FormatMap m) = sortLines (FormatMap m')" using split_FormatMap(1) assms by (simp add: sortLines_def)
  qed
qed

text \<open>
  C28: The file of labels or annotations says exactly what the labels or annotations are. Two maps give the same file if and
  only if they have the same entries: the order in which Go visits the map does not matter, so a refresh without a change does not write,
  and every change is written. Keys contain neither an equals sign nor a newline.
\<close>

theorem downward_map_file:
  assumes "map_keys_ok m" and "map_keys_ok m'"
  shows "sortLines (FormatMap m) = sortLines (FormatMap m') \<longleftrightarrow> (\<forall>k. mget m k = mget m' k)"
proof -
  have sets: "(\<forall>k. mget m k = mget m' k) \<longleftrightarrow> set m = set m'"
    using gm.entries_get [of m] gm.entries_get [of m'] assms by (auto simp: map_keys_ok_def) (metis not_None_eq)+
  have d: "distinct (map map_line m)" if "map_keys_ok m" for m
    using that map_line_inj [OF that that] by (auto simp: distinct_map inj_on_def map_keys_ok_def mwf_def)
  have sub: "set a \<subseteq> set c" if ok: "map_keys_ok a" "map_keys_ok c" and img: "map_line ` set a \<subseteq> map_line ` set c" for a c
  proof
    fix kv assume kv: "kv \<in> set a"
    have "map_line kv \<in> map_line ` set c" by (rule subsetD [OF img imageI [OF kv]])
    then obtain kv' where "map_line kv = map_line kv'" "kv' \<in> set c" by (rule imageE)
    with map_line_inj [OF ok kv] show "kv \<in> set c" by simp
  qed
  have "mset (map_lines m) = mset (map_lines m') \<longleftrightarrow> set m = set m'"
  proof
    assume eq: "mset (map_lines m) = mset (map_lines m')"
    then have l: "set (map_lines m) = set (map_lines m')" by (rule mset_eq_setD)
    have "[] \<in> set (map_lines m) \<longleftrightarrow> m = []" for m by (auto simp: map_lines_def map_line_def)
    then have "m = [] \<longleftrightarrow> m' = []" using l by metis
    then have "map_line ` set m = map_line ` set m'" using l by (auto simp: map_lines_def split: if_splits)
    then show "set m = set m'" using sub assms by (metis subset_antisym order.refl)
  next
    assume eq: "set m = set m'"
    then have "mset (map map_line m) = mset (map map_line m')"
      using d [OF assms(1)] d [OF assms(2)] by (intro set_eq_iff_mset_eq_distinct [THEN iffD1]) auto
    then show "mset (map_lines m) = mset (map_lines m')" using eq by (auto simp: map_lines_def)
  qed
  with sets show ?thesis by (simp add: sortLines_eq [OF assms])
qed

theorem downward_map_file_witness:
  "sortLines (FormatMap [(''b'', ''2''), (''a/x'', ''1'')]) = sortLines (FormatMap [(''a/x'', ''1''), (''b'', ''2'')]) \<and>
   map_keys_ok [(''b'', ''2''), (''a/x'', ''1'')] \<and> map_keys_ok [(''a/x'', ''1''), (''b'', ''2'')]"
proof -
  have k: "map_keys_ok [(''b'', ''2''), (''a/x'', ''1'')]" "map_keys_ok [(''a/x'', ''1''), (''b'', ''2'')]" by code_simp+
  then show ?thesis using downward_map_file [OF k] by simp
qed

end
