(* ===== verification/Empty_Dir.thy ===== *)
theory Empty_Dir
  imports Projected_Volumes
begin

text \<open>
  Empty-dir volumes (\<open>pkg/volume/empty_dir/empty_dir.go\<close> and \<open>empty_dir_linux.go\<close>) with the ready file of
  \<open>pkg/volume/util/util.go\<close>. Here the files are those below the root directory of the kubelet, and paths lead through no links.
  The mounter and the file system type of a path are fields of a record.
\<close>

section \<open>Definitions\<close>

datatype StorageMedium = StorageMediumDefault | StorageMediumMemory | OtherMedium string

datatype storageMedium = mediumUnknown | mediumMemory

text \<open>\<open>em_isTmpfs\<close> is \<open>syscall.Statfs\<close> with the comparison of the type.\<close>

record ed_mounter =
  em_IsLikelyNotMountPoint :: "fpath \<Rightarrow> os \<Rightarrow> error + bool"
  em_isTmpfs :: "fpath \<Rightarrow> os \<Rightarrow> error + bool"
  em_Mount :: "string \<Rightarrow> fpath \<Rightarrow> string \<Rightarrow> (os, unit) go"
  em_Unmount :: "fpath \<Rightarrow> (os, unit) go"

record emptyDir =
  ed_volName :: string
  ed_medium :: StorageMedium
  ed_path :: fpath
  ed_metaDir :: fpath
  ed_mounter :: ed_mounter

definition ed_perm :: fmode where "ed_perm = 0x1FF"

definition readyFileName :: string where "readyFileName = ''ready''"

definition IsReady :: "files \<Rightarrow> fpath \<Rightarrow> bool" where
  "IsReady fs dir = (case os_Stat fs (dir @ [readyFileName]) of Inr (File d a) \<Rightarrow> True | _ \<Rightarrow> False)"

definition SetReady :: "fpath \<Rightarrow> (os, unit) go" where
  "SetReady dir =
     on_result (MkdirAll 0x1E8 dir) (\<lambda>r.
       if (case r of Inl err \<Rightarrow> err \<noteq> EEXIST | Inr _ \<Rightarrow> False) then ret ()
       else on_result (os_Create 0x1B6 (dir @ [readyFileName])) (\<lambda>_. ret ()))"

definition GetMountMedium :: "ed_mounter \<Rightarrow> fpath \<Rightarrow> os \<Rightarrow> error + storageMedium \<times> bool" where
  "GetMountMedium m path s =
     (case em_IsLikelyNotMountPoint m path s of
        Inl err \<Rightarrow> Inl (Errorf ''IsLikelyNotMountPoint'' (Some err))
      | Inr notMnt \<Rightarrow>
          (case em_isTmpfs m path s of
             Inl err \<Rightarrow> Inl (Errorf ''statfs'' (Some err))
           | Inr tmpfs \<Rightarrow> Inr (if tmpfs then mediumMemory else mediumUnknown, \<not> notMnt)))"

text \<open>The permission bits that \<open>Lstat\<close> reports.\<close>

definition lstat_perm :: "fnode \<Rightarrow> fmode" where
  "lstat_perm nd = (case nd of Dir a \<Rightarrow> take_bit 9 (fa_mode a) | File d a \<Rightarrow> take_bit 9 (fa_mode a) | Link t \<Rightarrow> 0x1FF)"

definition setupDir :: "fpath \<Rightarrow> (os, unit) go" where
  "setupDir dir =
     and_then (MkdirAll ed_perm dir) (\<lambda>_.
     gets (\<lambda>s. case os_Lstat (os_files s) dir of
         Inl err \<Rightarrow> fail err
       | Inr fileinfo \<Rightarrow>
           if lstat_perm fileinfo \<noteq> ed_perm
           then and_then (os_Chmod dir ed_perm) (\<lambda>_.
                gets (\<lambda>s. case os_Lstat (os_files s) dir of Inl err \<Rightarrow> fail err | Inr _ \<Rightarrow> ret ()))
           else ret ()))"

definition setupTmpfs :: "emptyDir \<Rightarrow> fpath \<Rightarrow> (os, unit) go" where
  "setupTmpfs ed dir =
     and_then (setupDir dir) (\<lambda>_.
     gets (\<lambda>s. case GetMountMedium (ed_mounter ed) dir s of
         Inl err \<Rightarrow> fail err
       | Inr (medium, isMnt) \<Rightarrow>
           if isMnt \<and> medium = mediumMemory then ret () else em_Mount (ed_mounter ed) ''tmpfs'' dir ''tmpfs''))"

definition emptyDir_SetUpAt :: "emptyDir \<Rightarrow> fpath \<Rightarrow> int option \<Rightarrow> (os, unit) go" where
  "emptyDir_SetUpAt ed dir fsGroup =
     gets (\<lambda>s.
       let likely = em_IsLikelyNotMountPoint (ed_mounter ed) dir s;
           notMnt = (case likely of Inl err \<Rightarrow> True | Inr b \<Rightarrow> b)
       in case (case likely of Inl err \<Rightarrow> if os_IsNotExist err then None else Some err | Inr _ \<Rightarrow> None) of
            Some err \<Rightarrow> fail err
          | None \<Rightarrow>
              if IsReady (os_files s) (ed_metaDir ed) \<and>
                 (ed_medium ed = StorageMediumMemory \<and> \<not> notMnt \<or> ed_medium ed = StorageMediumDefault)
              then ret ()
              else on_result
                (case ed_medium ed of
                   StorageMediumDefault \<Rightarrow> setupDir dir
                 | StorageMediumMemory \<Rightarrow> setupTmpfs ed dir
                 | OtherMedium m \<Rightarrow> fail (Errorf ''unknown storage medium'' None))
                (\<lambda>r. on_result (SetVolumeOwnership (ed_path ed) False fsGroup) (\<lambda>_.
                   case r of Inl err \<Rightarrow> fail err | Inr _ \<Rightarrow> SetReady (ed_metaDir ed))))"

text \<open>\<open>tmp\<close> is the name that \<open>ioutil.TempDir\<close> chooses.\<close>

definition RenameDirectory :: "fpath \<Rightarrow> string \<Rightarrow> (os, fpath) go" where
  "RenameDirectory oldPath tmp =
     (let newPath = butlast oldPath @ [tmp]
      in and_then (os_Mkdir 0x1C0 newPath) (\<lambda>_.
         and_then (os_Rename oldPath newPath) (\<lambda>_. ret newPath)))"

definition teardownDefault :: "string \<Rightarrow> fpath \<Rightarrow> (os, unit) go" where
  "teardownDefault tmp dir = and_then (RenameDirectory dir tmp) RemoveAll"

definition teardownTmpfs :: "emptyDir \<Rightarrow> fpath \<Rightarrow> (os, unit) go" where
  "teardownTmpfs ed dir = and_then (em_Unmount (ed_mounter ed) dir) (\<lambda>_. RemoveAll dir)"

definition emptyDir_TearDownAt :: "emptyDir \<Rightarrow> string \<Rightarrow> fpath \<Rightarrow> (os, unit) go" where
  "emptyDir_TearDownAt ed tmp dir =
     gets (\<lambda>s. case PathExists (os_files s) dir of
         Inl err \<Rightarrow> fail (Errorf ''Error checking if path exists'' (Some err))
       | Inr False \<Rightarrow> ret ()
       | Inr True \<Rightarrow>
           (case GetMountMedium (ed_mounter ed) dir s of
              Inl err \<Rightarrow> fail err
            | Inr (medium, isMnt) \<Rightarrow>
                if isMnt \<and> medium = mediumMemory then teardownTmpfs ed dir else teardownDefault tmp dir))"

section \<open>Moving and removing a directory\<close>

lemma move_tree_get:
  assumes "\<not> prefix q' p"
  shows "mget (move_tree q q' fs) p = (if prefix q p then None else mget fs p)"
proof -
  have "mget (map (\<lambda>(p, nd). (if prefix q p then q' @ drop (length q) p else p, nd)) fs) p = (if prefix q p then None else mget fs p)" for fs :: files
  proof (induction fs)
    case (Cons e fs)
    obtain k nd where "e = (k, nd)" by (cases e)
    then show ?case using Cons assms by (auto simp: prefix_def)
  qed simp
  moreover have "p \<noteq> q'" using assms by auto
  ultimately show ?thesis by (simp add: move_tree_def gm.get_del)
qed

lemma move_tree_inside:
  assumes "\<And>x. mget fs (q' @ x) \<noteq> None \<Longrightarrow> x = []" and "\<not> prefix q q'"
  shows "mget (move_tree q q' fs) (q' @ x) = mget fs (q @ x)"
proof -
  have "mget (map (\<lambda>(p, nd). (if prefix q p then q' @ drop (length q) p else p, nd)) fs) (q' @ x) = mget fs (q @ x)"
    if "\<forall>k \<in> fst ` set fs. \<not> prefix q' k" for fs :: files
    using that
  proof (induction fs)
    case (Cons e fs)
    obtain k nd where e: "e = (k, nd)" by (cases e)
    show ?case
    proof (cases "prefix q k")
      case True
      then obtain y where "k = q @ y" by (auto simp: prefix_def)
      then show ?thesis using Cons e by auto
    next
      case False
      then have "q' @ x \<noteq> k" "q @ x \<noteq> k" using Cons.prems e by (auto simp: prefix_def)
      then show ?thesis using Cons e False by auto
    qed
  qed simp
  moreover have "\<not> prefix q' k" if "k \<in> fst ` set (mdel q' fs)" for k
  proof
    assume "prefix q' k"
    then obtain y where y: "k = q' @ y" by (auto simp: prefix_def)
    have "mget (mdel q' fs) k \<noteq> None" using that by (simp add: mget_None_iff)
    then show False using assms(1) [of y] y by (auto simp: gm.get_del split: if_splits)
  qed
  moreover have "q @ x \<noteq> q'" using assms(2) by (auto simp: prefix_def)
  ultimately show ?thesis by (simp add: move_tree_def gm.get_del)
qed

lemma moved_tree:
  assumes "fs_ok fs" and "\<And>x. mget fs (q' @ x) \<noteq> None \<Longrightarrow> x = []" and "mget fs q' \<noteq> None" and "\<not> prefix q q'"
    and "prefix q' r" and "mget (move_tree q q' fs) r \<noteq> None"
  shows "''..'' \<notin> set r \<and> (\<forall>y t. strict_prefix y r \<longrightarrow> mget (move_tree q q' fs) y \<noteq> Some (Link t))"
proof -
  obtain x where x: "r = q' @ x" using assms(5) by (auto simp: prefix_def)
  have inside: "mget (move_tree q q' fs) (q' @ x) = mget fs (q @ x)" for x by (rule move_tree_inside [OF assms(2,4)])
  have ex: "mget fs (q @ x) \<noteq> None" using assms(6) x inside [of x] by simp
  have "''..'' \<notin> set r" using fs_ok_names [OF assms(1) ex] fs_ok_names [OF assms(1,3)] by (simp add: x)
  moreover have "mget (move_tree q q' fs) y \<noteq> Some (Link t)" if y: "strict_prefix y r" for y t
  proof (cases "prefix q' y")
    case True
    then obtain x' where x': "y = q' @ x'" by (auto simp: prefix_def)
    then obtain z where z: "y = q' @ x'" "x = x' @ z" "z \<noteq> []" using y x by (auto simp: strict_prefix_def prefix_def)
    then have "is_dir fs (q @ x')" using fs_ok_parent [OF assms(1), of "q @ x'" z] ex by simp
    then show ?thesis using inside [of x'] z(1) by (auto simp: is_dir_iff)
  next
    case False
    then obtain z where z: "q' = y @ z" "z \<noteq> []" using y x prefix_same_cases [of y r q'] by (auto simp: strict_prefix_def prefix_def)
    then have "is_dir fs y" using fs_ok_parent [OF assms(1), of y z] assms(3) by simp
    then show ?thesis using move_tree_get [OF False, of q fs] by (auto simp: is_dir_iff)
  qed
  ultimately show ?thesis by blast
qed

text \<open>A path whose proper prefixes are no links stays what it is.\<close>

lemma namei_inside:
  assumes "\<And>q t. mget fs (cur @ q) = Some (Link t) \<Longrightarrow> q \<noteq> [] \<Longrightarrow> \<not> strict_prefix q p" and "''..'' \<notin> set p"
  shows "namei n fs False cur p = Inr q \<Longrightarrow> q = cur @ p"
  using assms
proof (induction p arbitrary: cur)
  case (Cons e p)
  have l: "p = []" if "mget fs (cur @ [e]) = Some (Link t)" for t
    using Cons.prems(2) [OF that] by (auto simp: strict_prefix_def)
  have step: "namei n fs False (cur @ [e]) p = Inr q \<Longrightarrow> q = (cur @ [e]) @ p"
  proof (rule Cons.IH)
    show "\<not> strict_prefix r p" if "mget fs ((cur @ [e]) @ r) = Some (Link t)" "r \<noteq> []" for r t
      using Cons.prems(2) [of "e # r" t] that by (auto simp: strict_prefix_def)
  qed (use Cons.prems(3) in auto)
  show ?case
    using Cons.prems(1,3) l step by (auto simp: namei.simps(2) split: option.splits fnode.splits if_splits)
qed simp

text \<open>An entry that is not a link, in directories, is what \<open>Stat\<close> finds.\<close>

lemma namei_dirs:
  "(\<And>x. x \<noteq> [] \<Longrightarrow> strict_prefix x p \<Longrightarrow> is_dir fs (cur @ x)) \<Longrightarrow> ''..'' \<notin> set p \<Longrightarrow> (\<And>t. mget fs (cur @ p) \<noteq> Some (Link t)) \<Longrightarrow>
   namei n fs follow cur p = Inr (cur @ p)"
proof (induction p arbitrary: cur)
  case (Cons e p)
  show ?case
  proof (cases "p = []")
    case True
    then show ?thesis using Cons.prems(2,3) by (auto simp: namei.simps(2) split: option.split fnode.split)
  next
    case False
    then obtain m where "mget fs (cur @ [e]) = Some (Dir m)" using Cons.prems(1) [of "[e]"] by (auto simp: is_dir_iff strict_prefix_def)
    moreover have "namei n fs follow (cur @ [e]) p = Inr ((cur @ [e]) @ p)"
    proof (rule Cons.IH)
      show "is_dir fs ((cur @ [e]) @ x)" if "x \<noteq> []" "strict_prefix x p" for x using Cons.prems(1) [of "e # x"] that by simp
    qed (use Cons.prems(2,3) in auto)
    ultimately show ?thesis using Cons.prems(2) by (auto simp: namei.simps(2))
  qed
qed simp

lemma stat_entry:
  assumes "\<And>x. strict_prefix x p \<Longrightarrow> is_dir fs x" and "''..'' \<notin> set p" and "mget fs p = Some nd" and "\<And>t. nd \<noteq> Link t"
  shows "os_Stat fs p = Inr nd"
  using namei_dirs [of p fs "[]" max_links True] assms by (simp add: os_Stat_def node_at_def)

text \<open>Removing a tree leaves the entries outside of it alone, whatever calls fail.\<close>

lemma RemoveAll_outside:
  assumes "\<And>r. prefix p r \<Longrightarrow> mget fs0 r \<noteq> None \<Longrightarrow> ''..'' \<notin> set r \<and> (\<forall>x t. strict_prefix x r \<longrightarrow> mget fs0 x \<noteq> Some (Link t))"
    and "mget fs0 p \<noteq> None" and "\<not> prefix p q"
  shows "keeps (traced (\<lambda>_. True) (\<lambda>fs. (\<forall>r. mget fs r \<noteq> None \<longrightarrow> mget fs r = mget fs0 r) \<and> mget fs q = mget fs0 q)) (RemoveAll p)"
    (is "keeps (traced _ ?Q) _")
proof (rule keeps_RemoveAll_entries [where E = "\<lambda>r. prefix p r \<and> mget fs0 r \<noteq> None"])
  show "prefix p p \<and> mget fs0 p \<noteq> None" using assms(2) by simp
  show "prefix p r \<and> mget fs0 r \<noteq> None" if "traced (\<lambda>_. True) ?Q s" "prefix p r" "mget (os_files s) r \<noteq> None" for s r
    using that by (auto simp: traced_def)
  fix r assume r: "prefix p r \<and> mget fs0 r \<noteq> None"
  then have ne: "r \<noteq> q" using assms(3) by auto
  have dots: "''..'' \<notin> set r" using assms(1) r by blast
  have place: "r' = r" if Q: "?Q fs" and n: "namei max_links fs False [] r = Inr r'" for fs r'
  proof -
    have "\<not> strict_prefix x r" if "mget fs ([] @ x) = Some (Link t)" for x t
      using assms(1) [of r] r Q that by auto
    with namei_inside [of fs "[]" r max_links r'] dots n show ?thesis by auto
  qed
  show "keeps (traced (\<lambda>_. True) ?Q) (os_Remove r)"
    unfolding os_Remove_def
  proof (rule keeps_syscall)
    fix fs fs' assume Q: "?Q fs" and "remove_entry r fs = Inr fs'"
    then have "fs' = mdel r fs" using place [OF Q] by (auto simp: remove_entry_Inr)
    then show "?Q fs'" using Q ne by (auto simp: gm.get_del)
  qed simp
qed

text \<open>A directory that was torn down is gone, and files elsewhere are still there.\<close>

lemma syscall_value: "syscall f s = Some (s', Inr ()) \<Longrightarrow> f (os_files s) = Inr (os_files s')"
  by (auto simp: syscall_def Let_def split: list.splits option.splits sum.splits)

lemma teardownDefault_gone:
  assumes "teardownDefault tmp dir s = Some (s', Inr ())" and "fs_ok (os_files s)" and "is_dir (os_files s) dir" and "dir \<noteq> []" and "tmp \<noteq> ''..''"
    and "\<not> prefix dir q" and "\<not> prefix (butlast dir @ [tmp]) q" and "mget (os_files s) q = Some nd"
  shows "mget (os_files s') dir = None \<and> mget (os_files s') q = Some nd"
proof -
  let ?new = "butlast dir @ [tmp]"
  have par: "is_dir (os_files s) (butlast dir)"
    using fs_ok_parent [OF assms(2), of "butlast dir" "[last dir]"] assms(3,4) by (auto simp: is_dir_iff)
  obtain s1 s2 where mk: "os_Mkdir 0x1C0 ?new s = Some (s1, Inr ())" and mv: "os_Rename dir ?new s1 = Some (s2, Inr ())"
    and rm: "RemoveAll ?new s2 = Some (s', Inr ())"
    using assms(1) by (auto simp: teardownDefault_def RenameDirectory_def Let_def and_then_def ret_def split: option.splits sum.splits)
  obtain nd1 where s1: "os_files s1 = mput ?new nd1 (os_files s)" and free: "mget (os_files s) ?new = None" and nd1: "\<exists>a. nd1 = Dir a"
    using syscall_value [OF mk [unfolded os_Mkdir_def gets_def]] namei_parent [OF assms(2) par assms(5), of max_links False]
    by (auto simp: new_entry_Inr split: option.splits fnode.splits)
  have "dir \<noteq> ?new" "length dir = length ?new" using free assms(3,4) by (auto simp: is_dir_iff)
  then have apart: "dir \<noteq> ?new" "\<not> prefix dir ?new" "\<not> prefix ?new dir" using not_equal_is_parallel by blast+
  have ok1: "fs_ok (os_files s1)" unfolding s1 using assms(2,5) par nd1 by (intro fs_ok_put) auto
  have new1: "mget (os_files s1) dir \<noteq> None" "mget (os_files s1) ?new \<noteq> None" using assms(3) apart(1) by (auto simp: s1 gm.get_put is_dir_iff)
  note place = new1 [THEN namei_entry [OF ok1, of _ max_links]]
  have s2: "os_files s2 = move_tree dir ?new (os_files s1)"
    using syscall_value [OF mv [unfolded os_Rename_def]] place apart(1) assms(3) nd1
    by (auto simp: rename_entry_def s1 gm.get_put is_dir_iff split: if_splits option.splits fnode.splits)
  then have gone: "mget (os_files s2) dir = None" "mget (os_files s2) q = Some nd"
    using apart assms(6-8) by (auto simp: move_tree_get s1 gm.get_put)
  have empty: "x = []" if "mget (os_files s1) (?new @ x) \<noteq> None" for x
    using fs_ok_parent [OF assms(2), of ?new x] that free by (auto simp: s1 gm.get_put is_dir_iff split: if_splits)
  have inside: "mget (os_files s2) (?new @ x) = mget (os_files s1) (dir @ x)" for x
    unfolding s2 by (rule move_tree_inside [OF empty apart(2)])
  have tree: "''..'' \<notin> set r \<and> (\<forall>y t. strict_prefix y r \<longrightarrow> mget (os_files s2) y \<noteq> Some (Link t))"
    if "prefix ?new r" "mget (os_files s2) r \<noteq> None" for r
    unfolding s2 using empty by (rule moved_tree [OF ok1 _ new1(2) apart(2) that(1) that(2) [unfolded s2]])
  have new2: "mget (os_files s2) ?new \<noteq> None" using inside [of "[]"] assms(3) apart(1) by (auto simp: s1 gm.get_put is_dir_iff)
  have "traced (\<lambda>_. True) (\<lambda>fs. (\<forall>r. mget fs r \<noteq> None \<longrightarrow> mget fs r = mget (os_files s2) r) \<and> mget fs p = mget (os_files s2) p) s'"
    if "\<not> prefix ?new p" for p
    using keepsD [OF RemoveAll_outside [OF _ new2 that], of s2] tree rm by (simp add: outcome_def traced_def)
  from this [OF apart(3)] this [OF assms(7)] gone show ?thesis by (simp add: traced_def)
qed

section \<open>A volume that is torn down and set up again\<close>

text \<open>
  C40: An empty-dir volume is not set up again after it was torn down. Tearing down removes the directory but not the ready file;
  when the volume is set up again for the same pod, the ready file is found, success is reported and nothing is done, so there is no directory. This
  holds whatever calls fail. The paths of the volume, of its temporary name and of the ready file are not inside each other,
  the directory is not a memory file system, and asking for a mount point at a missing path gives no error other than not-exist.
\<close>

theorem emptydir_not_set_up_again:
  assumes "ed_medium ed = StorageMediumDefault" and "fs_ok (os_files s)" and "is_dir (os_files s) dir" and "dir \<noteq> []"
    and "mget (os_files s) (ed_metaDir ed @ [readyFileName]) = Some (File d a)"
    and "em_isTmpfs (ed_mounter ed) dir s = Inr False"
    and "emptyDir_TearDownAt ed tmp dir s = Some (s', Inr ())"
    and "tmp \<noteq> ''..''" and "\<not> prefix dir (ed_metaDir ed @ [readyFileName])"
    and "\<not> prefix (butlast dir @ [tmp]) (ed_metaDir ed @ [readyFileName])"
    and "\<And>err. em_IsLikelyNotMountPoint (ed_mounter ed) dir s' = Inl err \<Longrightarrow> os_IsNotExist err"
  shows "mget (os_files s') dir = None \<and> emptyDir_SetUpAt ed dir fsGroup s' = Some (s', Inr ())"
proof -
  let ?ready = "ed_metaDir ed @ [readyFileName]"
  have dirs: "is_dir (os_files s) x" if "strict_prefix x p" "mget (os_files s) p \<noteq> None" for x p
    using fs_ok_parent [OF assms(2), of x] that by (auto simp: strict_prefix_def prefix_def)
  have dots: "''..'' \<notin> set p" if "mget (os_files s) p \<noteq> None" for p by (rule fs_ok_names [OF assms(2) that])
  have td: "teardownDefault tmp dir s = Some (s', Inr ())"
  proof -
    obtain m where m: "mget (os_files s) dir = Some (Dir m)" using assms(3) by (auto simp: is_dir_iff)
    then have "os_Stat (os_files s) dir = Inr (Dir m)" using dirs dots by (intro stat_entry) auto
    then have "PathExists (os_files s) dir = Inr True" by (simp add: PathExists_def)
    then show ?thesis
      using assms(6,7) by (auto simp: emptyDir_TearDownAt_def gets_def GetMountMedium_def fail_def split: sum.splits if_splits)
  qed
  have gone: "mget (os_files s') dir = None \<and> mget (os_files s') x = Some nd" if "prefix x ?ready" "mget (os_files s) x = Some nd" for x nd
    using that assms(9,10) by (intro teardownDefault_gone [OF td assms(2-4,8) _ _ that(2)]) (metis prefix_order.trans)+
  have "is_dir (os_files s') x" if "strict_prefix x ?ready" for x
    using dirs [OF that] gone [of x] that assms(5) by (auto simp: is_dir_iff strict_prefix_def)
  then have "os_Stat (os_files s') ?ready = Inr (File d a)"
    using dots [of ?ready] gone [of ?ready] assms(5) by (intro stat_entry) auto
  then have "IsReady (os_files s') (ed_metaDir ed)" by (simp add: IsReady_def)
  then show ?thesis
    using gone [of ?ready] assms(1,5,11) by (auto simp: emptyDir_SetUpAt_def gets_def ret_def Let_def split: sum.splits)
qed

section \<open>A sample volume\<close>

definition sample_mounter :: ed_mounter where
  "sample_mounter = \<lparr>em_IsLikelyNotMountPoint = (\<lambda>p s. case os_Lstat (os_files s) p of Inl err \<Rightarrow> Inl err | Inr _ \<Rightarrow> Inr True),
     em_isTmpfs = \<lambda>_ _. Inr False, em_Mount = \<lambda>_ _ _. ret (), em_Unmount = \<lambda>_. ret ()\<rparr>"

definition sample_emptyDir :: emptyDir where
  "sample_emptyDir = \<lparr>ed_volName = ''v'', ed_medium = StorageMediumDefault, ed_path = [''pods'', ''u'', ''volumes'', ''v''],
     ed_metaDir = [''pods'', ''u'', ''plugins'', ''v''], ed_mounter = sample_mounter\<rparr>"

text \<open>The files after the volume was set up on a node with nothing on it.\<close>

definition sample_node :: files where
  "sample_node = files_after (emptyDir_SetUpAt sample_emptyDir [''pods'', ''u'', ''volumes'', ''v''] (Some 1000)
     (sample_os [([], Dir (sample_attr 0x1ED))] []))"

lemma sample_node_eq:
  "sample_node = (let d = \<lambda>m g. Dir \<lparr>fa_mode = m, fa_gid = g\<rparr> in
     [([], d 0x1ED 0), ([''pods''], d 0x1ED 0), ([''pods'', ''u''], d 0x1ED 0), ([''pods'', ''u'', ''volumes''], d 0x1ED 0),
      ([''pods'', ''u'', ''volumes'', ''v''], d 0x4001FF 1000), ([''pods'', ''u'', ''plugins''], d 0x1E8 0),
      ([''pods'', ''u'', ''plugins'', ''v''], d 0x1E8 0), ([''pods'', ''u'', ''plugins'', ''v'', ''ready''], File [] \<lparr>fa_mode = 0x1A4, fa_gid = 0\<rparr>)])"
  by code_simp

theorem emptydir_not_set_up_again_witness:
  "\<exists>s'. emptyDir_TearDownAt sample_emptyDir ''v.deleting~1'' [''pods'', ''u'', ''volumes'', ''v''] (sample_os sample_node []) = Some (s', Inr ()) \<and>
     mget (os_files s') [''pods'', ''u'', ''volumes'', ''v''] = None \<and>
     emptyDir_SetUpAt sample_emptyDir [''pods'', ''u'', ''volumes'', ''v''] (Some 1000) s' = Some (s', Inr ())"
proof -
  let ?s = "sample_os sample_node []" and ?dir = "[''pods'', ''u'', ''volumes'', ''v'']"
  let ?r = "emptyDir_TearDownAt sample_emptyDir ''v.deleting~1'' ?dir ?s"
  have "map_option snd ?r = Some (Inr ())" by code_simp
  then obtain s' where t: "?r = Some (s', Inr ())" by (cases ?r) auto
  have m: "ed_medium sample_emptyDir = StorageMediumDefault" "is_dir (os_files ?s) ?dir" "?dir \<noteq> []"
    "em_isTmpfs (ed_mounter sample_emptyDir) ?dir ?s = Inr False" "''v.deleting~1'' \<noteq> ''..''"
    "\<not> prefix ?dir (ed_metaDir sample_emptyDir @ [readyFileName])"
    "\<not> prefix (butlast ?dir @ [''v.deleting~1'']) (ed_metaDir sample_emptyDir @ [readyFileName])" by code_simp+
  have f: "mget (os_files ?s) (ed_metaDir sample_emptyDir @ [readyFileName]) = Some (File [] \<lparr>fa_mode = 0x1A4, fa_gid = 0\<rparr>)" by code_simp
  have ok: "fs_ok (os_files ?s)"
    unfolding fs_ok_def by (auto simp: sample_os_def sample_node_eq mwf_def is_dir_def append_eq_Cons_conv split: if_splits)
  have l: "os_IsNotExist err" if "em_IsLikelyNotMountPoint (ed_mounter sample_emptyDir) ?dir s' = Inl err" for err
  proof -
    have "case ?r of None \<Rightarrow> False
      | Some (s, _) \<Rightarrow> (case em_IsLikelyNotMountPoint (ed_mounter sample_emptyDir) ?dir s of Inl err \<Rightarrow> os_IsNotExist err | Inr _ \<Rightarrow> True)"
      by code_simp
    then show ?thesis using that by (simp add: t)
  qed
  from emptydir_not_set_up_again [OF m(1) ok m(2,3) f m(4) t m(5-7) l, of "Some 1000"] t show ?thesis by blast
qed

end
