(* ===== verification/Spec2Isabelle.thy ===== *)
theory Spec2Isabelle
  imports Goroutine_Map AD_Reconciler NVMEOF Kubelet_Reconstruction Kubelet_Volume_Manager
    PV_Reclaim Reflector Empty_Dir
begin

text \<open>
  Verification of the volume subsystem of the NVMe-over-Fabrics fork of Kubernetes (\<open>src/k8s-nof-poc\<close>;
  all paths below are relative to it).

  \<^bold>\<open>The program.\<close> A pod names volumes. The attach/detach controller of the master decides which
  volume has to be attached to which node and tells the node in its status. The kubelet of the node
  mounts the device of an attached volume once and then binds it into each pod; it tells the master
  through the node status which volumes are in use. Both are built in the same way: a cache of the
  desired state, a cache of the actual state, a populator that keeps the desired state in step with the
  pods, and a reconciler whose passes compare the two caches and start operations. An operation runs in
  its own goroutine, calls a volume plugin, and records the result in the actual state. The operation
  executor admits at most one operation per volume (and pod) and delays retries after errors. The fork
  adds a volume plugin that connects NVMe-over-Fabrics targets, formats and mounts them.

  Before that, a pod names a claim, and the persistent volume controller of the master binds claims to
  volumes: it finds a matching volume or has a plugin provision one, writes each of the two objects so that it names
  the other, and recycles or deletes volumes whose claims are gone. It works from caches of both kinds of objects that
  the informers fill, with one worker per kind that takes keys from a work queue, and it relies on the
  API server to refuse a write that is based on an old version of an object.

  \<^bold>\<open>Theories.\<close>
  \<^item> \<open>Volume_Prelude\<close>: Go maps as association lists with distinct keys (locale \<open>go_map\<close>), errors,
    time with the saturating subtraction of Go. \<open>Go_Strings\<close>: \<open>%q\<close>, \<open>strings.Split/Join/Fields\<close>,
    \<open>path.Clean/Join\<close>, decimal numbers and \<open>strconv.ParseInt/ParseUint\<close>. \<open>Go_Effects\<close>: methods that change
    state and return an error, with weakest preconditions (\<open>outcome\<close>) and kept properties (\<open>keeps\<close>).
    \<open>API_Types\<close>: the objects of \<open>pkg/api/v1\<close> with the fields used here.
  \<^item> \<open>Validation\<close> (\<open>pkg/util/validation\<close>), \<open>Label_Selector\<close> (\<open>pkg/labels\<close>, \<open>pkg/apis/meta/v1/helpers.go\<close>):
    names and label values; a selector that is accepted selects what its documentation says.
  \<^item> \<open>Indexed_Store\<close> (\<open>pkg/client/cache\<close>: \<open>thread_safe_store.go\<close>, \<open>store.go\<close>): a store refines a map, and an
    index lookup is a scan; the locale \<open>object_store\<close> is what its clients use. \<open>Work_Queue\<close>
    (\<open>pkg/util/workqueue/queue.go\<close>): one worker per item, and every added item is handed out.
  \<^item> \<open>Delta_FIFO\<close>, \<open>Informer\<close>, \<open>Reflector\<close> (\<open>pkg/client/cache\<close>: \<open>delta_fifo.go\<close>, \<open>controller.go\<close>, \<open>reflector.go\<close>): the
    way from the API server to the caches of a controller. The queue keeps one list of deltas per object, with
    its invariant and what the deltas settle to; the informer applies them to its store and notifies its handler;
    the reflector lists once and then follows the log of events. Together: the store of an informer that has
    emptied its queue is the state of the API server at the version reached, unless a relist is unsafe.
  \<^item> \<open>Exponential_Backoff\<close> (\<open>pkg/util/goroutinemap/exponentialbackoff\<close>): the delay doubles up to its
    limit, and a retry is refused exactly during the delay.
  \<^item> \<open>Operation_Table\<close>: the contract of a table of pending operations (a locale) and the reachable
    states of such a table with the operations in flight as a multiset.
    \<open>Nested_Pending_Operations\<close> (\<open>pkg/volume/util/nestedpendingoperations\<close>) and \<open>Goroutine_Map\<close>
    (\<open>pkg/util/goroutinemap\<close>) are instances: exclusion, no panic on completion, retry; and the runs in
    which nested operations overlap or stay forever.
  \<^item> \<open>Volume_Plugins\<close> (\<open>pkg/volume/plugins.go\<close>, \<open>volumehelper\<close>, validation of qualified names):
    registration and lookup of plugins, unique names of volumes. A plugin is a record of functions.
  \<^item> \<open>Operation_Types\<close>, \<open>Operation_Generator\<close>, \<open>Operation_Executor\<close>
    (\<open>pkg/volume/util/operationexecutor\<close>): the closures that the generator returns are values of
    \<open>opfunc\<close>, \<open>run_func\<close> is their code. They work on a cache through one of two interfaces; the
    locales \<open>attacher_updater\<close>, \<open>reporting_updater\<close> and \<open>mounter_updater\<close> state what they need from it. The
    executor keeps the running goroutines; \<open>finish\<close> ends one of them.
  \<^item> \<open>AD_Actual_State\<close>, \<open>AD_Desired_State\<close>, \<open>Node_Status_Updater\<close>, \<open>AD_Reconciler\<close>
    (\<open>pkg/controller/volume/attachdetach\<close>): the caches refine plain sets; the actual state is an
    interpretation of \<open>reporting_updater\<close>; \<open>ad_step\<close> is the relation of all interleavings of the
    reconciler with goroutines, populator and node updates.
  \<^item> \<open>Mount_Util\<close> (\<open>pkg/util/mount\<close>: \<open>mount.go\<close>, \<open>mount_linux.go\<close>, \<open>fake.go\<close>): the mount table,
    reading it back, and \<open>FormatAndMount\<close>; the locale \<open>mount_table\<close> is the contract of a mounter.
  \<^item> \<open>File_System\<close>, \<open>Atomic_Writer\<close>, \<open>Atomic_Progress\<close> (\<open>pkg/volume/util/atomic_writer.go\<close>): the files of config map, secret and downward API
    volumes. \<open>File_System\<close> is package \<open>os\<close> on a tree with symbolic links, where every call that changes files can
    fail, with the trace of all states; \<open>Atomic_Writer\<close> proves that the layout is kept, that readers see all the old or all the
    new files in each of these states, and shows the payloads that get lost; \<open>Atomic_Progress\<close> that a write gets done
    when no call fails.
  \<^item> \<open>Projected_Volumes\<close> (\<open>pkg/volume/configmap\<close>, \<open>secret\<close>, \<open>downwardapi\<close>, \<open>pkg/fieldpath\<close>, \<open>pkg/volume/volume_linux.go\<close>): their
    payloads, the set-up on top of the atomic writer, and the ownership of the files (locale \<open>attr_call\<close> for the calls that change only
    attributes). \<open>Empty_Dir\<close> (\<open>pkg/volume/empty_dir\<close>): the
    volume that they wrap, on the files of the whole kubelet.
  \<^item> \<open>NVMEOF\<close> (\<open>pkg/volume/nvmeof\<close>, and its validation and defaults in \<open>pkg/api\<close>): the whole plugin,
    set-up and tear-down over a node with \<open>nvme\<close> and mounts (locales \<open>nvmeof_node\<close>, \<open>disk_manager\<close>).
  \<^item> \<open>Kubelet_Actual_State\<close>, \<open>Kubelet_Desired_State\<close>, \<open>Kubelet_Reconciler\<close>, \<open>Kubelet_Reconstruction\<close>,
    \<open>Kubelet_Volume_Manager\<close> (\<open>pkg/kubelet/volumemanager\<close>): the caches refine plain sets, and the
    actual state is an interpretation of \<open>mounter_updater\<close> and \<open>attacher_updater\<close>; \<open>kr_step\<close> is the
    relation of the interleavings, \<open>k_run\<close> executes a schedule; reconstruction from the pod directories;
    the populator; \<open>GetVolumesInUse\<close> and \<open>WaitForAttachAndMount\<close>.
  \<^item> \<open>PV_Index\<close>, \<open>PV_Controller\<close> (\<open>pkg/controller/volume/persistentvolume\<close>: \<open>index.go\<close>, \<open>pv_controller.go\<close>,
    \<open>pv_controller_base.go\<close>): the search for the best volume against its specification, and all methods of
    the controller. \<open>Kube_API\<close>: the API client as a record of functions, and the registry
    (\<open>pkg/registry/generic/registry/store.go\<close>, the strategies of volumes and claims) as an instance; the
    locale \<open>optimistic_update\<close> states the contract of a write, and each of the four writes interprets it.
    \<open>PV_Binding\<close>: cached versions only grow; \<open>ctrl_inv\<close> is kept by every method for every API server and
    every plugin, hence no panic. \<open>PV_Convergence\<close>: on the registry, no volume is taken from
    another claim, a matching volume is bound, and a bound pair is left alone. \<open>PV_Reclaim\<close>: volumes in
    use are not reclaimed, released ones are, and a claim gets one provisioned volume.
  \<^item> This theory: the detach protocol between the two sides.

  \<^bold>\<open>Correspondence.\<close> Definitions have the names of the Go functions, with a prefix where two
  components share a name (\<open>ka\<close>, \<open>kd\<close>, \<open>kr\<close> for the kubelet's caches and reconciler, \<open>nvmeof\<close> for the
  plugin, \<open>grm\<close> for the goroutine map). A struct is a record; a method that holds a lock is one function
  from state to result and state; an error result is \<open>error option\<close> (nil is \<open>None\<close>) or \<open>error + 'a\<close>; a
  panic is \<open>None\<close>; \<open>time.Now\<close> is an argument. The body of a loop that others can interrupt is a
  definition of its own (\<open>_iteration\<close>), and one step of the step relations; an iteration that takes
  several locks is still one step. The texts of errors are shortened to their constant part. Logging has no effect.

  \<^bold>\<open>Parameters.\<close> The outside world is a value of an arbitrary type, and what the code calls there are
  fields of records: plugins, API server and events (\<open>outside\<close>), the status patch
  (\<open>nodeStatusUpdater\<close>), directories (\<open>k_reconciler\<close>), pods and container runtime
  (\<open>populator_env\<close>), commands and files of a node, the API client and the plugins of the persistent volume
  controller (\<open>pv_config\<close>). The theorems hold for every value of these fields,
  or say what they need as a hypothesis, and the witnesses give fields for which it holds.

  \<^bold>\<open>Termination and bounds.\<close> All loops are folds or structural recursions, so every definition is
  total. The number of ticks of \<open>wait.Poll\<close> and of the loops that wait for a device is an argument, and
  the statements hold for each number. Durations are saturated at 64 bits as in Go; ports and
  other 32-bit fields are words.

  A pass of a worker of the persistent volume controller is one step of \<open>pv_run\<close>, and so is the body of one of
  its goroutines; the API server may change between any two calls in it, since the client may be any function.

  \<^bold>\<open>Not modelled.\<close> The timers around the passes (\<open>wait.Until\<close>, the resync timer of a reflector) only call the passes
  modelled here at unknown times; so do shared informers, which forward the notifications to several handlers. Of the API server:
  validation and generated fields (parameters of the instance \<open>etcd_client\<close>), finalizers, graceful deletion, watches and
  the storage backend. The delaying and rate limiting work queues and the text form of label selectors are not used by the
  volume subsystem. The other plugins (cloud disks, network file systems, host paths, repositories) appear only as
  parameters. Of the projected volumes, the value of a container resource in a downward API file is a parameter, and so is the empty-dir
  volume below them, since \<open>Empty_Dir\<close> sees the files of the whole kubelet. The rest of the Kubernetes tree (API machinery, scheduler, networking, generated and vendored
  code) is not about volumes; the other directories of the repository hold documents and no Go code.
\<close>

section \<open>Both ends of the detach protocol\<close>


definition sample_detach_os :: "unit outside" where
  "sample_detach_os = sample_outside\<lparr>os_GetNode := (\<lambda>n _. Inr (Some \<lparr>node_Name = n, node_Annotations = [],
     node_VolumesAttached = [], node_VolumesInUse = [''p/v'']\<rparr>))\<rparr>"

definition sample_detach_volume :: AttachedVolume where
  "sample_detach_volume = \<lparr>atv_VolumeName = ''p/v'', atv_VolumeSpec = sample_spec, atv_NodeName = ''n'',
     atv_PluginIsAttachable = True, atv_DevicePath = ''/dev/x''\<rparr>"


end
